(* ===== verification/Prelude.thy ===== *)
theory Prelude
  imports Main "HOL-Library.Char_ord" "HOL-Library.List_Lexorder"
    "HOL-Library.Product_Lexorder" "HOL-Library.AList"
begin

text \<open>
  What every component of the development shares: the exceptions of
  \<open>common/contracts/errors.py\<close> as values, the sequencing of code that may raise, the
  collecting loop (a Python \<open>for\<close> that extends a list and may raise), \<open>sorted(set(..))\<close>,
  decimal numerals and \<open>repr\<close>. Dictionaries are association lists in insertion order
  (\<open>map_of\<close> is the lookup, \<open>AList.update\<close> the assignment).
\<close>

named_theorems result_simps \<open>facts that resolve sequenced computations\<close>

section \<open>Exceptions as values\<close>

text \<open>
  The exception classes the modelled code raises. The text names the check that failed;
  it stands for the message.
\<close>

datatype err =
    ContractError string
  | SchemaRefusal string
  | ApprovalRefusal string
  | FatalAccounting string
  | KeyError string
  | ValueError string
  | BackgroundInferenceRefusal string
  | TypeError string
  | IdentityRefusal string
  | IncompatibleReuse string

type_synonym 'a result = "err + 'a"

definition rbind :: "('e + 'a) \<Rightarrow> ('a \<Rightarrow> 'e + 'b) \<Rightarrow> 'e + 'b" where
  "rbind r f = (case r of Inl e \<Rightarrow> Inl e | Inr x \<Rightarrow> f x)"

definition ensure :: "bool \<Rightarrow> 'e \<Rightarrow> 'e + unit" where
  "ensure b e = (if b then Inr () else Inl e)"

definition rget :: "'e \<Rightarrow> 'a option \<Rightarrow> 'e + 'a" where
  "rget e x = (case x of None \<Rightarrow> Inl e | Some y \<Rightarrow> Inr y)"

lemma rbind_simps [simp]:
  "rbind (Inl e) f = Inl e"
  "rbind (Inr x) f = f x"
  by (simp_all add: rbind_def)

lemma rbind_Inr_iff [result_simps]:
  "rbind r f = Inr y \<longleftrightarrow> (\<exists>x. r = Inr x \<and> f x = Inr y)"
  by (cases r) auto

lemma ensure_Inr_iff [result_simps]: "ensure b e = Inr u \<longleftrightarrow> b"
  by (simp add: ensure_def)

lemma ensure_True [simp]: "ensure True e = Inr ()"
  by (simp add: ensure_def)

lemma rget_Inr_iff [result_simps]: "rget e x = Inr y \<longleftrightarrow> x = Some y"
  by (simp add: rget_def split: option.splits)

lemma rbind_cong [fundef_cong]:
  "r = r' \<Longrightarrow> (\<And>x. r' = Inr x \<Longrightarrow> f x = f' x) \<Longrightarrow> rbind r f = rbind r' f'"
  by (cases r') auto

lemma if_Inl_Inr_iff [result_simps]:
  "(if b then Inl e else r) = Inr y \<longleftrightarrow> \<not> b \<and> r = Inr y"
  by simp

section \<open>Loops that build a list and may raise\<close>

text \<open>A comprehension whose element expression may raise.\<close>

fun rmap :: "('a \<Rightarrow> 'e + 'b) \<Rightarrow> 'a list \<Rightarrow> 'e + 'b list" where
  "rmap f [] = Inr []"
| "rmap f (x # xs) = rbind (f x) (\<lambda>y. rbind (rmap f xs) (\<lambda>ys. Inr (y # ys)))"

text \<open>A loop whose body extends one list and may raise; the first exception ends it.\<close>

fun collect :: "('a \<Rightarrow> 'e + 'b list) \<Rightarrow> 'a list \<Rightarrow> 'e + 'b list" where
  "collect f [] = Inr []"
| "collect f (x # xs) = rbind (f x) (\<lambda>ys. rbind (collect f xs) (\<lambda>zs. Inr (ys @ zs)))"

lemma collect_Inr_iff:
  "collect f xs = Inr rs \<longleftrightarrow>
     (\<forall>x \<in> set xs. \<exists>ys. f x = Inr ys) \<and> rs = concat (map (\<lambda>x. projr (f x)) xs)"
  by (induction xs arbitrary: rs) (fastforce simp: result_simps)+

lemma collect_empty_iff:
  assumes "collect f xs = Inr rs"
  shows "rs = [] \<longleftrightarrow> (\<forall>x \<in> set xs. f x = Inr [])"
  using assms by (fastforce simp: collect_Inr_iff)

lemma collect_Inr_all: "collect f xs = Inr rs \<Longrightarrow> x \<in> set xs \<Longrightarrow> \<exists>ys. f x = Inr ys"
  by (auto simp: collect_Inr_iff)

lemma rmap_Inr_iff:
  "rmap f xs = Inr ys \<longleftrightarrow> list_all2 (\<lambda>x y. f x = Inr y) xs ys"
  by (induction xs arbitrary: ys) (auto simp: result_simps list_all2_Cons1)

lemma rmap_total:
  assumes "\<And>x. x \<in> set xs \<Longrightarrow> \<exists>y. f x = Inr y"
  shows "\<exists>zs. rmap f xs = Inr zs"
  using assms by (induction xs) (force simp: result_simps)+

lemma rmap_error: "rmap f xs = Inl e \<Longrightarrow> \<exists>x \<in> set xs. f x = Inl e"
proof (induction xs)
  case (Cons x xs)
  then show ?case by (cases "f x"; cases "rmap f xs") auto
qed simp

lemma rmap_nth: "rmap f xs = Inr zs \<Longrightarrow> length zs = length xs \<and> (\<forall>k < length xs. f (xs ! k) = Inr (zs ! k))"
  by (simp add: rmap_Inr_iff list_all2_conv_all_nth)

text \<open>
  A check run over a list: each element yields the reasons it is not in order, and is
  clean when it yields none. What a provider promises is that its reasons are empty
  exactly on clean elements; then the loop's reasons are empty exactly when every element
  is clean.
\<close>

locale audit =
  fixes check :: "'a \<Rightarrow> 'e + 'r list"
    and clean :: "'a \<Rightarrow> bool"
  assumes check_clean: "check x = Inr rs \<Longrightarrow> rs = [] \<longleftrightarrow> clean x"
begin

lemma collect_clean:
  assumes run: "collect check xs = Inr rs"
  shows "rs = [] \<longleftrightarrow> (\<forall>x \<in> set xs. clean x)"
proof -
  have "check x = Inr [] \<longleftrightarrow> clean x" if "x \<in> set xs" for x
    using collect_Inr_all [OF run that] check_clean [of x] by auto
  then show ?thesis using collect_empty_iff [OF run] by simp
qed

lemma collect_dirty:
  "collect check xs = Inr rs \<Longrightarrow> x \<in> set xs \<Longrightarrow> \<not> clean x \<Longrightarrow> rs \<noteq> []"
  using collect_clean by blast

end

section \<open>Sorted sets\<close>

text \<open>\<open>sorted(set(xs))\<close>, with Python's code-point order on strings.\<close>

definition sorted_set :: "'a::linorder list \<Rightarrow> 'a list" where
  "sorted_set xs = sort (remdups xs)"

lemma set_sorted_set [simp]: "set (sorted_set xs) = set xs"
  by (simp add: sorted_set_def)

lemma sorted_set_Nil_iff [simp]: "sorted_set xs = [] \<longleftrightarrow> xs = []"
  by (metis set_empty set_sorted_set)

lemma sorted_sorted_set [simp]: "sorted (sorted_set xs)"
  by (simp add: sorted_set_def)

lemma distinct_sorted_set [simp]: "distinct (sorted_set xs)"
  by (simp add: sorted_set_def)

lemma sorted_set_eq [simp]: "sorted_set [] = []"
  by (simp add: sorted_set_def)

section \<open>Decimal numerals and repr\<close>

fun show_nat :: "nat \<Rightarrow> string" where
  "show_nat n = (if n < 10 then [char_of (48 + n)]
                 else show_nat (n div 10) @ [char_of (48 + n mod 10)])"

declare show_nat.simps [simp del]

definition show_int :: "int \<Rightarrow> string" where
  "show_int i = (if i < 0 then ''-'' @ show_nat (nat (- i)) else show_nat (nat i))"

text \<open>
  \<open>repr\<close> of a string: single quotes unless the text holds a single quote and no double
  one; the quote, the backslash and the control characters are escaped. Characters above
  126 print as themselves, as every printable character does.
\<close>

definition hex_digit :: "nat \<Rightarrow> char" where
  "hex_digit n = (if n < 10 then char_of (48 + n) else char_of (87 + n))"

definition repr_char :: "char \<Rightarrow> char \<Rightarrow> string" where
  "repr_char q c = (let n = of_char c :: nat in
     if c = q \<or> n = 92 then [CHR 0x5C, c]
     else if n = 10 then [CHR 0x5C, CHR ''n'']
     else if n = 13 then [CHR 0x5C, CHR ''r'']
     else if n = 9 then [CHR 0x5C, CHR ''t'']
     else if n < 32 \<or> n = 127 then
       [CHR 0x5C, CHR ''x'', hex_digit (n div 16), hex_digit (n mod 16)]
     else [c])"

definition repr_str :: "string \<Rightarrow> string" where
  "repr_str s =
     (let q = (if CHR 0x27 \<in> set s \<and> CHR 0x22 \<notin> set s then CHR 0x22 else CHR 0x27)
      in q # concat (map (repr_char q) s) @ [q])"


section \<open>Text and JSON values\<close>

text \<open>
  A text is its list of code points, as a Python string is; \<open>u\<close> writes an ASCII literal.
  A decoded JSON or TOML value; a number that is no integer is a \<open>JFloat\<close>, whose value no
  modelled code reads.
\<close>

type_synonym ustr = "int list"

definition u :: "string \<Rightarrow> ustr" where
  "u s = map of_char s"

datatype json =
  JNull | JBool bool | JInt int | JFloat | JStr ustr | JList "json list" | JObj "(ustr \<times> json) list"

text \<open>Set equality of the keys of an object with a closed list of names.\<close>

definition keys_are :: "(ustr \<times> 'a) list \<Rightarrow> string list \<Rightarrow> bool" where
  "keys_are kvs names \<longleftrightarrow> set (map fst kvs) = set (map u names)"

definition field :: "(ustr \<times> 'a) list \<Rightarrow> string \<Rightarrow> 'a option" where
  "field kvs name = map_of kvs (u name)"

lemma u_inject [simp]: "u s = u t \<longleftrightarrow> s = t"
proof -
  have "inj (of_char :: char \<Rightarrow> int)" by (rule inj_of_char)
  then show ?thesis by (simp add: u_def inj_map_eq_map)
qed

lemma keys_are_field: "keys_are kvs names \<Longrightarrow> name \<in> set names \<Longrightarrow> \<exists>v. field kvs name = Some v"
  by (metis (no_types, lifting) field_def image_eqI keys_are_def list.set_map map_of_eq_None_iff
      option.exhaust)

text \<open>\<open>str.isspace\<close> on a code point, and \<open>str.strip\<close> leaving nothing.\<close>

definition space_point :: "int \<Rightarrow> bool" where
  "space_point n \<longleftrightarrow> 9 \<le> n \<and> n \<le> 13 \<or> 28 \<le> n \<and> n \<le> 32 \<or> n = 133 \<or> n = 160 \<or> n = 5760 \<or>
     8192 \<le> n \<and> n \<le> 8202 \<or> n = 8232 \<or> n = 8233 \<or> n = 8239 \<or> n = 8287 \<or> n = 12288"

definition blank :: "ustr \<Rightarrow> bool" where
  "blank s = list_all space_point s"

end
