(* ===== verification/Outcomes.thy ===== *)
theory Outcomes
  imports Prelude
begin

text \<open>
  The outcome algebra, \<open>common/contracts/outcomes.py\<close>: the closed vocabulary of every
  stage, the transition table to the terminal categories, the consistency check of the
  two, witness coverage, and \<open>run_aggregate\<close>, which names every reason a run is not
  complete. A sentence the code formats is a constructor of \<open>reason\<close> carrying the
  sentence's arguments. A value of type \<open>Any\<close> is a \<open>pyany\<close>. Identifiers are strings,
  compared and ordered by code point.
\<close>

section \<open>Classes, categories and values\<close>

datatype outcome_class = COMPLETED | UNRESOLVED | FAILED

datatype category =
  DELIVERED | HELD_FOR_REVIEW | EXCLUDED_WITH_APPROVAL | CONFIRMED_BLANK | REFUSED_WITH_REASON

text \<open>A value read from a record: \<open>None\<close>, a string, or anything else.\<close>

datatype pyany = PyNone | PyStr string | PyOther

definition class_value :: "outcome_class \<Rightarrow> string" where
  "class_value k = (case k of COMPLETED \<Rightarrow> ''completed'' | UNRESOLVED \<Rightarrow> ''unresolved''
     | FAILED \<Rightarrow> ''failed'')"

definition category_value :: "category \<Rightarrow> string" where
  "category_value c = (case c of DELIVERED \<Rightarrow> ''delivered''
     | HELD_FOR_REVIEW \<Rightarrow> ''held-for-review''
     | EXCLUDED_WITH_APPROVAL \<Rightarrow> ''excluded-with-approval''
     | CONFIRMED_BLANK \<Rightarrow> ''confirmed-blank''
     | REFUSED_WITH_REASON \<Rightarrow> ''refused-with-reason'')"

abbreviation (input) "DOOR \<equiv> ''door''"
abbreviation (input) "EXEMPLAR \<equiv> ''exemplar''"
abbreviation (input) "INK_MAP \<equiv> ''ink-map''"
abbreviation (input) "DESIGNATOR \<equiv> ''designator''"
abbreviation (input) "ATTESTATORES \<equiv> ''attestatores''"
abbreviation (input) "PERLECTOR \<equiv> ''perlector''"
abbreviation (input) "CONIECTOR \<equiv> ''coniector''"
abbreviation (input) "RECENSOR \<equiv> ''recensor''"
abbreviation (input) "ARCHETYPUS \<equiv> ''archetypus''"
abbreviation (input) "ARMARIUM \<equiv> ''armarium''"

definition WITNESS_READING_OUTCOMES :: "string list" where
  "WITNESS_READING_OUTCOMES = [''read'', ''genuinely-empty'']"

section \<open>The vocabularies and the transition table\<close>

type_synonym vocabularies = "(string \<times> (string \<times> outcome_class) list) list"
type_synonym transition_table = "((string \<times> string) \<times> category option) list"

definition declared_vocabularies :: vocabularies where
  "declared_vocabularies =
    [(DOOR, [(''admitted'', COMPLETED), (''refused'', FAILED)]),
     (EXEMPLAR, [(''sealed'', COMPLETED), (''refused'', FAILED)]),
     (INK_MAP, [(''mapped'', COMPLETED), (''unclaimed-edge-ink'', UNRESOLVED),
                (''ink-not-measurable'', UNRESOLVED)]),
     (DESIGNATOR, [(''proposed'', COMPLETED), (''failed'', FAILED)]),
     (ATTESTATORES, [(''read'', COMPLETED), (''genuinely-empty'', COMPLETED),
                     (''failed'', FAILED), (''dead'', FAILED), (''not-run'', UNRESOLVED),
                     (''excluded'', COMPLETED)]),
     (PERLECTOR, [(''read'', COMPLETED), (''failed'', FAILED), (''not-run'', UNRESOLVED),
                  (''held'', UNRESOLVED)]),
     (RECENSOR, [(''accepted'', COMPLETED), (''confirmed-blank'', COMPLETED),
                 (''held-for-review'', UNRESOLVED), (''failed'', FAILED),
                 (''excluded'', COMPLETED)]),
     (ARCHETYPUS, [(''established'', COMPLETED), (''refused'', FAILED)]),
     (CONIECTOR, [(''planned'', COMPLETED), (''answered'', COMPLETED),
                  (''not-answered'', FAILED), (''made'', COMPLETED),
                  (''not-made'', UNRESOLVED)]),
     (ARMARIUM, [(category_value DELIVERED, COMPLETED),
                 (category_value HELD_FOR_REVIEW, UNRESOLVED),
                 (category_value EXCLUDED_WITH_APPROVAL, COMPLETED),
                 (category_value CONFIRMED_BLANK, COMPLETED),
                 (category_value REFUSED_WITH_REASON, FAILED)])]"

definition BOUNDARY_OUTCOMES :: "(string \<times> string) list" where
  "BOUNDARY_OUTCOMES =
    [(''stage-seal'', ''sealed''), (''decode-environment'', ''recorded''),
     (''chandra-native-attempt-intent'', ''recorded''),
     (''chandra-native-attempt'', ''recorded''), (''review-decisions'', ''recorded''),
     (''witness-routing'', ''recorded'')]"

text \<open>
  The import-time loops: each stage declares every boundary outcome as completed, and a
  hand-declared entry that disagrees stops the import.
\<close>

fun declare_boundary ::
  "(string \<times> outcome_class) list \<Rightarrow> string list \<Rightarrow> (string \<times> outcome_class) list result" where
  "declare_boundary voc [] = Inr voc"
| "declare_boundary voc (out # outs) =
     (case map_of voc out of
        Some k \<Rightarrow> if k \<noteq> COMPLETED then Inl (FatalAccounting ''boundary overwrites'')
                  else declare_boundary (AList.update out COMPLETED voc) outs
      | None \<Rightarrow> declare_boundary (AList.update out COMPLETED voc) outs)"

definition declare_boundaries :: "vocabularies \<Rightarrow> vocabularies result" where
  "declare_boundaries vs =
     rmap (\<lambda>(stage, voc).
       rbind (declare_boundary voc (map snd BOUNDARY_OUTCOMES)) (\<lambda>v. Inr (stage, v))) vs"

definition VOCABULARIES :: vocabularies where
  "VOCABULARIES = projr (declare_boundaries declared_vocabularies)"

definition declared_transitions :: transition_table where
  "declared_transitions =
    [((DOOR, ''admitted''), None), ((DOOR, ''refused''), Some REFUSED_WITH_REASON),
     ((EXEMPLAR, ''sealed''), None), ((EXEMPLAR, ''refused''), Some REFUSED_WITH_REASON),
     ((INK_MAP, ''mapped''), None), ((INK_MAP, ''unclaimed-edge-ink''), None),
     ((INK_MAP, ''ink-not-measurable''), None),
     ((DESIGNATOR, ''proposed''), None), ((DESIGNATOR, ''failed''), Some REFUSED_WITH_REASON),
     ((ATTESTATORES, ''read''), None), ((ATTESTATORES, ''genuinely-empty''), None),
     ((ATTESTATORES, ''failed''), None), ((ATTESTATORES, ''dead''), None),
     ((ATTESTATORES, ''not-run''), None), ((ATTESTATORES, ''excluded''), None),
     ((PERLECTOR, ''read''), None), ((PERLECTOR, ''failed''), None),
     ((PERLECTOR, ''not-run''), None), ((PERLECTOR, ''held''), None),
     ((RECENSOR, ''accepted''), None), ((RECENSOR, ''confirmed-blank''), Some CONFIRMED_BLANK),
     ((RECENSOR, ''held-for-review''), Some HELD_FOR_REVIEW),
     ((RECENSOR, ''failed''), Some REFUSED_WITH_REASON),
     ((RECENSOR, ''excluded''), Some EXCLUDED_WITH_APPROVAL),
     ((ARCHETYPUS, ''established''), Some DELIVERED),
     ((ARCHETYPUS, ''refused''), Some REFUSED_WITH_REASON),
     ((CONIECTOR, ''planned''), None), ((CONIECTOR, ''answered''), None),
     ((CONIECTOR, ''not-answered''), None), ((CONIECTOR, ''made''), None),
     ((CONIECTOR, ''not-made''), None),
     ((ARMARIUM, category_value DELIVERED), Some DELIVERED),
     ((ARMARIUM, category_value HELD_FOR_REVIEW), Some HELD_FOR_REVIEW),
     ((ARMARIUM, category_value EXCLUDED_WITH_APPROVAL), Some EXCLUDED_WITH_APPROVAL),
     ((ARMARIUM, category_value CONFIRMED_BLANK), Some CONFIRMED_BLANK),
     ((ARMARIUM, category_value REFUSED_WITH_REASON), Some REFUSED_WITH_REASON)]"

fun declare_transitions ::
  "transition_table \<Rightarrow> (string \<times> string) list \<Rightarrow> transition_table result" where
  "declare_transitions table [] = Inr table"
| "declare_transitions table (key # keys) =
     (case map_of table key of
        Some (Some _) \<Rightarrow> Inl (FatalAccounting ''boundary declared terminal'')
      | _ \<Rightarrow> declare_transitions (AList.update key None table) keys)"

definition boundary_keys :: "vocabularies \<Rightarrow> (string \<times> string) list" where
  "boundary_keys vs = concat (map (\<lambda>(stage, _). map (\<lambda>(_, out). (stage, out)) BOUNDARY_OUTCOMES) vs)"

definition TERMINAL_CATEGORY :: transition_table where
  "TERMINAL_CATEGORY = projr (declare_transitions declared_transitions (boundary_keys VOCABULARIES))"

section \<open>Classification and the totality check\<close>

definition classify :: "string \<Rightarrow> pyany \<Rightarrow> outcome_class result" where
  "classify stage outcome =
     (case map_of VOCABULARIES stage of
        None \<Rightarrow> Inl (FatalAccounting ''no outcome vocabulary'')
      | Some voc \<Rightarrow>
          (case outcome of
             PyStr s \<Rightarrow> rget (FatalAccounting ''in no terminal set'') (map_of voc s)
           | _ \<Rightarrow> Inl (FatalAccounting ''in no terminal set'')))"

definition terminal_category :: "string \<Rightarrow> pyany \<Rightarrow> category option result" where
  "terminal_category stage outcome =
     rbind (classify stage outcome) (\<lambda>_.
       case outcome of
         PyStr s \<Rightarrow> rget (FatalAccounting ''no transition entry'') (map_of TERMINAL_CATEGORY (stage, s))
       | _ \<Rightarrow> Inl (FatalAccounting ''no transition entry''))"

definition require_approval :: "string \<Rightarrow> pyany \<Rightarrow> pyany \<Rightarrow> unit result" where
  "require_approval stage outcome approval_ref =
     (if outcome \<notin> {PyStr ''excluded'', PyStr (category_value EXCLUDED_WITH_APPROVAL)} then Inr ()
      else case approval_ref of
             PyStr ref \<Rightarrow> ensure (ref \<noteq> []) (ApprovalRefusal ''no approval-record reference'')
           | _ \<Rightarrow> Inl (ApprovalRefusal ''no approval-record reference''))"

text \<open>
  \<open>check_algebra_is_total\<close>, over any pair of tables: the class of an outcome is a class by
  its type, so the code's second check cannot fail here. The Armarium vocabulary it
  compares with is looked up in the same table.
\<close>

definition check_outcome ::
  "vocabularies \<Rightarrow> transition_table \<Rightarrow> string \<Rightarrow> string \<times> outcome_class \<Rightarrow> unit result" where
  "check_outcome vs table stage oc =
     (case map_of table (stage, fst oc) of
        None \<Rightarrow> Inl (FatalAccounting ''missing from the transition table'')
      | Some None \<Rightarrow> Inr ()
      | Some (Some cat) \<Rightarrow>
          (case map_of vs ARMARIUM of
             None \<Rightarrow> Inl (KeyError ''armarium'')
           | Some arm \<Rightarrow>
               (case map_of arm (category_value cat) of
                  None \<Rightarrow> Inl (KeyError ''category'')
                | Some k \<Rightarrow> ensure (k = snd oc)
                    (FatalAccounting ''a unit would change class by crossing a boundary''))))"

definition check_algebra_is_total :: "vocabularies \<Rightarrow> transition_table \<Rightarrow> unit result" where
  "check_algebra_is_total vs table =
     rbind (collect (\<lambda>(stage, voc).
              rbind (ensure (voc \<noteq> []) (FatalAccounting ''empty vocabulary''))
                (\<lambda>_. collect (\<lambda>oc. rbind (check_outcome vs table stage oc) (\<lambda>_. Inr [])) voc)) vs
            :: unit list result)
       (\<lambda>_. rbind (collect (\<lambda>((stage, out), _).
              rbind (ensure (map_of (case map_of vs stage of None \<Rightarrow> [] | Some voc \<Rightarrow> voc) out \<noteq> None)
                       (FatalAccounting ''a state invented by the table itself''))
                (\<lambda>_. Inr [])) table :: unit list result)
       (\<lambda>_. Inr ()))"

section \<open>Text status and witness coverage\<close>

text \<open>
  An uncertainty layer as \<open>derive_record_text_status\<close> reads it: \<open>None\<close> when it is no
  mapping or its \<open>gaps\<close> is no list, else the number of gaps. A text is characters of code
  point up to 255, and \<open>str.strip\<close> removes those of them that are white space.
\<close>

definition TEXT_STATUSES :: "string list" where
  "TEXT_STATUSES = [''established'', ''partial'', ''no_readable_text'']"

definition is_space :: "char \<Rightarrow> bool" where
  "is_space c = space_point (of_char c)"

definition derive_record_text_status :: "pyany \<Rightarrow> nat option \<Rightarrow> string result" where
  "derive_record_text_status text gaps =
     (case text of
        PyStr t \<Rightarrow>
          (case gaps of
             None \<Rightarrow> Inl (SchemaRefusal ''no gap list'')
           | Some g \<Rightarrow> Inr (if g > 0 then ''partial''
                            else if list_all is_space t then ''no_readable_text''
                            else ''established''))
      | _ \<Rightarrow> Inl (SchemaRefusal ''not one string text field''))"

text \<open>
  A coverage record: an optional field is absent or of another type where it is \<open>None\<close>. The two flags
  are those the aggregate requires; \<open>truncated\<close> is \<open>shortfalls.truncated\<close>, which a page review adds.
\<close>

record coverage =
  cv_configured :: int
  cv_floor :: "int option"
  cv_by_outcome :: "(string \<times> int) list option"
  cv_by_class :: "(outcome_class \<times> int) list"
  under_witnessed :: "bool option"
  unresolved_chairs :: "int option"
  cv_truncated :: "int option"

definition get_count :: "('k \<times> int) list \<Rightarrow> 'k \<Rightarrow> int" where
  "get_count m k = (case map_of m k of None \<Rightarrow> 0 | Some n \<Rightarrow> n)"

definition bump :: "'k \<Rightarrow> ('k \<times> int) list \<Rightarrow> ('k \<times> int) list" where
  "bump k m = AList.update k (get_count m k + 1) m"

fun count_chairs ::
  "(string \<times> pyany) list \<Rightarrow> (string \<times> int) list \<times> (outcome_class \<times> int) list \<Rightarrow>
   ((string \<times> int) list \<times> (outcome_class \<times> int) list) result" where
  "count_chairs [] acc = Inr acc"
| "count_chairs ((chair, outcome) # rest) (by_outcome, by_class) =
     (if chair = [] then Inl (FatalAccounting ''an unnamed chair'')
      else rbind (classify ATTESTATORES outcome) (\<lambda>k.
        case outcome of
          PyStr out \<Rightarrow> count_chairs rest (bump out by_outcome, bump k by_class)
        | _ \<Rightarrow> Inl (FatalAccounting ''in no terminal set'')))"

definition witness_coverage :: "(string \<times> pyany) list \<Rightarrow> int \<Rightarrow> coverage result" where
  "witness_coverage chair_outcomes configured_floor =
     (if configured_floor < 0 then Inl (FatalAccounting ''negative floor'')
      else rbind (count_chairs chair_outcomes ([], [(COMPLETED, 0), (UNRESOLVED, 0), (FAILED, 0)]))
        (\<lambda>(by_outcome, by_class). Inr
          \<lparr>cv_configured = int (length chair_outcomes), cv_floor = Some configured_floor,
           cv_by_outcome = Some by_outcome, cv_by_class = by_class,
           under_witnessed = Some (get_count by_class COMPLETED < configured_floor),
           unresolved_chairs = Some (get_count by_class UNRESOLVED),
           cv_truncated = None\<rparr>))"

definition witnessed_count :: "coverage \<Rightarrow> int result" where
  "witnessed_count c =
     rbind (rget (KeyError ''by_outcome'') (cv_by_outcome c)) (\<lambda>by_outcome.
     rbind (rget (KeyError ''shortfalls'') (cv_truncated c)) (\<lambda>t.
       Inr (sum_list (map (get_count by_outcome) WITNESS_READING_OUTCOMES) - t)))"

end
