(* ===== verification/Aggregate.thy ===== *)
theory Aggregate
  imports Outcomes
begin

text \<open>
  \<open>run_aggregate\<close> of \<open>common/contracts/outcomes.py\<close>, section by section in the code's
  order, so the first exception is the code's. A dictionary argument that may be \<open>None\<close>
  and is read with \<open>or {}\<close> is an association list.
\<close>

section \<open>The arguments and the reasons\<close>

record page_row =
  page_outcome :: pyany
  page_reason :: "string option"

record join =
  join_id :: string
  join_status :: string
  head_page_ordinal :: int
  tail_page_ordinal :: int
  not_reconstructed_reason :: string

datatype subject = SubjStr string | SubjInt int | SubjOther

text \<open>
  A review clearance row; \<open>None\<close> in an optional field is a value of another type. The
  closed key set of the row is the record's.
\<close>

record clearance =
  cl_scope :: string
  cl_subject :: subject
  cl_page :: "int option"
  cl_decision :: string
  cl_cleared :: "string list option"

record systemic =
  sy_held_pages :: "int list option"
  sy_pages :: "int option"
  sy_limit :: "string option"

record aggregate_input =
  act_categories :: "(string \<times> category) list"
  coverage_records :: "(string \<times> coverage) list"
  page_census :: "(int \<times> page_row) list"
  unaddressed_chairs_in :: "string list"
  act_pages :: "(string \<times> int list) list option"
  act_text_status :: "(string \<times> pyany) list"
  edge_hold_pages :: "int list"
  continuation_joins :: "join list"
  other_categories_by_page :: "(int \<times> string list) list"
  unpaired_continuations :: "(string \<times> string) list"
  review_clearances :: "clearance list"
  review_page_holds :: "(int \<times> string list option) list"
  systemic_review :: "systemic option"

datatype cleared_what = ClearedAct string int | ClearedReading string int | ClearedPage int

datatype (discs_sels) reason =
    NothingReconciled
  | NoAttribution
  | ActNamesNoPage string
  | NoCoverageRecord string
  | ActsWithoutCensus
  | UnaddressedChair string
  | EdgeHold int
  | ContinuationJoin join
  | UnpairedContinuation string string
  | ClearedByOperator cleared_what string "string list"
  | ReviewPageHold int "string list"
  | Systemic "int list" int string
  | UnresolvedAct string category
  | NoTextStatus string
  | TextStatusShort string string
  | UnderWitnessed string int int
  | UnresolvedChairs string int
  | UnsealedPage int string "string option"
  | HeldOtherOnActPage int "string list"
  | SilentPage int
  | NoActPageHeld int "string list"

section \<open>Attribution of acts to pages\<close>

definition attribute_page :: "(int \<times> page_row) list \<Rightarrow> int \<Rightarrow> int result" where
  "attribute_page census ordinal =
     (case map_of census ordinal of
        None \<Rightarrow> Inl (FatalAccounting ''act on a page nobody counted'')
      | Some page \<Rightarrow>
          if page_outcome page \<noteq> PyStr ''sealed''
          then Inl (FatalAccounting ''act on an unsealed page'') else Inr ordinal)"

fun attribute_acts ::
  "(int \<times> page_row) list \<Rightarrow> (string \<times> int list) list \<Rightarrow> string list \<Rightarrow>
   (int list \<times> reason list) result" where
  "attribute_acts census pages [] = Inr ([], [])"
| "attribute_acts census pages (act # acts) =
     (case map_of pages act of
        None \<Rightarrow> rbind (attribute_acts census pages acts) (\<lambda>(ords, rs).
                  Inr (ords, ActNamesNoPage act # rs))
      | Some ordinals \<Rightarrow>
          rbind (rmap (attribute_page census) ordinals) (\<lambda>os.
          rbind (attribute_acts census pages acts) (\<lambda>(ords, rs).
            Inr (os @ ords, rs))))"

definition attributed_pages ::
  "(string \<times> category) list \<Rightarrow> (int \<times> page_row) list \<Rightarrow> (string \<times> int list) list option \<Rightarrow>
   (int list option \<times> reason list) result" where
  "attributed_pages cats census pages =
     (if census = [] then Inr (None, [])
      else case pages of
        None \<Rightarrow> if cats \<noteq> [] then Inr (None, [NoAttribution]) else Inr (Some [], [])
      | Some ps \<Rightarrow>
          if \<not> set (map fst ps) \<subseteq> set (map fst cats)
          then Inl (FatalAccounting ''attribution names unknown acts'')
          else rbind (attribute_acts census ps (sorted_set (map fst cats)))
                 (\<lambda>(ords, rs). Inr (Some ords, rs)))"

section \<open>Operator clearances and the systemic alarm\<close>

definition clearing_decisions :: "string \<Rightarrow> string list" where
  "clearing_decisions scope = (if scope = ''unit'' then [''release'', ''exclude'']
     else if scope = ''page'' then [''no-missed-act''] else [])"

definition repr_subject :: "subject \<Rightarrow> string" where
  "repr_subject s = (case s of SubjStr t \<Rightarrow> repr_str t | SubjInt n \<Rightarrow> show_int n | SubjOther \<Rightarrow> [])"

definition clearance_reason ::
  "(string \<times> category) list \<Rightarrow> (int \<times> page_row) list \<Rightarrow> clearance \<Rightarrow>
   ((string \<times> string) \<times> reason) result" where
  "clearance_reason cats census row =
     rbind (case cl_page row of
              Some p \<Rightarrow> if p \<in> set (map fst census) then Inr p
                        else Inl (FatalAccounting ''not a census page'')
            | None \<Rightarrow> Inl (FatalAccounting ''not a census page'')) (\<lambda>page.
     rbind (case cl_subject row of
              SubjStr t \<Rightarrow>
                if cl_scope row = ''unit'' \<and> t \<noteq> []
                then Inr (if t \<in> set (map fst cats) then ClearedAct t page else ClearedReading t page)
                else Inl (FatalAccounting ''clearance subject'')
            | SubjInt n \<Rightarrow>
                if cl_scope row = ''page'' \<and> n = page then Inr (ClearedPage page)
                else Inl (FatalAccounting ''clearance subject'')
            | SubjOther \<Rightarrow> Inl (FatalAccounting ''clearance subject'')) (\<lambda>what.
     case cl_cleared row of
       None \<Rightarrow> Inl (FatalAccounting ''no clearing decision or no codes'')
     | Some codes \<Rightarrow>
         if cl_decision row \<in> set (clearing_decisions (cl_scope row)) \<and> [] \<notin> set codes
         then Inr ((cl_scope row, repr_subject (cl_subject row)),
                   ClearedByOperator what (cl_decision row) (sort codes))
         else Inl (FatalAccounting ''no clearing decision or no codes'')))"

fun name_clearances ::
  "(string \<times> category) list \<Rightarrow> (int \<times> page_row) list \<Rightarrow> clearance list \<Rightarrow>
   ((string \<times> string) \<times> reason) list \<Rightarrow> ((string \<times> string) \<times> reason) list result" where
  "name_clearances cats census [] named = Inr named"
| "name_clearances cats census (row # rows) named =
     rbind (clearance_reason cats census row) (\<lambda>(key, r).
       if key \<in> set (map fst named) then Inl (FatalAccounting ''named by more than one clearance'')
       else name_clearances cats census rows (named @ [(key, r)]))"

definition clearance_reasons ::
  "clearance list \<Rightarrow> (string \<times> category) list \<Rightarrow> (int \<times> page_row) list \<Rightarrow> reason list result" where
  "clearance_reasons rows cats census =
     rbind (name_clearances cats census rows []) (\<lambda>named. Inr (map snd (sort_key fst named)))"

definition systemic_review_reason :: "systemic \<Rightarrow> reason result" where
  "systemic_review_reason review =
     (case (sy_held_pages review, sy_pages review, sy_limit review) of
        (Some held, Some pages, Some limit) \<Rightarrow>
          if held = [] \<or> \<not> (\<forall>p \<in> set held. 0 < p) \<or> held \<noteq> sorted_set held
             \<or> \<not> int (length held) \<le> pages \<or> limit = []
          then Inl (FatalAccounting ''systemic review record'')
          else Inr (Systemic held pages limit)
      | _ \<Rightarrow> Inl (FatalAccounting ''systemic review record''))"

section \<open>The sections of the aggregate\<close>

definition denominator_reasons :: "aggregate_input \<Rightarrow> reason list" where
  "denominator_reasons a =
     (if act_categories a = [] \<and> page_census a = [] then [NothingReconciled] else [])"

definition coverage_denominator :: "aggregate_input \<Rightarrow> reason list result" where
  "coverage_denominator a =
     (let acts = set (map fst (act_categories a)); covered = set (map fst (coverage_records a))
      in rbind (ensure (covered \<subseteq> acts) (FatalAccounting ''coverage names unknown acts'')) (\<lambda>_.
         Inr (map NoCoverageRecord
           (filter (\<lambda>act. act \<notin> covered) (sorted_set (map fst (act_categories a)))))))"

definition status_denominator :: "aggregate_input \<Rightarrow> reason list result" where
  "status_denominator a =
     rbind (ensure (set (map fst (act_text_status a)) \<subseteq> set (map fst (act_categories a)))
              (FatalAccounting ''text status names unknown acts'')) (\<lambda>_.
       Inr ((if act_categories a \<noteq> [] \<and> page_census a = [] then [ActsWithoutCensus] else [])
            @ map UnaddressedChair (sorted_set (unaddressed_chairs_in a))))"

definition edge_hold_reasons :: "aggregate_input \<Rightarrow> reason list result" where
  "edge_hold_reasons a =
     rbind (ensure (set (edge_hold_pages a) \<subseteq> set (map fst (page_census a)))
              (FatalAccounting ''edge hold on an unknown page'')) (\<lambda>_.
       Inr (map EdgeHold (sorted_set (edge_hold_pages a))
            @ map ContinuationJoin (continuation_joins a)))"

definition CONTINUATION_FLAGS :: "string list" where
  "CONTINUATION_FLAGS = [''continues_from_previous_page'', ''continues_to_next_page'']"

definition unpaired_reasons :: "aggregate_input \<Rightarrow> reason list result" where
  "unpaired_reasons a = collect (\<lambda>(act, flag).
     if act \<notin> set (map fst (act_categories a)) \<or> flag \<notin> set CONTINUATION_FLAGS
     then Inl (FatalAccounting ''unpaired continuation'')
     else Inr [UnpairedContinuation act flag]) (sorted_set (unpaired_continuations a))"

definition page_hold_reasons :: "aggregate_input \<Rightarrow> reason list result" where
  "page_hold_reasons a = collect (\<lambda>ordinal.
     case map_of (review_page_holds a) ordinal of
       Some (Some codes) \<Rightarrow>
         if ordinal \<notin> set (map fst (page_census a)) \<or> codes = []
         then Inl (FatalAccounting ''not a held census page'')
         else if [] \<in> set codes then Inl (FatalAccounting ''not a list of hold codes'')
         else Inr [ReviewPageHold ordinal (sort codes)]
     | _ \<Rightarrow> Inl (FatalAccounting ''not a list of hold codes''))
     (sorted_set (map fst (review_page_holds a)))"

definition systemic_reasons :: "aggregate_input \<Rightarrow> reason list result" where
  "systemic_reasons a = (case systemic_review a of
     None \<Rightarrow> Inr [] | Some s \<Rightarrow> rbind (systemic_review_reason s) (\<lambda>r. Inr [r]))"

definition completed_category :: "category \<Rightarrow> bool" where
  "completed_category c = (case map_of VOCABULARIES ARMARIUM of
     None \<Rightarrow> False | Some voc \<Rightarrow> map_of voc (category_value c) = Some COMPLETED)"

definition act_reasons :: "aggregate_input \<Rightarrow> string \<Rightarrow> reason list result" where
  "act_reasons a act =
     (case map_of (act_categories a) act of
        None \<Rightarrow> Inl (KeyError ''act'')
      | Some cat \<Rightarrow>
        (let unresolved = (if completed_category cat then [] else [UnresolvedAct act cat])
         in if cat \<noteq> DELIVERED then
              (if act \<in> set (map fst (act_text_status a))
               then Inl (FatalAccounting ''text status on an undelivered act'') else Inr unresolved)
            else case map_of (act_text_status a) act of
              None \<Rightarrow> Inr (unresolved @ [NoTextStatus act])
            | Some PyNone \<Rightarrow> Inr (unresolved @ [NoTextStatus act])
            | Some PyOther \<Rightarrow> Inl (FatalAccounting ''unknown text status'')
            | Some (PyStr s) \<Rightarrow>
                if s \<notin> set TEXT_STATUSES then Inl (FatalAccounting ''unknown text status'')
                else Inr (unresolved @ (if s = ''established'' then [] else [TextStatusShort act s]))))"

definition coverage_reasons :: "aggregate_input \<Rightarrow> string \<Rightarrow> reason list result" where
  "coverage_reasons a act =
     (case map_of (coverage_records a) act of
        None \<Rightarrow> Inl (KeyError ''act'')
      | Some rec \<Rightarrow>
        (case (under_witnessed rec, unresolved_chairs rec) of
           (Some short, Some unresolved) \<Rightarrow>
             if unresolved < 0 then Inl (FatalAccounting ''coverage record'')
             else rbind (if short
                    then rbind (witnessed_count rec) (\<lambda>n.
                      rbind (rget (KeyError ''floor'') (cv_floor rec)) (\<lambda>floor. Inr [UnderWitnessed act n floor]))
                    else Inr []) (\<lambda>rs.
               Inr (rs @ (if unresolved \<noteq> 0 then [UnresolvedChairs act unresolved] else [])))
         | _ \<Rightarrow> Inl (FatalAccounting ''coverage record'')))"

definition page_reasons :: "aggregate_input \<Rightarrow> int list option \<Rightarrow> int \<Rightarrow> reason list result" where
  "page_reasons a with_acts ordinal =
     (case map_of (page_census a) ordinal of
        None \<Rightarrow> Inl (KeyError ''page'')
      | Some page \<Rightarrow>
        rbind (classify EXEMPLAR (page_outcome page)) (\<lambda>_.
          case page_outcome page of
            PyStr out \<Rightarrow>
              if out \<noteq> ''sealed'' then Inr [UnsealedPage ordinal out (page_reason page)]
              else
               (let others = (case map_of (other_categories_by_page a) ordinal of
                                None \<Rightarrow> [] | Some cs \<Rightarrow> cs)
                in case with_acts of
                     None \<Rightarrow> Inr []
                   | Some pages \<Rightarrow>
                     if ordinal \<in> set pages then
                       (let held = sorted_set (filter (\<lambda>c. c \<noteq> category_value DELIVERED) others)
                        in Inr (if held = [] then [] else [HeldOtherOnActPage ordinal held]))
                     else if others = [] then Inr [SilentPage ordinal]
                     else if set others \<noteq> {category_value DELIVERED}
                     then Inr [NoActPageHeld ordinal (sorted_set others)] else Inr [])
          | _ \<Rightarrow> Inl (FatalAccounting ''in no terminal set'')))"

fun count_values :: "'k list \<Rightarrow> ('k \<times> int) list" where
  "count_values ks = fold bump ks []"

record aggregate =
  ag_complete :: bool
  by_category :: "(string \<times> int) list"
  by_page_outcome :: "(pyany \<times> int) list"
  reasons :: "reason list"

definition run_aggregate :: "aggregate_input \<Rightarrow> aggregate result" where
  "run_aggregate a =
     (let acts = sorted_set (map fst (act_categories a));
          ordinals = sorted_set (map fst (page_census a))
      in
      rbind (attributed_pages (act_categories a) (page_census a) (act_pages a)) (\<lambda>(with_acts, r1).
      rbind (coverage_denominator a) (\<lambda>r2.
      rbind (status_denominator a) (\<lambda>r3.
      rbind (edge_hold_reasons a) (\<lambda>r4.
      rbind (unpaired_reasons a) (\<lambda>r5.
      rbind (clearance_reasons (review_clearances a) (act_categories a) (page_census a)) (\<lambda>r6.
      rbind (page_hold_reasons a) (\<lambda>r7.
      rbind (systemic_reasons a) (\<lambda>r8.
      rbind (collect (act_reasons a) acts) (\<lambda>r9.
      rbind (collect (coverage_reasons a) (sorted_set (map fst (coverage_records a)))) (\<lambda>r10.
      rbind (collect (page_reasons a with_acts) ordinals) (\<lambda>r11.
        let rs = denominator_reasons a @ r1 @ r2 @ r3 @ r4 @ r5 @ r6 @ r7 @ r8 @ r9 @ r10 @ r11
        in Inr \<lparr>ag_complete = (rs = []),
                by_category = count_values
                  (map (\<lambda>act. category_value (the (map_of (act_categories a) act))) acts),
                by_page_outcome = count_values
                  (map (\<lambda>o'. page_outcome (the (map_of (page_census a) o'))) ordinals),
                reasons = rs\<rparr>))))))))))))"

end
