(* ===== verification/Algebra.thy ===== *)
theory Algebra
  imports Outcomes
begin

text \<open>
  What the outcome algebra of \<open>common/contracts/outcomes.py\<close> guarantees: the startup check
  passes on the declared tables and what a passing check means, the transitivity of every
  witness outcome, the coverage census and the text statuses.
\<close>

section \<open>The algebra is total and consistent\<close>

lemma algebra_is_total: "check_algebra_is_total VOCABULARIES TERMINAL_CATEGORY = Inr ()"
  by code_simp

lemma check_algebra_outcome:
  assumes check: "check_algebra_is_total vs table = Inr ()"
    and voc: "map_of vs stage = Some voc" and out: "map_of voc out = Some k"
  shows "check_outcome vs table stage (out, k) = Inr ()"
proof -
  let ?inner = "\<lambda>stage voc. collect (\<lambda>oc. rbind (check_outcome vs table stage oc) (\<lambda>_. Inr [])) voc
      :: unit list result"
  obtain rs where "collect (\<lambda>(stage, voc).
      rbind (ensure (voc \<noteq> []) (FatalAccounting ''empty vocabulary''))
        (\<lambda>_. ?inner stage voc)) vs = Inr rs"
    using check by (auto simp: check_algebra_is_total_def result_simps)
  from collect_Inr_all [OF this map_of_SomeD [OF voc]]
  obtain ys where "?inner stage voc = Inr ys" by (auto simp: result_simps)
  from collect_Inr_all [OF this map_of_SomeD [OF out]] show ?thesis
    by (auto simp: result_simps)
qed

lemmas table_defs = VOCABULARIES_def declare_boundaries_def declared_vocabularies_def BOUNDARY_OUTCOMES_def
  category_value_def

lemma VOCABULARIES_ATTESTATORES:
  "map_of VOCABULARIES ''attestatores'' =
     Some [(''read'', COMPLETED), (''genuinely-empty'', COMPLETED), (''failed'', FAILED),
           (''dead'', FAILED), (''not-run'', UNRESOLVED), (''excluded'', COMPLETED),
           (''sealed'', COMPLETED), (''recorded'', COMPLETED)]"
  by (simp add: table_defs)

text \<open>The import-time loop adds the boundary outcomes of every stage as transitive, and nothing else.\<close>

lemma declare_transitions_total:
  assumes "\<forall>k \<in> set ks. map_of table k \<noteq> None \<longrightarrow> map_of table k = Some None"
  shows "\<exists>t. declare_transitions table ks = Inr t \<and> (\<forall>k. map_of t k = (if k \<in> set ks then Some None else map_of table k))"
  using assms
proof (induction ks arbitrary: table)
  case (Cons key ks)
  have "\<forall>k \<in> set ks. map_of (AList.update key None table) k \<noteq> None \<longrightarrow> map_of (AList.update key None table) k = Some None"
    using Cons.prems by (simp add: update_conv')
  from Cons.IH [OF this] obtain t where "declare_transitions (AList.update key None table) ks = Inr t"
    and "\<forall>k. map_of t k = (if k \<in> set ks then Some None else map_of (AList.update key None table) k)"
    by blast
  moreover from this(1) Cons.prems have "declare_transitions table (key # ks) = Inr t" by (auto split: option.splits)
  ultimately show ?case by (auto simp: update_conv')
qed simp

lemma boundary_keys_mem: "(s, out) \<in> set (boundary_keys vs) \<longleftrightarrow> s \<in> set (map fst vs) \<and> out \<in> set (map snd BOUNDARY_OUTCOMES)"
  by (force simp: boundary_keys_def)

lemma VOCABULARIES_stages: "map fst VOCABULARIES = map fst declared_vocabularies"
  by (simp add: table_defs)

lemma TERMINAL_lookup:
  "map_of TERMINAL_CATEGORY (s, out) =
     (if s \<in> set (map fst declared_vocabularies) \<and> out \<in> set (map snd BOUNDARY_OUTCOMES) then Some None
      else map_of declared_transitions (s, out))"
proof -
  have "\<forall>k \<in> set (boundary_keys VOCABULARIES). map_of declared_transitions k \<noteq> None \<longrightarrow>
      map_of declared_transitions k = Some None"
  proof (intro ballI impI)
    fix k assume k: "k \<in> set (boundary_keys VOCABULARIES)" "map_of declared_transitions k \<noteq> None"
    obtain s out where "k = (s, out)" by (cases k)
    with k(1) have "out = ''sealed'' \<or> out = ''recorded''"
      by (auto simp: boundary_keys_mem BOUNDARY_OUTCOMES_def)
    with k(2) show "map_of declared_transitions k = Some None"
      by (elim disjE) (auto simp: \<open>k = _\<close> declared_transitions_def category_value_def split: if_splits)
  qed
  from declare_transitions_total [OF this] obtain t where t: "declare_transitions declared_transitions (boundary_keys VOCABULARIES) = Inr t"
    "map_of t (s, out) = (if (s, out) \<in> set (boundary_keys VOCABULARIES) then Some None else map_of declared_transitions (s, out))"
    by blast
  then show ?thesis
    unfolding TERMINAL_CATEGORY_def t(1) sum.sel t(2) boundary_keys_mem VOCABULARIES_stages ..
qed

lemma TERMINAL_ATTESTATORES:
  "map_of TERMINAL_CATEGORY (''attestatores'', out) = Some c \<Longrightarrow> c = None"
  by (auto simp: TERMINAL_lookup declared_transitions_def split: if_splits)

text \<open>Whatever a chair reports, the table lets the act flow onward.\<close>

lemma witness_outcomes_transitive:
  assumes "terminal_category ''attestatores'' outcome = Inr c"
  shows "c = None"
  using assms TERMINAL_ATTESTATORES
  by (auto simp: terminal_category_def result_simps split: pyany.splits)

text \<open>
  C2. Every outcome a stage may produce is in exactly one class and has a decision in the
  transition table; an outcome that ends an act ends it in a category of the same class, so no unit
  changes class by crossing a stage boundary; and no witness outcome ends an act, so what a chair
  reports never promotes or demotes an act's text.
\<close>

theorem transition_total_and_class_preserving:
  assumes known: "classify stage outcome = Inr k"
  shows "\<exists>c. terminal_category stage outcome = Inr c \<and>
    (\<forall>cat. c = Some cat \<longrightarrow> classify ''armarium'' (PyStr (category_value cat)) = Inr k) \<and>
    (stage = ''attestatores'' \<longrightarrow> c = None)"
proof -
  obtain voc s where voc: "map_of VOCABULARIES stage = Some voc" and s: "outcome = PyStr s"
    and out: "map_of voc s = Some k"
    using known by (auto simp: classify_def result_simps split: option.splits pyany.splits)
  have "check_outcome VOCABULARIES TERMINAL_CATEGORY stage (s, k) = Inr ()"
    by (rule check_algebra_outcome [OF algebra_is_total voc out])
  then have "\<exists>c. terminal_category stage outcome = Inr c \<and>
    (\<forall>cat. c = Some cat \<longrightarrow> classify ''armarium'' (PyStr (category_value cat)) = Inr k)"
    using known s
    by (auto simp: check_outcome_def terminal_category_def classify_def result_simps rget_def
        split: option.splits)
  then show ?thesis using witness_outcomes_transitive by blast
qed

theorem transition_total_and_class_preserving_witness:
  "classify ''recensor'' (PyStr ''excluded'') = Inr COMPLETED \<and>
   (\<exists>c. terminal_category ''recensor'' (PyStr ''excluded'') = Inr c)"
proof -
  have k: "classify ''recensor'' (PyStr ''excluded'') = Inr COMPLETED" by code_simp
  from transition_total_and_class_preserving [OF k] k show ?thesis by blast
qed

section \<open>Coverage counts\<close>

lemma map_of_bump: "map_of (bump k m) = (map_of m)(k \<mapsto> get_count m k + 1)"
  by (simp add: bump_def update_conv')

lemma get_count_bump [simp]: "get_count (bump k m) j = get_count m j + (if j = k then 1 else 0)"
  by (simp add: get_count_def map_of_bump split: option.splits)

lemma get_count_Nil [simp]: "get_count [] k = 0"
  by (simp add: get_count_def)

lemma get_count_fold_bump:
  "get_count (fold bump ks m) k = get_count m k + int (count_list ks k)"
  by (induction ks arbitrary: m) auto

lemma count_chairs_correct:
  assumes "count_chairs chairs (bo, bc) = Inr (bo', bc')"
  shows "get_count bo' out = get_count bo out +
           int (length (filter (\<lambda>(_, o'). o' = PyStr out) chairs)) \<and>
         get_count bc' k = get_count bc k +
           int (length (filter (\<lambda>(_, o'). classify ''attestatores'' o' = Inr k) chairs)) \<and>
         list_all (\<lambda>(chair, o'). chair \<noteq> [] \<and> (\<exists>j. classify ''attestatores'' o' = Inr j)) chairs"
  using assms
proof (induction chairs arbitrary: bo bc)
  case Nil
  then show ?case by simp
next
  case (Cons c chairs)
  obtain chair o' where c: "c = (chair, o')" by (cases c)
  from Cons.prems c obtain j s where "chair \<noteq> []" and "classify ''attestatores'' o' = Inr j"
    and "o' = PyStr s" and "count_chairs chairs (bump s bo, bump j bc) = Inr (bo', bc')"
    by (cases o') (auto simp: result_simps split: if_splits)
  with Cons.IH [OF this(4)] c show ?case by auto
qed

text \<open>
  Witness coverage is a census of the chairs: each outcome's and each class's count is
  the number of chairs that reported it, and the unit is under-witnessed exactly when fewer
  chairs than the floor reached a completed outcome.
\<close>

theorem witness_coverage_counts:
  assumes "witness_coverage chairs floor = Inr c"
  shows "map_option (\<lambda>m. get_count m out) (cv_by_outcome c) =
           Some (int (length (filter (\<lambda>(_, o'). o' = PyStr out) chairs))) \<and>
         get_count (cv_by_class c) k =
           int (length (filter (\<lambda>(_, o'). classify ''attestatores'' o' = Inr k) chairs)) \<and>
         cv_configured c = int (length chairs) \<and> cv_floor c = Some floor \<and> 0 \<le> floor \<and>
         under_witnessed c = Some (int (length
           (filter (\<lambda>(_, o'). classify ''attestatores'' o' = Inr COMPLETED) chairs)) < floor)"
proof -
  let ?zero = "[(COMPLETED, 0), (UNRESOLVED, 0), (FAILED, 0)] :: (outcome_class \<times> int) list"
  obtain bo bc where count: "count_chairs chairs ([], ?zero) = Inr (bo, bc)"
    and c: "cv_by_outcome c = Some bo" "cv_by_class c = bc" "cv_configured c = int (length chairs)"
      "cv_floor c = Some floor" "0 \<le> floor"
      "under_witnessed c = Some (get_count bc COMPLETED < floor)"
    using assms by (auto simp: witness_coverage_def result_simps split: if_splits)
  have "get_count ?zero j = 0" for j
    by (cases j) (simp_all add: get_count_def)
  with count_chairs_correct [OF count] c show ?thesis by simp
qed

theorem witness_coverage_counts_witness:
  "\<exists>c. witness_coverage [(''attestator_1'', PyStr ''read''), (''attestator_2'', PyStr ''dead'')] 2
     = Inr c \<and> under_witnessed c = Some True"
proof -
  let ?chairs = "[(''attestator_1'', PyStr ''read''), (''attestator_2'', PyStr ''dead'')]"
  have k: "classify ''attestatores'' (PyStr ''read'') = Inr COMPLETED"
    "classify ''attestatores'' (PyStr ''dead'') = Inr FAILED"
    by (simp_all add: classify_def VOCABULARIES_ATTESTATORES rget_def)
  then obtain c where c: "witness_coverage ?chairs 2 = Inr c"
    by (auto simp: witness_coverage_def)
  from witness_coverage_counts [OF c] c k show ?thesis by auto
qed

text \<open>
  The three silences are kept apart: a text status is only ever one of the closed
  vocabulary, a gap always makes it partial whatever the text, and no readable text is said
  only of a gapless text that is nothing but white space.
\<close>

theorem text_status_silences:
  assumes "derive_record_text_status (PyStr text) (Some gaps) = Inr s"
  shows "s \<in> set TEXT_STATUSES \<and> (s = ''partial'' \<longleftrightarrow> gaps > 0) \<and>
    (s = ''no_readable_text'' \<longleftrightarrow> gaps = 0 \<and> (\<forall>c \<in> set text. is_space c))"
  using assms by (auto simp: derive_record_text_status_def TEXT_STATUSES_def list_all_iff
      split: if_splits)

theorem text_status_silences_witness:
  "derive_record_text_status (PyStr '' '') (Some 1) = Inr ''partial'' \<and> ''partial'' \<in> set TEXT_STATUSES"
proof -
  have s: "derive_record_text_status (PyStr '' '') (Some 1) = Inr ''partial''"
    by (simp add: derive_record_text_status_def)
  from text_status_silences [OF s] s show ?thesis by blast
qed

end
