(* ===== verification/Reconciled.thy ===== *)
theory Reconciled
  imports Aggregate Algebra "HOL-Library.Multiset"
begin

text \<open>
  What \<open>run_aggregate\<close> promises: a specification \<open>fully_reconciled\<close> of a complete run,
  written over the inputs without reference to the aggregate's sections, the proof that
  the aggregate says complete exactly on it, and what its counts and reasons state.
\<close>


section \<open>What a complete run promises\<close>

definition act_reconciled :: "aggregate_input \<Rightarrow> string \<Rightarrow> bool" where
  "act_reconciled a act \<longleftrightarrow>
     (case map_of (act_categories a) act of
        Some DELIVERED \<Rightarrow> map_of (act_text_status a) act = Some (PyStr ''established'')
      | Some CONFIRMED_BLANK \<Rightarrow> True
      | Some EXCLUDED_WITH_APPROVAL \<Rightarrow> True
      | _ \<Rightarrow> False)"

definition act_witnessed :: "aggregate_input \<Rightarrow> string \<Rightarrow> bool" where
  "act_witnessed a act \<longleftrightarrow>
     (case map_of (coverage_records a) act of
        None \<Rightarrow> False
      | Some c \<Rightarrow> under_witnessed c = Some False \<and> unresolved_chairs c = Some 0)"

definition page_has_act :: "aggregate_input \<Rightarrow> int \<Rightarrow> bool" where
  "page_has_act a ordinal \<longleftrightarrow>
     (case act_pages a of
        None \<Rightarrow> False
      | Some ps \<Rightarrow> list_ex (\<lambda>act. case map_of ps act of None \<Rightarrow> False
                                     | Some os \<Rightarrow> ordinal \<in> set os) (map fst (act_categories a)))"

definition page_ok :: "aggregate_input \<Rightarrow> (int \<Rightarrow> bool) \<Rightarrow> int \<Rightarrow> bool" where
  "page_ok a has_act ordinal \<longleftrightarrow>
     (case map_of (page_census a) ordinal of
        None \<Rightarrow> False
      | Some page \<Rightarrow> page_outcome page = PyStr ''sealed'') \<and>
     (let others = (case map_of (other_categories_by_page a) ordinal of None \<Rightarrow> [] | Some cs \<Rightarrow> cs)
      in list_all (\<lambda>c. c = category_value DELIVERED) others \<and> (has_act ordinal \<or> others \<noteq> []))"

definition page_reconciled :: "aggregate_input \<Rightarrow> int \<Rightarrow> bool" where
  "page_reconciled a = page_ok a (page_has_act a)"

definition act_placed :: "aggregate_input \<Rightarrow> string \<Rightarrow> bool" where
  "act_placed a act \<longleftrightarrow>
     (case act_pages a of None \<Rightarrow> False | Some ps \<Rightarrow> act \<in> set (map fst ps))"

definition fully_reconciled :: "aggregate_input \<Rightarrow> bool" where
  "fully_reconciled a \<longleftrightarrow>
     page_census a \<noteq> [] \<and> unaddressed_chairs_in a = [] \<and> edge_hold_pages a = [] \<and>
     continuation_joins a = [] \<and> unpaired_continuations a = [] \<and> review_clearances a = [] \<and>
     review_page_holds a = [] \<and> systemic_review a = None \<and>
     list_all (\<lambda>act. act_reconciled a act \<and> act_witnessed a act \<and> act_placed a act)
       (map fst (act_categories a)) \<and>
     list_all (page_reconciled a) (map fst (page_census a))"

lemma VOCABULARIES_ARMARIUM:
  "map_of VOCABULARIES ''armarium'' =
     Some [(''delivered'', COMPLETED), (''held-for-review'', UNRESOLVED),
           (''excluded-with-approval'', COMPLETED), (''confirmed-blank'', COMPLETED),
           (''refused-with-reason'', FAILED), (''sealed'', COMPLETED), (''recorded'', COMPLETED)]"
  by code_simp

lemma VOCABULARIES_EXEMPLAR:
  "map_of VOCABULARIES ''exemplar'' =
     Some [(''sealed'', COMPLETED), (''refused'', FAILED), (''recorded'', COMPLETED)]"
  by code_simp

lemma completed_category_iff:
  "completed_category c \<longleftrightarrow> c \<in> {DELIVERED, CONFIRMED_BLANK, EXCLUDED_WITH_APPROVAL}"
  by (cases c) (simp_all add: completed_category_def VOCABULARIES_ARMARIUM category_value_def)

lemma attribute_acts_correct:
  assumes "attribute_acts census ps acts = Inr (ords, rs)"
  shows "set ords = {o'. \<exists>act \<in> set acts. \<exists>os. map_of ps act = Some os \<and> o' \<in> set os} \<and>
         (rs = [] \<longleftrightarrow> (\<forall>act \<in> set acts. map_of ps act \<noteq> None)) \<and>
         (\<forall>o' \<in> set ords. \<exists>page. map_of census o' = Some page \<and> page_outcome page = PyStr ''sealed'')"
  using assms
proof (induction acts arbitrary: ords rs)
  case Nil
  then show ?case by simp
next
  case (Cons act acts)
  show ?case
  proof (cases "map_of ps act")
    case None
    with Cons show ?thesis by (fastforce simp: result_simps)
  next
    case (Some os)
    then obtain os' ords' where os': "rmap (attribute_page census) os = Inr os'"
      and rest: "attribute_acts census ps acts = Inr (ords', rs)" and ords: "ords = os' @ ords'"
      using Cons.prems by (auto simp: result_simps)
    have page: "attribute_page census x = Inr y \<Longrightarrow>
        y = x \<and> (\<exists>page. map_of census x = Some page \<and> page_outcome page = PyStr ''sealed'')" for x y
      by (auto simp: attribute_page_def split: option.splits if_splits)
    have "list_all2 (\<lambda>x y. attribute_page census x = Inr y) os os'"
      using os' by (simp add: rmap_Inr_iff)
    then have "os' = os \<and> (\<forall>x \<in> set os. \<exists>page. map_of census x = Some page
                 \<and> page_outcome page = PyStr ''sealed'')"
      by (induction rule: list_all2_induct) (auto dest!: page)
    with Cons.IH [OF rest] ords Some show ?thesis by auto
  qed
qed

lemma attributed_pages_correct:
  assumes att: "attributed_pages (act_categories a) (page_census a) (act_pages a) = Inr (w, rs)"
    and census: "page_census a \<noteq> []"
  shows "(rs = [] \<longleftrightarrow> (\<forall>act \<in> fst ` set (act_categories a). act_placed a act)) \<and>
         (rs = [] \<longrightarrow> (\<exists>pages. w = Some pages \<and> (\<forall>o'. o' \<in> set pages \<longleftrightarrow> page_has_act a o')))"
proof (cases "act_pages a")
  case None
  with att census show ?thesis
    by (cases "act_categories a")
       (auto simp: attributed_pages_def act_placed_def page_has_act_def split: if_splits)
next
  case (Some ps)
  with att census obtain ords where w: "w = Some ords"
    and acts: "attribute_acts (page_census a) ps (sorted_set (map fst (act_categories a)))
                 = Inr (ords, rs)"
    by (auto simp: attributed_pages_def result_simps split: if_splits)
  note correct = attribute_acts_correct [OF acts]
  have "rs = [] \<longleftrightarrow> (\<forall>act \<in> fst ` set (act_categories a). act_placed a act)"
    using correct Some by (auto simp: act_placed_def map_of_eq_None_iff)
  moreover have "o' \<in> set ords \<longleftrightarrow> page_has_act a o'" for o'
    using correct Some by (fastforce simp: page_has_act_def list_ex_iff split: option.splits)
  ultimately show ?thesis using w by blast
qed

lemma name_clearances_length:
  "name_clearances cats census rows named = Inr out \<Longrightarrow> length out = length named + length rows"
  by (induction rows arbitrary: named) (auto simp: result_simps split: if_splits)

lemma clearance_reasons_length:
  "clearance_reasons rows cats census = Inr rs \<Longrightarrow> length rs = length rows"
  by (auto simp: clearance_reasons_def result_simps dest!: name_clearances_length)

lemma unpaired_clean:
  "unpaired_reasons a = Inr rs \<Longrightarrow> rs = [] \<longleftrightarrow> unpaired_continuations a = []"
  unfolding unpaired_reasons_def
  by (cases "unpaired_continuations a") (fastforce dest!: collect_empty_iff split: if_splits)+

lemma page_hold_clean:
  "page_hold_reasons a = Inr rs \<Longrightarrow> rs = [] \<longleftrightarrow> review_page_holds a = []"
  unfolding page_hold_reasons_def
  apply (drule collect_empty_iff)
  apply (cases "review_page_holds a")
   apply (auto split: option.splits if_splits)
  done

lemma systemic_clean: "systemic_reasons a = Inr rs \<Longrightarrow> rs = [] \<longleftrightarrow> systemic_review a = None"
  by (auto simp: systemic_reasons_def result_simps split: option.splits)

lemma coverage_denominator_clean:
  assumes "coverage_denominator a = Inr rs"
  shows "rs = [] \<longleftrightarrow> fst ` set (act_categories a) \<subseteq> fst ` set (coverage_records a)"
    and "fst ` set (coverage_records a) \<subseteq> fst ` set (act_categories a)"
proof -
  have "rs = map NoCoverageRecord (filter (\<lambda>act. act \<notin> fst ` set (coverage_records a))
              (sorted_set (map fst (act_categories a))))"
    and sub: "fst ` set (coverage_records a) \<subseteq> fst ` set (act_categories a)"
    using assms by (auto simp: coverage_denominator_def result_simps Let_def)
  then show "rs = [] \<longleftrightarrow> fst ` set (act_categories a) \<subseteq> fst ` set (coverage_records a)"
    by (simp add: filter_empty_conv image_subset_iff)
  show "fst ` set (coverage_records a) \<subseteq> fst ` set (act_categories a)" by (rule sub)
qed

lemma all_in_singleton_iff: "set xs = {c} \<longleftrightarrow> xs \<noteq> [] \<and> (\<forall>x \<in> set xs. x = c)"
  by (cases xs) auto

interpretation act_audit: audit "act_reasons a" "act_reconciled a" for a
  by unfold_locales
     (auto simp: act_reasons_def act_reconciled_def completed_category_iff Let_def
        split: option.splits pyany.splits if_splits category.splits)

interpretation coverage_audit: audit "coverage_reasons a" "act_witnessed a" for a
  by unfold_locales
     (auto simp: coverage_reasons_def act_witnessed_def result_simps split: option.splits if_splits)

interpretation page_audit: audit "page_reasons a (Some pages)" "page_ok a (\<lambda>o'. o' \<in> set pages)"
  for a pages
  by unfold_locales
     (auto simp: page_reasons_def page_ok_def result_simps Let_def list_all_iff
        filter_empty_conv all_in_singleton_iff split: option.splits pyany.splits if_splits)

lemma act_witnessed_covered: "act_witnessed a act \<Longrightarrow> act \<in> fst ` set (coverage_records a)"
  by (auto simp: act_witnessed_def split: option.splits dest!: map_of_SomeD intro: rev_image_eqI)

text \<open>Every section of a run that returned, in the code's order.\<close>

lemma run_aggregate_sections:
  assumes "run_aggregate a = Inr r"
  obtains w r1 r2 r3 r4 r5 r6 r7 r8 r9 r10 r11 where
    "attributed_pages (act_categories a) (page_census a) (act_pages a) = Inr (w, r1)"
    "coverage_denominator a = Inr r2" "status_denominator a = Inr r3"
    "edge_hold_reasons a = Inr r4" "unpaired_reasons a = Inr r5"
    "clearance_reasons (review_clearances a) (act_categories a) (page_census a) = Inr r6"
    "page_hold_reasons a = Inr r7" "systemic_reasons a = Inr r8"
    "collect (act_reasons a) (sorted_set (map fst (act_categories a))) = Inr r9"
    "collect (coverage_reasons a) (sorted_set (map fst (coverage_records a))) = Inr r10"
    "collect (page_reasons a w) (sorted_set (map fst (page_census a))) = Inr r11"
    "reasons r = denominator_reasons a @ r1 @ r2 @ r3 @ r4 @ r5 @ r6 @ r7 @ r8 @ r9 @ r10 @ r11"
    "ag_complete r \<longleftrightarrow> reasons r = []"
    "by_category r = count_values (map (\<lambda>act. category_value (the (map_of (act_categories a) act)))
       (sorted_set (map fst (act_categories a))))"
  using assms that unfolding run_aggregate_def Let_def by (auto simp: result_simps)

text \<open>The population sections: reasons about the inputs as a whole.\<close>

lemma population_clean:
  assumes "status_denominator a = Inr r3" and "edge_hold_reasons a = Inr r4"
    and "unpaired_reasons a = Inr r5"
    and "clearance_reasons (review_clearances a) (act_categories a) (page_census a) = Inr r6"
    and "page_hold_reasons a = Inr r7" and "systemic_reasons a = Inr r8"
  shows "denominator_reasons a @ r3 @ r4 @ r5 @ r6 @ r7 @ r8 = [] \<longleftrightarrow>
    page_census a \<noteq> [] \<and> unaddressed_chairs_in a = [] \<and> edge_hold_pages a = [] \<and>
    continuation_joins a = [] \<and> unpaired_continuations a = [] \<and> review_clearances a = [] \<and>
    review_page_holds a = [] \<and> systemic_review a = None"
  using assms(1,2) unpaired_clean [OF assms(3)] clearance_reasons_length [OF assms(4)]
    page_hold_clean [OF assms(5)] systemic_clean [OF assms(6)]
  by (auto simp: denominator_reasons_def status_denominator_def edge_hold_reasons_def result_simps)

text \<open>The page sections: attribution and the reason of each page.\<close>

lemma pages_clean:
  assumes att: "attributed_pages (act_categories a) (page_census a) (act_pages a) = Inr (w, r1)"
    and pages: "collect (page_reasons a w) (sorted_set (map fst (page_census a))) = Inr r11"
    and census: "page_census a \<noteq> []"
  shows "r1 = [] \<and> r11 = [] \<longleftrightarrow> (\<forall>act \<in> fst ` set (act_categories a). act_placed a act) \<and>
    (\<forall>o' \<in> fst ` set (page_census a). page_reconciled a o')"
proof (cases "r1 = []")
  case True
  with attributed_pages_correct [OF att census] obtain ps where w: "w = Some ps"
    and has: "(\<lambda>o'. o' \<in> set ps) = page_has_act a" by blast
  have "r11 = [] \<longleftrightarrow> (\<forall>o' \<in> fst ` set (page_census a). page_reconciled a o')"
    using page_audit.collect_clean [OF pages [unfolded w]]
    by (simp add: page_reconciled_def has)
  moreover have "\<forall>act \<in> fst ` set (act_categories a). act_placed a act"
    using True attributed_pages_correct [OF att census] by blast
  ultimately show ?thesis using True by blast
next
  case False
  with attributed_pages_correct [OF att census]
  have "\<not> (\<forall>act \<in> fst ` set (act_categories a). act_placed a act)" by blast
  with False show ?thesis by blast
qed

text \<open>
  C1. A run is reported complete exactly when everything reconciles: there is a sealed page
  for every page counted; every act counted was delivered with an established text,
  confirmed blank or excluded with approval, was witnessed with no chair unresolved, and was
  attributed to a page; every page carries an act or only delivered other readings; and no
  chair is unaddressed, no edge, break, page or systemic hold stands and no clearance was
  made.
\<close>

theorem run_aggregate_complete:
  assumes run: "run_aggregate a = Inr r"
  shows "ag_complete r \<longleftrightarrow> fully_reconciled a"
proof -
  let ?acts = "fst ` set (act_categories a)" and ?covered = "fst ` set (coverage_records a)"
  from run show ?thesis
  proof (rule run_aggregate_sections)
    fix w r1 r2 r3 r4 r5 r6 r7 r8 r9 r10 r11
    assume s1: "attributed_pages (act_categories a) (page_census a) (act_pages a) = Inr (w, r1)"
      and s2: "coverage_denominator a = Inr r2"
      and population: "status_denominator a = Inr r3" "edge_hold_reasons a = Inr r4"
        "unpaired_reasons a = Inr r5"
        "clearance_reasons (review_clearances a) (act_categories a) (page_census a) = Inr r6"
        "page_hold_reasons a = Inr r7" "systemic_reasons a = Inr r8"
      and s9: "collect (act_reasons a) (sorted_set (map fst (act_categories a))) = Inr r9"
      and s10: "collect (coverage_reasons a) (sorted_set (map fst (coverage_records a))) = Inr r10"
      and s11: "collect (page_reasons a w) (sorted_set (map fst (page_census a))) = Inr r11"
      and rs: "reasons r = denominator_reasons a @ r1 @ r2 @ r3 @ r4 @ r5 @ r6 @ r7 @ r8 @ r9 @ r10 @ r11"
      and r: "ag_complete r \<longleftrightarrow> reasons r = []"
    have acts: "r9 = [] \<longleftrightarrow> (\<forall>act \<in> ?acts. act_reconciled a act)"
      using act_audit.collect_clean [OF s9] by simp
    have "r10 = [] \<longleftrightarrow> (\<forall>act \<in> ?covered. act_witnessed a act)"
      using coverage_audit.collect_clean [OF s10] by simp
    moreover have "(\<forall>act \<in> ?acts. act_witnessed a act) \<longleftrightarrow>
        ?acts \<subseteq> ?covered \<and> (\<forall>act \<in> ?covered. act_witnessed a act)"
      using coverage_denominator_clean(2) [OF s2] act_witnessed_covered
      by (meson subset_iff)
    ultimately have witnessed:
      "r2 = [] \<and> r10 = [] \<longleftrightarrow> (\<forall>act \<in> ?acts. act_witnessed a act)"
      using coverage_denominator_clean(1) [OF s2] by simp
    have spec: "fully_reconciled a \<longleftrightarrow> page_census a \<noteq> [] \<and> unaddressed_chairs_in a = [] \<and>
        edge_hold_pages a = [] \<and> continuation_joins a = [] \<and> unpaired_continuations a = [] \<and>
        review_clearances a = [] \<and> review_page_holds a = [] \<and> systemic_review a = None \<and>
        (\<forall>act \<in> ?acts. act_reconciled a act) \<and> (\<forall>act \<in> ?acts. act_witnessed a act) \<and>
        (\<forall>act \<in> ?acts. act_placed a act) \<and>
        (\<forall>o' \<in> fst ` set (page_census a). page_reconciled a o')"
      by (simp only: fully_reconciled_def list_all_iff set_map ball_conj_distrib conj_assoc)
    have code: "ag_complete r \<longleftrightarrow>
        denominator_reasons a @ r3 @ r4 @ r5 @ r6 @ r7 @ r8 = [] \<and> r9 = [] \<and>
        (r2 = [] \<and> r10 = []) \<and> (r1 = [] \<and> r11 = [])"
      using r rs by auto
    show ?thesis
    proof (cases "page_census a = []")
      case True
      then show ?thesis
        unfolding spec code population_clean [OF population] by simp
    next
      case False
      note pages = pages_clean [OF s1 s11 False]
      show ?thesis
        unfolding spec code
          population_clean [OF population] acts witnessed pages
        by (simp only: conj_assoc)
    qed
  qed
qed


definition reconciled_run :: aggregate_input where
  "reconciled_run =
    \<lparr>act_categories = [(''act-1'', DELIVERED), (''act-2'', CONFIRMED_BLANK)],
     coverage_records =
       [(''act-1'', \<lparr>cv_configured = 3, cv_floor = Some 3, cv_by_outcome = Some [(''read'', 3)],
           cv_by_class = [(COMPLETED, 3), (UNRESOLVED, 0), (FAILED, 0)],
           under_witnessed = Some False, unresolved_chairs = Some 0, cv_truncated = Some 0\<rparr>),
        (''act-2'', \<lparr>cv_configured = 3, cv_floor = Some 3, cv_by_outcome = Some [(''genuinely-empty'', 3)],
           cv_by_class = [(COMPLETED, 3), (UNRESOLVED, 0), (FAILED, 0)],
           under_witnessed = Some False, unresolved_chairs = Some 0, cv_truncated = Some 0\<rparr>)],
     page_census = [(1, \<lparr>page_outcome = PyStr ''sealed'', page_reason = None\<rparr>),
                    (2, \<lparr>page_outcome = PyStr ''sealed'', page_reason = None\<rparr>)],
     unaddressed_chairs_in = [],
     act_pages = Some [(''act-1'', [1]), (''act-2'', [2])],
     act_text_status = [(''act-1'', PyStr ''established'')],
     edge_hold_pages = [], continuation_joins = [], other_categories_by_page = [],
     unpaired_continuations = [], review_clearances = [], review_page_holds = [],
     systemic_review = None\<rparr>"

definition returns_aggregate :: "aggregate_input \<Rightarrow> (aggregate \<Rightarrow> bool) \<Rightarrow> bool" where
  "returns_aggregate a P = (case run_aggregate a of Inr r \<Rightarrow> P r | Inl _ \<Rightarrow> False)"

lemma returns_aggregateE:
  assumes "returns_aggregate a P"
  obtains r where "run_aggregate a = Inr r" and "P r"
  using assms by (auto simp: returns_aggregate_def split: sum.splits)

lemma reconciled_run_returns: "returns_aggregate reconciled_run ag_complete"
  by code_simp

theorem run_aggregate_complete_witness:
  "fully_reconciled reconciled_run"
proof -
  from reconciled_run_returns obtain r
    where "run_aggregate reconciled_run = Inr r" and "ag_complete r"
    by (rule returns_aggregateE)
  with run_aggregate_complete [of reconciled_run r] show ?thesis by simp
qed

section \<open>What the reasons and the counts state\<close>

text \<open>Reasons other than an unresolved act or an operator clearance.\<close>

definition plain_reasons :: "reason list \<Rightarrow> bool" where
  "plain_reasons rs \<longleftrightarrow> list_all (\<lambda>r. \<not> is_UnresolvedAct r \<and> \<not> is_ClearedByOperator r) rs"

lemma plain_reasons_append [simp]: "plain_reasons (xs @ ys) \<longleftrightarrow> plain_reasons xs \<and> plain_reasons ys"
  by (simp add: plain_reasons_def)

lemma plain_reasons_Nil [simp]: "plain_reasons []"
  by (simp add: plain_reasons_def)

lemma plain_reasons_collect:
  assumes "collect f xs = Inr rs" and "\<And>y ys. f y = Inr ys \<Longrightarrow> plain_reasons ys"
  shows "plain_reasons rs"
  using assms(1)
  by (induction xs arbitrary: rs) (auto simp: result_simps assms(2))

lemma clearance_reason_is: "clearance_reason cats census row = Inr (key, r) \<Longrightarrow> is_ClearedByOperator r"
  unfolding clearance_reason_def rbind_Inr_iff
  by (elim exE conjE) (auto split: option.splits if_splits)

lemma name_clearances_reasons:
  assumes "name_clearances cats census rows named = Inr out"
    and "list_all (\<lambda>x. is_ClearedByOperator (snd x)) named"
  shows "list_all (\<lambda>x. is_ClearedByOperator (snd x)) out"
  using assms
proof (induction rows arbitrary: named)
  case Nil
  then show ?case by simp
next
  case (Cons row rows)
  from Cons.prems obtain key r where r: "clearance_reason cats census row = Inr (key, r)"
    and rest: "name_clearances cats census rows (named @ [(key, r)]) = Inr out"
    by (auto simp: result_simps split: if_splits)
  show ?case
    by (rule Cons.IH [OF rest]) (use Cons.prems clearance_reason_is [OF r] in simp)
qed

lemma clearance_reasons_only:
  "clearance_reasons rows cats census = Inr rs \<Longrightarrow> list_all is_ClearedByOperator rs"
  by (auto simp: clearance_reasons_def result_simps list_all_iff
      dest!: name_clearances_reasons)

text \<open>The sentence a clearance is owed: what was cleared, by which decision, and the codes it lifts.\<close>

definition clearance_named :: "string list \<Rightarrow> clearance \<Rightarrow> reason" where
  "clearance_named counted row =
     (let page = (case cl_page row of Some p \<Rightarrow> p | None \<Rightarrow> 0);
          codes = (case cl_cleared row of Some cs \<Rightarrow> cs | None \<Rightarrow> []);
          what = (case cl_subject row of
            SubjStr t \<Rightarrow> if t \<in> set counted then ClearedAct t page else ClearedReading t page
          | _ \<Rightarrow> ClearedPage page)
      in ClearedByOperator what (cl_decision row) (sort codes))"

definition clearance_due :: "clearance \<Rightarrow> bool" where
  "clearance_due row \<longleftrightarrow>
     (cl_scope row, cl_decision row) \<in> {(''unit'', ''release''), (''unit'', ''exclude''), (''page'', ''no-missed-act'')} \<and>
     cl_page row \<noteq> None \<and> cl_cleared row \<noteq> None"

lemma clearance_reason_names:
  assumes "clearance_reason cats census row = Inr (key, r)"
  shows "r = clearance_named (map fst cats) row" and "clearance_due row"
  using assms
  unfolding clearance_reason_def rbind_Inr_iff
  by (auto simp: clearance_named_def clearance_due_def clearing_decisions_def
      split: option.splits subject.splits if_splits)

lemma name_clearances_name:
  assumes "name_clearances cats census rows named = Inr out"
  shows "map snd out = map snd named @ map (clearance_named (map fst cats)) rows \<and> list_all clearance_due rows"
  using assms
proof (induction rows arbitrary: named)
  case (Cons row rows)
  from Cons.prems obtain key r where r: "clearance_reason cats census row = Inr (key, r)"
    and rest: "name_clearances cats census rows (named @ [(key, r)]) = Inr out"
    by (auto simp: result_simps split: if_splits)
  from Cons.IH [OF rest] clearance_reason_names [OF r] show ?case by simp
qed simp

lemma clearance_reasons_named:
  assumes "clearance_reasons rows cats census = Inr rs"
  shows "mset rs = mset (map (clearance_named (map fst cats)) rows) \<and> list_all clearance_due rows"
proof -
  from assms obtain named where n: "name_clearances cats census rows [] = Inr named" "rs = map snd (sort_key fst named)"
    by (auto simp: clearance_reasons_def result_simps)
  have "mset rs = mset (map snd named)" unfolding n(2) by simp
  then show ?thesis using name_clearances_name [OF n(1)] by simp
qed

lemma attribute_acts_only: "attribute_acts census ps acts = Inr (ords, rs) \<Longrightarrow> plain_reasons rs"
  by (induction acts arbitrary: ords rs)
     (auto simp: result_simps plain_reasons_def split: option.splits)

lemma attributed_pages_only: "attributed_pages cats census ps = Inr (w, rs) \<Longrightarrow> plain_reasons rs"
  by (auto simp: attributed_pages_def result_simps plain_reasons_def split: if_splits option.splits
      dest: attribute_acts_only [unfolded plain_reasons_def])

lemma coverage_reasons_only: "coverage_reasons a y = Inr ys \<Longrightarrow> plain_reasons ys"
  by (auto simp: coverage_reasons_def result_simps plain_reasons_def split: option.splits if_splits)

lemma page_reasons_only: "page_reasons a w y = Inr ys \<Longrightarrow> plain_reasons ys"
  by (auto simp: page_reasons_def result_simps Let_def plain_reasons_def
      split: option.splits if_splits pyany.splits)

lemma population_only:
  "status_denominator a = Inr r3 \<Longrightarrow> plain_reasons r3"
  "edge_hold_reasons a = Inr r4 \<Longrightarrow> plain_reasons r4"
  "unpaired_reasons a = Inr r5 \<Longrightarrow> plain_reasons r5"
  "page_hold_reasons a = Inr r7 \<Longrightarrow> plain_reasons r7"
  "systemic_reasons a = Inr r8 \<Longrightarrow> plain_reasons r8"
  "coverage_denominator a = Inr r2 \<Longrightarrow> plain_reasons r2"
  "plain_reasons (denominator_reasons a)"
proof -
  show "status_denominator a = Inr r3 \<Longrightarrow> plain_reasons r3"
    by (auto simp: status_denominator_def result_simps plain_reasons_def list_all_iff)
  show "edge_hold_reasons a = Inr r4 \<Longrightarrow> plain_reasons r4"
    by (auto simp: edge_hold_reasons_def result_simps plain_reasons_def list_all_iff)
  show "unpaired_reasons a = Inr r5 \<Longrightarrow> plain_reasons r5"
    unfolding unpaired_reasons_def
    by (erule plain_reasons_collect) (auto simp: plain_reasons_def split: prod.splits if_splits)
  show "page_hold_reasons a = Inr r7 \<Longrightarrow> plain_reasons r7"
    unfolding page_hold_reasons_def
    by (erule plain_reasons_collect) (auto simp: plain_reasons_def split: option.splits if_splits)
  show "systemic_reasons a = Inr r8 \<Longrightarrow> plain_reasons r8"
    by (auto simp: systemic_reasons_def systemic_review_reason_def result_simps plain_reasons_def
        split: option.splits if_splits)
  show "coverage_denominator a = Inr r2 \<Longrightarrow> plain_reasons r2"
    by (auto simp: coverage_denominator_def result_simps plain_reasons_def list_all_iff Let_def)
  show "plain_reasons (denominator_reasons a)"
    by (simp add: denominator_reasons_def plain_reasons_def)
qed

lemma act_reasons_unresolved:
  assumes "act_reasons a y = Inr ys"
  shows "list_all (\<lambda>r. \<not> is_ClearedByOperator r) ys"
    and "UnresolvedAct act cat \<in> set ys \<longleftrightarrow>
      y = act \<and> map_of (act_categories a) act = Some cat \<and> \<not> completed_category cat"
  using assms
  by (auto simp: act_reasons_def Let_def split: option.splits if_splits pyany.splits)

text \<open>
  The reasons split into plain ones, the clearances' (one per clearance) and the acts'.
\<close>

lemma run_aggregate_split:
  assumes run: "run_aggregate a = Inr r"
  obtains p q rest acts rest' where "reasons r = p @ q @ rest @ acts @ rest'"
    and "plain_reasons p" "plain_reasons rest" "plain_reasons rest'"
    and "list_all is_ClearedByOperator q"
    and "mset q = mset (map (clearance_named (map fst (act_categories a))) (review_clearances a))"
    and "list_all clearance_due (review_clearances a)"
    and "collect (act_reasons a) (sorted_set (map fst (act_categories a))) = Inr acts"
proof (rule run_aggregate_sections [OF run])
  fix w r1 r2 r3 r4 r5 r6 r7 r8 r9 r10 r11
  assume s1: "attributed_pages (act_categories a) (page_census a) (act_pages a) = Inr (w, r1)"
    and s2: "coverage_denominator a = Inr r2"
    and population: "status_denominator a = Inr r3" "edge_hold_reasons a = Inr r4"
      "unpaired_reasons a = Inr r5"
    and s6: "clearance_reasons (review_clearances a) (act_categories a) (page_census a) = Inr r6"
    and holds: "page_hold_reasons a = Inr r7" "systemic_reasons a = Inr r8"
    and s9: "collect (act_reasons a) (sorted_set (map fst (act_categories a))) = Inr r9"
    and s10: "collect (coverage_reasons a) (sorted_set (map fst (coverage_records a))) = Inr r10"
    and s11: "collect (page_reasons a w) (sorted_set (map fst (page_census a))) = Inr r11"
    and rs: "reasons r = denominator_reasons a @ r1 @ r2 @ r3 @ r4 @ r5 @ r6 @ r7 @ r8 @ r9 @ r10 @ r11"
  show thesis
  proof (rule that [of "denominator_reasons a @ r1 @ r2 @ r3 @ r4 @ r5" r6 "r7 @ r8" r9 "r10 @ r11"])
    show "reasons r = (denominator_reasons a @ r1 @ r2 @ r3 @ r4 @ r5) @ r6 @ (r7 @ r8) @ r9 @ r10 @ r11"
      using rs by simp
    show "plain_reasons (denominator_reasons a @ r1 @ r2 @ r3 @ r4 @ r5)"
      by (simp add: population_only population_only(6) [OF s2] population_only(1) [OF population(1)]
          population_only(2) [OF population(2)] population_only(3) [OF population(3)]
          attributed_pages_only [OF s1])
    show "plain_reasons (r7 @ r8)"
      by (simp add: population_only(4) [OF holds(1)] population_only(5) [OF holds(2)])
    show "plain_reasons (r10 @ r11)"
      using plain_reasons_collect [OF s10 coverage_reasons_only]
        plain_reasons_collect [OF s11 page_reasons_only] by simp
    show "list_all is_ClearedByOperator r6" by (rule clearance_reasons_only [OF s6])
    show "mset r6 = mset (map (clearance_named (map fst (act_categories a))) (review_clearances a))"
      "list_all clearance_due (review_clearances a)" using clearance_reasons_named [OF s6] by simp_all
  qed (rule s9)
qed

text \<open>
  No act that did not end in a completed category is left out of the reasons, and no
  other act is named unresolved: the reasons name an act with its category exactly when the
  run counted it in that category and the category is held for review or refused.
\<close>

lemma unresolved_acts_named:
  assumes run: "run_aggregate a = Inr r"
  shows "UnresolvedAct act cat \<in> set (reasons r) \<longleftrightarrow>
    map_of (act_categories a) act = Some cat \<and> cat \<in> {HELD_FOR_REVIEW, REFUSED_WITH_REASON}"
proof -
  obtain p q acts rest rest' where rs: "reasons r = p @ q @ rest @ acts @ rest'"
    and plain: "plain_reasons p" "plain_reasons rest" "plain_reasons rest'"
      "list_all is_ClearedByOperator q"
    and acts: "collect (act_reasons a) (sorted_set (map fst (act_categories a))) = Inr acts"
    by (rule run_aggregate_split [OF run])
  have "UnresolvedAct act cat \<in> set (reasons r) \<longleftrightarrow> UnresolvedAct act cat \<in> set acts"
    using plain by (auto simp: rs plain_reasons_def list_all_iff)
  also have "\<dots> \<longleftrightarrow> map_of (act_categories a) act = Some cat \<and> \<not> completed_category cat"
  proof -
    have "UnresolvedAct act cat \<in> set acts \<longleftrightarrow>
        (\<exists>y \<in> fst ` set (act_categories a). UnresolvedAct act cat \<in> set (projr (act_reasons a y)))"
      using acts by (simp add: collect_Inr_iff)
    also have "\<dots> \<longleftrightarrow> (\<exists>y \<in> fst ` set (act_categories a). y = act \<and>
        map_of (act_categories a) act = Some cat \<and> \<not> completed_category cat)"
      using collect_Inr_all [OF acts] act_reasons_unresolved(2) by (intro bex_cong) fastforce+
    also have "\<dots> \<longleftrightarrow> map_of (act_categories a) act = Some cat \<and> \<not> completed_category cat"
      by (metis fst_conv image_eqI map_of_SomeD)
    finally show ?thesis .
  qed
  also have "\<not> completed_category cat \<longleftrightarrow> cat \<in> {HELD_FOR_REVIEW, REFUSED_WITH_REASON}"
    by (cases cat) (simp_all add: completed_category_iff)
  finally show ?thesis .
qed


definition held_run :: aggregate_input where
  "held_run = reconciled_run
     \<lparr>act_categories := [(''act-1'', DELIVERED), (''act-2'', HELD_FOR_REVIEW)],
      review_clearances := [\<lparr>cl_scope = ''unit'', cl_subject = SubjStr ''act-1'', cl_page = Some 1,
         cl_decision = ''release'', cl_cleared = Some [''unread-ink'']\<rparr>]\<rparr>"

lemma held_run_returns: "returns_aggregate held_run (\<lambda>r. \<not> ag_complete r)"
  by code_simp

text \<open>
  A person's decision never makes a run complete: a run that returned names one reason
  for every operator clearance, so a run with a clearance is partial.
\<close>

lemma clearances_named:
  assumes run: "run_aggregate a = Inr r"
  shows "mset (filter is_ClearedByOperator (reasons r)) =
      mset (map (clearance_named (map fst (act_categories a))) (review_clearances a)) \<and>
    list_all clearance_due (review_clearances a)"
proof -
  obtain p q rest acts rest' where rs: "reasons r = p @ q @ rest @ acts @ rest'"
    and plain: "plain_reasons p" "plain_reasons rest" "plain_reasons rest'"
    and q: "list_all is_ClearedByOperator q"
      "mset q = mset (map (clearance_named (map fst (act_categories a))) (review_clearances a))"
      "list_all clearance_due (review_clearances a)"
    and acts: "collect (act_reasons a) (sorted_set (map fst (act_categories a))) = Inr acts"
    by (rule run_aggregate_split [OF run])
  have "filter is_ClearedByOperator xs = []" if "plain_reasons xs" for xs
    using that by (simp add: plain_reasons_def list_all_iff filter_empty_conv)
  moreover have "filter is_ClearedByOperator acts = []"
  proof -
    have "\<not> is_ClearedByOperator x" if x: "x \<in> set acts" for x
    proof -
      from x acts obtain y where "y \<in> fst ` set (act_categories a)"
        and "x \<in> set (projr (act_reasons a y))" by (auto simp: collect_Inr_iff)
      moreover obtain ys where "act_reasons a y = Inr ys"
        using collect_Inr_all [OF acts] calculation(1) by auto
      ultimately show ?thesis
        using act_reasons_unresolved(1) [of a y ys] by (simp add: list_all_iff)
    qed
    then show ?thesis by (simp add: filter_empty_conv)
  qed
  moreover have "filter is_ClearedByOperator q = q"
    using q(1) by (simp add: list_all_iff)
  ultimately show ?thesis using plain q(2,3) by (simp add: rs)
qed

text \<open>
  A run that returned attributed every counted act only to pages the census counts and
  the Exemplar sealed.
\<close>

theorem attributed_pages_sealed:
  assumes run: "run_aggregate a = Inr r" and census: "page_census a \<noteq> []"
    and pages: "act_pages a = Some ps" "map_of ps act = Some ordinals" "ordinal \<in> set ordinals"
  shows "act \<in> fst ` set (act_categories a) \<and>
    (\<exists>page. map_of (page_census a) ordinal = Some page \<and> page_outcome page = PyStr ''sealed'')"
proof (rule run_aggregate_sections [OF run])
  fix w r1
  assume "attributed_pages (act_categories a) (page_census a) (act_pages a) = Inr (w, r1)"
  with census pages(1) obtain ords
    where acts: "attribute_acts (page_census a) ps (sorted_set (map fst (act_categories a))) = Inr (ords, r1)"
      and known: "fst ` set ps \<subseteq> fst ` set (act_categories a)"
    by (auto simp: attributed_pages_def result_simps split: if_splits)
  from pages(2) known have act: "act \<in> fst ` set (act_categories a)"
    by (metis fst_conv image_eqI map_of_SomeD subsetD)
  then have "ordinal \<in> set ords"
    using attribute_acts_correct [OF acts] pages(2,3) by auto
  with attribute_acts_correct [OF acts] act show ?thesis by blast
qed

theorem attributed_pages_sealed_witness:
  "\<exists>page. map_of (page_census reconciled_run) 2 = Some page \<and> page_outcome page = PyStr ''sealed''"
proof -
  from reconciled_run_returns obtain r where r: "run_aggregate reconciled_run = Inr r"
    by (rule returns_aggregateE)
  show ?thesis
    using attributed_pages_sealed [OF r, of "[(''act-1'', [1]), (''act-2'', [2])]" "''act-2''" "[2]" 2]
    by (simp add: reconciled_run_def)
qed

text \<open>
  The aggregate's category counts are the census of the acts: each category's count is
  the number of counted acts that ended in it.
\<close>

lemma category_counts:
  assumes run: "run_aggregate a = Inr r"
  shows "get_count (by_category r) (category_value cat) =
    int (card {act. map_of (act_categories a) act = Some cat})"
proof (rule run_aggregate_sections [OF run])
  let ?acts = "sorted_set (map fst (act_categories a))"
  let ?cat = "\<lambda>act. category_value (the (map_of (act_categories a) act))"
  have inj: "category_value c = category_value d \<longleftrightarrow> c = d" for c d
    by (cases c; cases d) (simp_all add: category_value_def)
  assume "by_category r = count_values (map ?cat ?acts)"
  then have "get_count (by_category r) (category_value cat) =
      int (length (filter (\<lambda>act. ?cat act = category_value cat) ?acts))"
    by (simp add: get_count_fold_bump count_list_eq_length_filter filter_map o_def
        eq_commute)
  also have "\<dots> = int (card (set (filter (\<lambda>act. ?cat act = category_value cat) ?acts)))"
    by (subst distinct_card) (rule distinct_filter, rule distinct_sorted_set, rule refl)
  also have "set (filter (\<lambda>act. ?cat act = category_value cat) ?acts) =
      {act. map_of (act_categories a) act = Some cat}"
  proof -
    have "act \<in> fst ` set (act_categories a) \<longleftrightarrow> map_of (act_categories a) act \<noteq> None" for act
      by (simp add: map_of_eq_None_iff)
    then show ?thesis by (auto simp: inj)
  qed
  finally show ?thesis .
qed

text \<open>
  C3. What an aggregate says of its acts is their census: an act is named unresolved, with its
  category, exactly when the run counted it in a category held for review or refused; the reasons
  that name clearances are those of the operator clearances, one for each, with the act, reading or page
  it cleared, its decision, which is one that clears, and the codes it lifts; and each category's count
  is the number of the acts that ended in it.
\<close>

theorem aggregate_names_and_counts:
  assumes run: "run_aggregate a = Inr r"
  shows "(UnresolvedAct act cat \<in> set (reasons r) \<longleftrightarrow>
      map_of (act_categories a) act = Some cat \<and> cat \<in> {HELD_FOR_REVIEW, REFUSED_WITH_REASON}) \<and>
    mset (filter is_ClearedByOperator (reasons r)) =
      mset (map (clearance_named (map fst (act_categories a))) (review_clearances a)) \<and>
    list_all clearance_due (review_clearances a) \<and>
    get_count (by_category r) (category_value cat) = int (card {act. map_of (act_categories a) act = Some cat})"
  using unresolved_acts_named [OF run] clearances_named [OF run] category_counts [OF run] by simp

theorem aggregate_names_and_counts_witness:
  "\<exists>r. run_aggregate held_run = Inr r \<and> UnresolvedAct ''act-2'' HELD_FOR_REVIEW \<in> set (reasons r) \<and>
     length (filter is_ClearedByOperator (reasons r)) = length (review_clearances held_run)"
proof -
  from held_run_returns obtain r where r: "run_aggregate held_run = Inr r"
    by (rule returns_aggregateE)
  note named = aggregate_names_and_counts [OF r, of "''act-2''" HELD_FOR_REVIEW]
  then have "length (filter is_ClearedByOperator (reasons r)) = length (review_clearances held_run)"
    by (metis length_map size_mset)
  with named r show ?thesis by (simp add: held_run_def)
qed

end
