(* ===== verification/Policy.thy ===== *)
theory Policy
  imports Prelude
begin

text \<open>
  The constants and the sealed policy of \<open>common/page_accounting.py\<close>: the finding codes and
  which of them hold a page, the rule status, and the loading of the closed
  \<open>page_accounting.toml\<close>.
\<close>

section \<open>Finding codes\<close>

datatype code =
    PAGE_ANSWER_INCOMPLETE | UNKNOWN_ID | READING_UNPLACED | UNACCOUNTED_WITNESS_UNIT
  | SET_ASIDE_SUBSTANTIAL | WITNESS_NOT_READ | WITNESS_READ_NO_UNITS | WITNESS_READ_BLANK
  | UNREAD_LINE | UNREAD_LINE_NOT_MEASURED | WITNESS_TEXT_NOT_READ | WITNESS_SHORT_UNIT_NOT_READ
  | WITNESS_TEXT_NOT_MEASURED | TOO_FEW_DISTINCTIVE_PIECES | UNREAD_INK | UNREAD_INK_NOT_MEASURED
  | READING_INCOMPLETE | TRUNCATION_NOT_CLASSIFIED | DUPLICATE_REGION | SHARED_LINE
  | ROWS_SHARE_UNIT | MERGED_DETECTION | RECORD_READ_AS_OTHER | RECORD_NOT_READ
  | NO_RECORD_ON_ACT_PAGE | SET_ASIDE_RECORD | SPLIT_DETECTION | RECORDS_NOT_MEASURED
  | RECORD_NOT_MEASURED | RECORD_DETECTOR_CAPPED | NO_RECORD_DETECTOR | NO_PARSED_ANSWER
  | REASK_SET_ASIDE | REASK_UNREAD | REASK_UNPLACED | REASK_DUPLICATE | REASK_NO_TEXT
  | REASK_DUPLICATE_NOT_MEASURED | RESIDUAL_INK

definition code_name :: "code \<Rightarrow> string" where
  "code_name c = (case c of
     PAGE_ANSWER_INCOMPLETE \<Rightarrow> ''page-answer-incomplete'' | UNKNOWN_ID \<Rightarrow> ''unknown-id''
   | READING_UNPLACED \<Rightarrow> ''reading-unplaced''
   | UNACCOUNTED_WITNESS_UNIT \<Rightarrow> ''unaccounted-witness-unit''
   | SET_ASIDE_SUBSTANTIAL \<Rightarrow> ''set-aside-substantial'' | WITNESS_NOT_READ \<Rightarrow> ''witness-not-read''
   | WITNESS_READ_NO_UNITS \<Rightarrow> ''witness-read-no-units''
   | WITNESS_READ_BLANK \<Rightarrow> ''witness-read-blank'' | UNREAD_LINE \<Rightarrow> ''unread-line''
   | UNREAD_LINE_NOT_MEASURED \<Rightarrow> ''unread-line-not-measured''
   | WITNESS_TEXT_NOT_READ \<Rightarrow> ''witness-text-not-read''
   | WITNESS_SHORT_UNIT_NOT_READ \<Rightarrow> ''witness-short-unit-not-read''
   | WITNESS_TEXT_NOT_MEASURED \<Rightarrow> ''witness-text-not-measured''
   | TOO_FEW_DISTINCTIVE_PIECES \<Rightarrow> ''too-few-distinctive-pieces'' | UNREAD_INK \<Rightarrow> ''unread-ink''
   | UNREAD_INK_NOT_MEASURED \<Rightarrow> ''unread-ink-not-measured''
   | READING_INCOMPLETE \<Rightarrow> ''reading-incomplete''
   | TRUNCATION_NOT_CLASSIFIED \<Rightarrow> ''truncation-not-classified''
   | DUPLICATE_REGION \<Rightarrow> ''duplicate-region'' | SHARED_LINE \<Rightarrow> ''shared-line''
   | ROWS_SHARE_UNIT \<Rightarrow> ''rows-share-unit'' | MERGED_DETECTION \<Rightarrow> ''merged-detection''
   | RECORD_READ_AS_OTHER \<Rightarrow> ''record-read-as-other'' | RECORD_NOT_READ \<Rightarrow> ''record-not-read''
   | NO_RECORD_ON_ACT_PAGE \<Rightarrow> ''no-detector-record-on-act-page''
   | SET_ASIDE_RECORD \<Rightarrow> ''set-aside-record'' | SPLIT_DETECTION \<Rightarrow> ''split-detection''
   | RECORDS_NOT_MEASURED \<Rightarrow> ''detector-records-not-measured''
   | RECORD_NOT_MEASURED \<Rightarrow> ''detector-record-not-measured''
   | RECORD_DETECTOR_CAPPED \<Rightarrow> ''record-detector-capped''
   | NO_RECORD_DETECTOR \<Rightarrow> ''no-record-detector'' | NO_PARSED_ANSWER \<Rightarrow> ''no-parsed-answer''
   | REASK_SET_ASIDE \<Rightarrow> ''reask-set-aside'' | REASK_UNREAD \<Rightarrow> ''reask-unread''
   | REASK_UNPLACED \<Rightarrow> ''reask-unplaced'' | REASK_DUPLICATE \<Rightarrow> ''reask-duplicate''
   | REASK_NO_TEXT \<Rightarrow> ''reask-no-text''
   | REASK_DUPLICATE_NOT_MEASURED \<Rightarrow> ''reask-duplicate-not-measured''
   | RESIDUAL_INK \<Rightarrow> ''residual-ink'')"

definition HOLD_CODES :: "code list" where
  "HOLD_CODES =
    [PAGE_ANSWER_INCOMPLETE, UNKNOWN_ID, READING_UNPLACED, UNACCOUNTED_WITNESS_UNIT,
     SET_ASIDE_SUBSTANTIAL, WITNESS_NOT_READ, WITNESS_READ_NO_UNITS, UNREAD_LINE,
     UNREAD_LINE_NOT_MEASURED, WITNESS_TEXT_NOT_READ, WITNESS_SHORT_UNIT_NOT_READ,
     WITNESS_TEXT_NOT_MEASURED, UNREAD_INK, UNREAD_INK_NOT_MEASURED, READING_INCOMPLETE,
     TRUNCATION_NOT_CLASSIFIED, DUPLICATE_REGION, MERGED_DETECTION, RECORD_READ_AS_OTHER,
     RECORD_NOT_READ, NO_RECORD_ON_ACT_PAGE, SET_ASIDE_RECORD, RECORDS_NOT_MEASURED,
     RECORD_NOT_MEASURED, RECORD_DETECTOR_CAPPED, REASK_SET_ASIDE, REASK_UNREAD,
     REASK_UNPLACED, REASK_DUPLICATE, REASK_NO_TEXT, REASK_DUPLICATE_NOT_MEASURED]"

definition NOT_MEASURED_CODES :: "code list" where
  "NOT_MEASURED_CODES =
    [UNREAD_LINE_NOT_MEASURED, WITNESS_TEXT_NOT_MEASURED, UNREAD_INK_NOT_MEASURED,
     RECORDS_NOT_MEASURED, RECORD_NOT_MEASURED, RECORD_DETECTOR_CAPPED, NO_PARSED_ANSWER,
     TRUNCATION_NOT_CLASSIFIED, REASK_DUPLICATE_NOT_MEASURED]"

definition FLAGGABLE_CODES :: "code list" where
  "FLAGGABLE_CODES =
     filter (\<lambda>c. c \<notin> {DUPLICATE_REGION, READING_INCOMPLETE, READING_UNPLACED}) HOLD_CODES
     @ [RESIDUAL_INK]"

datatype status = PASS | HOLD | FLAG | NOT_MEASURED | NOT_APPLICABLE

definition BASIS_POINTS :: int where
  "BASIS_POINTS = 10000"

section \<open>The policy\<close>

record policy =
  inside_min_area_bp :: int
  max_unread_characters :: int
  max_set_aside_characters :: int
  max_unread_share_bp :: int
  min_block_characters :: int
  anchor_characters :: int
  anchor_neighbours :: int
  anchor_offset_tolerance :: int
  band_slack :: int
  direct_alignment_max_pairs :: int
  max_alignment_pairs :: int
  max_characters :: int
  max_alignment_steps :: int
  piece_characters :: int
  piece_edits :: int
  window_slack :: int
  min_pieces :: int
  min_distinctive_share_bp :: int
  max_short_unit_distance_bp :: int
  max_shared_share_bp :: int
  max_unit_area_per_character_bp :: int
  max_act_doubt_share_bp :: int
  max_page_doubt_share_bp :: int
  policy_sha256 :: ustr
  flag_codes :: "code list"
  short_unit_characters :: int

definition FLAGS_FIELDS :: "string list" where
  "FLAGS_FIELDS = [''codes'', ''short_unit_characters'']"

definition POLICY_TABLES :: "(string \<times> string list) list" where
  "POLICY_TABLES =
    [(''inside'', [''min_area_bp'']),
     (''witness_text'', [''max_unread_characters'', ''max_set_aside_characters'',
        ''max_unread_share_bp'', ''min_block_characters'']),
     (''alignment'', [''anchor_characters'', ''anchor_neighbours'', ''anchor_offset_tolerance'',
        ''band_slack'', ''direct_alignment_max_pairs'', ''max_alignment_pairs'',
        ''max_characters'', ''max_alignment_steps'']),
     (''identity'', [''piece_characters'', ''piece_edits'', ''window_slack'', ''min_pieces'',
        ''min_distinctive_share_bp'', ''max_short_unit_distance_bp'']),
     (''region'', [''max_shared_share_bp'', ''max_unit_area_per_character_bp'']),
     (''doubt'', [''max_act_doubt_share_bp'', ''max_page_doubt_share_bp''])]"

definition BASIS_POINT_FIELDS :: "string list" where
  "BASIS_POINT_FIELDS =
    [''min_area_bp'', ''max_unread_share_bp'', ''min_distinctive_share_bp'',
     ''max_short_unit_distance_bp'', ''max_shared_share_bp'',
     ''max_unit_area_per_character_bp'', ''max_act_doubt_share_bp'',
     ''max_page_doubt_share_bp'']"

text \<open>\<open>_flags_policy\<close>: a code is flagged by its name; a name of no flaggable code is refused.\<close>

definition flaggable_code :: "ustr \<Rightarrow> code option" where
  "flaggable_code name = find (\<lambda>c. u (code_name c) = name) FLAGGABLE_CODES"

fun strings_of :: "json list \<Rightarrow> ustr list option" where
  "strings_of [] = Some []"
| "strings_of (JStr s # vs) = map_option (\<lambda>ss. s # ss) (strings_of vs)"
| "strings_of (_ # vs) = None"

definition flags_policy :: "json \<Rightarrow> (code list \<times> int) result" where
  "flags_policy table =
     (case table of
        JObj kvs \<Rightarrow>
          if \<not> keys_are kvs FLAGS_FIELDS then Inl (ContractError ''flags fields'')
          else (case field kvs ''codes'' of
            Some (JList vs) \<Rightarrow>
              (case strings_of vs of
                 None \<Rightarrow> Inl (ContractError ''flags codes'')
               | Some names \<Rightarrow>
                   if \<not> distinct names then Inl (ContractError ''a code twice'')
                   else if \<not> (\<forall>n \<in> set names. flaggable_code n \<noteq> None)
                   then Inl (ContractError ''no page-level hold code'')
                   else (case field kvs ''short_unit_characters'' of
                     Some (JInt n) \<Rightarrow>
                       if n \<le> 0 then Inl (ContractError ''short_unit_characters'')
                       else Inr (map (the \<circ> flaggable_code) names, n)
                   | _ \<Rightarrow> Inl (ContractError ''short_unit_characters'')))
          | _ \<Rightarrow> Inl (ContractError ''flags codes''))
      | _ \<Rightarrow> Inl (ContractError ''flags fields''))"

definition policy_value ::
  "(ustr \<times> json) list \<Rightarrow> string \<Rightarrow> string \<Rightarrow> (string \<times> int) result" where
  "policy_value tables table fld =
     (case field tables table of
        Some (JObj kvs) \<Rightarrow>
          (case field kvs fld of
             Some (JInt n) \<Rightarrow>
               if n \<le> 0 then Inl (ContractError ''must be a positive integer'')
               else if fld \<in> set BASIS_POINT_FIELDS \<and> n > BASIS_POINTS
               then Inl (ContractError ''must be in 1..10000'')
               else Inr (fld, n)
           | _ \<Rightarrow> Inl (ContractError ''must be a positive integer''))
      | _ \<Rightarrow> Inl (ContractError ''wrong closed schema''))"

definition closed_schema :: "(ustr \<times> json) list \<Rightarrow> bool" where
  "closed_schema tables \<longleftrightarrow>
     keys_are tables (map fst POLICY_TABLES) \<and>
     list_all (\<lambda>(table, fields). case field tables table of
        Some (JObj kvs) \<Rightarrow> keys_are kvs fields | _ \<Rightarrow> False) POLICY_TABLES"

definition policy_of_values :: "(string \<times> int) list \<Rightarrow> ustr \<Rightarrow> code list \<Rightarrow> int \<Rightarrow> policy" where
  "policy_of_values vs digest codes short =
     (let v = (\<lambda>f. case map_of vs f of Some n \<Rightarrow> n | None \<Rightarrow> 0) in
      \<lparr>inside_min_area_bp = v ''min_area_bp'',
       max_unread_characters = v ''max_unread_characters'',
       max_set_aside_characters = v ''max_set_aside_characters'',
       max_unread_share_bp = v ''max_unread_share_bp'',
       min_block_characters = v ''min_block_characters'',
       anchor_characters = v ''anchor_characters'', anchor_neighbours = v ''anchor_neighbours'',
       anchor_offset_tolerance = v ''anchor_offset_tolerance'', band_slack = v ''band_slack'',
       direct_alignment_max_pairs = v ''direct_alignment_max_pairs'',
       max_alignment_pairs = v ''max_alignment_pairs'', max_characters = v ''max_characters'',
       max_alignment_steps = v ''max_alignment_steps'', piece_characters = v ''piece_characters'',
       piece_edits = v ''piece_edits'', window_slack = v ''window_slack'',
       min_pieces = v ''min_pieces'', min_distinctive_share_bp = v ''min_distinctive_share_bp'',
       max_short_unit_distance_bp = v ''max_short_unit_distance_bp'',
       max_shared_share_bp = v ''max_shared_share_bp'',
       max_unit_area_per_character_bp = v ''max_unit_area_per_character_bp'',
       max_act_doubt_share_bp = v ''max_act_doubt_share_bp'',
       max_page_doubt_share_bp = v ''max_page_doubt_share_bp'',
       policy_sha256 = digest, flag_codes = codes, short_unit_characters = short\<rparr>)"

text \<open>
  The loader, from the decoded TOML tables and the digest of their bytes, which reading the
  file gives.
\<close>

definition load_page_accounting_policy :: "(ustr \<times> json) list \<Rightarrow> ustr \<Rightarrow> policy result" where
  "load_page_accounting_policy tables digest =
     rbind (rget (ContractError ''no [flags] table'') (field tables ''flags'')) (\<lambda>ft.
     rbind (flags_policy ft) (\<lambda>(codes, short).
       let rest = filter (\<lambda>(k, _). k \<noteq> u ''flags'') tables in
     rbind (ensure (closed_schema rest) (ContractError ''wrong closed schema'')) (\<lambda>_.
     rbind (rmap (\<lambda>(table, f). policy_value rest table f)
             (concat (map (\<lambda>(table, fs). map (Pair table) fs) POLICY_TABLES))) (\<lambda>vs.
       let p = policy_of_values vs digest codes short in
       if direct_alignment_max_pairs p > max_alignment_pairs p
       then Inl (ContractError ''direct_alignment_max_pairs exceeds max_alignment_pairs'')
       else Inr p))))"

text \<open>
  A policy that was loaded: positive thresholds, and flags only of flaggable codes.
\<close>

definition wf_policy :: "policy \<Rightarrow> bool" where
  "wf_policy p \<longleftrightarrow>
     0 < inside_min_area_bp p \<and> inside_min_area_bp p \<le> BASIS_POINTS \<and>
     0 < max_unread_characters p \<and> 0 < max_set_aside_characters p \<and>
     0 < min_block_characters p \<and> 0 < anchor_characters p \<and> 0 < anchor_neighbours p \<and>
     0 < piece_characters p \<and> 0 < max_alignment_steps p \<and>
     0 < max_shared_share_bp p \<and> max_shared_share_bp p \<le> BASIS_POINTS \<and>
     direct_alignment_max_pairs p \<le> max_alignment_pairs p \<and>
     set (flag_codes p) \<subseteq> set FLAGGABLE_CODES"

text \<open>Every number of a policy, in the order of its tables, and those that are shares in basis points.\<close>

definition thresholds :: "policy \<Rightarrow> int list" where
  "thresholds p =
     [inside_min_area_bp p, max_unread_characters p, max_set_aside_characters p, max_unread_share_bp p,
      min_block_characters p, anchor_characters p, anchor_neighbours p, anchor_offset_tolerance p, band_slack p,
      direct_alignment_max_pairs p, max_alignment_pairs p, max_characters p, max_alignment_steps p,
      piece_characters p, piece_edits p, window_slack p, min_pieces p, min_distinctive_share_bp p,
      max_short_unit_distance_bp p, max_shared_share_bp p, max_unit_area_per_character_bp p,
      max_act_doubt_share_bp p, max_page_doubt_share_bp p, short_unit_characters p]"

definition share_thresholds :: "policy \<Rightarrow> int list" where
  "share_thresholds p =
     [inside_min_area_bp p, max_unread_share_bp p, min_distinctive_share_bp p, max_short_unit_distance_bp p,
      max_shared_share_bp p, max_unit_area_per_character_bp p, max_act_doubt_share_bp p, max_page_doubt_share_bp p]"

end
