(* ===== verification/PolicyLoad.thy ===== *)
theory PolicyLoad
  imports Policy
begin

text \<open>
  What loading the sealed policy of \<open>common/page_accounting.py\<close> guarantees.
\<close>

section \<open>A loaded policy is well formed\<close>

lemma policy_value_Inr:
  "policy_value tables table f = Inr (f', n) \<Longrightarrow>
     f' = f \<and> 0 < n \<and> (f \<in> set BASIS_POINT_FIELDS \<longrightarrow> n \<le> BASIS_POINTS)"
  by (auto simp: policy_value_def split: option.splits json.splits if_splits)

lemma policy_values_lookup:
  assumes "rmap (\<lambda>(table, f). policy_value tables table f) tfs = Inr vs" and "f \<in> snd ` set tfs"
  shows "\<exists>n. map_of vs f = Some n \<and> 0 < n \<and> (f \<in> set BASIS_POINT_FIELDS \<longrightarrow> n \<le> BASIS_POINTS)"
  using assms
proof (induction tfs arbitrary: vs)
  case Nil
  then show ?case by simp
next
  case (Cons tf tfs)
  obtain t g where tf: "tf = (t, g)" by (cases tf)
  from Cons.prems(1) tf obtain x ws where x: "policy_value tables t g = Inr x"
    and ws: "rmap (\<lambda>(table, f). policy_value tables table f) tfs = Inr ws" and vs: "vs = x # ws"
    by (auto simp: result_simps)
  obtain g' n where gn: "x = (g', n)" by (cases x)
  show ?case
  proof (cases "f = g")
    case True
    then show ?thesis using policy_value_Inr [OF x [unfolded gn]] vs gn by auto
  next
    case False
    then have "f \<in> snd ` set tfs" using Cons.prems(2) tf by auto
    from Cons.IH [OF ws this] False show ?thesis
      using policy_value_Inr [OF x [unfolded gn]] vs gn by auto
  qed
qed

lemma flaggable_code_in: "flaggable_code n = Some c \<Longrightarrow> c \<in> set FLAGGABLE_CODES"
  by (auto simp: flaggable_code_def find_Some_iff)

lemma flaggable_code_name: "flaggable_code n = Some c \<Longrightarrow> u (code_name c) = n"
  by (auto simp: flaggable_code_def find_Some_iff)

lemma flags_policy_codes:
  assumes "flags_policy table = Inr (codes, short)"
  shows "set codes \<subseteq> set FLAGGABLE_CODES \<and> distinct codes \<and> 0 < short"
proof -
  from assms obtain names where names: "\<forall>n \<in> set names. flaggable_code n \<noteq> None" "distinct names"
    and codes: "codes = map (the \<circ> flaggable_code) names" and "0 < short"
    unfolding flags_policy_def
    by (simp split: json.splits option.splits if_splits)
  moreover have "inj_on (the \<circ> flaggable_code) (set names)"
  proof (rule inj_onI)
    fix m n
    assume "m \<in> set names" "n \<in> set names" "(the \<circ> flaggable_code) m = (the \<circ> flaggable_code) n"
    with names(1) obtain c where "flaggable_code m = Some c" "flaggable_code n = Some c" by fastforce
    then show "m = n" using flaggable_code_name by metis
  qed
  ultimately show ?thesis using flaggable_code_in by (fastforce simp: distinct_map)
qed

text \<open>
  C4. Loading never yields an unusable policy: every number of the policy is positive, every share is
  at most the whole, the direct alignment bound is within the alignment bound, and a flag is only ever a
  code a flag may lift, never an entry's own hold, named once.
\<close>

theorem loaded_policy_well_formed:
  assumes load: "load_page_accounting_policy tables digest = Inr p"
  shows "wf_policy p \<and> list_all (\<lambda>n. 0 < n) (thresholds p) \<and> list_all (\<lambda>n. n \<le> BASIS_POINTS) (share_thresholds p) \<and>
    direct_alignment_max_pairs p \<le> max_alignment_pairs p \<and> policy_sha256 p = digest \<and>
    set (flag_codes p) \<subseteq> set FLAGGABLE_CODES \<and> distinct (flag_codes p) \<and>
    DUPLICATE_REGION \<notin> set (flag_codes p)"
proof -
  let ?tfs = "concat (map (\<lambda>(table, fs). map (Pair table) fs) POLICY_TABLES)"
  from load obtain ft codes short rest vs where
    flags: "flags_policy ft = Inr (codes, short)"
    and vs: "rmap (\<lambda>(table, f). policy_value rest table f) ?tfs = Inr vs"
    and p: "p = policy_of_values vs digest codes short"
    and bound: "direct_alignment_max_pairs p \<le> max_alignment_pairs p"
    by (auto simp: load_page_accounting_policy_def Let_def result_simps split: if_splits)
  define v where "v f = (case map_of vs f of Some n \<Rightarrow> n | None \<Rightarrow> 0)" for f
  have fields: "\<forall>f \<in> set (map snd ?tfs). 0 < v f \<and> (f \<in> set BASIS_POINT_FIELDS \<longrightarrow> v f \<le> BASIS_POINTS)"
    using policy_values_lookup [OF vs] by (fastforce simp: v_def)
  have "thresholds p = map v (map snd ?tfs) @ [short]"
    by (simp add: thresholds_def p policy_of_values_def v_def POLICY_TABLES_def)
  with fields flags_policy_codes [OF flags] have pos: "list_all (\<lambda>n. 0 < n) (thresholds p)"
    by (simp add: list_all_iff)
  have "share_thresholds p = map v BASIS_POINT_FIELDS"
    by (simp add: share_thresholds_def p policy_of_values_def v_def BASIS_POINT_FIELDS_def)
  moreover have "set BASIS_POINT_FIELDS \<subseteq> set (map snd ?tfs)"
    by (simp add: BASIS_POINT_FIELDS_def POLICY_TABLES_def)
  ultimately have share: "list_all (\<lambda>n. n \<le> BASIS_POINTS) (share_thresholds p)"
    using fields by (simp only: list_all_iff list.set_map) blast
  have codes: "flag_codes p = codes" "policy_sha256 p = digest" by (simp_all add: p policy_of_values_def)
  have "wf_policy p"
    using pos share bound flags_policy_codes [OF flags]
    by (simp add: wf_policy_def thresholds_def share_thresholds_def codes)
  with pos share bound flags_policy_codes [OF flags] show ?thesis
    by (auto simp: codes FLAGGABLE_CODES_def)
qed

definition shipped_tables :: "(ustr \<times> json) list" where
  "shipped_tables = map (\<lambda>(t, kvs). (u t, JObj (map (\<lambda>(k, n). (u k, n)) kvs)))
    [(''inside'', [(''min_area_bp'', JInt 5000)]),
     (''witness_text'', [(''max_unread_characters'', JInt 60), (''max_set_aside_characters'', JInt 20),
        (''max_unread_share_bp'', JInt 3000), (''min_block_characters'', JInt 4)]),
     (''alignment'', [(''anchor_characters'', JInt 6), (''anchor_neighbours'', JInt 3),
        (''anchor_offset_tolerance'', JInt 16), (''band_slack'', JInt 8),
        (''direct_alignment_max_pairs'', JInt 40000), (''max_alignment_pairs'', JInt 4000000),
        (''max_characters'', JInt 200000), (''max_alignment_steps'', JInt 100000000)]),
     (''identity'', [(''piece_characters'', JInt 6), (''piece_edits'', JInt 2),
        (''window_slack'', JInt 3), (''min_pieces'', JInt 5),
        (''min_distinctive_share_bp'', JInt 3500), (''max_short_unit_distance_bp'', JInt 4000)]),
     (''region'', [(''max_shared_share_bp'', JInt 5000),
        (''max_unit_area_per_character_bp'', JInt 100)]),
     (''doubt'', [(''max_act_doubt_share_bp'', JInt 2000), (''max_page_doubt_share_bp'', JInt 3000)]),
     (''flags'', [(''codes'', JList [JStr (u ''unread-ink'')]), (''short_unit_characters'', JInt 15)])]"

definition loads_policy :: "(ustr \<times> json) list \<Rightarrow> (policy \<Rightarrow> bool) \<Rightarrow> bool" where
  "loads_policy ts P = (case load_page_accounting_policy ts [] of Inr p \<Rightarrow> P p | Inl _ \<Rightarrow> False)"

lemma shipped_tables_load: "loads_policy shipped_tables (\<lambda>p. flag_codes p = [UNREAD_INK])"
  by code_simp

theorem loaded_policy_well_formed_witness:
  "\<exists>p. load_page_accounting_policy shipped_tables [] = Inr p \<and> wf_policy p \<and> list_all (\<lambda>n. 0 < n) (thresholds p)"
proof -
  from shipped_tables_load obtain p where p: "load_page_accounting_policy shipped_tables [] = Inr p"
    by (auto simp: loads_policy_def split: sum.splits)
  from loaded_policy_well_formed [OF p] p show ?thesis by blast
qed

end
