(* ===== verification/Regions.thy ===== *)
theory Regions
  imports Policy
begin

text \<open>
  The geometry of \<open>common/page_accounting.py\<close>: boxes in page pixels, the area of a box
  inside a union of boxes by a sweep over vertical strips, and \<open>is_inside\<close>. A region is the
  list of its boxes and every test reads their union; the pixel sets below are what the
  sweep is proved to count.
\<close>

section \<open>Boxes\<close>

record box =
  box_x :: int
  box_y :: int
  box_w :: int
  box_h :: int

type_synonym corner_box = "int \<times> int \<times> int \<times> int"

text \<open>
  \<open>_box\<close>: exactly the keys x, y, w, h, each an integer and no boolean, a position on the
  page and a positive size.
\<close>

definition BOX_KEYS :: "string list" where
  "BOX_KEYS = [''x'', ''y'', ''w'', ''h'']"

definition mk_box :: "int \<Rightarrow> int \<Rightarrow> int \<Rightarrow> int \<Rightarrow> box" where
  "mk_box x y w h = \<lparr>box_x = x, box_y = y, box_w = w, box_h = h\<rparr>"

definition read_box :: "json \<Rightarrow> box result" where
  "read_box value =
     (case value of
        JObj kvs \<Rightarrow>
          if \<not> keys_are kvs BOX_KEYS then Inl (ContractError ''box_px'')
          else (case (field kvs ''x'', field kvs ''y'', field kvs ''w'', field kvs ''h'') of
            (Some (JInt x), Some (JInt y), Some (JInt w), Some (JInt h)) \<Rightarrow>
              if x < 0 \<or> y < 0 \<or> w \<le> 0 \<or> h \<le> 0 then Inl (ContractError ''box_px'')
              else Inr (mk_box x y w h)
          | _ \<Rightarrow> Inl (ContractError ''box_px''))
      | _ \<Rightarrow> Inl (ContractError ''box_px''))"

definition bounds_json :: "box \<Rightarrow> json" where
  "bounds_json b = JObj [(u ''x'', JInt (box_x b)), (u ''y'', JInt (box_y b)), (u ''w'', JInt (box_w b)), (u ''h'', JInt (box_h b))]"

definition corners :: "box \<Rightarrow> corner_box" where
  "corners b = (box_x b, box_y b, box_x b + box_w b, box_y b + box_h b)"

definition from_corners :: "int \<Rightarrow> int \<Rightarrow> int \<Rightarrow> int \<Rightarrow> box" where
  "from_corners x0 y0 x1 y1 = mk_box x0 y0 (x1 - x0) (y1 - y0)"

definition box_area :: "box \<Rightarrow> int" where
  "box_area b = box_w b * box_h b"

section \<open>The sweep\<close>

fun clip :: "corner_box \<Rightarrow> corner_box \<Rightarrow> corner_box" where
  "clip (b0, b1, b2, b3) (r0, r1, r2, r3) = (max b0 r0, max b1 r1, min b2 r2, min b3 r3)"

fun proper :: "corner_box \<Rightarrow> bool" where
  "proper (c0, c1, c2, c3) \<longleftrightarrow> c0 < c2 \<and> c1 < c3"

text \<open>The loop over the sorted spans of a strip: the length so far and the open span.\<close>

fun sweep :: "(int \<times> int) list \<Rightarrow> int \<Rightarrow> (int \<times> int) option \<Rightarrow> int" where
  "sweep [] len None = len"
| "sweep [] len (Some (lo, hi)) = len + (hi - lo)"
| "sweep ((y0, y1) # spans) len None = sweep spans len (Some (y0, y1))"
| "sweep ((y0, y1) # spans) len (Some (lo, hi)) =
     (if y0 > hi then sweep spans (len + (hi - lo)) (Some (y0, y1))
      else sweep spans len (Some (lo, max hi y1)))"

definition strip_spans :: "corner_box list \<Rightarrow> int \<Rightarrow> int \<Rightarrow> (int \<times> int) list" where
  "strip_spans clipped x0 x1 =
     sort (map (\<lambda>(c0, c1, c2, c3). (c1, c3))
       (filter (\<lambda>(c0, c1, c2, c3). c0 \<le> x0 \<and> x1 \<le> c2) clipped))"

fun covered :: "corner_box list \<Rightarrow> int list \<Rightarrow> int" where
  "covered clipped (x0 # x1 # xs) =
     sweep (strip_spans clipped x0 x1) 0 None * (x1 - x0) + covered clipped (x1 # xs)"
| "covered clipped _ = 0"

definition area_inside :: "box \<Rightarrow> box list \<Rightarrow> int" where
  "area_inside b regions =
     (let clipped = filter proper (map (\<lambda>r. clip (corners b) (corners r)) regions)
      in if clipped = [] then 0
         else covered clipped (sorted_set (map fst clipped @ map (fst \<circ> snd \<circ> snd) clipped)))"

definition is_inside :: "policy \<Rightarrow> box \<Rightarrow> box list \<Rightarrow> bool" where
  "is_inside p b regions \<longleftrightarrow>
     area_inside b regions * BASIS_POINTS \<ge> inside_min_area_bp p * box_area b"

section \<open>Regions\<close>

definition union_box :: "box list \<Rightarrow> box option" where
  "union_box boxes =
     (if boxes = [] then None
      else let cs = map corners boxes in
        Some (from_corners (Min (set (map fst cs))) (Min (set (map (fst \<circ> snd) cs)))
          (Max (set (map (fst \<circ> snd \<circ> snd) cs))) (Max (set (map (snd \<circ> snd \<circ> snd) cs)))))"

definition region_area :: "box list \<Rightarrow> int" where
  "region_area boxes = (case union_box boxes of None \<Rightarrow> 0 | Some b \<Rightarrow> area_inside b boxes)"

definition overlaps :: "box list \<Rightarrow> box list \<Rightarrow> box list" where
  "overlaps region other = concat (map (\<lambda>a. concat (map (\<lambda>b.
     (case clip (corners a) (corners b) of (x0, y0, x1, y1) \<Rightarrow>
        if x0 < x1 \<and> y0 < y1 then [from_corners x0 y0 x1 y1] else []))
     other)) region)"

definition shared_area :: "box list \<Rightarrow> box list \<Rightarrow> int" where
  "shared_area region other = region_area (overlaps region other)"

section \<open>The pixels\<close>

fun corner_pixels :: "corner_box \<Rightarrow> (int \<times> int) set" where
  "corner_pixels (x0, y0, x1, y1) = {x0..<x1} \<times> {y0..<y1}"

definition pixels :: "box \<Rightarrow> (int \<times> int) set" where
  "pixels b = corner_pixels (corners b)"

definition cover :: "box list \<Rightarrow> (int \<times> int) set" where
  "cover boxes = \<Union> (pixels ` set boxes)"

text \<open>
  What the rest of the accounting relies on: an area function that counts the pixels of a
  box inside a union of boxes.
\<close>

locale area_measure =
  fixes inside_area :: "box \<Rightarrow> box list \<Rightarrow> int"
  assumes inside_area_pixels: "inside_area b rs = int (card (pixels b \<inter> cover rs))"
begin

lemma finite_pixels: "finite (pixels b)"
  by (cases "corners b") (simp add: pixels_def)

lemma inside_area_nonneg: "0 \<le> inside_area b rs"
  by (simp add: inside_area_pixels)

lemma inside_area_mono: "cover rs \<subseteq> cover ss \<Longrightarrow> inside_area b rs \<le> inside_area b ss"
  by (auto simp: inside_area_pixels finite_pixels intro!: card_mono)

lemma inside_area_set: "set rs = set ss \<Longrightarrow> inside_area b rs = inside_area b ss"
  by (simp add: inside_area_pixels cover_def)

lemma inside_area_none: "inside_area b [] = 0"
  by (simp add: inside_area_pixels cover_def)

lemma inside_area_whole: "pixels b \<subseteq> cover rs \<Longrightarrow> inside_area b rs = int (card (pixels b))"
  by (simp add: inside_area_pixels Int_absorb2)

end

lemma finite_corner_pixels [simp]: "finite (corner_pixels c)"
  by (cases c) simp

section \<open>The sweep counts pixels\<close>

definition span_points :: "(int \<times> int) list \<Rightarrow> int set" where
  "span_points spans = (\<Union>(y0, y1) \<in> set spans. {y0..<y1})"

lemma finite_span_points [simp]: "finite (span_points spans)"
  by (auto simp: span_points_def)

lemma sweep_open:
  assumes "sorted spans" and "\<forall>(y0, y1) \<in> set spans. y0 < y1 \<and> lo \<le> y0" and "lo < hi"
  shows "sweep spans len (Some (lo, hi)) = len + int (card ({lo..<hi} \<union> span_points spans))"
  using assms
proof (induction spans arbitrary: len lo hi)
  case Nil
  then show ?case by (simp add: span_points_def)
next
  case (Cons s spans)
  obtain y0 y1 where s: "s = (y0, y1)" by (cases s)
  have rest: "\<forall>(z0, z1) \<in> set spans. z0 < z1 \<and> y0 \<le> z0"
    using Cons.prems s by (auto simp: less_eq_prod_def)
  have y: "y0 < y1" "lo \<le> y0" and sorted: "sorted spans" using Cons.prems s by auto
  show ?case
  proof (cases "y0 > hi")
    case True
    have "span_points spans \<subseteq> {y0..}" using rest by (auto simp: span_points_def)
    then have "{lo..<hi} \<inter> ({y0..<y1} \<union> span_points spans) = {}" using True by auto
    then have "card ({lo..<hi} \<union> ({y0..<y1} \<union> span_points spans)) =
        card {lo..<hi} + card ({y0..<y1} \<union> span_points spans)"
      by (intro card_Un_disjoint) auto
    then show ?thesis
      using True Cons.IH [OF sorted rest y(1)] Cons.prems(3) s by (simp add: span_points_def)
  next
    case False
    have "\<forall>(z0, z1) \<in> set spans. z0 < z1 \<and> lo \<le> z0" using rest y(2) by auto
    moreover have "{lo..<hi} \<union> span_points (s # spans) = {lo..<max hi y1} \<union> span_points spans"
      using False y s by (auto simp: span_points_def)
    ultimately show ?thesis
      using False Cons.IH [OF sorted, of lo "max hi y1" len] Cons.prems(3) s by simp
  qed
qed

lemma sweep_correct:
  assumes "sorted spans" and "\<forall>(y0, y1) \<in> set spans. y0 < y1"
  shows "sweep spans 0 None = int (card (span_points spans))"
proof (cases spans)
  case Nil
  then show ?thesis by (simp add: span_points_def)
next
  case (Cons s rest)
  obtain y0 y1 where s: "s = (y0, y1)" by (cases s)
  have "\<forall>(z0, z1) \<in> set rest. z0 < z1 \<and> y0 \<le> z0"
    using assms Cons s by (auto simp: less_eq_prod_def)
  then have "sweep rest 0 (Some (y0, y1)) = 0 + int (card ({y0..<y1} \<union> span_points rest))"
    using assms Cons s by (intro sweep_open) auto
  then show ?thesis using Cons s by (simp add: span_points_def)
qed

text \<open>The columns from one strip boundary to the next hold the same spans.\<close>

definition columns :: "corner_box list \<Rightarrow> int \<Rightarrow> int \<Rightarrow> (int \<times> int) set" where
  "columns cs lo hi = (\<Union>c \<in> set cs. corner_pixels c) \<inter> {lo..<hi} \<times> UNIV"

lemma finite_columns [simp]: "finite (columns cs lo hi)"
  by (simp add: columns_def)

lemma columns_split: "lo \<le> mid \<Longrightarrow> mid \<le> hi \<Longrightarrow>
    card (columns cs lo hi) = card (columns cs lo mid) + card (columns cs mid hi)"
  by (subst card_Un_disjoint [symmetric]) (auto simp: columns_def intro!: arg_cong [of _ _ card])

lemma ys_strip_spans:
  "y \<in> span_points (strip_spans cs x0 x1) \<longleftrightarrow>
     (\<exists>c0 c1 c2 c3. (c0, c1, c2, c3) \<in> set cs \<and> (c0 \<le> x0 \<and> x1 \<le> c2) \<and> c1 \<le> y \<and> y < c3)"
  by (force simp: span_points_def strip_spans_def)

lemma some_corner_pixel:
  "(\<exists>c \<in> set cs. (x, y) \<in> corner_pixels c) \<longleftrightarrow>
     (\<exists>c0 c1 c2 c3. (c0, c1, c2, c3) \<in> set cs \<and> (c0 \<le> x \<and> x < c2) \<and> c1 \<le> y \<and> y < c3)"
  by (force simp: Bex_def)

lemma strip_columns:
  assumes proper: "\<forall>c \<in> set cs. proper c" and x: "x0 < x1"
    and bounds: "\<forall>(c0, c1, c2, c3) \<in> set cs. (c0 \<le> x0 \<or> x1 \<le> c0) \<and> (c2 \<le> x0 \<or> x1 \<le> c2)"
  shows "sweep (strip_spans cs x0 x1) 0 None * (x1 - x0) = int (card (columns cs x0 x1))"
proof -
  let ?spans = "strip_spans cs x0 x1"
  have "sweep ?spans 0 None = int (card (span_points ?spans))"
    using proper by (intro sweep_correct) (auto simp: strip_spans_def)
  moreover have "columns cs x0 x1 = {x0..<x1} \<times> span_points ?spans"
  proof (rule set_eqI)
    fix z :: "int \<times> int"
    obtain x y where z: "z = (x, y)" by (cases z)
    have strip: "c0 \<le> x \<and> x < c2 \<longleftrightarrow> c0 \<le> x0 \<and> x1 \<le> c2"
      if "(c0, c1, c2, c3) \<in> set cs" "x0 \<le> x" "x < x1" for c0 c1 c2 c3
      using bounds that by force
    have "(\<exists>c \<in> set cs. (x, y) \<in> corner_pixels c) \<longleftrightarrow>
        (\<exists>c0 c1 c2 c3. (c0, c1, c2, c3) \<in> set cs \<and> (c0 \<le> x \<and> x < c2) \<and> c1 \<le> y \<and> y < c3)"
      by (rule some_corner_pixel)
    also have "\<dots> \<longleftrightarrow> y \<in> span_points ?spans" if "x0 \<le> x" "x < x1"
      using strip that by (simp add: ys_strip_spans) metis
    finally have "(\<exists>c \<in> set cs. (x, y) \<in> corner_pixels c) \<longleftrightarrow> y \<in> span_points ?spans"
      if "x0 \<le> x" "x < x1" using that by blast
    then show "z \<in> columns cs x0 x1 \<longleftrightarrow> z \<in> {x0..<x1} \<times> span_points ?spans"
      using z by (auto simp: columns_def)
  qed
  ultimately show ?thesis using x by (simp add: card_cartesian_product)
qed

lemma covered_columns:
  assumes "\<forall>c \<in> set cs. proper c" and "sorted (x0 # xs)" and "distinct (x0 # xs)"
    and "\<forall>(c0, c1, c2, c3) \<in> set cs. (c0 \<le> x0 \<or> c0 \<in> set xs) \<and> (c2 \<le> x0 \<or> c2 \<in> set xs)"
  shows "covered cs (x0 # xs) = int (card (columns cs x0 (last (x0 # xs))))"
  using assms
proof (induction xs arbitrary: x0)
  case Nil
  then show ?case by (simp add: columns_def)
next
  case (Cons x1 xs)
  have x: "x0 < x1" "x1 \<le> last (x1 # xs)" using Cons.prems(2,3) by auto
  have "(c0 \<le> x1 \<or> c0 \<in> set xs) \<and> (c2 \<le> x1 \<or> c2 \<in> set xs)"
    if "(c0, c1, c2, c3) \<in> set cs" for c0 c1 c2 c3
    using Cons.prems(4) x(1) that by fastforce
  then have rest: "covered cs (x1 # xs) = int (card (columns cs x1 (last (x1 # xs))))"
    using Cons.prems(1,2,3) by (intro Cons.IH) auto
  have "(c0 \<le> x0 \<or> x1 \<le> c0) \<and> (c2 \<le> x0 \<or> x1 \<le> c2)"
    if "(c0, c1, c2, c3) \<in> set cs" for c0 c1 c2 c3
    using Cons.prems(2,4) that by fastforce
  then have "sweep (strip_spans cs x0 x1) 0 None * (x1 - x0) = int (card (columns cs x0 x1))"
    using Cons.prems(1) x(1) by (intro strip_columns) auto
  with rest columns_split [of x0 x1 "last (x1 # xs)" cs] x show ?case by simp
qed

lemma corner_pixels_clip: "corner_pixels (clip b r) = corner_pixels b \<inter> corner_pixels r"
  by (cases b; cases r) auto

lemma pixel_proper: "z \<in> corner_pixels c \<Longrightarrow> proper c"
  by (cases c) auto

lemma sorted_le_last: "sorted xs \<Longrightarrow> x \<in> set xs \<Longrightarrow> x \<le> last xs"
  by (induction xs) (auto split: if_splits)

lemma area_inside_pixels: "area_inside b rs = int (card (pixels b \<inter> cover rs))"
proof -
  define clipped where "clipped = filter proper (map (\<lambda>r. clip (corners b) (corners r)) rs)"
  define xs where "xs = sorted_set (map fst clipped @ map (fst \<circ> snd \<circ> snd) clipped)"
  have pix: "pixels b \<inter> cover rs = (\<Union>c \<in> set clipped. corner_pixels c)"
  proof -
    have "pixels b \<inter> cover rs = (\<Union>r \<in> set rs. corner_pixels (clip (corners b) (corners r)))"
      by (simp add: pixels_def cover_def corner_pixels_clip)
    also have "\<dots> = (\<Union>c \<in> set clipped. corner_pixels c)"
      unfolding clipped_def by (auto dest: pixel_proper)
    finally show ?thesis .
  qed
  show ?thesis
  proof (cases "clipped = []")
    case True
    then have "area_inside b rs = 0"
      by (simp add: area_inside_def clipped_def)
    then show ?thesis using pix True by simp
  next
    case False
    then obtain x0 xs' where xs: "xs = x0 # xs'"
      by (metis Nil_is_append_conv list.exhaust map_is_Nil_conv sorted_set_Nil_iff xs_def)
    have mem: "c0 \<in> set xs \<and> c2 \<in> set xs" if "(c0, c1, c2, c3) \<in> set clipped" for c0 c1 c2 c3
      using that by (force simp: xs_def)
    have sorted: "sorted xs" "distinct xs" by (simp_all add: xs_def)
    have "\<forall>(c0, c1, c2, c3) \<in> set clipped. (c0 \<le> x0 \<or> c0 \<in> set xs') \<and> (c2 \<le> x0 \<or> c2 \<in> set xs')"
      using mem xs by fastforce
    moreover have "\<forall>c \<in> set clipped. proper c" by (simp add: clipped_def)
    ultimately have "covered clipped xs = int (card (columns clipped x0 (last xs)))"
      unfolding xs using sorted xs by (intro covered_columns) simp_all
    moreover have "columns clipped x0 (last xs) = (\<Union>c \<in> set clipped. corner_pixels c)"
    proof -
      have bounds: "x0 \<le> x \<and> x \<le> last xs" if "x \<in> set xs" for x
        using that sorted(1) xs sorted_le_last by auto
      have "corner_pixels c \<subseteq> {x0..<last xs} \<times> UNIV" if c: "c \<in> set clipped" for c
      proof -
        obtain c0 c1 c2 c3 where q: "c = (c0, c1, c2, c3)" by (cases c)
        with mem [of c0 c1 c2 c3] c bounds [of c0] bounds [of c2] show ?thesis by auto
      qed
      then have "(\<Union>c \<in> set clipped. corner_pixels c) \<subseteq> {x0..<last xs} \<times> UNIV" by blast
      then show ?thesis by (simp add: columns_def Int_absorb2)
    qed
    ultimately show ?thesis
      using False by (simp add: area_inside_def clipped_def [symmetric] xs_def [symmetric] pix)
  qed
qed

interpretation sweep: area_measure area_inside
  by unfold_locales (rule area_inside_pixels)


section \<open>Areas of regions\<close>

lemma pixels_from_corners: "pixels (from_corners x0 y0 x1 y1) = {x0..<x1} \<times> {y0..<y1}"
  by (simp add: pixels_def from_corners_def mk_box_def corners_def)

lemma card_pixels: "0 \<le> box_w b \<Longrightarrow> 0 \<le> box_h b \<Longrightarrow> int (card (pixels b)) = box_area b"
  by (simp add: pixels_def corners_def box_area_def card_cartesian_product)

lemma cover_union_box: "union_box boxes = Some b \<Longrightarrow> cover boxes \<subseteq> pixels b"
proof -
  assume union: "union_box boxes = Some b"
  let ?cs = "map corners boxes"
  have "z \<in> pixels b" if "r \<in> set boxes" and z: "z \<in> pixels r" for r z
  proof -
    obtain r0 r1 r2 r3 where r: "corners r = (r0, r1, r2, r3)" by (cases "corners r")
    have "Min (set (map fst ?cs)) \<le> fst (corners r)"
      "Min (set (map (fst \<circ> snd) ?cs)) \<le> fst (snd (corners r))"
      "fst (snd (snd (corners r))) \<le> Max (set (map (fst \<circ> snd \<circ> snd) ?cs))"
      "snd (snd (snd (corners r))) \<le> Max (set (map (snd \<circ> snd \<circ> snd) ?cs))"
      using that(1) by (auto intro!: Min_le Max_ge)
    moreover obtain a c where "z = (a, c)" "r0 \<le> a" "a < r2" "r1 \<le> c" "c < r3"
      using z r by (auto simp: pixels_def)
    ultimately show ?thesis
      using r union
      by (auto simp: union_box_def Let_def pixels_from_corners image_image split: if_splits)
  qed
  then show ?thesis by (auto simp: cover_def)
qed

lemma region_area_pixels: "region_area boxes = int (card (cover boxes))"
proof (cases "union_box boxes")
  case None
  then show ?thesis by (simp add: region_area_def union_box_def cover_def Let_def split: if_splits)
next
  case (Some b)
  then show ?thesis
    using cover_union_box [OF Some] by (simp add: region_area_def area_inside_pixels Int_absorb1)
qed

lemma overlap_box_pixels:
  "cover (case clip (corners a) (corners b) of (x0, y0, x1, y1) \<Rightarrow>
      if x0 < x1 \<and> y0 < y1 then [from_corners x0 y0 x1 y1] else []) = pixels a \<inter> pixels b"
proof -
  obtain x0 y0 x1 y1 where c: "clip (corners a) (corners b) = (x0, y0, x1, y1)"
    by (cases "clip (corners a) (corners b)")
  have "pixels a \<inter> pixels b = {x0..<x1} \<times> {y0..<y1}"
    by (simp add: pixels_def corner_pixels_clip [symmetric] c)
  then show ?thesis by (auto simp: c cover_def pixels_from_corners)
qed

lemma cover_append: "cover (xs @ zs) = cover xs \<union> cover zs"
  by (auto simp: cover_def)

lemma cover_concat_map: "cover (concat (map f xs)) = (\<Union>x \<in> set xs. cover (f x))"
  by (induction xs) (simp_all add: cover_append, simp add: cover_def)

lemma cover_overlaps: "cover (overlaps region other) = cover region \<inter> cover other"
  unfolding overlaps_def cover_concat_map overlap_box_pixels by (auto simp: cover_def)

text \<open>
  C5. The region arithmetic is exact: the area the strip sweep finds of a box inside a union of boxes is
  the number of page pixels both contain, however the boxes overlap and in whatever order they are
  listed; a region's area counts each pixel once; and the area two regions share is the number of
  pixels both cover, so it is symmetric and at most either region's area.
\<close>

theorem region_areas_count_pixels:
  "area_inside b rs = int (card (pixels b \<inter> cover rs)) \<and>
   region_area rs = int (card (cover rs)) \<and>
   shared_area rs ss = int (card (cover rs \<inter> cover ss)) \<and>
   shared_area rs ss = shared_area ss rs \<and> shared_area rs ss \<le> min (region_area rs) (region_area ss)"
proof -
  have fin: "finite (cover xs)" for xs
    by (auto simp: cover_def pixels_def)
  have "card (cover rs \<inter> cover ss) \<le> card (cover rs)" "card (cover rs \<inter> cover ss) \<le> card (cover ss)"
    using fin by (auto intro: card_mono)
  then show ?thesis
    by (simp add: shared_area_def region_area_pixels cover_overlaps Int_commute sweep.inside_area_pixels)
qed

text \<open>
  More reading never un-reads a line: a box inside a region stays inside every region
  covering at least the same pixels, and a box with area is never inside no region.
\<close>

lemma is_inside_mono: "is_inside p b rs \<Longrightarrow> cover rs \<subseteq> cover ss \<Longrightarrow> is_inside p b ss"
  using sweep.inside_area_mono [of rs ss b] by (simp add: is_inside_def BASIS_POINTS_def)

lemma is_inside_nonempty:
  assumes "wf_policy p" and "0 < box_area b" and "is_inside p b rs"
  shows "rs \<noteq> []"
proof
  assume "rs = []"
  moreover have "0 < inside_min_area_bp p * box_area b"
    using assms(1,2) by (simp add: wf_policy_def)
  ultimately show False
    using assms(3) by (simp add: is_inside_def sweep.inside_area_none)
qed

end
