(* ===== verification/TextNorm.thy ===== *)
theory TextNorm
  imports Prelude
begin

text \<open>
  \<open>normalized_text\<close> of \<open>common/page_accounting.py\<close>: what of a text counts as evidence of
  ink. Each \<open>re.sub\<close> is a scan with a matcher for its pattern, which reads the pattern's one
  match at a position, if any. The tables of Python's Unicode database and of
  \<open>html.unescape\<close> are the fields of \<open>unicode\<close>.
\<close>

record unicode =
  nfkd :: "ustr \<Rightarrow> ustr"
  casefold :: "ustr \<Rightarrow> ustr"
  isalnum :: "int \<Rightarrow> bool"
  html_unescape :: "ustr \<Rightarrow> ustr"

definition UNREADABLE :: int where
  "UNREADABLE = 57344"

definition UNCERTAINTY_TOKENS :: "string list" where
  "UNCERTAINTY_TOKENS = [''[UNCERTAIN]'', ''[CROSSED_OUT]'']"

section \<open>Scanning with a matcher\<close>

text \<open>
  A matcher gives the length of the match at the head of a text, at least 1, and what it is
  replaced with. The scan takes the leftmost match and goes on after it.
\<close>

type_synonym matcher = "ustr \<Rightarrow> (nat \<times> ustr) option"

function re_sub :: "matcher \<Rightarrow> ustr \<Rightarrow> ustr" where
  "re_sub m [] = []"
| "re_sub m (c # cs) =
     (case m (c # cs) of
        None \<Rightarrow> c # re_sub m cs
      | Some (len, new) \<Rightarrow> new @ re_sub m (drop (len - 1) cs))"
  by pat_completeness auto
termination by (relation "measure (\<lambda>(m, s). length s)") auto

definition digit :: "int \<Rightarrow> bool" where
  "digit c \<longleftrightarrow> 48 \<le> c \<and> c \<le> 57"

definition upper :: "int \<Rightarrow> bool" where
  "upper c \<longleftrightarrow> 65 \<le> c \<and> c \<le> 90"

definition letter :: "int \<Rightarrow> bool" where
  "letter c \<longleftrightarrow> upper c \<or> 97 \<le> c \<and> c \<le> 122"

definition hex :: "int \<Rightarrow> bool" where
  "hex c \<longleftrightarrow> digit c \<or> 65 \<le> c \<and> c \<le> 70 \<or> 97 \<le> c \<and> c \<le> 102"

text \<open>A literal token replaced everywhere, as \<open>str.replace\<close> does.\<close>

definition match_token :: "ustr \<Rightarrow> ustr \<Rightarrow> matcher" where
  "match_token token new s =
     (if token \<noteq> [] \<and> take (length token) s = token then Some (length token, new) else None)"

text \<open>
  The doubt mark \<open>[[..]]\<close>: two brackets, no bracket inside, two brackets. A lone question mark
  becomes the marker; otherwise the first reading stays, between spaces.
\<close>

definition match_doubt :: "int \<Rightarrow> matcher" where
  "match_doubt marker s =
     (case s of
        a # b # rest \<Rightarrow>
          let inner = takeWhile (\<lambda>c. c \<noteq> 91 \<and> c \<noteq> 93) rest in
          if a = 91 \<and> b = 91 \<and> take 2 (drop (length inner) rest) = [93, 93]
          then Some (length inner + 4,
            if inner = [63] then [marker] else [32] @ takeWhile (\<lambda>c. c \<noteq> 124) inner @ [32])
          else None
      | _ \<Rightarrow> None)"

text \<open>
  A well-formed tag: an opening bracket, an optional slash, a name, an optional part opened
  by white space, an optional slash and the closing bracket.
\<close>

definition name_char :: "int \<Rightarrow> bool" where
  "name_char c \<longleftrightarrow> letter c \<or> digit c \<or> c \<in> {58, 95, 46, 45}"

definition match_tag_rest :: "nat \<Rightarrow> ustr \<Rightarrow> nat option" where
  "match_tag_rest before s =
     (case s of
        [] \<Rightarrow> None
      | c # cs \<Rightarrow>
          let name = takeWhile name_char cs; after = drop (length name) cs;
              base = before + 1 + length name
          in if \<not> letter c then None
             else case after of
               [] \<Rightarrow> None
             | d # ds \<Rightarrow>
                 if d = 62 then Some (base + 1)
                 else if d = 47 then (if take 1 ds = [62] then Some (base + 2) else None)
                 else if space_point d then
                   (let inner = takeWhile (\<lambda>e. e \<noteq> 60 \<and> e \<noteq> 62) ds
                    in if take 1 (drop (length inner) ds) = [62]
                       then Some (base + 1 + length inner + 1) else None)
                 else None)"

definition match_tag :: matcher where
  "match_tag s =
     map_option (\<lambda>n. (n, [32]))
       (if take 2 s = [60, 47] then match_tag_rest 2 (drop 2 s)
        else if take 1 s = [60] then match_tag_rest 1 (drop 1 s)
        else None)"

definition match_run :: "nat \<Rightarrow> (int \<Rightarrow> bool) \<Rightarrow> nat \<Rightarrow> nat \<Rightarrow> ustr \<Rightarrow> nat option" where
  "match_run before p lo hi s =
     (let run = takeWhile p s
      in if lo \<le> length run \<and> length run \<le> hi \<and> take 1 (drop (length run) s) = [59]
         then Some (before + length run + 1) else None)"

definition match_entity :: "unicode \<Rightarrow> matcher" where
  "match_entity uc s =
     map_option (\<lambda>n. (n, html_unescape uc (take n s)))
       (if take 3 s = [38, 35, 120] \<or> take 3 s = [38, 35, 88] then match_run 3 hex 1 6 (drop 3 s)
        else if take 2 s = [38, 35] then match_run 2 digit 1 7 (drop 2 s)
        else if take 1 s = [38] \<and> list_ex letter (take 1 (drop 1 s))
        then match_run 2 (\<lambda>d. letter d \<or> digit d) 1 31 (drop 2 s)
        else None)"

definition normalized_text :: "unicode \<Rightarrow> bool \<Rightarrow> ustr \<Rightarrow> ustr" where
  "normalized_text uc unreadable raw =
     (let marker = (if unreadable then UNREADABLE else 32);
          t1 = map (\<lambda>c. if c = UNREADABLE then 32 else c) raw;
          t2 = re_sub (match_doubt marker) t1;
          t3 = fold (\<lambda>token. re_sub (match_token (u token) [32])) UNCERTAINTY_TOKENS t2;
          t4 = re_sub match_tag t3;
          t5 = re_sub (match_entity uc) t4
      in filter (\<lambda>c. isalnum uc c \<or> c = UNREADABLE) (casefold uc (nfkd uc t5)))"

section \<open>The ASCII tables\<close>

text \<open>
  Tables that agree with the Unicode database on ASCII text: no decomposition, lower case by
  shifting, letters and digits alphanumeric, and the five entities of plain markup and the
  decimal references of three to five digits unescaped.
\<close>

definition ascii_unescape :: "ustr \<Rightarrow> ustr" where
  "ascii_unescape s =
     (if s = u ''&amp;'' then [38] else if s = u ''&lt;'' then [60] else if s = u ''&gt;'' then [62]
      else if take 2 s = [38, 35] \<and> list_all digit (butlast (drop 2 s))
      then [foldl (\<lambda>n d. n * 10 + (d - 48)) 0 (butlast (drop 2 s))] else s)"

definition ascii :: unicode where
  "ascii = \<lparr>nfkd = (\<lambda>s. s), casefold = map (\<lambda>c. if upper c then c + 32 else c),
            isalnum = (\<lambda>c. letter c \<or> digit c), html_unescape = ascii_unescape\<rparr>"

section \<open>What normalization keeps\<close>

text \<open>
  A normalized text is evidence and nothing else: every character of it is a letter or
  digit of the Unicode tables or the mark of unreadable ink, and normalizing white space and
  punctuation away leaves no white space.
\<close>

theorem normalized_text_evidence:
  assumes "c \<in> set (normalized_text uc unreadable raw)"
  shows "isalnum uc c \<or> c = UNREADABLE"
  using assms by (auto simp: normalized_text_def Let_def)

theorem normalized_text_evidence_witness:
  "normalized_text ascii True (u ''L[[?]] <b>1843</b>'') = [108, UNREADABLE, 49, 56, 52, 51] \<and>
   (isalnum ascii UNREADABLE \<or> UNREADABLE = UNREADABLE)"
proof -
  have n: "normalized_text ascii True (u ''L[[?]] <b>1843</b>'') = [108, UNREADABLE, 49, 56, 52, 51]"
    by code_simp
  then have "UNREADABLE \<in> set (normalized_text ascii True (u ''L[[?]] <b>1843</b>''))" by simp
  from normalized_text_evidence [OF this] n show ?thesis by simp
qed

text \<open>
  The mark of unreadable ink can be forged: it is removed from the raw text, but a
  character reference for it is unescaped afterwards, so the text of a witness or a reading
  that spells the reference normalizes to the mark itself, in both modes.
\<close>

theorem entity_forges_unreadable_mark:
  "normalized_text ascii False (u ''&#57344;'') = [UNREADABLE] \<and>
   normalized_text ascii True (u ''&#57344;'') = [UNREADABLE] \<and>
   normalized_text ascii False [UNREADABLE] = []"
  by code_simp

end
