(* ===== verification/Feed.thy ===== *)
theory Feed
  imports Regions TextNorm
begin

text \<open>
  The page feed as \<open>common/page_accounting.py\<close> reads it: its witness units and Surya
  detections, their ids (a capital and a number), the box each id places an entry by
  (\<open>placement_boxes\<close>) and the check that every letter's ids are numbered from 1 without a
  gap (\<open>feed_candidates\<close>). The boxes of a feed are JSON values, read by \<open>read_box\<close>; a
  dictionary is an association list in insertion order.
\<close>

section \<open>Ids\<close>

text \<open>The letters \<open>L\<close> and \<open>S\<close> of Surya's lines and blocks.\<close>

definition DETECTION_LETTERS :: "int list" where
  "DETECTION_LETTERS = [76, 83]"

text \<open>
  \<open>_ID.fullmatch\<close> and \<open>_RANGE.fullmatch\<close>: the letters and the digits of the groups. The
  range splits at its first hyphen, which neither group holds.
\<close>

definition id_of :: "ustr \<Rightarrow> (int \<times> ustr) option" where
  "id_of s =
     (case s of
        c # d # ds \<Rightarrow>
          if upper c \<and> digit d \<and> d \<noteq> 48 \<and> list_all digit ds then Some (c, d # ds) else None
      | _ \<Rightarrow> None)"

definition range_of :: "ustr \<Rightarrow> (int \<times> ustr \<times> int \<times> ustr) option" where
  "range_of s =
     (let left = takeWhile (\<lambda>c. c \<noteq> 45) s in
      case drop (length left) s of
        [] \<Rightarrow> None
      | _ # right \<Rightarrow>
          (case (id_of left, id_of right) of
             (Some (a, m), Some (b, n)) \<Rightarrow> Some (a, m, b, n)
           | _ \<Rightarrow> None))"

text \<open>\<open>int\<close> of a digit string, which Python refuses past 4300 digits.\<close>

definition INT_MAX_STR_DIGITS :: nat where
  "INT_MAX_STR_DIGITS = 4300"

definition digits_value :: "ustr \<Rightarrow> int" where
  "digits_value ds = foldl (\<lambda>n d. n * 10 + (d - 48)) 0 ds"

definition py_int :: "ustr \<Rightarrow> int result" where
  "py_int ds =
     (if length ds > INT_MAX_STR_DIGITS then Inl (ValueError ''integer string conversion'')
      else Inr (digits_value ds))"

text \<open>The formatted id of a letter and a number, and the ids of a range.\<close>

definition decimal :: "int \<Rightarrow> ustr" where
  "decimal n = u (show_int n)"

definition mk_id :: "int \<Rightarrow> int \<Rightarrow> ustr" where
  "mk_id c n = c # decimal n"

definition id_span :: "int \<Rightarrow> int \<Rightarrow> int \<Rightarrow> ustr list" where
  "id_span c lo hi = map (mk_id c) [lo..hi]"

text \<open>
  The sort key of an id. It is only taken of ids \<open>feed_candidates\<close> has read, so the number
  always converts; the empty text, which has no first character, is no such id.
\<close>

definition id_key :: "ustr \<Rightarrow> int \<times> int" where
  "id_key s = (case s of [] \<Rightarrow> (0, 0) | c # ds \<Rightarrow> (c, digits_value ds))"

section \<open>The feed\<close>

record funit =
  unit_id :: ustr
  unit_box_px :: json
  unit_box_1000 :: json
  unit_label :: "ustr option"
  unit_text :: ustr

record detection =
  det_id :: ustr
  det_box_px :: json
  det_box_1000 :: json
  det_label :: "ustr option"

record fwitness =
  wit_letter :: ustr
  wit_chair :: "ustr option"
  wit_outcome :: "ustr option"
  wit_units :: "funit list"

record surya =
  surya_lines :: "detection list"
  surya_blocks :: "detection list"

record feed =
  witness_units :: ustr
  page_w :: int
  page_h :: int
  witnesses :: "fwitness list"
  surya_of :: "surya option"

datatype item = UnitItem funit | SuryaItem detection

fun item_id :: "item \<Rightarrow> ustr" where
  "item_id (UnitItem x) = unit_id x"
| "item_id (SuryaItem d) = det_id d"

fun item_box_1000 :: "item \<Rightarrow> json" where
  "item_box_1000 (UnitItem x) = unit_box_1000 x"
| "item_box_1000 (SuryaItem d) = det_box_1000 d"

definition feed_units :: "feed \<Rightarrow> funit list" where
  "feed_units feed = concat (map wit_units (witnesses feed))"

definition feed_items :: "feed \<Rightarrow> item list" where
  "feed_items feed =
     map UnitItem (feed_units feed) @
     (case surya_of feed of
        None \<Rightarrow> []
      | Some s \<Rightarrow> map SuryaItem (surya_lines s @ surya_blocks s))"

section \<open>Placement\<close>

definition WITNESS_UNITS_FLAT :: ustr where
  "WITNESS_UNITS_FLAT = u ''flat''"

definition vouches_for :: "unicode \<Rightarrow> ustr \<Rightarrow> box \<Rightarrow> int \<Rightarrow> policy \<Rightarrow> bool" where
  "vouches_for uc txt b page_area p =
     (let characters = int (length (normalized_text uc False txt)) in
      characters > 0 \<and>
      box_area b * BASIS_POINTS \<le> max_unit_area_per_character_bp p * characters * page_area)"

text \<open>A \<open>box_px\<close> that may be \<open>None\<close>.\<close>

definition read_box_option :: "json \<Rightarrow> box option result" where
  "read_box_option v = (if v = JNull then Inr None else rbind (read_box v) (\<lambda>b. Inr (Some b)))"

type_synonym candidates = "(ustr \<times> box option) list"

definition place_unit :: "unicode \<Rightarrow> bool \<Rightarrow> int \<Rightarrow> policy \<Rightarrow> funit \<Rightarrow> (ustr \<times> box option) result" where
  "place_unit uc flat page_area p x =
     rbind (read_box_option (unit_box_px x)) (\<lambda>b.
       Inr (unit_id x,
         case b of
           None \<Rightarrow> None
         | Some b \<Rightarrow> if \<not> flat \<and> vouches_for uc (unit_text x) b page_area p then Some b else None))"

definition place_line :: "detection \<Rightarrow> (ustr \<times> box option) result" where
  "place_line d = rbind (read_box (det_box_px d)) (\<lambda>b. Inr (det_id d, Some b))"

definition place_block :: "detection \<Rightarrow> (ustr \<times> box option) result" where
  "place_block d = rbind (read_box (det_box_px d)) (\<lambda>_. Inr (det_id d, None))"

definition placement_boxes :: "unicode \<Rightarrow> feed \<Rightarrow> policy \<Rightarrow> candidates result" where
  "placement_boxes uc feed p =
     (let flat = (witness_units feed = WITNESS_UNITS_FLAT);
          page_area = page_w feed * page_h feed;
          store = fold (\<lambda>(i, b). AList.update i b) in
      rbind (rmap (place_unit uc flat page_area p) (feed_units feed)) (\<lambda>us.
        case surya_of feed of
          None \<Rightarrow> Inr (store us [])
        | Some s \<Rightarrow>
            rbind (rmap place_line (surya_lines s)) (\<lambda>ls.
              rbind (rmap place_block (surya_blocks s)) (\<lambda>bs.
                Inr (store bs (store ls (store us [])))))))"

section \<open>The candidates\<close>

fun check_feed_ids :: "ustr list \<Rightarrow> ustr list \<Rightarrow> unit result" where
  "check_feed_ids seen [] = Inr ()"
| "check_feed_ids seen (i # ids) =
     (if id_of i = None then Inl (ContractError ''not a letter and a number'')
      else if i \<in> set seen then Inl (ContractError ''appears twice'')
      else check_feed_ids (i # seen) ids)"

text \<open>\<open>numbers.setdefault(letter, []).append(number)\<close> for every id.\<close>

fun group_numbers :: "ustr list \<Rightarrow> (int \<times> int list) list \<Rightarrow> (int \<times> int list) list result" where
  "group_numbers [] acc = Inr acc"
| "group_numbers (i # ids) acc =
     rbind (py_int (tl i)) (\<lambda>n. group_numbers ids
       (AList.update (hd i) ((case map_of acc (hd i) of None \<Rightarrow> [] | Some ns \<Rightarrow> ns) @ [n]) acc))"

definition gapless :: "int list \<Rightarrow> bool" where
  "gapless found \<longleftrightarrow> sort found = [1..int (length found)]"

definition feed_candidates :: "unicode \<Rightarrow> feed \<Rightarrow> policy \<Rightarrow> candidates result" where
  "feed_candidates uc feed p =
     rbind (check_feed_ids [] (map item_id (feed_items feed))) (\<lambda>_.
     rbind (placement_boxes uc feed p) (\<lambda>cands.
     rbind (group_numbers (map fst cands) []) (\<lambda>numbers.
     rbind (ensure (list_all (gapless \<circ> snd) numbers)
       (ContractError ''not numbered 1..n without a gap'')) (\<lambda>_.
     Inr cands))))"

section \<open>Ids are letters and numbers\<close>

lemma decimal_small: "0 \<le> n \<Longrightarrow> n < 10 \<Longrightarrow> decimal n = [48 + n]"
proof -
  assume a: "0 \<le> n" "n < 10"
  then have "nat n < 256" by simp
  moreover have "of_char (char_of (48 + nat n) :: char) = (48 + n :: int)"
  proof -
    have "of_char (char_of (48 + nat n) :: char) = (int (of_char (char_of (48 + nat n) :: char)))"
      by (rule of_nat_of_char [symmetric])
    also have "\<dots> = int ((48 + nat n) mod 256)" by (simp only: of_char_of)
    also have "\<dots> = 48 + n" using a by (simp add: nat_mod_as_int)
    finally show ?thesis .
  qed
  ultimately show ?thesis using a by (simp add: decimal_def show_int_def u_def show_nat.simps)
qed

lemma decimal_large: "10 \<le> n \<Longrightarrow> decimal n = decimal (n div 10) @ decimal (n mod 10)"
proof -
  assume a: "10 \<le> n"
  have d: "nat n div 10 = nat (n div 10)" "nat n mod 10 = nat (n mod 10)"
    using a by (simp_all add: nat_div_distrib nat_mod_distrib)
  have "\<not> nat n < 10" using a by simp
  then have "decimal n = u (show_nat (nat n div 10)) @ u [char_of (48 + nat n mod 10)]"
    using a by (simp add: decimal_def show_int_def u_def show_nat.simps [of "nat n"])
  also have "u [char_of (48 + nat n mod 10)] = decimal (n mod 10)"
  proof -
    have "\<not> n mod 10 < 0" using pos_mod_sign [of 10 n] by linarith
    moreover have "nat (n mod 10) < 10" using pos_mod_bound [of 10 n] by linarith
    ultimately show ?thesis
      by (simp only: d decimal_def show_int_def show_nat.simps [of "nat (n mod 10)"] if_True if_False)
  qed
  finally show ?thesis using a by (simp add: d decimal_def show_int_def)
qed

lemma digits_value_append:
  "digits_value (ds @ [d]) = digits_value ds * 10 + (d - 48)"
  by (simp add: digits_value_def)

lemma decimal_induct [consumes 1, case_names small large]:
  assumes "0 \<le> (n::int)" "\<And>n. 0 \<le> n \<Longrightarrow> n < 10 \<Longrightarrow> P n"
    "\<And>n. 10 \<le> n \<Longrightarrow> P (n div 10) \<Longrightarrow> P n"
  shows "P n"
  using assms(1)
proof (induction "nat n" arbitrary: n rule: less_induct)
  case less
  show ?case
  proof (cases "n < 10")
    case False
    then have "nat (n div 10) < nat n" by auto
    from less.hyps [OF this] False have "P (n div 10)" by simp
    with False assms(3) show ?thesis by simp
  qed (simp add: assms(2) less.prems)
qed

lemma decimal_digits: "0 \<le> n \<Longrightarrow> list_all digit (decimal n)"
proof (induction n rule: decimal_induct)
  case (small n) then show ?case by (simp add: decimal_small digit_def)
next
  case (large n)
  then show ?case by (simp add: decimal_large decimal_small [of "n mod 10"] digit_def)
qed

lemma digits_value_decimal [simp]: "0 \<le> n \<Longrightarrow> digits_value (decimal n) = n"
proof (induction n rule: decimal_induct)
  case (small n) then show ?case by (simp add: decimal_small digits_value_def)
next
  case (large n)
  then show ?case by (simp add: decimal_large decimal_small [of "n mod 10"] digits_value_append)
qed

lemma decimal_length:
  assumes "0 < d"
  shows "0 \<le> n \<Longrightarrow> n < 10 ^ d \<Longrightarrow> length (decimal n) \<le> d"
  using assms
proof (induction d arbitrary: n rule: nat_induct_non_zero)
  case 1
  then show ?case by (simp add: decimal_small)
next
  case (Suc d)
  show ?case
  proof (cases "n < 10")
    case True
    with Suc.prems show ?thesis by (simp add: decimal_small)
  next
    case False
    have "n div 10 < 10 ^ d" using Suc.prems(2) by (simp add: div_less_iff_less_mult mult.commute)
    then have "length (decimal (n div 10)) \<le> d" using Suc.IH [of "n div 10"] Suc.prems(1) by simp
    with False show ?thesis by (simp add: decimal_large decimal_small)
  qed
qed

lemma decimal_head: "1 \<le> n \<Longrightarrow> \<exists>d ds. decimal n = d # ds \<and> digit d \<and> d \<noteq> 48"
proof -
  assume "1 \<le> n"
  then have "0 \<le> n" "n \<noteq> 0" by simp_all
  then show ?thesis
  proof (induction n rule: decimal_induct)
    case (small n) then show ?case by (simp add: decimal_small digit_def)
  next
    case (large n)
    then have "n div 10 \<noteq> 0" by simp
    with large obtain d ds where "decimal (n div 10) = d # ds" "digit d" "d \<noteq> 48" by blast
    with large show ?case by (simp add: decimal_large)
  qed
qed

lemma decimal_digits_value:
  assumes "digit d" "d \<noteq> 48" "list_all digit ds"
  shows "decimal (digits_value (d # ds)) = d # ds \<and> 1 \<le> digits_value (d # ds)"
  using assms(3)
proof (induction ds rule: rev_induct)
  case Nil
  then show ?case using assms(1,2) by (auto simp: digits_value_def digit_def decimal_small)
next
  case (snoc x xs)
  let ?v = "digits_value (d # xs)" and ?n = "digits_value (d # xs) * 10 + (x - 48)"
  from snoc have v: "decimal ?v = d # xs" "1 \<le> ?v" and x: "0 \<le> x - 48" "x - 48 < 10"
    by (auto simp: digit_def)
  have n: "10 \<le> ?n" using v x by simp
  have "?n div 10 = ?v" "?n mod 10 = x - 48" using x by auto
  with n v x have "decimal ?n = d # xs @ [x]" by (simp add: decimal_large decimal_small)
  then show ?case using n digits_value_append [of "d # xs" x] by simp
qed

lemma id_of_mk_id:
  "upper c \<Longrightarrow> 1 \<le> n \<Longrightarrow> id_of (mk_id c n) = Some (c, decimal n)"
  using decimal_head [of n] decimal_digits [of n] by (auto simp: id_of_def mk_id_def)

lemma id_of_SomeD:
  assumes "id_of s = Some (c, ds)"
  shows "s = mk_id c (digits_value ds)" "upper c" "1 \<le> digits_value ds" "s = c # ds"
proof -
  from assms obtain d es where s: "s = c # d # es" "ds = d # es" "upper c" "digit d" "d \<noteq> 48" "list_all digit es"
    by (auto simp: id_of_def split: list.splits if_splits)
  with decimal_digits_value [of d es]
  show "s = mk_id c (digits_value ds)" "upper c" "1 \<le> digits_value ds" "s = c # ds"
    by (simp_all add: mk_id_def)
qed

lemma mk_id_inject: "0 \<le> m \<Longrightarrow> 0 \<le> n \<Longrightarrow> mk_id c m = mk_id d n \<longleftrightarrow> c = d \<and> m = n"
  by (metis digits_value_decimal list.inject mk_id_def)

lemma id_key_mk_id: "0 \<le> n \<Longrightarrow> id_key (mk_id c n) = (c, n)"
  by (simp add: id_key_def mk_id_def)

section \<open>What the candidates are\<close>

lemma store_keys:
  "set (map fst (fold (\<lambda>(i, b). AList.update i b) xs al)) = set (map fst xs) \<union> set (map fst al)"
proof (induction xs arbitrary: al)
  case (Cons x xs)
  obtain i b where "x = (i, b)" by force
  have "set (map fst (AList.update i b al)) = insert i (set (map fst al))"
    using dom_update [of i b al] by simp
  with Cons [of "AList.update i b al"] \<open>x = (i, b)\<close> show ?case by simp
qed simp

lemma store_distinct:
  "distinct (map fst al) \<Longrightarrow> distinct (map fst (fold (\<lambda>(i, b). AList.update i b) xs al))"
  by (induction xs arbitrary: al) (auto simp: distinct_update)

lemma rmap_keys:
  "rmap f xs = Inr ys \<Longrightarrow> (\<And>x y. f x = Inr y \<Longrightarrow> fst y = k x) \<Longrightarrow> map fst ys = map k xs"
  by (induction xs arbitrary: ys) (auto simp: result_simps)

lemma placed_keys:
  "place_unit uc flat a p x = Inr y \<Longrightarrow> fst y = unit_id x"
  "place_line d = Inr y \<Longrightarrow> fst y = det_id d"
  "place_block d = Inr y \<Longrightarrow> fst y = det_id d"
  by (auto simp: place_unit_def place_line_def place_block_def result_simps)

lemma placement_keys:
  assumes "placement_boxes uc feed p = Inr cands"
  shows "set (map fst cands) = item_id ` set (feed_items feed)" "distinct (map fst cands)"
proof -
  let ?unit = "place_unit uc (witness_units feed = WITNESS_UNITS_FLAT) (page_w feed * page_h feed) p"
  let ?st = "\<lambda>xs al. fold (\<lambda>(i, b). AList.update i b) xs al"
  from assms obtain us where us: "rmap ?unit (feed_units feed) = Inr us"
    by (auto simp: placement_boxes_def Let_def result_simps)
  have kus: "map fst us = map unit_id (feed_units feed)"
    using rmap_keys [OF us] placed_keys(1) by blast
  show "set (map fst cands) = item_id ` set (feed_items feed)"
  proof (cases "surya_of feed")
    case None
    with assms us have "cands = ?st us []" by (simp add: placement_boxes_def Let_def)
    with kus None show ?thesis by (simp only: store_keys) (simp add: feed_items_def image_image)
  next
    case (Some s)
    with assms us obtain ls bs where ls: "rmap place_line (surya_lines s) = Inr ls"
      and bs: "rmap place_block (surya_blocks s) = Inr bs" and c: "cands = ?st bs (?st ls (?st us []))"
      by (auto simp: placement_boxes_def Let_def result_simps)
    have "map fst ls = map det_id (surya_lines s)" using rmap_keys [OF ls] placed_keys(2) by blast
    moreover have "map fst bs = map det_id (surya_blocks s)"
      using rmap_keys [OF bs] placed_keys(3) by blast
    ultimately show ?thesis using kus Some unfolding c
      by (simp only: store_keys) (auto simp: feed_items_def image_image image_Un)
  qed
  show "distinct (map fst cands)"
    using assms us by (auto simp: placement_boxes_def Let_def result_simps store_distinct
        split: option.splits)
qed

lemma check_feed_ids_ok:
  "check_feed_ids seen ids = Inr () \<Longrightarrow> (\<forall>i \<in> set ids. id_of i \<noteq> None) \<and> distinct ids"
proof -
  have "check_feed_ids seen ids = Inr () \<Longrightarrow>
      (\<forall>i \<in> set ids. id_of i \<noteq> None) \<and> distinct ids \<and> set seen \<inter> set ids = {}" for seen
  proof (induction ids arbitrary: seen)
    case (Cons i ids)
    from Cons.prems have "id_of i \<noteq> None" "i \<notin> set seen" "check_feed_ids (i # seen) ids = Inr ()"
      by (auto split: if_splits)
    with Cons.IH [of "i # seen"] show ?case by auto
  qed simp
  then show "check_feed_ids seen ids = Inr () \<Longrightarrow> ?thesis" by blast
qed

definition numbers_in :: "(int \<times> int list) list \<Rightarrow> int \<Rightarrow> int list" where
  "numbers_in groups c = (case map_of groups c of None \<Rightarrow> [] | Some ns \<Rightarrow> ns)"

lemma group_numbers_in:
  "group_numbers ids acc = Inr groups \<Longrightarrow>
     numbers_in groups c = numbers_in acc c @ map (digits_value \<circ> tl) (filter (\<lambda>i. hd i = c) ids)"
proof (induction ids arbitrary: acc)
  case (Cons i ids)
  from Cons.prems obtain n where n: "py_int (tl i) = Inr n" and
    g: "group_numbers ids (AList.update (hd i) (numbers_in acc (hd i) @ [n]) acc) = Inr groups"
    by (auto simp: result_simps numbers_in_def)
  from n have "n = digits_value (tl i)" by (auto simp: py_int_def split: if_splits)
  with Cons.IH [OF g] show ?case by (simp add: numbers_in_def update_conv')
qed simp

lemma gapless_set: "gapless ns \<Longrightarrow> set ns = {1..int (length ns)}"
  unfolding gapless_def by (metis set_sort set_upto)

lemma feed_candidates_keys:
  assumes "feed_candidates uc feed p = Inr cands"
  shows "distinct (map fst cands)" "i \<in> set (map fst cands) \<Longrightarrow> id_of i \<noteq> None"
    "set (map fst cands) = item_id ` set (feed_items feed)"
proof -
  from assms have "check_feed_ids [] (map item_id (feed_items feed)) = Inr ()"
    and pl: "placement_boxes uc feed p = Inr cands"
    by (auto simp: feed_candidates_def result_simps)
  from check_feed_ids_ok [OF this(1)] placement_keys [OF pl]
  show "distinct (map fst cands)" "i \<in> set (map fst cands) \<Longrightarrow> id_of i \<noteq> None"
    "set (map fst cands) = item_id ` set (feed_items feed)"
    by auto
qed

lemma feed_candidates_gapless:
  assumes "feed_candidates uc feed p = Inr cands"
  obtains k where "\<And>n. 1 \<le> n \<Longrightarrow> mk_id c n \<in> set (map fst cands) \<longleftrightarrow> n \<le> k"
proof -
  let ?ids = "map fst cands"
  from assms obtain groups where g: "group_numbers ?ids [] = Inr groups"
    and ok: "list_all (gapless \<circ> snd) groups"
    by (auto simp: feed_candidates_def result_simps)
  have ns: "numbers_in groups c = map (digits_value \<circ> tl) (filter (\<lambda>i. hd i = c) ?ids)"
    using group_numbers_in [OF g] by (simp add: numbers_in_def)
  have "gapless (numbers_in groups c)"
  proof (cases "map_of groups c")
    case None then show ?thesis by (simp add: numbers_in_def gapless_def)
  next
    case (Some l)
    from map_of_SomeD [OF this] ok have "gapless l" by (auto simp: list_all_iff)
    with Some show ?thesis by (simp add: numbers_in_def)
  qed
  from gapless_set [OF this] have eq: "set (numbers_in groups c) = {1..int (length (numbers_in groups c))}" .
  have "mk_id c n \<in> set ?ids \<longleftrightarrow> n \<in> set (numbers_in groups c)" if n: "1 \<le> n" for n
  proof
    assume "mk_id c n \<in> set ?ids"
    then have "digits_value (tl (mk_id c n)) \<in> set (numbers_in groups c)"
      unfolding ns by (force simp: mk_id_def)
    then show "n \<in> set (numbers_in groups c)" using n by (simp add: mk_id_def)
  next
    assume "n \<in> set (numbers_in groups c)"
    then obtain i where i: "i \<in> set ?ids" "hd i = c" "n = digits_value (tl i)"
      unfolding ns by auto
    with feed_candidates_keys(2) [OF assms i(1)] obtain a ds where "id_of i = Some (a, ds)" by auto
    from id_of_SomeD [OF this] i show "mk_id c n \<in> set ?ids" by (auto simp: mk_id_def)
  qed
  then show ?thesis using that [of "int (length (numbers_in groups c))"] eq by auto
qed

text \<open>Both ends of a range known, every id between is known.\<close>

lemma span_known:
  assumes "feed_candidates uc feed p = Inr cands" "1 \<le> lo" "lo \<le> hi"
    "mk_id c hi \<in> set (map fst cands)"
  shows "set (id_span c lo hi) \<subseteq> set (map fst cands)"
proof -
  obtain k where k: "\<And>n. 1 \<le> n \<Longrightarrow> mk_id c n \<in> set (map fst cands) \<longleftrightarrow> n \<le> k"
    using feed_candidates_gapless [OF assms(1)] by blast
  from k [of hi] assms have "hi \<le> k" by simp
  then show ?thesis using k assms(2) by (auto simp: id_span_def)
qed

text \<open>What an id places an entry by: a line's box, or the box of a unit that vouches for it.\<close>

definition placed_by :: "unicode \<Rightarrow> feed \<Rightarrow> policy \<Rightarrow> ustr \<Rightarrow> box \<Rightarrow> bool" where
  "placed_by uc feed p i b \<longleftrightarrow>
     (\<exists>s. surya_of feed = Some s \<and>
       list_ex (\<lambda>d. det_id d = i \<and> read_box (det_box_px d) = Inr b) (surya_lines s)) \<or>
     witness_units feed \<noteq> WITNESS_UNITS_FLAT \<and>
     list_ex (\<lambda>x. unit_id x = i \<and> read_box (unit_box_px x) = Inr b \<and>
       vouches_for uc (unit_text x) b (page_w feed * page_h feed) p) (feed_units feed)"

lemma store_sub:
  "set (fold (\<lambda>(i, b). AList.update i b) xs al) \<subseteq> set xs \<union> set al"
proof (induction xs arbitrary: al)
  case (Cons x xs)
  have "set (AList.update i b al) \<subseteq> insert (i, b) (set al)" for i b
    by (induction al) auto
  with Cons show ?case by (fastforce split: prod.splits)
qed simp

lemma rmap_mem: "rmap f xs = Inr zs \<Longrightarrow> z \<in> set zs \<Longrightarrow> \<exists>x \<in> set xs. f x = Inr z"
  by (induction xs arbitrary: zs) (auto simp: result_simps)

lemma place_unit_SomeD:
  "place_unit uc flat a p x = Inr (i, Some b) \<Longrightarrow>
     unit_id x = i \<and> \<not> flat \<and> read_box (unit_box_px x) = Inr b \<and> vouches_for uc (unit_text x) b a p"
  by (auto simp: place_unit_def read_box_option_def result_simps split: option.splits if_splits)

lemma placement_placed:
  assumes "placement_boxes uc feed p = Inr cands" "(i, Some b) \<in> set cands"
  shows "placed_by uc feed p i b"
proof -
  let ?unit = "place_unit uc (witness_units feed = WITNESS_UNITS_FLAT) (page_w feed * page_h feed) p"
  let ?st = "\<lambda>xs al. fold (\<lambda>(i, b). AList.update i b) xs al"
  from assms obtain us where us: "rmap ?unit (feed_units feed) = Inr us"
    by (auto simp: placement_boxes_def Let_def result_simps)
  have from_unit: "placed_by uc feed p i b" if "(i, Some b) \<in> set us"
    using rmap_mem [OF us that] by (auto simp: placed_by_def list_ex_iff dest!: place_unit_SomeD)
  show ?thesis
  proof (cases "surya_of feed")
    case None
    with assms us have "cands = ?st us []" by (simp add: placement_boxes_def Let_def)
    then have "(i, Some b) \<in> set us" using assms(2) store_sub [of us "[]"] by auto
    then show ?thesis by (rule from_unit)
  next
    case (Some s)
    with assms us obtain ls bs where ls: "rmap place_line (surya_lines s) = Inr ls"
      and bs: "rmap place_block (surya_blocks s) = Inr bs" and c: "cands = ?st bs (?st ls (?st us []))"
      by (auto simp: placement_boxes_def Let_def result_simps)
    from assms(2) c have "(i, Some b) \<in> set bs \<union> set ls \<union> set us"
      using store_sub [of bs "?st ls (?st us [])"] store_sub [of ls "?st us []"]
        store_sub [of us "[]"] by auto
    moreover have "(i, Some b) \<notin> set bs"
      using rmap_mem [OF bs] by (auto simp: place_block_def result_simps)
    moreover have "placed_by uc feed p i b" if "(i, Some b) \<in> set ls"
      using rmap_mem [OF ls that] Some
      by (auto simp: placed_by_def list_ex_iff place_line_def result_simps)
    ultimately show ?thesis using from_unit by blast
  qed
qed

section \<open>The properties\<close>

text \<open>
  C6. Ids are read as they are written: a text is an id exactly when it is a capital and
  the decimal numeral of a positive number, and the digits read are that numeral, whose
  value is the number.
\<close>

theorem id_round_trip:
  "(id_of s = Some (c, ds) \<longleftrightarrow> upper c \<and> (\<exists>n. 1 \<le> n \<and> s = mk_id c n \<and> ds = decimal n)) \<and>
   digits_value (decimal (int k)) = int k"
proof
  show "id_of s = Some (c, ds) \<longleftrightarrow> upper c \<and> (\<exists>n. 1 \<le> n \<and> s = mk_id c n \<and> ds = decimal n)"
    using id_of_SomeD [of s c ds] id_of_mk_id [of c] by (auto simp: mk_id_def)
qed simp

text \<open>
  C7. The candidates of a feed that is not refused are the ids of its items, each once and
  numbered from 1 without a gap within each letter, and an id places an entry only by the
  checked box of a Surya line or of a unit whose text vouches for its box (never a Surya
  block, and no unit of a witness shown flat).
\<close>

theorem feed_candidates_sound:
  assumes "feed_candidates uc feed p = Inr cands"
  shows "distinct (map fst cands) \<and> set (map fst cands) = item_id ` set (feed_items feed) \<and>
    (\<exists>k. \<forall>n \<ge> 1. mk_id c n \<in> set (map fst cands) \<longleftrightarrow> n \<le> k) \<and>
    (\<forall>b. map_of cands i = Some (Some b) \<longrightarrow> placed_by uc feed p i b)"
proof (intro conjI allI impI)
  fix b assume "map_of cands i = Some (Some b)"
  then have "(i, Some b) \<in> set cands" by (rule map_of_SomeD)
  moreover from assms have "placement_boxes uc feed p = Inr cands"
    by (auto simp: feed_candidates_def result_simps)
  ultimately show "placed_by uc feed p i b" by (rule placement_placed [rotated])
next
  obtain k where "\<And>n. 1 \<le> n \<Longrightarrow> mk_id c n \<in> set (map fst cands) \<longleftrightarrow> n \<le> k"
    using feed_candidates_gapless [OF assms] by blast
  then show "\<exists>k. \<forall>n \<ge> 1. mk_id c n \<in> set (map fst cands) \<longleftrightarrow> n \<le> k" by blast
qed (simp_all only: feed_candidates_keys [OF assms])

definition box_json :: "int \<Rightarrow> int \<Rightarrow> int \<Rightarrow> int \<Rightarrow> json" where
  "box_json x y w h = JObj [(u ''x'', JInt x), (u ''y'', JInt y), (u ''w'', JInt w), (u ''h'', JInt h)]"

definition sample_policy :: policy where
  "sample_policy = policy_of_values
     [(''min_area_bp'', 8000), (''max_unread_characters'', 12), (''max_set_aside_characters'', 20),
      (''max_unread_share_bp'', 3000), (''min_block_characters'', 3), (''anchor_characters'', 8),
      (''anchor_neighbours'', 2), (''anchor_offset_tolerance'', 20), (''band_slack'', 8),
      (''direct_alignment_max_pairs'', 250000), (''max_alignment_pairs'', 4000000),
      (''max_characters'', 20000), (''max_alignment_steps'', 50000000), (''piece_characters'', 6),
      (''piece_edits'', 1), (''window_slack'', 4), (''min_pieces'', 3),
      (''min_distinctive_share_bp'', 5000), (''max_short_unit_distance_bp'', 4000),
      (''max_shared_share_bp'', 5000), (''max_unit_area_per_character_bp'', 200),
      (''max_act_doubt_share_bp'', 5000), (''max_page_doubt_share_bp'', 5000)]
     (u ''sealed'') [UNREAD_INK] 12"

definition sample_feed :: feed where
  "sample_feed =
     \<lparr>witness_units = u ''boxed'', page_w = 100, page_h = 100,
      witnesses =
        [\<lparr>wit_letter = u ''A'', wit_chair = None, wit_outcome = Some (u ''read''),
          wit_units =
            [\<lparr>unit_id = u ''A1'', unit_box_px = box_json 0 0 100 20, unit_box_1000 = JNull,
              unit_label = None, unit_text = u ''Baptized on the 4th of May''\<rparr>,
             \<lparr>unit_id = u ''A2'', unit_box_px = box_json 0 20 100 20, unit_box_1000 = JNull,
              unit_label = None, unit_text = u ''of Jean and of Marie Roy''\<rparr>]\<rparr>],
      surya_of = Some
        \<lparr>surya_lines =
           [\<lparr>det_id = u ''L1'', det_box_px = box_json 0 2 100 10, det_box_1000 = JNull, det_label = None\<rparr>,
            \<lparr>det_id = u ''L2'', det_box_px = box_json 0 22 100 10, det_box_1000 = JNull, det_label = None\<rparr>],
         surya_blocks =
           [\<lparr>det_id = u ''S1'', det_box_px = box_json 0 0 100 100, det_box_1000 = JNull,
             det_label = Some (u ''Text'')\<rparr>]\<rparr>\<rparr>"

definition sample_candidates :: candidates where
  "sample_candidates =
     [(u ''A1'', Some (mk_box 0 0 100 20)), (u ''A2'', Some (mk_box 0 20 100 20)),
      (u ''L1'', Some (mk_box 0 2 100 10)), (u ''L2'', Some (mk_box 0 22 100 10)), (u ''S1'', None)]"

lemma sample_feed_candidates:
  "feed_candidates ascii sample_feed sample_policy = Inr sample_candidates"
proof -
  have "(case feed_candidates ascii sample_feed sample_policy of
      Inr c \<Rightarrow> c = sample_candidates | Inl _ \<Rightarrow> False)" by code_simp
  then show ?thesis by (simp split: sum.splits)
qed

theorem feed_candidates_sound_witness:
  "distinct (map fst sample_candidates) \<and>
   (\<exists>k. \<forall>n \<ge> 1. mk_id 65 n \<in> set (map fst sample_candidates) \<longleftrightarrow> n \<le> k) \<and>
   placed_by ascii sample_feed sample_policy (u ''L1'') (mk_box 0 2 100 10)"
proof -
  have l: "map_of sample_candidates (u ''L1'') = Some (Some (mk_box 0 2 100 10))"
    by (simp add: sample_candidates_def)
  from feed_candidates_sound [OF sample_feed_candidates, of 65 "u ''L1''"] l show ?thesis by blast
qed

end
