(* ===== verification/Json.thy ===== *)
theory Json
  imports Feed
begin

text \<open>
  The reading of a bare JSON reply, \<open>decode_json_reply\<close> and \<open>_decode\<close> of
  \<open>common/page_answer.py\<close>: the fence test, the nesting depth, Python's \<open>JSONDecoder\<close> with
  the duplicate-key hook and no constants, and the refusal of lone surrogates. The decoder
  is the standard library's: an object's pairs, an array's values, strict strings with
  their escapes and surrogate pairs, and numbers, whose digits \<open>int\<close> may refuse. Fuel
  bounds the mutual recursion; \<open>raw_decode\<close> gives enough for every text.
\<close>

definition JSON_WHITESPACE :: "int list" where
  "JSON_WHITESPACE = [32, 9, 10, 13]"

definition skip_ws :: "ustr \<Rightarrow> ustr" where
  "skip_ws = dropWhile (\<lambda>c. c \<in> set JSON_WHITESPACE)"

definition strip_ws :: "ustr \<Rightarrow> ustr" where
  "strip_ws s = rev (skip_ws (rev (skip_ws s)))"

section \<open>Nesting\<close>

definition MAX_NESTING_DEPTH :: int where
  "MAX_NESTING_DEPTH = 64"

fun nesting :: "ustr \<Rightarrow> bool \<Rightarrow> bool \<Rightarrow> int \<Rightarrow> int \<Rightarrow> int" where
  "nesting [] in_string escaped depth deepest = deepest"
| "nesting (c # cs) in_string escaped depth deepest =
     (if in_string then
        (if escaped then nesting cs True False depth deepest
         else if c = 92 then nesting cs True True depth deepest
         else if c = 34 then nesting cs False False depth deepest
         else nesting cs True False depth deepest)
      else if c = 34 then nesting cs True False depth deepest
      else if c = 91 \<or> c = 123 then nesting cs False False (depth + 1) (max deepest (depth + 1))
      else if c = 93 \<or> c = 125 then nesting cs False False (depth - 1) deepest
      else nesting cs False False depth deepest)"

definition nesting_depth :: "ustr \<Rightarrow> int" where
  "nesting_depth text = nesting text False False 0 0"

section \<open>The decoder\<close>

datatype decode_error = NotJson | DuplicateKey "ustr list" | OutOfFuel

type_synonym 'a scan = "decode_error + ('a \<times> ustr)"

definition hex_value :: "int \<Rightarrow> int" where
  "hex_value c = (if digit c then c - 48 else if c < 97 then c - 55 else c - 87)"

definition hex4 :: "ustr \<Rightarrow> int option" where
  "hex4 s = (if length (take 4 s) = 4 \<and> list_all hex (take 4 s)
             then Some (foldl (\<lambda>n c. n * 16 + hex_value c) 0 (take 4 s)) else None)"

definition escape :: "int \<Rightarrow> int option" where
  "escape c = map_of [(34, 34), (92, 92), (47, 47), (98, 8), (102, 12), (110, 10), (114, 13), (116, 9)] c"

definition push :: "'a \<Rightarrow> 'a list scan \<Rightarrow> 'a list scan" where
  "push c r = rbind r (\<lambda>(s, rest). Inr (c # s, rest))"

text \<open>
  One step in a string after its opening quote: the character it gives, or its end. A high
  surrogate joins the low one of the escape after it.
\<close>

definition join_surrogates :: "int \<Rightarrow> int \<Rightarrow> int" where
  "join_surrogates h l = 65536 + (h - 55296) * 1024 + (l - 56320)"

definition unicode_escape :: "ustr \<Rightarrow> (int option) scan" where
  "unicode_escape es =
     (case hex4 es of
        None \<Rightarrow> Inl NotJson
      | Some h \<Rightarrow>
          let rest = drop 4 es in
          if 55296 \<le> h \<and> h \<le> 56319 \<and> take 2 rest = [92, 117] then
            (case hex4 (drop 2 rest) of
               None \<Rightarrow> Inl NotJson
             | Some l \<Rightarrow>
                 if 56320 \<le> l \<and> l \<le> 57343 then Inr (Some (join_surrogates h l), drop 6 rest)
                 else Inr (Some h, rest))
          else Inr (Some h, rest))"

definition string_char :: "int \<Rightarrow> ustr \<Rightarrow> (int option) scan" where
  "string_char c cs =
     (if c = 34 then Inr (None, cs)
      else if c < 32 then Inl NotJson
      else if c \<noteq> 92 then Inr (Some c, cs)
      else case cs of
        [] \<Rightarrow> Inl NotJson
      | e # es \<Rightarrow>
          if e = 117 then unicode_escape es
          else (case escape e of None \<Rightarrow> Inl NotJson | Some x \<Rightarrow> Inr (Some x, es)))"

lemma unicode_escape_shorter: "unicode_escape es = Inr (x, rest) \<Longrightarrow> length rest \<le> length es"
  by (auto simp: unicode_escape_def Let_def split: option.splits if_splits)

lemma string_char_shorter: "string_char c cs = Inr (x, rest) \<Longrightarrow> length rest \<le> length cs"
  by (auto simp: string_char_def dest!: unicode_escape_shorter
      split: if_splits list.splits option.splits)

text \<open>The rest of a string after its opening quote.\<close>

function scan_string :: "ustr \<Rightarrow> ustr scan" where
  "scan_string [] = Inl NotJson"
| "scan_string (c # cs) =
     (case string_char c cs of
        Inl e \<Rightarrow> Inl e
      | Inr (None, rest) \<Rightarrow> Inr ([], rest)
      | Inr (Some x, rest) \<Rightarrow> push x (scan_string rest))"
  by pat_completeness auto
termination by (relation "measure length") (auto dest: string_char_shorter)

text \<open>A number: its sign and digits, and the lengths of its fraction and exponent.\<close>

definition whole_part :: "ustr \<Rightarrow> ustr" where
  "whole_part body =
     (case body of
        [] \<Rightarrow> []
      | d # ds \<Rightarrow> if d = 48 then [48] else if digit d then d # takeWhile digit ds else [])"

definition frac_len :: "ustr \<Rightarrow> nat" where
  "frac_len rest =
     (case rest of
        [] \<Rightarrow> 0
      | p # ds \<Rightarrow> if p = 46 \<and> takeWhile digit ds \<noteq> [] then 1 + length (takeWhile digit ds) else 0)"

definition expo_len :: "ustr \<Rightarrow> nat" where
  "expo_len after =
     (case after of
        [] \<Rightarrow> 0
      | e # ds \<Rightarrow>
          let sign = (if take 1 ds = [43] \<or> take 1 ds = [45] then 1 else 0);
              es = takeWhile digit (drop sign ds)
          in if (e = 101 \<or> e = 69) \<and> es \<noteq> [] then 1 + sign + length es else 0)"

definition number_parts :: "ustr \<Rightarrow> (bool \<times> ustr \<times> nat \<times> ustr) option" where
  "number_parts s =
     (let neg = (take 1 s = [45]);
          body = (if neg then drop 1 s else s);
          whole = whole_part body;
          rest = drop (length whole) body;
          after = drop (frac_len rest) rest
      in if whole = [] then None
         else Some (neg, whole, frac_len rest + expo_len after, drop (expo_len after) after))"

definition scan_number :: "ustr \<Rightarrow> json scan" where
  "scan_number s =
     (case number_parts s of
        None \<Rightarrow> Inl NotJson
      | Some (neg, whole, float_part, rest) \<Rightarrow>
          if float_part \<noteq> 0 then Inr (JFloat, rest)
          else (case py_int whole of
                  Inl _ \<Rightarrow> Inl NotJson
                | Inr n \<Rightarrow> Inr (JInt (if neg then - n else n), rest)))"

text \<open>\<open>_refuse_duplicates\<close>, the object hook.\<close>

definition object_of :: "(ustr \<times> json) list \<Rightarrow> decode_error + json" where
  "object_of pairs =
     (let ks = map fst pairs; duplicated = sorted_set (filter (\<lambda>k. count_list ks k > 1) ks)
      in if duplicated \<noteq> [] then Inl (DuplicateKey duplicated) else Inr (JObj pairs))"

fun scan_value :: "nat \<Rightarrow> ustr \<Rightarrow> json scan"
  and scan_elements :: "nat \<Rightarrow> ustr \<Rightarrow> json list scan"
  and scan_members :: "nat \<Rightarrow> ustr \<Rightarrow> (ustr \<times> json) list scan" where
  "scan_value 0 s = Inl OutOfFuel"
| "scan_value (Suc n) s =
     (case s of
        [] \<Rightarrow> Inl NotJson
      | c # cs \<Rightarrow>
          if c = 34 then rbind (scan_string cs) (\<lambda>(t, rest). Inr (JStr t, rest))
          else if c = 123 then
            (let body = skip_ws cs in
             if take 1 body = [125] then Inr (JObj [], drop 1 body)
             else rbind (scan_members n body) (\<lambda>(pairs, rest).
               rbind (object_of pairs) (\<lambda>v. Inr (v, rest))))
          else if c = 91 then
            (let body = skip_ws cs in
             if take 1 body = [93] then Inr (JList [], drop 1 body)
             else rbind (scan_elements n body) (\<lambda>(vs, rest). Inr (JList vs, rest)))
          else if take 4 s = u ''null'' then Inr (JNull, drop 4 s)
          else if take 4 s = u ''true'' then Inr (JBool True, drop 4 s)
          else if take 5 s = u ''false'' then Inr (JBool False, drop 5 s)
          else scan_number s)"
| "scan_elements 0 s = Inl OutOfFuel"
| "scan_elements (Suc n) s =
     rbind (scan_value n s) (\<lambda>(v, rest).
       case skip_ws rest of
         [] \<Rightarrow> Inl NotJson
       | d # ds \<Rightarrow>
           if d = 93 then Inr ([v], ds)
           else if d = 44 then push v (scan_elements n (skip_ws ds))
           else Inl NotJson)"
| "scan_members 0 s = Inl OutOfFuel"
| "scan_members (Suc n) s =
     (case s of
        [] \<Rightarrow> Inl NotJson
      | q # qs \<Rightarrow>
          if q \<noteq> 34 then Inl NotJson
          else rbind (scan_string qs) (\<lambda>(key, rest).
            case skip_ws rest of
              [] \<Rightarrow> Inl NotJson
            | k # ks \<Rightarrow>
                if k \<noteq> 58 then Inl NotJson
                else rbind (scan_value n (skip_ws ks)) (\<lambda>(v, rest).
                  case skip_ws rest of
                    [] \<Rightarrow> Inl NotJson
                  | d # ds \<Rightarrow>
                      if d = 125 then Inr ([(key, v)], ds)
                      else if d = 44 then push (key, v) (scan_members n (skip_ws ds))
                      else Inl NotJson)))"

definition raw_decode :: "ustr \<Rightarrow> json scan" where
  "raw_decode s = scan_value (2 * length s + 1) s"

section \<open>Lone surrogates\<close>

definition surrogate :: "int \<Rightarrow> bool" where
  "surrogate c \<longleftrightarrow> 55296 \<le> c \<and> c \<le> 57343"

text \<open>Whether \<open>text.encode("utf-8")\<close> succeeds.\<close>

definition encodable :: "ustr \<Rightarrow> bool" where
  "encodable s \<longleftrightarrow> \<not> list_ex surrogate s"

fun lone_surrogate :: "json \<Rightarrow> bool"
  and lone_surrogate_list :: "json list \<Rightarrow> bool"
  and lone_surrogate_pairs :: "(ustr \<times> json) list \<Rightarrow> bool" where
  "lone_surrogate (JStr s) = (\<not> encodable s)"
| "lone_surrogate (JList vs) = lone_surrogate_list vs"
| "lone_surrogate (JObj kvs) = lone_surrogate_pairs kvs"
| "lone_surrogate JNull = False"
| "lone_surrogate (JBool _) = False"
| "lone_surrogate (JInt _) = False"
| "lone_surrogate JFloat = False"
| "lone_surrogate_list [] = False"
| "lone_surrogate_list (v # vs) = (lone_surrogate v \<or> lone_surrogate_list vs)"
| "lone_surrogate_pairs [] = False"
| "lone_surrogate_pairs ((k, v) # kvs) =
     (\<not> encodable k \<or> lone_surrogate v \<or> lone_surrogate_pairs kvs)"

section \<open>The reply\<close>

text \<open>A decode problem: its code, with what its detail is formatted from.\<close>

datatype decode_problem =
    NOT_TEXT | FENCED_ANSWER | TOO_DEEP int | DUPLICATE_KEY "ustr list" | NOT_JSON
  | CONTENT_OUTSIDE_OBJECT int | LONE_SURROGATE

definition FENCE_MARK :: ustr where
  "FENCE_MARK = u ''```''"

definition strip_space :: "ustr \<Rightarrow> ustr" where
  "strip_space s = rev (dropWhile space_point (rev (dropWhile space_point s)))"

definition is_fenced :: "ustr \<Rightarrow> bool" where
  "is_fenced text =
     (let stripped = strip_space text; k = length FENCE_MARK in
      length stripped \<ge> 2 * k \<and> take k stripped = FENCE_MARK \<and>
      drop (length stripped - k) stripped = FENCE_MARK)"

definition decode :: "ustr \<Rightarrow> json \<times> decode_problem list" where
  "decode body =
     (let stripped = strip_ws body; depth = nesting_depth stripped in
      if depth > MAX_NESTING_DEPTH then (JNull, [TOO_DEEP depth])
      else (case raw_decode stripped of
              Inl (DuplicateKey ks) \<Rightarrow> (JNull, [DUPLICATE_KEY ks])
            | Inl _ \<Rightarrow> (JNull, [NOT_JSON])
            | Inr (v, rest) \<Rightarrow>
                if rest \<noteq> [] then (JNull, [CONTENT_OUTSIDE_OBJECT (int (length rest))])
                else if lone_surrogate v then (JNull, [LONE_SURROGATE])
                else (v, [])))"

text \<open>A reply that is no text is \<open>None\<close> here.\<close>

definition decode_json_reply :: "ustr option \<Rightarrow> json \<times> decode_problem list" where
  "decode_json_reply raw =
     (case raw of
        None \<Rightarrow> (JNull, [NOT_TEXT])
      | Some text \<Rightarrow> if is_fenced text then (JNull, [FENCED_ANSWER]) else decode text)"

section \<open>Every scan consumes, and the fuel is enough\<close>

lemma push_Inr_iff: "push c r = Inr (s, rest) \<longleftrightarrow> (\<exists>t. r = Inr (t, rest) \<and> s = c # t)"
  by (cases r) (auto simp: push_def)

lemma push_fuel: "push c r \<noteq> Inl OutOfFuel \<longleftrightarrow> r \<noteq> Inl OutOfFuel"
  by (cases r) (auto simp: push_def)

lemma length_skip_ws: "length (skip_ws s) \<le> length s"
  by (simp add: skip_ws_def length_dropWhile_le)

lemma scan_string_shorter: "scan_string s = Inr (t, rest) \<Longrightarrow> length rest < length s"
proof (induction s arbitrary: t rest rule: scan_string.induct)
  case (2 c cs)
  then show ?case
    by (fastforce simp: push_Inr_iff split: sum.splits prod.splits option.splits
        dest: string_char_shorter)
qed simp

lemma unicode_escape_fuel: "unicode_escape es \<noteq> Inl OutOfFuel"
  by (simp add: unicode_escape_def Let_def split: option.splits)

lemma string_char_fuel: "string_char c cs \<noteq> Inl OutOfFuel"
  by (simp add: string_char_def unicode_escape_fuel split: list.splits option.splits)

lemma scan_string_fuel: "scan_string s \<noteq> Inl OutOfFuel"
proof (induction s rule: scan_string.induct)
  case (2 c cs)
  then show ?case using string_char_fuel [of c cs]
    by (auto simp: push_fuel split: sum.splits option.splits)
qed simp

lemma whole_part_length: "length (whole_part body) \<le> length body"
  using length_takeWhile_le [of digit "tl body"] by (cases body) (auto simp: whole_part_def)

lemma number_parts_shorter:
  assumes "number_parts s = Some (neg, whole, k, rest)"
  shows "length rest < length s"
proof -
  define body where "body = (if take 1 s = [45] then drop 1 s else s)"
  define after where "after = drop (frac_len (drop (length (whole_part body)) body))
    (drop (length (whole_part body)) body)"
  have p: "number_parts s = (if whole_part body = [] then None else
      Some (take 1 s = [45], whole_part body,
        frac_len (drop (length (whole_part body)) body) + expo_len after, drop (expo_len after) after))"
    unfolding number_parts_def Let_def body_def [symmetric] after_def ..
  with assms have w: "whole_part body \<noteq> []" and r: "rest = drop (expo_len after) after"
    by (auto split: if_splits)
  have "length rest \<le> length after" by (simp add: r)
  also have "\<dots> \<le> length body - length (whole_part body)" by (simp add: after_def)
  also have "\<dots> < length body" using w whole_part_length [of body] by (cases "whole_part body") auto
  also have "\<dots> \<le> length s" by (simp add: body_def)
  finally show ?thesis .
qed

lemma scan_number_shorter: "scan_number s = Inr (v, rest) \<Longrightarrow> length rest < length s"
  by (auto simp: scan_number_def dest!: number_parts_shorter split: option.splits if_splits sum.splits)

lemma scan_number_fuel: "scan_number s \<noteq> Inl OutOfFuel"
  by (auto simp: scan_number_def split: option.splits sum.splits)

lemma object_of_fuel: "object_of ps \<noteq> Inl OutOfFuel"
  by (simp add: object_of_def Let_def)

lemma rbind_fuel:
  "rbind r f \<noteq> Inl OutOfFuel \<longleftrightarrow> r \<noteq> Inl OutOfFuel \<and> (\<forall>x. r = Inr x \<longrightarrow> f x \<noteq> Inl OutOfFuel)"
  by (cases r) auto

lemma skip_ws_Cons_shorter: "skip_ws s = d # ds \<Longrightarrow> length ds < length s"
  using length_skip_ws [of s] by simp

lemma scan_value_step:
  assumes "scan_value (Suc n) (c # cs) = Inr (v, rest)"
    and "\<And>vs r. scan_elements n (skip_ws cs) = Inr (vs, r) \<Longrightarrow> length r < length (skip_ws cs)"
    and "\<And>ps r. scan_members n (skip_ws cs) = Inr (ps, r) \<Longrightarrow> length r < length (skip_ws cs)"
  shows "length rest < length (c # cs)"
proof -
  have ws: "length (skip_ws cs) \<le> length cs" by (rule length_skip_ws)
  consider (str) "c = 34" | (obj) "c = 123" | (arr) "c = 91" | (other) "c \<noteq> 34" "c \<noteq> 123" "c \<noteq> 91"
    by blast
  then show ?thesis
  proof cases
    case str with assms(1) show ?thesis by (auto simp: result_simps dest: scan_string_shorter)
  next
    case obj
    with assms(1) ws show ?thesis
      by (auto simp: Let_def result_simps split: if_splits dest!: assms(3))
  next
    case arr
    with assms(1) ws show ?thesis
      by (auto simp: Let_def result_simps split: if_splits dest!: assms(2))
  next
    case other
    with assms(1) show ?thesis
      using scan_number_shorter [of "c # cs" v rest] by (auto split: if_splits)
  qed
qed

lemma scan_elements_SucE:
  assumes "scan_elements (Suc n) s = Inr (vs, rest)"
  obtains v r d ds where "scan_value n s = Inr (v, r)" "skip_ws r = d # ds"
    "d = 93 \<and> rest = ds \<or> d = 44 \<and> (\<exists>ws. scan_elements n (skip_ws ds) = Inr (ws, rest))"
proof -
  from assms obtain v r where v: "scan_value n s = Inr (v, r)" and
    c: "(case skip_ws r of
         [] \<Rightarrow> Inl NotJson
       | d # ds \<Rightarrow>
           if d = 93 then Inr ([v], ds)
           else if d = 44 then push v (scan_elements n (skip_ws ds))
           else Inl NotJson) = Inr (vs, rest)"
    by (auto simp only: scan_elements.simps rbind_Inr_iff prod.case)
  show thesis
  proof (cases "skip_ws r")
    case (Cons d ds)
    with c have "d = 93 \<and> rest = ds \<or> d = 44 \<and> (\<exists>ws. scan_elements n (skip_ws ds) = Inr (ws, rest))"
      by (auto simp: push_Inr_iff split: if_splits)
    from that [OF v Cons this] show thesis .
  qed (use c in simp)
qed

lemma scan_members_SucE:
  assumes "scan_members (Suc n) s = Inr (ps, rest)"
  obtains q qs key r0 k ks v r d ds where "s = q # qs" "scan_string qs = Inr (key, r0)"
    "skip_ws r0 = k # ks" "scan_value n (skip_ws ks) = Inr (v, r)" "skip_ws r = d # ds"
    "d = 125 \<and> rest = ds \<or> d = 44 \<and> (\<exists>ws. scan_members n (skip_ws ds) = Inr (ws, rest))"
proof -
  obtain q qs where s: "s = q # qs" using assms by (cases s) auto
  with assms obtain key r0 where key: "scan_string qs = Inr (key, r0)" and
    c: "(case skip_ws r0 of
              [] \<Rightarrow> Inl NotJson
            | k # ks \<Rightarrow>
                if k \<noteq> 58 then Inl NotJson
                else rbind (scan_value n (skip_ws ks)) (\<lambda>(v, rest).
                  case skip_ws rest of
                    [] \<Rightarrow> Inl NotJson
                  | d # ds \<Rightarrow>
                      if d = 125 then Inr ([(key, v)], ds)
                      else if d = 44 then push (key, v) (scan_members n (skip_ws ds))
                      else Inl NotJson)) = Inr (ps, rest)"
    by (auto simp only: scan_members.simps list.case rbind_Inr_iff prod.case split: if_split_asm)
  from c obtain k ks where k: "skip_ws r0 = k # ks" by (cases "skip_ws r0") auto
  with c obtain v r where v: "scan_value n (skip_ws ks) = Inr (v, r)" and
    c2: "(case skip_ws r of
                    [] \<Rightarrow> Inl NotJson
                  | d # ds \<Rightarrow>
                      if d = 125 then Inr ([(key, v)], ds)
                      else if d = 44 then push (key, v) (scan_members n (skip_ws ds))
                      else Inl NotJson) = Inr (ps, rest)"
    by (auto simp only: list.case rbind_Inr_iff prod.case split: if_split_asm)
  show thesis
  proof (cases "skip_ws r")
    case (Cons d ds)
    with c2 have "d = 125 \<and> rest = ds \<or> d = 44 \<and> (\<exists>ws. scan_members n (skip_ws ds) = Inr (ws, rest))"
      by (auto simp: push_Inr_iff split: if_splits)
    from that [OF s key k v Cons this] show thesis .
  qed (use c2 in simp)
qed

lemma scan_elements_step:
  assumes "scan_elements (Suc n) s = Inr (vs, rest)"
    and "\<And>v r. scan_value n s = Inr (v, r) \<Longrightarrow> length r < length s"
    and "\<And>s' vs r. scan_elements n s' = Inr (vs, r) \<Longrightarrow> length r < length s'"
  shows "length rest < length s"
proof -
  from assms(1) obtain v r d ds where v: "scan_value n s = Inr (v, r)" and d: "skip_ws r = d # ds"
    and k: "d = 93 \<and> rest = ds \<or> d = 44 \<and> (\<exists>ws. scan_elements n (skip_ws ds) = Inr (ws, rest))"
    by (rule scan_elements_SucE)
  from assms(2) [OF v] have "length ds < length s" using skip_ws_Cons_shorter [OF d] by simp
  moreover have "length rest \<le> length ds" using k assms(3) [of "skip_ws ds"] length_skip_ws [of ds]
    by (metis dual_order.trans nat_less_le order_refl)
  ultimately show ?thesis by simp
qed

lemma scan_members_step:
  assumes "scan_members (Suc n) s = Inr (ps, rest)"
    and "\<And>s' v r. scan_value n s' = Inr (v, r) \<Longrightarrow> length r < length s'"
    and "\<And>s' ps r. scan_members n s' = Inr (ps, r) \<Longrightarrow> length r < length s'"
  shows "length rest < length s"
proof -
  from assms(1) obtain q qs key r0 k ks v r d ds where s: "s = q # qs"
    and key: "scan_string qs = Inr (key, r0)" and k: "skip_ws r0 = k # ks"
    and v: "scan_value n (skip_ws ks) = Inr (v, r)" and d: "skip_ws r = d # ds"
    and fin: "d = 125 \<and> rest = ds \<or> d = 44 \<and> (\<exists>ws. scan_members n (skip_ws ds) = Inr (ws, rest))"
    by (rule scan_members_SucE)
  have "length ds < length r" by (rule skip_ws_Cons_shorter [OF d])
  also have "\<dots> < length (skip_ws ks)" by (rule assms(2) [OF v])
  also have "\<dots> \<le> length ks" by (rule length_skip_ws)
  also have "\<dots> < length r0" by (rule skip_ws_Cons_shorter [OF k])
  also have "\<dots> < length qs" by (rule scan_string_shorter [OF key])
  finally have "length ds < length s" using s by simp
  moreover have "length rest \<le> length ds" using fin assms(3) [of "skip_ws ds"] length_skip_ws [of ds]
    by (metis dual_order.trans nat_less_le order_refl)
  ultimately show ?thesis by simp
qed

lemma scan_shorter:
  "(\<forall>s v r. scan_value n s = Inr (v, r) \<longrightarrow> length r < length s) \<and>
   (\<forall>s vs r. scan_elements n s = Inr (vs, r) \<longrightarrow> length r < length s) \<and>
   (\<forall>s ps r. scan_members n s = Inr (ps, r) \<longrightarrow> length r < length s)"
proof (induction n)
  case (Suc n)
  have "length r < length s" if "scan_value (Suc n) s = Inr (v, r)" for s v r
  proof (cases s)
    case (Cons c cs)
    with that Suc show ?thesis using scan_value_step [of n c cs v r] by blast
  qed (use that in simp)
  moreover have "length r < length s" if "scan_elements (Suc n) s = Inr (vs, r)" for s vs r
    using scan_elements_step [OF that] Suc by blast
  moreover have "length r < length s" if "scan_members (Suc n) s = Inr (ps, r)" for s ps r
    using scan_members_step [OF that] Suc by blast
  ultimately show ?case by blast
qed simp

lemma scan_fuel:
  "(\<forall>s. 2 * length s < n \<longrightarrow> scan_value n s \<noteq> Inl OutOfFuel) \<and>
   (\<forall>s. 2 * length s + 1 < n \<longrightarrow> scan_elements n s \<noteq> Inl OutOfFuel) \<and>
   (\<forall>s. 2 * length s + 1 < n \<longrightarrow> scan_members n s \<noteq> Inl OutOfFuel)"
proof (induction n)
  case (Suc n)
  have len: "length r < length s" if "scan_value n s = Inr (v, r)" for s v r
    using scan_shorter [of n] that by blast
  have "scan_value (Suc n) s \<noteq> Inl OutOfFuel" if n: "2 * length s < Suc n" for s
  proof (cases s)
    case (Cons c cs)
    with n length_skip_ws [of cs] have "2 * length (skip_ws cs) + 1 < n" by simp
    with Suc have "scan_elements n (skip_ws cs) \<noteq> Inl OutOfFuel"
      "scan_members n (skip_ws cs) \<noteq> Inl OutOfFuel" by blast+
    then show ?thesis using Cons scan_string_fuel [of cs] scan_number_fuel [of s]
      by (auto simp: Let_def rbind_fuel object_of_fuel)
  qed simp
  moreover have "scan_elements (Suc n) s \<noteq> Inl OutOfFuel" if n: "2 * length s + 1 < Suc n" for s
  proof -
    have "push v (scan_elements n (skip_ws ds)) \<noteq> Inl OutOfFuel"
      if v: "scan_value n s = Inr (v, r)" and d: "skip_ws r = d # ds" for v r d ds
    proof -
      have "2 * length (skip_ws ds) + 1 < n"
        using skip_ws_Cons_shorter [OF d] len [OF v] length_skip_ws [of ds] n by simp
      with Suc show ?thesis by (simp add: push_fuel)
    qed
    moreover have "scan_value n s \<noteq> Inl OutOfFuel" using Suc n by simp
    ultimately show ?thesis by (auto simp: rbind_fuel split: list.split)
  qed
  moreover have "scan_members (Suc n) s \<noteq> Inl OutOfFuel" if n: "2 * length s + 1 < Suc n" for s
  proof (cases s)
    case (Cons q qs)
    have "scan_value n (skip_ws ks) \<noteq> Inl OutOfFuel \<and>
        (\<forall>v r d ds. scan_value n (skip_ws ks) = Inr (v, r) \<longrightarrow> skip_ws r = d # ds \<longrightarrow>
           push (key, v) (scan_members n (skip_ws ds)) \<noteq> Inl OutOfFuel)"
      if key: "scan_string qs = Inr (key, r0)" and k: "skip_ws r0 = k # ks" for key r0 k ks
    proof -
      have l: "length (skip_ws ks) < length qs"
        using skip_ws_Cons_shorter [OF k] scan_string_shorter [OF key] length_skip_ws [of ks] by simp
      then have "2 * length (skip_ws ks) < n" using n Cons by simp
      moreover have "2 * length (skip_ws ds) + 1 < n"
        if v: "scan_value n (skip_ws ks) = Inr (v, r)" and d: "skip_ws r = d # ds" for v r d ds
        using skip_ws_Cons_shorter [OF d] len [OF v] l length_skip_ws [of ds] n Cons by simp
      ultimately show ?thesis using Suc by (simp add: push_fuel)
    qed
    then show ?thesis using Cons scan_string_fuel [of qs]
      by (auto simp: rbind_fuel split: list.split)
  qed simp
  ultimately show ?case by blast
qed simp

lemma raw_decode_fuel: "raw_decode s \<noteq> Inl OutOfFuel"
  using scan_fuel [of "2 * length s + 1"] by (simp add: raw_decode_def del: scan_value.simps)

lemma raw_decode_shorter: "raw_decode s = Inr (v, rest) \<Longrightarrow> length rest < length s"
  using scan_shorter [of "2 * length s + 1"] by (auto simp: raw_decode_def simp del: scan_value.simps)

end
