(* ===== verification/PageTypes.thy ===== *)
theory PageTypes
  imports Feed
begin

text \<open>
  \<open>common/page_types.py\<close>: the closed lists of page types, entry kinds and writings, the act
  class of a kind, the checks a stated type switches off, the model-free cross-check of the
  stated type against what the detectors found, and the rows export.
\<close>

section \<open>The vocabularies\<close>

definition REGISTER_ACTS :: ustr where "REGISTER_ACTS = u ''register-acts''"
definition INDEX :: ustr where "INDEX = u ''index''"
definition TABLE :: ustr where "TABLE = u ''table''"
definition LEDGER :: ustr where "LEDGER = u ''ledger''"
definition INSTRUMENT_PAGE :: ustr where "INSTRUMENT_PAGE = u ''instrument''"
definition PROSE :: ustr where "PROSE = u ''prose''"
definition BLANK :: ustr where "BLANK = u ''blank''"

definition PAGE_TYPES :: "ustr list" where
  "PAGE_TYPES = [REGISTER_ACTS, INDEX, TABLE, LEDGER, INSTRUMENT_PAGE, PROSE, BLANK]"

definition ACT :: ustr where "ACT = u ''act''"
definition INDEX_ROW :: ustr where "INDEX_ROW = u ''index-row''"
definition TABLE_ROW :: ustr where "TABLE_ROW = u ''table-row''"
definition LEDGER_ENTRY :: ustr where "LEDGER_ENTRY = u ''ledger-entry''"
definition INSTRUMENT :: ustr where "INSTRUMENT = u ''instrument''"
definition PARAGRAPH :: ustr where "PARAGRAPH = u ''paragraph''"
definition OTHER :: ustr where "OTHER = u ''other''"

definition ENTRY_KINDS :: "ustr list" where
  "ENTRY_KINDS = [ACT, INDEX_ROW, TABLE_ROW, LEDGER_ENTRY, INSTRUMENT, PARAGRAPH, OTHER]"

definition WRITINGS :: "ustr list" where
  "WRITINGS = [u ''handwritten'', u ''typed'', u ''printed'', u ''mixed'']"

definition HAND_WRITINGS :: "ustr list" where
  "HAND_WRITINGS = [u ''handwritten'', u ''mixed'']"

definition ACT_CLASS :: ustr where "ACT_CLASS = u ''act''"
definition OTHER_CLASS :: ustr where "OTHER_CLASS = u ''other''"

definition ACT_CLASS_KINDS :: "ustr list" where
  "ACT_CLASS_KINDS = [ACT, INSTRUMENT]"

definition ROW_KINDS :: "ustr list" where
  "ROW_KINDS = [INDEX_ROW, TABLE_ROW, LEDGER_ENTRY]"

definition LENGTH_SIGNAL_KINDS :: "ustr list" where
  "LENGTH_SIGNAL_KINDS = [ACT, INSTRUMENT]"

definition EXPECTED_KINDS :: "(ustr \<times> ustr list) list" where
  "EXPECTED_KINDS =
     [(REGISTER_ACTS, [ACT]), (INDEX, [INDEX_ROW]), (TABLE, [TABLE_ROW]),
      (LEDGER, [LEDGER_ENTRY, TABLE_ROW]), (INSTRUMENT_PAGE, [INSTRUMENT, TABLE_ROW]),
      (PROSE, [PARAGRAPH]), (BLANK, [])]"

lemmas kind_names = ACT_def INDEX_ROW_def TABLE_ROW_def LEDGER_ENTRY_def INSTRUMENT_def
  PARAGRAPH_def OTHER_def

lemmas type_names = REGISTER_ACTS_def INDEX_def TABLE_def LEDGER_def INSTRUMENT_PAGE_def
  PROSE_def BLANK_def

definition act_class :: "ustr \<Rightarrow> ustr result" where
  "act_class kind =
     (if kind \<notin> set ENTRY_KINDS then Inl (ValueError ''is not an entry kind'')
      else Inr (if kind \<in> set ACT_CLASS_KINDS then ACT_CLASS else OTHER_CLASS))"

text \<open>\<open>is_act_class\<close> takes a kind as an answer or a record gives it: any value or none.\<close>

definition is_act_class :: "json option \<Rightarrow> bool result" where
  "is_act_class kind =
     (case kind of
        Some (JStr k) \<Rightarrow> Inr (k \<in> set ACT_CLASS_KINDS)
      | Some (JList _) \<Rightarrow> Inl (TypeError ''unhashable type'')
      | Some (JObj _) \<Rightarrow> Inl (TypeError ''unhashable type'')
      | _ \<Rightarrow> Inr False)"

definition length_signal_applies :: "ustr \<Rightarrow> bool" where
  "length_signal_applies entry_kind \<longleftrightarrow> entry_kind \<in> set LENGTH_SIGNAL_KINDS"

section \<open>Which checks apply\<close>

text \<open>A formatted optional text: Python writes a missing one \<open>None\<close>.\<close>

fun shown_text :: "ustr option \<Rightarrow> ustr" where
  "shown_text None = u ''None''"
| "shown_text (Some s) = s"

record applies =
  rule_applies :: bool
  rule_reason :: ustr

definition RECORD_DETECTOR_RULE :: ustr where "RECORD_DETECTOR_RULE = u ''i''"

definition hand_writing :: "ustr option \<Rightarrow> bool" where
  "hand_writing writing \<longleftrightarrow> (case writing of Some w \<Rightarrow> w \<in> set HAND_WRITINGS | None \<Rightarrow> False)"

definition applicability :: "ustr option \<Rightarrow> ustr option \<Rightarrow> (ustr \<times> applies) list" where
  "applicability page_type writing =
     (let (ok, why) =
       (case page_type of
          None \<Rightarrow> (True, u ''no valid answer stated a type: every check applies'')
        | Some t \<Rightarrow>
            if t = REGISTER_ACTS \<and> hand_writing writing
            then (True, shown_text writing @ u '' register acts: the record detector's own page type'')
            else if t = REGISTER_ACTS
            then (False, shown_text writing @
                    u '' register acts: the record detector was built for handwriting'')
            else (False, t @ u '' page: the record detector finds register acts''))
      in [(RECORD_DETECTOR_RULE, \<lparr>rule_applies = ok, rule_reason = why\<rparr>)])"

section \<open>The model-free cross-check\<close>

definition TABLE_LABEL :: ustr where "TABLE_LABEL = u ''Table''"

record facts =
  surya_table_blocks :: "int option"
  witness_table_units :: "(ustr \<times> int) list"
  detector_records :: "int option"

definition count_tables :: "ustr option list \<Rightarrow> int" where
  "count_tables labels = int (length (filter (\<lambda>l. l = Some TABLE_LABEL) labels))"

text \<open>The chair's name where the feed names one (an empty one counts as none), else its letter.\<close>

definition chair_name :: "fwitness \<Rightarrow> ustr" where
  "chair_name w = (case wit_chair w of Some c \<Rightarrow> if c = [] then wit_letter w else c
                                     | None \<Rightarrow> wit_letter w)"

definition type_facts :: "feed \<Rightarrow> int option \<Rightarrow> facts" where
  "type_facts feed record_count =
     \<lparr>surya_table_blocks =
        (case surya_of feed of
           None \<Rightarrow> None
         | Some s \<Rightarrow> if surya_blocks s = [] then None
                     else Some (count_tables (map det_label (surya_blocks s)))),
      witness_table_units =
        fold (\<lambda>w. AList.update (chair_name w) (count_tables (map unit_label (wit_units w))))
          (filter (\<lambda>w. wit_units w \<noteq> []) (witnesses feed)) [],
      detector_records = record_count\<rparr>"

definition table_evidence :: "facts \<Rightarrow> bool option" where
  "table_evidence f =
     (let measured = (case surya_table_blocks f of None \<Rightarrow> [] | Some n \<Rightarrow> [n])
                     @ map snd (witness_table_units f)
      in if measured = [] then None else Some (list_ex (\<lambda>n. n > 0) measured))"

record type_check =
  check_name :: ustr
  agrees :: "bool option"
  detail :: ustr

definition found_words :: "bool option \<Rightarrow> ustr" where
  "found_words table =
     (case table of Some True \<Rightarrow> u ''was found'' | Some False \<Rightarrow> u ''was not found''
                  | None \<Rightarrow> u ''unmeasured'')"

definition shown_int :: "int option \<Rightarrow> ustr" where
  "shown_int n = (case n of None \<Rightarrow> u ''None'' | Some i \<Rightarrow> decimal i)"

definition table_check :: "ustr \<Rightarrow> facts \<Rightarrow> type_check list" where
  "table_check t f =
     (let table = table_evidence f in
      if t \<in> {INDEX, TABLE, LEDGER} then
        [\<lparr>check_name = u ''table-evidence'', agrees = table,
          detail = u ''a '' @ t @ u '' page; a Table block or unit '' @ found_words table\<rparr>]
      else if t = REGISTER_ACTS then
        [\<lparr>check_name = u ''table-evidence'', agrees = map_option Not table,
          detail = u ''a register-acts page; a Table block or unit '' @ found_words table\<rparr>]
      else [])"

definition records_check :: "ustr \<Rightarrow> ustr option \<Rightarrow> facts \<Rightarrow> type_check list" where
  "records_check t writing f =
     (let records = detector_records f in
      if t = REGISTER_ACTS \<and> hand_writing writing then
        [\<lparr>check_name = u ''detector-records'', agrees = map_option (\<lambda>n. n > 0) records,
          detail = u ''handwritten register acts; the record detector found '' @ shown_int records\<rparr>]
      else if t \<in> {INDEX, TABLE} then
        [\<lparr>check_name = u ''detector-records'', agrees = map_option (\<lambda>n. n = 0) records,
          detail = u ''a '' @ t @ u '' page; the record detector found '' @ shown_int records\<rparr>]
      else [])"

definition type_agreement :: "ustr option \<Rightarrow> ustr option \<Rightarrow> facts \<Rightarrow> type_check list" where
  "type_agreement page_type writing f =
     (case page_type of
        None \<Rightarrow> []
      | Some t \<Rightarrow> table_check t f @ records_check t writing f)"

record kind_check =
  kinds_agree :: bool
  unexpected_kinds :: "ustr list"

definition kind_agreement :: "ustr option \<Rightarrow> ustr list \<Rightarrow> kind_check option result" where
  "kind_agreement page_type entry_kinds =
     (case page_type of
        None \<Rightarrow> Inr None
      | Some t \<Rightarrow>
          rbind (rget (KeyError ''EXPECTED_KINDS'') (map_of EXPECTED_KINDS t)) (\<lambda>ks.
            let unexpected = sorted_set (filter (\<lambda>k. k \<notin> set ks \<union> {OTHER}) entry_kinds)
            in Inr (Some \<lparr>kinds_agree = (unexpected = []), unexpected_kinds = unexpected\<rparr>)))"

section \<open>The rows export\<close>

record perlectio =
  perl_entry_kind :: ustr
  perl_page_id :: ustr
  perl_page_ordinal :: int
  perl_n :: int
  perl_label :: "ustr option"
  perl_text :: ustr
  perl_uncertain_spans :: json
  perl_gaps :: json
  perl_holds :: "ustr list"
  perl_page_holds :: "ustr list"

record review =
  review_outcome :: ustr
  review_hold_codes :: "ustr list"

record row =
  row_schema :: ustr
  row_act_key :: ustr
  row_act_id :: ustr
  row_page_id :: ustr
  row_page_ordinal :: int
  row_page_type :: "ustr option"
  row_n :: int
  row_entry_kind :: ustr
  row_label :: "ustr option"
  row_text :: ustr
  row_uncertain_spans :: json
  row_gaps :: json
  row_holds :: "ustr list"
  row_review :: "review option"

definition ROWS_SCHEMA :: ustr where "ROWS_SCHEMA = u ''armarium-row.v1''"

definition row_record ::
  "perlectio \<Rightarrow> ustr option \<Rightarrow> ustr \<Rightarrow> ustr \<Rightarrow> review option \<Rightarrow> row option" where
  "row_record x page_type act_key act_id review =
     (if perl_entry_kind x \<notin> set ROW_KINDS then None
      else Some
        \<lparr>row_schema = ROWS_SCHEMA, row_act_key = act_key, row_act_id = act_id,
         row_page_id = perl_page_id x, row_page_ordinal = perl_page_ordinal x,
         row_page_type = page_type, row_n = perl_n x, row_entry_kind = perl_entry_kind x,
         row_label = perl_label x, row_text = perl_text x,
         row_uncertain_spans = perl_uncertain_spans x, row_gaps = perl_gaps x,
         row_holds = sorted_set (perl_holds x @ perl_page_holds x), row_review = review\<rparr>)"

section \<open>The properties\<close>

lemma kind_classes: "set ACT_CLASS_KINDS \<inter> set ROW_KINDS = {}" "OTHER \<notin> set ACT_CLASS_KINDS"
  "set ACT_CLASS_KINDS \<union> set ROW_KINDS \<subseteq> set ENTRY_KINDS"
  by (simp_all add: ACT_CLASS_KINDS_def ROW_KINDS_def ENTRY_KINDS_def kind_names)

lemma act_class_act: "act_class k = Inr ACT_CLASS \<longleftrightarrow> k \<in> set ACT_CLASS_KINDS"
  using kind_classes(3) by (auto simp: act_class_def ACT_CLASS_def OTHER_CLASS_def)

lemma act_class_other:
  "act_class k = Inr OTHER_CLASS \<longleftrightarrow> k \<in> set ENTRY_KINDS \<and> k \<notin> set ACT_CLASS_KINDS"
  by (simp add: act_class_def ACT_CLASS_def OTHER_CLASS_def)

lemma table_check_measured:
  "c \<in> set (table_check t f) \<Longrightarrow>
     check_name c = u ''table-evidence'' \<and> (agrees c = None \<longleftrightarrow> table_evidence f = None)"
  by (simp add: table_check_def Let_def split: if_splits)

lemma records_check_measured:
  "c \<in> set (records_check t writing f) \<Longrightarrow>
     check_name c = u ''detector-records'' \<and> (agrees c = None \<longleftrightarrow> detector_records f = None)"
  by (simp add: records_check_def Let_def split: if_splits)

text \<open>
  The cross-check of a stated type is three-valued: a check of an answer's stated type
  is unmeasured exactly when the facts it reads are, a page of rows and a page of register
  acts read the same table evidence in opposite senses, and the unexpected kinds of a page
  are exactly the kinds of its entries outside the expected ones and \<open>other\<close>.
\<close>

theorem type_checks_three_valued:
  "(\<forall>c \<in> set (type_agreement page_type writing f).
      check_name c = u ''table-evidence'' \<and> (agrees c = None \<longleftrightarrow> table_evidence f = None) \<or>
      check_name c = u ''detector-records'' \<and> (agrees c = None \<longleftrightarrow> detector_records f = None)) \<and>
   map agrees (table_check REGISTER_ACTS f) = map (map_option Not \<circ> agrees) (table_check INDEX f) \<and>
   (kind_agreement (Some INDEX) kinds = Inr (Some chk) \<longrightarrow>
      set (unexpected_kinds chk) = set kinds - {INDEX_ROW, OTHER} \<and>
      (kinds_agree chk \<longleftrightarrow> set kinds \<subseteq> {INDEX_ROW, OTHER}))"
proof (intro conjI ballI impI)
  fix c assume "c \<in> set (type_agreement page_type writing f)"
  then show "check_name c = u ''table-evidence'' \<and> (agrees c = None \<longleftrightarrow> table_evidence f = None) \<or>
      check_name c = u ''detector-records'' \<and> (agrees c = None \<longleftrightarrow> detector_records f = None)"
    using table_check_measured [of c _ f] records_check_measured [of c _ writing f]
    by (cases page_type) (auto simp only: type_agreement_def option.case set_append Un_iff
        list.set empty_iff)
next
  show "map agrees (table_check REGISTER_ACTS f) = map (map_option Not \<circ> agrees) (table_check INDEX f)"
    by (simp add: table_check_def Let_def type_names)
next
  assume k: "kind_agreement (Some INDEX) kinds = Inr (Some chk)"
  have "map_of EXPECTED_KINDS INDEX = Some [INDEX_ROW]"
    by (simp add: EXPECTED_KINDS_def type_names)
  with k have c: "chk = \<lparr>kinds_agree = (filter (\<lambda>k. k \<notin> {INDEX_ROW, OTHER}) kinds = []),
      unexpected_kinds = sorted_set (filter (\<lambda>k. k \<notin> {INDEX_ROW, OTHER}) kinds)\<rparr>"
    by (auto simp: kind_agreement_def Let_def rget_def conj_commute)
  show "set (unexpected_kinds chk) = set kinds - {INDEX_ROW, OTHER}" by (auto simp: c)
  show "kinds_agree chk \<longleftrightarrow> set kinds \<subseteq> {INDEX_ROW, OTHER}"
    by (auto simp: c filter_empty_conv)
qed

theorem type_checks_three_valued_witness:
  "unexpected_kinds \<lparr>kinds_agree = False, unexpected_kinds = [ACT]\<rparr> = [ACT] \<and>
   set [INDEX_ROW, ACT] - {INDEX_ROW, OTHER} = set [ACT]"
proof -
  have "map_of EXPECTED_KINDS INDEX = Some [INDEX_ROW]"
    by (simp add: EXPECTED_KINDS_def type_names)
  then have "kind_agreement (Some INDEX) [INDEX_ROW, ACT] =
      Inr (Some \<lparr>kinds_agree = False, unexpected_kinds = [ACT]\<rparr>)"
    by (simp add: kind_agreement_def Let_def kind_names sorted_set_def rget_def)
  with type_checks_three_valued [of None None "\<lparr>surya_table_blocks = None, witness_table_units = [], detector_records = None\<rparr>" "[INDEX_ROW, ACT]"]
  show ?thesis by fastforce
qed

end
