(* ===== verification/Edges.thy ===== *)
theory Edges
  imports PageTypes
begin

text \<open>
  \<open>common/page_edges.py\<close>: a page's edges, the breaks between pages both sides agree on, and
  the chains of entries one act is read in. Entries are compared by identity, so each
  carries one (\<open>e_ident\<close>); two entries of one object have the same.
\<close>

definition FIRST_READING :: int where "FIRST_READING = 1"
definition REASK_READING :: int where "REASK_READING = 2"
definition OPERATOR_REREAD_FIRST :: int where "OPERATOR_REREAD_FIRST = 3"

record edge_entry =
  e_ident :: nat
  e_page :: int
  e_n :: "int option"
  e_kind :: ustr
  e_attempt :: "int option"
  e_from_previous :: bool
  e_to_next :: bool

definition whole_page_entries :: "edge_entry list \<Rightarrow> edge_entry list" where
  "whole_page_entries entries =
     filter (\<lambda>e. e_attempt e \<noteq> None \<and> e_attempt e \<noteq> Some REASK_READING) entries"

text \<open>\<open>by_page.setdefault(ordinal, []).append(entry)\<close>, then each page sorted by \<open>n\<close>.\<close>

definition add_to_page :: "edge_entry \<Rightarrow> (int \<times> edge_entry list) list \<Rightarrow> (int \<times> edge_entry list) list" where
  "add_to_page e pages =
     AList.update (e_page e) ((case map_of pages (e_page e) of None \<Rightarrow> [] | Some es \<Rightarrow> es) @ [e]) pages"

definition counted_act :: "edge_entry \<Rightarrow> bool" where
  "counted_act e \<longleftrightarrow> e_n e \<noteq> None \<and> e_kind e = ACT_CLASS"

definition act_entries_by_page :: "edge_entry list \<Rightarrow> (int \<times> edge_entry list) list" where
  "act_entries_by_page entries =
     map (\<lambda>(ordinal, acts). (ordinal, sort_key (\<lambda>e. the (e_n e)) acts))
       (fold add_to_page (filter counted_act entries) [])"

text \<open>\<open>edge_acts\<close>, over the test whether an entry's kind is of the act class.\<close>

definition edge_acts :: "('a \<Rightarrow> bool) \<Rightarrow> 'a list \<Rightarrow> ('a \<times> 'a) option" where
  "edge_acts act page =
     (let acts = filter act page in if acts = [] then None else Some (hd acts, last acts))"

definition record_edge_acts :: "edge_entry list \<Rightarrow> (edge_entry \<times> edge_entry) option" where
  "record_edge_acts = edge_acts (\<lambda>e. is_act_class (Some (JStr (e_kind e))) = Inr True)"

definition page_edges :: "edge_entry list \<Rightarrow> (int \<times> (edge_entry \<times> edge_entry)) list" where
  "page_edges entries =
     concat (map (\<lambda>(ordinal, acts).
       case record_edge_acts acts of None \<Rightarrow> [] | Some edge \<Rightarrow> [(ordinal, edge)])
       (act_entries_by_page entries))"

definition agreed_breaks :: "edge_entry list \<Rightarrow> (edge_entry \<times> edge_entry) list" where
  "agreed_breaks entries =
     (let edges = page_edges entries in
      concat (map (\<lambda>left.
        (case (map_of edges left, map_of edges (left + 1)) of
           (Some (_, l), Some (f, _)) \<Rightarrow> if e_to_next l \<and> e_from_previous f then [(l, f)] else []
         | _ \<Rightarrow> []))
        (sort (map fst edges))))"

definition add_break :: "edge_entry \<times> edge_entry \<Rightarrow> edge_entry list list \<Rightarrow> edge_entry list list" where
  "add_break brk found =
     (case brk of (l, f) \<Rightarrow>
        if found \<noteq> [] \<and> e_ident (last (last found)) = e_ident l
        then butlast found @ [last found @ [f]]
        else found @ [[l, f]])"

definition break_chains :: "edge_entry list \<Rightarrow> edge_entry list list" where
  "break_chains entries = fold add_break (agreed_breaks entries) []"

section \<open>The edges of a page\<close>

definition page_acts :: "edge_entry list \<Rightarrow> int \<Rightarrow> edge_entry list" where
  "page_acts entries p = filter (\<lambda>e. counted_act e \<and> e_page e = p) entries"

lemma fold_add_to_page:
  "(case map_of (fold add_to_page es pages) p of None \<Rightarrow> [] | Some l \<Rightarrow> l) =
     (case map_of pages p of None \<Rightarrow> [] | Some l \<Rightarrow> l) @ filter (\<lambda>e. e_page e = p) es"
  by (induction es arbitrary: pages) (auto simp: add_to_page_def update_conv')

lemma fold_add_to_page_distinct:
  "distinct (map fst pages) \<Longrightarrow> distinct (map fst (fold add_to_page es pages))"
  by (induction es arbitrary: pages) (simp_all add: add_to_page_def distinct_update)

lemma map_of_concat_option:
  assumes "distinct (map fst xs)"
  shows "map_of (concat (map (\<lambda>(k, v). case g v of None \<Rightarrow> [] | Some w \<Rightarrow> [(k, w)]) xs)) p =
    (case map_of xs p of None \<Rightarrow> None | Some v \<Rightarrow> g v)"
  using assms
proof (induction xs)
  case (Cons x xs)
  obtain k v where x: "x = (k, v)" by force
  have "map_of xs p = None" if "p = k" using Cons.prems that x by (simp add: map_of_eq_None_iff)
  with Cons x show ?case by (auto split: option.splits)
qed simp

lemma page_edges_lookup:
  "map_of (page_edges entries) p =
     (let acts = sort_key (\<lambda>e. the (e_n e)) (page_acts entries p)
      in if acts = [] then None else Some (hd acts, last acts))"
proof -
  let ?pages = "fold add_to_page (filter counted_act entries) []"
  let ?key = "\<lambda>e. the (e_n e)"
  have all_act: "record_edge_acts l = (if l = [] then None else Some (hd l, last l))"
    if "\<forall>e \<in> set l. counted_act e" for l
  proof -
    have "filter (\<lambda>e. is_act_class (Some (JStr (e_kind e))) = Inr True) l = l"
      using that by (intro filter_True)
        (simp add: counted_act_def is_act_class_def ACT_CLASS_def ACT_CLASS_KINDS_def ACT_def)
    then show ?thesis by (simp add: record_edge_acts_def edge_acts_def)
  qed
  have lookup: "map_of (page_edges entries) p =
      (case map_of ?pages p of None \<Rightarrow> None | Some l \<Rightarrow> record_edge_acts (sort_key ?key l))"
  proof -
    have "distinct (map fst ?pages)" by (rule fold_add_to_page_distinct) simp
    then have "distinct (map fst (act_entries_by_page entries))"
      by (simp add: act_entries_by_page_def case_prod_unfold comp_def)
    then have "map_of (page_edges entries) p =
        (case map_of (act_entries_by_page entries) p of None \<Rightarrow> None | Some l \<Rightarrow> record_edge_acts l)"
      unfolding page_edges_def by (rule map_of_concat_option)
    also have "map_of (act_entries_by_page entries) p =
        map_option (sort_key ?key) (map_of ?pages p)"
      by (simp add: act_entries_by_page_def map_of_map)
    finally show ?thesis by (simp split: option.splits)
  qed
  have acts: "(case map_of ?pages p of None \<Rightarrow> [] | Some l \<Rightarrow> l) = page_acts entries p"
    using fold_add_to_page [of "filter counted_act entries" "[]" p]
    by (simp add: page_acts_def conj_commute)
  show ?thesis
  proof (cases "map_of ?pages p")
    case None
    with lookup acts show ?thesis by simp
  next
    case (Some l)
    with acts have l: "l = page_acts entries p" by simp
    then have "\<forall>e \<in> set (sort_key ?key l). counted_act e" by (simp add: page_acts_def)
    from all_act [OF this] Some lookup l show ?thesis by (simp add: Let_def)
  qed
qed

lemma keys_concat_option:
  "map fst (concat (map (\<lambda>(k, v). case g v of None \<Rightarrow> [] | Some w \<Rightarrow> [(k, w)]) xs)) =
     map fst (filter (\<lambda>(k, v). g v \<noteq> None) xs)"
  by (induction xs) (auto split: option.splits)

lemma page_edges_distinct: "distinct (map fst (page_edges entries))"
proof -
  have "distinct (map fst (act_entries_by_page entries))"
    using fold_add_to_page_distinct [of "[]" "filter counted_act entries"]
    by (simp add: act_entries_by_page_def case_prod_unfold comp_def)
  then show ?thesis unfolding page_edges_def keys_concat_option by (rule distinct_map_filter)
qed

text \<open>The last act and the first act of a page, in answer order.\<close>

definition last_act :: "edge_entry list \<Rightarrow> int \<Rightarrow> edge_entry option" where
  "last_act entries p = (let acts = sort_key (\<lambda>e. the (e_n e)) (page_acts entries p)
     in if acts = [] then None else Some (last acts))"

definition first_act :: "edge_entry list \<Rightarrow> int \<Rightarrow> edge_entry option" where
  "first_act entries p = (let acts = sort_key (\<lambda>e. the (e_n e)) (page_acts entries p)
     in if acts = [] then None else Some (hd acts))"

lemma page_edges_acts:
  "map_of (page_edges entries) p = Some (f, l) \<longleftrightarrow> first_act entries p = Some f \<and> last_act entries p = Some l"
  by (auto simp: page_edges_lookup first_act_def last_act_def Let_def)

lemma edge_act_props:
  assumes "last_act entries p = Some e \<or> first_act entries p = Some e"
  shows "e \<in> set entries \<and> e_page e = p \<and> counted_act e"
proof -
  have "e \<in> set (sort_key (\<lambda>e. the (e_n e)) (page_acts entries p))"
    using assms by (auto simp: last_act_def first_act_def Let_def split: if_splits
        intro: last_in_set hd_in_set simp del: set_sort)
  then show ?thesis by (simp add: page_acts_def)
qed

definition page_break :: "edge_entry list \<Rightarrow> int \<Rightarrow> (edge_entry \<times> edge_entry) list" where
  "page_break entries p =
     (case (last_act entries p, first_act entries (p + 1)) of
        (Some l, Some f) \<Rightarrow> if e_to_next l \<and> e_from_previous f then [(l, f)] else []
      | _ \<Rightarrow> [])"

lemma agreed_breaks_pages:
  "agreed_breaks entries = concat (map (page_break entries) (sort (map fst (page_edges entries))))"
proof -
  have "(case (map_of (page_edges entries) p, map_of (page_edges entries) (p + 1)) of
           (Some (_, l), Some (f, _)) \<Rightarrow> if e_to_next l \<and> e_from_previous f then [(l, f)] else []
         | _ \<Rightarrow> []) = page_break entries p" for p
    by (auto simp: page_edges_lookup page_break_def last_act_def first_act_def Let_def)
  then show ?thesis by (simp add: agreed_breaks_def Let_def)
qed

lemma page_break_mem:
  "(l, f) \<in> set (page_break entries p) \<longleftrightarrow>
     last_act entries p = Some l \<and> first_act entries (p + 1) = Some f \<and> e_to_next l \<and> e_from_previous f"
  by (auto simp: page_break_def split: option.splits)

lemma agreed_breaks_mem:
  "(l, f) \<in> set (agreed_breaks entries) \<longleftrightarrow> (\<exists>p. (l, f) \<in> set (page_break entries p))"
proof
  assume "\<exists>p. (l, f) \<in> set (page_break entries p)"
  then obtain p where p: "(l, f) \<in> set (page_break entries p)" by blast
  then have "last_act entries p = Some l" by (simp add: page_break_mem)
  then have "map_of (page_edges entries) p \<noteq> None"
    by (auto simp: page_edges_lookup last_act_def Let_def split: if_splits)
  then have "p \<in> set (sort (map fst (page_edges entries)))" by (simp add: map_of_eq_None_iff)
  then show "(l, f) \<in> set (agreed_breaks entries)"
    unfolding agreed_breaks_pages set_concat set_map using p by blast
qed (auto simp: agreed_breaks_pages)

lemma agreed_breaks_sorted: "sorted_wrt (\<lambda>b c. e_page (fst b) < e_page (fst c)) (agreed_breaks entries)"
proof -
  have page: "e_page (fst b) = p" if "b \<in> set (page_break entries p)" for b p
  proof -
    obtain l f where "b = (l, f)" by force
    with that edge_act_props [of entries p l] show ?thesis by (simp add: page_break_mem)
  qed
  have single: "length (page_break entries p) \<le> 1" for p
    by (simp add: page_break_def split: option.splits)
  have "sorted_wrt (\<lambda>b c. e_page (fst b) < e_page (fst c)) (concat (map (page_break entries) ps))"
    if "sorted ps" "distinct ps" for ps
    using that
  proof (induction ps)
    case (Cons p ps)
    have "sorted_wrt (\<lambda>b c. e_page (fst b) < e_page (fst c)) (page_break entries p)"
      using single [of p] by (cases "page_break entries p") auto
    moreover have "sorted_wrt (\<lambda>b c. e_page (fst b) < e_page (fst c)) (concat (map (page_break entries) ps))"
      using Cons by simp
    moreover have "e_page (fst b) < e_page (fst c)"
      if b: "b \<in> set (page_break entries p)" and c: "c \<in> set (concat (map (page_break entries) ps))" for b c
    proof -
      from c obtain q where q: "q \<in> set ps" "c \<in> set (page_break entries q)" by auto
      with Cons.prems have "p < q" by (metis distinct.simps(2) le_neq_trans list.set_intros(1) sorted_simps(2))
      with page [OF b] page [OF q(2)] show ?thesis by simp
    qed
    ultimately show ?case by (simp add: sorted_wrt_append)
  qed simp
  then show ?thesis unfolding agreed_breaks_pages using page_edges_distinct by simp
qed

section \<open>The chains\<close>

definition links :: "'a list \<Rightarrow> ('a \<times> 'a) list" where
  "links xs = zip xs (tl xs)"

lemma links_snoc: "xs \<noteq> [] \<Longrightarrow> links (xs @ [x]) = links xs @ [(last xs, x)]"
proof (induction xs)
  case (Cons y ys)
  then show ?case by (cases ys) (simp_all add: links_def)
qed simp

lemma links_hd_last_pages:
  assumes "xs \<noteq> []" "\<forall>(a, b) \<in> set (links xs). e_page b = e_page a + 1"
  shows "e_page (hd xs) + int (length xs) = e_page (last xs) + 1"
  using assms
proof (induction xs rule: rev_induct)
  case (snoc x xs)
  then show ?case by (cases "xs = []") (auto simp: links_snoc)
qed simp

definition chained :: "edge_entry list list \<Rightarrow> bool" where
  "chained cs \<longleftrightarrow> (\<forall>c \<in> set cs. 2 \<le> length c \<and> (\<forall>(a, b) \<in> set (links c). e_page b = e_page a + 1)) \<and>
     sorted_wrt (\<lambda>c d. e_page (last c) \<le> e_page (hd d) \<and> last c \<noteq> hd d) cs"

lemma chained_last_bound:
  assumes "chained cs" "c \<in> set (butlast cs)"
  shows "e_page (last c) < e_page (last (last cs))"
proof -
  from assms(2) have ne: "cs \<noteq> []" by auto
  then have cs: "cs = butlast cs @ [last cs]" by simp
  have "sorted_wrt (\<lambda>c d. e_page (last c) \<le> e_page (hd d) \<and> last c \<noteq> hd d) (butlast cs @ [last cs])"
    using assms(1) cs by (simp add: chained_def)
  with assms(2) have "e_page (last c) \<le> e_page (hd (last cs))"
    unfolding sorted_wrt_append by simp
  moreover have "2 \<le> length (last cs)" "\<forall>(a, b) \<in> set (links (last cs)). e_page b = e_page a + 1"
    using assms(1) ne by (auto simp: chained_def)
  then have "e_page (hd (last cs)) < e_page (last (last cs))"
    using links_hd_last_pages [of "last cs"] by fastforce
  ultimately show ?thesis by simp
qed

lemma add_break_chained:
  assumes ch: "chained cs" and f: "e_page f = e_page l + 1"
    and after: "cs \<noteq> [] \<Longrightarrow> e_page (last (last cs)) \<le> e_page l"
    and ident: "cs \<noteq> [] \<Longrightarrow> e_ident (last (last cs)) = e_ident l \<longleftrightarrow> last (last cs) = l"
  shows "chained (add_break (l, f) cs) \<and> add_break (l, f) cs \<noteq> [] \<and>
    last (last (add_break (l, f) cs)) = f \<and>
    concat (map links (add_break (l, f) cs)) = concat (map links cs) @ [(l, f)]"
proof (cases "cs \<noteq> [] \<and> last (last cs) = l")
  case True
  then obtain bs c where cs: "cs = bs @ [c]" and l: "last c = l" by (metis append_butlast_last_id)
  have c: "2 \<le> length c" "c \<noteq> []" using ch cs by (auto simp: chained_def)
  have "add_break (l, f) cs = bs @ [c @ [f]]" using True ident cs by (simp add: add_break_def)
  moreover have "chained (bs @ [c @ [f]])"
    using ch cs l f c by (auto simp: chained_def sorted_wrt_append links_snoc)
  ultimately show ?thesis using cs l c by (simp add: links_snoc)
next
  case False
  then have step: "add_break (l, f) cs = cs @ [[l, f]]" using ident by (auto simp: add_break_def)
  have "e_page (last c) \<le> e_page l \<and> last c \<noteq> l" if "c \<in> set cs" for c
  proof (cases "c = last cs")
    case True
    from that have "cs \<noteq> []" by auto
    with True False after show ?thesis by simp
  next
    case neq: False
    from that have ne: "cs \<noteq> []" by auto
    then have "cs = butlast cs @ [last cs]" by simp
    with that neq have "c \<in> set (butlast cs)" by (metis in_set_conv_decomp set_ConsD append_Cons
      Un_iff append_is_Nil_conv list.set(1) empty_iff set_append list.set(2) insert_iff)
    from chained_last_bound [OF ch this] after [OF ne] show ?thesis by auto
  qed
  with ch f have "chained (cs @ [[l, f]])" by (auto simp: chained_def sorted_wrt_append links_def)
  with step show ?thesis by (simp add: links_def)
qed

lemma fold_add_break:
  assumes "chained cs" "\<forall>(l, f) \<in> set bs. e_page f = e_page l + 1"
    "sorted_wrt (\<lambda>b c. e_page (fst b) < e_page (fst c)) bs"
    "cs \<noteq> [] \<Longrightarrow> \<forall>(l, f) \<in> set bs. e_page (last (last cs)) \<le> e_page l"
    "inj_on e_ident A" "\<forall>(l, f) \<in> set bs. l \<in> A \<and> f \<in> A" "cs \<noteq> [] \<Longrightarrow> last (last cs) \<in> A"
  shows "chained (fold add_break bs cs) \<and>
    concat (map links (fold add_break bs cs)) = concat (map links cs) @ bs"
  using assms
proof (induction bs arbitrary: cs)
  case (Cons b bs)
  obtain l f where b: "b = (l, f)" by force
  have "e_ident (last (last cs)) = e_ident l \<longleftrightarrow> last (last cs) = l" if "cs \<noteq> []"
    using Cons.prems(5-7) b that by (auto dest: inj_onD)
  moreover have "cs \<noteq> [] \<Longrightarrow> e_page (last (last cs)) \<le> e_page l" using Cons.prems(4) b by auto
  moreover have f: "e_page f = e_page l + 1" using Cons.prems(2) b by auto
  ultimately have step: "chained (add_break (l, f) cs)" "add_break (l, f) cs \<noteq> []"
      "last (last (add_break (l, f) cs)) = f"
      "concat (map links (add_break (l, f) cs)) = concat (map links cs) @ [(l, f)]"
    using add_break_chained [OF Cons.prems(1)] by blast+
  have "\<forall>(l', f') \<in> set bs. e_page f \<le> e_page l'"
  proof clarify
    fix l' f' assume "(l', f') \<in> set bs"
    with Cons.prems(3) b have "e_page l < e_page l'" by auto
    with f show "e_page f \<le> e_page l'" by simp
  qed
  moreover have "f \<in> A" using Cons.prems(6) b by simp
  ultimately have "chained (fold add_break bs (add_break (l, f) cs)) \<and>
    concat (map links (fold add_break bs (add_break (l, f) cs))) =
      concat (map links (add_break (l, f) cs)) @ bs"
    using Cons.prems(2,3,5,6) step(1,3) by (intro Cons.IH) auto
  with step(4) b show ?case by simp
qed simp

text \<open>
  C8. The breaks both sides agree on are exactly the pairs of a page's last act and the
  next page's first act that flag each other, and the chains partition them: read link by
  link, the chains are the agreed breaks in page order, every chain has at least two pieces
  on consecutive pages, and no chain could be joined to a later one.
\<close>

theorem break_chains_partition:
  assumes "inj_on e_ident (set entries)"
  shows "((l, f) \<in> set (agreed_breaks entries) \<longleftrightarrow> (\<exists>p. last_act entries p = Some l \<and>
      first_act entries (p + 1) = Some f \<and> e_to_next l \<and> e_from_previous f)) \<and>
    concat (map links (break_chains entries)) = agreed_breaks entries \<and>
    (\<forall>c \<in> set (break_chains entries). 2 \<le> length c \<and>
      e_page (last c) = e_page (hd c) + int (length c) - 1) \<and>
    sorted_wrt (\<lambda>c d. last c \<noteq> hd d) (break_chains entries)"
proof -
  have mem: "l \<in> set entries \<and> f \<in> set entries \<and> e_page f = e_page l + 1"
    if "(l, f) \<in> set (agreed_breaks entries)" for l f
    using that edge_act_props by (fastforce simp: agreed_breaks_mem page_break_mem)
  have ch: "chained (break_chains entries)"
    and links: "concat (map links (break_chains entries)) = agreed_breaks entries"
    using fold_add_break [of "[]" "agreed_breaks entries" "set entries"] assms mem agreed_breaks_sorted
    by (auto simp: break_chains_def chained_def)
  have "e_page (last c) = e_page (hd c) + int (length c) - 1" if "c \<in> set (break_chains entries)" for c
    using links_hd_last_pages [of c] ch that by (fastforce simp: chained_def)
  moreover have "sorted_wrt (\<lambda>c d. last c \<noteq> hd d) (break_chains entries)"
    using ch unfolding chained_def by (auto elim: sorted_wrt_mono_rel [rotated])
  ultimately show ?thesis
    using ch links by (auto simp: agreed_breaks_mem page_break_mem chained_def)
qed

definition piece :: "nat \<Rightarrow> int \<Rightarrow> int \<Rightarrow> bool \<Rightarrow> bool \<Rightarrow> edge_entry" where
  "piece ident page n from to =
     \<lparr>e_ident = ident, e_page = page, e_n = Some n, e_kind = ACT_CLASS, e_attempt = Some 1,
      e_from_previous = from, e_to_next = to\<rparr>"

theorem break_chains_partition_witness:
  "break_chains [piece 1 4 2 False True, piece 0 4 1 False False, piece 2 5 1 True True, piece 3 6 1 True False]
     = [[piece 1 4 2 False True, piece 2 5 1 True True, piece 3 6 1 True False]] \<and>
   concat (map links [[piece 1 4 2 False True, piece 2 5 1 True True, piece 3 6 1 True False]]) =
     agreed_breaks [piece 1 4 2 False True, piece 0 4 1 False False, piece 2 5 1 True True, piece 3 6 1 True False]"
proof -
  let ?es = "[piece 1 4 2 False True, piece 0 4 1 False False, piece 2 5 1 True True, piece 3 6 1 True False]"
  have run: "break_chains ?es =
      [[piece 1 4 2 False True, piece 2 5 1 True True, piece 3 6 1 True False]]"
    by code_simp
  have "inj_on e_ident (set ?es)" by (simp add: piece_def)
  from break_chains_partition [OF this] run show ?thesis by simp
qed

end
