(* ===== verification/Grammar.thy ===== *)
theory Grammar
  imports Json Edges
begin

text \<open>
  The page answer grammar of \<open>common/page_answer.py\<close>: every way a decoded value departs from
  it, the grading of a reply, the one repair (bare grammar keys quoted) and the continuation
  flags off a page's edge. A problem is a constructor for its code, with what its detail is
  formatted from. \<open>read_answer\<close> is the typed reading of an answer the rest of the
  accounting works on.
\<close>

section \<open>Problems\<close>

datatype problem =
    DECODE decode_problem
  | NOT_OBJECT | TOP_FIELDS "ustr list" | PAGE_TYPE_UNKNOWN json | WRITING_UNKNOWN json
  | ENTRIES_NOT_LIST | SET_ASIDE_NOT_LIST
  | ACT_NOT_OBJECT nat | ACT_FIELD_MISSING nat "ustr list" | ACT_FIELD_UNKNOWN nat "ustr list"
  | N_NOT_INTEGER nat json | N_NOT_CONTIGUOUS nat int | KIND_UNKNOWN nat json
  | LABEL_INVALID nat | CITES_INVALID nat | TEXT_INVALID nat | FLAG_INVALID nat string
  | SET_ASIDE_FIELDS_INVALID nat | SET_ASIDE_STRINGS_INVALID nat

definition LABEL_MAX_CHARACTERS :: nat where "LABEL_MAX_CHARACTERS = 80"

definition ENTRIES_TOP_FIELDS :: "string list" where
  "ENTRIES_TOP_FIELDS = [''page_type'', ''writing'', ''entries'', ''set_aside'']"

definition REASK_ENTRIES_TOP_FIELDS :: "string list" where
  "REASK_ENTRIES_TOP_FIELDS = [''entries'', ''set_aside'']"

definition CONTINUATION_FLAGS :: "string list" where
  "CONTINUATION_FLAGS = [''continues_from_previous_page'', ''continues_to_next_page'']"

definition ACT_REQUIRED :: "string list" where
  "ACT_REQUIRED = [''n'', ''kind'', ''cites'', ''text''] @ CONTINUATION_FLAGS"

definition ACT_FIELDS :: "string list" where
  "ACT_FIELDS = ACT_REQUIRED @ [''label'']"

definition SET_ASIDE_FIELDS :: "string list" where
  "SET_ASIDE_FIELDS = [''id'', ''reason'']"

fun is_str :: "json \<Rightarrow> bool" where
  "is_str (JStr _) = True"
| "is_str _ = False"

fun is_bool :: "json \<Rightarrow> bool" where
  "is_bool (JBool _) = True"
| "is_bool _ = False"

definition str_in :: "json \<Rightarrow> ustr list \<Rightarrow> bool" where
  "str_in v names = (case v of JStr s \<Rightarrow> s \<in> set names | _ \<Rightarrow> False)"

section \<open>One entry\<close>

definition n_problems :: "nat \<Rightarrow> (ustr \<times> json) list \<Rightarrow> problem list" where
  "n_problems index act =
     (case field act ''n'' of
        None \<Rightarrow> []
      | Some (JInt n) \<Rightarrow> if n \<noteq> int index + 1 then [N_NOT_CONTIGUOUS index n] else []
      | Some v \<Rightarrow> [N_NOT_INTEGER index v])"

definition kind_problems :: "nat \<Rightarrow> (ustr \<times> json) list \<Rightarrow> problem list" where
  "kind_problems index act =
     (case field act ''kind'' of
        None \<Rightarrow> []
      | Some v \<Rightarrow> if str_in v ENTRY_KINDS then [] else [KIND_UNKNOWN index v])"

definition label_problems :: "nat \<Rightarrow> (ustr \<times> json) list \<Rightarrow> problem list" where
  "label_problems index act =
     (case field act ''label'' of
        None \<Rightarrow> []
      | Some JNull \<Rightarrow> []
      | Some (JStr s) \<Rightarrow>
          if blank s \<or> length s > LABEL_MAX_CHARACTERS then [LABEL_INVALID index] else []
      | Some _ \<Rightarrow> [LABEL_INVALID index])"

definition cites_problems :: "nat \<Rightarrow> (ustr \<times> json) list \<Rightarrow> problem list" where
  "cites_problems index act =
     (case field act ''cites'' of
        None \<Rightarrow> []
      | Some (JList vs) \<Rightarrow> if list_all is_str vs then [] else [CITES_INVALID index]
      | Some _ \<Rightarrow> [CITES_INVALID index])"

definition text_problems :: "nat \<Rightarrow> (ustr \<times> json) list \<Rightarrow> problem list" where
  "text_problems index act =
     (case field act ''text'' of
        None \<Rightarrow> []
      | Some v \<Rightarrow> if is_str v then [] else [TEXT_INVALID index])"

definition flag_problems :: "nat \<Rightarrow> (ustr \<times> json) list \<Rightarrow> problem list" where
  "flag_problems index act =
     concat (map (\<lambda>flag. case field act flag of
        None \<Rightarrow> []
      | Some v \<Rightarrow> if is_bool v then [] else [FLAG_INVALID index flag]) CONTINUATION_FLAGS)"

definition act_problems :: "nat \<Rightarrow> json \<Rightarrow> problem list" where
  "act_problems index v =
     (case v of
        JObj act \<Rightarrow>
          let missing = sorted_set (filter (\<lambda>k. k \<notin> set (map fst act)) (map u ACT_REQUIRED));
              extra = sorted_set (filter (\<lambda>k. k \<notin> set (map u ACT_FIELDS)) (map fst act))
          in (if missing \<noteq> [] then [ACT_FIELD_MISSING index missing] else []) @
             (if extra \<noteq> [] then [ACT_FIELD_UNKNOWN index extra] else []) @
             n_problems index act @ kind_problems index act @ label_problems index act @
             cites_problems index act @ text_problems index act @ flag_problems index act
      | _ \<Rightarrow> [ACT_NOT_OBJECT index])"

definition set_aside_problems :: "nat \<Rightarrow> json \<Rightarrow> problem list" where
  "set_aside_problems index v =
     (case v of
        JObj kvs \<Rightarrow>
          if \<not> keys_are kvs SET_ASIDE_FIELDS then [SET_ASIDE_FIELDS_INVALID index]
          else (case (field kvs ''id'', field kvs ''reason'') of
                  (Some (JStr _), Some (JStr _)) \<Rightarrow> []
                | _ \<Rightarrow> [SET_ASIDE_STRINGS_INVALID index])
      | _ \<Rightarrow> [SET_ASIDE_FIELDS_INVALID index])"

section \<open>The answer\<close>

fun indexed :: "nat \<Rightarrow> (nat \<Rightarrow> 'a \<Rightarrow> 'b list) \<Rightarrow> 'a list \<Rightarrow> 'b list" where
  "indexed i f [] = []"
| "indexed i f (x # xs) = f i x @ indexed (Suc i) f xs"

definition field_problem :: "(ustr \<times> json) list \<Rightarrow> string \<Rightarrow> ustr list \<Rightarrow> (json \<Rightarrow> problem) \<Rightarrow> problem list" where
  "field_problem kvs name names mk =
     (case field kvs name of
        None \<Rightarrow> []
      | Some v \<Rightarrow> if str_in v names then [] else [mk v])"

definition grammar_problems :: "json \<Rightarrow> problem list" where
  "grammar_problems answer =
     (case answer of
        JObj kvs \<Rightarrow>
          if \<not> (keys_are kvs ENTRIES_TOP_FIELDS \<or> keys_are kvs REASK_ENTRIES_TOP_FIELDS)
          then [TOP_FIELDS (sorted_set (map fst kvs))]
          else
            field_problem kvs ''page_type'' PAGE_TYPES PAGE_TYPE_UNKNOWN @
            field_problem kvs ''writing'' WRITINGS WRITING_UNKNOWN @
            (case field kvs ''entries'' of
               Some (JList acts) \<Rightarrow> indexed 0 act_problems acts
             | _ \<Rightarrow> [ENTRIES_NOT_LIST]) @
            (case field kvs ''set_aside'' of
               Some (JList es) \<Rightarrow> indexed 0 set_aside_problems es
             | _ \<Rightarrow> [SET_ASIDE_NOT_LIST])
      | _ \<Rightarrow> [NOT_OBJECT])"

definition text_field :: "(ustr \<times> json) list \<Rightarrow> string \<Rightarrow> ustr option" where
  "text_field kvs name = (case field kvs name of Some (JStr s) \<Rightarrow> Some s | _ \<Rightarrow> None)"

text \<open>The two values are texts in every answer inside the grammar.\<close>

definition stated_page_type :: "json option \<Rightarrow> ustr option \<times> ustr option" where
  "stated_page_type answer =
     (case answer of
        Some (JObj kvs) \<Rightarrow> (text_field kvs ''page_type'', text_field kvs ''writing'')
      | _ \<Rightarrow> (None, None))"

section \<open>Continuation flags off the edge\<close>

definition flag_set :: "(ustr \<times> json) list \<Rightarrow> string \<Rightarrow> bool" where
  "flag_set act flag \<longleftrightarrow> field act flag = Some (JBool True)"

definition stray_flags ::
  "nat \<Rightarrow> nat option \<Rightarrow> nat option \<Rightarrow> nat \<Rightarrow> bool \<Rightarrow> (ustr \<times> json) list \<Rightarrow> string list" where
  "stray_flags count first_act_i last_act_i index is_act act =
     (let stray = (\<lambda>flag edge position. flag_set act flag \<and>
             \<not> (if is_act then edge = Some index else index = position))
      in (if stray ''continues_from_previous_page'' first_act_i 0
          then [''continues_from_previous_page''] else []) @
         (if stray ''continues_to_next_page'' last_act_i (count - 1)
          then [''continues_to_next_page''] else []))"

definition stray_continuation_flags :: "json list \<Rightarrow> (nat \<times> string list) list result" where
  "stray_continuation_flags acts =
     (let objects = indexed 0 (\<lambda>i v. case v of JObj kvs \<Rightarrow> [(i, kvs)] | _ \<Rightarrow> []) acts in
      rbind (rmap (\<lambda>(i, kvs). rbind (is_act_class (field kvs ''kind'')) (\<lambda>b. Inr (i, b, kvs))) objects) (\<lambda>entries.
        let edges = edge_acts (\<lambda>(i, is_act, kvs). is_act) entries;
            first_i = map_option (fst \<circ> fst) edges;
            last_i = map_option (fst \<circ> snd) edges
        in Inr (concat (map (\<lambda>(i, is_act, kvs).
             let flags = stray_flags (length acts) first_i last_i i is_act kvs
             in if flags = [] then [] else [(i, flags)]) entries))))"

section \<open>Grading a reply\<close>

definition PARSED :: ustr where "PARSED = u ''parsed''"
definition MALFORMED :: ustr where "MALFORMED = u ''malformed''"

type_synonym graded = "ustr \<times> json option \<times> problem list"

definition graded :: "json \<Rightarrow> problem list \<Rightarrow> graded" where
  "graded value problems =
     (let ps = (if problems = [] then grammar_problems value else problems)
      in if ps \<noteq> [] then (MALFORMED, None, ps) else (PARSED, Some value, []))"

definition parse_page_answer :: "ustr option \<Rightarrow> graded" where
  "parse_page_answer raw =
     (case decode_json_reply raw of (value, problems) \<Rightarrow> graded value (map DECODE problems))"

section \<open>The one repair\<close>

definition GRAMMAR_KEYS :: "ustr list" where
  "GRAMMAR_KEYS = map u (ENTRIES_TOP_FIELDS @ ACT_FIELDS @ SET_ASIDE_FIELDS)"

definition key_char :: "int \<Rightarrow> bool" where
  "key_char c \<longleftrightarrow> 97 \<le> c \<and> c \<le> 122 \<or> c = 95"

text \<open>The bare grammar key at the head of a text, when one stands there before a colon.\<close>

definition bare_key :: "ustr \<Rightarrow> ustr option" where
  "bare_key s =
     (let word = takeWhile key_char s
      in if word \<in> set GRAMMAR_KEYS \<and> take 1 (skip_ws (drop (length word) s)) = [58]
         then Some word else None)"

lemma bare_key_nonempty: "bare_key s = Some w \<Longrightarrow> w \<noteq> []"
  by (auto simp: bare_key_def GRAMMAR_KEYS_def u_def ENTRIES_TOP_FIELDS_def ACT_FIELDS_def
      ACT_REQUIRED_def CONTINUATION_FLAGS_def SET_ASIDE_FIELDS_def Let_def split: if_splits)

function quote_keys :: "ustr \<Rightarrow> bool \<Rightarrow> bool \<Rightarrow> bool \<Rightarrow> ustr \<times> ustr list" where
  "quote_keys [] in_string escaped expecting = ([], [])"
| "quote_keys (c # cs) in_string escaped expecting =
     (if in_string then
        (let (out, keys) =
           (if escaped then quote_keys cs True False expecting
            else if c = 92 then quote_keys cs True True expecting
            else if c = 34 then quote_keys cs False False expecting
            else quote_keys cs True False expecting)
         in (c # out, keys))
      else
        (case (if expecting \<and> key_char c then bare_key (c # cs) else None) of
           Some word \<Rightarrow>
             (let (out, keys) = quote_keys (drop (length word) (c # cs)) False escaped False
              in (34 # word @ 34 # out, word # keys))
         | None \<Rightarrow>
             (let (out, keys) = quote_keys cs (c = 34) escaped
                 (if c \<in> set JSON_WHITESPACE then expecting else c = 123 \<or> c = 44)
              in (c # out, keys))))"
  by pat_completeness auto
termination
  by (relation "measure (\<lambda>(s, _). length s)")
    (auto split: if_splits dest!: bare_key_nonempty intro: diff_less_Suc)

definition quote_bare_keys :: "ustr \<Rightarrow> ustr \<times> ustr list" where
  "quote_bare_keys text = quote_keys text False False False"

record repair =
  repair_keys :: int
  repair_names :: "ustr list"

definition parse_page_answer_repaired ::
  "ustr option \<Rightarrow> ustr \<times> json option \<times> problem list \<times> repair list" where
  "parse_page_answer_repaired raw =
     (let (value, problems) = decode_json_reply raw;
          as_is = (case graded value (map DECODE problems) of (st, a, ps) \<Rightarrow> (st, a, ps, []))
      in case raw of
           None \<Rightarrow> as_is
         | Some text \<Rightarrow>
             if problems = [NOT_JSON] then
               (case quote_bare_keys text of (repaired, keys) \<Rightarrow>
                  if keys = [] then as_is
                  else (case decode repaired of (v, ps) \<Rightarrow>
                    if ps \<noteq> [] then as_is
                    else (case graded v [] of (st, a, ps') \<Rightarrow>
                      (st, a, ps',
                       [\<lparr>repair_keys = int (length keys), repair_names = sorted_set keys\<rparr>]))))
             else as_is)"

section \<open>The typed reading\<close>

text \<open>
  What \<open>validate_answer\<close> reads of an answer inside the grammar: a field that is missing or
  of another type would raise there, so the reading is partial; it is total on every answer
  without grammar problems.
\<close>

record raw_entry =
  raw_n :: int
  raw_kind :: ustr
  raw_label :: "ustr option"
  raw_cites :: "ustr list"
  raw_text :: ustr
  raw_from_previous :: bool
  raw_to_next :: bool

record answer =
  ans_entries :: "raw_entry list"
  ans_set_aside :: "(ustr \<times> ustr) list"

definition list_field :: "(ustr \<times> json) list \<Rightarrow> string \<Rightarrow> json list option" where
  "list_field kvs name = (case field kvs name of Some (JList vs) \<Rightarrow> Some vs | _ \<Rightarrow> None)"

definition bool_field :: "(ustr \<times> json) list \<Rightarrow> string \<Rightarrow> bool option" where
  "bool_field kvs name = (case field kvs name of Some (JBool b) \<Rightarrow> Some b | _ \<Rightarrow> None)"

definition int_field :: "(ustr \<times> json) list \<Rightarrow> string \<Rightarrow> int option" where
  "int_field kvs name = (case field kvs name of Some (JInt n) \<Rightarrow> Some n | _ \<Rightarrow> None)"

fun str_of :: "json \<Rightarrow> ustr option" where
  "str_of (JStr s) = Some s"
| "str_of _ = None"

definition all_some :: "'a option list \<Rightarrow> 'a list option" where
  "all_some xs = (if None \<in> set xs then None else Some (map the xs))"

definition read_entry :: "json \<Rightarrow> raw_entry option" where
  "read_entry v =
     (case v of
        JObj act \<Rightarrow>
          (case (int_field act ''n'', text_field act ''kind'',
                 Option.bind (list_field act ''cites'') (\<lambda>vs. all_some (map str_of vs)),
                 text_field act ''text'', bool_field act ''continues_from_previous_page'',
                 bool_field act ''continues_to_next_page'') of
             (Some n, Some k, Some cs, Some t, Some f, Some g) \<Rightarrow>
               Some \<lparr>raw_n = n, raw_kind = k, raw_label = text_field act ''label'', raw_cites = cs,
                     raw_text = t, raw_from_previous = f, raw_to_next = g\<rparr>
           | _ \<Rightarrow> None)
      | _ \<Rightarrow> None)"

definition read_set_aside :: "json \<Rightarrow> (ustr \<times> ustr) option" where
  "read_set_aside v =
     (case v of
        JObj kvs \<Rightarrow>
          (case (text_field kvs ''id'', text_field kvs ''reason'') of
             (Some i, Some r) \<Rightarrow> Some (i, r)
           | _ \<Rightarrow> None)
      | _ \<Rightarrow> None)"

definition read_answer :: "json \<Rightarrow> answer option" where
  "read_answer v =
     (case v of
        JObj kvs \<Rightarrow>
          (case (Option.bind (list_field kvs ''entries'') (\<lambda>vs. all_some (map read_entry vs)),
                 Option.bind (list_field kvs ''set_aside'') (\<lambda>vs. all_some (map read_set_aside vs))) of
             (Some es, Some xs) \<Rightarrow> Some \<lparr>ans_entries = es, ans_set_aside = xs\<rparr>
           | _ \<Rightarrow> None)
      | _ \<Rightarrow> None)"

end
