(* ===== verification/Graded.thy ===== *)
theory Graded
  imports Grammar "HOL-Library.Sublist"
begin

text \<open>
  What a graded answer is: a reply graded \<open>parsed\<close> reads as a typed answer whose entries are
  numbered in order, and the one repair changes nothing but the quotes around grammar keys.
\<close>

section \<open>An entry without problems\<close>

lemma is_str_iff: "is_str v \<longleftrightarrow> (\<exists>s. v = JStr s)"
  by (cases v) auto

lemma act_problems_nil:
  assumes "act_problems i v = []"
  obtains act where "v = JObj act" "\<And>name. name \<in> set ACT_REQUIRED \<Longrightarrow> field act name \<noteq> None"
    "set (map fst act) \<subseteq> set (map u ACT_FIELDS)" "n_problems i act = []" "kind_problems i act = []"
    "label_problems i act = []" "cites_problems i act = []" "text_problems i act = []"
    "flag_problems i act = []"
proof -
  from assms obtain act where v: "v = JObj act" by (cases v) (auto simp: act_problems_def)
  let ?missing = "filter (\<lambda>k. k \<notin> set (map fst act)) (map u ACT_REQUIRED)"
  let ?extra = "filter (\<lambda>k. k \<notin> set (map u ACT_FIELDS)) (map fst act)"
  from assms v have "(if sorted_set ?missing \<noteq> [] then [ACT_FIELD_MISSING i (sorted_set ?missing)] else []) = []"
    and "(if sorted_set ?extra \<noteq> [] then [ACT_FIELD_UNKNOWN i (sorted_set ?extra)] else []) = []"
    and probs: "n_problems i act = []" "kind_problems i act = []"
    "label_problems i act = []" "cites_problems i act = []" "text_problems i act = []"
    "flag_problems i act = []"
    by (simp_all only: act_problems_def json.case Let_def append_is_Nil_conv)
  then have m: "?missing = []" and e: "?extra = []"
    by (metis list.distinct(1) sorted_set_Nil_iff)+
  from m have "field act name \<noteq> None" if "name \<in> set ACT_REQUIRED" for name
    using that by (auto simp: filter_empty_conv field_def map_of_eq_None_iff)
  moreover from e have "set (map fst act) \<subseteq> set (map u ACT_FIELDS)"
    by (metis filter_empty_conv subsetI)
  ultimately show thesis using that v probs by blast
qed

lemma all_some_map:
  "\<forall>x \<in> set xs. f x \<noteq> None \<Longrightarrow> all_some (map f xs) = Some (map (\<lambda>x. the (f x)) xs)"
  by (auto simp: all_some_def comp_def)

definition valid_label :: "ustr option \<Rightarrow> bool" where
  "valid_label l = (case l of None \<Rightarrow> True | Some s \<Rightarrow> \<not> blank s \<and> length s \<le> LABEL_MAX_CHARACTERS)"

lemma read_entry_total:
  assumes "act_problems i v = []"
  shows "\<exists>e. read_entry v = Some e \<and> raw_n e = int i + 1 \<and> raw_kind e \<in> set ENTRY_KINDS \<and>
    valid_label (raw_label e)"
proof -
  obtain act where v: "v = JObj act"
    and req: "\<And>name. name \<in> set ACT_REQUIRED \<Longrightarrow> field act name \<noteq> None"
    and probs: "n_problems i act = []" "kind_problems i act = []"
      "label_problems i act = []" "cites_problems i act = []" "text_problems i act = []"
      "flag_problems i act = []"
    using act_problems_nil [OF assms] by metis
  have n: "int_field act ''n'' = Some (int i + 1)"
    using req [of "''n''"] probs(1)
    by (auto simp: ACT_REQUIRED_def n_problems_def int_field_def split: json.splits if_splits)
  obtain k where k: "text_field act ''kind'' = Some k" "k \<in> set ENTRY_KINDS"
    using req [of "''kind''"] probs(2)
    by (auto simp: ACT_REQUIRED_def kind_problems_def text_field_def str_in_def
        split: json.splits if_splits)
  obtain vs where vs: "list_field act ''cites'' = Some vs" "list_all is_str vs"
    using req [of "''cites''"] probs(4)
    by (auto simp: ACT_REQUIRED_def cites_problems_def list_field_def split: json.splits if_splits)
  have "str_of x \<noteq> None" if "x \<in> set vs" for x
    using vs(2) that by (cases x) (auto simp: list_all_iff)
  from all_some_map [of vs str_of] this obtain cs where
    cs: "Option.bind (list_field act ''cites'') (\<lambda>vs. all_some (map str_of vs)) = Some cs"
    using vs(1) by auto
  obtain t where t: "text_field act ''text'' = Some t"
    using req [of "''text''"] probs(5)
    by (auto simp: ACT_REQUIRED_def text_problems_def text_field_def is_str_iff split: if_splits)
  have flag: "\<exists>b. bool_field act name = Some b" if "name \<in> set CONTINUATION_FLAGS" for name
  proof -
    from that req obtain w where w: "field act name = Some w"
      by (fastforce simp: ACT_REQUIRED_def)
    from probs(6) that have "(case field act name of None \<Rightarrow> []
      | Some v \<Rightarrow> if is_bool v then [] else [FLAG_INVALID i name]) = []"
      unfolding flag_problems_def concat_eq_Nil_conv by simp
    with w show ?thesis by (cases w) (auto simp: bool_field_def)
  qed
  obtain f g where fg: "bool_field act ''continues_from_previous_page'' = Some f"
    "bool_field act ''continues_to_next_page'' = Some g"
    using flag [of "''continues_from_previous_page''"] flag [of "''continues_to_next_page''"]
    by (auto simp: CONTINUATION_FLAGS_def)
  have "valid_label (text_field act ''label'')"
    using probs(3) by (auto simp: label_problems_def valid_label_def text_field_def
        split: option.splits json.splits if_splits)
  then show ?thesis using v n k cs t fg by (simp add: read_entry_def)
qed

lemma read_set_aside_total: "set_aside_problems i v = [] \<Longrightarrow> \<exists>p. read_set_aside v = Some p"
  by (auto simp: set_aside_problems_def read_set_aside_def text_field_def
      split: json.splits if_splits option.splits)

lemma indexed_nil: "indexed i f xs = [] \<longleftrightarrow> (\<forall>k < length xs. f (i + k) (xs ! k) = [])"
proof (induction xs arbitrary: i)
  case (Cons x xs)
  have "(\<forall>k < length (x # xs). f (i + k) ((x # xs) ! k) = []) \<longleftrightarrow>
      f i x = [] \<and> (\<forall>k < length xs. f (Suc i + k) (xs ! k) = [])"
    by (auto simp: less_Suc_eq_0_disj)
  with Cons show ?case by simp
qed simp

section \<open>An answer without problems\<close>

definition well_formed_answer :: "answer \<Rightarrow> bool" where
  "well_formed_answer a \<longleftrightarrow> map raw_n (ans_entries a) = [1..int (length (ans_entries a))] \<and>
     (\<forall>e \<in> set (ans_entries a). raw_kind e \<in> set ENTRY_KINDS \<and> valid_label (raw_label e))"

lemma grammar_reads:
  assumes "grammar_problems v = []"
  shows "\<exists>a. read_answer v = Some a \<and> well_formed_answer a"
proof -
  from assms obtain kvs acts xs where v: "v = JObj kvs"
    and acts: "field kvs ''entries'' = Some (JList acts)" "indexed 0 act_problems acts = []"
    and xs: "field kvs ''set_aside'' = Some (JList xs)" "indexed 0 set_aside_problems xs = []"
    by (auto simp: grammar_problems_def split: json.splits if_splits option.splits)
  let ?es = "map (\<lambda>x. the (read_entry x)) acts"
  have e: "\<exists>e. read_entry (acts ! k) = Some e \<and> raw_n e = int k + 1 \<and>
      raw_kind e \<in> set ENTRY_KINDS \<and> valid_label (raw_label e)" if "k < length acts" for k
    using acts(2) that read_entry_total [of k "acts ! k"] by (simp add: indexed_nil)
  have "read_entry x \<noteq> None" if "x \<in> set acts" for x
    using e that by (metis in_set_conv_nth option.distinct(1))
  then have es: "all_some (map read_entry acts) = Some ?es" by (intro all_some_map) blast
  have "read_set_aside x \<noteq> None" if "x \<in> set xs" for x
  proof -
    from that obtain k where "k < length xs" "xs ! k = x" by (meson in_set_conv_nth)
    with xs(2) have "set_aside_problems k x = []" by (auto simp: indexed_nil)
    from read_set_aside_total [OF this] show ?thesis by auto
  qed
  then have ss: "all_some (map read_set_aside xs) = Some (map (\<lambda>x. the (read_set_aside x)) xs)"
    by (intro all_some_map) blast
  have ns: "map raw_n ?es = [1..int (length ?es)]"
  proof (intro nth_equalityI)
    show "map raw_n ?es ! k = [1..int (length ?es)] ! k" if "k < length (map raw_n ?es)" for k
    proof -
      from that e [of k] have "map raw_n ?es ! k = int k + 1" by auto
      then show ?thesis using that by (simp add: nth_upto)
    qed
  qed simp
  have "raw_kind x \<in> set ENTRY_KINDS \<and> valid_label (raw_label x)" if "x \<in> set ?es" for x
  proof -
    from that obtain k where "k < length acts" "x = the (read_entry (acts ! k))"
      by (auto simp: in_set_conv_nth)
    with e [of k] show ?thesis by auto
  qed
  with ns show ?thesis using v acts(1) xs(1) es ss
    by (auto simp: read_answer_def list_field_def well_formed_answer_def)
qed

section \<open>The repair\<close>

text \<open>Whether a text leaves off inside a string, and whether its last character but white space opens a member.\<close>

definition string_char :: "int \<Rightarrow> bool \<times> bool \<Rightarrow> bool \<times> bool" where
  "string_char c st =
     (case st of (inside, escaped) \<Rightarrow>
        if \<not> inside then (c = 34, False) else if escaped then (True, False) else (c \<noteq> 34, c = 92))"

definition string_state :: "ustr \<Rightarrow> bool \<times> bool" where
  "string_state before = fold string_char before (False, False)"

definition after_opener :: "ustr \<Rightarrow> bool" where
  "after_opener before \<longleftrightarrow> take 1 (skip_ws (rev before)) \<in> {[123], [44]}"

definition key_stands :: "ustr \<Rightarrow> ustr \<Rightarrow> bool" where
  "key_stands before s \<longleftrightarrow> \<not> fst (string_state before) \<and> after_opener before \<and> bare_key s \<noteq> None"

text \<open>A text cut at its bare keys: each gap with the key after it, and what follows the last key.\<close>

definition plain :: "(ustr \<times> ustr) list \<Rightarrow> ustr \<Rightarrow> ustr" where
  "plain cuts tail = concat (map (\<lambda>(gap, word). gap @ word) cuts) @ tail"

definition requoted :: "(ustr \<times> ustr) list \<Rightarrow> ustr \<Rightarrow> ustr" where
  "requoted cuts tail = concat (map (\<lambda>(gap, word). gap @ 34 # word @ [34]) cuts) @ tail"

text \<open>\<open>cut_at_keys\<close>: the cuts are made at every place where a bare key stands, and at no other.\<close>

definition keyless :: "ustr \<Rightarrow> ustr \<Rightarrow> ustr \<Rightarrow> bool" where
  "keyless before gap s \<longleftrightarrow> (\<forall>k < length gap. \<not> key_stands (before @ take k gap) (drop k gap @ s))"

fun cut_at_keys :: "ustr \<Rightarrow> (ustr \<times> ustr) list \<Rightarrow> ustr \<Rightarrow> bool" where
  "cut_at_keys before [] tail \<longleftrightarrow> keyless before tail []"
| "cut_at_keys before ((gap, word) # cuts) tail \<longleftrightarrow>
     keyless before gap (word @ plain cuts tail) \<and> key_stands (before @ gap) (word @ plain cuts tail) \<and>
     bare_key (word @ plain cuts tail) = Some word \<and> cut_at_keys (before @ gap @ word) cuts tail"

lemma keyless_Cons: "keyless before (c # gap) s \<longleftrightarrow> \<not> key_stands before (c # gap @ s) \<and> keyless (before @ [c]) gap s"
  by (auto simp: keyless_def less_Suc_eq_0_disj)

lemma cut_one_more:
  assumes "cut_at_keys (before @ [c]) cuts tail" "\<not> key_stands before (c # plain cuts tail)"
  shows "\<exists>cuts' tail'. plain cuts' tail' = c # plain cuts tail \<and> requoted cuts' tail' = c # requoted cuts tail \<and>
    map snd cuts' = map snd cuts \<and> cut_at_keys before cuts' tail'"
proof (cases cuts)
  case Nil
  with assms show ?thesis by (intro exI [of _ "[]"] exI [of _ "c # tail"]) (simp add: plain_def requoted_def keyless_Cons)
next
  case (Cons x cuts')
  with assms show ?thesis
    by (intro exI [of _ "(c # fst x, snd x) # cuts'"] exI [of _ tail])
      (cases x, simp add: plain_def requoted_def keyless_Cons)
qed

lemma bare_key_split:
  assumes "bare_key s = Some word"
  shows "s = word @ drop (length word) s" "word \<in> set GRAMMAR_KEYS" "list_all key_char word" "word \<noteq> []"
  using assms bare_key_nonempty [OF assms]
  by (auto simp: bare_key_def Let_def list_all_iff takeWhile_eq_take [symmetric] dest: set_takeWhileD split: if_splits)
    (metis append_eq_conv_conj takeWhile_eq_take)

lemma key_char_plain: "key_char c \<Longrightarrow> c \<noteq> 34 \<and> c \<noteq> 123 \<and> c \<noteq> 44 \<and> c \<notin> set JSON_WHITESPACE"
  by (auto simp: key_char_def JSON_WHITESPACE_def)

lemma after_opener_snoc:
  "after_opener (before @ [c]) \<longleftrightarrow> (if c \<in> set JSON_WHITESPACE then after_opener before else c = 123 \<or> c = 44)"
  by (auto simp: after_opener_def skip_ws_def JSON_WHITESPACE_def)

lemma string_state_snoc: "string_state (before @ [c]) = string_char c (string_state before)"
  by (simp add: string_state_def)

lemma escaped_inside: "snd (string_state before) \<Longrightarrow> fst (string_state before)"
  by (cases before rule: rev_cases)
    (auto simp: string_state_snoc string_state_def [of "[]"] string_char_def split: prod.splits if_splits)

lemma string_state_word: "list_all key_char word \<Longrightarrow> string_state before = (False, False) \<Longrightarrow> string_state (before @ word) = (False, False)"
  by (induction word arbitrary: before rule: rev_induct)
    (auto simp: string_state_snoc string_char_def key_char_plain simp flip: append_assoc)

lemma after_word: "list_all key_char word \<Longrightarrow> word \<noteq> [] \<Longrightarrow> \<not> after_opener (before @ word)"
  by (cases word rule: rev_cases) (auto simp: after_opener_snoc key_char_plain simp flip: append_assoc)

text \<open>The scanner's flags at a place are what the text before it says.\<close>

definition scanner_at :: "ustr \<Rightarrow> bool \<Rightarrow> bool \<Rightarrow> bool \<Rightarrow> bool" where
  "scanner_at before in_string escaped expecting \<longleftrightarrow>
     string_state before = (in_string, escaped) \<and> (expecting \<longleftrightarrow> \<not> in_string \<and> after_opener before)"

lemma quote_keys_cuts:
  assumes "scanner_at before in_string escaped expecting"
  shows "\<exists>cuts tail. s = plain cuts tail \<and> quote_keys s in_string escaped expecting = (requoted cuts tail, map snd cuts) \<and>
    cut_at_keys before cuts tail"
  using assms
proof (induction s in_string escaped expecting arbitrary: before rule: quote_keys.induct)
  case (1 in_string escaped expecting)
  show ?case by (intro exI [of _ "[]"]) (simp add: plain_def requoted_def keyless_def)
next
  case (2 c cs in_string escaped expecting)
  have step: ?case if r: "quote_keys (c # cs) in_string escaped expecting = (c # out, keys)"
    and ih: "\<exists>cuts tail. cs = plain cuts tail \<and> (out, keys) = (requoted cuts tail, map snd cuts) \<and> cut_at_keys (before @ [c]) cuts tail"
    and none: "\<not> key_stands before (c # cs)" for out keys
  proof -
    from ih obtain cuts tail where c: "cs = plain cuts tail" "out = requoted cuts tail" "keys = map snd cuts"
      "cut_at_keys (before @ [c]) cuts tail" by blast
    from cut_one_more [OF c(4)] none c(1) obtain cuts' tail' where
      "plain cuts' tail' = c # cs" "requoted cuts' tail' = c # out" "map snd cuts' = keys" "cut_at_keys before cuts' tail'"
      using c(2,3) by auto
    then show ?thesis unfolding r by (intro exI [of _ cuts'] exI [of _ tail']) simp
  qed
  have st: "string_state before = (in_string, escaped)" "expecting \<longleftrightarrow> \<not> in_string \<and> after_opener before"
    using "2.prems" by (simp_all add: scanner_at_def)
  show ?case
  proof (cases in_string)
    case True
    then have none: "\<not> key_stands before (c # cs)" using st by (simp add: key_stands_def)
    let ?in = "escaped \<or> c \<noteq> 34" and ?esc = "\<not> escaped \<and> c = 92"
    have next_at: "scanner_at (before @ [c]) ?in ?esc expecting"
      using st True by (auto simp: scanner_at_def string_state_snoc string_char_def after_opener_snoc JSON_WHITESPACE_def)
    obtain out keys where q: "quote_keys cs ?in ?esc expecting = (out, keys)" by force
    have r: "quote_keys (c # cs) in_string escaped expecting = (c # out, keys)"
      using True q by (cases escaped; cases "c = 92"; cases "c = 34") simp_all
    have "\<exists>cuts tail. cs = plain cuts tail \<and> quote_keys cs ?in ?esc expecting = (requoted cuts tail, map snd cuts) \<and>
        cut_at_keys (before @ [c]) cuts tail"
      using "2.IH"(1-4) [of "before @ [c]"] True next_at
      by (cases escaped; cases "c = 92"; cases "c = 34") simp_all
    with q have "\<exists>cuts tail. cs = plain cuts tail \<and> (out, keys) = (requoted cuts tail, map snd cuts) \<and> cut_at_keys (before @ [c]) cuts tail"
      by simp
    from step [OF r this none] show ?thesis .
  next
    case False
    have esc: "\<not> escaped" using escaped_inside [of before] st(1) False by auto
    show ?thesis
    proof (cases "if expecting \<and> key_char c then bare_key (c # cs) else None")
      case None
      have none: "\<not> key_stands before (c # cs)"
      proof
        assume "key_stands before (c # cs)"
        then obtain w where "expecting" "bare_key (c # cs) = Some w" using st False by (auto simp: key_stands_def)
        with bare_key_split [OF this(2)] None show False by (cases w) (auto split: if_splits)
      qed
      let ?exp = "if c \<in> set JSON_WHITESPACE then expecting else c = 123 \<or> c = 44"
      have next_at: "scanner_at (before @ [c]) (c = 34) escaped ?exp"
        using st False esc by (auto simp: scanner_at_def string_state_snoc string_char_def after_opener_snoc JSON_WHITESPACE_def)
      obtain out keys where q: "quote_keys cs (c = 34) escaped ?exp = (out, keys)" by force
      have r: "quote_keys (c # cs) in_string escaped expecting = (c # out, keys)" using False None q by simp
      from "2.IH"(5) [OF False None next_at] q
      have "\<exists>cuts tail. cs = plain cuts tail \<and> (out, keys) = (requoted cuts tail, map snd cuts) \<and> cut_at_keys (before @ [c]) cuts tail"
        by simp
      from step [OF r this none] show ?thesis .
    next
      case (Some word)
      from Some have b: "bare_key (c # cs) = Some word" "expecting" by (auto split: if_splits)
      define rest where "rest = drop (length word) (c # cs)"
      note w = bare_key_split [OF b(1), folded rest_def]
      have "scanner_at (before @ word) False escaped False"
        using st False esc string_state_word [OF w(3)] after_word [OF w(3,4)] by (simp add: scanner_at_def)
      from "2.IH"(6) [OF False Some, folded rest_def, OF this] obtain cuts tail where c: "rest = plain cuts tail"
        "quote_keys rest False escaped False = (requoted cuts tail, map snd cuts)" "cut_at_keys (before @ word) cuts tail"
        by blast
      have "quote_keys (c # cs) in_string escaped expecting = (requoted (([], word) # cuts) tail, map snd (([], word) # cuts))"
        using False Some c(2) by (simp add: rest_def requoted_def)
      moreover have "c # cs = plain (([], word) # cuts) tail" using w(1) c(1) by (simp add: plain_def)
      moreover have "cut_at_keys before (([], word) # cuts) tail"
        using c(1,3) b w(1) st False by (simp add: keyless_def key_stands_def)
      ultimately show ?thesis by blast
    qed
  qed
qed

lemma cut_keys_of_grammar: "cut_at_keys before cuts tail \<Longrightarrow> snd ` set cuts \<subseteq> set GRAMMAR_KEYS"
  by (induction before cuts tail rule: cut_at_keys.induct) (auto dest: bare_key_split(2))

text \<open>
  C9. The one repair quotes the bare keys and touches nothing else. Cut the reply at every place where
  a bare key stands, that is outside every string, right after an opening brace or a comma, a field name of the grammar before a
  colon, and at no other place: the repaired text is the same cuts with a quote before and after each key, the keys it
  names are those keys in order, and a reply with no bare key is unchanged.
\<close>

theorem quote_bare_keys_only_quotes:
  "(\<exists>cuts tail. reply = plain cuts tail \<and> cut_at_keys [] cuts tail \<and>
     quote_bare_keys reply = (requoted cuts tail, map snd cuts)) \<and>
   set (snd (quote_bare_keys reply)) \<subseteq> set GRAMMAR_KEYS \<and>
   (snd (quote_bare_keys reply) = [] \<longrightarrow> fst (quote_bare_keys reply) = reply)"
proof -
  have "scanner_at [] False False False" by (simp add: scanner_at_def string_state_def after_opener_def skip_ws_def)
  from quote_keys_cuts [OF this, of reply] obtain cuts tail where c: "reply = plain cuts tail" "cut_at_keys [] cuts tail"
    "quote_bare_keys reply = (requoted cuts tail, map snd cuts)" unfolding quote_bare_keys_def by blast
  then show ?thesis using cut_keys_of_grammar [OF c(2)] by (auto simp: plain_def requoted_def)
qed

theorem quote_bare_keys_only_quotes_witness:
  "quote_bare_keys (u ''{\"entries\": []}'') = (u ''{\"entries\": []}'', []) \<and>
   quote_bare_keys (u ''{entries: []}'') = (u ''{\"entries\": []}'', [u ''entries''])"
proof -
  have "snd (quote_bare_keys (u ''{\"entries\": []}'')) = []" by code_simp
  with quote_bare_keys_only_quotes [of "u ''{\"entries\": []}''"]
  have "quote_bare_keys (u ''{\"entries\": []}'') = (u ''{\"entries\": []}'', [])"
    by (metis prod.collapse)
  moreover have "quote_bare_keys (u ''{entries: []}'') = (u ''{\"entries\": []}'', [u ''entries''])"
    by code_simp
  ultimately show ?thesis by blast
qed

section \<open>A graded reply\<close>

lemma decode_ok: "decode s = (v, []) \<Longrightarrow> \<not> lone_surrogate v"
  by (auto simp: decode_def Let_def split: if_splits sum.splits decode_error.splits prod.splits)

lemma decode_json_reply_ok: "decode_json_reply raw = (v, []) \<Longrightarrow> \<not> lone_surrogate v"
  by (auto simp: decode_json_reply_def decode_ok split: option.splits if_splits)

definition graded_ok :: "ustr \<Rightarrow> json option \<Rightarrow> problem list \<Rightarrow> bool" where
  "graded_ok st ans ps \<longleftrightarrow>
     st = PARSED \<and> ps = [] \<and> (\<exists>v a. ans = Some v \<and> \<not> lone_surrogate v \<and>
       read_answer v = Some a \<and> well_formed_answer a) \<or>
     st = MALFORMED \<and> ps \<noteq> [] \<and> ans = None"

lemma graded_graded_ok:
  assumes "graded v ps = (st, ans, qs)" "ps = [] \<Longrightarrow> \<not> lone_surrogate v"
  shows "graded_ok st ans qs"
  using assms grammar_reads [of v]
  by (auto simp: graded_def graded_ok_def Let_def split: if_splits)

lemma repaired_cases:
  assumes "parse_page_answer_repaired raw = (st, ans, ps, rs)" "decode_json_reply raw = (v, problems)"
  shows "rs = [] \<and> graded v (map DECODE problems) = (st, ans, ps) \<or>
    (\<exists>reply w r. raw = Some reply \<and> problems = [NOT_JSON] \<and> rs = [r] \<and>
       decode (fst (quote_bare_keys reply)) = (w, []) \<and> graded w [] = (st, ans, ps))"
proof -
  obtain a b c where g: "graded v (map DECODE problems) = (a, b, c)" by (metis prod_cases3)
  show ?thesis
  proof (cases "raw = None \<or> problems \<noteq> [NOT_JSON]")
    case True
    with assms g show ?thesis by (cases raw) (auto simp: parse_page_answer_repaired_def)
  next
    case False
    then obtain reply where raw: "raw = Some reply" "problems = [NOT_JSON]" by auto
    obtain out keys where q: "quote_bare_keys reply = (out, keys)" by force
    obtain w qs where d: "decode out = (w, qs)" by force
    obtain a' b' c' where g': "graded w [] = (a', b', c')" by (metis prod_cases3)
    from assms raw q d g g' show ?thesis
      by (cases "keys = []"; cases "qs = []") (auto simp: parse_page_answer_repaired_def)
  qed
qed

text \<open>
  C10. Every reply is graded \<open>parsed\<close>, with an answer that reads as the typed answer of the
  grammar (entries numbered 1..k in order, every kind in the vocabulary, every label valid,
  no lone surrogate) and no problem, or \<open>malformed\<close> with at least one problem and no
  answer; the repair is made at most once, and only where the reply itself was malformed
  for being no JSON.
\<close>

theorem reply_parsed_or_malformed:
  assumes "parse_page_answer_repaired raw = (st, ans, ps, rs)"
  shows "graded_ok st ans ps \<and>
    (rs = [] \<and> parse_page_answer raw = (st, ans, ps) \<or>
     length rs = 1 \<and> parse_page_answer raw = (MALFORMED, None, [DECODE NOT_JSON]))"
proof -
  obtain v problems where d: "decode_json_reply raw = (v, problems)" by force
  have own: "graded_ok st' ans' ps'" if "graded v (map DECODE problems) = (st', ans', ps')" for st' ans' ps'
    using graded_graded_ok [OF that] decode_json_reply_ok [of raw v] d by simp
  have pa: "parse_page_answer raw = graded v (map DECODE problems)"
    by (simp add: parse_page_answer_def d)
  consider (as_is) "rs = []" "graded v (map DECODE problems) = (st, ans, ps)"
    | (repaired) reply w r where "raw = Some reply" "problems = [NOT_JSON]" "rs = [r]"
        "decode (fst (quote_bare_keys reply)) = (w, [])" "graded w [] = (st, ans, ps)"
    using repaired_cases [OF assms d] by blast
  then show ?thesis
  proof cases
    case as_is
    with own pa show ?thesis by simp
  next
    case repaired
    have "graded_ok st ans ps" using graded_graded_ok [OF repaired(5)] decode_ok [OF repaired(4)] by simp
    then show ?thesis using repaired pa by (simp add: graded_def Let_def)
  qed
qed

definition sample_reply :: ustr where
  "sample_reply = u ''{page_type: \"register-acts\", \"writing\": \"mixed\", \"entries\": [{\"n\": 1, \"kind\": \"act\", \"label\": null, \"cites\": [\"A1-A2\"], \"text\": \"Leon\", \"continues_from_previous_page\": false, \"continues_to_next_page\": true}], set_aside: []}''"

theorem reply_parsed_or_malformed_witness:
  "case parse_page_answer_repaired (Some sample_reply) of (st, ans, ps, rs) \<Rightarrow>
     st = PARSED \<and> length rs = 1 \<and> graded_ok st ans ps \<and>
     parse_page_answer (Some sample_reply) = (MALFORMED, None, [DECODE NOT_JSON])"
proof -
  obtain st ans ps rs where r: "parse_page_answer_repaired (Some sample_reply) = (st, ans, ps, rs)"
    by (metis prod_cases4)
  have "(case parse_page_answer_repaired (Some sample_reply) of (st, ans, ps, rs) \<Rightarrow>
      st = PARSED \<and> length rs = 1)" by code_simp
  with reply_parsed_or_malformed [OF r] r show ?thesis by auto
qed

end
