(* ===== verification/Answer.thy ===== *)
theory Answer
  imports Graded
begin

text \<open>
  The reading of a parsed answer against its feed, \<open>common/page_accounting.py\<close>: citations
  expanded to ids, detection ranges read where they can name no unread ink, shared units,
  placing ids, regions, the set-aside rules, duplicate regions, and a re-ask's answer
  combined with the first one. A lookup that may miss is a \<open>KeyError\<close>, an integer conversion
  Python refuses a \<open>ValueError\<close>. Problems are constructors with the fields of their records.
\<close>

section \<open>Citations\<close>

datatype cite_problem = UnknownId ustr | MalformedRange json | DetectionRange ustr

datatype place = InEntry int | InSetAside nat

datatype answer_problem =
    GrammarProblem problem
  | CiteProblem place cite_problem
  | SetAsideTwice ustr
  | CitedAndSetAside ustr
  | SetAsideWithoutReason ustr
  | ReaskContinuation int string

text \<open>\<open>list(dict.fromkeys(xs))\<close>: each value once, where it first stands.\<close>

fun unique :: "'a list \<Rightarrow> 'a list" where
  "unique [] = []"
| "unique (x # xs) = x # filter (\<lambda>y. y \<noteq> x) (unique xs)"

definition known :: "(ustr \<times> 'a) list \<Rightarrow> ustr \<Rightarrow> bool" where
  "known cands i \<longleftrightarrow> i \<in> set (map fst cands)"

definition expand_range ::
  "ustr \<Rightarrow> int \<Rightarrow> ustr \<Rightarrow> ustr \<Rightarrow> (ustr \<times> 'a) list \<Rightarrow> (ustr list \<times> cite_problem list) result" where
  "expand_range cite c m n cands =
     rbind (py_int m) (\<lambda>lo. rbind (py_int n) (\<lambda>hi.
       if lo > hi then Inr ([], [MalformedRange (JStr cite)])
       else if c \<in> set DETECTION_LETTERS then Inr ([], [DetectionRange cite])
       else
         let span = id_span c lo hi;
             missing = filter (\<lambda>i. \<not> known cands i) [hd span, last span]
         in if missing \<noteq> [] then Inr ([], map UnknownId missing) else Inr (span, [])))"

definition expand_cite ::
  "(ustr \<times> 'a) list \<Rightarrow> json \<Rightarrow> (ustr list \<times> cite_problem list) result" where
  "expand_cite cands v =
     (case v of
        JStr cite \<Rightarrow>
          if id_of cite \<noteq> None
          then Inr (if known cands cite then ([cite], []) else ([], [UnknownId cite]))
          else (case range_of cite of
                  None \<Rightarrow> Inr ([], [MalformedRange v])
                | Some (a, m, b, n) \<Rightarrow>
                    if a \<noteq> b then Inr ([], [MalformedRange v])
                    else expand_range cite a m n cands)
      | _ \<Rightarrow> Inr ([], [MalformedRange v]))"

definition expand_cites ::
  "json list \<Rightarrow> (ustr \<times> 'a) list \<Rightarrow> (ustr list \<times> cite_problem list) result" where
  "expand_cites cites cands =
     rbind (rmap (expand_cite cands) cites) (\<lambda>rs.
       Inr (unique (concat (map fst rs)), concat (map snd rs)))"

section \<open>Regions of an entry\<close>

definition candidate_box :: "candidates \<Rightarrow> ustr \<Rightarrow> box option result" where
  "candidate_box cands i = rget (KeyError ''candidates'') (map_of cands i)"

text \<open>\<open>candidates.get(i)\<close>: the box of an id that places an entry.\<close>

definition placing_box :: "candidates \<Rightarrow> ustr \<Rightarrow> box option" where
  "placing_box cands i = (case map_of cands i of Some (Some b) \<Rightarrow> Some b | _ \<Rightarrow> None)"

definition somes :: "'a option list \<Rightarrow> 'a list" where
  "somes xs = concat (map (\<lambda>x. case x of None \<Rightarrow> [] | Some y \<Rightarrow> [y]) xs)"

text \<open>Each box once, by its corners, in first-cited order.\<close>

definition region_boxes :: "ustr list \<Rightarrow> candidates \<Rightarrow> box list result" where
  "region_boxes cited_ids cands =
     rbind (rmap (candidate_box cands) cited_ids) (\<lambda>bs. Inr (unique (somes bs)))"

definition letter_of :: "ustr \<Rightarrow> int" where
  "letter_of i = (case i of [] \<Rightarrow> 0 | c # _ \<Rightarrow> c)"

definition witness_id :: "ustr \<Rightarrow> bool" where
  "witness_id i \<longleftrightarrow> letter_of i \<notin> set DETECTION_LETTERS"

definition range_ids :: "ustr \<Rightarrow> ustr list result" where
  "range_ids cite =
     (case range_of cite of
        None \<Rightarrow> Inl (KeyError ''match'')
      | Some (a, m, b, n) \<Rightarrow>
          rbind (py_int m) (\<lambda>lo. rbind (py_int n) (\<lambda>hi. Inr (id_span a lo hi))))"

text \<open>One problem of an entry: the ids it is read as, or the problem kept.\<close>

definition read_detection_range ::
  "candidates \<Rightarrow> policy \<Rightarrow> box list \<Rightarrow> cite_problem \<Rightarrow> (ustr list \<times> cite_problem list) result" where
  "read_detection_range cands p own_units problem =
     (case problem of
        DetectionRange cite \<Rightarrow>
          rbind (range_ids cite) (\<lambda>span.
            if \<not> known cands (hd span) \<or> \<not> known cands (last span) then Inr ([], [problem])
            else rbind (rmap (candidate_box cands) span) (\<lambda>boxes.
              let blocks = list_all (\<lambda>b. b = None) boxes;
                  lines_read = list_all (\<lambda>b. case b of
                     None \<Rightarrow> False | Some b \<Rightarrow> own_units \<noteq> [] \<and> is_inside p b own_units) boxes
              in if blocks \<or> lines_read then Inr (span, []) else Inr ([], [problem])))
      | _ \<Rightarrow> Inr ([], [problem]))"

definition covered_detection_ranges ::
  "ustr list \<Rightarrow> cite_problem list \<Rightarrow> candidates \<Rightarrow> policy \<Rightarrow> (ustr list \<times> cite_problem list) result" where
  "covered_detection_ranges cited_ids problems cands p =
     rbind (rmap (candidate_box cands) (filter witness_id cited_ids)) (\<lambda>own.
     rbind (rmap (read_detection_range cands p (somes own)) problems) (\<lambda>rs.
       Inr (unique (cited_ids @ concat (map fst rs)), concat (map snd rs))))"

text \<open>The placing witness units more than one entry cites.\<close>

definition shared_units :: "ustr list list \<Rightarrow> candidates \<Rightarrow> ustr list" where
  "shared_units cited cands =
     filter (\<lambda>i. witness_id i \<and> placing_box cands i \<noteq> None \<and>
        1 < length (filter (\<lambda>ids. i \<in> set ids) cited))
       (unique (concat cited))"

definition placing_ids :: "ustr list \<Rightarrow> ustr list \<Rightarrow> candidates \<Rightarrow> policy option \<Rightarrow> ustr list" where
  "placing_ids cited_ids shared cands p =
     (case p of
        None \<Rightarrow> cited_ids
      | Some p \<Rightarrow>
          let own = somes (map (placing_box cands) (filter (\<lambda>i. i \<notin> set shared) cited_ids)) in
          if own = [] then cited_ids
          else filter (\<lambda>i. i \<notin> set shared \<or>
                 \<not> list_all (\<lambda>b. is_inside p b (somes [placing_box cands i])) own) cited_ids)"

section \<open>The answer read\<close>

record entry =
  ent_n :: int
  ent_kind :: ustr
  ent_entry_kind :: ustr
  ent_placing_shared :: "(ustr \<times> box) list"
  ent_label :: "ustr option"
  ent_cites :: "ustr list"
  ent_cited_ids :: "ustr list"
  ent_region :: "box list"
  ent_union :: "box option"
  ent_text :: ustr
  ent_from_previous :: bool
  ent_to_next :: bool
  ent_attempt :: "int option"
  ent_reading_n :: "int option"

record validated =
  v_entries :: "entry list"
  v_set_aside :: "(ustr \<times> ustr) list"
  v_problems :: "answer_problem list"

definition expand_entry ::
  "candidates \<Rightarrow> policy option \<Rightarrow> raw_entry \<Rightarrow> (ustr list \<times> cite_problem list) result" where
  "expand_entry cands p raw =
     rbind (expand_cites (map JStr (raw_cites raw)) cands) (\<lambda>(ids, ps).
       case p of
         None \<Rightarrow> Inr (ids, ps)
       | Some p \<Rightarrow> covered_detection_ranges ids ps cands p)"

definition build_entry ::
  "candidates \<Rightarrow> policy option \<Rightarrow> ustr list \<Rightarrow> raw_entry \<Rightarrow> ustr list \<Rightarrow> entry result" where
  "build_entry cands p shared raw cited_ids =
     (let placing = placing_ids cited_ids shared cands p in
      rbind (region_boxes placing cands) (\<lambda>boxes.
      rbind (act_class (raw_kind raw)) (\<lambda>kind.
        Inr \<lparr>ent_n = raw_n raw, ent_kind = kind, ent_entry_kind = raw_kind raw,
             ent_placing_shared =
               somes (map (\<lambda>i. map_option (Pair i) (placing_box cands i))
                 (filter (\<lambda>i. i \<in> set shared) placing)),
             ent_label = raw_label raw, ent_cites = raw_cites raw, ent_cited_ids = cited_ids,
             ent_region = boxes, ent_union = union_box boxes, ent_text = raw_text raw,
             ent_from_previous = raw_from_previous raw, ent_to_next = raw_to_next raw,
             ent_attempt = None, ent_reading_n = None\<rparr>)))"

text \<open>The set-aside loop: the ids seen, the set-asides kept and the problems so far.\<close>

fun set_aside_ids ::
  "ustr list \<Rightarrow> ustr \<Rightarrow> ustr list \<Rightarrow> ustr list \<times> (ustr \<times> ustr) list \<Rightarrow>
     (ustr list \<times> (ustr \<times> ustr) list) \<times> answer_problem list" where
  "set_aside_ids cited why [] acc = (acc, [])"
| "set_aside_ids cited why (i # ids) (seen, aside) =
     (let ps = (if i \<in> set seen then [SetAsideTwice i] else []) @
               (if i \<in> set cited then [CitedAndSetAside i] else []) @
               (if blank why then [SetAsideWithoutReason i] else []);
          aside' = (if \<not> blank why \<and> i \<notin> set (map fst aside) then aside @ [(i, why)] else aside);
          (acc, qs) = set_aside_ids cited why ids (i # seen, aside')
      in (acc, ps @ qs))"

fun set_asides ::
  "candidates \<Rightarrow> ustr list \<Rightarrow> nat \<Rightarrow> (ustr \<times> ustr) list \<Rightarrow> ustr list \<times> (ustr \<times> ustr) list \<Rightarrow>
     ((ustr \<times> ustr) list \<times> answer_problem list) result" where
  "set_asides cands cited index [] (seen, aside) = Inr (aside, [])"
| "set_asides cands cited index ((i, why) # raws) acc =
     rbind (expand_cites [JStr i] cands) (\<lambda>(ids, ps).
       let (acc', qs) = set_aside_ids cited why ids acc in
       rbind (set_asides cands cited (Suc index) raws acc') (\<lambda>(aside, rs).
         Inr (aside, map (CiteProblem (InSetAside index)) ps @ qs @ rs)))"

definition read_parsed :: "answer \<Rightarrow> candidates \<Rightarrow> policy option \<Rightarrow> validated result" where
  "read_parsed a cands p =
     rbind (rmap (expand_entry cands p) (ans_entries a)) (\<lambda>expanded.
     let shared = shared_units (map fst expanded) cands;
         cite_problems = concat (map2 (\<lambda>raw x. map (CiteProblem (InEntry (raw_n raw))) (snd x))
           (ans_entries a) expanded) in
     rbind (rmap (\<lambda>(raw, x). build_entry cands p shared raw (fst x)) (zip (ans_entries a) expanded))
       (\<lambda>entries.
     rbind (set_asides cands (concat (map ent_cited_ids entries)) 0 (ans_set_aside a) ([], []))
       (\<lambda>(aside, ps).
     Inr \<lparr>v_entries = entries, v_set_aside = aside, v_problems = cite_problems @ ps\<rparr>)))"

text \<open>A field outside the typed reading would raise \<open>KeyError\<close>; the grammar leaves none.\<close>

definition validate_answer :: "json \<Rightarrow> candidates \<Rightarrow> policy option \<Rightarrow> validated result" where
  "validate_answer v cands p =
     (let grammar = grammar_problems v in
      if grammar \<noteq> [] then
        Inr \<lparr>v_entries = [], v_set_aside = [], v_problems = map GrammarProblem grammar\<rparr>
      else rbind (rget (KeyError ''answer'') (read_answer v)) (\<lambda>a. read_parsed a cands p))"

section \<open>A re-ask's answer\<close>

definition named_candidates :: "candidates \<Rightarrow> ustr list \<Rightarrow> candidates result" where
  "named_candidates cands named =
     (if named = [] \<or> \<not> distinct named then Inl (ContractError ''names no id, or one id twice'')
      else if \<not> list_all (\<lambda>i. placing_box cands i \<noteq> None) named
      then Inl (ContractError ''which the feed does not place'')
      else Inr (map (\<lambda>i. (i, placing_box cands i)) named))"

definition continuation_problems :: "entry \<Rightarrow> answer_problem list" where
  "continuation_problems e =
     (if ent_from_previous e then [ReaskContinuation (ent_n e) ''continues_from_previous_page''] else []) @
     (if ent_to_next e then [ReaskContinuation (ent_n e) ''continues_to_next_page''] else [])"

definition validate_reask_answer :: "json \<Rightarrow> candidates \<Rightarrow> ustr list \<Rightarrow> validated result" where
  "validate_reask_answer v cands named =
     rbind (named_candidates cands named) (\<lambda>asked.
     rbind (validate_answer v asked None) (\<lambda>r.
       Inr (r\<lparr>v_problems := v_problems r @ concat (map continuation_problems (v_entries r))\<rparr>)))"

record reading =
  rd_parse_state :: ustr
  rd_answer :: "json option"
  rd_finish :: "ustr option"
  rd_disposition :: ustr

definition finished_on_stop :: "reading \<Rightarrow> bool" where
  "finished_on_stop r \<longleftrightarrow> rd_finish r = Some (u ''stop'')"

record combined =
  c_stands :: bool
  c_problems :: "answer_problem list"
  c_entries :: "entry list"
  c_set_aside :: "(ustr \<times> ustr) list"

definition cited_by :: "entry list \<Rightarrow> ustr list" where
  "cited_by entries = concat (map ent_cited_ids entries)"

definition sorted_ids :: "ustr list \<Rightarrow> ustr list" where
  "sorted_ids ids = sort_key id_key (unique ids)"

definition across_problems :: "validated \<Rightarrow> validated \<Rightarrow> answer_problem list" where
  "across_problems fst_r snd_r =
     (let aside1 = map fst (v_set_aside fst_r); aside2 = map fst (v_set_aside snd_r) in
      map CitedAndSetAside (sorted_ids
        (filter (\<lambda>i. i \<in> set aside2) (cited_by (v_entries fst_r)) @
         filter (\<lambda>i. i \<in> set aside1) (cited_by (v_entries snd_r)))) @
      map SetAsideTwice (sorted_ids (filter (\<lambda>i. i \<in> set aside2) aside1)))"

definition add_entry :: "int \<Rightarrow> entry \<Rightarrow> entry" where
  "add_entry k e =
     e\<lparr>ent_n := k + ent_n e, ent_attempt := Some REASK_READING, ent_reading_n := Some (ent_n e)\<rparr>"

definition combined_answer :: "validated \<Rightarrow> reading \<Rightarrow> ustr list \<Rightarrow> candidates \<Rightarrow> combined result" where
  "combined_answer first_r reading named cands =
     (let empty = Inr \<lparr>v_entries = [], v_set_aside = [], v_problems = []\<rparr>;
          parsed = (rd_parse_state reading = PARSED \<and> rd_answer reading \<noteq> None) in
      rbind (case rd_answer reading of
               Some v \<Rightarrow> if parsed then validate_reask_answer v cands named else empty
             | None \<Rightarrow> empty) (\<lambda>second.
        let problems = v_problems second @ across_problems first_r second;
            stands = (parsed \<and> finished_on_stop reading \<and> problems = []);
            k = int (length (v_entries first_r))
        in Inr \<lparr>c_stands = stands, c_problems = problems,
             c_entries = (if stands then map (add_entry k) (sort_key ent_n (v_entries second)) else []),
             c_set_aside = (if stands then v_set_aside second else [])\<rparr>))"

section \<open>Duplicate regions\<close>

definition row_shared_units :: "entry \<Rightarrow> (ustr \<times> box) list" where
  "row_shared_units e = (if ent_entry_kind e \<in> set ROW_KINDS then ent_placing_shared e else [])"

definition compared_regions :: "entry \<Rightarrow> entry \<Rightarrow> box list \<times> box list" where
  "compared_regions e f =
     (let common = filter (\<lambda>i. i \<in> set (map fst (row_shared_units f))) (map fst (row_shared_units e))
      in if common = [] then (ent_region e, ent_region f)
         else let dropped = somes (map (map_of (ent_placing_shared e)) common)
              in (filter (\<lambda>b. b \<notin> set dropped) (ent_region e),
                  filter (\<lambda>b. b \<notin> set dropped) (ent_region f)))"

record duplicate =
  dup_ns :: "int list"
  dup_shared :: int
  dup_smaller :: int

definition duplicate_pair :: "policy \<Rightarrow> entry \<Rightarrow> entry \<Rightarrow> duplicate list" where
  "duplicate_pair p e f =
     (let (region, other) = compared_regions e f in
      if region = [] \<or> other = [] then []
      else let shared = shared_area region other;
               smaller = min (region_area region) (region_area other)
           in if shared * BASIS_POINTS > max_shared_share_bp p * smaller
              then [\<lparr>dup_ns = sort [ent_n e, ent_n f], dup_shared = shared, dup_smaller = smaller\<rparr>]
              else [])"

fun pairwise :: "('a \<Rightarrow> 'a \<Rightarrow> 'b list) \<Rightarrow> 'a list \<Rightarrow> 'b list" where
  "pairwise f [] = []"
| "pairwise f (x # xs) = concat (map (f x) xs) @ pairwise f xs"

definition duplicate_regions :: "entry list \<Rightarrow> policy \<Rightarrow> duplicate list" where
  "duplicate_regions entries p =
     sort_key dup_ns (pairwise (duplicate_pair p) (filter (\<lambda>e. ent_region e \<noteq> []) entries))"

record rows_shared =
  rs_id :: ustr
  rs_ns :: "int list"

definition rows_sharing_units :: "entry list \<Rightarrow> rows_shared list" where
  "rows_sharing_units entries =
     (let rows = fold (\<lambda>e. fold (\<lambda>i rows.
             AList.update i ((case map_of rows i of None \<Rightarrow> [] | Some ns \<Rightarrow> ns) @ [ent_n e]) rows)
             (map fst (row_shared_units e))) entries []
      in concat (map (\<lambda>(i, ns). if length ns > 1 then [\<lparr>rs_id = i, rs_ns = sort ns\<rparr>] else [])
           (sort_key (\<lambda>(i, ns). id_key i) rows)))"

end
