(* ===== verification/AnswerFacts.thy ===== *)
theory AnswerFacts
  imports Answer
begin

text \<open>
  What validating an answer guarantees. The client is \<open>validate_answer\<close>; what it needs of the
  provider of its candidates (\<open>feed_candidates\<close>) is the interface \<open>candidate_provider\<close>: each
  id once, every key an id, and every id of a range known when its ends are.
\<close>

section \<open>Lists\<close>

lemma set_unique [simp]: "set (unique xs) = set xs"
  by (induction xs) auto

lemma distinct_unique [simp]: "distinct (unique xs)"
  by (induction xs) auto

lemma set_somes: "y \<in> set (somes xs) \<longleftrightarrow> Some y \<in> set xs"
  by (induction xs) (auto simp: somes_def split: option.splits)

lemma somes_append: "somes (xs @ ws) = somes xs @ somes ws"
  by (simp add: somes_def)

lemma rbind_error: "rbind r f = Inl e \<longleftrightarrow> r = Inl e \<or> (\<exists>x. r = Inr x \<and> f x = Inl e)"
  by (cases r) auto

section \<open>Ranges\<close>

definition int_error :: err where
  "int_error = ValueError ''integer string conversion''"

lemma py_int_cases: "py_int ds = Inl int_error \<or> py_int ds = Inr (digits_value ds)"
  by (simp add: py_int_def int_error_def)

lemma py_int_error: "py_int ds = Inl e \<Longrightarrow> e = int_error"
  by (auto simp: py_int_def int_error_def split: if_splits)

lemma py_int_value: "py_int ds = Inr n \<Longrightarrow> n = digits_value ds"
  by (auto simp: py_int_def split: if_splits)

lemma range_of_SomeD:
  assumes "range_of s = Some (a, m, b, n)"
  shows "1 \<le> digits_value m" "1 \<le> digits_value n"
proof -
  from assms obtain l r where "id_of l = Some (a, m)" "id_of r = Some (b, n)"
    by (auto simp: range_of_def Let_def split: list.splits option.splits)
  from id_of_SomeD(3) [OF this(1)] id_of_SomeD(3) [OF this(2)]
  show "1 \<le> digits_value m" "1 \<le> digits_value n" .
qed

lemma id_span_ends:
  assumes "lo \<le> hi"
  shows "id_span c lo hi \<noteq> []" "hd (id_span c lo hi) = mk_id c lo" "last (id_span c lo hi) = mk_id c hi"
proof -
  have "[lo..hi] \<noteq> []" using assms by simp
  then show "id_span c lo hi \<noteq> []" by (simp add: id_span_def)
  show "hd (id_span c lo hi) = mk_id c lo" using assms by (simp add: id_span_def upto_rec1)
  have "[lo..hi] = [lo..hi - 1] @ [hi]" using assms by (rule upto_rec2)
  then show "last (id_span c lo hi) = mk_id c hi" by (simp add: id_span_def)
qed

text \<open>A range that reads: one letter, ascending, both ends convertible.\<close>

definition good_range :: "ustr \<Rightarrow> int \<Rightarrow> int \<Rightarrow> int \<Rightarrow> bool" where
  "good_range cite c lo hi \<longleftrightarrow>
     (\<exists>m n. range_of cite = Some (c, m, c, n) \<and> py_int m = Inr lo \<and> py_int n = Inr hi) \<and>
     1 \<le> lo \<and> lo \<le> hi"

text \<open>The ids a citation names.\<close>

definition names :: "ustr \<Rightarrow> ustr set" where
  "names cite =
     (if id_of cite \<noteq> None then {cite}
      else {i. \<exists>c lo hi. good_range cite c lo hi \<and> i \<in> set (id_span c lo hi)})"

lemma good_range_unique:
  "good_range cite c lo hi \<Longrightarrow> good_range cite d lo' hi' \<Longrightarrow> c = d \<and> lo = lo' \<and> hi = hi'"
  by (auto simp: good_range_def)

lemma names_range: "id_of cite = None \<Longrightarrow> good_range cite c lo hi \<Longrightarrow> names cite = set (id_span c lo hi)"
proof -
  assume i: "id_of cite = None" and g: "good_range cite c lo hi"
  have "good_range cite c' lo' hi' \<longleftrightarrow> c' = c \<and> lo' = lo \<and> hi' = hi" for c' lo' hi'
    using good_range_unique [OF g] g by blast
  with i show ?thesis by (simp add: names_def)
qed

section \<open>Expanding a citation\<close>

text \<open>What one citation gives: its ids, a problem, or the refused conversion.\<close>

lemma expand_cite_cases:
  assumes "expand_cite cands (JStr cite) = r"
  obtains "r = Inl int_error"
  | "r = Inr ([cite], [])" "id_of cite \<noteq> None" "known cands cite"
  | q ps where "r = Inr ([], q # ps)" "\<forall>c. DetectionRange c \<notin> set (q # ps)"
  | c lo hi where "r = Inr ([], [DetectionRange cite])" "good_range cite c lo hi"
      "c \<in> set DETECTION_LETTERS" "id_of cite = None"
  | c lo hi where "r = Inr (id_span c lo hi, [])" "good_range cite c lo hi"
      "known cands (mk_id c hi)" "id_of cite = None" "known cands (mk_id c lo)" "c \<notin> set DETECTION_LETTERS"
proof (cases "id_of cite")
  case (Some x)
  with assms that(2,3) show thesis by (cases "known cands cite") (auto simp: expand_cite_def)
next
  case None
  show thesis
  proof (cases "\<exists>a m n. range_of cite = Some (a, m, a, n)")
    case False
    with None assms have "r = Inr ([], [MalformedRange (JStr cite)])"
      by (auto simp: expand_cite_def split: option.splits)
    with that(3) show thesis by simp
  next
    case True
    then obtain a m n where rg: "range_of cite = Some (a, m, a, n)" by blast
    with None assms have r: "r = expand_range cite a m n cands" by (simp add: expand_cite_def)
    show thesis
    proof (cases "py_int m = Inl int_error \<or> py_int n = Inl int_error")
      case True
      with r that(1) show thesis
        using py_int_cases [of m] by (auto simp: expand_range_def)
    next
      case False
      let ?lo = "digits_value m" and ?hi = "digits_value n"
      from False have ints: "py_int m = Inr ?lo" "py_int n = Inr ?hi" using py_int_cases by blast+
      show thesis
      proof (cases "?lo > ?hi")
        case True
        with r ints that(3) show thesis by (simp add: expand_range_def)
      next
        case le: False
        then have g: "good_range cite a ?lo ?hi"
          using rg ints range_of_SomeD(1) [OF rg] by (auto simp: good_range_def)
        show thesis
        proof (cases "a \<in> set DETECTION_LETTERS")
          case True
          with r ints le g that(4) None show thesis by (simp add: expand_range_def)
        next
          case False
          let ?missing = "filter (\<lambda>i. \<not> known cands i) [mk_id a ?lo, mk_id a ?hi]"
          have r': "r = (if ?missing \<noteq> [] then Inr ([], map UnknownId ?missing)
              else Inr (id_span a ?lo ?hi, []))"
            using r ints le False id_span_ends [of ?lo ?hi a] by (simp add: expand_range_def Let_def)
          show thesis
          proof (cases "?missing = []")
            case True
            then have "known cands (mk_id a ?hi)" "known cands (mk_id a ?lo)" by (auto split: if_splits)
            with True r' g that(5) None False show thesis by simp
          next
            case False
            then obtain i js where "?missing = i # js" by (meson neq_Nil_conv)
            with r' False that(3) [of "UnknownId i" "map UnknownId js"] show thesis by auto
          qed
        qed
      qed
    qed
  qed
qed

lemma expand_cite_sound:
  assumes "expand_cite cands (JStr cite) = Inr (ids, ps)"
  shows "ps = [] \<Longrightarrow> set ids = names cite" "ps \<noteq> [] \<Longrightarrow> ids = []"
proof -
  have "(ps = [] \<longrightarrow> set ids = names cite) \<and> (ps \<noteq> [] \<longrightarrow> ids = [])"
    using assms
  proof (rule expand_cite_cases)
    fix c lo hi
    assume "Inr (ids, ps) = Inr (id_span c lo hi, [])" "good_range cite c lo hi" "id_of cite = None"
    then show ?thesis using names_range by simp
  qed (auto simp: names_def)
  then show "ps = [] \<Longrightarrow> set ids = names cite" "ps \<noteq> [] \<Longrightarrow> ids = []" by auto
qed

lemma expand_cite_error: "expand_cite cands (JStr cite) = Inl e \<Longrightarrow> e = int_error"
  by (erule expand_cite_cases) auto

lemma expand_cite_detection:
  assumes "expand_cite cands (JStr cite) = Inr (ids, ps)" "DetectionRange d \<in> set ps"
  shows "d = cite \<and> ps = [DetectionRange cite] \<and> id_of cite = None \<and> (\<exists>c lo hi. good_range cite c lo hi)"
  using assms(1) by (rule expand_cite_cases) (use assms(2) in auto)

lemma expand_cites_parts:
  assumes "expand_cites (map JStr cs) cands = Inr (ids, ps)"
  obtains rs where "length rs = length cs"
    "\<And>k. k < length cs \<Longrightarrow> expand_cite cands (JStr (cs ! k)) = Inr (rs ! k)"
    "ids = unique (concat (map fst rs))" "ps = concat (map snd rs)"
proof -
  from assms obtain rs where r: "rmap (expand_cite cands) (map JStr cs) = Inr rs"
    "ids = unique (concat (map fst rs))" "ps = concat (map snd rs)"
    by (auto simp: expand_cites_def result_simps)
  from rmap_nth [OF r(1)] r(2,3) show thesis by (intro that [of rs]) auto
qed

lemma expand_cites_error: "expand_cites (map JStr cs) cands = Inl e \<Longrightarrow> e = int_error"
  by (auto simp: expand_cites_def rbind_error dest!: rmap_error expand_cite_error)

lemma expand_cites_mem:
  assumes "expand_cites (map JStr cs) cands = Inr (ids, ps)"
  shows "distinct ids"
    "i \<in> set ids \<longleftrightarrow> (\<exists>cite \<in> set cs. \<exists>js qs. expand_cite cands (JStr cite) = Inr (js, qs) \<and> i \<in> set js)"
    "q \<in> set ps \<longleftrightarrow> (\<exists>cite \<in> set cs. \<exists>js qs. expand_cite cands (JStr cite) = Inr (js, qs) \<and> q \<in> set qs)"
proof -
  obtain rs where rs: "length rs = length cs"
    "\<And>k. k < length cs \<Longrightarrow> expand_cite cands (JStr (cs ! k)) = Inr (rs ! k)"
    "ids = unique (concat (map fst rs))" "ps = concat (map snd rs)"
    using expand_cites_parts [OF assms] by blast
  have mem: "(\<exists>r \<in> set rs. P r) \<longleftrightarrow> (\<exists>cite \<in> set cs. \<exists>js qs. expand_cite cands (JStr cite) = Inr (js, qs) \<and> P (js, qs))"
    (is "?l \<longleftrightarrow> ?r") for P
  proof
    assume ?l
    then obtain k where k: "k < length cs" "P (rs ! k)" by (metis in_set_conv_nth rs(1))
    with rs(2) [OF k(1)] show ?r by (metis nth_mem prod.collapse)
  next
    assume ?r
    then obtain cite js qs where c: "cite \<in> set cs" "expand_cite cands (JStr cite) = Inr (js, qs)" "P (js, qs)"
      by blast
    then obtain k where "k < length cs" "cs ! k = cite" by (meson in_set_conv_nth)
    with rs(2) [of k] c rs(1) show ?l by (metis nth_mem sum.inject(2))
  qed
  show "distinct ids" by (simp add: rs(3))
  show "i \<in> set ids \<longleftrightarrow> (\<exists>cite \<in> set cs. \<exists>js qs. expand_cite cands (JStr cite) = Inr (js, qs) \<and> i \<in> set js)"
    using mem [of "\<lambda>r. i \<in> set (fst r)"] by (simp add: rs(3))
  show "q \<in> set ps \<longleftrightarrow> (\<exists>cite \<in> set cs. \<exists>js qs. expand_cite cands (JStr cite) = Inr (js, qs) \<and> q \<in> set qs)"
    using mem [of "\<lambda>r. q \<in> set (snd r)"] by (simp add: rs(4))
qed

section \<open>Detection ranges\<close>

lemma range_ids_good: "good_range d c lo hi \<Longrightarrow> range_ids d = Inr (id_span c lo hi)"
  by (auto simp: range_ids_def good_range_def)

lemma candidate_box_iff: "candidate_box cands i = Inr b \<longleftrightarrow> map_of cands i = Some b"
  by (simp add: candidate_box_def result_simps)

lemma known_lookup: "known cands i \<longleftrightarrow> (\<exists>b. map_of cands i = Some b)"
  by (metis known_def map_of_eq_None_iff not_None_eq list.set_map)

lemma candidate_boxes_known:
  "rmap (candidate_box cands) ids = Inr bs \<Longrightarrow> i \<in> set ids \<Longrightarrow> known cands i"
  by (auto simp: rmap_Inr_iff list_all2_conv_all_nth in_set_conv_nth candidate_box_iff known_lookup)

lemma candidate_boxes_total:
  "(\<And>i. i \<in> set ids \<Longrightarrow> known cands i) \<Longrightarrow> rmap (candidate_box cands) ids = Inr (map (\<lambda>i. the (map_of cands i)) ids)"
  by (induction ids) (auto simp: candidate_box_def rget_def known_lookup split: option.split)

lemma read_detection_range_cases:
  assumes "read_detection_range cands p own q = Inr (ids, ps)"
  shows "ids = [] \<and> ps = [q] \<or>
    (\<exists>d. q = DetectionRange d \<and> range_ids d = Inr ids \<and> ps = [] \<and> (\<forall>i \<in> set ids. known cands i))"
  using assms candidate_boxes_known [of cands]
  by (cases q) (auto simp: read_detection_range_def Let_def result_simps split: if_split_asm)

section \<open>The interface to the candidates\<close>

locale candidate_provider =
  fixes provide :: "'f \<Rightarrow> candidates result"
  assumes provide_distinct: "provide f = Inr cands \<Longrightarrow> distinct (map fst cands)"
    and provide_ids: "provide f = Inr cands \<Longrightarrow> known cands i \<Longrightarrow> id_of i \<noteq> None"
    and provide_span: "provide f = Inr cands \<Longrightarrow> 1 \<le> lo \<Longrightarrow> lo \<le> hi \<Longrightarrow> known cands (mk_id c hi) \<Longrightarrow>
      i \<in> set (id_span c lo hi) \<Longrightarrow> known cands i"
begin

lemma expand_cite_known:
  assumes "provide f = Inr cands" "expand_cite cands (JStr cite) = Inr (ids, ps)" "i \<in> set ids"
  shows "known cands i"
  using assms(2)
proof (rule expand_cite_cases)
  fix c lo hi
  assume "Inr (ids, ps) = Inr (id_span c lo hi, [])" "good_range cite c lo hi" "known cands (mk_id c hi)"
  with provide_span [OF assms(1)] assms(3) show ?thesis by (auto simp: good_range_def)
qed (use assms(3) in auto)

lemma expand_cites_known:
  assumes "provide f = Inr cands" "expand_cites (map JStr cs) cands = Inr (ids, ps)" "i \<in> set ids"
  shows "known cands i"
  using assms expand_cite_known by (auto simp: expand_cites_mem(2) [OF assms(2)])

lemma read_detection_range_total:
  assumes f: "provide f = Inr cands" and q: "\<And>d. q = DetectionRange d \<Longrightarrow> \<exists>c lo hi. good_range d c lo hi"
  shows "\<exists>ids ps. read_detection_range cands p own q = Inr (ids, ps)"
proof (cases q)
  case (DetectionRange d)
  with q obtain c lo hi where g: "good_range d c lo hi" by blast
  then have le: "1 \<le> lo" "lo \<le> hi" by (auto simp: good_range_def)
  show ?thesis
  proof (cases "known cands (mk_id c lo) \<and> known cands (mk_id c hi)")
    case True
    then have "rmap (candidate_box cands) (id_span c lo hi) =
        Inr (map (\<lambda>i. the (map_of cands i)) (id_span c lo hi))"
      using provide_span [OF f le] by (intro candidate_boxes_total) blast
    then show ?thesis using DetectionRange range_ids_good [OF g] id_span_ends [OF le(2)] True
      by (auto simp: read_detection_range_def Let_def)
  next
    case False
    then show ?thesis using DetectionRange range_ids_good [OF g] id_span_ends [OF le(2)]
      by (auto simp: read_detection_range_def Let_def)
  qed
qed (simp_all add: read_detection_range_def)

lemma covered_detection_ranges_total:
  assumes f: "provide f = Inr cands" and e: "expand_cites (map JStr cs) cands = Inr (ids, ps)"
  shows "\<exists>ids' ps'. covered_detection_ranges ids ps cands p = Inr (ids', ps')"
proof -
  let ?own = "map (\<lambda>i. the (map_of cands i)) (filter witness_id ids)"
  have own: "rmap (candidate_box cands) (filter witness_id ids) = Inr ?own"
    using expand_cites_known [OF f e] by (intro candidate_boxes_total) simp
  have "\<exists>rs. rmap (read_detection_range cands p own) ps = Inr rs" for own
  proof (rule rmap_total)
    fix q assume "q \<in> set ps"
    then have "\<exists>c lo hi. good_range d c lo hi" if "q = DetectionRange d" for d
      using that expand_cite_detection by (fastforce simp: expand_cites_mem(3) [OF e])
    from read_detection_range_total [OF f this]
    show "\<exists>y. read_detection_range cands p own q = Inr y" by blast
  qed
  then obtain rs where "rmap (read_detection_range cands p (somes ?own)) ps = Inr rs" by blast
  with own show ?thesis by (simp add: covered_detection_ranges_def)
qed

end

lemma covered_detection_ranges_mem:
  assumes e: "expand_cites (map JStr cs) cands = Inr (ids, ps)"
    and c: "covered_detection_ranges ids ps cands p = Inr (ids', ps')"
  shows "distinct ids'" "set ids \<subseteq> set ids'" "i \<in> set ids' \<Longrightarrow> i \<in> set ids \<or> known cands i"
    "ps' = [] \<Longrightarrow> set ids' = (\<Union>cite \<in> set cs. names cite)"
proof -
  from c obtain own rs where rs: "rmap (read_detection_range cands p own) ps = Inr rs"
    and ids': "ids' = unique (ids @ concat (map fst rs))" and ps': "ps' = concat (map snd rs)"
    by (auto simp: covered_detection_ranges_def result_simps)
  have each: "fst r = [] \<and> snd r = [q] \<or> (\<exists>d. q = DetectionRange d \<and> range_ids d = Inr (fst r) \<and>
      snd r = [] \<and> (\<forall>i \<in> set (fst r). known cands i))"
    if "read_detection_range cands p own q = Inr r" for q r
    using read_detection_range_cases [of cands p own q "fst r" "snd r"] that by simp
  show "distinct ids'" "set ids \<subseteq> set ids'" by (auto simp: ids')
  have from_ps: "\<exists>q \<in> set ps. read_detection_range cands p own q = Inr r" if "r \<in> set rs" for r
    using rmap_mem [OF rs that] by blast
  show "i \<in> set ids \<or> known cands i" if "i \<in> set ids'"
    using that from_ps each by (fastforce simp: ids')
  assume none: "ps' = []"
  have resolved: "\<exists>r \<in> set rs. \<exists>d. q = DetectionRange d \<and> range_ids d = Inr (fst r)" if "q \<in> set ps" for q
  proof -
    from that obtain k where k: "k < length ps" "ps ! k = q" by (meson in_set_conv_nth)
    with rmap_nth [OF rs] have r: "read_detection_range cands p own q = Inr (rs ! k)" "rs ! k \<in> set rs"
      by auto
    with none have "snd (rs ! k) = []" by (simp add: ps')
    with each [OF r(1)] r(2) show ?thesis by auto
  qed
  show "set ids' = (\<Union>cite \<in> set cs. names cite)"
  proof (intro set_eqI iffI)
    fix i assume "i \<in> set ids'"
    then consider "i \<in> set ids" | r where "r \<in> set rs" "i \<in> set (fst r)" by (auto simp: ids')
    then show "i \<in> (\<Union>cite \<in> set cs. names cite)"
    proof cases
      case 1
      then obtain cite js qs where "cite \<in> set cs" "expand_cite cands (JStr cite) = Inr (js, qs)" "i \<in> set js"
        by (auto simp: expand_cites_mem(2) [OF e])
      with expand_cite_sound [of cands cite js qs] show ?thesis by (cases "qs = []") auto
    next
      case 2
      from from_ps [OF 2(1)] obtain q where q: "q \<in> set ps" "read_detection_range cands p own q = Inr r" by blast
      from each [OF q(2)] 2(2) obtain d where d: "q = DetectionRange d" "range_ids d = Inr (fst r)" by auto
      from q(1) d(1) obtain cite where cite: "cite \<in> set cs" "d = cite" "id_of cite = None"
          "\<exists>c lo hi. good_range cite c lo hi"
        using expand_cite_detection by (fastforce simp: expand_cites_mem(3) [OF e])
      then obtain c lo hi where g: "good_range cite c lo hi" by blast
      from d(2) cite(2) range_ids_good [OF g] have "fst r = id_span c lo hi" by simp
      with names_range [OF cite(3) g] 2(2) cite(1) show ?thesis by auto
    qed
  next
    fix i assume "i \<in> (\<Union>cite \<in> set cs. names cite)"
    then obtain cite where cite: "cite \<in> set cs" "i \<in> names cite" by blast
    have "\<exists>js qs. expand_cite cands (JStr cite) = Inr (js, qs)"
      using expand_cites_parts [OF e] cite(1) by (metis in_set_conv_nth prod.collapse)
    then obtain js qs where x: "expand_cite cands (JStr cite) = Inr (js, qs)" by blast
    show "i \<in> set ids'"
    proof (cases "qs = []")
      case True
      with expand_cite_sound(1) [OF x] cite x have "i \<in> set ids"
        by (auto simp: expand_cites_mem(2) [OF e])
      then show ?thesis by (auto simp: ids')
    next
      case False
      then obtain q where q: "q \<in> set qs" by (cases qs) auto
      then have "q \<in> set ps" using cite(1) x by (auto simp: expand_cites_mem(3) [OF e])
      from resolved [OF this] obtain r d where r: "r \<in> set rs" "q = DetectionRange d" "range_ids d = Inr (fst r)"
        by blast
      from q r(2) have "DetectionRange d \<in> set qs" by simp
      from expand_cite_detection [OF x this] obtain c lo hi where
        d: "d = cite" "id_of cite = None" "good_range cite c lo hi" by blast
      with names_range [OF d(2,3)] range_ids_good [OF d(3)] r cite(2) show ?thesis by (auto simp: ids')
    qed
  qed
qed

interpretation feed_provider: candidate_provider "\<lambda>(uc, feed, p). feed_candidates uc feed p"
proof
  fix f cands i lo hi c assume f: "(\<lambda>(uc, feed, p). feed_candidates uc feed p) f = Inr cands"
  obtain uc feed p where "f = (uc, feed, p)" by (cases f) auto
  with f have fc: "feed_candidates uc feed p = Inr cands" by simp
  show "distinct (map fst cands)" by (rule feed_candidates_keys(1) [OF fc])
  show "known cands i \<Longrightarrow> id_of i \<noteq> None" using feed_candidates_keys(2) [OF fc] by (simp add: known_def)
  show "1 \<le> lo \<Longrightarrow> lo \<le> hi \<Longrightarrow> known cands (mk_id c hi) \<Longrightarrow> i \<in> set (id_span c lo hi) \<Longrightarrow> known cands i"
    using span_known [OF fc] unfolding known_def by blast
qed

end
