(* ===== verification/Validated.thy ===== *)
theory Validated
  imports AnswerFacts
begin

text \<open>
  The properties of a validated answer: what raises, what an entry and its region are, what
  no problem means, and the gap a re-ask's candidates leave in the contract of a range.
\<close>

section \<open>Entries\<close>

lemma placing_ids_sub: "set (placing_ids ids shared cands p) \<subseteq> set ids"
  by (auto simp: placing_ids_def Let_def split: option.splits)

lemma placing_box_lookup: "placing_box cands i = Some b \<longleftrightarrow> map_of cands i = Some (Some b)"
  by (auto simp: placing_box_def split: option.splits)

lemma region_boxes_set:
  assumes "region_boxes ids cands = Inr bs"
  shows "distinct bs" "b \<in> set bs \<longleftrightarrow> (\<exists>i \<in> set ids. placing_box cands i = Some b)"
proof -
  from assms obtain xs where xs: "rmap (candidate_box cands) ids = Inr xs" and bs: "bs = unique (somes xs)"
    by (auto simp: region_boxes_def result_simps)
  from xs have "xs = map (\<lambda>i. the (map_of cands i)) ids" "\<forall>i \<in> set ids. map_of cands i \<noteq> None"
    by (induction ids arbitrary: xs) (auto simp: result_simps candidate_box_iff)
  then have "Some b \<in> set xs \<longleftrightarrow> (\<exists>i \<in> set ids. map_of cands i = Some (Some b))" by force
  then show "b \<in> set bs \<longleftrightarrow> (\<exists>i \<in> set ids. placing_box cands i = Some b)"
    by (simp add: bs set_somes placing_box_lookup)
  show "distinct bs" by (simp add: bs)
qed

lemma region_boxes_total: "(\<And>i. i \<in> set ids \<Longrightarrow> known cands i) \<Longrightarrow> \<exists>bs. region_boxes ids cands = Inr bs"
  using candidate_boxes_total [of ids cands] by (auto simp: region_boxes_def)

text \<open>An id that places survives the choice of placing ids, in itself or in one of its peers.\<close>

lemma placing_ids_places:
  assumes "i \<in> set ids" "placing_box cands i = Some b"
  shows "\<exists>j \<in> set (placing_ids ids shared cands p). placing_box cands j \<noteq> None"
proof (cases p)
  case None
  with assms show ?thesis by (auto simp: placing_ids_def)
next
  case (Some q)
  define own where "own = somes (map (placing_box cands) (filter (\<lambda>i. i \<notin> set shared) ids))"
  show ?thesis
  proof (cases "own = []")
    case True
    with Some assms show ?thesis by (auto simp: placing_ids_def own_def)
  next
    case False
    then obtain w where "w \<in> set own" by (cases own) auto
    then obtain j where "j \<in> set ids" "j \<notin> set shared" "placing_box cands j = Some w"
      by (auto simp: own_def set_somes)
    then show ?thesis using Some by (auto simp: placing_ids_def own_def Let_def)
  qed
qed

definition entry_reads :: "candidates \<Rightarrow> raw_entry \<Rightarrow> entry \<Rightarrow> bool" where
  "entry_reads cands raw e \<longleftrightarrow>
     ent_n e = raw_n raw \<and> ent_entry_kind e = raw_kind raw \<and> ent_text e = raw_text raw \<and>
     act_class (raw_kind raw) = Inr (ent_kind e) \<and>
     distinct (ent_cited_ids e) \<and> (\<forall>i \<in> set (ent_cited_ids e). known cands i) \<and>
     distinct (ent_region e) \<and>
     (\<forall>b \<in> set (ent_region e). \<exists>i \<in> set (ent_cited_ids e). placing_box cands i = Some b) \<and>
     (ent_region e = [] \<longleftrightarrow> (\<forall>i \<in> set (ent_cited_ids e). placing_box cands i = None)) \<and>
     ent_union e = union_box (ent_region e)"

lemma build_entry_reads:
  assumes "build_entry cands p shared raw ids = Inr e" "distinct ids" "\<forall>i \<in> set ids. known cands i"
  shows "entry_reads cands raw e" "ent_cited_ids e = ids"
proof -
  let ?pl = "placing_ids ids shared cands p"
  from assms(1) obtain bs kind where bs: "region_boxes ?pl cands = Inr bs"
    and kind: "act_class (raw_kind raw) = Inr kind"
    and e: "ent_n e = raw_n raw" "ent_entry_kind e = raw_kind raw" "ent_text e = raw_text raw"
      "ent_kind e = kind" "ent_cited_ids e = ids" "ent_region e = bs" "ent_union e = union_box bs"
    by (auto simp: build_entry_def Let_def result_simps)
  have sub: "\<forall>b \<in> set bs. \<exists>i \<in> set ids. placing_box cands i = Some b"
    using placing_ids_sub [of ids shared cands p] region_boxes_set(2) [OF bs] by blast
  have "bs = [] \<longleftrightarrow> (\<forall>i \<in> set ids. placing_box cands i = None)"
  proof
    assume "bs = []"
    then have "\<forall>j \<in> set ?pl. placing_box cands j = None"
      using region_boxes_set(2) [OF bs] by (metis empty_iff list.set(1) not_None_eq)
    then show "\<forall>i \<in> set ids. placing_box cands i = None"
      using placing_ids_places [of _ ids cands _ shared p] by fastforce
  next
    assume "\<forall>i \<in> set ids. placing_box cands i = None"
    with sub show "bs = []" by (cases bs) auto
  qed
  then show "entry_reads cands raw e" "ent_cited_ids e = ids"
    using assms(2,3) sub e kind region_boxes_set(1) [OF bs] by (auto simp: entry_reads_def)
qed

lemma build_entry_total:
  assumes "\<forall>i \<in> set ids. known cands i" "raw_kind raw \<in> set ENTRY_KINDS"
  shows "\<exists>e. build_entry cands p shared raw ids = Inr e"
proof -
  have "\<exists>bs. region_boxes (placing_ids ids shared cands p) cands = Inr bs"
    using placing_ids_sub [of ids shared cands p] assms(1) by (intro region_boxes_total) blast
  then show ?thesis using assms(2) by (auto simp: build_entry_def act_class_def Let_def)
qed

context candidate_provider
begin

lemma expand_entry_known:
  assumes f: "provide f = Inr cands" and x: "expand_entry cands p raw = Inr (ids, ps)"
  shows "distinct ids" "\<forall>i \<in> set ids. known cands i"
    "ps = [] \<Longrightarrow> set ids = (\<Union>cite \<in> set (raw_cites raw). names cite)"
proof -
  from x obtain js qs where e: "expand_cites (map JStr (raw_cites raw)) cands = Inr (js, qs)"
    by (auto simp: expand_entry_def result_simps)
  have js: "\<forall>i \<in> set js. known cands i" using expand_cites_known [OF f e] by blast
  have "distinct ids \<and> (\<forall>i \<in> set ids. known cands i) \<and>
    (ps = [] \<longrightarrow> set ids = (\<Union>cite \<in> set (raw_cites raw). names cite))"
  proof (cases p)
    case (Some q)
    with x e have c: "covered_detection_ranges js qs cands q = Inr (ids, ps)"
      by (simp add: expand_entry_def)
    show ?thesis using covered_detection_ranges_mem [OF e c] js by blast
  next
    case None
    with x e have eq: "ids = js" "ps = qs" by (simp_all add: expand_entry_def)
    have "set js = (\<Union>cite \<in> set (raw_cites raw). names cite)" if none: "qs = []"
    proof (intro set_eqI)
      fix i
      have no: "q' = []" if "cite \<in> set (raw_cites raw)" "expand_cite cands (JStr cite) = Inr (j, q')" for cite j q'
      proof (rule ccontr)
        assume "q' \<noteq> []"
        then obtain x where "x \<in> set q'" by (cases q') auto
        then have "x \<in> set qs" unfolding expand_cites_mem(3) [OF e] using that by blast
        with none show False by simp
      qed
      have "\<exists>j q'. expand_cite cands (JStr cite) = Inr (j, q')" if "cite \<in> set (raw_cites raw)" for cite
        using expand_cites_parts [OF e] that by (metis in_set_conv_nth prod.collapse)
      then show "i \<in> set js \<longleftrightarrow> i \<in> (\<Union>cite \<in> set (raw_cites raw). names cite)"
        unfolding expand_cites_mem(2) [OF e] using no expand_cite_sound(1) [of cands] by fastforce
    qed
    then show ?thesis using eq js expand_cites_mem(1) [OF e] by blast
  qed
  then show "distinct ids" "\<forall>i \<in> set ids. known cands i"
    "ps = [] \<Longrightarrow> set ids = (\<Union>cite \<in> set (raw_cites raw). names cite)" by blast+
qed

lemma expand_entry_error:
  assumes f: "provide f = Inr cands" and x: "expand_entry cands p raw = Inl e"
  shows "e = int_error"
proof (cases "expand_cites (map JStr (raw_cites raw)) cands")
  case (Inl e')
  with x expand_cites_error show ?thesis by (fastforce simp: expand_entry_def)
next
  case (Inr r)
  obtain ids ps where r: "r = (ids, ps)" by force
  show ?thesis
  proof (cases p)
    case (Some q)
    from covered_detection_ranges_total [OF f Inr [unfolded r], of q] x Inr r Some show ?thesis
      by (auto simp: expand_entry_def)
  qed (use x Inr r in \<open>simp add: expand_entry_def\<close>)
qed

end

section \<open>Set-asides\<close>

definition aside_ok :: "ustr list \<times> (ustr \<times> ustr) list \<Rightarrow> bool" where
  "aside_ok acc \<longleftrightarrow> (case acc of (seen, aside) \<Rightarrow> set (map fst aside) \<subseteq> set seen \<and>
     distinct (map fst aside) \<and> (\<forall>(i, why) \<in> set aside. \<not> blank why))"

lemma set_aside_ids_inv:
  assumes "set_aside_ids cited why ids (seen, aside) = ((seen', aside'), ps)" "aside_ok (seen, aside)"
  shows "aside_ok (seen', aside') \<and>
    (ps = [] \<longrightarrow> set ids \<inter> set cited = {} \<and> map fst aside' = map fst aside @ ids)"
  using assms
proof (induction ids arbitrary: seen aside ps)
  case (Cons i ids)
  define add where "add = (if \<not> blank why \<and> i \<notin> set (map fst aside) then aside @ [(i, why)] else aside)"
  from Cons.prems(1) obtain qs where step: "set_aside_ids cited why ids (i # seen, add) = ((seen', aside'), qs)"
    and ps: "ps = ((if i \<in> set seen then [SetAsideTwice i] else []) @
               (if i \<in> set cited then [CitedAndSetAside i] else []) @
               (if blank why then [SetAsideWithoutReason i] else [])) @ qs"
    by (auto simp: add_def Let_def split: prod.splits)
  have ok: "aside_ok (i # seen, add)"
    using Cons.prems(2) by (auto simp: aside_ok_def add_def)
  from Cons.IH [OF step ok] show ?case
  proof (cases "ps = []")
    case True
    then have "i \<notin> set seen" "i \<notin> set cited" "\<not> blank why" "qs = []"
      using ps by (auto split: if_splits)
    moreover from this Cons.prems(2) have "add = aside @ [(i, why)]"
      by (auto simp: add_def aside_ok_def)
    ultimately show ?thesis using Cons.IH [OF step ok] by auto
  qed simp
qed simp

lemma expand_cites_single:
  "expand_cites [JStr i] cands = Inr (ids, qs) \<Longrightarrow>
     \<exists>js. expand_cite cands (JStr i) = Inr (js, qs) \<and> ids = unique js"
  by (auto simp: expand_cites_def result_simps)

lemma set_asides_step:
  assumes "set_asides cands cited k ((i, why) # raws) (seen, aside) = Inr (aside', ps)"
    "aside_ok (seen, aside)"
  obtains js qs seen1 aside1 rs ts where "expand_cite cands (JStr i) = Inr (js, qs)"
    "set_asides cands cited (Suc k) raws (seen1, aside1) = Inr (aside', ts)"
    "ps = map (CiteProblem (InSetAside k)) qs @ rs @ ts" "aside_ok (seen1, aside1)"
    "rs = [] \<longrightarrow> set js \<inter> set cited = {} \<and> set (map fst aside1) = set (map fst aside) \<union> set js"
proof -
  from assms(1) obtain ids qs where e: "expand_cites [JStr i] cands = Inr (ids, qs)"
    by (auto simp: rbind_Inr_iff)
  from expand_cites_single [OF e] obtain js where js: "expand_cite cands (JStr i) = Inr (js, qs)"
    "ids = unique js" by blast
  obtain seen1 aside1 rs where s: "set_aside_ids cited why ids (seen, aside) = ((seen1, aside1), rs)"
    by (metis prod.collapse)
  from assms(1) e s obtain ts where
    r: "set_asides cands cited (Suc k) raws (seen1, aside1) = Inr (aside', ts)" and
    ps: "ps = map (CiteProblem (InSetAside k)) qs @ rs @ ts"
    by (auto simp: result_simps)
  from set_aside_ids_inv [OF s assms(2)] js(2)
  have ok: "aside_ok (seen1, aside1)"
    and "rs = [] \<longrightarrow> set js \<inter> set cited = {} \<and> set (map fst aside1) = set (map fst aside) \<union> set js"
    by auto
  with that [OF js(1) r ps] show thesis by blast
qed

lemma set_asides_ok:
  assumes "set_asides cands cited k raws (seen, aside) = Inr (aside', ps)" "aside_ok (seen, aside)"
  shows "distinct (map fst aside') \<and> (\<forall>(i, why) \<in> set aside'. \<not> blank why)"
  using assms
proof (induction raws arbitrary: k seen aside ps)
  case Nil then show ?case by (auto simp: aside_ok_def)
next
  case (Cons raw raws)
  obtain i why where raw: "raw = (i, why)" by force
  obtain js qs seen1 aside1 rs ts where
    "set_asides cands cited (Suc k) raws (seen1, aside1) = Inr (aside', ts)" "aside_ok (seen1, aside1)"
    by (rule set_asides_step [OF Cons.prems(1) [unfolded raw] Cons.prems(2)])
  then show ?case by (rule Cons.IH)
qed

lemma set_asides_clear:
  assumes "set_asides cands cited k raws (seen, aside) = Inr (aside', [])" "aside_ok (seen, aside)"
    "set (map fst aside) \<inter> set cited = {}"
  shows "set (map fst aside') \<inter> set cited = {} \<and>
    set (map fst aside') = set (map fst aside) \<union> (\<Union>(i, why) \<in> set raws. names i)"
  using assms
proof (induction raws arbitrary: k seen aside)
  case (Cons raw raws)
  obtain i why where raw: "raw = (i, why)" by force
  obtain js qs seen1 aside1 rs ts where
    st: "expand_cite cands (JStr i) = Inr (js, qs)"
    "set_asides cands cited (Suc k) raws (seen1, aside1) = Inr (aside', ts)"
    "[] = map (CiteProblem (InSetAside k)) qs @ rs @ ts" "aside_ok (seen1, aside1)"
    "rs = [] \<longrightarrow> set js \<inter> set cited = {} \<and> set (map fst aside1) = set (map fst aside) \<union> set js"
    by (rule set_asides_step [OF Cons.prems(1) [unfolded raw] Cons.prems(2)])
  then have none: "qs = []" "rs = []" "ts = []" by auto
  with expand_cite_sound(1) [OF st(1)] have js: "set js = names i" by simp
  from st(5) none(2) Cons.prems(3) have
    a1: "set (map fst aside1) \<inter> set cited = {}" "set (map fst aside1) = set (map fst aside) \<union> set js"
    by auto
  note ih = Cons.IH [OF st(2) [unfolded none(3)] st(4) a1(1)]
  have u: "(\<Union>(i, why) \<in> set (raw # raws). names i) = names i \<union> (\<Union>(i, why) \<in> set raws. names i)"
    by (simp add: raw)
  have "set (map fst aside') = set (map fst aside) \<union> (\<Union>(i, why) \<in> set (raw # raws). names i)"
    unfolding u by (simp only: conjunct2 [OF ih] a1(2) js Un_assoc)
  with conjunct1 [OF ih] show ?case by blast
qed simp

lemma set_asides_error: "set_asides cands cited k raws acc = Inl e \<Longrightarrow> e = int_error"
proof (induction cands cited k raws acc rule: set_asides.induct)
  case (2 cands cited k i why raws acc)
  show ?case
  proof (cases "expand_cites [JStr i] cands")
    case (Inl e')
    with "2.prems" expand_cites_error [of "[i]" cands e'] show ?thesis by simp
  next
    case (Inr r)
    obtain ids qs where r: "r = (ids, qs)" by force
    obtain acc' rs where s: "set_aside_ids cited why ids acc = (acc', rs)"
      by (cases "set_aside_ids cited why ids acc") blast
    from "2.prems" Inr r s have "set_asides cands cited (Suc k) raws acc' = Inl e"
      by (auto simp: rbind_error)
    with "2.IH" [OF Inr [unfolded r]] r s show ?thesis by fastforce
  qed
qed simp

section \<open>The whole answer\<close>

lemma list_all2_zip_map:
  "length xs = length ws \<Longrightarrow> (\<And>k. k < length xs \<Longrightarrow> P (xs ! k) (ws ! k)) \<Longrightarrow> list_all2 P xs ws"
  by (simp add: list_all2_conv_all_nth)

context candidate_provider
begin

lemma read_parsed_sound:
  assumes f: "provide f = Inr cands" and r: "read_parsed a cands p = Inr r"
  shows "list_all2 (entry_reads cands) (ans_entries a) (v_entries r)"
    "distinct (map fst (v_set_aside r))" "\<forall>(i, why) \<in> set (v_set_aside r). \<not> blank why"
    "v_problems r = [] \<Longrightarrow>
      list_all2 (\<lambda>raw e. set (ent_cited_ids e) = (\<Union>cite \<in> set (raw_cites raw). names cite))
        (ans_entries a) (v_entries r) \<and>
      set (map fst (v_set_aside r)) = (\<Union>(i, why) \<in> set (ans_set_aside a). names i) \<and>
      set (map fst (v_set_aside r)) \<inter> set (cited_by (v_entries r)) = {}"
proof -
  let ?raws = "ans_entries a"
  from r obtain xs es aside ps where
    xs: "rmap (expand_entry cands p) ?raws = Inr xs" and
    es: "rmap (\<lambda>(raw, x). build_entry cands p (shared_units (map fst xs) cands) raw (fst x)) (zip ?raws xs) = Inr es" and
    aside: "set_asides cands (cited_by es) 0 (ans_set_aside a) ([], []) = Inr (aside, ps)" and
    req: "r = \<lparr>v_entries = es, v_set_aside = aside, v_problems =
      concat (map2 (\<lambda>raw x. map (CiteProblem (InEntry (raw_n raw))) (snd x)) ?raws xs) @ ps\<rparr>"
    by (auto simp: read_parsed_def Let_def result_simps cited_by_def)
  note nx = rmap_nth [OF xs]
  note ne = rmap_nth [OF es]
  have len: "length xs = length ?raws" "length es = length ?raws" using nx ne by auto
  have entry: "expand_entry cands p (?raws ! k) = Inr (fst (xs ! k), snd (xs ! k))"
    "build_entry cands p (shared_units (map fst xs) cands) (?raws ! k) (fst (xs ! k)) = Inr (es ! k)"
    if "k < length ?raws" for k
    using nx ne len that by auto
  have reads: "entry_reads cands (?raws ! k) (es ! k)" "ent_cited_ids (es ! k) = fst (xs ! k)"
    if k: "k < length ?raws" for k
    using build_entry_reads [OF entry(2) [OF k]] expand_entry_known(1,2) [OF f entry(1) [OF k]] by blast+
  show "list_all2 (entry_reads cands) ?raws (v_entries r)"
    using reads(1) len by (simp add: req list_all2_conv_all_nth)
  have ok: "aside_ok ([], [])" by (simp add: aside_ok_def)
  from set_asides_ok [OF aside ok] show "distinct (map fst (v_set_aside r))"
    "\<forall>(i, why) \<in> set (v_set_aside r). \<not> blank why" by (simp_all add: req)
  assume none: "v_problems r = []"
  then have ps: "ps = []" by (simp add: req)
  have "snd (xs ! k) = []" if k: "k < length ?raws" for k
  proof -
    let ?m = "map2 (\<lambda>raw x. map (CiteProblem (InEntry (raw_n raw))) (snd x)) ?raws xs"
    have "?m ! k \<in> set ?m" using k len by (intro nth_mem) simp
    moreover have "\<forall>l \<in> set ?m. l = []" using none by (simp add: req)
    ultimately have "?m ! k = []" by blast
    then show ?thesis using k len by simp
  qed
  then have "set (ent_cited_ids (es ! k)) = (\<Union>cite \<in> set (raw_cites (?raws ! k)). names cite)"
    if "k < length ?raws" for k
    using expand_entry_known(3) [OF f entry(1) [OF that]] reads(2) [OF that] that by simp
  then have "list_all2 (\<lambda>raw e. set (ent_cited_ids e) = (\<Union>cite \<in> set (raw_cites raw). names cite)) ?raws es"
    using len by (simp add: list_all2_conv_all_nth)
  moreover have "set (map fst aside) \<inter> set (cited_by es) = {} \<and>
      set (map fst aside) = (\<Union>(i, why) \<in> set (ans_set_aside a). names i)"
  proof -
    have "set (map fst []) \<inter> set (cited_by es) = {}" by simp
    note clear = set_asides_clear [OF aside [unfolded ps] ok this]
    from conjunct2 [OF clear] have "set (map fst aside) = (\<Union>(i, why) \<in> set (ans_set_aside a). names i)"
      by (simp only: list.map list.set Un_empty_left)
    with conjunct1 [OF clear] show ?thesis by blast
  qed
  ultimately show "list_all2 (\<lambda>raw e. set (ent_cited_ids e) = (\<Union>cite \<in> set (raw_cites raw). names cite))
        (ans_entries a) (v_entries r) \<and>
      set (map fst (v_set_aside r)) = (\<Union>(i, why) \<in> set (ans_set_aside a). names i) \<and>
      set (map fst (v_set_aside r)) \<inter> set (cited_by (v_entries r)) = {}"
    unfolding req validated.select_convs by blast
qed

lemma read_parsed_error:
  assumes f: "provide f = Inr cands" and kinds: "\<forall>e \<in> set (ans_entries a). raw_kind e \<in> set ENTRY_KINDS"
    and r: "read_parsed a cands p = Inl e"
  shows "e = int_error"
proof (cases "rmap (expand_entry cands p) (ans_entries a)")
  case (Inl e')
  with r have "e' = e" by (simp add: read_parsed_def)
  with rmap_error [OF Inl] expand_entry_error [OF f] show ?thesis by blast
next
  case (Inr xs)
  let ?sh = "shared_units (map fst xs) cands"
  note nx = rmap_nth [OF Inr]
  have "\<exists>es. rmap (\<lambda>(raw, x). build_entry cands p ?sh raw (fst x)) (zip (ans_entries a) xs) = Inr es"
  proof (rule rmap_total)
    fix y assume "y \<in> set (zip (ans_entries a) xs)"
    then obtain k where k: "k < length (ans_entries a)" "y = (ans_entries a ! k, xs ! k)"
      by (auto simp: set_zip)
    with nx have "expand_entry cands p (ans_entries a ! k) = Inr (fst (xs ! k), snd (xs ! k))" by simp
    from expand_entry_known(2) [OF f this] kinds k(1)
      build_entry_total [of "fst (xs ! k)" cands "ans_entries a ! k" p ?sh]
    show "\<exists>z. (case y of (raw, x) \<Rightarrow> build_entry cands p ?sh raw (fst x)) = Inr z" using k(2) by simp
  qed
  with r Inr obtain es where "set_asides cands (cited_by es) 0 (ans_set_aside a) ([], []) = Inl e"
    by (auto simp: read_parsed_def Let_def rbind_error cited_by_def)
  then show ?thesis by (rule set_asides_error)
qed

lemma validate_error:
  assumes "provide f = Inr cands" "validate_answer v cands p = Inl e"
  shows "e = int_error"
proof -
  from assms(2) have g: "grammar_problems v = []" by (auto simp: validate_answer_def Let_def split: if_splits)
  from grammar_reads [OF g] obtain a where "read_answer v = Some a" "well_formed_answer a" by blast
  with assms g show ?thesis using read_parsed_error [of f cands a p e]
    by (auto simp: validate_answer_def rget_def well_formed_answer_def)
qed

end

section \<open>The properties of a first reading\<close>

text \<open>
  C11. A validated answer is the answer read and nothing else: entry by entry it keeps the
  number, kind and text, its cited ids are distinct ids of the feed, its region is the boxes
  of ids it cites (and is empty only when none of them places), and no set-aside lacks a
  reason. With no problem, every citation was read in full, the ids set aside are exactly
  those the answer names, and no id is both cited and set aside.
\<close>

theorem validated_answer_sound:
  assumes "feed_candidates uc feed fp = Inr cands" "validate_answer v cands p = Inr r"
    "grammar_problems v = []"
  shows "\<exists>a. read_answer v = Some a \<and>
    list_all2 (entry_reads cands) (ans_entries a) (v_entries r) \<and>
    distinct (map fst (v_set_aside r)) \<and> (\<forall>(i, why) \<in> set (v_set_aside r). \<not> blank why) \<and>
    (v_problems r = [] \<longrightarrow>
      list_all2 (\<lambda>raw e. set (ent_cited_ids e) = (\<Union>cite \<in> set (raw_cites raw). names cite))
        (ans_entries a) (v_entries r) \<and>
      set (map fst (v_set_aside r)) = (\<Union>(i, why) \<in> set (ans_set_aside a). names i) \<and>
      set (map fst (v_set_aside r)) \<inter> set (cited_by (v_entries r)) = {})"
proof -
  from grammar_reads [OF assms(3)] obtain a where a: "read_answer v = Some a" by blast
  with assms(2,3) have r: "read_parsed a cands p = Inr r" by (simp add: validate_answer_def rget_def)
  have f: "(\<lambda>(uc, feed, p). feed_candidates uc feed p) (uc, feed, fp) = Inr cands" using assms(1) by simp
  show ?thesis
    using a feed_provider.read_parsed_sound [OF f r] by (intro exI [of _ a]) blast
qed

definition entry_json :: "int \<Rightarrow> string \<Rightarrow> string list \<Rightarrow> string \<Rightarrow> json" where
  "entry_json n kind cites text =
     JObj [(u ''n'', JInt n), (u ''kind'', JStr (u kind)), (u ''cites'', JList (map (JStr \<circ> u) cites)),
           (u ''text'', JStr (u text)), (u ''continues_from_previous_page'', JBool False),
           (u ''continues_to_next_page'', JBool False)]"

definition reask_json :: "json list \<Rightarrow> (string \<times> string) list \<Rightarrow> json" where
  "reask_json es aside =
     JObj [(u ''entries'', JList es),
           (u ''set_aside'', JList (map (\<lambda>(i, why). JObj [(u ''id'', JStr (u i)), (u ''reason'', JStr (u why))]) aside))]"

definition sample_answer :: json where
  "sample_answer = reask_json [entry_json 1 ''act'' [''A1-A2'', ''L1-L2''] ''Baptized''] [(''S1'', ''a stamp'')]"

theorem validated_answer_sound_witness:
  "case validate_answer sample_answer sample_candidates (Some sample_policy) of
     Inl _ \<Rightarrow> False
   | Inr r \<Rightarrow> v_problems r = [] \<and> map fst (v_set_aside r) = [u ''S1''] \<and>
       set (map fst (v_set_aside r)) \<inter> set (cited_by (v_entries r)) = {}"
proof -
  have ev: "(case validate_answer sample_answer sample_candidates (Some sample_policy) of
     Inl _ \<Rightarrow> False | Inr r \<Rightarrow> v_problems r = [] \<and> map fst (v_set_aside r) = [u ''S1''])"
    by code_simp
  have g: "grammar_problems sample_answer = []" by code_simp
  show ?thesis
  proof (cases "validate_answer sample_answer sample_candidates (Some sample_policy)")
    case (Inr r)
    from validated_answer_sound [OF sample_feed_candidates Inr g] Inr ev show ?thesis by auto
  qed (use ev in simp)
qed

text \<open>
  C12. Against the candidates of a feed, validating an answer of any JSON shape never raises,
  but for one thing: the refused conversion of a number of more than 4300 digits.
\<close>

theorem validate_raises_only_conversion:
  assumes "feed_candidates uc feed fp = Inr cands" "validate_answer v cands p = Inl e"
  shows "e = ValueError ''integer string conversion''"
  using feed_provider.validate_error [of "(uc, feed, fp)" cands v p e] assms by (simp add: int_error_def)

text \<open>A range whose first number has more digits than Python converts.\<close>

definition oversized_cite :: ustr where
  "oversized_cite = 65 # replicate 4301 49 @ u ''-A2''"

definition oversized_answer :: json where
  "oversized_answer = JObj [(u ''entries'', JList []), (u ''set_aside'',
     JList [JObj [(u ''id'', JStr oversized_cite), (u ''reason'', JStr (u ''x''))]])]"

lemma oversized_range: "range_of oversized_cite = Some (65, replicate 4301 49, 65, [50])"
proof -
  have u2: "u ''-A2'' = [45, 65, 50]" by (simp add: u_def)
  have l: "takeWhile (\<lambda>c. c \<noteq> 45) oversized_cite = 65 # replicate 4301 49"
  proof -
    have "takeWhile (\<lambda>c. c \<noteq> 45) (replicate 4301 (49::int) @ [45, 65, 50]) =
        replicate 4301 49 @ takeWhile (\<lambda>c. c \<noteq> 45) [45, 65, 50]"
      by (rule takeWhile_append2) auto
    then show ?thesis by (simp add: oversized_cite_def u2)
  qed
  have "drop (length (65 # replicate 4301 (49::int))) oversized_cite = [45, 65, 50]"
    by (simp add: oversized_cite_def u2)
  moreover have "replicate 4301 (49::int) = 49 # replicate 4300 49" by (simp add: numeral_eq_Suc)
  then have "id_of (65 # replicate 4301 49) = Some (65, replicate 4301 49)"
    by (simp add: id_of_def upper_def digit_def list_all_iff)
  moreover have "id_of [65, 50] = Some (65, [50])" by (simp add: id_of_def upper_def digit_def)
  ultimately show ?thesis unfolding range_of_def l Let_def by simp
qed

lemma oversized_raises: "expand_cite cands (JStr oversized_cite) = Inl int_error"
proof -
  have "id_of oversized_cite = None"
  proof -
    have "\<not> list_all digit (tl (tl oversized_cite))"
      by (auto simp: oversized_cite_def u_def digit_def numeral_eq_Suc)
    then have "\<not> (list_all digit ds)" if "oversized_cite = c # d # ds" for c d ds
      using that by (metis list.sel(3))
    then show ?thesis unfolding id_of_def by (simp split: list.split)
  qed
  then show ?thesis using oversized_range
    by (simp add: expand_cite_def expand_range_def py_int_def INT_MAX_STR_DIGITS_def int_error_def)
qed

theorem validate_raises_only_conversion_witness:
  "validate_answer oversized_answer sample_candidates (Some sample_policy) =
     Inl (ValueError ''integer string conversion'')"
proof -
  have g: "grammar_problems oversized_answer = []"
    by (simp add: oversized_answer_def grammar_problems_def keys_are_def ENTRIES_TOP_FIELDS_def
        REASK_ENTRIES_TOP_FIELDS_def field_problem_def field_def set_aside_problems_def SET_ASIDE_FIELDS_def
        insert_commute)
  have "read_answer oversized_answer =
      Some \<lparr>ans_entries = [], ans_set_aside = [(oversized_cite, u ''x'')]\<rparr>"
    by (simp add: oversized_answer_def read_answer_def list_field_def field_def all_some_def
        read_set_aside_def text_field_def)
  then obtain e where e: "validate_answer oversized_answer sample_candidates (Some sample_policy) = Inl e"
    using g by (simp add: validate_answer_def rget_def read_parsed_def expand_cites_def Let_def
        oversized_raises)
  from validate_raises_only_conversion [OF sample_feed_candidates e] e show ?thesis by simp
qed

end
