(* ===== verification/Reask.thy ===== *)
theory Reask
  imports Validated
begin

text \<open>
  A re-ask's answer: how it is combined with the first reading's, and what its candidates,
  the named ids alone, do to a range; and the comparison of regions that names duplicates.
\<close>

section \<open>Numbers\<close>

lemma build_entry_n: "build_entry cands p shared raw ids = Inr e \<Longrightarrow> ent_n e = raw_n raw"
  by (auto simp: build_entry_def Let_def result_simps)

lemma read_parsed_ns:
  assumes "read_parsed a cands p = Inr r"
  shows "map ent_n (v_entries r) = map raw_n (ans_entries a)"
proof -
  from assms obtain xs es sh where
    xs: "rmap (expand_entry cands p) (ans_entries a) = Inr xs" and
    es: "rmap (\<lambda>(raw, x). build_entry cands p sh raw (fst x)) (zip (ans_entries a) xs) = Inr es" and
    r: "v_entries r = es"
    by (auto simp: read_parsed_def Let_def result_simps)
  have len: "length xs = length (ans_entries a)" "length es = length (ans_entries a)"
    using rmap_nth [OF xs] rmap_nth [OF es] by auto
  show ?thesis
  proof (intro nth_equalityI)
    fix k assume "k < length (map ent_n (v_entries r))"
    then have k: "k < length (ans_entries a)" using r len by simp
    with rmap_nth [OF es] len have "build_entry cands p sh (ans_entries a ! k) (fst (xs ! k)) = Inr (es ! k)"
      by auto
    from build_entry_n [OF this] show "map ent_n (v_entries r) ! k = map raw_n (ans_entries a) ! k"
      using k r len by simp
  qed (simp add: r len)
qed

lemma validated_ns:
  assumes "validate_answer v cands p = Inr r"
  shows "map ent_n (v_entries r) = [1..int (length (v_entries r))]"
proof (cases "grammar_problems v = []")
  case True
  from grammar_reads [OF this] obtain a where a: "read_answer v = Some a" "well_formed_answer a" by blast
  with assms True have "read_parsed a cands p = Inr r" by (simp add: validate_answer_def rget_def)
  from read_parsed_ns [OF this] have ns: "map ent_n (v_entries r) = map raw_n (ans_entries a)" .
  then have "length (v_entries r) = length (ans_entries a)" by (metis length_map)
  with ns a(2) show ?thesis by (simp add: well_formed_answer_def)
next
  case False
  with assms show ?thesis by (auto simp: validate_answer_def Let_def)
qed

section \<open>The combined answer\<close>

lemma across_none:
  assumes "across_problems r s = []"
  shows "set (cited_by (v_entries r)) \<inter> set (map fst (v_set_aside s)) = {}"
    "set (cited_by (v_entries s)) \<inter> set (map fst (v_set_aside r)) = {}"
    "set (map fst (v_set_aside r)) \<inter> set (map fst (v_set_aside s)) = {}"
proof -
  have nil: "sorted_ids xs = [] \<Longrightarrow> xs = []" for xs
    by (metis set_empty set_sort set_unique sorted_ids_def)
  let ?a = "map fst (v_set_aside r)" and ?b = "map fst (v_set_aside s)"
  let ?p = "filter (\<lambda>i. i \<in> set ?b) (cited_by (v_entries r))"
    and ?q = "filter (\<lambda>i. i \<in> set ?a) (cited_by (v_entries s))" and ?t = "filter (\<lambda>i. i \<in> set ?b) ?a"
  from assms have "sorted_ids (?p @ ?q) = [] \<and> sorted_ids ?t = []"
    by (simp only: across_problems_def Let_def append_is_Nil_conv map_is_Nil_conv)
  then have "?p @ ?q = []" "?t = []" using nil by blast+
  then have "?p = []" "?q = []" "?t = []" by blast+
  then show "set (cited_by (v_entries r)) \<inter> set ?b = {}" "set (cited_by (v_entries s)) \<inter> set ?a = {}"
    "set ?a \<inter> set ?b = {}"
    unfolding filter_empty_conv by blast+
qed

lemma add_entry_cited: "cited_by (map (add_entry k) es) = cited_by es"
  by (simp add: cited_by_def add_entry_def comp_def)

text \<open>An id a re-ask may reach: a named one or, through a range of witness units, one between two named ones.\<close>

definition named_or_between :: "ustr list \<Rightarrow> ustr \<Rightarrow> bool" where
  "named_or_between named i \<longleftrightarrow> i \<in> set named \<or>
     (\<exists>c lo hi n. c \<notin> set DETECTION_LETTERS \<and> mk_id c lo \<in> set named \<and> mk_id c hi \<in> set named \<and>
        lo \<le> n \<and> n \<le> hi \<and> i = mk_id c n)"

lemma set_aside_ids_sub:
  "set_aside_ids cited why ids (seen, aside) = ((seen', aside'), ps) \<Longrightarrow> fst ` set aside' \<subseteq> fst ` set aside \<union> set ids"
proof (induction ids arbitrary: seen aside ps)
  case (Cons i ids)
  define add where "add = (if \<not> blank why \<and> i \<notin> set (map fst aside) then aside @ [(i, why)] else aside)"
  from Cons.prems obtain qs where "set_aside_ids cited why ids (i # seen, add) = ((seen', aside'), qs)"
    by (auto simp: add_def Let_def split: prod.splits)
  from Cons.IH [OF this] show ?case by (auto simp: add_def split: if_splits)
qed simp

lemma set_asides_all:
  assumes "set_asides cands cited k raws (seen, aside) = Inr (aside', ps)" "\<forall>i \<in> fst ` set aside. P i"
    and "\<And>cite js qs i. expand_cite cands (JStr cite) = Inr (js, qs) \<Longrightarrow> i \<in> set js \<Longrightarrow> P i"
  shows "\<forall>i \<in> fst ` set aside'. P i"
  using assms(1,2)
proof (induction raws arbitrary: k seen aside ps)
  case (Cons raw raws)
  obtain cite why where raw: "raw = (cite, why)" by force
  from Cons.prems(1) raw obtain ids qs where e: "expand_cites [JStr cite] cands = Inr (ids, qs)"
    by (auto simp: rbind_Inr_iff)
  obtain seen1 aside1 rs where s: "set_aside_ids cited why ids (seen, aside) = ((seen1, aside1), rs)"
    by (metis prod.collapse)
  from Cons.prems(1) raw e s obtain ts where r: "set_asides cands cited (Suc k) raws (seen1, aside1) = Inr (aside', ts)"
    by (auto simp: result_simps)
  have "\<forall>i \<in> set ids. P i" using expand_cites_single [OF e] assms(3) by auto
  then have "\<forall>i \<in> fst ` set aside1. P i" using set_aside_ids_sub [OF s] Cons.prems(2) by blast
  from Cons.IH [OF r this] show ?case .
qed simp

lemma known_named: "named_candidates cands named = Inr asked \<Longrightarrow> known asked i \<longleftrightarrow> i \<in> set named"
  by (auto simp: named_candidates_def known_def image_iff split: if_splits)

lemma expand_cite_between:
  assumes "named_candidates cands named = Inr asked" "expand_cite asked (JStr cite) = Inr (js, qs)" "i \<in> set js"
  shows "named_or_between named i"
  using assms(2)
proof (rule expand_cite_cases)
  fix c lo hi
  assume "Inr (js, qs) = Inr (id_span c lo hi, [])" "known asked (mk_id c lo)" "known asked (mk_id c hi)" "c \<notin> set DETECTION_LETTERS"
  moreover from this(1) assms(3) obtain n where "lo \<le> n" "n \<le> hi" "i = mk_id c n" by (auto simp: id_span_def)
  ultimately show ?thesis using known_named [OF assms(1)] unfolding named_or_between_def by blast
qed (use assms(3) known_named [OF assms(1)] in \<open>auto simp: named_or_between_def\<close>)

lemma reask_names:
  assumes n: "named_candidates cands named = Inr asked" and v: "validate_answer v asked None = Inr r"
  shows "set (cited_by (v_entries r)) \<subseteq> set named" "\<forall>i \<in> fst ` set (v_set_aside r). named_or_between named i"
proof -
  have "set (cited_by (v_entries r)) \<subseteq> set named \<and> (\<forall>i \<in> fst ` set (v_set_aside r). named_or_between named i)"
  proof (cases "grammar_problems v = []")
    case True
    with v obtain a where "read_parsed a asked None = Inr r" by (auto simp: validate_answer_def result_simps)
    then obtain xs es aside ps where
      "rmap (expand_entry asked None) (ans_entries a) = Inr xs" and
      es: "rmap (\<lambda>(raw, x). build_entry asked None (shared_units (map fst xs) asked) raw (fst x)) (zip (ans_entries a) xs) = Inr es"
      and aside: "set_asides asked (concat (map ent_cited_ids es)) 0 (ans_set_aside a) ([], []) = Inr (aside, ps)"
      and r: "r = \<lparr>v_entries = es, v_set_aside = aside, v_problems =
        concat (map2 (\<lambda>raw x. map (CiteProblem (InEntry (raw_n raw))) (snd x)) (ans_entries a) xs) @ ps\<rparr>"
      by (auto simp: read_parsed_def Let_def result_simps)
    have "i \<in> set named" if built: "build_entry asked None sh raw ids = Inr e" and i: "i \<in> set (ent_cited_ids e)" for sh raw ids e i
    proof -
      from built obtain bs where "region_boxes ids asked = Inr bs" "ent_cited_ids e = ids"
        by (auto simp: build_entry_def Let_def placing_ids_def result_simps)
      with i candidate_boxes_known [of asked ids] have "known asked i" by (auto simp: region_boxes_def result_simps)
      with known_named [OF n] show ?thesis by simp
    qed
    then have "set (cited_by es) \<subseteq> set named"
      using rmap_nth [OF es] by (fastforce simp: cited_by_def in_set_conv_nth)
    moreover have "\<forall>i \<in> fst ` set aside. named_or_between named i"
      by (rule set_asides_all [OF aside _ expand_cite_between [OF n]]) simp
    ultimately show ?thesis using r by simp
  next
    case False
    with v show ?thesis by (auto simp: validate_answer_def Let_def cited_by_def)
  qed
  then show "set (cited_by (v_entries r)) \<subseteq> set named" "\<forall>i \<in> fst ` set (v_set_aside r). named_or_between named i"
    by blast+
qed

text \<open>
  C13. A re-ask stands only when it is a parsed answer that finished on \<open>stop\<close> with no
  problem; one that does not stand adds nothing, and one that stands adds entries numbered
  on from the first reading's, each marked with its own number in the re-ask and citing named ids
  alone, sets aside only named ids and ids between two named ones, and leaves no
  id both cited and set aside, or set aside twice, across the two readings.
\<close>

theorem combined_answer_sound:
  assumes "combined_answer r reading named cands = Inr c"
  shows "(\<not> c_stands c \<longrightarrow> c_entries c = [] \<and> c_set_aside c = []) \<and>
    (c_stands c \<longrightarrow> rd_parse_state reading = PARSED \<and> finished_on_stop reading \<and> c_problems c = [] \<and>
      map ent_n (c_entries c) =
        [int (length (v_entries r)) + 1..int (length (v_entries r) + length (c_entries c))] \<and>
      (\<forall>e \<in> set (c_entries c). ent_attempt e = Some REASK_READING \<and>
        ent_reading_n e = Some (ent_n e - int (length (v_entries r)))) \<and>
      set (cited_by (c_entries c)) \<subseteq> set named \<and>
      (\<forall>i \<in> fst ` set (c_set_aside c). named_or_between named i) \<and>
      set (cited_by (v_entries r)) \<inter> set (map fst (c_set_aside c)) = {} \<and>
      set (cited_by (c_entries c)) \<inter> set (map fst (v_set_aside r)) = {} \<and>
      set (map fst (v_set_aside r)) \<inter> set (map fst (c_set_aside c)) = {})"
proof (intro conjI impI)
  assume no: "\<not> c_stands c"
  with assms show "c_entries c = []" "c_set_aside c = []"
    by (auto simp: combined_answer_def Let_def result_simps)
next
  assume yes: "c_stands c"
  let ?k = "int (length (v_entries r))"
  from assms yes obtain v s where s: "rd_answer reading = Some v" "validate_reask_answer v cands named = Inr s"
    and parsed: "rd_parse_state reading = PARSED" "finished_on_stop reading"
    and none: "v_problems s = []" "across_problems r s = []" "c_problems c = []"
    and c: "c_entries c = map (add_entry ?k) (sort_key ent_n (v_entries s))"
      "c_set_aside c = v_set_aside s"
    by (auto simp: combined_answer_def Let_def result_simps split: option.splits if_splits)
  from s(2) obtain asked s' where a: "named_candidates cands named = Inr asked" "validate_answer v asked None = Inr s'"
    "v_entries s = v_entries s'" "v_set_aside s = v_set_aside s'"
    by (auto simp: validate_reask_answer_def result_simps)
  then have ns: "map ent_n (v_entries s) = [1..int (length (v_entries s))]"
    using validated_ns by metis
  then have "sorted (map ent_n (v_entries s))" by simp
  then have c': "c_entries c = map (add_entry ?k) (v_entries s)" by (simp add: c sort_key_id_if_sorted)
  show "rd_parse_state reading = PARSED" "finished_on_stop reading" "c_problems c = []"
    using parsed none by auto
  have "map ent_n (c_entries c) = map (\<lambda>n. ?k + n) (map ent_n (v_entries s))"
    by (simp add: c' add_entry_def)
  also have "\<dots> = [?k + 1..?k + int (length (v_entries s))]"
    unfolding ns by (intro nth_equalityI) simp_all
  finally show "map ent_n (c_entries c) = [?k + 1..int (length (v_entries r) + length (c_entries c))]"
    by (simp add: c')
  show "\<forall>e \<in> set (c_entries c). ent_attempt e = Some REASK_READING \<and>
        ent_reading_n e = Some (ent_n e - ?k)"
    by (auto simp: c' add_entry_def)
  show "set (cited_by (c_entries c)) \<subseteq> set named" "\<forall>i \<in> fst ` set (c_set_aside c). named_or_between named i"
    using reask_names [OF a(1,2)] by (simp_all add: c' add_entry_cited c(2) a(3,4))
  show "set (cited_by (v_entries r)) \<inter> set (map fst (c_set_aside c)) = {}"
    "set (cited_by (c_entries c)) \<inter> set (map fst (v_set_aside r)) = {}"
    "set (map fst (v_set_aside r)) \<inter> set (map fst (c_set_aside c)) = {}"
    using across_none [OF none(2)] by (simp_all only: c' add_entry_cited c(2))
qed

definition first_validated :: validated where
  "first_validated =
     \<lparr>v_entries = [\<lparr>ent_n = 1, ent_kind = ACT_CLASS, ent_entry_kind = ACT, ent_placing_shared = [],
        ent_label = None, ent_cites = [u ''A1''], ent_cited_ids = [u ''A1''],
        ent_region = [mk_box 0 0 100 20], ent_union = Some (mk_box 0 0 100 20),
        ent_text = u ''Baptized'', ent_from_previous = False, ent_to_next = False,
        ent_attempt = None, ent_reading_n = None\<rparr>],
      v_set_aside = [(u ''S1'', u ''a stamp'')], v_problems = []\<rparr>"

definition reask_reading :: "json \<Rightarrow> reading" where
  "reask_reading v = \<lparr>rd_parse_state = PARSED, rd_answer = Some v, rd_finish = Some (u ''stop''),
     rd_disposition = u ''read''\<rparr>"

definition second_answer :: json where
  "second_answer = reask_json [entry_json 1 ''act'' [''A2''] ''Maried''] []"

theorem combined_answer_sound_witness:
  "case combined_answer first_validated (reask_reading second_answer) [u ''A2''] sample_candidates of
     Inl _ \<Rightarrow> False
   | Inr c \<Rightarrow> c_stands c \<and> map ent_n (c_entries c) = [2] \<and>
       set (cited_by (c_entries c)) \<inter> set (map fst (v_set_aside first_validated)) = {}"
proof (cases "combined_answer first_validated (reask_reading second_answer) [u ''A2''] sample_candidates")
  case (Inl e)
  have "(case combined_answer first_validated (reask_reading second_answer) [u ''A2''] sample_candidates of
     Inl _ \<Rightarrow> False | Inr c \<Rightarrow> True)" by code_simp
  with Inl show ?thesis by simp
next
  case (Inr c)
  have "(case combined_answer first_validated (reask_reading second_answer) [u ''A2''] sample_candidates of
     Inl _ \<Rightarrow> False | Inr c \<Rightarrow> c_stands c \<and> map ent_n (c_entries c) = [2])" by code_simp
  with combined_answer_sound [OF Inr] Inr show ?thesis by simp
qed

section \<open>A range over a gap\<close>

definition gap_candidates :: candidates where
  "gap_candidates = [(u ''A1'', Some (mk_box 0 0 100 20)), (u ''A2'', Some (mk_box 0 20 100 20)),
     (u ''A3'', Some (mk_box 0 40 100 20))]"

text \<open>
  The ids a re-ask names need not be numbered without a gap, but a range is still read
  by its two ends: an entry of a re-ask about \<open>A1\<close> and \<open>A3\<close> that cites \<open>A1-A3\<close> raises a
  \<open>KeyError\<close> for \<open>A2\<close> instead of being refused as \<open>unknown-id\<close>, and setting \<open>A1-A3\<close> aside
  sets aside \<open>A2\<close>, which the re-ask was never asked about, with no problem at all.
\<close>

theorem reask_range_over_gap:
  "(case validate_reask_answer (reask_json [entry_json 1 ''act'' [''A1-A3''] ''Baptized''] [])
       gap_candidates [u ''A1'', u ''A3''] of
      Inl e \<Rightarrow> e = KeyError ''candidates'' | Inr _ \<Rightarrow> False) \<and>
   (case validate_reask_answer (reask_json [] [(''A1-A3'', ''ruled off'')])
       gap_candidates [u ''A1'', u ''A3''] of
      Inl _ \<Rightarrow> False
    | Inr r \<Rightarrow> v_problems r = [] \<and> map fst (v_set_aside r) = [u ''A1'', u ''A2'', u ''A3''])"
  by code_simp

section \<open>Duplicate regions\<close>

definition claims_same_ink :: "policy \<Rightarrow> box list \<Rightarrow> box list \<Rightarrow> bool" where
  "claims_same_ink p region other \<longleftrightarrow> region \<noteq> [] \<and> other \<noteq> [] \<and>
     int (card (cover region \<inter> cover other)) * BASIS_POINTS >
       max_shared_share_bp p * min (int (card (cover region))) (int (card (cover other)))"

lemma shared_area_cover: "shared_area region other = int (card (cover region \<inter> cover other))"
  by (simp add: shared_area_def region_area_pixels cover_overlaps)

lemma duplicate_pair_mem:
  "d \<in> set (duplicate_pair p e f) \<longleftrightarrow>
     claims_same_ink p (fst (compared_regions e f)) (snd (compared_regions e f)) \<and>
     d = \<lparr>dup_ns = sort [ent_n e, ent_n f],
          dup_shared = int (card (cover (fst (compared_regions e f)) \<inter> cover (snd (compared_regions e f)))),
          dup_smaller = min (int (card (cover (fst (compared_regions e f)))))
            (int (card (cover (snd (compared_regions e f)))))\<rparr>"
  by (auto simp: duplicate_pair_def Let_def claims_same_ink_def shared_area_cover region_area_pixels
      case_prod_unfold)

lemma pairwise_mem:
  "y \<in> set (pairwise f xs) \<longleftrightarrow> (\<exists>i j. i < j \<and> j < length xs \<and> y \<in> set (f (xs ! i) (xs ! j)))"
proof (induction xs)
  case (Cons x xs)
  have "(\<exists>i j. i < j \<and> j < length (x # xs) \<and> y \<in> set (f ((x # xs) ! i) ((x # xs) ! j))) \<longleftrightarrow>
      (\<exists>j < length xs. y \<in> set (f x (xs ! j))) \<or>
      (\<exists>i j. i < j \<and> j < length xs \<and> y \<in> set (f (xs ! i) (xs ! j)))" (is "?l \<longleftrightarrow> ?a \<or> ?b")
  proof
    assume ?l
    then obtain i j where ij: "i < j" "j < length (x # xs)" "y \<in> set (f ((x # xs) ! i) ((x # xs) ! j))" by blast
    then obtain j' where j: "j = Suc j'" by (cases j) auto
    show "?a \<or> ?b" using ij j by (cases i) auto
  next
    assume "?a \<or> ?b"
    then show ?l
    proof
      assume ?a
      then obtain j where "j < length xs" "y \<in> set (f x (xs ! j))" by blast
      then show ?l by (intro exI [of _ 0] exI [of _ "Suc j"]) simp
    next
      assume ?b
      then obtain i j where "i < j" "j < length xs" "y \<in> set (f (xs ! i) (xs ! j))" by blast
      then show ?l by (intro exI [of _ "Suc i"] exI [of _ "Suc j"]) simp
    qed
  qed
  moreover have "y \<in> set (concat (map (f x) xs)) \<longleftrightarrow> ?a" by (auto simp: set_conv_nth [of xs])
  ultimately show ?case by (simp only: pairwise.simps set_append Un_iff Cons)
qed simp

text \<open>
  Two placed entries are reported as duplicates exactly when the pixels both compared
  regions hold exceed the sealed share of the smaller one, and the areas reported are those
  pixel counts; the findings come in the order of the entries' numbers.
\<close>

theorem duplicate_regions_exact:
  "(d \<in> set (duplicate_regions entries p) \<longleftrightarrow>
     (\<exists>i j. i < j \<and> j < length (filter (\<lambda>e. ent_region e \<noteq> []) entries) \<and>
       (let e = filter (\<lambda>e. ent_region e \<noteq> []) entries ! i;
            f = filter (\<lambda>e. ent_region e \<noteq> []) entries ! j;
            region = fst (compared_regions e f); other = snd (compared_regions e f)
        in claims_same_ink p region other \<and>
           d = \<lparr>dup_ns = sort [ent_n e, ent_n f],
                dup_shared = int (card (cover region \<inter> cover other)),
                dup_smaller = min (int (card (cover region))) (int (card (cover other)))\<rparr>))) \<and>
   sorted (map dup_ns (duplicate_regions entries p))"
  unfolding duplicate_regions_def set_sort pairwise_mem duplicate_pair_mem Let_def
  by (simp only: sorted_sort_key simp_thms)

end
