(* ===== verification/Align.thy ===== *)
theory Align
  imports Policy
begin

text \<open>
  The alignment of rule (e), \<open>common/page_accounting.py\<close>: matching blocks of a witness text
  against a reading, under a work budget. Work is a state passed along: a computation takes
  the steps left and returns its value, or the reason it was not measured, with the steps
  left after it. The work lists are loops that end because each turn is charged a step.
  \<open>longest_match\<close> is \<open>difflib.SequenceMatcher.find_longest_match\<close> without junk. Positions are
  integers, as in the code; \<open>at\<close> reads a character at one.
\<close>

section \<open>Work\<close>

type_synonym 'r work = "int \<Rightarrow> (string + 'r) \<times> int"

definition wret :: "'r \<Rightarrow> 'r work" where
  "wret x left = (Inr x, left)"

definition wfail :: "string \<Rightarrow> 'r work" where
  "wfail e left = (Inl e, left)"

definition wbind :: "'r work \<Rightarrow> ('r \<Rightarrow> 's work) \<Rightarrow> 's work" where
  "wbind m f left = (case m left of (Inl e, l) \<Rightarrow> (Inl e, l) | (Inr x, l) \<Rightarrow> f x l)"

definition spend :: "int \<Rightarrow> unit work" where
  "spend steps left =
     (if left - steps < 0 then (Inl ''work-bound'', left - steps) else (Inr (), left - steps))"

section \<open>The longest common run\<close>

type_synonym block = "int \<times> int \<times> int"
type_synonym ranges = "int \<times> int \<times> int \<times> int"

definition at :: "'a list \<Rightarrow> int \<Rightarrow> 'a" where
  "at xs i = xs ! nat i"

text \<open>One row: the columns that match \<open>a[i]\<close>, ascending, extend the runs of the row before.\<close>

fun match_row ::
  "int \<Rightarrow> (int \<times> int) list \<Rightarrow> int list \<Rightarrow> (int \<times> int) list \<Rightarrow> block \<Rightarrow> (int \<times> int) list \<times> block" where
  "match_row i old [] new best = (new, best)"
| "match_row i old (j # js) new best =
     (let k = (case map_of old (j - 1) of None \<Rightarrow> 0 | Some k \<Rightarrow> k) + 1;
          best' = (if k > snd (snd best) then (i - k + 1, j - k + 1, k) else best)
      in match_row i old js ((j, k) # new) best')"

definition columns_of :: "'a list \<Rightarrow> 'a \<Rightarrow> int \<Rightarrow> int \<Rightarrow> int list" where
  "columns_of b c j0 j1 = filter (\<lambda>j. at b j = c) [j0..j1 - 1]"

fun match_rows ::
  "'a list \<Rightarrow> 'a list \<Rightarrow> int \<Rightarrow> int \<Rightarrow> int list \<Rightarrow> (int \<times> int) list \<Rightarrow> block \<Rightarrow> block" where
  "match_rows a b j0 j1 [] old best = best"
| "match_rows a b j0 j1 (i # is') old best =
     (let (new, best') = match_row i old (columns_of b (at a i) j0 j1) [] best
      in match_rows a b j0 j1 is' new best')"

definition longest_match :: "'a list \<Rightarrow> 'a list \<Rightarrow> ranges \<Rightarrow> block" where
  "longest_match a b rng =
     (case rng of (i0, i1, j0, j1) \<Rightarrow> match_rows a b j0 j1 [i0..i1 - 1] [] (i0, j0, 0))"

text \<open>The scan of one diagonal, and of every diagonal of the band that meets the box.\<close>

fun scan_diagonal :: "'a list \<Rightarrow> 'a list \<Rightarrow> int \<Rightarrow> int list \<Rightarrow> int \<Rightarrow> block \<Rightarrow> block" where
  "scan_diagonal a b d [] run best = best"
| "scan_diagonal a b d (x # xs) run best =
     (if at a x = at b (x - d)
      then scan_diagonal a b d xs (run + 1)
             (if run + 1 > snd (snd best) then (x - run, x - run - d, run + 1) else best)
      else scan_diagonal a b d xs 0 best)"

fun scan_band :: "'a list \<Rightarrow> 'a list \<Rightarrow> ranges \<Rightarrow> int list \<Rightarrow> block \<Rightarrow> block work" where
  "scan_band a b rng [] best = wret best"
| "scan_band a b rng (d # ds) best =
     (case rng of (i0, i1, j0, j1) \<Rightarrow>
        let start = max i0 (j0 + d); stop = min i1 (j1 + d) in
        wbind (spend (max 0 (stop - start))) (\<lambda>_.
          scan_band a b rng ds (scan_diagonal a b d [start..stop - 1] 0 best)))"

definition longest_in_band :: "'a list \<Rightarrow> 'a list \<Rightarrow> ranges \<Rightarrow> int \<times> int \<Rightarrow> block work" where
  "longest_in_band a b rng band =
     (case (rng, band) of ((i0, i1, j0, j1), (low, high)) \<Rightarrow>
        wbind (spend ((i1 - i0) * (j1 - j0))) (\<lambda>_.
          case longest_match a b rng of (i, j, sz) \<Rightarrow>
            if sz = 0 \<or> low \<le> i - j \<and> i - j \<le> high then wret (i, j, sz)
            else scan_band a b rng
                   [max low (i0 - j1 + 1)..min high (i1 - 1 - j0)] (i0, j0, 0)))"

section \<open>What a charge leaves\<close>

text \<open>A computation that never returns steps: charged, it leaves at most what it was given.\<close>

definition charges :: "'r work \<Rightarrow> bool" where
  "charges m \<longleftrightarrow> (\<forall>left. snd (m left) \<le> left \<and> (\<forall>x l. m left = (Inr x, l) \<longrightarrow> 0 \<le> left \<longrightarrow> 0 \<le> l))"

lemma charges_wret [intro, simp]: "charges (wret x)"
  by (simp add: charges_def wret_def)

lemma charges_wfail [intro, simp]: "charges (wfail e)"
  by (simp add: charges_def wfail_def)

lemma charges_spend [intro]: "0 \<le> n \<Longrightarrow> charges (spend n)"
  by (auto simp: charges_def spend_def split: if_splits)

lemma charges_wbind [intro]:
  assumes "charges m" "\<And>x. charges (f x)"
  shows "charges (wbind m f)"
  unfolding charges_def
proof (intro allI)
  fix left
  obtain r l where m: "m left = (r, l)" by force
  have l: "l \<le> left" using assms(1) m unfolding charges_def by (metis snd_conv)
  show "snd (wbind m f left) \<le> left \<and> (\<forall>x l. wbind m f left = (Inr x, l) \<longrightarrow> 0 \<le> left \<longrightarrow> 0 \<le> l)"
  proof (cases r)
    case (Inl e)
    with m l show ?thesis by (simp add: wbind_def)
  next
    case (Inr y)
    with assms(1) m have "0 \<le> left \<longrightarrow> 0 \<le> l" unfolding charges_def by blast
    moreover have "snd (f y l) \<le> l" "\<forall>x l'. f y l = (Inr x, l') \<longrightarrow> 0 \<le> l \<longrightarrow> 0 \<le> l'"
      using assms(2) unfolding charges_def by blast+
    ultimately show ?thesis using m Inr l by (auto simp: wbind_def)
  qed
qed

lemma charges_scan_band: "charges (scan_band a b rng ds best)"
proof (induction ds arbitrary: best)
  case (Cons d ds)
  obtain i0 i1 j0 j1 where r: "rng = (i0, i1, j0, j1)" by (metis prod_cases4)
  have "charges (wbind (spend (max 0 (min i1 (j1 + d) - max i0 (j0 + d)))) (\<lambda>_.
      scan_band a b rng ds (scan_diagonal a b d [max i0 (j0 + d)..min i1 (j1 + d) - 1] 0 best)))"
    by (intro charges_wbind charges_spend Cons) simp
  then show ?case by (simp add: r Let_def)
qed simp

lemma charges_longest_in_band:
  assumes "i0 \<le> i1" "j0 \<le> j1"
  shows "charges (longest_in_band a b (i0, i1, j0, j1) band)"
proof -
  obtain low high where "band = (low, high)" by force
  then show ?thesis using assms unfolding longest_in_band_def
    by (auto intro!: charges_wbind charges_spend charges_scan_band split: prod.split)
qed

lemma charges_left: "charges m \<Longrightarrow> m left = (r, l) \<Longrightarrow> l \<le> left"
  unfolding charges_def by (metis snd_conv)

lemma spend_ok: "spend n left = (Inr x, l) \<Longrightarrow> l = left - n \<and> 0 \<le> l"
  by (auto simp: spend_def split: if_splits)

lemma spend_step: "(x, l) = spend 1 left \<Longrightarrow> x = Inr y \<Longrightarrow> nat l < nat left"
  by (auto simp: spend_def split: if_splits)

lemma band_step:
  assumes "(x, l) = spend 1 left" "x = Inr y" "\<not> (i1 \<le> i0 \<or> j1 \<le> j0)"
    "(r, l2) = longest_in_band a b (i0, i1, j0, j1) band l"
  shows "nat l2 < nat left"
proof -
  have "charges (longest_in_band a b (i0, i1, j0, j1) band)"
    using assms(3) by (intro charges_longest_in_band) auto
  from charges_left [OF this] assms(4) have "l2 \<le> l" by metis
  with spend_step [OF assms(1,2)] show ?thesis by linarith
qed

section \<open>Direct matching\<close>

text \<open>
  The work list is a stack; its turn is charged one step before it is taken, so the loop
  ends whatever the runs found.
\<close>

function direct_loop ::
  "'a list \<Rightarrow> 'a list \<Rightarrow> policy \<Rightarrow> ranges list \<Rightarrow> block list \<Rightarrow> block list work" where
  "direct_loop a b p [] blocks left = (Inr blocks, left)"
| "direct_loop a b p ((i0, i1, j0, j1) # work) blocks left =
     (case spend 1 left of
        (Inl e, l) \<Rightarrow> (Inl e, l)
      | (Inr _, l) \<Rightarrow>
          if i0 \<ge> i1 \<or> j0 \<ge> j1 then direct_loop a b p work blocks l
          else
            (case longest_in_band a b (i0, i1, j0, j1)
                    (min (i0 - j0) (i1 - j1) - band_slack p, max (i0 - j0) (i1 - j1) + band_slack p) l of
               (Inl e, l2) \<Rightarrow> (Inl e, l2)
             | (Inr (i, j, sz), l2) \<Rightarrow>
                 if sz < min_block_characters p then direct_loop a b p work blocks l2
                 else direct_loop a b p ((i + sz, i1, j + sz, j1) # (i0, i, j0, j) # work)
                        (blocks @ [(i, j, sz)]) l2))"
  by pat_completeness auto
termination
  by (relation "measure (\<lambda>(a, b, p, work, blocks, left). nat left)")
    (simp_all only: wf_measure in_measure prod.case, (metis band_step spend_step)+)

lemma direct_loop_charges:
  "direct_loop a b p work blocks left = (r, l) \<Longrightarrow> l \<le> left \<and> (\<forall>x. r = Inr x \<longrightarrow> 0 \<le> left \<longrightarrow> 0 \<le> l)"
proof (induction a b p work blocks left arbitrary: r l rule: direct_loop.induct)
  case (2 a b p i0 i1 j0 j1 work blocks left)
  let ?band = "(min (i0 - j0) (i1 - j1) - band_slack p, max (i0 - j0) (i1 - j1) + band_slack p)"
  obtain x l1 where s: "spend 1 left = (x, l1)" by force
  show ?case
  proof (cases x)
    case (Inl e)
    with "2.prems" s show ?thesis by (auto simp: spend_def split: if_splits)
  next
    case (Inr y)
    with s have l1: "l1 = left - 1" "0 \<le> l1" using spend_ok by metis+
    show ?thesis
    proof (cases "i0 \<ge> i1 \<or> j0 \<ge> j1")
      case True
      with "2.prems" s Inr have "direct_loop a b p work blocks l1 = (r, l)" by simp
      from "2.IH"(1) [OF s [symmetric] Inr True this] l1 show ?thesis by auto
    next
      case False
      obtain z l2 where z: "longest_in_band a b (i0, i1, j0, j1) ?band l1 = (z, l2)" by force
      have ch: "charges (longest_in_band a b (i0, i1, j0, j1) ?band)"
        using False by (intro charges_longest_in_band) auto
      then have l2: "l2 \<le> l1" "\<forall>x. z = Inr x \<longrightarrow> 0 \<le> l2"
        using z l1(2) charges_left [OF ch z] unfolding charges_def by blast+
      show ?thesis
      proof (cases z)
        case (Inl e)
        with "2.prems" s Inr False z l2 l1 show ?thesis by auto
      next
        case zr: (Inr t)
        obtain i j sz where t: "t = (i, j, sz)" by (metis prod_cases3)
        show ?thesis
        proof (cases "sz < min_block_characters p")
          case True
          with "2.prems" s Inr False z zr t have "direct_loop a b p work blocks l2 = (r, l)" by simp
          from "2.IH"(2) [OF s [symmetric] Inr False z [symmetric] zr t [symmetric] refl True this] l1 l2 zr
          show ?thesis by auto
        next
          case big: False
          with "2.prems" s Inr False z zr t
          have "direct_loop a b p ((i + sz, i1, j + sz, j1) # (i0, i, j0, j) # work)
              (blocks @ [(i, j, sz)]) l2 = (r, l)" by simp
          from "2.IH"(3) [OF s [symmetric] Inr False z [symmetric] zr t [symmetric] refl big this] l1 l2 zr
          show ?thesis by auto
        qed
      qed
    qed
  qed
qed simp

lemma charges_direct_loop: "charges (direct_loop a b p work blocks)"
  unfolding charges_def using direct_loop_charges by (metis prod.collapse)

section \<open>Anchors\<close>

definition slice :: "'a list \<Rightarrow> int \<Rightarrow> int \<Rightarrow> 'a list" where
  "slice xs lo hi = take (nat hi - nat lo) (drop (nat lo) xs)"

definition direct_blocks :: "'a list \<Rightarrow> 'a list \<Rightarrow> ranges \<Rightarrow> policy \<Rightarrow> block list work" where
  "direct_blocks a b rng p =
     (case rng of (alo, ahi, blo, bhi) \<Rightarrow>
        wbind (direct_loop (slice a alo ahi) (slice b blo bhi) p [(0, ahi - alo, 0, bhi - blo)] [])
          (\<lambda>bs. wret (map (\<lambda>(i, j, sz). (alo + i, blo + j, sz)) bs)))"

text \<open>The k-grams of a range that occur in it once, with their positions.\<close>

definition grams :: "'a list \<Rightarrow> int \<Rightarrow> int \<Rightarrow> int \<Rightarrow> ('a list \<times> int) list" where
  "grams text lo hi k = map (\<lambda>i. (slice text i (i + k), i)) [lo..hi - k]"

definition unique_grams :: "'a list \<Rightarrow> int \<Rightarrow> int \<Rightarrow> int \<Rightarrow> ('a list \<times> int) list" where
  "unique_grams text lo hi k =
     (let gs = grams text lo hi k in filter (\<lambda>(g, i). count_list (map fst gs) g = 1) gs)"

definition anchor_pairs :: "'a list \<Rightarrow> 'a list \<Rightarrow> ranges \<Rightarrow> int \<Rightarrow> (int \<times> int) list" where
  "anchor_pairs a b rng k =
     (case rng of (alo, ahi, blo, bhi) \<Rightarrow>
        let in_b = unique_grams b blo bhi k in
        sort (concat (map (\<lambda>(g, i). case map_of in_b g of None \<Rightarrow> [] | Some j \<Rightarrow> [(i, j)])
          (unique_grams a alo ahi k))))"

text \<open>
  Patience sorting. A tail keeps the chain its \<open>previous\<close> links give, newest pair first;
  \<open>bisect_left\<close> counts the tails below \<open>j\<close>.
\<close>

definition place_pair :: "int \<times> int \<Rightarrow> (int \<times> int) list list \<Rightarrow> (int \<times> int) list list" where
  "place_pair pr tails =
     (let pos = length (takeWhile (\<lambda>c. snd (hd c) < snd pr) tails);
          new = pr # (if pos = 0 then [] else tails ! (pos - 1))
      in if pos = length tails then tails @ [new] else tails[pos := new])"

definition longest_chain :: "(int \<times> int) list \<Rightarrow> (int \<times> int) list" where
  "longest_chain pairs =
     (let tails = fold place_pair pairs [] in if tails = [] then [] else rev (last tails))"

definition add_anchor :: "int \<Rightarrow> int \<times> int \<Rightarrow> block list \<Rightarrow> block list" where
  "add_anchor k pr blocks =
     (case pr of (i, j) \<Rightarrow>
        if blocks = [] then [(i, j, k)]
        else case last blocks of (bi, bj, sz) \<Rightarrow>
          if i - j = bi - bj \<and> i \<le> bi + sz
          then butlast blocks @ [(bi, bj, max sz (i + k - bi))]
          else if i < bi + sz \<or> j < bj + sz then blocks
          else blocks @ [(i, j, k)])"

definition anchor_blocks :: "'a list \<Rightarrow> 'a list \<Rightarrow> ranges \<Rightarrow> int \<Rightarrow> block list" where
  "anchor_blocks a b rng k = fold (add_anchor k) (longest_chain (anchor_pairs a b rng k)) []"

definition consistent_anchors :: "block list \<Rightarrow> policy \<Rightarrow> block list" where
  "consistent_anchors blocks p =
     (let diagonals = map (\<lambda>(i, j, sz). i - j) blocks; reach = anchor_neighbours p in
      concat (map (\<lambda>(index, block).
        let window = sort (slice diagonals (max 0 (index - reach)) (index + reach + 1)) in
        if \<bar>at diagonals index - window ! (length window div 2)\<bar> \<le> anchor_offset_tolerance p
        then [block] else [])
        (zip [0..int (length blocks) - 1] blocks)))"

fun anchor_gaps :: "int \<Rightarrow> int \<Rightarrow> int \<Rightarrow> int \<Rightarrow> block list \<Rightarrow> ranges list" where
  "anchor_gaps ca cb ahi bhi [] = [(ca, ahi, cb, bhi)]"
| "anchor_gaps ca cb ahi bhi ((i, j, sz) # anchors) =
     (ca, i, cb, j) # anchor_gaps (i + sz) (j + sz) ahi bhi anchors"

section \<open>Matching blocks\<close>

text \<open>One turn of the outer work list: the blocks it finds and the ranges it pushes.\<close>

definition match_turn :: "'a list \<Rightarrow> 'a list \<Rightarrow> policy \<Rightarrow> ranges \<Rightarrow> (block list \<times> ranges list) work" where
  "match_turn a b p rng =
     (case rng of (alo, ahi, blo, bhi) \<Rightarrow>
        if alo \<ge> ahi \<or> blo \<ge> bhi then wret ([], [])
        else
          let pairs = (ahi - alo) * (bhi - blo) in
          if pairs \<le> direct_alignment_max_pairs p
          then wbind (direct_blocks a b rng p) (\<lambda>bs. wret (bs, []))
          else wbind (spend ((ahi - alo + bhi - blo) * anchor_characters p)) (\<lambda>_.
            let anchors = consistent_anchors (anchor_blocks a b rng (anchor_characters p)) p in
            if anchors = [] then
              (if pairs > max_alignment_pairs p then wfail ''size-bound''
               else wbind (direct_blocks a b rng p) (\<lambda>bs. wret (bs, [])))
            else wret (anchors, anchor_gaps alo blo ahi bhi anchors)))"

lemma charges_direct_blocks: "charges (direct_blocks a b rng p)"
  unfolding direct_blocks_def
  by (auto intro!: charges_wbind charges_direct_loop split: prod.split)

lemma charges_match_turn: "0 \<le> anchor_characters p \<Longrightarrow> charges (match_turn a b p rng)"
  unfolding match_turn_def Let_def
  by (auto intro!: charges_wbind charges_direct_blocks charges_spend split: prod.split)

text \<open>
  A policy's anchor width is positive (\<open>wf_policy\<close>); a turn is run only with a width that is
  not negative, which every policy that loads has.
\<close>

function match_loop ::
  "'a list \<Rightarrow> 'a list \<Rightarrow> policy \<Rightarrow> ranges list \<Rightarrow> block list \<Rightarrow> block list work" where
  "match_loop a b p [] blocks left = (Inr blocks, left)"
| "match_loop a b p (rng # work) blocks left =
     (case spend 1 left of
        (Inl e, l) \<Rightarrow> (Inl e, l)
      | (Inr _, l) \<Rightarrow>
          (case match_turn a b p rng l of
             (Inl e, l2) \<Rightarrow> (Inl e, l2)
           | (Inr (bs, pushed), l2) \<Rightarrow>
               if l2 > l then (Inl ''work-bound'', l2)
               else match_loop a b p (rev pushed @ work) (blocks @ bs) l2))"
  by pat_completeness auto
termination
proof (relation "measure (\<lambda>(a, b, p, work, blocks, left). nat left)", goal_cases)
  case 1
  show ?case by (rule wf_measure)
next
  case (2 a b p rng work blocks left x y u v l2 w bs pushed)
  then have "nat y < nat left" by (metis spend_step)
  with 2 show ?case by simp
qed

definition matching_blocks :: "'a list \<Rightarrow> 'a list \<Rightarrow> policy \<Rightarrow> block list work" where
  "matching_blocks a b p =
     (let la = int (length a); lb = int (length b) in
      if la > max_characters p \<or> lb > max_characters p then wfail ''size-bound''
      else wbind (match_loop a b p [(0, la, 0, lb)] []) (\<lambda>bs. wret (sort bs)))"

end
