(* ===== verification/AlignFacts.thy ===== *)
theory AlignFacts
  imports Align
begin

text \<open>
  What the alignment guarantees. A run is common when the two texts agree along it; the
  longest common run of a box is one and no other is longer; the work lists keep their
  ranges and blocks apart, so the blocks come out ordered and disjoint on both texts.
\<close>

section \<open>Common runs\<close>

definition common_run :: "'a list \<Rightarrow> 'a list \<Rightarrow> int \<Rightarrow> int \<Rightarrow> int \<Rightarrow> bool" where
  "common_run a b x y s \<longleftrightarrow> (\<forall>k. 0 \<le> k \<and> k < s \<longrightarrow> at a (x + k) = at b (y + k))"

fun good_run :: "'a list \<Rightarrow> 'a list \<Rightarrow> ranges \<Rightarrow> block \<Rightarrow> bool" where
  "good_run a b (i0, i1, j0, j1) (i, j, s) \<longleftrightarrow>
     i0 \<le> i \<and> j0 \<le> j \<and> i + s \<le> i1 \<and> j + s \<le> j1 \<and> 0 \<le> s \<and> common_run a b i j s"

lemma common_run_0 [simp]: "common_run a b x y 0"
  unfolding common_run_def by (metis linorder_not_less)

lemma common_run_extend:
  assumes "common_run a b x y s" "at a (x + s) = at b (y + s)" "0 \<le> s"
  shows "common_run a b x y (s + 1)"
  unfolding common_run_def
proof (intro allI impI)
  fix k assume "0 \<le> k \<and> k < s + 1"
  then show "at a (x + k) = at b (y + k)" using assms by (cases "k = s") (auto simp: common_run_def)
qed

lemma common_run_shorter: "common_run a b x y s \<Longrightarrow> t \<le> s \<Longrightarrow> common_run a b x y t"
  by (auto simp: common_run_def)

lemma common_run_last: "common_run a b x y s \<Longrightarrow> 1 \<le> s \<Longrightarrow> at a (x + s - 1) = at b (y + s - 1)"
  unfolding common_run_def by (metis add_diff_eq diff_ge_0_iff_ge le_add_diff_inverse less_add_one
      linorder_not_less diff_add_cancel)

section \<open>The longest match\<close>

definition prev_run :: "(int \<times> int) list \<Rightarrow> int \<Rightarrow> int" where
  "prev_run old j = (case map_of old j of None \<Rightarrow> 0 | Some k \<Rightarrow> k)"

lemma match_row_new:
  "match_row i old js new best = (new', best') \<Longrightarrow>
     map_of new' j = (if j \<in> set js then Some (prev_run old (j - 1) + 1) else map_of new j)"
  by (induction i old js new best rule: match_row.induct) (auto simp: Let_def prev_run_def split: if_splits)

text \<open>Of two common runs, the one that comes first: the longer, or as long and starting no later.\<close>

fun leads :: "block \<Rightarrow> block \<Rightarrow> bool" where
  "leads (i, j, s) (x, y, t) \<longleftrightarrow> t \<le> s \<and> (t = s \<longrightarrow> s = 0 \<or> i < x \<or> i = x \<and> j \<le> y)"

lemma leads_size: "leads best (x, y, t) \<Longrightarrow> t \<le> snd (snd best)"
  by (cases best) simp

lemma match_row_first:
  "match_row i old js new best = (new', best') \<Longrightarrow> sorted_wrt (<) js \<Longrightarrow> best' \<noteq> best \<Longrightarrow>
     \<exists>j \<in> set js. best' = (i - prev_run old (j - 1), j - prev_run old (j - 1), prev_run old (j - 1) + 1) \<and>
       snd (snd best) < snd (snd best') \<and>
       (\<forall>j' \<in> set js. prev_run old (j' - 1) + 1 = snd (snd best') \<longrightarrow> j \<le> j')"
proof (induction i old js new best rule: match_row.induct)
  case (2 i old j js new best)
  define k where "k = prev_run old (j - 1) + 1"
  define b where "b = (if k > snd (snd best) then (i - k + 1, j - k + 1, k) else best)"
  have "match_row i old (j # js) new best = match_row i old js ((j, k) # new) b"
    unfolding match_row.simps Let_def k_def b_def prev_run_def ..
  with "2.prems" have r: "match_row i old js ((j, k) # new) b = (new', best')" by simp
  have later: "j < j'" if "j' \<in> set js" for j' using that "2.prems"(2) by simp
  have here: "b = (i - prev_run old (j - 1), j - prev_run old (j - 1), prev_run old (j - 1) + 1) \<and> snd (snd best) < k"
    if "b \<noteq> best" using that by (auto simp: b_def k_def split: if_splits)
  show ?case
  proof (cases "best' = b")
    case True
    with "2.prems"(3) here have "best' = (i - prev_run old (j - 1), j - prev_run old (j - 1), prev_run old (j - 1) + 1)"
      "snd (snd best) < k" by auto
    then show ?thesis using later [THEN less_imp_le] by (intro bexI [of _ j]) (auto simp: k_def)
  next
    case False
    from "2.IH" [OF k_def [unfolded prev_run_def] b_def r _ False] "2.prems"(2) obtain j1 where j1: "j1 \<in> set js"
      "best' = (i - prev_run old (j1 - 1), j1 - prev_run old (j1 - 1), prev_run old (j1 - 1) + 1)"
      "snd (snd b) < snd (snd best')" "\<forall>j' \<in> set js. prev_run old (j' - 1) + 1 = snd (snd best') \<longrightarrow> j1 \<le> j'"
      by auto
    have "snd (snd best) \<le> snd (snd b)" "k \<le> snd (snd b)" by (auto simp: b_def)
    with j1 show ?thesis by (intro bexI [of _ j1]) (auto simp: k_def)
  qed
qed simp

lemma match_row_best:
  "match_row i old js new best = (new', best') \<Longrightarrow>
     snd (snd best) \<le> snd (snd best') \<and> (\<forall>j \<in> set js. prev_run old (j - 1) + 1 \<le> snd (snd best')) \<and>
     (best' = best \<or> (\<exists>j \<in> set js. best' =
       (i - prev_run old (j - 1), j - prev_run old (j - 1), prev_run old (j - 1) + 1)))"
proof (induction i old js new best rule: match_row.induct)
  case (2 i old j js new best)
  define k where "k = prev_run old (j - 1) + 1"
  define b where "b = (if k > snd (snd best) then (i - k + 1, j - k + 1, k) else best)"
  have "match_row i old (j # js) new best = match_row i old js ((j, k) # new) b"
    unfolding match_row.simps Let_def k_def b_def prev_run_def ..
  with "2.prems" have r: "match_row i old js ((j, k) # new) b = (new', best')" by simp
  note ih = "2.IH" [OF k_def [unfolded prev_run_def] b_def r]
  have b: "snd (snd best) \<le> snd (snd b)" "k \<le> snd (snd b)" by (auto simp: b_def)
  have "b = best \<or> b = (i - prev_run old (j - 1), j - prev_run old (j - 1), prev_run old (j - 1) + 1)"
    by (auto simp: b_def k_def)
  with ih b show ?case unfolding list.set k_def by fastforce
qed simp

text \<open>What a row of the table records: the runs that end at its row, and all of them.\<close>

definition row_ok :: "'a list \<Rightarrow> 'a list \<Rightarrow> ranges \<Rightarrow> int \<Rightarrow> (int \<times> int) list \<Rightarrow> bool" where
  "row_ok a b rng i old \<longleftrightarrow> (case rng of (i0, i1, j0, j1) \<Rightarrow>
     (\<forall>j k. map_of old j = Some k \<longrightarrow> 1 \<le> k \<and> j < j1 \<and> i0 \<le> i - k + 1 \<and> j0 \<le> j - k + 1 \<and>
        common_run a b (i - k + 1) (j - k + 1) k) \<and>
     (\<forall>x y s. 1 \<le> s \<and> i0 \<le> x \<and> j0 \<le> y \<and> x + s - 1 = i \<and> y + s \<le> j1 \<and> common_run a b x y s \<longrightarrow>
        s \<le> prev_run old (y + s - 1)))"

lemma row_ok_start: "row_ok a b (i0, i1, j0, j1) (i0 - 1) []"
  by (auto simp: row_ok_def)

lemma row_ok_step:
  assumes ok: "row_ok a b (i0, i1, j0, j1) (i - 1) old" and i: "i0 \<le> i"
    and r: "match_row i old (columns_of b (at a i) j0 j1) [] best = (new, best')"
  shows "row_ok a b (i0, i1, j0, j1) i new"
    "\<And>j. j \<in> set (columns_of b (at a i) j0 j1) \<Longrightarrow>
       good_run a b (i0, i + 1, j0, j1) (i - prev_run old (j - 1), j - prev_run old (j - 1), prev_run old (j - 1) + 1)"
proof -
  have cols: "j \<in> set (columns_of b (at a i) j0 j1) \<longleftrightarrow> j0 \<le> j \<and> j < j1 \<and> at b j = at a i" for j
    by (auto simp: columns_of_def)
  show good: "good_run a b (i0, i + 1, j0, j1)
      (i - prev_run old (j - 1), j - prev_run old (j - 1), prev_run old (j - 1) + 1)"
    if j: "j \<in> set (columns_of b (at a i) j0 j1)" for j
  proof (cases "map_of old (j - 1)")
    case None
    have "common_run a b i j (0 + 1)" using j by (intro common_run_extend) (auto simp: cols)
    with None j i show ?thesis by (simp add: prev_run_def cols)
  next
    case (Some k)
    with ok have "1 \<le> k \<and> j - 1 < j1 \<and> i0 \<le> i - 1 - k + 1 \<and> j0 \<le> j - 1 - k + 1 \<and>
        common_run a b (i - 1 - k + 1) (j - 1 - k + 1) k"
      unfolding row_ok_def prod.case by blast
    then have k: "1 \<le> k" "i0 \<le> i - k" "j0 \<le> j - k" "common_run a b (i - k) (j - k) k" by simp_all
    with j have "common_run a b (i - k) (j - k) (k + 1)"
      by (intro common_run_extend) (auto simp: cols)
    with k Some j show ?thesis by (simp add: prev_run_def cols)
  qed
  have new: "map_of new j = (if j \<in> set (columns_of b (at a i) j0 j1)
      then Some (prev_run old (j - 1) + 1) else None)" for j
    using match_row_new [OF r] by simp
  have complete: "s \<le> prev_run new (y + s - 1)"
    if h: "1 \<le> s" "i0 \<le> x" "j0 \<le> y" "x + s - 1 = i" "y + s \<le> j1" "common_run a b x y s" for x y s
  proof -
    have "at b (y + s - 1) = at a i" using common_run_last [OF h(6,1)] h(4) by simp
    then have c: "y + s - 1 \<in> set (columns_of b (at a i) j0 j1)" using h by (simp add: cols)
    have "s - 1 \<le> prev_run old (y + s - 1 - 1)"
    proof (cases "s = 1")
      case True
      have "0 \<le> prev_run old j" for j
        using ok by (fastforce simp: prev_run_def row_ok_def split: option.split)
      with True show ?thesis by simp
    next
      case False
      with h have "1 \<le> s - 1" "x + (s - 1) - 1 = i - 1" "y + (s - 1) \<le> j1" "common_run a b x y (s - 1)"
        by (auto intro: common_run_shorter)
      with ok h(2,3) have "s - 1 \<le> prev_run old (y + (s - 1) - 1)"
        unfolding row_ok_def prod.case by blast
      then show ?thesis by (simp add: algebra_simps)
    qed
    with new [of "y + s - 1"] c show ?thesis by (simp add: prev_run_def [of new])
  qed
  have sound: "1 \<le> k \<and> j < j1 \<and> i0 \<le> i - k + 1 \<and> j0 \<le> j - k + 1 \<and> common_run a b (i - k + 1) (j - k + 1) k"
    if "map_of new j = Some k" for j k
  proof -
    from that new have j: "j \<in> set (columns_of b (at a i) j0 j1)" and k: "k = prev_run old (j - 1) + 1"
      by (auto split: if_splits)
    have "0 \<le> prev_run old (j - 1)" using ok by (fastforce simp: prev_run_def row_ok_def split: option.split)
    with good [OF j] k j show ?thesis by (simp add: cols algebra_simps)
  qed
  show "row_ok a b (i0, i1, j0, j1) i new" unfolding row_ok_def prod.case using sound complete by blast
qed

lemma match_rows_best:
  assumes "row_ok a b (i0, i1, j0, j1) (i - 1) old" "i0 \<le> i" "i \<le> i1"
    "good_run a b (i0, i1, j0, j1) best"
    "\<And>x y s. 1 \<le> s \<Longrightarrow> i0 \<le> x \<Longrightarrow> j0 \<le> y \<Longrightarrow> x + s \<le> i \<Longrightarrow> y + s \<le> j1 \<Longrightarrow> common_run a b x y s \<Longrightarrow>
       leads best (x, y, s)"
    "snd (snd best) = 0 \<or> fst best + snd (snd best) \<le> i"
  shows "good_run a b (i0, i1, j0, j1) (match_rows a b j0 j1 [i..i1 - 1] old best) \<and>
    (\<forall>x y s. good_run a b (i0, i1, j0, j1) (x, y, s) \<longrightarrow>
       leads (match_rows a b j0 j1 [i..i1 - 1] old best) (x, y, s))"
  using assms
proof (induction "nat (i1 - i)" arbitrary: i old best)
  case 0
  then have i: "i = i1" by simp
  obtain bi bj bs where b: "best = (bi, bj, bs)" by (metis prod_cases3)
  have "\<forall>x y s. good_run a b (i0, i1, j0, j1) (x, y, s) \<longrightarrow> leads best (x, y, s)"
  proof (intro allI impI)
    fix x y s assume "good_run a b (i0, i1, j0, j1) (x, y, s)"
    then show "leads best (x, y, s)" using "0.prems"(4) "0.prems"(5) [of s x y] i b by (cases "1 \<le> s") auto
  qed
  moreover have "match_rows a b j0 j1 [i..i1 - 1] old best = best" using i by simp
  ultimately show ?case using "0.prems"(4) by metis
next
  case (Suc n)
  then have lt: "i \<le> i1 - 1" by simp
  obtain new best' where r: "match_row i old (columns_of b (at a i) j0 j1) [] best = (new, best')"
    by (metis surj_pair)
  note step = row_ok_step [OF Suc.prems(1,2) r]
  have best: "snd (snd best) \<le> snd (snd best')"
    "\<forall>j \<in> set (columns_of b (at a i) j0 j1). prev_run old (j - 1) + 1 \<le> snd (snd best')"
    using match_row_best [OF r] by blast+
  have good: "good_run a b (i0, i1, j0, j1) best'"
    using match_row_best [OF r] step(2) lt Suc.prems(4) by fastforce
  have ended: "snd (snd best') = 0 \<or> fst best' + snd (snd best') \<le> i + 1"
    using match_row_best [OF r] Suc.prems(6) by auto
  have cols: "sorted_wrt (<) (columns_of b (at a i) j0 j1)"
    by (simp add: columns_of_def sorted_wrt_filter)
  have all: "leads best' (x, y, s)"
    if h: "1 \<le> s" "i0 \<le> x" "j0 \<le> y" "x + s \<le> i + 1" "y + s \<le> j1" "common_run a b x y s" for x y s
  proof (cases "x + s \<le> i")
    case True
    note lead = Suc.prems(5) [OF h(1,2,3) True h(5,6)]
    show ?thesis
    proof (cases "best' = best")
      case False
      with match_row_first [OF r cols False] have "snd (snd best) < snd (snd best')" by blast
      with leads_size [OF lead] show ?thesis by (cases best') auto
    qed (use lead in simp)
  next
    case False
    with h(4) have e: "x + s - 1 = i" by simp
    from common_run_last [OF h(6,1)] e have c: "y + s - 1 \<in> set (columns_of b (at a i) j0 j1)"
      using h by (simp add: columns_of_def)
    have "s \<le> prev_run new (y + s - 1)" using step(1) h e unfolding row_ok_def prod.case by blast
    also have "prev_run new (y + s - 1) = prev_run old (y + s - 1 - 1) + 1"
      using match_row_new [OF r, of "y + s - 1"] c by (simp add: prev_run_def [of new])
    finally have s_le: "s \<le> prev_run old (y + s - 1 - 1) + 1" .
    also have bound: "prev_run old (y + s - 1 - 1) + 1 \<le> snd (snd best')" using best(2) c by blast
    finally have le: "s \<le> snd (snd best')" .
    obtain bi bj bs where b: "best' = (bi, bj, bs)" by (metis prod_cases3)
    have "bi < x \<or> bi = x \<and> bj \<le> y" if eq: "s = bs"
    proof (cases "best' = best")
      case True
      with Suc.prems(6) eq h(1) b e show ?thesis by auto
    next
      case False
      from match_row_first [OF r cols False] obtain j where j: "j \<in> set (columns_of b (at a i) j0 j1)"
        "best' = (i - prev_run old (j - 1), j - prev_run old (j - 1), prev_run old (j - 1) + 1)"
        "\<forall>j' \<in> set (columns_of b (at a i) j0 j1). prev_run old (j' - 1) + 1 = snd (snd best') \<longrightarrow> j \<le> j'" by blast
      have "prev_run old (y + s - 1 - 1) + 1 = snd (snd best')" using bound s_le eq b by simp
      with j(3) c have "j \<le> y + s - 1" by blast
      with j(2) b eq e show ?thesis by auto
    qed
    with le b show ?thesis by auto
  qed
  have "[i..i1 - 1] = i # [i + 1..i1 - 1]" using lt by (simp add: upto_rec1)
  then have "match_rows a b j0 j1 [i..i1 - 1] old best = match_rows a b j0 j1 [i + 1..i1 - 1] new best'"
    using r by simp
  moreover have "n = nat (i1 - (i + 1))" using Suc.hyps(2) by simp
  moreover have "good_run a b (i0, i1, j0, j1) (match_rows a b j0 j1 [i + 1..i1 - 1] new best') \<and>
    (\<forall>x y s. good_run a b (i0, i1, j0, j1) (x, y, s) \<longrightarrow>
       leads (match_rows a b j0 j1 [i + 1..i1 - 1] new best') (x, y, s))"
    using step(1) good all ended Suc.prems(2) lt calculation(2) by (intro Suc.hyps(1)) simp_all
  ultimately show ?case by metis
qed

lemma longest_match_best:
  assumes "i0 \<le> i1" "j0 \<le> j1"
  shows "good_run a b (i0, i1, j0, j1) (longest_match a b (i0, i1, j0, j1))"
    "good_run a b (i0, i1, j0, j1) (x, y, s) \<Longrightarrow> s \<le> snd (snd (longest_match a b (i0, i1, j0, j1)))"
    "good_run a b (i0, i1, j0, j1) (x, y, s) \<Longrightarrow> leads (longest_match a b (i0, i1, j0, j1)) (x, y, s)"
proof -
  have "good_run a b (i0, i1, j0, j1) (longest_match a b (i0, i1, j0, j1)) \<and>
    (\<forall>x y s. good_run a b (i0, i1, j0, j1) (x, y, s) \<longrightarrow>
       leads (longest_match a b (i0, i1, j0, j1)) (x, y, s))"
    unfolding longest_match_def prod.case
    using assms by (intro match_rows_best row_ok_start) auto
  then show "good_run a b (i0, i1, j0, j1) (longest_match a b (i0, i1, j0, j1))"
    "good_run a b (i0, i1, j0, j1) (x, y, s) \<Longrightarrow> s \<le> snd (snd (longest_match a b (i0, i1, j0, j1)))"
    "good_run a b (i0, i1, j0, j1) (x, y, s) \<Longrightarrow> leads (longest_match a b (i0, i1, j0, j1)) (x, y, s)"
    using leads_size by blast+
qed


section \<open>The banded scan\<close>

text \<open>
  A run on one diagonal. The scan keeps the run that ends where it stands and the longest
  run so far; both are maximal among the runs of the diagonal that start at or after its start.
\<close>

definition scanned :: "'a list \<Rightarrow> 'a list \<Rightarrow> int \<Rightarrow> int \<Rightarrow> int \<Rightarrow> int \<Rightarrow> int \<Rightarrow> bool" where
  "scanned a b d start x run sz \<longleftrightarrow>
     0 \<le> run \<and> start \<le> x - run \<and> common_run a b (x - run) (x - run - d) run \<and>
     (\<forall>y s. start \<le> y \<and> y + s = x \<and> common_run a b y (y - d) s \<longrightarrow> s \<le> run) \<and>
     (\<forall>y s. start \<le> y \<and> y + s \<le> x \<and> common_run a b y (y - d) s \<longrightarrow> s \<le> sz)"

definition banded :: "int \<Rightarrow> int \<Rightarrow> block \<Rightarrow> bool" where
  "banded low high bl \<longleftrightarrow> (case bl of (i, j, s) \<Rightarrow> s = 0 \<or> low \<le> i - j \<and> i - j \<le> high)"

lemma scanned_hit:
  assumes "scanned a b d start x run sz" "at a x = at b (x - d)" "run + 1 \<le> sz'" "sz \<le> sz'"
  shows "scanned a b d start (x + 1) (run + 1) sz'"
proof -
  note s = assms(1) [unfolded scanned_def]
  have ext: "common_run a b (x - run) (x - run - d) (run + 1)"
    using s assms(2) by (intro common_run_extend) auto
  have longest: "t \<le> run + 1" if h: "start \<le> y" "y + t = x + 1" "common_run a b y (y - d) t" for y t
  proof -
    have "common_run a b y (y - d) (t - 1)" using h(3) by (rule common_run_shorter) simp
    then have "t - 1 \<le> run" using s h(1,2) by (metis add_diff_eq diff_add_cancel add.commute)
    then show ?thesis by simp
  qed
  have "t \<le> sz'" if h: "start \<le> y" "y + t \<le> x + 1" "common_run a b y (y - d) t" for y t
  proof (cases "y + t = x + 1")
    case True
    with longest h assms(3) show ?thesis by force
  next
    case False
    with h(2) have "y + t \<le> x" by simp
    with s h have "t \<le> sz" by blast
    with assms(4) show ?thesis by simp
  qed
  moreover have "0 \<le> run + 1" "start \<le> x + 1 - (run + 1)"
    "common_run a b (x + 1 - (run + 1)) (x + 1 - (run + 1) - d) (run + 1)"
    using s ext by (simp_all add: algebra_simps)
  ultimately show ?thesis unfolding scanned_def using longest by blast
qed

lemma scanned_miss:
  assumes "scanned a b d start x run sz" "at a x \<noteq> at b (x - d)"
  shows "scanned a b d start (x + 1) 0 sz"
proof -
  note s = assms(1) [unfolded scanned_def]
  have none: "t \<le> 0" if h: "y + t = x + 1" "common_run a b y (y - d) t" for y t
  proof (rule ccontr)
    assume "\<not> t \<le> 0"
    then have "at a (y + t - 1) = at b (y - d + t - 1)" using h(2) by (intro common_run_last) auto
    moreover have "y + t - 1 = x" "y - d + t - 1 = x - d" using h(1) by auto
    ultimately show False using assms(2) by simp
  qed
  have "t \<le> sz" if h: "start \<le> y" "y + t \<le> x + 1" "common_run a b y (y - d) t" for y t
  proof (cases "y + t = x + 1")
    case True
    from s have "common_run a b (x - run) (x - run - d) run" "start \<le> x - run" "(x - run) + run \<le> x" by auto
    with s have "run \<le> sz" by blast
    with none [OF True h(3)] s show ?thesis by linarith
  next
    case False
    with h(2) have "y + t \<le> x" by simp
    with s h show ?thesis by blast
  qed
  with s none show ?thesis unfolding scanned_def by auto
qed

lemma scan_diagonal_spec:
  assumes "scanned a b d start x run (snd (snd best))" "x \<le> stop"
    "i0 \<le> start" "j0 + d \<le> start" "stop \<le> i1" "stop \<le> j1 + d" "low \<le> d" "d \<le> high"
    "good_run a b (i0, i1, j0, j1) best" "banded low high best"
  shows "let best' = scan_diagonal a b d [x..stop - 1] run best in
    good_run a b (i0, i1, j0, j1) best' \<and> banded low high best' \<and> snd (snd best) \<le> snd (snd best') \<and>
    (\<forall>y s. start \<le> y \<and> y + s \<le> stop \<and> common_run a b y (y - d) s \<longrightarrow> s \<le> snd (snd best'))"
  using assms
proof (induction "nat (stop - x)" arbitrary: x run best)
  case 0
  then have "x = stop" by simp
  with 0 show ?case by (simp add: scanned_def Let_def del: good_run.simps)
next
  case (Suc n)
  then have lt: "x \<le> stop - 1" and n: "n = nat (stop - (x + 1))" by simp_all
  have up: "[x..stop - 1] = x # [x + 1..stop - 1]" using lt by (simp add: upto_rec1)
  note s = Suc.prems(1) [unfolded scanned_def]
  show ?case
  proof (cases "at a x = at b (x - d)")
    case True
    define b' where "b' = (if run + 1 > snd (snd best) then (x - run, x - run - d, run + 1) else best)"
    have ext: "common_run a b (x - run) (x - run - d) (run + 1)"
      using s True by (intro common_run_extend) auto
    have "good_run a b (i0, i1, j0, j1) (x - run, x - run - d, run + 1)"
      using s ext Suc.prems(3-6) lt by simp
    then have good: "good_run a b (i0, i1, j0, j1) b'" using Suc.prems(9) unfolding b'_def by simp
    have band: "banded low high b'" using Suc.prems(7,8,10) unfolding b'_def by (simp add: banded_def)
    have sz: "run + 1 \<le> snd (snd b')" "snd (snd best) \<le> snd (snd b')" by (auto simp: b'_def)
    have le: "x + 1 \<le> stop" using lt by simp
    from Suc.hyps(1) [OF n scanned_hit [OF Suc.prems(1) True sz] le Suc.prems(3-8) good band]
    have "let best' = scan_diagonal a b d [x + 1..stop - 1] (run + 1) b' in
      good_run a b (i0, i1, j0, j1) best' \<and> banded low high best' \<and> snd (snd b') \<le> snd (snd best') \<and>
      (\<forall>y s. start \<le> y \<and> y + s \<le> stop \<and> common_run a b y (y - d) s \<longrightarrow> s \<le> snd (snd best'))" .
    moreover have "scan_diagonal a b d [x..stop - 1] run best = scan_diagonal a b d [x + 1..stop - 1] (run + 1) b'"
      unfolding up b'_def using True by simp
    ultimately show ?thesis unfolding Let_def using sz(2) by (metis order_trans)
  next
    case False
    have le: "x + 1 \<le> stop" using lt by simp
    from Suc.hyps(1) [OF n scanned_miss [OF Suc.prems(1) False] le Suc.prems(3-10)]
    show ?thesis unfolding up using False by simp
  qed
qed

lemma scan_band_spec:
  assumes "good_run a b (i0, i1, j0, j1) best" "banded low high best"
    "\<forall>d \<in> set ds. low \<le> d \<and> d \<le> high"
    "scan_band a b (i0, i1, j0, j1) ds best left = (Inr r, l)"
  shows "good_run a b (i0, i1, j0, j1) r \<and> banded low high r \<and> snd (snd best) \<le> snd (snd r) \<and>
    (\<forall>d \<in> set ds. \<forall>y s. good_run a b (i0, i1, j0, j1) (y, y - d, s) \<longrightarrow> s \<le> snd (snd r))"
  using assms
proof (induction ds arbitrary: best left)
  case Nil
  then show ?case by (simp add: wret_def)
next
  case (Cons d ds)
  define start where "start = max i0 (j0 + d)"
  define stop where "stop = min i1 (j1 + d)"
  define best' where "best' = scan_diagonal a b d [start..stop - 1] 0 best"
  from Cons.prems(4) have run: "scan_band a b (i0, i1, j0, j1) ds best' (left - max 0 (stop - start)) = (Inr r, l)"
    by (auto simp: wbind_def spend_def Let_def best'_def start_def stop_def split: if_splits)
  have bd: "low \<le> d" "d \<le> high" "\<forall>d \<in> set ds. low \<le> d \<and> d \<le> high" using Cons.prems(3) by auto
  have sz0: "0 \<le> snd (snd best)" using Cons.prems(1) by (cases best) simp
  have here: "good_run a b (i0, i1, j0, j1) best' \<and> banded low high best' \<and> snd (snd best) \<le> snd (snd best') \<and>
    (\<forall>y s. start \<le> y \<and> y + s \<le> stop \<and> common_run a b y (y - d) s \<longrightarrow> s \<le> snd (snd best'))"
  proof (cases "start \<le> stop")
    case True
    have "scanned a b d start start 0 (snd (snd best))" using sz0 by (auto simp: scanned_def)
    moreover have "i0 \<le> start" "j0 + d \<le> start" "stop \<le> i1" "stop \<le> j1 + d"
      by (simp_all add: start_def stop_def)
    ultimately show ?thesis
      using scan_diagonal_spec [OF _ True _ _ _ _ bd(1,2) Cons.prems(1,2)] unfolding best'_def Let_def by blast
  next
    case False
    then have "best' = best" by (simp add: best'_def)
    moreover have "s \<le> snd (snd best)" if "start \<le> y" "y + s \<le> stop" for y s using that False sz0 by linarith
    ultimately show ?thesis using Cons.prems(1,2) by blast
  qed
  have "good_run a b (i0, i1, j0, j1) r \<and> banded low high r \<and> snd (snd best') \<le> snd (snd r) \<and>
    (\<forall>d \<in> set ds. \<forall>y s. good_run a b (i0, i1, j0, j1) (y, y - d, s) \<longrightarrow> s \<le> snd (snd r))"
    using here bd(3) run by (intro Cons.IH) blast+
  moreover have "s \<le> snd (snd best')" if "good_run a b (i0, i1, j0, j1) (y, y - d, s)" for y s
  proof -
    from that have "start \<le> y" "y + s \<le> stop" "common_run a b y (y - d) s" by (auto simp: start_def stop_def)
    with here show ?thesis by blast
  qed
  ultimately show ?case using here by (metis (no_types, lifting) order_trans set_ConsD)
qed

text \<open>Which run of the band the scan keeps: the longest, the earliest diagonal, the earliest start on it.\<close>

fun leads_by_diagonal :: "block \<Rightarrow> block \<Rightarrow> bool" where
  "leads_by_diagonal (i, j, s) (x, y, t) \<longleftrightarrow> t \<le> s \<and> (t = s \<longrightarrow> s = 0 \<or> i - j < x - y \<or> i - j = x - y \<and> i \<le> x)"

lemma leads_by_diagonal_size: "leads_by_diagonal best (x, y, t) \<Longrightarrow> t \<le> snd (snd best)"
  by (cases best) simp

lemma scan_diagonal_first:
  assumes "scanned a b d start x run (snd (snd best))" "x \<le> stop"
    "best = old \<or> best = (fst best, fst best - d, snd (snd best)) \<and> snd (snd old) < snd (snd best) \<and>
      fst best + snd (snd best) \<le> x \<and>
      (\<forall>y. start \<le> y \<and> y + snd (snd best) \<le> x \<and> common_run a b y (y - d) (snd (snd best)) \<longrightarrow> fst best \<le> y)"
  shows "let best' = scan_diagonal a b d [x..stop - 1] run best in
    best' = old \<or> best' = (fst best', fst best' - d, snd (snd best')) \<and> snd (snd old) < snd (snd best') \<and>
      (\<forall>y. start \<le> y \<and> y + snd (snd best') \<le> stop \<and> common_run a b y (y - d) (snd (snd best')) \<longrightarrow> fst best' \<le> y)"
  using assms
proof (induction "nat (stop - x)" arbitrary: x run best)
  case 0
  then have "x = stop" by simp
  with 0 show ?case by (simp add: Let_def) blast
next
  case (Suc n)
  then have lt: "x \<le> stop - 1" and n: "n = nat (stop - (x + 1))" by simp_all
  have up: "[x..stop - 1] = x # [x + 1..stop - 1]" using lt by (simp add: upto_rec1)
  have le: "x + 1 \<le> stop" using lt by simp
  have keep: "best = old \<or> best = (fst best, fst best - d, snd (snd best)) \<and> snd (snd old) < snd (snd best) \<and>
      fst best + snd (snd best) \<le> x + 1 \<and>
      (\<forall>y. start \<le> y \<and> y + snd (snd best) \<le> x + 1 \<and> common_run a b y (y - d) (snd (snd best)) \<longrightarrow> fst best \<le> y)"
  proof (cases "best = old")
    case False
    with Suc.prems(3) have p: "best = (fst best, fst best - d, snd (snd best))" "snd (snd old) < snd (snd best)"
      "fst best + snd (snd best) \<le> x"
      "\<forall>y. start \<le> y \<and> y + snd (snd best) \<le> x \<and> common_run a b y (y - d) (snd (snd best)) \<longrightarrow> fst best \<le> y" by blast+
    have "fst best \<le> y" if "start \<le> y" "y + snd (snd best) \<le> x + 1" "common_run a b y (y - d) (snd (snd best))" for y
    proof (cases "y + snd (snd best) \<le> x")
      case True
      with p(4) that show ?thesis by blast
    next
      case False
      with p(3) show ?thesis by linarith
    qed
    with p(1,2,3) show ?thesis by simp
  qed simp
  show ?case
  proof (cases "at a x = at b (x - d)")
    case True
    define b' where "b' = (if run + 1 > snd (snd best) then (x - run, x - run - d, run + 1) else best)"
    have sz: "run + 1 \<le> snd (snd b')" "snd (snd best) \<le> snd (snd b')" by (auto simp: b'_def)
    have old_le: "snd (snd old) \<le> snd (snd best)" using Suc.prems(3) by auto
    have "b' = old \<or> b' = (fst b', fst b' - d, snd (snd b')) \<and> snd (snd old) < snd (snd b') \<and>
      fst b' + snd (snd b') \<le> x + 1 \<and>
      (\<forall>y. start \<le> y \<and> y + snd (snd b') \<le> x + 1 \<and> common_run a b y (y - d) (snd (snd b')) \<longrightarrow> fst b' \<le> y)"
    proof (cases "run + 1 > snd (snd best)")
      case more: True
      then have b': "b' = (x - run, x - run - d, run + 1)" by (simp add: b'_def)
      have "x - run \<le> y" if "start \<le> y" "y + (run + 1) \<le> x + 1" "common_run a b y (y - d) (run + 1)" for y
      proof (rule ccontr)
        assume "\<not> x - run \<le> y"
        then have "y + (run + 1) \<le> x" by simp
        with Suc.prems(1) that(1,3) have "run + 1 \<le> snd (snd best)" unfolding scanned_def by blast
        with more show False by simp
      qed
      with b' more old_le show ?thesis by simp
    next
      case False
      then have "b' = best" by (simp add: b'_def)
      with keep show ?thesis by simp
    qed
    from Suc.hyps(1) [OF n scanned_hit [OF Suc.prems(1) True sz] le this]
    show ?thesis unfolding up b'_def using True by simp
  next
    case False
    from Suc.hyps(1) [OF n scanned_miss [OF Suc.prems(1) False] le keep]
    show ?thesis unfolding up using False by simp
  qed
qed

lemma scan_band_first:
  assumes "good_run a b (i0, i1, j0, j1) best" "sorted_wrt (<) ds"
    "\<forall>d \<in> S. \<forall>y s. good_run a b (i0, i1, j0, j1) (y, y - d, s) \<longrightarrow> leads_by_diagonal best (y, y - d, s)"
    "\<forall>d \<in> set ds. snd (snd best) = 0 \<or> fst best - fst (snd best) < d"
    "scan_band a b (i0, i1, j0, j1) ds best left = (Inr r, l)"
  shows "\<forall>d \<in> S \<union> set ds. \<forall>y s. good_run a b (i0, i1, j0, j1) (y, y - d, s) \<longrightarrow> leads_by_diagonal r (y, y - d, s)"
  using assms
proof (induction ds arbitrary: best left S)
  case Nil
  then show ?case by (simp add: wret_def)
next
  case (Cons d ds)
  define start where "start = max i0 (j0 + d)"
  define stop where "stop = min i1 (j1 + d)"
  define best' where "best' = scan_diagonal a b d [start..stop - 1] 0 best"
  from Cons.prems(5) have run: "scan_band a b (i0, i1, j0, j1) ds best' (left - max 0 (stop - start)) = (Inr r, l)"
    by (auto simp: wbind_def spend_def Let_def best'_def start_def stop_def split: if_splits)
  have sz0: "0 \<le> snd (snd best)" using Cons.prems(1) by (cases best) simp
  have "good_run a b (i0, i1, j0, j1) best' \<and>
    (\<forall>y s. start \<le> y \<and> y + s \<le> stop \<and> common_run a b y (y - d) s \<longrightarrow> s \<le> snd (snd best')) \<and>
    (best' = best \<or> best' = (fst best', fst best' - d, snd (snd best')) \<and> snd (snd best) < snd (snd best') \<and>
      (\<forall>y. start \<le> y \<and> y + snd (snd best') \<le> stop \<and> common_run a b y (y - d) (snd (snd best')) \<longrightarrow> fst best' \<le> y))"
  proof (cases "start \<le> stop")
    case True
    have sc: "scanned a b d start start 0 (snd (snd best))" using sz0 by (auto simp: scanned_def)
    have bounds: "i0 \<le> start" "j0 + d \<le> start" "stop \<le> i1" "stop \<le> j1 + d"
      by (simp_all add: start_def stop_def)
    obtain low high where band: "low \<le> d" "d \<le> high" "banded low high best"
      using that [of "min d (fst best - fst (snd best))" "max d (fst best - fst (snd best))"]
      by (cases best) (simp add: banded_def)
    show ?thesis
      using scan_diagonal_spec [OF sc True bounds band(1,2) Cons.prems(1) band(3)] scan_diagonal_first [OF sc True, of best]
      unfolding best'_def Let_def by blast
  next
    case False
    then have "best' = best" by (simp add: best'_def)
    moreover have "s \<le> snd (snd best)" if "start \<le> y" "y + s \<le> stop" for y s using that False sz0 by linarith
    ultimately show ?thesis using Cons.prems(1) by blast
  qed
  then have good: "good_run a b (i0, i1, j0, j1) best'"
    and longest: "\<And>y s. start \<le> y \<Longrightarrow> y + s \<le> stop \<Longrightarrow> common_run a b y (y - d) s \<Longrightarrow> s \<le> snd (snd best')"
    and new: "best' = best \<or> best' = (fst best', fst best' - d, snd (snd best')) \<and> snd (snd best) < snd (snd best') \<and>
      (\<forall>y. start \<le> y \<and> y + snd (snd best') \<le> stop \<and> common_run a b y (y - d) (snd (snd best')) \<longrightarrow> fst best' \<le> y)"
    by blast+
  have seen: "leads_by_diagonal best' (y, y - e, s)"
    if e: "e \<in> S \<union> {d}" and g: "good_run a b (i0, i1, j0, j1) (y, y - e, s)" for e y s
  proof (cases "e = d")
    case True
    from g have ends: "start \<le> y" "y + s \<le> stop" "common_run a b y (y - d) s"
      by (auto simp: start_def stop_def True)
    obtain bi bj bs where b: "best' = (bi, bj, bs)" by (metis prod_cases3)
    have "s \<le> bs" using longest [OF ends] b by simp
    moreover have "bs = 0 \<or> bi - bj < d \<or> bi - bj = d \<and> bi \<le> y" if eq: "s = bs"
      using new
    proof
      assume "best' = best"
      with Cons.prems(4) b show ?thesis by auto
    qed (use ends eq b in auto)
    ultimately show ?thesis using b True by simp
  next
    case False
    with e g Cons.prems(3) have lead: "leads_by_diagonal best (y, y - e, s)" by blast
    from new show ?thesis
    proof
      assume "best' = (fst best', fst best' - d, snd (snd best')) \<and> snd (snd best) < snd (snd best') \<and>
        (\<forall>y. start \<le> y \<and> y + snd (snd best') \<le> stop \<and> common_run a b y (y - d) (snd (snd best')) \<longrightarrow> fst best' \<le> y)"
      then have "snd (snd best) < snd (snd best')" by blast
      with leads_by_diagonal_size [OF lead] show ?thesis by (cases best') auto
    qed (use lead in simp)
  qed
  have "\<forall>e \<in> set ds. snd (snd best') = 0 \<or> fst best' - fst (snd best') < e"
  proof
    fix e assume e: "e \<in> set ds"
    with Cons.prems(2) have "d < e" by simp
    moreover have "fst (snd best') = fst best' - d" if "best' = (fst best', fst best' - d, snd (snd best'))"
      using that by (metis fst_conv snd_conv)
    ultimately show "snd (snd best') = 0 \<or> fst best' - fst (snd best') < e" using new Cons.prems(4) e by auto
  qed
  with Cons.IH [OF good _ _ _ run, of "S \<union> {d}"] seen Cons.prems(2)
  have "\<forall>e \<in> S \<union> {d} \<union> set ds. \<forall>y s. good_run a b (i0, i1, j0, j1) (y, y - e, s) \<longrightarrow> leads_by_diagonal r (y, y - e, s)"
    by (simp del: good_run.simps leads_by_diagonal.simps)
  then show ?case by (simp del: good_run.simps leads_by_diagonal.simps)
qed

lemma longest_in_band_spec:
  assumes "i0 \<le> i1" "j0 \<le> j1"
    "longest_in_band a b (i0, i1, j0, j1) (low, high) left = (Inr r, l)"
  shows "good_run a b (i0, i1, j0, j1) r" "banded low high r"
    "good_run a b (i0, i1, j0, j1) (x, y, s) \<Longrightarrow> banded low high (x, y, s) \<Longrightarrow> s \<le> snd (snd r)"
proof -
  define m where "m = longest_match a b (i0, i1, j0, j1)"
  obtain mi mj ms where m: "m = (mi, mj, ms)" by (metis prod_cases3)
  note best = longest_match_best [OF assms(1,2), where a = a and b = b, folded m_def]
  from assms(3) obtain l0 where run: "(if ms = 0 \<or> low \<le> mi - mj \<and> mi - mj \<le> high then wret (mi, mj, ms)
      else scan_band a b (i0, i1, j0, j1) [max low (i0 - j1 + 1)..min high (i1 - 1 - j0)] (i0, j0, 0)) l0 = (Inr r, l)"
    unfolding longest_in_band_def prod.case m_def [symmetric] m
    by (auto simp: wbind_def spend_def split: if_splits)
  have "good_run a b (i0, i1, j0, j1) r \<and> banded low high r \<and>
    (\<forall>x y s. good_run a b (i0, i1, j0, j1) (x, y, s) \<longrightarrow> banded low high (x, y, s) \<longrightarrow> s \<le> snd (snd r))"
  proof (cases "ms = 0 \<or> low \<le> mi - mj \<and> mi - mj \<le> high")
    case True
    with run have r: "r = m" by (simp add: wret_def m split: if_splits)
    have "banded low high m" using True by (simp add: banded_def m)
    with best show ?thesis unfolding r by blast
  next
    case False
    with run have run: "scan_band a b (i0, i1, j0, j1) [max low (i0 - j1 + 1)..min high (i1 - 1 - j0)] (i0, j0, 0) l0 = (Inr r, l)"
      by (simp split: if_splits)
    have g0: "good_run a b (i0, i1, j0, j1) (i0, j0, 0)" "banded low high (i0, j0, 0)"
      using assms(1,2) by (auto simp: banded_def)
    have "\<forall>d \<in> set [max low (i0 - j1 + 1)..min high (i1 - 1 - j0)]. low \<le> d \<and> d \<le> high" by auto
    note spec = scan_band_spec [OF g0 this run]
    have "s \<le> snd (snd r)"
      if g: "good_run a b (i0, i1, j0, j1) (x, y, s)" and bnd: "banded low high (x, y, s)" for x y s
    proof (cases "s = 0")
      case True
      have "0 \<le> snd (snd r)" using spec by simp
      with True show ?thesis by simp
    next
      case False
      with g bnd have "x - y \<in> set [max low (i0 - j1 + 1)..min high (i1 - 1 - j0)]" by (auto simp: banded_def)
      moreover from g have "good_run a b (i0, i1, j0, j1) (x, x - (x - y), s)" by simp
      ultimately show ?thesis using spec by blast
    qed
    with spec show ?thesis by blast
  qed
  then show "good_run a b (i0, i1, j0, j1) r" "banded low high r"
    "good_run a b (i0, i1, j0, j1) (x, y, s) \<Longrightarrow> banded low high (x, y, s) \<Longrightarrow> s \<le> snd (snd r)" by blast+
qed

lemma longest_in_band_first:
  assumes "i0 \<le> i1" "j0 \<le> j1"
    "longest_in_band a b (i0, i1, j0, j1) (low, high) left = (Inr r, l)"
  shows "\<exists>m. good_run a b (i0, i1, j0, j1) m \<and> (\<forall>x y s. good_run a b (i0, i1, j0, j1) (x, y, s) \<longrightarrow> leads m (x, y, s)) \<and>
    (if banded low high m then r = m
     else \<forall>x y s. good_run a b (i0, i1, j0, j1) (x, y, s) \<and> low \<le> x - y \<and> x - y \<le> high \<longrightarrow> leads_by_diagonal r (x, y, s))"
proof -
  define m where "m = longest_match a b (i0, i1, j0, j1)"
  obtain mi mj ms where m: "m = (mi, mj, ms)" by (metis prod_cases3)
  note best = longest_match_best [OF assms(1,2), where a = a and b = b, folded m_def]
  from assms(3) obtain l0 where run: "(if ms = 0 \<or> low \<le> mi - mj \<and> mi - mj \<le> high then wret (mi, mj, ms)
      else scan_band a b (i0, i1, j0, j1) [max low (i0 - j1 + 1)..min high (i1 - 1 - j0)] (i0, j0, 0)) l0 = (Inr r, l)"
    unfolding longest_in_band_def prod.case m_def [symmetric] m
    by (auto simp: wbind_def spend_def split: if_splits)
  have "if banded low high m then r = m
     else \<forall>x y s. good_run a b (i0, i1, j0, j1) (x, y, s) \<and> low \<le> x - y \<and> x - y \<le> high \<longrightarrow> leads_by_diagonal r (x, y, s)"
  proof (cases "banded low high m")
    case True
    with run have "r = m" by (auto simp: wret_def banded_def m split: if_splits)
    with True show ?thesis by simp
  next
    case False
    with run have run: "scan_band a b (i0, i1, j0, j1) [max low (i0 - j1 + 1)..min high (i1 - 1 - j0)] (i0, j0, 0) l0 = (Inr r, l)"
      by (simp add: banded_def m split: if_splits)
    let ?ds = "[max low (i0 - j1 + 1)..min high (i1 - 1 - j0)]"
    have g0: "good_run a b (i0, i1, j0, j1) (i0, j0, 0)" using assms(1,2) by simp
    from scan_band_first [OF g0 _ _ _ run, of "{}"]
    have spec: "\<forall>d \<in> set ?ds. \<forall>y s. good_run a b (i0, i1, j0, j1) (y, y - d, s) \<longrightarrow> leads_by_diagonal r (y, y - d, s)"
      by (simp del: good_run.simps leads_by_diagonal.simps)
    have "0 \<le> snd (snd r)"
      using longest_in_band_spec(1) [OF assms] by (cases r) simp
    have "leads_by_diagonal r (x, y, s)"
      if g: "good_run a b (i0, i1, j0, j1) (x, y, s)" and bnd: "low \<le> x - y" "x - y \<le> high" for x y s
    proof (cases "s = 0")
      case True
      with \<open>0 \<le> snd (snd r)\<close> show ?thesis by (cases r) auto
    next
      case False
      with g bnd have "x - y \<in> set ?ds" by auto
      moreover from g have "good_run a b (i0, i1, j0, j1) (x, x - (x - y), s)" by simp
      ultimately have "leads_by_diagonal r (x, x - (x - y), s)" using spec by blast
      then show ?thesis by simp
    qed
    with False show ?thesis by simp
  qed
  with best(1,3) show ?thesis by blast
qed

end
