(* ===== verification/AlignOrder.thy ===== *)
theory AlignOrder
  imports AlignFacts PolicyLoad Feed "HOL-Library.Multiset"
begin

text \<open>
  The order of the matching blocks. A work list and the blocks found so far are ranges of the
  two texts that lie apart: one ends on both texts before the other starts. Splitting a range
  at a block, or at the anchors inside it, keeps them apart.
\<close>

section \<open>Ranges apart\<close>

fun proper_range :: "ranges \<Rightarrow> bool" where
  "proper_range (i0, i1, j0, j1) \<longleftrightarrow> i0 \<le> i1 \<and> j0 \<le> j1"

fun before :: "ranges \<Rightarrow> ranges \<Rightarrow> bool" where
  "before (i0, i1, j0, j1) (k0, k1, l0, l1) \<longleftrightarrow> i1 \<le> k0 \<and> j1 \<le> l0"

definition apart :: "ranges \<Rightarrow> ranges \<Rightarrow> bool" where
  "apart r s \<longleftrightarrow> before r s \<or> before s r"

fun inside :: "ranges \<Rightarrow> ranges \<Rightarrow> bool" where
  "inside (i0, i1, j0, j1) (k0, k1, l0, l1) \<longleftrightarrow>
     k0 \<le> i0 \<and> i0 \<le> i1 \<and> i1 \<le> k1 \<and> l0 \<le> j0 \<and> j0 \<le> j1 \<and> j1 \<le> l1"

fun block_range :: "block \<Rightarrow> ranges" where
  "block_range (i, j, s) = (i, i + s, j, j + s)"

lemma apart_commute: "apart r s \<longleftrightarrow> apart s r"
  by (auto simp: apart_def)

lemma inside_trans: "inside q r \<Longrightarrow> inside r s \<Longrightarrow> inside q s"
  by (cases q; cases r; cases s) auto

lemma inside_refl: "proper_range r \<Longrightarrow> inside r r"
  by (cases r) auto

lemma inside_proper: "inside q r \<Longrightarrow> proper_range q"
  by (cases q; cases r) auto

lemma inside_before: "inside q r \<Longrightarrow> before r s \<Longrightarrow> before q s"
  by (cases q; cases r; cases s) auto

lemma inside_after: "inside q r \<Longrightarrow> before s r \<Longrightarrow> before s q"
  by (cases q; cases r; cases s) auto

lemma inside_apart: "inside q r \<Longrightarrow> apart r s \<Longrightarrow> apart q s"
  using inside_before inside_after unfolding apart_def by blast

lemma before_trans: "before r s \<Longrightarrow> proper_range s \<Longrightarrow> before s t \<Longrightarrow> before r t"
  by (cases r; cases s; cases t) auto

lemma sorted_wrt_perm:
  assumes "\<And>x y. P x y \<Longrightarrow> P y x"
  shows "mset xs = mset ys \<Longrightarrow> sorted_wrt P xs \<Longrightarrow> sorted_wrt P ys"
proof (induction xs arbitrary: ys)
  case (Cons x xs)
  then have "x \<in> set ys" by (metis list.set_intros(1) set_mset_mset)
  then obtain ps qs where ys: "ys = ps @ x # qs" by (metis split_list)
  with Cons.prems(1) have m: "mset xs = mset (ps @ qs)" by simp
  with Cons have "sorted_wrt P (ps @ qs)" by simp
  moreover have "\<forall>y \<in> set (ps @ qs). P x y" using Cons.prems(2) m by (metis set_mset_mset sorted_wrt.simps(2))
  ultimately show ?case using assms unfolding ys by (auto simp: sorted_wrt_append)
qed simp

lemma apart_perm: "mset xs = mset ys \<Longrightarrow> sorted_wrt apart xs \<Longrightarrow> sorted_wrt apart ys"
  by (rule sorted_wrt_perm) (simp_all add: apart_commute)

lemma apart_before: "sorted_wrt before rs \<Longrightarrow> sorted_wrt apart rs"
  by (rule sorted_wrt_mono_rel) (auto simp: apart_def)

text \<open>A range replaced by ranges inside it that lie apart.\<close>

lemma apart_refine:
  assumes "sorted_wrt apart (xs @ r # ys)" "sorted_wrt apart rs" "\<forall>q \<in> set rs. inside q r"
  shows "sorted_wrt apart (xs @ rs @ ys)"
proof -
  have xs: "sorted_wrt apart xs" "sorted_wrt apart ys" "\<forall>x \<in> set xs. \<forall>y \<in> set ys. apart x y"
    "\<forall>x \<in> set xs. apart x r" "\<forall>y \<in> set ys. apart r y"
    using assms(1) by (auto simp: sorted_wrt_append)
  moreover have "apart x q" if "x \<in> set xs" "q \<in> set rs" for x q
    using that xs(4) assms(3) inside_apart apart_commute by blast
  moreover have "apart q y" if "y \<in> set ys" "q \<in> set rs" for y q
    using that xs(5) assms(3) inside_apart by blast
  ultimately show ?thesis using assms(2) by (auto simp: sorted_wrt_append)
qed

section \<open>Direct matching\<close>

definition genuine :: "'a list \<Rightarrow> 'a list \<Rightarrow> block \<Rightarrow> bool" where
  "genuine a b bl \<longleftrightarrow> (case bl of (i, j, s) \<Rightarrow> 1 \<le> s \<and> common_run a b i j s)"

definition placed :: "'a list \<Rightarrow> 'a list \<Rightarrow> ranges \<Rightarrow> block list \<Rightarrow> ranges list \<Rightarrow> bool" where
  "placed a b rng bs work \<longleftrightarrow>
     sorted_wrt apart (map block_range bs @ work) \<and>
     (\<forall>r \<in> set (map block_range bs @ work). inside r rng) \<and> (\<forall>bl \<in> set bs. genuine a b bl)"

lemma placed_drop: "placed a b rng bs (r # work) \<Longrightarrow> placed a b rng bs work"
  unfolding placed_def by (auto simp: sorted_wrt_append)

text \<open>A range of the work list replaced by blocks and ranges that lie apart inside it.\<close>

lemma placed_split:
  assumes "placed a b rng bs (r # work)" "placed a b r new pushed" "mset rest = mset (pushed @ work)"
  shows "placed a b rng (bs @ new) rest"
proof -
  note old = assms(1) [unfolded placed_def] and split = assms(2) [unfolded placed_def]
  have "sorted_wrt apart (map block_range bs @ (map block_range new @ pushed) @ work)"
    using old split by (intro apart_refine [where r = r]) blast+
  then have srt: "sorted_wrt apart (map block_range (bs @ new) @ rest)"
    by (rule apart_perm [rotated]) (simp add: assms(3))
  have "inside r rng" using old by simp
  moreover have "set rest = set pushed \<union> set work" using assms(3) by (metis set_append set_mset_mset)
  ultimately have "inside q rng" if "q \<in> set (map block_range (bs @ new) @ rest)" for q
    using that old split inside_trans [of q r rng] by auto
  moreover have "genuine a b bl" if "bl \<in> set (bs @ new)" for bl using that old split by auto
  ultimately show ?thesis unfolding placed_def using srt by blast
qed

lemma direct_split:
  assumes "good_run a b (i0, i1, j0, j1) (i, j, s)" "1 \<le> s"
  shows "placed a b (i0, i1, j0, j1) [(i, j, s)] [(i + s, i1, j + s, j1), (i0, i, j0, j)]"
  using assms by (auto simp: placed_def genuine_def apart_def)

lemma direct_loop_placed:
  "direct_loop a b p work bs left = (Inr r, l) \<Longrightarrow> 1 \<le> min_block_characters p \<Longrightarrow>
     placed a b rng bs work \<Longrightarrow> placed a b rng r []"
proof (induction a b p work bs left arbitrary: r l rule: direct_loop.induct)
  case (1 a b p bs left)
  then show ?case by simp
next
  case (2 a b p i0 i1 j0 j1 work bs left)
  let ?band = "(min (i0 - j0) (i1 - j1) - band_slack p, max (i0 - j0) (i1 - j1) + band_slack p)"
  obtain x l1 where s: "spend 1 left = (x, l1)" by force
  obtain y where y: "x = Inr y" using "2.prems"(1) s by (cases x) auto
  show ?case
  proof (cases "i0 \<ge> i1 \<or> j0 \<ge> j1")
    case True
    with "2.prems"(1) s y have "direct_loop a b p work bs l1 = (Inr r, l)" by simp
    from "2.IH"(1) [OF s [symmetric] y True this "2.prems"(2) placed_drop [OF "2.prems"(3)]] show ?thesis .
  next
    case False
    obtain z l2 where z: "longest_in_band a b (i0, i1, j0, j1) ?band l1 = (z, l2)" by force
    with "2.prems"(1) s y False obtain t where zr: "z = Inr t" by (cases z) auto
    obtain i j sz where t: "t = (i, j, sz)" by (metis prod_cases3)
    show ?thesis
    proof (cases "sz < min_block_characters p")
      case True
      with "2.prems"(1) s y False z zr t have "direct_loop a b p work bs l2 = (Inr r, l)" by simp
      from "2.IH"(2) [OF s [symmetric] y False z [symmetric] zr t [symmetric] refl True this
          "2.prems"(2) placed_drop [OF "2.prems"(3)]] show ?thesis .
    next
      case big: False
      with "2.prems"(1) s y False z zr t
      have eq: "direct_loop a b p ((i + sz, i1, j + sz, j1) # (i0, i, j0, j) # work)
          (bs @ [(i, j, sz)]) l2 = (Inr r, l)" by simp
      have "good_run a b (i0, i1, j0, j1) (i, j, sz)"
        using longest_in_band_spec(1) [of i0 i1 j0 j1] False z zr t by (metis linorder_not_le order_less_imp_le)
      then have "placed a b (i0, i1, j0, j1) [(i, j, sz)] [(i + sz, i1, j + sz, j1), (i0, i, j0, j)]"
        using big "2.prems"(2) by (intro direct_split) auto
      from placed_split [OF "2.prems"(3) this, where rest = "(i + sz, i1, j + sz, j1) # (i0, i, j0, j) # work"]
      have pl: "placed a b rng (bs @ [(i, j, sz)]) ((i + sz, i1, j + sz, j1) # (i0, i, j0, j) # work)" by simp
      from "2.IH"(3) [OF s [symmetric] y False z [symmetric] zr t [symmetric] refl big eq "2.prems"(2) pl]
      show ?thesis .
    qed
  qed
qed

text \<open>The texts of a range, cut out and put back.\<close>

lemma at_slice:
  assumes "0 \<le> lo" "hi \<le> int (length xs)" "0 \<le> k" "lo + k < hi"
  shows "at (slice xs lo hi) k = at xs (lo + k)"
  using assms by (simp add: at_def slice_def nat_add_distrib)

lemma common_run_slice:
  assumes "common_run (slice a alo ahi) (slice b blo bhi) i j s"
    "0 \<le> alo" "ahi \<le> int (length a)" "0 \<le> blo" "bhi \<le> int (length b)"
    "0 \<le> i" "0 \<le> j" "alo + i + s \<le> ahi" "blo + j + s \<le> bhi"
  shows "common_run a b (alo + i) (blo + j) s"
  unfolding common_run_def
proof (intro allI impI)
  fix k assume k: "0 \<le> k \<and> k < s"
  with assms have "at (slice a alo ahi) (i + k) = at (slice b blo bhi) (j + k)"
    by (auto simp: common_run_def)
  moreover have "at (slice a alo ahi) (i + k) = at a (alo + (i + k))" using assms k by (intro at_slice) auto
  moreover have "at (slice b blo bhi) (j + k) = at b (blo + (j + k))" using assms k by (intro at_slice) auto
  ultimately show "at a (alo + i + k) = at b (blo + j + k)" by (simp add: add.assoc)
qed

definition within :: "'a list \<Rightarrow> 'a list \<Rightarrow> ranges \<Rightarrow> bool" where
  "within a b r \<longleftrightarrow> inside r (0, int (length a), 0, int (length b))"

lemma placed_shift:
  assumes "placed (slice a alo ahi) (slice b blo bhi) (0, ahi - alo, 0, bhi - blo) bs []"
    "within a b (alo, ahi, blo, bhi)"
  shows "placed a b (alo, ahi, blo, bhi) (map (\<lambda>(i, j, sz). (alo + i, blo + j, sz)) bs) []"
proof -
  let ?sh = "\<lambda>(i, j, sz). (alo + i, blo + j, sz)"
  note old = assms(1) [unfolded placed_def append_Nil2]
  have ap: "apart (block_range (?sh x)) (block_range (?sh y)) \<longleftrightarrow> apart (block_range x) (block_range y)" for x y
    by (cases x; cases y) (auto simp: apart_def)
  have "sorted_wrt (\<lambda>x y. apart (block_range x) (block_range y)) bs"
    using old by (simp add: sorted_wrt_map)
  then have "sorted_wrt (\<lambda>x y. apart (block_range (?sh x)) (block_range (?sh y))) bs" unfolding ap .
  then have "sorted_wrt apart (map block_range (map ?sh bs))" unfolding sorted_wrt_map .
  moreover have "inside (block_range (?sh x)) (alo, ahi, blo, bhi) \<and> genuine a b (?sh x)" if x: "x \<in> set bs" for x
  proof -
    obtain i j s where e: "x = (i, j, s)" by (metis prod_cases3)
    from old x have "inside (block_range x) (0, ahi - alo, 0, bhi - blo)" "genuine (slice a alo ahi) (slice b blo bhi) x"
      by auto
    then show ?thesis using assms(2) common_run_slice [of a alo ahi b blo bhi i j s]
      by (auto simp: e genuine_def within_def)
  qed
  ultimately show ?thesis unfolding placed_def by auto
qed

lemma direct_blocks_placed:
  assumes "direct_blocks a b r p left = (Inr bs, l)" "1 \<le> min_block_characters p" "within a b r"
  shows "placed a b r bs []"
proof -
  obtain alo ahi blo bhi where r: "r = (alo, ahi, blo, bhi)" by (metis prod_cases4)
  obtain z l' where z: "direct_loop (slice a alo ahi) (slice b blo bhi) p [(0, ahi - alo, 0, bhi - blo)] [] left = (z, l')"
    by force
  with assms(1) r obtain bs' where "z = Inr bs'" "l' = l"
    and bs: "bs = map (\<lambda>(i, j, sz). (alo + i, blo + j, sz)) bs'"
    by (cases z) (simp_all add: direct_blocks_def wbind_def wret_def)
  with z have loop: "direct_loop (slice a alo ahi) (slice b blo bhi) p [(0, ahi - alo, 0, bhi - blo)] [] left = (Inr bs', l)"
    by simp
  have "placed (slice a alo ahi) (slice b blo bhi) (0, ahi - alo, 0, bhi - blo) [] [(0, ahi - alo, 0, bhi - blo)]"
    using assms(3) by (auto simp: placed_def within_def r)
  from direct_loop_placed [OF loop assms(2) this] show ?thesis
    using placed_shift assms(3) unfolding bs r by blast
qed

section \<open>Anchors\<close>

lemma unique_grams_mem:
  "(g, i) \<in> set (unique_grams text lo hi k) \<Longrightarrow> lo \<le> i \<and> i + k \<le> hi \<and> g = slice text i (i + k)"
  by (auto simp: unique_grams_def grams_def Let_def)

lemma unique_grams_distinct: "distinct (map snd (unique_grams text lo hi k))"
proof -
  have "distinct (map snd (filter P (map (\<lambda>i. (f i, i)) is')))" if "distinct is'"
    for P :: "'a list \<times> int \<Rightarrow> bool" and f is'
    using that by (induction is') auto
  then show ?thesis unfolding unique_grams_def grams_def Let_def by simp
qed

definition anchor_ok :: "'a list \<Rightarrow> 'a list \<Rightarrow> ranges \<Rightarrow> int \<Rightarrow> int \<times> int \<Rightarrow> bool" where
  "anchor_ok a b r k pr \<longleftrightarrow> (case (r, pr) of ((alo, ahi, blo, bhi), (i, j)) \<Rightarrow>
     inside (block_range (i, j, k)) r \<and> common_run a b i j k)"

lemma slice_common_run:
  assumes "slice a i (i + k) = slice b j (j + k)" "0 \<le> i" "0 \<le> j" "0 \<le> k"
    "i + k \<le> int (length a)" "j + k \<le> int (length b)"
  shows "common_run a b i j k"
  unfolding common_run_def
proof (intro allI impI)
  fix x assume x: "0 \<le> x \<and> x < k"
  have "at (slice a i (i + k)) x = at a (i + x)" using assms x by (intro at_slice) auto
  moreover have "at (slice b j (j + k)) x = at b (j + x)" using assms x by (intro at_slice) auto
  ultimately show "at a (i + x) = at b (j + x)" using assms(1) by simp
qed

lemma anchor_pairs_ok:
  assumes "pr \<in> set (anchor_pairs a b r k)" "within a b r" "0 \<le> k"
  shows "anchor_ok a b r k pr"
proof -
  obtain alo ahi blo bhi where r: "r = (alo, ahi, blo, bhi)" by (metis prod_cases4)
  obtain i j where pr: "pr = (i, j)" by force
  from assms(1) obtain g where g: "(g, i) \<in> set (unique_grams a alo ahi k)"
    "map_of (unique_grams b blo bhi k) g = Some j"
    by (auto simp: anchor_pairs_def r pr Let_def split: option.splits)
  from unique_grams_mem [OF g(1)] unique_grams_mem [OF map_of_SomeD [OF g(2)]] assms(2,3)
  show ?thesis using slice_common_run [of a i k b j] by (auto simp: anchor_ok_def r pr within_def)
qed

definition ascends :: "int \<times> int \<Rightarrow> int \<times> int \<Rightarrow> bool" where
  "ascends p q \<longleftrightarrow> fst p < fst q \<and> snd p < snd q"

lemma sorted_distinct_fst:
  fixes xs :: "(int \<times> int) list"
  shows "distinct (map fst xs) \<Longrightarrow> sorted xs \<Longrightarrow> sorted_wrt (\<lambda>p q. fst p < fst q) xs"
proof (induction xs)
  case (Cons x xs)
  have "fst x < fst y" if y: "y \<in> set xs" for y
  proof -
    have "x \<le> y" "fst x \<noteq> fst y" using Cons.prems y by auto
    then show ?thesis by (auto simp: less_eq_prod_def)
  qed
  with Cons show ?case by simp
qed simp

lemma anchor_pairs_ascend: "sorted_wrt (\<lambda>p q. fst p < fst q) (anchor_pairs a b r k)"
proof -
  obtain alo ahi blo bhi where r: "r = (alo, ahi, blo, bhi)" by (metis prod_cases4)
  let ?f = "\<lambda>(g, i). case map_of (unique_grams b blo bhi k) g of None \<Rightarrow> [] | Some j \<Rightarrow> [(i, j)]"
  have "distinct (map fst (concat (map ?f gs)))" if "distinct (map snd gs)" for gs
    using that by (induction gs) (auto split: option.splits intro: rev_image_eqI)
  then have "distinct (map fst (concat (map ?f (unique_grams a alo ahi k))))"
    using unique_grams_distinct by blast
  moreover have "mset (map fst (sort xs)) = mset (map fst xs)" for xs :: "(int \<times> int) list" by simp
  ultimately have d: "distinct (map fst (anchor_pairs a b r k))"
    unfolding anchor_pairs_def r prod.case Let_def using mset_eq_imp_distinct_iff by blast
  have srt: "sorted (anchor_pairs a b r k)" by (simp add: anchor_pairs_def r Let_def)
  with d show ?thesis by (intro sorted_distinct_fst)
qed

text \<open>Every tail of the patience sort is a chain, newest first, of pairs already placed.\<close>

definition tails_ok :: "(int \<times> int) set \<Rightarrow> (int \<times> int) list list \<Rightarrow> bool" where
  "tails_ok seen tails \<longleftrightarrow>
     (\<forall>c \<in> set tails. c \<noteq> [] \<and> set c \<subseteq> seen \<and> sorted_wrt (\<lambda>p q. ascends q p) c)"

lemma place_pair_ok:
  assumes "tails_ok seen tails" "\<forall>q \<in> seen. fst q < fst pr"
  shows "tails_ok (insert pr seen) (place_pair pr tails)"
proof -
  define pos where "pos = length (takeWhile (\<lambda>c. snd (hd c) < snd pr) tails)"
  define new where "new = pr # (if pos = 0 then [] else tails ! (pos - 1))"
  have new: "new \<noteq> [] \<and> set new \<subseteq> insert pr seen \<and> sorted_wrt (\<lambda>p q. ascends q p) new"
  proof (cases "pos = 0")
    case True
    then show ?thesis by (simp add: new_def)
  next
    case False
    let ?c = "tails ! (pos - 1)"
    have le: "pos \<le> length tails" unfolding pos_def by (rule length_takeWhile_le)
    with False have mem: "?c \<in> set tails" by simp
    have "?c = takeWhile (\<lambda>c. snd (hd c) < snd pr) tails ! (pos - 1)"
      using False by (simp add: pos_def takeWhile_nth)
    then have "?c \<in> set (takeWhile (\<lambda>c. snd (hd c) < snd pr) tails)" using False by (simp add: pos_def)
    then have hd: "snd (hd ?c) < snd pr" by (metis (mono_tags, lifting) set_takeWhileD)
    from assms(1) mem have c: "?c \<noteq> []" "set ?c \<subseteq> seen" "sorted_wrt (\<lambda>p q. ascends q p) ?c"
      unfolding tails_ok_def by blast+
    have "ascends q pr" if "q \<in> set ?c" for q
    proof -
      from c(1) obtain h t where ht: "?c = h # t" by (cases "?c") auto
      with c(3) that have "snd q \<le> snd h" by (auto simp: ascends_def)
      with hd ht c(2) that assms(2) show ?thesis by (auto simp: ascends_def)
    qed
    with c False show ?thesis by (auto simp: new_def)
  qed
  have old: "tails_ok (insert pr seen) tails" using assms(1) by (auto simp: tails_ok_def)
  have "place_pair pr tails = (if pos = length tails then tails @ [new] else tails[pos := new])"
    by (simp only: place_pair_def Let_def pos_def new_def)
  with new old show ?thesis by (auto simp: tails_ok_def dest!: set_update_subset_insert [THEN subsetD])
qed

lemma place_pairs_ok:
  "sorted_wrt (\<lambda>p q. fst p < fst q) pairs \<Longrightarrow> tails_ok seen tails \<Longrightarrow>
     \<forall>q \<in> seen. \<forall>pr \<in> set pairs. fst q < fst pr \<Longrightarrow> tails_ok (seen \<union> set pairs) (fold place_pair pairs tails)"
proof (induction pairs arbitrary: seen tails)
  case (Cons pr pairs)
  have "tails_ok (insert pr seen) (place_pair pr tails)" using Cons.prems by (intro place_pair_ok) auto
  moreover have "\<forall>q \<in> insert pr seen. \<forall>x \<in> set pairs. fst q < fst x" using Cons.prems by auto
  ultimately have "tails_ok (insert pr seen \<union> set pairs) (fold place_pair pairs (place_pair pr tails))"
    using Cons.prems(1) by (intro Cons.IH) auto
  then show ?case by simp
qed simp

lemma longest_chain_ok:
  assumes "sorted_wrt (\<lambda>p q. fst p < fst q) pairs"
  shows "sorted_wrt ascends (longest_chain pairs)" "set (longest_chain pairs) \<subseteq> set pairs"
proof -
  let ?t = "fold place_pair pairs []"
  have ok: "tails_ok (set pairs) ?t" using place_pairs_ok [OF assms, of "{}" "[]"] by (simp add: tails_ok_def)
  then have "?t \<noteq> [] \<Longrightarrow> sorted_wrt (\<lambda>p q. ascends q p) (last ?t) \<and> set (last ?t) \<subseteq> set pairs"
    unfolding tails_ok_def by (meson last_in_set)
  then show "sorted_wrt ascends (longest_chain pairs)" "set (longest_chain pairs) \<subseteq> set pairs"
    by (auto simp: longest_chain_def Let_def sorted_wrt_rev)
qed

text \<open>The anchors merge runs on one diagonal and stay in order on both texts.\<close>

lemma common_run_join:
  assumes "common_run a b x y s" "common_run a b (x + d) (y + d) t" "0 \<le> d" "d \<le> s"
  shows "common_run a b x y (max s (d + t))"
  unfolding common_run_def
proof (intro allI impI)
  fix k assume k: "0 \<le> k \<and> k < max s (d + t)"
  show "at a (x + k) = at b (y + k)"
  proof (cases "k < s")
    case True
    with k assms(1) show ?thesis by (simp add: common_run_def)
  next
    case False
    with k assms(3,4) have "0 \<le> k - d \<and> k - d < t" by auto
    with assms(2) have "at a (x + d + (k - d)) = at b (y + d + (k - d))" unfolding common_run_def by blast
    then show ?thesis by simp
  qed
qed

definition anchored :: "'a list \<Rightarrow> 'a list \<Rightarrow> ranges \<Rightarrow> block list \<Rightarrow> bool" where
  "anchored a b r bs \<longleftrightarrow>
     sorted_wrt before (map block_range bs) \<and>
     (\<forall>bl \<in> set bs. inside (block_range bl) r \<and> genuine a b bl)"

lemma anchored_snoc:
  assumes "anchored a b r bs" "inside (block_range bl) r" "genuine a b bl"
    "bs \<noteq> [] \<longrightarrow> before (block_range (last bs)) (block_range bl)"
  shows "anchored a b r (bs @ [bl])"
proof -
  have "before (block_range x) (block_range bl)" if x: "x \<in> set bs" for x
  proof (cases "x = last bs")
    case True
    with assms(4) x show ?thesis by force
  next
    case False
    have ne: "bs \<noteq> []" using x by auto
    then have split: "bs = butlast bs @ [last bs]" by simp
    with False x have "x \<in> set (butlast bs)" by (metis Un_iff empty_iff insert_iff list.set set_append)
    moreover have "sorted_wrt before (map block_range (butlast bs @ [last bs]))"
      using assms(1) split by (simp add: anchored_def)
    ultimately have "before (block_range x) (block_range (last bs))" by (simp add: sorted_wrt_append)
    moreover have "inside (block_range (last bs)) r" using assms(1) ne by (simp add: anchored_def)
    ultimately show ?thesis using assms(4) ne inside_proper before_trans by blast
  qed
  with assms(1-3) show ?thesis by (simp add: anchored_def sorted_wrt_append)
qed

lemma anchored_butlast: "anchored a b r bs \<Longrightarrow> anchored a b r (butlast bs)"
  by (cases bs rule: rev_cases) (auto simp: anchored_def sorted_wrt_append)

lemma add_anchor_ok:
  assumes "anchored a b r bs" "anchor_ok a b r k (i, j)" "1 \<le> k" "\<forall>(x, y, s) \<in> set bs. x < i \<and> y < j"
  shows "anchored a b r (add_anchor k (i, j) bs) \<and>
    (\<forall>(x, y, s) \<in> set (add_anchor k (i, j) bs). x \<le> i \<and> y \<le> j)"
proof -
  have new: "inside (block_range (i, j, k)) r" "genuine a b (i, j, k)"
    using assms(2,3) by (auto simp: anchor_ok_def genuine_def split: prod.splits)
  have le: "\<forall>(x, y, s) \<in> set bs. x \<le> i \<and> y \<le> j" using assms(4) by auto
  show ?thesis
  proof (cases "bs = []")
    case True
    with new show ?thesis by (simp add: add_anchor_def anchored_def)
  next
    case ne: False
    obtain bi bj sz where bl: "last bs = (bi, bj, sz)" by (metis prod_cases3)
    with ne have mem: "(bi, bj, sz) \<in> set bs" by (metis last_in_set)
    with assms(1,4) have lst: "inside (block_range (bi, bj, sz)) r" "genuine a b (bi, bj, sz)" "bi < i" "bj < j"
      by (auto simp: anchored_def)
    consider (merge) "i - j = bi - bj \<and> i \<le> bi + sz"
      | (skip) "\<not> (i - j = bi - bj \<and> i \<le> bi + sz)" "i < bi + sz \<or> j < bj + sz"
      | (add) "\<not> (i - j = bi - bj \<and> i \<le> bi + sz)" "\<not> (i < bi + sz \<or> j < bj + sz)" by blast
    then show ?thesis
    proof cases
      case merge
      then have eq: "add_anchor k (i, j) bs = butlast bs @ [(bi, bj, max sz (i + k - bi))]"
        using ne bl by (simp add: add_anchor_def)
      define d where "d = i - bi"
      from merge lst(3) have d: "i = bi + d" "j = bj + d" "0 \<le> d" "d \<le> sz" by (auto simp: d_def)
      have "common_run a b bi bj (max sz (d + k))"
        using lst(2) new(2) d by (intro common_run_join) (auto simp: genuine_def)
      then have g: "genuine a b (bi, bj, max sz (i + k - bi))"
        using lst(2) d by (auto simp: genuine_def add.commute)
      have ins: "inside (block_range (bi, bj, max sz (i + k - bi))) r"
        using lst(1) new(1) d by (cases r) auto
      have "butlast bs \<noteq> [] \<longrightarrow> before (block_range (last (butlast bs))) (block_range (bi, bj, max sz (i + k - bi)))"
      proof
        assume "butlast bs \<noteq> []"
        then have "last (butlast bs) \<in> set (butlast bs)" by simp
        moreover have "sorted_wrt before (map block_range (butlast bs @ [(bi, bj, sz)]))"
          using assms(1) ne bl by (metis anchored_def append_butlast_last_id)
        ultimately have "before (block_range (last (butlast bs))) (block_range (bi, bj, sz))"
          by (simp add: sorted_wrt_append)
        then show "before (block_range (last (butlast bs))) (block_range (bi, bj, max sz (i + k - bi)))"
          by (cases "last (butlast bs)") auto
      qed
      with anchored_snoc [OF anchored_butlast [OF assms(1)] ins g] le lst(3,4)
      show ?thesis unfolding eq by (auto dest: in_set_butlastD)
    next
      case skip
      then have "add_anchor k (i, j) bs = bs" using ne bl by (auto simp: add_anchor_def)
      with assms(1) le show ?thesis by simp
    next
      case add
      then have eq: "add_anchor k (i, j) bs = bs @ [(i, j, k)]" using ne bl by (auto simp: add_anchor_def)
      have "before (block_range (last bs)) (block_range (i, j, k))" using add bl by simp
      with anchored_snoc [OF assms(1) new] le show ?thesis unfolding eq by auto
    qed
  qed
qed

lemma add_anchors_ok:
  "sorted_wrt ascends ch \<Longrightarrow> \<forall>pr \<in> set ch. anchor_ok a b r k pr \<Longrightarrow> 1 \<le> k \<Longrightarrow> anchored a b r bs \<Longrightarrow>
     \<forall>(x, y, s) \<in> set bs. \<forall>pr \<in> set ch. x < fst pr \<and> y < snd pr \<Longrightarrow> anchored a b r (fold (add_anchor k) ch bs)"
proof (induction ch arbitrary: bs)
  case (Cons pr ch)
  obtain i j where pr: "pr = (i, j)" by force
  have step: "anchored a b r (add_anchor k (i, j) bs)"
    "\<forall>(x, y, s) \<in> set (add_anchor k (i, j) bs). x \<le> i \<and> y \<le> j"
  proof -
    have "\<forall>(x, y, s) \<in> set bs. x < i \<and> y < j" using Cons.prems(5) by (auto simp: pr)
    moreover have "anchor_ok a b r k (i, j)" using Cons.prems(2) by (simp add: pr)
    ultimately show "anchored a b r (add_anchor k (i, j) bs)"
      "\<forall>(x, y, s) \<in> set (add_anchor k (i, j) bs). x \<le> i \<and> y \<le> j"
      using add_anchor_ok Cons.prems(3,4) by blast+
  qed
  have "\<forall>(x, y, s) \<in> set (add_anchor k (i, j) bs). \<forall>q \<in> set ch. x < fst q \<and> y < snd q"
    using step(2) Cons.prems(1) by (fastforce simp: ascends_def pr)
  with Cons.IH [OF _ _ Cons.prems(3) step(1)] Cons.prems(1,2) show ?case by (simp add: pr)
qed simp

lemma anchor_blocks_ok:
  assumes "within a b r" "1 \<le> k"
  shows "anchored a b r (anchor_blocks a b r k)"
proof -
  note chain = longest_chain_ok [OF anchor_pairs_ascend [of a b r k]]
  have "\<forall>pr \<in> set (longest_chain (anchor_pairs a b r k)). anchor_ok a b r k pr"
    using anchor_pairs_ok assms chain(2) by (metis order_trans subset_iff zero_le_one)
  from add_anchors_ok [OF chain(1) this assms(2), of "[]"] show ?thesis
    by (simp add: anchor_blocks_def anchored_def)
qed

lemma anchored_filter:
  "anchored a b r bs \<Longrightarrow>
     anchored a b r (concat (map (\<lambda>(x, bl). if P x bl then [bl] else []) (zip is' bs)))"
proof (induction bs arbitrary: is')
  case (Cons bl bs)
  from Cons.prems have bs: "anchored a b r bs" "inside (block_range bl) r" "genuine a b bl"
    "\<forall>q \<in> set bs. before (block_range bl) (block_range q)"
    by (auto simp: anchored_def)
  show ?case
  proof (cases is')
    case (Cons x xs)
    define rest where "rest = concat (map (\<lambda>(x, bl). if P x bl then [bl] else []) (zip xs bs))"
    have sub: "set rest \<subseteq> set bs" unfolding rest_def by (force split: if_splits dest: set_zip_rightD)
    have ok: "anchored a b r rest" unfolding rest_def by (rule Cons.IH [OF bs(1)])
    have eq: "concat (map (\<lambda>(x, bl). if P x bl then [bl] else []) (zip is' (bl # bs))) =
        (if P x bl then bl # rest else rest)"
      unfolding Cons rest_def by simp
    have "\<forall>q \<in> set rest. before (block_range bl) (block_range q)" using sub bs(4) by blast
    with ok bs(2,3) have "anchored a b r (bl # rest)" by (simp add: anchored_def)
    with ok show ?thesis unfolding eq by simp
  qed (simp add: anchored_def)
qed (simp add: anchored_def)

lemma consistent_anchors_ok: "anchored a b r bs \<Longrightarrow> anchored a b r (consistent_anchors bs p)"
  unfolding consistent_anchors_def Let_def by (rule anchored_filter)

text \<open>The gaps between the anchors and the anchors themselves, in order.\<close>

fun cut :: "int \<Rightarrow> int \<Rightarrow> int \<Rightarrow> int \<Rightarrow> block list \<Rightarrow> ranges list" where
  "cut ca cb ahi bhi [] = [(ca, ahi, cb, bhi)]"
| "cut ca cb ahi bhi ((i, j, sz) # anchors) =
     (ca, i, cb, j) # (i, i + sz, j, j + sz) # cut (i + sz) (j + sz) ahi bhi anchors"

lemma cut_mset: "mset (cut ca cb ahi bhi bs) = mset (map block_range bs @ anchor_gaps ca cb ahi bhi bs)"
  by (induction ca cb ahi bhi bs rule: cut.induct) auto

lemma cut_ordered:
  "sorted_wrt before (map block_range bs) \<Longrightarrow>
     \<forall>bl \<in> set bs. inside (block_range bl) (ca, ahi, cb, bhi) \<Longrightarrow> ca \<le> ahi \<Longrightarrow> cb \<le> bhi \<Longrightarrow>
     sorted_wrt before (cut ca cb ahi bhi bs) \<and> (\<forall>q \<in> set (cut ca cb ahi bhi bs). inside q (ca, ahi, cb, bhi))"
proof (induction ca cb ahi bhi bs rule: cut.induct)
  case (2 ca cb ahi bhi i j sz bs)
  from "2.prems" have here: "ca \<le> i" "i \<le> i + sz" "i + sz \<le> ahi" "cb \<le> j" "j + sz \<le> bhi" by auto
  have "inside (block_range q) (i + sz, ahi, j + sz, bhi)" if q: "q \<in> set bs" for q
  proof -
    have "inside (block_range q) (ca, ahi, cb, bhi)" "before (i, i + sz, j, j + sz) (block_range q)"
      using "2.prems"(1,2) q by auto
    then show ?thesis by (cases q) auto
  qed
  then have ih: "sorted_wrt before (cut (i + sz) (j + sz) ahi bhi bs)"
    "\<forall>q \<in> set (cut (i + sz) (j + sz) ahi bhi bs). inside q (i + sz, ahi, j + sz, bhi)"
    using "2.IH" "2.prems"(1) here by auto
  have "before (ca, i, cb, j) q \<and> before (i, i + sz, j, j + sz) q \<and> inside q (ca, ahi, cb, bhi)"
    if q: "q \<in> set (cut (i + sz) (j + sz) ahi bhi bs)" for q
  proof -
    from ih(2) q have "inside q (i + sz, ahi, j + sz, bhi)" by blast
    then show ?thesis using here by (cases q) auto
  qed
  with ih(1) here show ?case by (simp del: before.simps inside.simps) auto
qed simp

lemma anchored_placed:
  assumes "anchored a b (alo, ahi, blo, bhi) bs" "alo \<le> ahi" "blo \<le> bhi"
  shows "placed a b (alo, ahi, blo, bhi) bs (anchor_gaps alo blo ahi bhi bs)"
proof -
  have c: "sorted_wrt before (cut alo blo ahi bhi bs)"
    "\<forall>q \<in> set (cut alo blo ahi bhi bs). inside q (alo, ahi, blo, bhi)"
    using cut_ordered [of bs alo ahi blo bhi] assms by (auto simp: anchored_def)
  have "sorted_wrt apart (map block_range bs @ anchor_gaps alo blo ahi bhi bs)"
    using apart_perm [OF cut_mset apart_before [OF c(1)]] .
  moreover have "set (cut alo blo ahi bhi bs) = set (map block_range bs @ anchor_gaps alo blo ahi bhi bs)"
    using cut_mset by (metis set_mset_mset)
  ultimately show ?thesis using c(2) assms(1) unfolding placed_def anchored_def by auto
qed

section \<open>Matching blocks\<close>

lemma wbind_ok:
  assumes "wbind m f left = (Inr x, l)"
  obtains y l' where "m left = (Inr y, l')" "f y l' = (Inr x, l)"
  using assms by (auto simp: wbind_def split: prod.splits sum.splits)

lemma match_turn_placed:
  assumes "match_turn a b p r left = (Inr (bs, pushed), l)" "within a b r"
    "1 \<le> min_block_characters p" "1 \<le> anchor_characters p"
  shows "placed a b r bs pushed"
proof -
  obtain alo ahi blo bhi where r: "r = (alo, ahi, blo, bhi)" by (metis prod_cases4)
  let ?as = "consistent_anchors (anchor_blocks a b r (anchor_characters p)) p"
  have direct: "placed a b r bs pushed"
    if "wbind (direct_blocks a b r p) (\<lambda>bs. wret (bs, [])) l0 = (Inr (bs, pushed), l)" for l0
    using that direct_blocks_placed [OF _ assms(3,2)] by (auto simp: wret_def elim!: wbind_ok)
  consider (none) "alo \<ge> ahi \<or> blo \<ge> bhi"
    | (small) "alo < ahi" "blo < bhi" "(ahi - alo) * (bhi - blo) \<le> direct_alignment_max_pairs p"
    | (large) "alo < ahi" "blo < bhi" "\<not> (ahi - alo) * (bhi - blo) \<le> direct_alignment_max_pairs p"
    by linarith
  then show ?thesis
  proof cases
    case none
    with assms(1) show ?thesis by (auto simp: match_turn_def r wret_def placed_def)
  next
    case small
    with assms(1) have "wbind (direct_blocks a b r p) (\<lambda>bs. wret (bs, [])) left = (Inr (bs, pushed), l)"
      by (simp add: match_turn_def r Let_def)
    then show ?thesis by (rule direct)
  next
    case large
    with assms(1) obtain l0 where run:
      "(if ?as = [] then
          if (ahi - alo) * (bhi - blo) > max_alignment_pairs p then wfail ''size-bound''
          else wbind (direct_blocks a b r p) (\<lambda>bs. wret (bs, []))
        else wret (?as, anchor_gaps alo blo ahi bhi ?as)) l0 = (Inr (bs, pushed), l)"
      unfolding match_turn_def r prod.case Let_def
      by (simp only: linorder_not_le [symmetric] simp_thms if_False) (elim wbind_ok)
    show ?thesis
    proof (cases "?as = []")
      case True
      with run show ?thesis
        using direct [of l0] by (auto simp: wfail_def split: if_splits)
    next
      case False
      with run have "bs = ?as" "pushed = anchor_gaps alo blo ahi bhi ?as"
        by (auto simp: wret_def)
      moreover have "anchored a b r ?as"
        using anchor_blocks_ok [OF assms(2,4)] by (rule consistent_anchors_ok)
      ultimately show ?thesis using anchored_placed large(1,2) unfolding r by fastforce
    qed
  qed
qed

lemma match_loop_placed:
  "match_loop a b p work bs left = (Inr found, l) \<Longrightarrow> placed a b r bs work \<Longrightarrow> within a b r \<Longrightarrow>
     1 \<le> min_block_characters p \<Longrightarrow> 1 \<le> anchor_characters p \<Longrightarrow> placed a b r found []"
proof (induction a b p work bs left arbitrary: found l rule: match_loop.induct)
  case (1 a b p bs left)
  then show ?case by simp
next
  case (2 a b p rng work bs left)
  obtain x l1 where s: "spend 1 left = (x, l1)" by force
  obtain y where y: "x = Inr y" using "2.prems"(1) s by (cases x) auto
  obtain z l2 where z: "match_turn a b p rng l1 = (z, l2)" by force
  with "2.prems"(1) s y obtain t where zr: "z = Inr t" by (cases z) auto
  obtain new pushed where t: "t = (new, pushed)" by force
  from "2.prems"(1) s y z zr t have nl: "\<not> l2 > l1"
    and run: "match_loop a b p (rev pushed @ work) (bs @ new) l2 = (Inr found, l)"
    by (auto split: if_splits)
  have "within a b rng"
    using "2.prems"(2,3) inside_trans by (simp add: placed_def within_def) blast
  then have "placed a b rng new pushed" using match_turn_placed "2.prems"(4,5) z zr t by blast
  then have "placed a b r (bs @ new) (rev pushed @ work)"
    by (rule placed_split [OF "2.prems"(2)]) simp
  from "2.IH" [OF s [symmetric] y z [symmetric] zr t [symmetric] nl run this "2.prems"(3-5)] show ?case .
qed

text \<open>The guard of the loop on the steps left is never taken: a turn never returns steps.\<close>

lemma match_turn_left:
  "0 \<le> anchor_characters p \<Longrightarrow> match_turn a b p r left = (z, l) \<Longrightarrow>
     l \<le> left \<and> (\<forall>x. z = Inr x \<longrightarrow> 0 \<le> left \<longrightarrow> 0 \<le> l)"
  using charges_match_turn [of p a b r] unfolding charges_def by (metis snd_conv)

lemma match_loop_left:
  "match_loop a b p work bs left = (z, l) \<Longrightarrow> 0 \<le> anchor_characters p \<Longrightarrow>
     l \<le> left \<and> (\<forall>x. z = Inr x \<longrightarrow> 0 \<le> left \<longrightarrow> 0 \<le> l)"
proof (induction a b p work bs left arbitrary: z l rule: match_loop.induct)
  case (1 a b p bs left)
  then show ?case by auto
next
  case (2 a b p rng work bs left)
  obtain x l1 where s: "spend 1 left = (x, l1)" by force
  show ?case
  proof (cases x)
    case (Inl e)
    with "2.prems"(1) s show ?thesis by (auto simp: spend_def split: if_splits)
  next
    case y: (Inr y)
    with s have l1: "l1 = left - 1" "0 \<le> l1" using spend_ok by metis+
    obtain w l2 where z: "match_turn a b p rng l1 = (w, l2)" by force
    note turn = match_turn_left [OF "2.prems"(2) z]
    show ?thesis
    proof (cases w)
      case (Inl e)
      with "2.prems"(1) s y z turn l1 show ?thesis by auto
    next
      case wr: (Inr t)
      obtain new pushed where t: "t = (new, pushed)" by force
      from turn have nl: "\<not> l2 > l1" by simp
      with "2.prems"(1) s y z wr t have "match_loop a b p (rev pushed @ work) (bs @ new) l2 = (z, l)" by simp
      from "2.IH" [OF s [symmetric] y z [symmetric] wr t [symmetric] nl this "2.prems"(2)] turn l1 wr
      show ?thesis by auto
    qed
  qed
qed

text \<open>The blocks sorted: apart and not empty, they are ordered on both texts.\<close>

lemma apart_sorted:
  assumes "sorted_wrt apart (map block_range bs)" "sorted bs" "\<forall>(i, j, s) \<in> set bs. 1 \<le> s"
  shows "sorted_wrt (\<lambda>x y. before (block_range x) (block_range y)) bs"
  using assms
proof (induction bs)
  case (Cons x bs)
  have "before (block_range x) (block_range y)" if y: "y \<in> set bs" for y
  proof -
    obtain i j s where x: "x = (i, j, s)" by (metis prod_cases3)
    obtain k m t where e: "y = (k, m, t)" by (metis prod_cases3)
    have "apart (block_range x) (block_range y)" "x \<le> y" "1 \<le> t" using Cons.prems y e by auto
    then show ?thesis by (auto simp: x e apart_def less_eq_prod_def)
  qed
  with Cons show ?case by auto
qed simp

lemma matching_blocks_sound:
  assumes "wf_policy p" "matching_blocks a b p left = (Inr bs, left')"
  shows "sorted_wrt (\<lambda>(i, j, s) (i', j', s'). i + s \<le> i' \<and> j + s \<le> j') bs \<and>
    (\<forall>(i, j, s) \<in> set bs. 1 \<le> s \<and> 0 \<le> i \<and> i + s \<le> int (length a) \<and> 0 \<le> j \<and> j + s \<le> int (length b) \<and>
       (\<forall>k. 0 \<le> k \<and> k < s \<longrightarrow> a ! nat (i + k) = b ! nat (j + k))) \<and>
    left' \<le> left \<and> (0 \<le> left \<longrightarrow> 0 \<le> left')"
proof -
  let ?r = "(0, int (length a), 0, int (length b))"
  from assms(2) obtain found where loop: "match_loop a b p [?r] [] left = (Inr found, left')"
    and bs: "bs = sort found"
    unfolding matching_blocks_def Let_def
    by (auto simp: wret_def wfail_def split: if_splits elim!: wbind_ok)
  have p: "1 \<le> min_block_characters p" "1 \<le> anchor_characters p" using assms(1) by (simp_all add: wf_policy_def)
  have r: "within a b ?r" "placed a b ?r [] [?r]" by (simp_all add: within_def placed_def)
  note pl = match_loop_placed [OF loop r(2,1) p, unfolded placed_def append_Nil2]
  have "mset (map block_range found) = mset (map block_range bs)" by (simp add: bs)
  from apart_perm [OF this] pl have ap: "sorted_wrt apart (map block_range bs)" by blast
  have each: "1 \<le> s \<and> 0 \<le> i \<and> i + s \<le> int (length a) \<and> 0 \<le> j \<and> j + s \<le> int (length b) \<and>
       (\<forall>k. 0 \<le> k \<and> k < s \<longrightarrow> a ! nat (i + k) = b ! nat (j + k))" if "(i, j, s) \<in> set bs" for i j s
  proof -
    from that have m: "(i, j, s) \<in> set found" by (simp add: bs)
    with pl have "inside (block_range (i, j, s)) ?r" "genuine a b (i, j, s)" by (metis image_eqI set_map)+
    then show ?thesis by (auto simp: genuine_def common_run_def at_def)
  qed
  have "sorted_wrt (\<lambda>x y. before (block_range x) (block_range y)) bs"
    using ap each by (intro apart_sorted) (auto simp: bs)
  then have "sorted_wrt (\<lambda>(i, j, s) (i', j', s'). i + s \<le> i' \<and> j + s \<le> j') bs"
    by (rule sorted_wrt_mono_rel [rotated]) auto
  moreover have "left' \<le> left \<and> (0 \<le> left \<longrightarrow> 0 \<le> left')"
    using match_loop_left [OF loop] p by auto
  ultimately show ?thesis using each by blast
qed

lemma sample_policy_wf: "wf_policy sample_policy"
  by code_simp

text \<open>
  C14. The matching blocks of two texts never cross and never overlap on either text, each is
  a run of at least one character on which the two texts agree, and the matching charges the
  work budget without overdrawing it.
\<close>

theorem matching_blocks_ordered:
  assumes "wf_policy p" "matching_blocks a b p left = (Inr bs, left')"
  shows "sorted_wrt (\<lambda>(i, j, s) (i', j', s'). i + s \<le> i' \<and> j + s \<le> j') bs \<and>
    (\<forall>(i, j, s) \<in> set bs. 1 \<le> s \<and> 0 \<le> i \<and> i + s \<le> int (length a) \<and> 0 \<le> j \<and> j + s \<le> int (length b) \<and>
       (\<forall>k. 0 \<le> k \<and> k < s \<longrightarrow> a ! nat (i + k) = b ! nat (j + k))) \<and>
    left' \<le> left \<and> (0 \<le> left \<longrightarrow> 0 \<le> left')"
  using matching_blocks_sound [OF assms] .

theorem matching_blocks_ordered_witness:
  "matching_blocks (u ''marie roy'') (u ''mari roy'') sample_policy 1000 = (Inr [(0, 0, 4), (5, 4, 4)], 902) \<and>
   sorted_wrt (\<lambda>(i, j, s) (i', j', s'). i + s \<le> i' \<and> j + s \<le> j') [(0, 0, 4), (5, 4, 4 :: int)]"
proof -
  have run: "matching_blocks (u ''marie roy'') (u ''mari roy'') sample_policy 1000 =
      (Inr [(0, 0, 4), (5, 4, 4)], 902)" by code_simp
  with matching_blocks_ordered [OF sample_policy_wf run] show ?thesis by blast
qed

text \<open>
  C15. The banded search returns a run inside its box on which the two texts agree, its
  diagonal in the band unless it is empty, and no run of the box on a diagonal of the band is
  longer; and of the runs as long it is the first: the earliest of the box's longest runs when that
  one lies in the band, otherwise the earliest on the first diagonal of the band that holds one.
\<close>

theorem longest_in_band_exact:
  assumes "i0 \<le> i1" "j0 \<le> j1"
    "longest_in_band a b (i0, i1, j0, j1) (low, high) left = (Inr (i, j, s), l)"
  shows "i0 \<le> i \<and> i + s \<le> i1 \<and> j0 \<le> j \<and> j + s \<le> j1 \<and> 0 \<le> s \<and>
    (\<forall>k. 0 \<le> k \<and> k < s \<longrightarrow> a ! nat (i + k) = b ! nat (j + k)) \<and>
    (s = 0 \<or> low \<le> i - j \<and> i - j \<le> high) \<and>
    (\<forall>x y t. i0 \<le> x \<and> x + t \<le> i1 \<and> j0 \<le> y \<and> y + t \<le> j1 \<and> low \<le> x - y \<and> x - y \<le> high \<and>
       (\<forall>k. 0 \<le> k \<and> k < t \<longrightarrow> a ! nat (x + k) = b ! nat (y + k)) \<longrightarrow> t \<le> s) \<and>
    (\<exists>m. good_run a b (i0, i1, j0, j1) m \<and> (\<forall>x y t. good_run a b (i0, i1, j0, j1) (x, y, t) \<longrightarrow> leads m (x, y, t)) \<and>
      (if banded low high m then (i, j, s) = m
       else \<forall>x y t. good_run a b (i0, i1, j0, j1) (x, y, t) \<and> low \<le> x - y \<and> x - y \<le> high \<longrightarrow>
         leads_by_diagonal (i, j, s) (x, y, t)))"
proof -
  note spec = longest_in_band_spec [OF assms]
  have "t \<le> s"
    if "i0 \<le> x \<and> x + t \<le> i1 \<and> j0 \<le> y \<and> y + t \<le> j1 \<and> low \<le> x - y \<and> x - y \<le> high \<and>
       (\<forall>k. 0 \<le> k \<and> k < t \<longrightarrow> a ! nat (x + k) = b ! nat (y + k))" for x y t
  proof (cases "0 \<le> t")
    case True
    with that spec(3) [of x y t] show ?thesis by (simp add: banded_def common_run_def at_def)
  next
    case False
    with spec(1) show ?thesis by simp
  qed
  moreover have "i0 \<le> i \<and> i + s \<le> i1 \<and> j0 \<le> j \<and> j + s \<le> j1 \<and> 0 \<le> s \<and>
    (\<forall>k. 0 \<le> k \<and> k < s \<longrightarrow> a ! nat (i + k) = b ! nat (j + k))" "s = 0 \<or> low \<le> i - j \<and> i - j \<le> high"
    using spec(1,2) by (simp_all add: banded_def common_run_def at_def)
  ultimately show ?thesis using longest_in_band_first [OF assms] by blast
qed

theorem longest_in_band_exact_witness:
  "longest_in_band (u ''abcxyz'') (u ''xyzab'') (0, 6, 0, 5) (-4, -2) 100 = (Inr (0, 3, 2), 64) \<and>
   u ''abcxyz'' ! nat (0 + 1) = u ''xyzab'' ! nat (3 + 1)"
proof -
  have run: "longest_in_band (u ''abcxyz'') (u ''xyzab'') (0, 6, 0, 5) (-4, -2) 100 = (Inr (0, 3, 2), 64)"
    by code_simp
  from longest_in_band_exact [OF _ _ run]
  have "\<forall>k. 0 \<le> k \<and> k < 2 \<longrightarrow> u ''abcxyz'' ! nat (0 + k) = u ''xyzab'' ! nat (3 + k)"
    by simp
  from spec [OF this, of 1] run show ?thesis by simp
qed

end
