(* ===== verification/Coverage.thy ===== *)
theory Coverage
  imports Align Regions TextNorm "HOL-Library.AList"
begin

text \<open>
  The measurements of rule (e), \<open>common/page_accounting.py\<close>: how much of a witness text a
  reading accounts for, the bit-parallel edit distance to a stretch of a text, the pieces of
  a text that tell one record from another, and the shares they give. A Python set of pieces
  is a list read for membership only; a dictionary is an association list.
\<close>

unbundle bit_operations_syntax

section \<open>Coverage of a witness text\<close>

record TextCoverage =
  cov_witness :: int
  cov_matched :: int
  cov_run :: int
  cov_unread :: int
  cov_position :: "int list"

definition unread_share_bp :: "TextCoverage \<Rightarrow> int" where
  "unread_share_bp c = cov_unread c * BASIS_POINTS div max (cov_witness c) 1"

definition set_at :: "int list \<Rightarrow> int \<Rightarrow> int \<Rightarrow> int list" where
  "set_at xs i v = xs[nat i := v]"

text \<open>What stands opposite a gap: unreadable marks, or other letters.\<close>

definition gap_credit :: "int \<Rightarrow> ustr \<Rightarrow> int" where
  "gap_credit threshold opposite =
     (let marks = int (count_list opposite UNREADABLE) in
      if marks \<noteq> 0 then marks * threshold else min (int (length opposite)) threshold)"

text \<open>The loop over the blocks: the cursors, then the counts and the positions so far.\<close>

fun cover_blocks :: "int \<Rightarrow> ustr \<Rightarrow> block list \<Rightarrow> int \<Rightarrow> int \<Rightarrow> TextCoverage \<Rightarrow> TextCoverage" where
  "cover_blocks threshold reading [] ca cb c = c"
| "cover_blocks threshold reading ((i, j, sz) # blocks) ca cb c =
     (let gap_w = i - ca; gap_r = j - cb;
          unread = max 0 (gap_w - gap_credit threshold (slice reading cb j));
          opposite_gap = fold (\<lambda>k xs. set_at xs (ca + k) (cb + k * gap_r div gap_w)) [0..gap_w - 1]
            (cov_position c);
          opposite_block = fold (\<lambda>k xs. set_at xs (i + k) (j + k)) [0..sz - 1] opposite_gap
      in cover_blocks threshold reading blocks (i + sz) (j + sz)
           (c\<lparr>cov_run := max (cov_run c) unread, cov_unread := cov_unread c + unread,
              cov_matched := cov_matched c + sz, cov_position := opposite_block\<rparr>))"

definition text_coverage :: "ustr \<Rightarrow> ustr \<Rightarrow> policy \<Rightarrow> TextCoverage work" where
  "text_coverage witness reading p =
     wbind (matching_blocks witness reading p) (\<lambda>blocks.
       let lw = int (length witness); lr = int (length reading);
           c = cover_blocks (max_unread_characters p) reading (blocks @ [(lw, lr, 0)]) 0 0
                 \<lparr>cov_witness = lw, cov_matched = 0, cov_run = 0, cov_unread = 0,
                  cov_position = replicate (length witness + 1) 0\<rparr>
       in wret (c\<lparr>cov_position := set_at (cov_position c) lw lr\<rparr>))"

section \<open>The distance to a stretch of a text\<close>

text \<open>
  Myers' bit-parallel distance. \<open>equal\<close> holds for every character of the pattern the mask of
  its places; the state is the two masks of the column's steps, the score at its foot and
  the best score so far.
\<close>

definition equal_masks :: "ustr \<Rightarrow> (int \<times> int) list" where
  "equal_masks pattern =
     fold (\<lambda>(index, c) d. AList.update c
         ((case map_of d c of None \<Rightarrow> 0 | Some m \<Rightarrow> m) OR push_bit index 1) d)
       (zip [0..<length pattern] pattern) []"

record myers =
  my_plus :: int
  my_minus :: int
  my_score :: int
  my_best :: int

definition myers_step :: "int \<Rightarrow> int \<Rightarrow> (int \<times> int) list \<Rightarrow> int \<Rightarrow> myers \<Rightarrow> myers" where
  "myers_step full high masks c st =
     (let plus = my_plus st; minus = my_minus st;
          eq = (case map_of masks c of None \<Rightarrow> 0 | Some m \<Rightarrow> m);
          xv = eq OR minus;
          xh = ((((eq AND plus) + plus) AND full) XOR plus) OR eq;
          hp = minus OR (NOT (xh OR plus) AND full);
          hm = plus AND xh;
          score = (if hp AND high \<noteq> 0 then my_score st + 1
                   else if hm AND high \<noteq> 0 then my_score st - 1 else my_score st);
          hp' = push_bit 1 hp AND full;
          hm' = push_bit 1 hm AND full
      in \<lparr>my_plus = hm' OR (NOT (xv OR hp') AND full), my_minus = hp' AND xv,
          my_score = score, my_best = min (my_best st) score\<rparr>)"

definition best_substring_distance :: "ustr \<Rightarrow> ustr \<Rightarrow> int" where
  "best_substring_distance pattern txt =
     (let m = length pattern in
      if m = 0 then 0
      else
        let full = push_bit m 1 - 1; high = push_bit (m - 1) 1 in
        my_best (fold (myers_step full high (equal_masks pattern)) txt
          \<lparr>my_plus = full, my_minus = 0, my_score = int m, my_best = int m\<rparr>))"

section \<open>Pieces\<close>

definition pieces :: "ustr \<Rightarrow> int \<Rightarrow> ustr list" where
  "pieces txt k = map (\<lambda>i. slice txt i (i + k)) [0..int (length txt) - k]"

definition one_deletions :: "ustr \<Rightarrow> ustr list" where
  "one_deletions piece = map (\<lambda>i. take i piece @ drop (i + 1) piece) [0..<length piece]"

record near_index =
  near_exact :: "ustr list"
  near_substituted :: "ustr list"
  near_inserted :: "ustr list"

definition near_pieces :: "ustr \<Rightarrow> int \<Rightarrow> near_index" where
  "near_pieces txt k =
     \<lparr>near_exact = pieces txt k,
      near_substituted = concat (map one_deletions (pieces txt k)),
      near_inserted = concat (map one_deletions (pieces txt (k + 1)))\<rparr>"

definition near :: "near_index \<Rightarrow> ustr \<Rightarrow> bool" where
  "near ix piece \<longleftrightarrow>
     piece \<in> set (near_exact ix) \<or> piece \<in> set (near_inserted ix) \<or>
     list_ex (\<lambda>shorter. shorter \<in> set (near_substituted ix)) (one_deletions piece)"

text \<open>A sealed witness unit, as the accounting keeps it.\<close>

record sealed_unit =
  su_id :: ustr
  su_box :: "box option"
  su_text :: ustr

definition dict_of :: "('k \<times> 'v) list \<Rightarrow> ('k \<times> 'v) list" where
  "dict_of kvs = fold (\<lambda>(k, v). AList.update k v) kvs []"

text \<open>
  The wanted pieces of a text, each once, with its first offset.
\<close>

definition kept_pieces :: "(ustr \<Rightarrow> bool) \<Rightarrow> ustr \<Rightarrow> int \<Rightarrow> (ustr \<times> int) list" where
  "kept_pieces wanted txt k =
     fold (\<lambda>offset kept. let piece = slice txt offset (offset + k) in
         if piece \<in> set (map fst kept) \<or> \<not> wanted piece then kept else kept @ [(piece, offset)])
       [0..int (length txt) - k] []"

definition distinctive_piece ::
  "near_index list \<Rightarrow> ustr list \<Rightarrow> near_index list \<Rightarrow> ustr \<Rightarrow> bool" where
  "distinctive_piece same others near_readings piece \<longleftrightarrow>
     \<not> list_ex (\<lambda>ix. near ix piece) same \<and>
     (let in_readings = length (filter (\<lambda>ix. near ix piece) near_readings) in
      in_readings < 2 \<and> (piece \<in> set others \<or> in_readings = 1))"

definition distinctive_pieces ::
  "unicode \<Rightarrow> sealed_unit list \<Rightarrow> (int \<times> ustr) list \<Rightarrow> int \<Rightarrow>
     (ustr \<times> ustr) list \<times> (ustr \<times> (ustr \<times> int) list) list" where
  "distinctive_pieces uc units readings k =
     (let texts = dict_of (map (\<lambda>x. (su_id x, normalized_text uc False (su_text x))) units);
          near_readings = map (\<lambda>(n, txt). near_pieces txt k) readings
      in (texts, map (\<lambda>(i, txt).
            let same = map (\<lambda>(j, other). near_pieces other k)
                  (filter (\<lambda>(j, other). j \<noteq> i \<and> hd j = hd i) texts);
                others = concat (map (\<lambda>(j, other). pieces other k)
                  (filter (\<lambda>(j, other). hd j \<noteq> hd i) texts))
            in (i, kept_pieces (distinctive_piece same others near_readings) txt k)) texts))"

section \<open>Shares\<close>

text \<open>\<open>reading[start:stop]\<close> with a window either side.\<close>

definition window :: "ustr \<Rightarrow> int \<Rightarrow> int \<Rightarrow> int \<Rightarrow> ustr" where
  "window reading lo hi slack = slice reading (max 0 (lo - slack)) (hi + slack)"

definition piece_found :: "ustr \<Rightarrow> TextCoverage \<Rightarrow> policy \<Rightarrow> ustr \<times> int \<Rightarrow> bool" where
  "piece_found reading c p kept =
     (let (piece, offset) = kept;
          w = window reading (at (cov_position c) offset)
                (at (cov_position c) (offset + piece_characters p)) (window_slack p)
      in UNREADABLE \<in> set w \<or> best_substring_distance piece w \<le> piece_edits p)"

definition distinctive_share :: "ustr \<Rightarrow> (ustr \<times> int) list \<Rightarrow> TextCoverage \<Rightarrow> policy \<Rightarrow> int" where
  "distinctive_share reading distinctive c p =
     int (length (filter (piece_found reading c p) distinctive)) * BASIS_POINTS
       div int (length distinctive)"

definition short_unit_distance_bp :: "ustr \<Rightarrow> ustr \<Rightarrow> TextCoverage \<Rightarrow> policy \<Rightarrow> int" where
  "short_unit_distance_bp witness reading c p =
     (if UNREADABLE \<in> set (window reading (at (cov_position c) 0)
           (at (cov_position c) (int (length witness))) (window_slack p))
      then 0
      else best_substring_distance witness reading * BASIS_POINTS div int (length witness))"

end
