(* ===== verification/CoverageFacts.thy ===== *)
theory CoverageFacts
  imports Coverage AlignOrder
begin

text \<open>
  What a coverage says: its counts are bounded by the witness text, and its positions rise
  from the start of the reading to its end. A reading that equals the witness text accounts
  for all of it.
\<close>

section \<open>Positions\<close>

lemma set_at_length [simp]: "length (set_at xs i v) = length xs"
  by (simp add: set_at_def)

lemma set_at_nth:
  "x < length xs \<Longrightarrow> 0 \<le> i \<Longrightarrow> set_at xs i v ! x = (if int x = i then v else xs ! x)"
  by (auto simp: set_at_def nth_list_update)

lemma fill_length [simp]: "length (fold (\<lambda>k xs. set_at xs (a + k) (f k)) ks xs) = length xs"
  by (induction ks arbitrary: xs) simp_all

text \<open>A stretch of positions written one after the other.\<close>

lemma fill_nth:
  assumes "0 \<le> a" "a + int n \<le> int (length xs)" "x < length xs"
  shows "fold (\<lambda>k xs. set_at xs (a + k) (f k)) [0..int n - 1] xs ! x =
    (if a \<le> int x \<and> int x < a + int n then f (int x - a) else xs ! x)"
  using assms
proof (induction n)
  case (Suc n)
  have "[0..int (Suc n) - 1] = [0..int n - 1] @ [int n]" by (simp add: upto_rec2)
  then have eq: "fold (\<lambda>k xs. set_at xs (a + k) (f k)) [0..int (Suc n) - 1] xs =
      set_at (fold (\<lambda>k xs. set_at xs (a + k) (f k)) [0..int n - 1] xs) (a + int n) (f (int n))" by simp
  have ih: "fold (\<lambda>k xs. set_at xs (a + k) (f k)) [0..int n - 1] xs ! x =
    (if a \<le> int x \<and> int x < a + int n then f (int x - a) else xs ! x)"
    using Suc.prems by (intro Suc.IH) auto
  have l: "x < length (fold (\<lambda>k xs. set_at xs (a + k) (f k)) [0..int n - 1] xs)" "0 \<le> a + int n"
    using Suc.prems by simp_all
  show ?case unfolding eq set_at_nth [OF l] ih by auto
qed simp

lemma fill_nth':
  assumes "0 \<le> a" "0 \<le> n" "a + n \<le> int (length xs)" "x < length xs"
  shows "fold (\<lambda>k xs. set_at xs (a + k) (f k)) [0..n - 1] xs ! x =
    (if a \<le> int x \<and> int x < a + n then f (int x - a) else xs ! x)"
  using fill_nth [of a "nat n" xs x f] assms by simp

section \<open>Counts\<close>

text \<open>Blocks in order from a pair of cursors to the ends of the two texts.\<close>

fun blocks_from :: "int \<Rightarrow> int \<Rightarrow> int \<Rightarrow> int \<Rightarrow> block list \<Rightarrow> bool" where
  "blocks_from ca cb lw lr [] \<longleftrightarrow> ca \<le> lw \<and> cb \<le> lr"
| "blocks_from ca cb lw lr ((i, j, sz) # bs) \<longleftrightarrow>
     ca \<le> i \<and> cb \<le> j \<and> 0 \<le> sz \<and> blocks_from (i + sz) (j + sz) lw lr bs"

lemma blocks_from_bounds: "blocks_from ca cb lw lr bs \<Longrightarrow> ca \<le> lw \<and> cb \<le> lr"
  by (induction ca cb lw lr bs rule: blocks_from.induct) auto

definition covered_to :: "int \<Rightarrow> int \<Rightarrow> int \<Rightarrow> TextCoverage \<Rightarrow> bool" where
  "covered_to lw ca cb c \<longleftrightarrow>
     int (length (cov_position c)) = lw + 1 \<and> 0 \<le> ca \<and> ca \<le> lw \<and> 0 \<le> cb \<and>
     0 \<le> cov_run c \<and> cov_run c \<le> cov_unread c \<and> 0 \<le> cov_matched c \<and>
     cov_matched c + cov_unread c \<le> ca \<and>
     (\<forall>x. int x < ca \<longrightarrow> 0 \<le> cov_position c ! x \<and> cov_position c ! x \<le> cb) \<and>
     (\<forall>x y. x \<le> y \<and> int y < ca \<longrightarrow> cov_position c ! x \<le> cov_position c ! y)"

lemma gap_position:
  fixes k g r :: int
  assumes "0 \<le> k" "k < g" "0 \<le> r"
  shows "0 \<le> k * r div g" "k * r div g \<le> r"
proof -
  show "0 \<le> k * r div g" using assms by (simp add: pos_imp_zdiv_nonneg_iff)
  have "k * r \<le> r * g" using assms by (metis less_imp_le mult.commute mult_left_mono)
  then have "k * r div g \<le> r * g div g" using assms by (intro zdiv_mono1) auto
  then show "k * r div g \<le> r" using assms by simp
qed

lemma cover_step:
  fixes reading :: ustr and c :: TextCoverage and ca cb i j sz threshold :: int
  assumes "covered_to lw ca cb c" "ca \<le> i" "cb \<le> j" "0 \<le> sz" "i + sz \<le> lw" "0 \<le> threshold"
  defines "gap_w \<equiv> i - ca" and "gap_r \<equiv> j - cb"
  defines "unread \<equiv> max 0 (gap_w - gap_credit threshold (slice reading cb j))"
  defines "pos1 \<equiv> fold (\<lambda>k xs. set_at xs (ca + k) (cb + k * gap_r div gap_w)) [0..gap_w - 1] (cov_position c)"
  defines "pos2 \<equiv> fold (\<lambda>k xs. set_at xs (i + k) (j + k)) [0..sz - 1] pos1"
  shows "covered_to lw (i + sz) (j + sz)
    (c\<lparr>cov_run := max (cov_run c) unread, cov_unread := cov_unread c + unread,
       cov_matched := cov_matched c + sz, cov_position := pos2\<rparr>)"
proof -
  note inv = assms(1) [unfolded covered_to_def]
  have len1: "length pos1 = length (cov_position c)" by (simp add: pos1_def)
  have nth: "pos2 ! x = (if int x < ca then cov_position c ! x
      else if int x < i then cb + (int x - ca) * gap_r div gap_w else j + (int x - i))"
    if x: "int x < i + sz" for x
  proof -
    have l: "x < length (cov_position c)" using x inv assms(5) by linarith
    have "pos2 ! x = (if i \<le> int x \<and> int x < i + sz then j + (int x - i) else pos1 ! x)"
      unfolding pos2_def using l inv assms(2-5) len1 by (intro fill_nth') auto
    moreover have "pos1 ! x = (if ca \<le> int x \<and> int x < ca + gap_w
        then cb + (int x - ca) * gap_r div gap_w else cov_position c ! x)"
      unfolding pos1_def using l inv assms(2-5) by (intro fill_nth') (auto simp: gap_w_def)
    ultimately show ?thesis using x assms(2) by (auto simp: gap_w_def)
  qed
  have gr: "0 \<le> gap_r" using assms(3) by (simp add: gap_r_def)
  have gap: "cb \<le> cb + (int x - ca) * gap_r div gap_w \<and> cb + (int x - ca) * gap_r div gap_w \<le> j"
    if "ca \<le> int x" "int x < i" for x
    using gap_position [of "int x - ca" gap_w gap_r] that gr by (auto simp: gap_w_def gap_r_def)
  have range: "0 \<le> pos2 ! x \<and> pos2 ! x \<le> j + sz" if x: "int x < i + sz" for x
  proof -
    consider "int x < ca" | "ca \<le> int x" "int x < i" | "i \<le> int x" by linarith
    then show ?thesis
    proof cases
      case 1
      with inv nth [OF x] assms(3,4) show ?thesis by force
    next
      case 2
      with gap [OF 2] nth [OF x] inv assms(4) show ?thesis by simp
    next
      case 3
      with nth [OF x] x inv assms(2,3) show ?thesis by simp
    qed
  qed
  have mono: "pos2 ! x \<le> pos2 ! y" if xy: "x \<le> y" "int y < i + sz" for x y
  proof -
    have x: "int x < i + sz" using xy by linarith
    consider "int y < ca" | "int x < ca" "ca \<le> int y" "int y < i" | "int x < ca" "i \<le> int y"
      | "ca \<le> int x" "int y < i" | "ca \<le> int x" "int x < i" "i \<le> int y" | "i \<le> int x" using xy by linarith
    then show ?thesis
    proof cases
      case 1
      with inv nth [OF x] nth [OF xy(2)] xy show ?thesis by simp
    next
      case 2
      with inv nth [OF x] nth [OF xy(2)] gap [of y] show ?thesis by fastforce
    next
      case 3
      with inv nth [OF x] nth [OF xy(2)] assms(2,3) show ?thesis by fastforce
    next
      case 4
      then have "(int x - ca) * gap_r div gap_w \<le> (int y - ca) * gap_r div gap_w"
        using xy gr by (intro zdiv_mono1 mult_right_mono) (auto simp: gap_w_def)
      with 4 nth [OF x] nth [OF xy(2)] xy show ?thesis by simp
    next
      case 5
      with nth [OF x] nth [OF xy(2)] gap [of x] assms(2) show ?thesis by simp
    next
      case 6
      with nth [OF x] nth [OF xy(2)] xy assms(2) show ?thesis by simp
    qed
  qed
  have "0 \<le> gap_credit threshold opposite" for opposite
    using assms(6) by (simp add: gap_credit_def Let_def)
  then have un: "0 \<le> unread" "unread \<le> i - ca" using assms(2) by (auto simp: unread_def gap_w_def)
  have "length pos2 = length (cov_position c)" by (simp add: pos2_def len1)
  with inv un range mono assms(2-5) show ?thesis unfolding covered_to_def by auto
qed

lemma cover_blocks_inv:
  "covered_to lw ca cb c \<Longrightarrow> blocks_from ca cb lw lr (bs @ [(lw, lr, 0)]) \<Longrightarrow> 0 \<le> threshold \<Longrightarrow>
     covered_to lw lw lr (cover_blocks threshold reading (bs @ [(lw, lr, 0)]) ca cb c)"
proof (induction bs arbitrary: ca cb c)
  case Nil
  then have b: "ca \<le> lw" "cb \<le> lr" by simp_all
  have "(0 :: int) \<le> 0" "lw + 0 \<le> lw" by simp_all
  note step = cover_step [OF Nil(1) b this Nil(3), of reading]
  then show ?case by (simp add: Let_def)
next
  case (Cons x bs)
  obtain i j sz where x: "x = (i, j, sz)" by (metis prod_cases3)
  from Cons.prems(2) have b: "ca \<le> i" "cb \<le> j" "0 \<le> sz"
    "blocks_from (i + sz) (j + sz) lw lr (bs @ [(lw, lr, 0)])" by (simp_all add: x)
  with blocks_from_bounds have "i + sz \<le> lw" by blast
  note step = cover_step [OF Cons.prems(1) b(1-3) this Cons.prems(3), of reading]
  show ?case unfolding x append_Cons cover_blocks.simps Let_def
    by (rule Cons.IH [OF step b(4) Cons.prems(3)])
qed

section \<open>The coverage of an alignment\<close>

lemma blocks_from_ordered:
  assumes "sorted_wrt (\<lambda>(i, j, s) (i', j', s'). i + s \<le> i' \<and> j + s \<le> j') bs"
    "\<forall>(i, j, s) \<in> set bs. ca \<le> i \<and> cb \<le> j \<and> 0 \<le> s \<and> i + s \<le> lw \<and> j + s \<le> lr"
    "ca \<le> lw" "cb \<le> lr"
  shows "blocks_from ca cb lw lr (bs @ [(lw, lr, 0)])"
  using assms
proof (induction bs arbitrary: ca cb)
  case (Cons b bs)
  obtain i j s where b: "b = (i, j, s)" by (metis prod_cases3)
  have here: "ca \<le> i" "cb \<le> j" "0 \<le> s" "i + s \<le> lw" "j + s \<le> lr" using Cons.prems(2) b by auto
  have "blocks_from (i + s) (j + s) lw lr (bs @ [(lw, lr, 0)])"
    using Cons.prems b here by (intro Cons.IH) fastforce+
  with here show ?case by (simp add: b)
qed simp

lemma text_coverage_cases:
  assumes "text_coverage w r p left = (Inr c, l)"
  obtains bs where "matching_blocks w r p left = (Inr bs, l)"
    "c = (let c = cover_blocks (max_unread_characters p) r (bs @ [(int (length w), int (length r), 0)]) 0 0
            \<lparr>cov_witness = int (length w), cov_matched = 0, cov_run = 0, cov_unread = 0,
             cov_position = replicate (length w + 1) 0\<rparr>
          in c\<lparr>cov_position := set_at (cov_position c) (int (length w)) (int (length r))\<rparr>)"
  using assms by (auto simp: text_coverage_def Let_def wret_def elim!: wbind_ok)

lemma cover_blocks_witness: "cov_witness (cover_blocks threshold r bs ca cb c) = cov_witness c"
  by (induction threshold r bs ca cb c rule: cover_blocks.induct) (simp_all add: Let_def)

text \<open>
  C16. A coverage stays within its witness text: the longest unread run is at most the unread
  total, what is matched and what is unread are at most the text together, its share is in
  basis points, and the positions rise from the reading's start and end at its end.
\<close>

theorem text_coverage_bounds:
  assumes "wf_policy p" "text_coverage w r p left = (Inr c, l)"
  shows "cov_witness c = int (length w) \<and> 0 \<le> cov_matched c \<and> 0 \<le> cov_run c \<and> cov_run c \<le> cov_unread c \<and>
    cov_matched c + cov_unread c \<le> int (length w) \<and> 0 \<le> unread_share_bp c \<and> unread_share_bp c \<le> BASIS_POINTS \<and>
    length (cov_position c) = length w + 1 \<and> cov_position c ! length w = int (length r) \<and>
    sorted (cov_position c) \<and> (\<forall>x \<in> set (cov_position c). 0 \<le> x \<and> x \<le> int (length r))"
proof -
  let ?lw = "int (length w)" and ?lr = "int (length r)"
  let ?c0 = "\<lparr>cov_witness = ?lw, cov_matched = 0, cov_run = 0, cov_unread = 0,
             cov_position = replicate (length w + 1) 0\<rparr>"
  obtain bs where run: "matching_blocks w r p left = (Inr bs, l)"
    and c: "c = (let c = cover_blocks (max_unread_characters p) r (bs @ [(?lw, ?lr, 0)]) 0 0 ?c0
          in c\<lparr>cov_position := set_at (cov_position c) ?lw ?lr\<rparr>)"
    using text_coverage_cases [OF assms(2)] .
  define d where "d = cover_blocks (max_unread_characters p) r (bs @ [(?lw, ?lr, 0)]) 0 0 ?c0"
  have c: "c = d\<lparr>cov_position := set_at (cov_position d) ?lw ?lr\<rparr>" by (simp add: c d_def Let_def)
  note sound = matching_blocks_sound [OF assms(1) run]
  have "blocks_from 0 0 ?lw ?lr (bs @ [(?lw, ?lr, 0)])"
    using sound by (intro blocks_from_ordered) auto
  moreover have "covered_to ?lw 0 0 ?c0" by (simp add: covered_to_def)
  moreover have "0 \<le> max_unread_characters p" using assms(1) by (simp add: wf_policy_def)
  ultimately have "covered_to ?lw ?lw ?lr d" unfolding d_def by (intro cover_blocks_inv)
  note inv' = this [unfolded covered_to_def]
  have wit: "cov_witness d = ?lw" by (simp add: d_def cover_blocks_witness)
  have share: "0 \<le> unread_share_bp c \<and> unread_share_bp c \<le> BASIS_POINTS"
  proof -
    have un: "0 \<le> cov_unread d" "cov_unread d \<le> ?lw" using inv' by linarith+
    then have "cov_unread d * BASIS_POINTS div max ?lw 1 \<le> max ?lw 1 * BASIS_POINTS div max ?lw 1"
      by (intro zdiv_mono1 mult_right_mono) (auto simp: BASIS_POINTS_def)
    then have "cov_unread d * BASIS_POINTS div max ?lw 1 \<le> BASIS_POINTS" by simp
    with un show ?thesis by (auto simp: unread_share_bp_def c wit BASIS_POINTS_def pos_imp_zdiv_nonneg_iff)
  qed
  have nth: "cov_position c ! x = (if x = length w then ?lr else cov_position d ! x)" if "x \<le> length w" for x
    using that inv' by (simp add: c set_at_nth)
  have len: "length (cov_position c) = length w + 1" using inv' by (simp add: c)
  have range: "0 \<le> cov_position c ! x \<and> cov_position c ! x \<le> ?lr" if "x \<le> length w" for x
    using nth [OF that] that inv' by auto
  have "cov_position c ! x \<le> cov_position c ! y" if xy: "x \<le> y" "y < length w + 1" for x y
  proof (cases "y = length w")
    case True
    with range [of x] nth [of y] xy show ?thesis by simp
  next
    case False
    with nth [of x] nth [of y] inv' xy show ?thesis by simp
  qed
  then have "sorted (cov_position c)" by (auto simp: sorted_iff_nth_mono len)
  moreover have "\<forall>x \<in> set (cov_position c). 0 \<le> x \<and> x \<le> ?lr"
    using range by (auto simp: in_set_conv_nth len)
  ultimately show ?thesis using share len nth [of "length w"] inv' wit by (simp add: c)
qed

theorem text_coverage_bounds_witness:
  "sorted [0, 1, 2, 3, 4, 4, 5, 6, 7, 8 :: int] \<and>
   fst (text_coverage (u ''marie roy'') (u ''mari roy'') sample_policy 1000) =
     Inr \<lparr>cov_witness = 9, cov_matched = 8, cov_run = 1, cov_unread = 1,
          cov_position = [0, 1, 2, 3, 4, 4, 5, 6, 7, 8]\<rparr>"
proof -
  have run: "text_coverage (u ''marie roy'') (u ''mari roy'') sample_policy 1000 =
    (Inr \<lparr>cov_witness = 9, cov_matched = 8, cov_run = 1, cov_unread = 1,
          cov_position = [0, 1, 2, 3, 4, 4, 5, 6, 7, 8]\<rparr>, 902)" by code_simp
  from text_coverage_bounds [OF sample_policy_wf run] show ?thesis unfolding run by simp
qed

section \<open>A text read exactly\<close>

lemma spend_measured: "n \<le> left \<Longrightarrow> spend n left = (Inr (), left - n)"
  by (simp add: spend_def)

lemma longest_in_band_self:
  assumes "0 < int (length w)" "low \<le> 0" "0 \<le> high" "int (length w) * int (length w) \<le> left"
  shows "longest_in_band w w (0, int (length w), 0, int (length w)) (low, high) left =
    (Inr (0, 0, int (length w)), left - int (length w) * int (length w))"
proof -
  let ?n = "int (length w)"
  obtain i j s where m: "longest_match w w (0, ?n, 0, ?n) = (i, j, s)" by (metis prod_cases3)
  note best = longest_match_best [of 0 ?n 0 ?n, where a = w and b = w, unfolded m]
  have "good_run w w (0, ?n, 0, ?n) (0, 0, ?n)" by (simp add: common_run_def)
  then have "?n \<le> s" using best(2) [of 0 0 ?n] by simp
  with best(1) have "i = 0 \<and> j = 0 \<and> s = ?n" by simp
  with m assms show ?thesis
    by (simp add: longest_in_band_def wbind_def spend_measured wret_def)
qed

text \<open>
  A reading that equals the witness text is measured as covering all of it, each letter
  opposite itself, whenever the text is long enough to match, short enough to be matched
  directly, and the budget holds one comparison of every pair of letters.
\<close>

theorem exact_reading_covers:
  assumes "wf_policy p" "0 \<le> band_slack p" "min_block_characters p \<le> int (length w)"
    "int (length w) \<le> max_characters p" "int (length w) * int (length w) \<le> direct_alignment_max_pairs p"
    "int (length w) * int (length w) + 4 \<le> left"
  shows "\<exists>c l. text_coverage w w p left = (Inr c, l) \<and>
    cov_matched c = int (length w) \<and> cov_unread c = 0 \<and> cov_run c = 0 \<and>
    cov_position c = [0..int (length w)]"
proof -
  let ?n = "int (length w)"
  have "0 < min_block_characters p" using assms(1) by (simp add: wf_policy_def)
  then have n: "0 < ?n" using assms(3) by linarith
  have sl: "slice w 0 ?n = w" by (simp add: slice_def)
  have "0 \<le> ?n * ?n" by simp
  with assms(6) have left: "1 \<le> left" "1 \<le> left - 1" "1 \<le> left - 2 - ?n * ?n" "1 \<le> left - 3 - ?n * ?n"
    by linarith+
  have "direct_loop w w p [(0, ?n, 0, ?n)] [] (left - 1) = (Inr [(0, 0, ?n)], left - ?n * ?n - 4)"
    using n left assms longest_in_band_self [OF n, of "- band_slack p" "band_slack p" "left - 2"]
    by (simp add: spend_measured)
  then have "direct_blocks w w (0, ?n, 0, ?n) p (left - 1) = (Inr [(0, 0, ?n)], left - ?n * ?n - 4)"
    by (simp add: direct_blocks_def sl wbind_def wret_def)
  then have "match_turn w w p (0, ?n, 0, ?n) (left - 1) = (Inr ([(0, 0, ?n)], []), left - ?n * ?n - 4)"
    using n assms(5) by (simp add: match_turn_def wbind_def wret_def)
  moreover have "\<not> left - 1 < left - ?n * ?n - 4" using \<open>0 \<le> ?n * ?n\<close> by linarith
  ultimately have "match_loop w w p [(0, ?n, 0, ?n)] [] left = (Inr [(0, 0, ?n)], left - ?n * ?n - 4)"
    using spend_measured [OF left(1)] by simp
  then have run: "matching_blocks w w p left = (Inr [(0, 0, ?n)], left - ?n * ?n - 4)"
    using assms(4) by (simp add: matching_blocks_def wbind_def wret_def Let_def del: match_loop.simps)
  define pos where "pos = fold (\<lambda>k xs. set_at xs k k) [0..?n - 1] (replicate (length w + 1) 0)"
  have lp: "length pos = length w + 1"
    using fill_length [of 0 "\<lambda>k. k" "[0..?n - 1]" "replicate (length w + 1) 0"] by (simp add: pos_def)
  have "set_at pos ?n ?n ! x = int x" if x: "x < length w + 1" for x
  proof (cases "x = length w")
    case True
    with lp show ?thesis by (simp add: set_at_nth)
  next
    case False
    with x fill_nth [of 0 "length w" "replicate (length w + 1) 0" x "\<lambda>k. k"]
    have "pos ! x = int x" by (simp add: pos_def del: replicate.simps)
    with False x lp show ?thesis by (simp add: set_at_nth)
  qed
  then have "set_at pos ?n ?n = [0..?n]" using lp by (intro nth_equalityI) auto
  moreover have "slice w k k = []" for k by (simp add: slice_def)
  moreover have "0 < max_unread_characters p" using assms(1) by (simp add: wf_policy_def)
  ultimately show ?thesis using run n
    by (simp add: text_coverage_def wbind_def Let_def wret_def gap_credit_def pos_def del: replicate.simps)
qed

theorem exact_reading_covers_witness:
  "\<exists>c l. text_coverage (u ''marie roy'') (u ''marie roy'') sample_policy 1000 = (Inr c, l) \<and> cov_unread c = 0"
proof -
  have "0 \<le> band_slack sample_policy" "min_block_characters sample_policy \<le> 9" "9 \<le> max_characters sample_policy"
    "81 \<le> direct_alignment_max_pairs sample_policy" by code_simp+
  then show ?thesis using exact_reading_covers [of sample_policy "u ''marie roy''" 1000] sample_policy_wf
    by (auto simp: u_def)
qed

end
