(* ===== verification/Myers.thy ===== *)
theory Myers
  imports Coverage "HOL-Library.Sublist"
begin

text \<open>
  The bit-parallel distance of \<open>best_substring_distance\<close> against the edit distance it stands
  for. Edits turn one text into another; the table of distances ends a stretch at each
  letter; the masks hold the steps of one of its columns, and the carry of one addition
  carries a match down the column.
\<close>

section \<open>Edits\<close>

inductive edits :: "nat \<Rightarrow> 'a list \<Rightarrow> 'a list \<Rightarrow> bool" where
  edits_nil: "edits 0 [] []"
| edits_same: "edits n p q \<Longrightarrow> edits n (x # p) (x # q)"
| edits_substitute: "edits n p q \<Longrightarrow> edits (Suc n) (x # p) (y # q)"
| edits_delete: "edits n p q \<Longrightarrow> edits (Suc n) (x # p) q"
| edits_insert: "edits n p q \<Longrightarrow> edits (Suc n) p (y # q)"

lemma edits_append: "edits n p q \<Longrightarrow> edits m p' q' \<Longrightarrow> edits (n + m) (p @ p') (q @ q')"
  by (induction rule: edits.induct) (auto intro: edits.intros)

lemma edits_rev: "edits n p q \<Longrightarrow> edits n (rev p) (rev q)"
proof (induction rule: edits.induct)
  case (edits_same n p q x)
  have "edits 0 [x] [x]" by (auto intro: edits.intros)
  from edits_append [OF edits_same.IH this] show ?case by simp
next
  case (edits_substitute n p q x y)
  have "edits (Suc 0) [x] [y]" by (auto intro: edits.intros)
  from edits_append [OF edits_substitute.IH this] show ?case by simp
next
  case (edits_delete n p q x)
  have "edits (Suc 0) [x] []" by (auto intro: edits.intros)
  from edits_append [OF edits_delete.IH this] show ?case by simp
next
  case (edits_insert n p q y)
  have "edits (Suc 0) [] [y]" by (auto intro: edits.intros)
  from edits_append [OF edits_insert.IH this] show ?case by simp
qed (auto intro: edits.intros)

text \<open>
  The table, its texts reversed: the fewest edits from a pattern to a stretch that ends where
  the text does.
\<close>

fun tail_distance :: "'a list \<Rightarrow> 'a list \<Rightarrow> nat" where
  "tail_distance [] t = 0"
| "tail_distance (x # p) [] = Suc (length p)"
| "tail_distance (x # p) (y # t) =
     min (min (Suc (tail_distance p (y # t))) (Suc (tail_distance (x # p) t)))
       (tail_distance p t + (if x = y then 0 else 1))"

lemma tail_distance_delete: "tail_distance (x # p) t \<le> Suc (tail_distance p t)"
proof (cases t)
  case Nil
  then show ?thesis by (cases p) auto
qed simp

lemma tail_distance_insert: "tail_distance p (y # t) \<le> Suc (tail_distance p t)"
  by (cases p) auto

lemma tail_distance_least: "edits n p q \<Longrightarrow> tail_distance p (q @ t) \<le> n"
proof (induction arbitrary: t rule: edits.induct)
  case (edits_delete n p q x)
  then show ?case using tail_distance_delete [of x p "q @ t"] by (meson le_trans not_less_eq_eq Suc_le_mono)
next
  case (edits_insert n p q y)
  then show ?case using tail_distance_insert [of p y "q @ t"] by (metis Suc_le_mono append_Cons le_trans)
next
  case (edits_substitute n p q x y)
  then have "tail_distance p (q @ t) \<le> n" by blast
  then show ?case by (simp add: min_le_iff_disj)
next
  case (edits_same n p q x)
  then have "tail_distance p (q @ t) \<le> n" by blast
  then show ?case by (simp add: min_le_iff_disj)
qed simp

lemma edits_deletions: "edits (length p) p []"
  by (induction p) (auto intro: edits.intros)

lemma tail_distance_reached: "\<exists>q s. t = q @ s \<and> edits (tail_distance p t) p q"
proof (induction p t rule: tail_distance.induct)
  case (1 t)
  then show ?case using edits_nil by fastforce
next
  case (2 x p)
  then show ?case using edits_deletions [of "x # p"] by simp
next
  case (3 x p y t)
  from "3.IH" obtain q1 s1 q2 s2 q3 s3 where
    d: "y # t = q1 @ s1" "edits (tail_distance p (y # t)) p q1"
    and i: "t = q2 @ s2" "edits (tail_distance (x # p) t) (x # p) q2"
    and b: "t = q3 @ s3" "edits (tail_distance p t) p q3" by blast
  consider "tail_distance (x # p) (y # t) = Suc (tail_distance p (y # t))"
    | "tail_distance (x # p) (y # t) = Suc (tail_distance (x # p) t)"
    | "x = y" "tail_distance (x # p) (y # t) = tail_distance p t"
    | "tail_distance (x # p) (y # t) = Suc (tail_distance p t)"
    unfolding tail_distance.simps by (cases "x = y") (simp_all, linarith+)
  then show ?case
  proof cases
    case 1
    with d show ?thesis by (metis edits_delete)
  next
    case 2
    with i show ?thesis by (metis edits_insert append_Cons)
  next
    case 3
    with b show ?thesis by (metis edits_same append_Cons)
  next
    case 4
    with b show ?thesis by (metis edits_substitute append_Cons)
  qed
qed

text \<open>The steps of the table are at most one, down a column and along a row.\<close>

lemma edits_drop_left: "edits n (x # p) q \<Longrightarrow> \<exists>m \<le> Suc n. edits m p q"
proof (induction n "x # p" q rule: edits.induct)
  case (edits_insert n q y)
  then obtain m where "m \<le> Suc n" "edits m p q" by blast
  then show ?case by (meson Suc_le_mono edits.edits_insert)
qed (meson edits.edits_insert le_refl le_SucI)+

lemma edits_drop_right: "edits n p (y # q) \<Longrightarrow> \<exists>m \<le> Suc n. edits m p q"
proof (induction n p "y # q" rule: edits.induct)
  case (edits_delete n p x)
  then obtain m where "m \<le> Suc n" "edits m p q" by blast
  then show ?case by (meson Suc_le_mono edits.edits_delete)
qed (meson edits.edits_delete le_refl le_SucI)+

lemma tail_distance_down: "tail_distance p t \<le> Suc (tail_distance (x # p) t)"
proof -
  obtain q s where q: "t = q @ s" "edits (tail_distance (x # p) t) (x # p) q"
    using tail_distance_reached by blast
  from edits_drop_left [OF q(2)] obtain m where "m \<le> Suc (tail_distance (x # p) t)" "edits m p q" by blast
  with tail_distance_least [of m p q s] q(1) show ?thesis by simp
qed

lemma tail_distance_along: "tail_distance p t \<le> Suc (tail_distance p (y # t))"
proof -
  obtain q s where q: "y # t = q @ s" "edits (tail_distance p (y # t)) p q"
    using tail_distance_reached by blast
  show ?thesis
  proof (cases q)
    case Nil
    with q tail_distance_least [of _ p "[]" t] show ?thesis by fastforce
  next
    case (Cons z q')
    with q have t: "t = q' @ s" "edits (tail_distance p (y # t)) p (z # q')" by auto
    from edits_drop_right [OF t(2)] obtain m where "m \<le> Suc (tail_distance p (y # t))" "edits m p q'" by blast
    with tail_distance_least [of m p q' s] t(1) show ?thesis by simp
  qed
qed

text \<open>The best over every end.\<close>

fun best_distance :: "'a list \<Rightarrow> 'a list \<Rightarrow> nat" where
  "best_distance p [] = tail_distance p []"
| "best_distance p (y # t) = min (best_distance p t) (tail_distance p (y # t))"

lemma best_distance_least: "edits n p q \<Longrightarrow> best_distance p (l @ q @ r) \<le> n"
proof (induction l)
  case Nil
  then have "tail_distance p (q @ r) \<le> n" by (rule tail_distance_least)
  moreover have "best_distance p t \<le> tail_distance p t" for t by (cases t) auto
  ultimately show ?case by (metis append_Nil le_trans)
qed (simp add: min.coboundedI1)

lemma best_distance_reached: "\<exists>l q r. t = l @ q @ r \<and> edits (best_distance p t) p q"
proof (induction t)
  case Nil
  then show ?case using tail_distance_reached [of "[]" p] by fastforce
next
  case (Cons y t)
  show ?case
  proof (cases "best_distance p t \<le> tail_distance p (y # t)")
    case True
    with Cons show ?thesis by (metis append_Cons best_distance.simps(2) min.absorb1)
  next
    case False
    with tail_distance_reached [of "y # t" p] show ?thesis
      by (metis append_Nil best_distance.simps(2) min.absorb2 nat_le_linear)
  qed
qed

section \<open>The carry of an addition\<close>

definition majority :: "bool \<Rightarrow> bool \<Rightarrow> bool \<Rightarrow> bool" where
  "majority x y z \<longleftrightarrow> x \<and> y \<or> x \<and> z \<or> y \<and> z"

fun carry :: "int \<Rightarrow> int \<Rightarrow> bool \<Rightarrow> nat \<Rightarrow> bool" where
  "carry a b c 0 = c"
| "carry a b c (Suc i) = carry (a div 2) (b div 2) (majority (odd a) (odd b) c) i"

lemma carry_Suc: "carry a b c (Suc i) = majority (bit a i) (bit b i) (carry a b c i)"
  by (induction i arbitrary: a b c) (simp_all add: bit_0 bit_Suc)

lemma half_sum: "(a + b + of_bool c) div 2 = a div 2 + b div 2 + (of_bool (majority (odd a) (odd b) c) :: int)"
  by (cases "odd a"; cases "odd b"; cases c) (auto simp: majority_def elim!: oddE evenE)

lemma bit_sum: "bit (a + b + of_bool c :: int) i \<longleftrightarrow> ((bit a i \<noteq> bit b i) \<noteq> carry a b c i)"
proof (induction i arbitrary: a b c)
  case 0
  show ?case by (auto simp: bit_0)
next
  case (Suc i)
  show ?case by (simp add: bit_Suc half_sum Suc)
qed

text \<open>The addition of the step: a match is carried down while the steps rise.\<close>

fun matched :: "int \<Rightarrow> int \<Rightarrow> nat \<Rightarrow> bool" where
  "matched e p 0 = bit e 0"
| "matched e p (Suc i) = (bit e (Suc i) \<or> bit p i \<and> matched e p i)"

lemma matched_carry: "matched e p i \<longleftrightarrow> bit e i \<or> carry (e AND p) p False i"
  by (induction i) (auto simp: carry_Suc majority_def bit_and_iff simp del: carry.simps(2))

lemma bit_full: "bit (push_bit m 1 - 1 :: int) i \<longleftrightarrow> i < m"
  using bit_mask_iff [of m i, where 'a = int] by (simp add: mask_eq_exp_minus_1 push_bit_eq_mult)

lemma bit_full' [simp]: "bit (2 ^ m - 1 :: int) i \<longleftrightarrow> i < m"
  using bit_full [of m i] by (simp add: push_bit_eq_mult)

lemma adder_matched:
  assumes "i < m"
  shows "bit (((((e AND p) + p) AND (push_bit m 1 - 1)) XOR p) OR e) i \<longleftrightarrow> matched e p i"
proof -
  have "bit ((e AND p) + p) i \<longleftrightarrow> ((bit (e AND p) i \<noteq> bit p i) \<noteq> carry (e AND p) p False i)"
    using bit_sum [of "e AND p" p False i] by simp
  then show ?thesis using assms unfolding matched_carry
    by (auto simp: bit_or_iff bit_xor_iff bit_and_iff bit_full)
qed

section \<open>One column\<close>

text \<open>The table's column at the end of \<open>t\<close>: its entry for the first \<open>i\<close> letters.\<close>

definition column :: "ustr \<Rightarrow> ustr \<Rightarrow> nat \<Rightarrow> int" where
  "column pattern t i = int (tail_distance (rev (take i pattern)) (rev t))"

definition down :: "ustr \<Rightarrow> ustr \<Rightarrow> nat \<Rightarrow> int" where
  "down pattern t i = column pattern t (Suc i) - column pattern t i"

definition along :: "ustr \<Rightarrow> ustr \<Rightarrow> int \<Rightarrow> nat \<Rightarrow> int" where
  "along pattern t c i = column pattern (t @ [c]) i - column pattern t i"

lemma take_Suc_rev: "i < length pattern \<Longrightarrow> rev (take (Suc i) pattern) = pattern ! i # rev (take i pattern)"
  by (simp add: take_Suc_conv_app_nth)

lemma down_range:
  assumes "i < length pattern"
  shows "down pattern t i \<in> {-1, 0, 1}"
  using tail_distance_delete [of "pattern ! i" "rev (take i pattern)" "rev t"]
    tail_distance_down [of "rev (take i pattern)" "rev t" "pattern ! i"] assms
  by (auto simp: down_def column_def take_Suc_rev)

lemma along_range: "along pattern t c i \<in> {-1, 0, 1}"
  using tail_distance_insert [of "rev (take i pattern)" c "rev t"]
    tail_distance_along [of "rev (take i pattern)" "rev t" c]
  by (auto simp: along_def column_def)

lemma cell:
  assumes "i < length pattern"
  shows "column pattern (t @ [c]) (Suc i) - column pattern t i =
    min (min (along pattern t c i + 1) (down pattern t i + 1)) (if pattern ! i = c then 0 else 1)"
proof -
  have "column pattern (t @ [c]) (Suc i) =
    min (min (column pattern (t @ [c]) i + 1) (column pattern t (Suc i) + 1))
      (column pattern t i + (if pattern ! i = c then 0 else 1))"
    unfolding column_def take_Suc_rev [OF assms] rev_append rev.simps append_Nil append_Cons tail_distance.simps
    by (cases "pattern ! i = c") (simp_all add: of_nat_min)
  then show ?thesis by (simp add: along_def down_def)
qed

text \<open>The step of a cell, as the masks compute it.\<close>

lemma cell_along:
  assumes "i < length pattern"
  shows "along pattern t c (Suc i) = 1 \<longleftrightarrow> down pattern t i = -1 \<or>
      \<not> ((pattern ! i = c \<or> along pattern t c i = -1) \<or> down pattern t i = 1)"
    "along pattern t c (Suc i) = -1 \<longleftrightarrow> down pattern t i = 1 \<and> (pattern ! i = c \<or> along pattern t c i = -1)"
  using cell [OF assms, of t c] down_range [OF assms, of t] along_range [of pattern t c i]
  by (auto simp: along_def [of _ _ _ "Suc i"] down_def split: if_splits)

lemma cell_down:
  assumes "i < length pattern"
  shows "down pattern (t @ [c]) i = 1 \<longleftrightarrow> along pattern t c i = -1 \<or>
      \<not> ((pattern ! i = c \<or> down pattern t i = -1) \<or> along pattern t c i = 1)"
    "down pattern (t @ [c]) i = -1 \<longleftrightarrow> along pattern t c i = 1 \<and> (pattern ! i = c \<or> down pattern t i = -1)"
  using cell [OF assms, of t c] down_range [OF assms, of t] along_range [of pattern t c i]
  by (auto simp: along_def down_def [of _ "t @ [c]"] split: if_splits)

lemma along_top [simp]: "along pattern t c 0 = 0"
  by (simp add: along_def column_def)

section \<open>The masks\<close>

abbreviation mask_of :: "(int \<times> int) list \<Rightarrow> int \<Rightarrow> int" where
  "mask_of d c \<equiv> (case map_of d c of None \<Rightarrow> 0 | Some m \<Rightarrow> m)"

lemma equal_masks_bits:
  "bit (mask_of (fold (\<lambda>(index, c) d. AList.update c (mask_of d c OR push_bit index 1) d) xs d) c) i \<longleftrightarrow>
     bit (mask_of d c) i \<or> (i, c) \<in> set xs"
proof (induction xs arbitrary: d)
  case (Cons x xs)
  obtain k e where x: "x = (k, e)" by force
  have "bit (mask_of (AList.update e (mask_of d e OR push_bit k 1) d) c) i \<longleftrightarrow>
      bit (mask_of d c) i \<or> (i, c) = (k, e)"
    by (auto simp: update_conv bit_or_iff bit_exp_iff)
  with Cons.IH [of "AList.update e (mask_of d e OR push_bit k 1) d"] show ?case by (auto simp: x)
qed simp

lemma equal_masks_spec:
  "bit (mask_of (equal_masks pattern) c) i \<longleftrightarrow> i < length pattern \<and> pattern ! i = c"
proof -
  have "bit (mask_of (equal_masks pattern) c) i \<longleftrightarrow> (i, c) \<in> set (zip [0..<length pattern] pattern)"
    unfolding equal_masks_def equal_masks_bits by simp
  also have "\<dots> \<longleftrightarrow> i < length pattern \<and> pattern ! i = c"
    by (auto simp: set_zip intro: exI [of _ i])
  finally show ?thesis .
qed

lemma bit_shift: "bit (push_bit 1 x :: int) i \<longleftrightarrow> i \<noteq> 0 \<and> bit x (i - 1)"
  unfolding bit_push_bit_iff by (cases i) simp_all

lemma and_high: "x AND push_bit k 1 \<noteq> (0 :: int) \<longleftrightarrow> bit x k"
  by (simp add: and_exp_eq_0_iff_not_bit push_bit_eq_mult)

text \<open>The state stands for the column at the end of the letters read.\<close>

definition stands_for :: "ustr \<Rightarrow> ustr \<Rightarrow> myers \<Rightarrow> bool" where
  "stands_for pattern t st \<longleftrightarrow>
     (\<forall>i < length pattern. bit (my_plus st) i \<longleftrightarrow> down pattern t i = 1) \<and>
     (\<forall>i < length pattern. bit (my_minus st) i \<longleftrightarrow> down pattern t i = -1) \<and>
     my_score st = column pattern t (length pattern) \<and>
     my_best st = int (best_distance (rev pattern) (rev t))"

lemma matched_along:
  assumes "stands_for pattern t st" "i < length pattern"
  shows "matched (mask_of (equal_masks pattern) c) (my_plus st) i \<longleftrightarrow> pattern ! i = c \<or> along pattern t c i = -1"
  using assms(2)
proof (induction i)
  case 0
  then show ?case by (simp add: equal_masks_spec)
next
  case (Suc i)
  then have "bit (my_plus st) i \<longleftrightarrow> down pattern t i = 1" using assms(1) by (simp add: stands_for_def)
  with Suc cell_along(2) [of i pattern t c] show ?case by (simp add: equal_masks_spec)
qed

lemma myers_step_stands:
  assumes st: "stands_for pattern t st" and m: "length pattern = Suc k"
  shows "stands_for pattern (t @ [c])
    (myers_step (push_bit (Suc k) 1 - 1) (push_bit k 1) (equal_masks pattern) c st)"
proof -
  define full :: int where "full = push_bit (Suc k) 1 - 1"
  define e where "e = mask_of (equal_masks pattern) c"
  define xv where "xv = e OR my_minus st"
  define xh where "xh = ((((e AND my_plus st) + my_plus st) AND full) XOR my_plus st) OR e"
  define hp where "hp = my_minus st OR (NOT (xh OR my_plus st) AND full)"
  define hm where "hm = my_plus st AND xh"
  define hp' where "hp' = push_bit 1 hp AND full"
  define hm' where "hm' = push_bit 1 hm AND full"
  define score where "score = (if hp AND push_bit k 1 \<noteq> 0 then my_score st + 1
    else if hm AND push_bit k 1 \<noteq> 0 then my_score st - 1 else my_score st)"
  have step: "myers_step (push_bit (Suc k) 1 - 1) (push_bit k 1) (equal_masks pattern) c st =
    \<lparr>my_plus = hm' OR (NOT (xv OR hp') AND full), my_minus = hp' AND xv, my_score = score,
     my_best = min (my_best st) score\<rparr>"
    unfolding myers_step_def Let_def full_def e_def xv_def xh_def hp_def hm_def hp'_def hm'_def score_def ..
  have full: "bit full i \<longleftrightarrow> i < Suc k" for i unfolding full_def by (rule bit_full)
  have eq: "bit e i \<longleftrightarrow> i < Suc k \<and> pattern ! i = c" for i unfolding e_def equal_masks_spec m ..
  have pm: "bit (my_plus st) i \<longleftrightarrow> down pattern t i = 1" "bit (my_minus st) i \<longleftrightarrow> down pattern t i = -1"
    if "i < Suc k" for i
    using st that by (simp_all add: stands_for_def m)
  have xh: "bit xh i \<longleftrightarrow> pattern ! i = c \<or> along pattern t c i = -1" if "i < Suc k" for i
    unfolding xh_def full_def adder_matched [OF that] e_def using matched_along [OF st] that m by simp
  have hp: "bit hp i \<longleftrightarrow> along pattern t c (Suc i) = 1" if "i < Suc k" for i
    unfolding hp_def using that cell_along(1) [of i pattern t c] pm [OF that] xh [OF that] full m
    by (simp add: bit_or_iff bit_and_iff bit_not_iff)
  have hm: "bit hm i \<longleftrightarrow> along pattern t c (Suc i) = -1" if "i < Suc k" for i
    unfolding hm_def using that cell_along(2) [of i pattern t c] pm [OF that] xh [OF that] m
    by (simp add: bit_and_iff)
  have hp': "bit hp' i \<longleftrightarrow> along pattern t c i = 1" if "i < Suc k" for i
    unfolding hp'_def bit_and_iff bit_shift using that hp [of "i - 1"] full by (cases i) simp_all
  have hm': "bit hm' i \<longleftrightarrow> along pattern t c i = -1" if "i < Suc k" for i
    unfolding hm'_def bit_and_iff bit_shift using that hm [of "i - 1"] full by (cases i) simp_all
  have score: "score = column pattern (t @ [c]) (Suc k)"
    unfolding score_def and_high
    using st hp [of k] hm [of k] along_range [of pattern t c "Suc k"] by (auto simp: stands_for_def along_def m)
  have best: "min (my_best st) score = int (best_distance (rev pattern) (rev (t @ [c])))"
    using st unfolding score by (simp add: stands_for_def column_def m)
  have "bit (hm' OR (NOT (xv OR hp') AND full)) i \<longleftrightarrow> down pattern (t @ [c]) i = 1" if "i < Suc k" for i
    unfolding xv_def using that cell_down(1) [of i pattern t c] hm' [OF that] hp' [OF that] pm [OF that] eq full m
    by (simp add: bit_or_iff bit_and_iff bit_not_iff)
  moreover have "bit (hp' AND xv) i \<longleftrightarrow> down pattern (t @ [c]) i = -1" if "i < Suc k" for i
    unfolding xv_def using that cell_down(2) [of i pattern t c] hp' [OF that] pm [OF that] eq m
    by (simp add: bit_or_iff bit_and_iff)
  ultimately show ?thesis unfolding step stands_for_def using score best by (simp add: m)
qed

lemma myers_start:
  assumes "length pattern = Suc k"
  shows "stands_for pattern []
    \<lparr>my_plus = push_bit (Suc k) 1 - 1, my_minus = 0, my_score = int (Suc k), my_best = int (Suc k)\<rparr>"
proof -
  have empty: "tail_distance p [] = length p" for p :: ustr by (cases p) auto
  then have "column pattern [] i = int (min (length pattern) i)" for i by (simp add: column_def)
  moreover have "best_distance (rev pattern) [] = Suc k" using assms by (simp add: empty)
  ultimately show ?thesis using assms
    by (simp add: stands_for_def down_def bit_full del: push_bit_Suc push_bit_of_1)
qed

lemma myers_fold:
  assumes "length pattern = Suc k"
  shows "stands_for pattern t (fold (myers_step (push_bit (Suc k) 1 - 1) (push_bit k 1) (equal_masks pattern)) t
    \<lparr>my_plus = push_bit (Suc k) 1 - 1, my_minus = 0, my_score = int (Suc k), my_best = int (Suc k)\<rparr>)"
proof (induction t rule: rev_induct)
  case Nil
  show ?case using myers_start [OF assms] by simp
next
  case (snoc c t)
  from myers_step_stands [OF this assms] show ?case by simp
qed

lemma best_substring_distance_table:
  "best_substring_distance pattern t = int (best_distance (rev pattern) (rev t))"
proof (cases "length pattern")
  case 0
  have "best_distance [] s = 0" for s :: ustr by (induction s) auto
  with 0 show ?thesis by (simp add: best_substring_distance_def)
next
  case (Suc k)
  with myers_fold [OF Suc, of t] show ?thesis
    by (simp add: best_substring_distance_def Let_def stands_for_def)
qed

text \<open>
  C17. The bit-parallel distance is the edit distance to a stretch of the text: some stretch
  takes that many edits, and no stretch takes fewer.
\<close>

theorem best_substring_distance_exact:
  "(\<exists>stretch. sublist stretch txt \<and> edits (nat (best_substring_distance pattern txt)) pattern stretch) \<and>
   0 \<le> best_substring_distance pattern txt \<and>
   (\<nexists>n stretch. sublist stretch txt \<and> edits n pattern stretch \<and> int n < best_substring_distance pattern txt)"
proof -
  have table: "nat (best_substring_distance pattern txt) = best_distance (rev pattern) (rev txt)"
    by (simp add: best_substring_distance_table)
  obtain l q r where q: "rev txt = l @ q @ r" "edits (best_distance (rev pattern) (rev txt)) (rev pattern) q"
    using best_distance_reached by blast
  have "txt = rev r @ rev q @ rev l" using arg_cong [OF q(1), of rev] by simp
  moreover have "edits (best_distance (rev pattern) (rev txt)) pattern (rev q)" using edits_rev [OF q(2)] by simp
  ultimately have reached: "\<exists>stretch. sublist stretch txt \<and>
      edits (nat (best_substring_distance pattern txt)) pattern stretch"
    unfolding table sublist_def by blast
  have "best_substring_distance pattern txt \<le> int n" if "sublist stretch txt" "edits n pattern stretch" for n stretch
  proof -
    from that(1) obtain l r where "txt = l @ stretch @ r" by (auto simp: sublist_def)
    then have "rev txt = rev r @ rev stretch @ rev l" by simp
    with best_distance_least [OF edits_rev [OF that(2)], of "rev r" "rev l"] show ?thesis
      by (simp add: best_substring_distance_table)
  qed
  moreover have "0 \<le> best_substring_distance pattern txt" by (simp add: best_substring_distance_table)
  ultimately show ?thesis using reached by (meson linorder_not_less)
qed

end
