(* ===== verification/Ink.thy ===== *)
theory Ink
  imports Regions
begin

text \<open>
  The ink outside every reading region, \<open>common/residual_ink.py\<close>: the sealed gates and their
  resolution for a page, the measure over the retained ink runs, the measure over the page's
  own pixels, and the perimeter measure. A scanline is the list of its samples, a mask the
  list of its flags; the code packs both into one integer per row and counts its bits. The
  ratio the code reports beside the flag is a float and is not kept: no gate reads it.
\<close>

section \<open>The sealed gates\<close>

text \<open>\<open>validate_provenance_block\<close> of \<open>common/calibration.py\<close>.\<close>

definition STRING_PROVENANCE_FIELDS :: "string list" where
  "STRING_PROVENANCE_FIELDS = [''caveat'', ''corpus'', ''sample_unit'', ''source'', ''statistic'']"

definition PROVENANCE_FIELDS :: "string list" where
  "PROVENANCE_FIELDS = STRING_PROVENANCE_FIELDS @ [''sample_count'', ''calibrated_for_this_corpus'']"

definition calibrated_claim_has_sample_evidence :: "bool \<Rightarrow> int option \<Rightarrow> bool" where
  "calibrated_claim_has_sample_evidence calibrated n \<longleftrightarrow>
     \<not> calibrated \<or> (case n of None \<Rightarrow> True | Some k \<Rightarrow> k > 0)"

definition stated_text :: "(ustr \<times> json) list \<Rightarrow> string \<Rightarrow> bool" where
  "stated_text kvs f \<longleftrightarrow> (case field kvs f of Some (JStr s) \<Rightarrow> \<not> blank s | _ \<Rightarrow> False)"

definition validate_provenance_block :: "json option \<Rightarrow> unit result" where
  "validate_provenance_block v =
     (case v of
        Some (JObj kvs) \<Rightarrow>
          if \<not> keys_are kvs PROVENANCE_FIELDS then Inl (ContractError ''provenance is a closed schema'')
          else if \<not> list_all (stated_text kvs) STRING_PROVENANCE_FIELDS
          then Inl (ContractError ''is not a non-empty string'')
          else (case (field kvs ''sample_count'', field kvs ''calibrated_for_this_corpus'') of
            (Some (JInt n), Some (JBool c)) \<Rightarrow>
              if n < 0 then Inl (ContractError ''sample_count is not a non-negative integer'')
              else ensure (calibrated_claim_has_sample_evidence c (Some n))
                     (ContractError ''says calibrated_for_this_corpus but sample_count is zero'')
          | _ \<Rightarrow> Inl (ContractError ''sample_count or calibrated_for_this_corpus''))
      | _ \<Rightarrow> Inl (ContractError ''has no provenance table''))"

record audit_gates =
  ag_substantial_bp :: int
  ag_edge_band_bp :: int
  ag_minimum_pixels :: int
  ag_minimum_fraction_bp :: int

definition bounded_int :: "(ustr \<times> json) list \<Rightarrow> string \<Rightarrow> (int \<Rightarrow> bool) \<Rightarrow> int result" where
  "bounded_int kvs f ok =
     (case field kvs f of
        Some (JInt n) \<Rightarrow> if ok n then Inr n else Inl (ContractError f)
      | _ \<Rightarrow> Inl (ContractError f))"

text \<open>A table of two values beside an optional provenance and, for the gates, the noise floor.\<close>

definition fields_within :: "(ustr \<times> json) list \<Rightarrow> string list \<Rightarrow> string list \<Rightarrow> bool" where
  "fields_within kvs required allowed \<longleftrightarrow>
     set (map fst kvs) \<subseteq> set (map u (required @ allowed)) \<and> set (map u required) \<subseteq> set (map fst kvs)"

definition validate_coverage_noise_floor_table :: "json \<Rightarrow> (int \<times> int) result" where
  "validate_coverage_noise_floor_table v =
     (case v of
        JObj kvs \<Rightarrow>
          if \<not> fields_within kvs [''minimum_ink_pixels'', ''minimum_fraction_outside_bp''] [''provenance'']
          then Inl (ContractError ''unknown or missing field'')
          else rbind (bounded_int kvs ''minimum_ink_pixels'' (\<lambda>n. n > 0)) (\<lambda>pixels.
               rbind (bounded_int kvs ''minimum_fraction_outside_bp'' (\<lambda>n. 0 < n \<and> n \<le> BASIS_POINTS)) (\<lambda>bp.
                 Inr (pixels, bp)))
      | _ \<Rightarrow> Inl (ContractError ''has no table''))"

definition validate_coverage_audit_table :: "json \<Rightarrow> audit_gates result" where
  "validate_coverage_audit_table v =
     (case v of
        JObj kvs \<Rightarrow>
          if \<not> fields_within kvs [''substantial_ink_area_bp'', ''edge_band_bp'', ''noise_floor''] [''provenance'']
          then Inl (ContractError ''unknown or missing field'')
          else
            rbind (rget (KeyError ''noise_floor'') (field kvs ''noise_floor'')) (\<lambda>nf.
            rbind (validate_coverage_noise_floor_table nf) (\<lambda>(pixels, bp).
            rbind (bounded_int kvs ''substantial_ink_area_bp'' (\<lambda>n. 0 < n \<and> n \<le> BASIS_POINTS)) (\<lambda>area.
            rbind (bounded_int kvs ''edge_band_bp'' (\<lambda>n. 0 < n \<and> n < BASIS_POINTS div 2)) (\<lambda>band.
              Inr \<lparr>ag_substantial_bp = area, ag_edge_band_bp = band, ag_minimum_pixels = pixels,
                   ag_minimum_fraction_bp = bp\<rparr>))))
      | _ \<Rightarrow> Inl (ContractError ''has no table''))"

text \<open>A table of exactly one value and its provenance, and its fields.\<close>

definition single_value_table :: "(ustr \<times> json) list \<Rightarrow> string \<Rightarrow> unit result" where
  "single_value_table kvs name =
     (if \<not> keys_are kvs [name, ''provenance''] then Inl (ContractError ''not exactly the value and its provenance'')
      else validate_provenance_block (field kvs ''provenance''))"

definition page_spanning_policy :: "(ustr \<times> json) list \<Rightarrow> (int \<times> int) result" where
  "page_spanning_policy config =
     (case (field config ''page_spanning'', field config ''connectivity'') of
        (Some (JObj spanning_kvs), Some (JObj connectivity_kvs)) \<Rightarrow>
          rbind (single_value_table spanning_kvs ''page_spanning_area_bp'') (\<lambda>_.
          rbind (single_value_table connectivity_kvs ''gap_tolerance_px'') (\<lambda>_.
          rbind (bounded_int spanning_kvs ''page_spanning_area_bp'' (\<lambda>n. 0 < n \<and> n \<le> BASIS_POINTS)) (\<lambda>spanning.
          rbind (bounded_int connectivity_kvs ''gap_tolerance_px'' (\<lambda>n. n \<ge> 0)) (\<lambda>gap.
            Inr (spanning, gap)))))
      | _ \<Rightarrow> Inl (ContractError ''missing page_spanning or connectivity''))"

section \<open>The gates of a page\<close>

record coverage_policy =
  cp_substantial :: int
  cp_edge_band :: int
  cp_spanning_bp :: int
  cp_gap :: int
  cp_minimum_pixels :: int
  cp_minimum_fraction_bp :: int

definition round_half_up_bp :: "int \<Rightarrow> int \<Rightarrow> int" where
  "round_half_up_bp dimension bp = (dimension * bp + BASIS_POINTS div 2) div BASIS_POINTS"

definition resolve_coverage_audit_policy ::
  "audit_gates \<Rightarrow> int \<Rightarrow> int \<Rightarrow> int \<Rightarrow> int \<Rightarrow> coverage_policy result" where
  "resolve_coverage_audit_policy gates spanning gap width height =
     (if width \<le> 0 \<or> height \<le> 0 then Inl (ContractError ''does not have positive integer dimensions'')
      else Inr
        \<lparr>cp_substantial = max (ag_minimum_pixels gates)
           (round_half_up_bp (width * height) (ag_substantial_bp gates)),
         cp_edge_band = max 1 (round_half_up_bp (min width height) (ag_edge_band_bp gates)),
         cp_spanning_bp = spanning, cp_gap = gap,
         cp_minimum_pixels = ag_minimum_pixels gates,
         cp_minimum_fraction_bp = ag_minimum_fraction_bp gates\<rparr>)"

definition coverage_flag :: "int \<Rightarrow> int \<Rightarrow> coverage_policy \<Rightarrow> bool" where
  "coverage_flag total_ink outside_ink cp \<longleftrightarrow>
     outside_ink \<ge> cp_substantial cp \<or>
     outside_ink \<ge> cp_minimum_pixels cp \<and>
       total_ink > 0 \<and> outside_ink * BASIS_POINTS \<ge> cp_minimum_fraction_bp cp * total_ink"

definition edge_band :: "int \<Rightarrow> int \<Rightarrow> coverage_policy \<Rightarrow> int" where
  "edge_band width height cp =
     min (cp_edge_band cp) (min (max 1 (width div 2)) (max 1 (height div 2)))"

section \<open>The measure over retained runs\<close>

definition INK_RUNS_SCHEMA :: ustr where
  "INK_RUNS_SCHEMA = u ''ink-runs.v2''"

definition validated_ink_run_evidence :: "json \<Rightarrow> (int \<times> int \<times> json list) result" where
  "validated_ink_run_evidence v =
     (case v of
        JObj kvs \<Rightarrow>
          if field kvs ''schema'' \<noteq> Some (JStr INK_RUNS_SCHEMA)
          then Inl (ValueError ''wrong schema'')
          else if \<not> keys_are kvs [''schema'', ''width'', ''height'', ''rows'']
          then Inl (ValueError ''not a closed record'')
          else (case (field kvs ''width'', field kvs ''height'', field kvs ''rows'') of
            (Some (JInt w), Some (JInt h), Some (JList rows)) \<Rightarrow>
              if w \<le> 0 \<or> h \<le> 0 \<or> int (length rows) \<noteq> h then Inl (ValueError ''invalid dimensions'')
              else Inr (w, h, rows)
          | _ \<Rightarrow> Inl (ValueError ''invalid dimensions''))
      | _ \<Rightarrow> Inl (ValueError ''wrong schema''))"

type_synonym span = "int \<times> int"

definition read_run :: "json \<Rightarrow> span result" where
  "read_run v =
     (case v of
        JList [JInt start, JInt len] \<Rightarrow> Inr (start, len)
      | _ \<Rightarrow> Inl (ValueError ''malformed run''))"

fun read_runs :: "int \<Rightarrow> int \<Rightarrow> json list \<Rightarrow> span list result" where
  "read_runs width previous_end [] = Inr []"
| "read_runs width previous_end (v # vs) =
     rbind (read_run v) (\<lambda>(start, len).
       if start < previous_end \<or> len \<le> 0 \<or> start + len > width
       then Inl (ValueError ''unordered or out-of-bounds runs'')
       else rbind (read_runs width (start + len) vs) (\<lambda>runs. Inr ((start, start + len) # runs)))"

definition validated_ink_runs :: "int \<Rightarrow> json \<Rightarrow> span list result" where
  "validated_ink_runs width v =
     (case v of JList vs \<Rightarrow> read_runs width 0 vs | _ \<Rightarrow> Inl (ValueError ''malformed row''))"

text \<open>The covered intervals of a row, sorted and merged.\<close>

definition add_interval :: "span \<Rightarrow> span list \<Rightarrow> span list" where
  "add_interval iv merged =
     (case iv of (start, stop) \<Rightarrow>
        if start \<ge> stop then merged
        else if merged \<noteq> [] \<and> start \<le> snd (last merged)
        then butlast merged @ [(fst (last merged), max stop (snd (last merged)))]
        else merged @ [(start, stop)])"

definition clamp :: "int \<Rightarrow> int \<Rightarrow> int" where
  "clamp width x = max 0 (min x width)"

definition row_coverage :: "box list \<Rightarrow> int \<Rightarrow> int \<Rightarrow> span list" where
  "row_coverage covered_boxes y width =
     fold add_interval
       (sort (map (\<lambda>b. (clamp width (box_x b), clamp width (box_x b + box_w b)))
         (filter (\<lambda>b. box_y b \<le> y \<and> y < box_y b + box_h b) covered_boxes))) []"

text \<open>The loop of \<open>_uncovered_length\<close>: what is uncovered so far, and where it stands.\<close>

fun uncovered_loop :: "int \<Rightarrow> span list \<Rightarrow> int \<Rightarrow> int \<Rightarrow> int \<times> int" where
  "uncovered_loop stop [] cursor acc = (acc, cursor)"
| "uncovered_loop stop ((c0, c1) # ivs) cursor acc =
     (if c1 \<le> cursor then uncovered_loop stop ivs cursor acc
      else if c0 \<ge> stop then (acc, cursor)
      else
        let acc' = acc + max 0 (min c0 stop - cursor); cursor' = max cursor c1 in
        if cursor' \<ge> stop then (acc', cursor') else uncovered_loop stop ivs cursor' acc')"

definition uncovered_length :: "int \<Rightarrow> int \<Rightarrow> span list \<Rightarrow> int" where
  "uncovered_length start stop merged =
     (let (acc, cursor) = uncovered_loop stop merged start 0 in acc + max 0 (stop - cursor))"

definition run_outside :: "span list \<Rightarrow> span list \<Rightarrow> span \<Rightarrow> int" where
  "run_outside merged intervals run =
     sum_list (map (\<lambda>(i0, i1).
         let lo = max (fst run) i0; hi = min (snd run) i1
         in if lo < hi then uncovered_length lo hi merged else 0) intervals)"

definition row_ink_outside ::
  "int \<Rightarrow> box list \<Rightarrow> (int \<Rightarrow> span list) \<Rightarrow> int \<times> json \<Rightarrow> (int \<times> int) result" where
  "row_ink_outside width covered_boxes counted yrow =
     (case yrow of (y, row) \<Rightarrow>
        rbind (validated_ink_runs width row) (\<lambda>runs.
          Inr (sum_list (map (\<lambda>(s, e). e - s) runs),
               sum_list (map (run_outside (row_coverage covered_boxes y width) (counted y)) runs))))"

definition ink_outside ::
  "int \<Rightarrow> json list \<Rightarrow> box list \<Rightarrow> (int \<Rightarrow> span list) \<Rightarrow> (int \<times> int) result" where
  "ink_outside width rows covered_boxes counted =
     rbind (rmap (row_ink_outside width covered_boxes counted) (zip [0..int (length rows) - 1] rows)) (\<lambda>rs.
       Inr (sum_list (map fst rs), sum_list (map snd rs)))"

record ink_measure =
  ik_total :: int
  ik_outside :: int
  ik_flagged :: bool
  ik_substantial :: int

definition mk_measure :: "int \<Rightarrow> int \<Rightarrow> coverage_policy \<Rightarrow> ink_measure" where
  "mk_measure all_ink outside cp =
     \<lparr>ik_total = all_ink, ik_outside = outside, ik_flagged = coverage_flag all_ink outside cp,
      ik_substantial = cp_substantial cp\<rparr>"

definition residual_ink_from_runs :: "json \<Rightarrow> box list \<Rightarrow> coverage_policy \<Rightarrow> ink_measure result" where
  "residual_ink_from_runs evidence covered_boxes cp =
     rbind (validated_ink_run_evidence evidence) (\<lambda>(width, height, rows).
     rbind (ink_outside width rows covered_boxes (\<lambda>y. [(0, width)])) (\<lambda>(all_ink, outside).
       Inr (mk_measure all_ink outside cp)))"

definition edge_intervals :: "int \<Rightarrow> int \<Rightarrow> int \<Rightarrow> int \<Rightarrow> span list" where
  "edge_intervals width height band y =
     (if y < band \<or> y \<ge> height - band \<or> width \<le> 2 * band then [(0, width)]
      else [(0, band), (width - band, width)])"

definition edge_ink_from_runs :: "json \<Rightarrow> box list \<Rightarrow> coverage_policy \<Rightarrow> (ink_measure \<times> int) result" where
  "edge_ink_from_runs evidence covered_boxes cp =
     rbind (validated_ink_run_evidence evidence) (\<lambda>(width, height, rows).
     let band = edge_band width height cp in
     rbind (ink_outside width rows covered_boxes (edge_intervals width height band)) (\<lambda>(all_ink, outside).
       Inr (mk_measure all_ink outside cp, band)))"

section \<open>The measure over pixels\<close>

definition MINIMUM_CONTRAST_BELOW_BACKGROUND :: int where
  "MINIMUM_CONTRAST_BELOW_BACKGROUND = 40"

definition ink_sample :: "int \<Rightarrow> int \<Rightarrow> bool" where
  "ink_sample background v \<longleftrightarrow> background - v \<ge> MINIMUM_CONTRAST_BELOW_BACKGROUND"

text \<open>\<open>runs_in_row\<close>: the maximal runs of a row of flags, from where it stands.\<close>

fun runs_from :: "int \<Rightarrow> bool list \<Rightarrow> span list" where
  "runs_from x [] = []"
| "runs_from x (False # bs) = runs_from (x + 1) bs"
| "runs_from x (True # bs) =
     (let n = length (takeWhile id bs)
      in (x, x + 1 + int n) # runs_from (x + 1 + int n) (drop n bs))"

definition runs_in_row :: "bool list \<Rightarrow> span list" where
  "runs_in_row bits = runs_from 0 bits"

text \<open>The mask of the covered boxes, clipped to the page.\<close>

definition covered_at :: "int \<Rightarrow> int \<Rightarrow> box list \<Rightarrow> int \<Rightarrow> int \<Rightarrow> bool" where
  "covered_at width height covered_boxes y x \<longleftrightarrow>
     list_ex (\<lambda>b.
       let x0 = max 0 (min (box_x b) width); y0 = max 0 (min (box_y b) height);
           x1 = max x0 (min (box_x b + box_w b) width); y1 = max y0 (min (box_y b + box_h b) height)
       in y0 \<le> y \<and> y < y1 \<and> x0 \<le> x \<and> x < x1) covered_boxes"

definition audited_row :: "int \<Rightarrow> int list \<Rightarrow> bool list \<Rightarrow> bool list" where
  "audited_row background row spanning = map2 (\<lambda>v s. ink_sample background v \<and> \<not> s) row spanning"

record residual_counts =
  rc_page_ink :: int
  rc_spanning_ink :: int
  rc_measure :: ink_measure

definition count_true :: "bool list \<Rightarrow> int" where
  "count_true bs = int (length (filter id bs))"

definition residual_counts_of ::
  "int \<Rightarrow> int \<Rightarrow> int list list \<Rightarrow> box list \<Rightarrow> int \<Rightarrow> bool list list \<Rightarrow> coverage_policy \<Rightarrow> residual_counts" where
  "residual_counts_of width height rows covered_boxes background spanning cp =
     (let audited = map2 (audited_row background) rows spanning;
          outside = map (\<lambda>(y, row). map2 (\<lambda>x b. b \<and> \<not> covered_at width height covered_boxes y x)
              [0..int (length row) - 1] row) (zip [0..int (length audited) - 1] audited)
      in \<lparr>rc_page_ink = sum_list (map (\<lambda>row. count_true (map (ink_sample background) row)) rows),
          rc_spanning_ink = sum_list (map2 (\<lambda>row s. count_true (map2 (\<lambda>v b. ink_sample background v \<and> b) row s))
            rows spanning),
          rc_measure = mk_measure (sum_list (map count_true audited)) (sum_list (map count_true outside)) cp\<rparr>)"

definition audited_runs :: "int \<Rightarrow> int \<Rightarrow> int list list \<Rightarrow> int \<Rightarrow> bool list list \<Rightarrow> json" where
  "audited_runs width height rows background spanning =
     JObj [(u ''schema'', JStr INK_RUNS_SCHEMA), (u ''width'', JInt width), (u ''height'', JInt height),
       (u ''rows'', JList (map2 (\<lambda>row s. JList (map (\<lambda>(start, stop). JList [JInt start, JInt (stop - start)])
          (runs_in_row (audited_row background row s)))) rows spanning))]"

definition edge_counts ::
  "int \<Rightarrow> int \<Rightarrow> int list list \<Rightarrow> int \<Rightarrow> bool list list \<Rightarrow> coverage_policy \<Rightarrow> residual_counts \<times> int" where
  "edge_counts width height rows background spanning cp =
     (let band = edge_band width height cp;
          covered_boxes = (if 2 * band \<ge> width \<or> 2 * band \<ge> height then []
            else [mk_box band band (width - 2 * band) (height - 2 * band)])
      in (residual_counts_of width height rows covered_boxes background spanning cp, band))"

end
