(* ===== verification/Findings.thy ===== *)
theory Findings
  imports Answer Coverage Ink Policy Json
begin

text \<open>
  The findings of a page accounting, \<open>common/page_accounting.py\<close>: one constructor for each
  kind of finding with the fields of its record, its code, and the status a rule takes from
  its findings. A detector's record or line is named by its id, when the feed showed it, and
  by its reference.
\<close>

section \<open>Findings\<close>

text \<open>Why an answer is not complete.\<close>

datatype incomplete =
    FinishReason "ustr option" | ParseState ustr | NoAnswer | AnswerProblem answer_problem

record located_ref =
  lr_id :: "ustr option"
  lr_ref :: json
  lr_box :: box

record text_finding =
  tf_id :: ustr
  tf_reasons :: "string list"
  tf_unread_run :: int
  tf_unread_share :: int
  tf_distinctive_share :: "int option"
  tf_pieces :: int
  tf_distance :: "int option"
  tf_characters :: int
  tf_compared_with :: "int list"
  tf_box :: "box option"

datatype finding =
    PageAnswerIncomplete incomplete
  | UnknownIdCited answer_problem
  | ReadingUnplaced int
  | UnaccountedWitnessUnit ustr "box option"
  | SetAsideSubstantial ustr ustr int "box option"
  | WitnessNotRead ustr json
  | WitnessReadBlank ustr json
  | WitnessReadNoUnits ustr json
  | UnreadLine located_ref
  | UnreadLineNotMeasured
  | WitnessTextNotMeasured ustr string
  | TooFewDistinctivePieces ustr int int
  | WitnessTextNotRead text_finding
  | WitnessShortUnitNotRead text_finding
  | UnreadInk int int int
  | UnreadInkNotMeasured
  | ReadingIncomplete ustr "ustr option"
  | EntryTruncated int ustr
  | TruncationNotClassified int
  | DuplicateRegion duplicate
  | SharedLine "ustr option" json "int list"
  | RowsShareUnit rows_shared
  | SetAsideRecord located_ref
  | SplitDetection located_ref "int list"
  | RecordReadAsOther located_ref "int list"
  | RecordNotRead located_ref
  | NoRecordOnActPage "int list"
  | MergedDetection int ustr "(ustr option \<times> json) list"
  | RecordsNotMeasured
  | RecordNotMeasured "ustr option" json
  | RecordDetectorCapped
  | NoRecordDetector
  | NoParsedAnswer
  | ReaskSetAside ustr ustr
  | ReaskUnread ustr "ustr option" "string list"
  | ReaskUnplaced int int
  | ReaskNoText int int
  | ReaskDuplicate int int int
  | ReaskDuplicateNotMeasured int int string

fun finding_code :: "finding \<Rightarrow> code" where
  "finding_code (PageAnswerIncomplete _) = PAGE_ANSWER_INCOMPLETE"
| "finding_code (UnknownIdCited _) = UNKNOWN_ID"
| "finding_code (ReadingUnplaced _) = READING_UNPLACED"
| "finding_code (UnaccountedWitnessUnit _ _) = UNACCOUNTED_WITNESS_UNIT"
| "finding_code (SetAsideSubstantial _ _ _ _) = SET_ASIDE_SUBSTANTIAL"
| "finding_code (WitnessNotRead _ _) = WITNESS_NOT_READ"
| "finding_code (WitnessReadBlank _ _) = WITNESS_READ_BLANK"
| "finding_code (WitnessReadNoUnits _ _) = WITNESS_READ_NO_UNITS"
| "finding_code (UnreadLine _) = UNREAD_LINE"
| "finding_code UnreadLineNotMeasured = UNREAD_LINE_NOT_MEASURED"
| "finding_code (WitnessTextNotMeasured _ _) = WITNESS_TEXT_NOT_MEASURED"
| "finding_code (TooFewDistinctivePieces _ _ _) = TOO_FEW_DISTINCTIVE_PIECES"
| "finding_code (WitnessTextNotRead _) = WITNESS_TEXT_NOT_READ"
| "finding_code (WitnessShortUnitNotRead _) = WITNESS_SHORT_UNIT_NOT_READ"
| "finding_code (UnreadInk _ _ _) = UNREAD_INK"
| "finding_code UnreadInkNotMeasured = UNREAD_INK_NOT_MEASURED"
| "finding_code (ReadingIncomplete _ _) = READING_INCOMPLETE"
| "finding_code (EntryTruncated _ _) = READING_INCOMPLETE"
| "finding_code (TruncationNotClassified _) = TRUNCATION_NOT_CLASSIFIED"
| "finding_code (DuplicateRegion _) = DUPLICATE_REGION"
| "finding_code (SharedLine _ _ _) = SHARED_LINE"
| "finding_code (RowsShareUnit _) = ROWS_SHARE_UNIT"
| "finding_code (SetAsideRecord _) = SET_ASIDE_RECORD"
| "finding_code (SplitDetection _ _) = SPLIT_DETECTION"
| "finding_code (RecordReadAsOther _ _) = RECORD_READ_AS_OTHER"
| "finding_code (RecordNotRead _) = RECORD_NOT_READ"
| "finding_code (NoRecordOnActPage _) = NO_RECORD_ON_ACT_PAGE"
| "finding_code (MergedDetection _ _ _) = MERGED_DETECTION"
| "finding_code RecordsNotMeasured = RECORDS_NOT_MEASURED"
| "finding_code (RecordNotMeasured _ _) = RECORD_NOT_MEASURED"
| "finding_code RecordDetectorCapped = RECORD_DETECTOR_CAPPED"
| "finding_code NoRecordDetector = NO_RECORD_DETECTOR"
| "finding_code NoParsedAnswer = NO_PARSED_ANSWER"
| "finding_code (ReaskSetAside _ _) = REASK_SET_ASIDE"
| "finding_code (ReaskUnread _ _ _) = REASK_UNREAD"
| "finding_code (ReaskUnplaced _ _) = REASK_UNPLACED"
| "finding_code (ReaskNoText _ _) = REASK_NO_TEXT"
| "finding_code (ReaskDuplicate _ _ _) = REASK_DUPLICATE"
| "finding_code (ReaskDuplicateNotMeasured _ _ _) = REASK_DUPLICATE_NOT_MEASURED"

text \<open>The code of a problem of an answer.\<close>

fun problem_code :: "answer_problem \<Rightarrow> string" where
  "problem_code (GrammarProblem _) = ''answer-grammar''"
| "problem_code (CiteProblem _ (UnknownId _)) = ''unknown-id''"
| "problem_code (CiteProblem _ (MalformedRange _)) = ''malformed-range''"
| "problem_code (CiteProblem _ (DetectionRange _)) = ''detection-range''"
| "problem_code (SetAsideTwice _) = ''set-aside-twice''"
| "problem_code (CitedAndSetAside _) = ''cited-and-set-aside''"
| "problem_code (SetAsideWithoutReason _) = ''set-aside-without-reason''"
| "problem_code (ReaskContinuation _ _) = ''reask-continuation''"

definition PROBLEM_RULE :: "(string \<times> string) list" where
  "PROBLEM_RULE = [(''unknown-id'', ''b'')]"

definition problem_rule :: "answer_problem \<Rightarrow> string" where
  "problem_rule p = (case map_of PROBLEM_RULE (problem_code p) of None \<Rightarrow> ''a'' | Some r \<Rightarrow> r)"

section \<open>Rules\<close>

text \<open>What a rule measured beside its findings.\<close>

record unit_measure =
  um_id :: ustr
  um_characters :: int
  um_unread_run :: int
  um_unread_share :: int
  um_pieces :: int
  um_distinctive_share :: "int option"
  um_distance :: "int option"

datatype measured =
    NothingMeasured
  | UnitsMeasured "unit_measure list"
  | InkMeasured int int int
  | RecordsUnmeasured "int option"

record rule =
  r_status :: status
  r_findings :: "finding list"
  r_measured :: measured

text \<open>
  \<open>hold\<close> on any held finding, else \<open>not-measured\<close> on any unmeasured one, else \<open>pass\<close>.
\<close>

definition rule_of :: "finding list \<Rightarrow> rule" where
  "rule_of findings =
     (let found = map finding_code findings;
          status = (if list_ex (\<lambda>c. c \<in> set HOLD_CODES \<and> c \<notin> set NOT_MEASURED_CODES) found then HOLD
                    else if list_ex (\<lambda>c. c \<in> set NOT_MEASURED_CODES) found then NOT_MEASURED
                    else PASS)
      in \<lparr>r_status = status, r_findings = findings, r_measured = NothingMeasured\<rparr>)"

definition held_codes :: "finding list \<Rightarrow> code list" where
  "held_codes findings = filter (\<lambda>c. c \<in> set HOLD_CODES) (map finding_code findings)"

text \<open>A rule whose every held finding is a review flag is a flag.\<close>

definition flagged_status :: "rule \<Rightarrow> policy \<Rightarrow> rule" where
  "flagged_status r p =
     (if r_status r \<noteq> HOLD \<and> r_status r \<noteq> NOT_MEASURED then r
      else let found = held_codes (r_findings r) in
        if found \<noteq> [] \<and> set found \<subseteq> set (flag_codes p) then r\<lparr>r_status := FLAG\<rparr> else r)"

text \<open>\<open>_RULES\<close> in their order, and the codes sorted by name.\<close>

definition RULES :: "ustr list" where
  "RULES = map u [''a'', ''b'', ''c'', ''d'', ''e'', ''f'', ''g'', ''h'', ''i'', ''j'']"

definition sorted_codes :: "code list \<Rightarrow> code list" where
  "sorted_codes cs = sort_key code_name (remdups cs)"

end
