(* ===== verification/Sealed.thy ===== *)
theory Sealed
  imports Findings Feed
begin

text \<open>
  The sealed inputs of a page accounting, \<open>common/page_accounting.py\<close>: the census of the
  detections and the witnesses, each checked against what the feed showed. The inputs are the
  JSON values the stage hands over. A sealed reference is only compared and sorted: its JSON
  text is the sort key, and a reference holds no float.
\<close>

section \<open>JSON text\<close>

text \<open>\<open>json.dumps(ref, sort_keys=True)\<close>: ASCII, the keys of an object sorted.\<close>

definition hex4 :: "int \<Rightarrow> ustr" where
  "hex4 n = map (\<lambda>k. let d = n div 16 ^ k mod 16 in if d < 10 then 48 + d else 87 + d) [3, 2, 1, 0]"

definition dump_char :: "int \<Rightarrow> ustr" where
  "dump_char c =
     (if c = 34 then [92, 34] else if c = 92 then [92, 92] else if c = 10 then [92, 110]
      else if c = 13 then [92, 114] else if c = 9 then [92, 116] else if c = 8 then [92, 98]
      else if c = 12 then [92, 102] else if 32 \<le> c \<and> c < 127 then [c]
      else if c < 65536 then 92 # 117 # hex4 c
      else (92 # 117 # hex4 (55296 + (c - 65536) div 1024)) @ (92 # 117 # hex4 (56320 + (c - 65536) mod 1024)))"

definition dump_string :: "ustr \<Rightarrow> ustr" where
  "dump_string s = [34] @ concat (map dump_char s) @ [34]"

fun joined :: "ustr list \<Rightarrow> ustr" where
  "joined [] = []"
| "joined [x] = x"
| "joined (x # xs) = x @ u '', '' @ joined xs"

fun json_dumps :: "json \<Rightarrow> ustr" where
  "json_dumps JNull = u ''null''"
| "json_dumps (JBool b) = (if b then u ''true'' else u ''false'')"
| "json_dumps (JInt n) = decimal n"
| "json_dumps JFloat = []"
| "json_dumps (JStr s) = dump_string s"
| "json_dumps (JList xs) = u ''['' @ joined (map json_dumps xs) @ u '']''"
| "json_dumps (JObj kvs) =
     u ''{'' @ joined (map (\<lambda>(k, txt). dump_string k @ u '': '' @ txt)
        (sort_key fst (map (\<lambda>(k, v). (k, json_dumps v)) kvs))) @ u ''}''"

section \<open>The detections\<close>

record detected =
  d_id :: "ustr option"
  d_box :: "box option"
  d_ref :: json

text \<open>Boxes the feed showed, by id, and the ids of one kind it showed.\<close>

type_synonym shown = "(ustr \<times> box option) list"

definition ref_key :: "detected \<Rightarrow> int list \<times> ustr" where
  "ref_key d =
     (case d_box d of None \<Rightarrow> [] | Some b \<Rightarrow> (case corners b of (x0, y0, x1, y1) \<Rightarrow> [x0, y0, x1, y1]),
      json_dumps (d_ref d))"

definition census_id :: "(ustr \<times> json) list \<Rightarrow> ustr option result" where
  "census_id kvs =
     (case field kvs ''id'' of
        None \<Rightarrow> Inr None
      | Some JNull \<Rightarrow> Inr None
      | Some (JStr i) \<Rightarrow> Inr (Some i)
      | Some (JList _) \<Rightarrow> Inl (TypeError ''unhashable type'')
      | Some (JObj _) \<Rightarrow> Inl (TypeError ''unhashable type'')
      | Some _ \<Rightarrow> Inl (ContractError ''is not the feed id with the same box, once''))"

definition census_item :: "shown \<Rightarrow> bool \<Rightarrow> ustr list \<Rightarrow> json \<Rightarrow> detected result" where
  "census_item shown_boxes unboxed seen v =
     (case v of
        JObj kvs \<Rightarrow>
          if \<not> set (map u [''box_px'', ''ref'']) \<subseteq> set (map fst kvs) \<or>
             \<not> set (map fst kvs) \<subseteq> set (map u [''id'', ''box_px'', ''ref''])
          then Inl (ContractError ''is not {id?, box_px, ref}'')
          else
            rbind (rget (KeyError ''box_px'') (field kvs ''box_px'')) (\<lambda>raw.
            rbind (if unboxed \<and> raw = JNull then Inr None
                   else rbind (read_box raw) (\<lambda>b. Inr (Some b))) (\<lambda>b.
            rbind (census_id kvs) (\<lambda>i.
            rbind (rget (KeyError ''ref'') (field kvs ''ref'')) (\<lambda>ref.
              if i \<noteq> None \<and> (map_of shown_boxes (the i) \<noteq> Some b \<or> the i \<in> set seen)
              then Inl (ContractError ''is not the feed id with the same box, once'')
              else Inr \<lparr>d_id = i, d_box = b, d_ref = ref\<rparr>))))
      | _ \<Rightarrow> Inl (ContractError ''is not {id?, box_px, ref}''))"

fun census_items :: "shown \<Rightarrow> bool \<Rightarrow> ustr list \<Rightarrow> json list \<Rightarrow> detected list result" where
  "census_items shown_boxes unboxed seen [] = Inr []"
| "census_items shown_boxes unboxed seen (v # vs) =
     rbind (census_item shown_boxes unboxed seen v) (\<lambda>d.
     rbind (census_items shown_boxes unboxed (case d_id d of None \<Rightarrow> seen | Some i \<Rightarrow> i # seen) vs) (\<lambda>ds.
       Inr (d # ds)))"

definition census :: "json \<Rightarrow> shown \<Rightarrow> ustr list \<Rightarrow> bool \<Rightarrow> detected list result" where
  "census items shown_boxes shown_ids unboxed =
     (case items of
        JList vs \<Rightarrow>
          rbind (census_items shown_boxes unboxed [] vs) (\<lambda>ds.
            if list_all (\<lambda>i. i \<in> set (somes (map d_id ds))) shown_ids then Inr (sort_key ref_key ds)
            else Inl (ContractError ''the feed shows what the sealed detections do not hold''))
      | _ \<Rightarrow> Inl (ContractError ''are not a list''))"

definition RECORD_DETECTOR_CONFIGURED :: ustr where
  "RECORD_DETECTOR_CONFIGURED = u ''configured''"

definition RECORD_DETECTOR_ABSENT :: ustr where
  "RECORD_DETECTOR_ABSENT = u ''absent''"

text \<open>The detections read: the lines, the records, the detector and whether it was capped.\<close>

record detections =
  dt_lines :: "detected list option"
  dt_records :: "detected list option"
  dt_detector :: ustr
  dt_capped :: bool

definition shown_detections :: "feed \<Rightarrow> shown result" where
  "shown_detections feed =
     (case surya_of feed of
        None \<Rightarrow> Inr []
      | Some s \<Rightarrow> rmap (\<lambda>d. rbind (read_box (det_box_px d)) (\<lambda>b. Inr (det_id d, Some b)))
          (surya_lines s @ surya_blocks s))"

definition read_surya_census :: "json \<Rightarrow> feed \<Rightarrow> detected list option result" where
  "read_surya_census v feed =
     (let line_ids = (case surya_of feed of None \<Rightarrow> [] | Some s \<Rightarrow> map det_id (surya_lines s));
          block_ids = (case surya_of feed of None \<Rightarrow> [] | Some s \<Rightarrow> map det_id (surya_blocks s)) in
      rbind (shown_detections feed) (\<lambda>boxes.
        case v of
          JNull \<Rightarrow>
            if line_ids \<noteq> [] \<or> block_ids \<noteq> []
            then Inl (ContractError ''the feed shows Surya detections the page has no census for'')
            else Inr None
        | JObj kvs \<Rightarrow>
            if \<not> keys_are kvs [''lines'', ''blocks'']
            then Inl (ContractError ''detections surya is not {lines, blocks}'')
            else
              rbind (rget (KeyError ''lines'') (field kvs ''lines'')) (\<lambda>ls.
              rbind (rget (KeyError ''blocks'') (field kvs ''blocks'')) (\<lambda>bs.
              rbind (census ls boxes line_ids False) (\<lambda>lines.
              rbind (census bs boxes block_ids False) (\<lambda>_. Inr (Some lines)))))
        | _ \<Rightarrow> Inl (ContractError ''detections surya is not {lines, blocks}'')))"

text \<open>The record census: a count, a cap and whether the cap was reached.\<close>

definition read_record_census :: "json \<Rightarrow> bool result" where
  "read_record_census v =
     (case v of
        JObj kvs \<Rightarrow>
          if \<not> keys_are kvs [''detection_count'', ''max_det'', ''max_det_reached'']
          then Inl (ContractError ''detections record_census'')
          else (case (field kvs ''detection_count'', field kvs ''max_det'', field kvs ''max_det_reached'') of
            (Some (JInt n), Some (JInt m), Some (JBool c)) \<Rightarrow>
              if n < 0 \<or> m < 0 then Inl (ContractError ''detections record_census'') else Inr c
          | _ \<Rightarrow> Inl (ContractError ''detections record_census''))
      | _ \<Rightarrow> Inl (ContractError ''detections record_census''))"

definition read_records :: "json \<Rightarrow> json \<Rightarrow> ustr \<Rightarrow> feed \<Rightarrow> (detected list option \<times> bool) result" where
  "read_records records record_census detector feed =
     (if (records = JNull) \<noteq> (record_census = JNull)
      then Inl (ContractError ''carry detector records and their census together or neither'')
      else if records = JNull then Inr (None, False)
      else if detector = RECORD_DETECTOR_ABSENT
      then Inl (ContractError ''carry records from a detector stated absent'')
      else
        rbind (read_record_census record_census) (\<lambda>capped.
        rbind (rmap (\<lambda>x. rbind (read_box_option (unit_box_px x)) (\<lambda>b. Inr (unit_id x, b))) (feed_units feed)) (\<lambda>boxes.
        rbind (census records boxes [] True) (\<lambda>ds. Inr (Some ds, capped)))))"

definition read_detections :: "json \<Rightarrow> feed \<Rightarrow> detections result" where
  "read_detections v feed =
     (case v of
        JObj kvs \<Rightarrow>
          if \<not> keys_are kvs [''surya'', ''records'', ''record_detector'', ''record_census'']
          then Inl (ContractError ''detections are not {surya, records, record_detector, record_census}'')
          else (case (field kvs ''surya'', field kvs ''records'', field kvs ''record_detector'', field kvs ''record_census'') of
            (Some s, Some r, Some (JStr detector), Some c) \<Rightarrow>
              if detector \<notin> {RECORD_DETECTOR_CONFIGURED, RECORD_DETECTOR_ABSENT}
              then Inl (ContractError ''record_detector is not configured or absent'')
              else
                rbind (read_surya_census s feed) (\<lambda>lines.
                rbind (read_records r c detector feed) (\<lambda>(records, capped).
                  Inr \<lparr>dt_lines = lines, dt_records = records, dt_detector = detector, dt_capped = capped\<rparr>))
          | _ \<Rightarrow> Inl (ContractError ''record_detector is not configured or absent''))
      | _ \<Rightarrow> Inl (ContractError ''detections are not {surya, records, record_detector, record_census}''))"

section \<open>The witnesses\<close>

record sealed_witness =
  sw_letter :: ustr
  sw_outcome :: json
  sw_blank :: json
  sw_units :: "sealed_unit list"

text \<open>\<open>blank\<close> is true, false or null; Python's \<open>in\<close> also takes the integers 0 and 1 for them.\<close>

fun blank_value :: "json \<Rightarrow> bool" where
  "blank_value JNull = True"
| "blank_value (JBool _) = True"
| "blank_value (JInt n) = (n = 0 \<or> n = 1)"
| "blank_value _ = False"

definition capital :: "ustr \<Rightarrow> bool" where
  "capital s \<longleftrightarrow> (case s of [c] \<Rightarrow> upper c | _ \<Rightarrow> False)"

text \<open>A unit as sealed: its id, which the numbering then checks, its box and its text.\<close>

definition read_sealed_unit :: "json \<Rightarrow> (json option \<times> box option \<times> ustr) result" where
  "read_sealed_unit v =
     (case v of
        JObj kvs \<Rightarrow>
          (case field kvs ''text'' of
             Some (JStr txt) \<Rightarrow>
               rbind (case field kvs ''box_px'' of None \<Rightarrow> Inr None | Some b \<Rightarrow> read_box_option b) (\<lambda>b.
                 Inr (field kvs ''id'', b, txt))
           | _ \<Rightarrow> Inl (ContractError ''unit is not {id, box_px, text}''))
      | _ \<Rightarrow> Inl (ContractError ''unit is not {id, box_px, text}''))"

fun unit_of :: "json option \<times> box option \<times> ustr \<Rightarrow> sealed_unit option" where
  "unit_of (Some (JStr i), b, txt) = Some \<lparr>su_id = i, su_box = b, su_text = txt\<rparr>"
| "unit_of _ = None"

text \<open>
  The ids are the letter's 1..n once each, in any order: as many as expected, all of them
  expected and every expected one among them.
\<close>

definition numbered_units :: "ustr \<Rightarrow> (json option \<times> box option \<times> ustr) list \<Rightarrow> sealed_unit list result" where
  "numbered_units letter_text raws =
     (let expected = map (\<lambda>n. letter_text @ decimal n) [1..int (length raws)];
          units = somes (map unit_of raws)
      in if length units = length raws \<and> set (map su_id units) = set expected
         then Inr (sort_key (\<lambda>x. id_key (su_id x)) units)
         else Inl (ContractError ''unit ids are not 1..n once each''))"

definition read_witness :: "ustr list \<Rightarrow> json \<Rightarrow> sealed_witness result" where
  "read_witness seen v =
     (case v of
        JObj kvs \<Rightarrow>
          if \<not> keys_are kvs [''letter'', ''outcome'', ''blank'', ''units'']
          then Inl (ContractError ''a sealed witness is not {letter, outcome, blank, units}'')
          else (case (field kvs ''letter'', field kvs ''outcome'', field kvs ''blank'', field kvs ''units'') of
            (Some (JStr l), Some outcome, Some b, Some units) \<Rightarrow>
              if \<not> capital l \<or> l \<in> set seen then Inl (ContractError ''is not one new capital'')
              else (case units of
                JList raws \<Rightarrow>
                  if \<not> blank_value b then Inl (ContractError ''blank or units are malformed'')
                  else
                    rbind (rmap read_sealed_unit raws) (\<lambda>rs.
                    rbind (numbered_units l rs) (\<lambda>us.
                      if b = JBool True \<and> us \<noteq> []
                      then Inl (ContractError ''reports a blank page and gives units'')
                      else Inr \<lparr>sw_letter = l, sw_outcome = outcome, sw_blank = b, sw_units = us\<rparr>))
              | _ \<Rightarrow> Inl (ContractError ''blank or units are malformed''))
          | _ \<Rightarrow> Inl (ContractError ''is not one new capital''))
      | _ \<Rightarrow> Inl (ContractError ''a sealed witness is not {letter, outcome, blank, units}''))"

fun read_sealed :: "ustr list \<Rightarrow> json list \<Rightarrow> sealed_witness list result" where
  "read_sealed seen [] = Inr []"
| "read_sealed seen (v # vs) =
     rbind (read_witness seen v) (\<lambda>w.
     rbind (read_sealed (sw_letter w # seen) vs) (\<lambda>ws. Inr (w # ws)))"

text \<open>A witness the feed shows is the sealed one: its outcome and its units unchanged.\<close>

definition shown_matches :: "fwitness \<Rightarrow> sealed_witness \<Rightarrow> bool" where
  "shown_matches w s \<longleftrightarrow>
     sw_outcome s = (case wit_outcome w of None \<Rightarrow> JNull | Some o' \<Rightarrow> JStr o') \<and>
     map (\<lambda>x. (unit_id x, read_box_option (unit_box_px x), unit_text x))
       (sort_key (\<lambda>x. id_key (unit_id x)) (wit_units w)) =
     map (\<lambda>x. (su_id x, Inr (su_box x), su_text x)) (sw_units s)"

definition sealed_of :: "sealed_witness list \<Rightarrow> ustr \<Rightarrow> sealed_witness option" where
  "sealed_of ws l = find (\<lambda>w. sw_letter w = l) ws"

definition read_witnesses :: "json \<Rightarrow> feed \<Rightarrow> (sealed_witness list \<times> ustr list) result" where
  "read_witnesses v feed =
     (case v of
        JList vs \<Rightarrow>
          rbind (read_sealed [] vs) (\<lambda>ws.
            if list_all (\<lambda>w. case sealed_of ws (wit_letter w) of
                 None \<Rightarrow> False | Some s \<Rightarrow> shown_matches w s) (witnesses feed)
            then Inr (sort_key sw_letter ws, map wit_letter (witnesses feed))
            else Inl (ContractError ''the feed shows a witness other than the sealed witness''))
      | _ \<Rightarrow> Inl (ContractError ''sealed witnesses are not a list''))"

end
