(* ===== verification/Rules.thy ===== *)
theory Rules
  imports Sealed Outcomes
begin

text \<open>
  The rules of a page accounting, \<open>common/page_accounting.py\<close>, one by one: the witnesses and
  their texts (c, e), the records of the detector (i), the ink (f) and the re-ask (j). Rule
  (e) spends one budget over all the units of a page: a unit the budget does not measure is
  a finding, and what it left is what the next one has.
\<close>

section \<open>Witnesses\<close>

definition witness_finding :: "sealed_witness \<Rightarrow> finding list" where
  "witness_finding w =
     (if \<not> (case sw_outcome w of JStr s \<Rightarrow> s \<in> set (map u WITNESS_READING_OUTCOMES) | _ \<Rightarrow> False)
      then [WitnessNotRead (sw_letter w) (sw_outcome w)]
      else if sw_units w = []
      then [if sw_blank w = JBool True then WitnessReadBlank (sw_letter w) (sw_outcome w)
            else WitnessReadNoUnits (sw_letter w) (sw_outcome w)]
      else [])"

definition witness_findings :: "sealed_witness list \<Rightarrow> finding list" where
  "witness_findings ws = concat (map witness_finding ws)"

section \<open>Witness text\<close>

text \<open>The readings of the entries, by number, with their unreadable marks.\<close>

definition readings_of :: "unicode \<Rightarrow> entry list \<Rightarrow> (int \<times> ustr) list" where
  "readings_of uc entries = dict_of (map (\<lambda>e. (ent_n e, normalized_text uc True (ent_text e))) entries)"

definition reading_at :: "(int \<times> ustr) list \<Rightarrow> int \<Rightarrow> ustr" where
  "reading_at readings n = (case map_of readings n of None \<Rightarrow> [] | Some s \<Rightarrow> s)"

text \<open>The reasons of coverage alone, in the order the code lists them.\<close>

definition coverage_reasons_of :: "TextCoverage \<Rightarrow> ustr \<Rightarrow> policy \<Rightarrow> string list" where
  "coverage_reasons_of c witness p =
     (if cov_run c > max_unread_characters p then [''unread-run''] else []) @
     (if unread_share_bp c > max_unread_share_bp p then [''unread-share''] else []) @
     (if cov_matched c = 0 \<and> cov_unread c > 0 \<and> int (length witness) \<ge> min_block_characters p
      then [''no-match''] else [])"

text \<open>What one measured unit adds: its findings and its measures.\<close>

definition measured_unit ::
  "sealed_unit \<Rightarrow> ustr \<Rightarrow> ustr \<Rightarrow> (ustr \<times> int) list \<Rightarrow> int list \<Rightarrow> bool \<Rightarrow> TextCoverage \<Rightarrow> policy \<Rightarrow>
     finding list \<times> unit_measure" where
  "measured_unit x witness joined_text distinctive scope is_cited c p =
     (let few = (int (length distinctive) < min_pieces p);
          distance = (if few then Some (short_unit_distance_bp witness joined_text c p) else None);
          share = (if few then None else Some (distinctive_share joined_text distinctive c p));
          reasons = coverage_reasons_of c witness p @
            (case distance of
               Some d \<Rightarrow> if d > max_short_unit_distance_bp p then [''short-unit-distance''] else []
             | None \<Rightarrow> []) @
            (case share of
               Some s \<Rightarrow> if s < min_distinctive_share_bp p then [''distinctive-share''] else []
             | None \<Rightarrow> []);
          short = (int (length witness) \<le> short_unit_characters p \<and> is_cited);
          found = \<lparr>tf_id = su_id x, tf_reasons = reasons, tf_unread_run = cov_run c,
            tf_unread_share = unread_share_bp c, tf_distinctive_share = share,
            tf_pieces = int (length distinctive), tf_distance = distance,
            tf_characters = int (length witness), tf_compared_with = scope, tf_box = su_box x\<rparr>
      in ((case distance of
             Some d \<Rightarrow> [TooFewDistinctivePieces (su_id x) (int (length distinctive)) d] | None \<Rightarrow> []) @
          (if reasons = [] then []
           else [if short then WitnessShortUnitNotRead found else WitnessTextNotRead found]),
          \<lparr>um_id = su_id x, um_characters = int (length witness), um_unread_run = cov_run c,
           um_unread_share = unread_share_bp c, um_pieces = int (length distinctive),
           um_distinctive_share = share, um_distance = distance\<rparr>))"

text \<open>
  The units in turn, the steps left passed along. \<open>cited\<close> gives the entries citing an id.
\<close>

fun text_units ::
  "(ustr \<times> ustr) list \<Rightarrow> (ustr \<times> (ustr \<times> int) list) list \<Rightarrow> (int \<times> ustr) list \<Rightarrow> ustr list \<Rightarrow>
     (ustr \<times> int list) list \<Rightarrow> policy \<Rightarrow> sealed_unit list \<Rightarrow> int \<Rightarrow> finding list \<times> unit_measure list" where
  "text_units texts pieces_by_unit readings aside cited p [] left = ([], [])"
| "text_units texts pieces_by_unit readings aside cited p (x # xs) left =
     (let i = su_id x; witness = (case map_of texts i of None \<Rightarrow> [] | Some s \<Rightarrow> s) in
      if i \<in> set aside \<or> witness = []
      then text_units texts pieces_by_unit readings aside cited p xs left
      else
        let scope = sort (case map_of cited i of Some ns \<Rightarrow> ns | None \<Rightarrow> map fst readings);
            joined_text = concat (map (reading_at readings) scope)
        in (case text_coverage witness joined_text p left of
              (Inl why, l) \<Rightarrow>
                (case text_units texts pieces_by_unit readings aside cited p xs l of
                   (fs, ms) \<Rightarrow> (WitnessTextNotMeasured i why # fs, ms))
            | (Inr c, l) \<Rightarrow>
                let distinctive = (case map_of pieces_by_unit i of None \<Rightarrow> [] | Some d \<Rightarrow> d);
                    (new, m) = measured_unit x witness joined_text distinctive scope
                                 (map_of cited i \<noteq> None) c p
                in (case text_units texts pieces_by_unit readings aside cited p xs l of
                      (fs, ms) \<Rightarrow> (new @ fs, m # ms))))"

definition witness_text_rule ::
  "unicode \<Rightarrow> sealed_witness list \<Rightarrow> sealed_unit list \<Rightarrow> entry list \<Rightarrow> ustr list \<Rightarrow>
     (ustr \<times> int list) list \<Rightarrow> policy \<Rightarrow> rule" where
  "witness_text_rule uc ws units entries aside cited p =
     (let readings = readings_of uc entries;
          (texts, pieces_by_unit) = distinctive_pieces uc units readings (piece_characters p);
          (fs, ms) = text_units texts pieces_by_unit readings aside cited p units (max_alignment_steps p)
      in (rule_of (witness_findings ws @ fs))\<lparr>r_measured := UnitsMeasured ms\<rparr>)"

section \<open>Detector records\<close>

record record_row =
  rr_at :: located_ref
  rr_act :: "int list"
  rr_other :: "int list"
  rr_set_aside :: bool

definition inside_ns :: "entry list \<Rightarrow> ustr \<Rightarrow> box \<Rightarrow> policy \<Rightarrow> int list" where
  "inside_ns entries kind b p =
     sort (map ent_n (filter (\<lambda>e. ent_kind e = kind \<and> is_inside p b (ent_region e)) entries))"

definition record_rows :: "detected list \<Rightarrow> entry list \<Rightarrow> ustr list \<Rightarrow> policy \<Rightarrow> record_row list" where
  "record_rows ds entries aside p =
     concat (map (\<lambda>d. case d_box d of
         None \<Rightarrow> []
       | Some b \<Rightarrow>
           [\<lparr>rr_at = \<lparr>lr_id = d_id d, lr_ref = d_ref d, lr_box = b\<rparr>,
             rr_act = inside_ns entries (u ''act'') b p, rr_other = inside_ns entries (u ''other'') b p,
             rr_set_aside = (case d_id d of Some i \<Rightarrow> i \<in> set aside | None \<Rightarrow> False)\<rparr>]) ds)"

definition row_findings :: "record_row \<Rightarrow> finding list" where
  "row_findings r =
     (if rr_set_aside r then [SetAsideRecord (rr_at r)] else []) @
     (if length (rr_act r) > 1 then [SplitDetection (rr_at r) (rr_act r)] else []) @
     (if rr_act r = [] \<and> rr_other r \<noteq> [] then [RecordReadAsOther (rr_at r) (rr_other r)] else []) @
     (if rr_act r = [] \<and> rr_other r = [] \<and> \<not> rr_set_aside r then [RecordNotRead (rr_at r)] else [])"

text \<open>The records inside each entry's region, by entry number.\<close>

definition inside_region :: "record_row list \<Rightarrow> (int \<times> located_ref list) list" where
  "inside_region rows =
     fold (\<lambda>r d. fold (\<lambda>n d. AList.update n ((case map_of d n of None \<Rightarrow> [] | Some xs \<Rightarrow> xs) @ [rr_at r]) d)
         (rr_act r @ rr_other r) d) rows []"

definition merged_findings :: "record_row list \<Rightarrow> entry list \<Rightarrow> finding list" where
  "merged_findings rows entries =
     concat (map (\<lambda>(n, xs). if length xs > 1
         then [MergedDetection n
                (case map_of (dict_of (map (\<lambda>e. (ent_n e, ent_kind e)) entries)) n of None \<Rightarrow> [] | Some k \<Rightarrow> k)
                (map (\<lambda>x. (lr_id x, lr_ref x)) xs)]
         else []) (sort_key fst (inside_region rows)))"

definition detection_rule ::
  "record_row list option \<Rightarrow> ustr \<Rightarrow> bool \<Rightarrow> entry list \<Rightarrow> finding list \<Rightarrow> rule" where
  "detection_rule rows detector capped entries unboxed =
     (case rows of
        None \<Rightarrow>
          if detector = RECORD_DETECTOR_ABSENT
          then \<lparr>r_status = NOT_APPLICABLE, r_findings = [NoRecordDetector],
                r_measured = RecordsUnmeasured (Some 0)\<rparr>
          else (rule_of [RecordsNotMeasured])\<lparr>r_measured := RecordsUnmeasured None\<rparr>
      | Some rows \<Rightarrow>
          let counted = RecordsUnmeasured (Some (int (length unboxed))) in
          if capped then (rule_of (RecordDetectorCapped # unboxed))\<lparr>r_measured := counted\<rparr>
          else
            let acts = map ent_n (filter (\<lambda>e. ent_kind e = u ''act'') entries);
                none = (if rows = [] \<and> unboxed = [] \<and> acts \<noteq> [] then [NoRecordOnActPage acts] else [])
            in (rule_of (unboxed @ none @ concat (map row_findings rows) @ merged_findings rows entries))
                 \<lparr>r_measured := counted\<rparr>)"

section \<open>Ink\<close>

type_synonym ink_input = "(json option \<times> coverage_policy) option"

definition ink_rule :: "ink_input \<Rightarrow> box list \<Rightarrow> rule result" where
  "ink_rule ink regions =
     (case ink of
        Some (Some runs, cp) \<Rightarrow>
          rbind (residual_ink_from_runs runs regions cp) (\<lambda>m.
            Inr (if ik_flagged m then rule_of [UnreadInk (ik_total m) (ik_outside m) (ik_substantial m)]
                 else \<lparr>r_status = PASS, r_findings = [],
                       r_measured = InkMeasured (ik_total m) (ik_outside m) (ik_substantial m)\<rparr>))
      | _ \<Rightarrow> Inr (rule_of [UnreadInkNotMeasured]))"

section \<open>The re-ask\<close>

record page_formula =
  pf_by_letter :: "(int \<times> near_index list) list"
  pf_exact :: "ustr list"
  pf_readings :: "near_index list"

definition page_formula_of :: "unicode \<Rightarrow> sealed_unit list \<Rightarrow> (int \<times> ustr) list \<Rightarrow> int \<Rightarrow> page_formula" where
  "page_formula_of uc units readings k =
     \<lparr>pf_by_letter = fold (\<lambda>x d. let l = letter_of (su_id x) in
         AList.update l ((case map_of d l of None \<Rightarrow> [] | Some ixs \<Rightarrow> ixs) @
           [near_pieces (normalized_text uc False (su_text x)) k]) d) units [],
      pf_exact = concat (map (\<lambda>x. pieces (normalized_text uc False (su_text x)) k) units),
      pf_readings = map (\<lambda>(n, txt). near_pieces txt k) readings\<rparr>"

definition near_count :: "near_index list \<Rightarrow> ustr \<Rightarrow> nat" where
  "near_count ixs pc = length (filter (\<lambda>ix. near ix pc) ixs)"

definition entry_distinctive_pieces :: "ustr \<Rightarrow> page_formula \<Rightarrow> int \<Rightarrow> (ustr \<times> int) list" where
  "entry_distinctive_pieces txt formula k =
     kept_pieces (\<lambda>pc. pc \<in> set (pf_exact formula) \<and> near_count (pf_readings formula) pc < 2 \<and>
         list_all (\<lambda>(l, ixs). near_count ixs pc < 2) (pf_by_letter formula)) txt k"

text \<open>Whether a first-reading entry already holds the text of a re-ask entry.\<close>

definition holds_text :: "ustr \<Rightarrow> ustr \<Rightarrow> (ustr \<times> int) list \<Rightarrow> TextCoverage \<Rightarrow> policy \<Rightarrow> bool" where
  "holds_text txt reading distinctive c p \<longleftrightarrow>
     \<not> (cov_run c > max_unread_characters p \<or> unread_share_bp c > max_unread_share_bp p \<or> cov_matched c = 0) \<and>
     (if int (length distinctive) < min_pieces p
      then short_unit_distance_bp txt reading c p \<le> max_short_unit_distance_bp p
      else distinctive_share reading distinctive c p \<ge> min_distinctive_share_bp p)"

definition reading_number :: "entry \<Rightarrow> int" where
  "reading_number e = (case ent_reading_n e of None \<Rightarrow> ent_n e | Some n \<Rightarrow> n)"

text \<open>The readings an added entry is compared with, in order; the first unmeasured one ends it.\<close>

fun duplicate_readings ::
  "entry \<Rightarrow> ustr \<Rightarrow> (ustr \<times> int) list \<Rightarrow> policy \<Rightarrow> (int \<times> ustr) list \<Rightarrow> int \<Rightarrow> finding list \<times> int" where
  "duplicate_readings e txt distinctive p [] left = ([], left)"
| "duplicate_readings e txt distinctive p ((n, reading) # rs) left =
     (case text_coverage txt reading p left of
        (Inl why, l) \<Rightarrow> ([ReaskDuplicateNotMeasured (ent_n e) (reading_number e) why], l)
      | (Inr c, l) \<Rightarrow>
          (case duplicate_readings e txt distinctive p rs l of
             (fs, l') \<Rightarrow>
               ((if holds_text txt reading distinctive c p
                 then [ReaskDuplicate (ent_n e) (reading_number e) n] else []) @ fs, l')))"

fun duplicate_entries ::
  "unicode \<Rightarrow> page_formula \<Rightarrow> policy \<Rightarrow> (int \<times> ustr) list \<Rightarrow> entry list \<Rightarrow> int \<Rightarrow> finding list" where
  "duplicate_entries uc formula p readings [] left = []"
| "duplicate_entries uc formula p readings (e # es) left =
     (let txt = normalized_text uc False (ent_text e) in
      if txt = [] then duplicate_entries uc formula p readings es left
      else
        (case duplicate_readings e txt (entry_distinctive_pieces txt formula (piece_characters p)) p
                (sort_key fst readings) left of
           (fs, l) \<Rightarrow> fs @ duplicate_entries uc formula p readings es l))"

definition reask_duplicates ::
  "unicode \<Rightarrow> entry list \<Rightarrow> entry list \<Rightarrow> sealed_unit list \<Rightarrow> policy \<Rightarrow> finding list" where
  "reask_duplicates uc first_entries added units p =
     (if added = [] \<or> first_entries = [] then []
      else
        let readings = readings_of uc first_entries;
            formula = page_formula_of uc units readings (piece_characters p)
        in duplicate_entries uc formula p readings added (max_alignment_steps p))"

definition from_reask :: "entry \<Rightarrow> bool" where
  "from_reask e \<longleftrightarrow> ent_attempt e = Some REASK_READING"

record reask =
  ra_reading :: reading
  ra_named :: "ustr list"
  ra_truncation :: "(int \<times> ustr) list"

definition reask_rule ::
  "unicode \<Rightarrow> combined option \<Rightarrow> entry list \<Rightarrow> sealed_unit list \<Rightarrow> policy \<Rightarrow> reask option \<Rightarrow> rule" where
  "reask_rule uc combined_r entries units p ra =
     (case (combined_r, ra) of
        (Some c, Some ra) \<Rightarrow>
          if \<not> c_stands c
          then rule_of [ReaskUnread (rd_parse_state (ra_reading ra)) (rd_finish (ra_reading ra))
                          (map problem_code (c_problems c))]
          else
            let added = filter from_reask entries;
                first_entries = filter (\<lambda>e. \<not> from_reask e) entries
            in rule_of
              (map (\<lambda>(i, why). ReaskSetAside i why) (sort_key (\<lambda>(i, why). id_key i) (c_set_aside c)) @
               map (\<lambda>e. ReaskUnplaced (ent_n e) (reading_number e)) (filter (\<lambda>e. ent_region e = []) added) @
               map (\<lambda>e. ReaskNoText (ent_n e) (reading_number e))
                 (filter (\<lambda>e. normalized_text uc False (ent_text e) = []) added) @
               reask_duplicates uc first_entries added units p)
      | _ \<Rightarrow> \<lparr>r_status = NOT_APPLICABLE, r_findings = [], r_measured = NothingMeasured\<rparr>)"

end
