(* ===== verification/Accounting.thy ===== *)
theory Accounting
  imports Rules PageTypes
begin

text \<open>
  The page accounting of \<open>common/page_accounting.py\<close>: ten rules over one page reading, or a
  reading and its re-ask, and the record they end in. An absent input is an option. The
  identity fields the record copies from its arguments (schema, page, references) are not
  kept.
\<close>

section \<open>The rules of the answer\<close>

definition FAILED_PARSE_STATES :: "ustr list" where
  "FAILED_PARSE_STATES =
     map u [''cut-off'', ''repetition-loop'', ''call-failed'', ''refused-capacity'', ''not-run'']"

definition PARSE_STATES :: "ustr list" where
  "PARSE_STATES = FAILED_PARSE_STATES @ [PARSED, u ''malformed'']"

definition TRUNCATION_COMPLETE :: ustr where
  "TRUNCATION_COMPLETE = u ''complete''"

definition ANSWER_BASIS_COMBINED :: ustr where
  "ANSWER_BASIS_COMBINED = u ''combined''"

definition answer_basis :: "int \<Rightarrow> ustr" where
  "answer_basis attempt = u ''attempt-'' @ decimal attempt"

text \<open>(a) The answer is complete: finished on \<open>stop\<close>, parsed and valid.\<close>

definition incomplete_findings :: "reading \<Rightarrow> answer_problem list \<Rightarrow> finding list" where
  "incomplete_findings r problems =
     map PageAnswerIncomplete
       ((if finished_on_stop r then [] else [FinishReason (rd_finish r)]) @
        (if rd_parse_state r \<noteq> PARSED then [ParseState (rd_parse_state r)]
         else if rd_answer r = None then [NoAnswer] else []) @
        map AnswerProblem (filter (\<lambda>p. problem_rule p = ''a'') problems))"

text \<open>(g) A truncated or failed reading, and each entry's truncation under its own reading.\<close>

definition truncation_finding :: "(int \<times> ustr) list \<Rightarrow> (int \<times> ustr) list \<Rightarrow> entry \<Rightarrow> finding list" where
  "truncation_finding first_trunc reask_trunc e =
     (case (if from_reask e then map_of reask_trunc (reading_number e) else map_of first_trunc (ent_n e)) of
        None \<Rightarrow> [TruncationNotClassified (ent_n e)]
      | Some t \<Rightarrow> if t = TRUNCATION_COMPLETE then [] else [EntryTruncated (ent_n e) t])"

definition reading_findings ::
  "reading \<Rightarrow> entry list \<Rightarrow> (int \<times> ustr) list \<Rightarrow> (int \<times> ustr) list \<Rightarrow> finding list" where
  "reading_findings r entries first_trunc reask_trunc =
     (if rd_parse_state r \<in> set FAILED_PARSE_STATES \<or> rd_finish r = Some (u ''length'')
      then [ReadingIncomplete (rd_parse_state r) (rd_finish r)] else []) @
     concat (map (truncation_finding first_trunc reask_trunc) entries)"

section \<open>Rows\<close>

definition citing :: "entry list \<Rightarrow> (ustr \<times> int list) list" where
  "citing entries =
     fold (\<lambda>e d. fold (\<lambda>i d. AList.update i ((case map_of d i of None \<Rightarrow> [] | Some ns \<Rightarrow> ns) @ [ent_n e]) d)
         (ent_cited_ids e) d) entries []"

datatype disposition = NotShown | Cited | SetAside | Unaccounted

record unit_row =
  ur_id :: ustr
  ur_disposition :: disposition
  ur_by :: "int list"

definition unit_row_of :: "ustr list \<Rightarrow> (ustr \<times> int list) list \<Rightarrow> ustr list \<Rightarrow> sealed_unit \<Rightarrow> unit_row" where
  "unit_row_of shown_letters cited aside x =
     (let i = su_id x in
      \<lparr>ur_id = i,
       ur_disposition =
         (if [letter_of i] \<notin> set shown_letters then NotShown
          else if map_of cited i \<noteq> None then Cited
          else if i \<in> set aside then SetAside else Unaccounted),
       ur_by = sort (case map_of cited i of None \<Rightarrow> [] | Some ns \<Rightarrow> ns)\<rparr>)"

record line_row =
  ln_id :: "ustr option"
  ln_ref :: json
  ln_inside :: "int list"

definition regions_of :: "entry list \<Rightarrow> (int \<times> box list) list" where
  "regions_of entries = dict_of (map (\<lambda>e. (ent_n e, ent_region e)) entries)"

text \<open>A line of the census has a box; one without would be an empty row.\<close>

definition line_row_of :: "(int \<times> box list) list \<Rightarrow> policy \<Rightarrow> detected \<Rightarrow> line_row" where
  "line_row_of regions p d =
     \<lparr>ln_id = d_id d, ln_ref = d_ref d,
      ln_inside = sort (map fst (filter (\<lambda>(n, region).
        case d_box d of None \<Rightarrow> False | Some b \<Rightarrow> is_inside p b region) regions))\<rparr>"

section \<open>The rules of the page\<close>

text \<open>(b) Every cited id exists, and every entry cites a boxed id.\<close>

definition placement_rule :: "answer_problem list \<Rightarrow> entry list \<Rightarrow> rule" where
  "placement_rule problems entries =
     rule_of (map UnknownIdCited (filter (\<lambda>p. problem_code p = ''unknown-id'') problems) @
       map (\<lambda>e. ReadingUnplaced (ent_n e)) (filter (\<lambda>e. ent_region e = []) entries))"

text \<open>(c) Every witness shown read the page, and every unit shown is cited or set aside.\<close>

definition units_rule ::
  "unicode \<Rightarrow> sealed_witness list \<Rightarrow> sealed_unit list \<Rightarrow> ustr list \<Rightarrow> unit_row list \<Rightarrow> (ustr \<times> ustr) list \<Rightarrow> policy \<Rightarrow> rule" where
  "units_rule uc ws units shown_letters rows aside p =
     rule_of (witness_findings (filter (\<lambda>w. sw_letter w \<in> set shown_letters) ws) @
       map (\<lambda>(x, r). UnaccountedWitnessUnit (ur_id r) (su_box x))
         (filter (\<lambda>(x, r). ur_disposition r = Unaccounted) (zip units rows)) @
       concat (map (\<lambda>x. case map_of aside (su_id x) of
           None \<Rightarrow> []
         | Some why \<Rightarrow>
             let n = int (length (normalized_text uc False (su_text x))) in
             if [letter_of (su_id x)] \<in> set shown_letters \<and> n > max_set_aside_characters p
             then [SetAsideSubstantial (su_id x) why n (su_box x)] else []) units))"

text \<open>(d) Every detected line lies inside the reading regions or is set aside.\<close>

definition unread_line :: "ustr list \<Rightarrow> box list \<Rightarrow> policy \<Rightarrow> detected \<Rightarrow> finding list" where
  "unread_line aside all_regions p d =
     (case d_box d of
        None \<Rightarrow> []
      | Some b \<Rightarrow>
          if (case d_id d of Some i \<Rightarrow> i \<in> set aside | None \<Rightarrow> False) \<or> is_inside p b all_regions then []
          else [UnreadLine \<lparr>lr_id = d_id d, lr_ref = d_ref d, lr_box = b\<rparr>])"

definition lines_rule :: "detected list option \<Rightarrow> ustr list \<Rightarrow> box list \<Rightarrow> policy \<Rightarrow> rule" where
  "lines_rule lines aside all_regions p =
     (case lines of
        None \<Rightarrow> rule_of [UnreadLineNotMeasured]
      | Some ds \<Rightarrow> rule_of (concat (map (unread_line aside all_regions p) ds)))"

text \<open>(h) Two entries on one region, a line inside two regions, rows on one unit.\<close>

definition regions_rule :: "entry list \<Rightarrow> line_row list \<Rightarrow> policy \<Rightarrow> rule" where
  "regions_rule entries rows p =
     rule_of (map DuplicateRegion (duplicate_regions entries p) @
       map (\<lambda>r. SharedLine (ln_id r) (ln_ref r) (ln_inside r)) (filter (\<lambda>r. length (ln_inside r) > 1) rows) @
       map RowsShareUnit (rows_sharing_units entries))"

section \<open>The record\<close>

record entry_row =
  er_n :: int
  er_attempt :: int
  er_reading_n :: int
  er_kind :: ustr
  er_entry_kind :: ustr
  er_cited_ids :: "ustr list"
  er_union :: "box option"

record type_context =
  tc_stated :: "ustr option"
  tc_writing :: "ustr option"
  tc_facts :: facts
  tc_agreement :: "type_check list"
  tc_applicability :: "(ustr \<times> applies) list"

record accounting =
  ac_basis :: ustr
  ac_entries :: "entry_row list"
  ac_rules :: "(ustr \<times> rule) list"
  ac_units :: "unit_row list"
  ac_lines :: "line_row list"
  ac_records :: "record_row list option"
  ac_holds :: "code list"
  ac_flags :: "code list"
  ac_type :: type_context
  ac_kinds :: "kind_check option"
  ac_recorded :: "code list"
  ac_policy_sha256 :: ustr

definition page_type_context :: "json option \<Rightarrow> feed \<Rightarrow> int option \<Rightarrow> type_context" where
  "page_type_context answer feed record_count =
     (let (page_type, writing) = stated_page_type answer; facts = type_facts feed record_count in
      \<lparr>tc_stated = page_type, tc_writing = writing, tc_facts = facts,
       tc_agreement = type_agreement page_type writing facts,
       tc_applicability = applicability page_type writing\<rparr>)"

definition rules_where :: "(ustr \<Rightarrow> bool) \<Rightarrow> (ustr \<times> rule) list \<Rightarrow> finding list" where
  "rules_where wanted rules = concat (map (\<lambda>(name, r). if wanted name then r_findings r else []) rules)"

definition not_applied :: "type_context \<Rightarrow> ustr list" where
  "not_applied typed = map fst (filter (\<lambda>(name, a). \<not> rule_applies a) (tc_applicability typed))"

definition entry_row_of :: "int \<Rightarrow> entry \<Rightarrow> entry_row" where
  "entry_row_of attempt e =
     \<lparr>er_n = ent_n e, er_attempt = (case ent_attempt e of None \<Rightarrow> attempt | Some a \<Rightarrow> a),
      er_reading_n = reading_number e, er_kind = ent_kind e, er_entry_kind = ent_entry_kind e,
      er_cited_ids = sort_key id_key (ent_cited_ids e), er_union = ent_union e\<rparr>"

definition accounting_record ::
  "(ustr \<times> rule) list \<Rightarrow> unit_row list \<Rightarrow> line_row list \<Rightarrow> record_row list option \<Rightarrow> policy \<Rightarrow>
     entry list \<Rightarrow> bool \<Rightarrow> int \<Rightarrow> type_context \<Rightarrow> accounting result" where
  "accounting_record rules unit_rows line_rows record_rws p entries with_reask attempt typed =
     (let off = not_applied typed;
          found = held_codes (rules_where (\<lambda>name. name \<notin> set off) rules);
          recorded = filter (\<lambda>c. c \<notin> set found) (held_codes (rules_where (\<lambda>name. name \<in> set off) rules)) in
      rbind (kind_agreement (tc_stated typed) (map ent_entry_kind entries)) (\<lambda>kinds.
        Inr \<lparr>ac_basis = (if with_reask then ANSWER_BASIS_COMBINED else answer_basis attempt),
             ac_entries = map (entry_row_of attempt) entries,
             ac_rules = map (\<lambda>name. (name, flagged_status (the (map_of rules name)) p)) RULES,
             ac_units = unit_rows, ac_lines = line_rows, ac_records = record_rws,
             ac_holds = sorted_codes (filter (\<lambda>c. c \<notin> set (flag_codes p)) found),
             ac_flags = sorted_codes (filter (\<lambda>c. c \<in> set (flag_codes p)) found),
             ac_type = typed, ac_kinds = kinds, ac_recorded = sorted_codes recorded,
             ac_policy_sha256 = policy_sha256 p\<rparr>))"

section \<open>The accounting\<close>

text \<open>The page as the rules read it: its entries, problems and set-asides over both readings.\<close>

record page =
  pg_candidates :: candidates
  pg_detections :: detections
  pg_witnesses :: "sealed_witness list"
  pg_shown :: "ustr list"
  pg_answered :: bool
  pg_first :: validated
  pg_combined :: "combined option"
  pg_entries :: "entry list"
  pg_set_aside :: "(ustr \<times> ustr) list"

definition answered_reading :: "reading \<Rightarrow> bool" where
  "answered_reading r \<longleftrightarrow> rd_parse_state r = PARSED \<and> rd_answer r \<noteq> None"

definition first_answer :: "reading \<Rightarrow> candidates \<Rightarrow> policy \<Rightarrow> validated result" where
  "first_answer r cands p =
     (case rd_answer r of
        Some v \<Rightarrow> if answered_reading r then validate_answer v cands (Some p)
                  else Inr \<lparr>v_entries = [], v_set_aside = [], v_problems = []\<rparr>
      | None \<Rightarrow> Inr \<lparr>v_entries = [], v_set_aside = [], v_problems = []\<rparr>)"

definition read_page ::
  "unicode \<Rightarrow> feed \<Rightarrow> json \<Rightarrow> json \<Rightarrow> reading \<Rightarrow> policy \<Rightarrow> reask option \<Rightarrow> int \<Rightarrow> page result" where
  "read_page uc feed ws dets r p ra attempt =
     (if attempt \<noteq> FIRST_READING \<and> (ra \<noteq> None \<or> attempt < OPERATOR_REREAD_FIRST)
      then Inl (ContractError ''a first reading (1) or an operator re-read (3 or more)'')
      else
        rbind (feed_candidates uc feed p) (\<lambda>cands.
        rbind (read_detections dets feed) (\<lambda>ds.
        if rd_parse_state r \<notin> set PARSE_STATES then Inl (ContractError ''parse_state is not a known state'')
        else
          rbind (read_witnesses ws feed) (\<lambda>(sealed, shown_letters).
          rbind (first_answer r cands p) (\<lambda>v.
            let entries = sort_key ent_n (v_entries v);
                page = \<lparr>pg_candidates = cands, pg_detections = ds, pg_witnesses = sealed, pg_shown = shown_letters,
                  pg_answered = answered_reading r, pg_first = v\<lparr>v_entries := entries\<rparr>, pg_combined = None,
                  pg_entries = entries, pg_set_aside = v_set_aside v\<rparr>
            in case ra of
                 None \<Rightarrow> Inr page
               | Some ra \<Rightarrow>
                   if \<not> answered_reading r
                   then Inl (ContractError ''a re-ask is accounted only over a first reading that parsed'')
                   else
                     rbind (combined_answer (pg_first page) (ra_reading ra) (ra_named ra) cands) (\<lambda>c.
                       Inr (page\<lparr>pg_combined := Some c, pg_entries := entries @ c_entries c,
                         pg_set_aside := dict_of (v_set_aside v @ c_set_aside c)\<rparr>)))))))"

definition page_units :: "page \<Rightarrow> sealed_unit list" where
  "page_units pg = sort_key (\<lambda>x. id_key (su_id x)) (concat (map sw_units (pg_witnesses pg)))"

definition unit_rows_of :: "page \<Rightarrow> unit_row list" where
  "unit_rows_of pg =
     map (unit_row_of (pg_shown pg) (citing (pg_entries pg)) (map fst (pg_set_aside pg))) (page_units pg)"

definition line_rows_of :: "page \<Rightarrow> policy \<Rightarrow> line_row list" where
  "line_rows_of pg p =
     map (line_row_of (regions_of (pg_entries pg)) p)
       (case dt_lines (pg_detections pg) of None \<Rightarrow> [] | Some ds \<Rightarrow> ds)"

definition record_rows_of :: "page \<Rightarrow> policy \<Rightarrow> record_row list option" where
  "record_rows_of pg p =
     map_option (\<lambda>ds. record_rows ds (pg_entries pg) (map fst (pg_set_aside pg)) p)
       (dt_records (pg_detections pg))"

definition unboxed_records :: "page \<Rightarrow> finding list" where
  "unboxed_records pg =
     map (\<lambda>d. RecordNotMeasured (d_id d) (d_ref d))
       (filter (\<lambda>d. d_box d = None) (case dt_records (pg_detections pg) of None \<Rightarrow> [] | Some ds \<Rightarrow> ds))"

definition no_answer_rules ::
  "page \<Rightarrow> reading \<Rightarrow> (int \<times> ustr) list \<Rightarrow> (int \<times> ustr) list \<Rightarrow> (ustr \<times> rule) list" where
  "no_answer_rules pg r first_trunc reask_trunc =
     (u ''a'', rule_of (incomplete_findings r (v_problems (pg_first pg)))) #
     map (\<lambda>name. (u name, rule_of [NoParsedAnswer])) [''b'', ''c'', ''d'', ''e'', ''f'', ''h'', ''i''] @
     [(u ''g'', rule_of (reading_findings r (pg_entries pg) first_trunc reask_trunc)),
      (u ''j'', \<lparr>r_status = NOT_APPLICABLE, r_findings = [], r_measured = NothingMeasured\<rparr>)]"

definition answer_rules ::
  "unicode \<Rightarrow> page \<Rightarrow> reading \<Rightarrow> (int \<times> ustr) list \<Rightarrow> ink_input \<Rightarrow> policy \<Rightarrow> reask option \<Rightarrow>
     (ustr \<times> rule) list result" where
  "answer_rules uc pg r first_trunc ink p ra =
     (let entries = pg_entries pg; aside = pg_set_aside pg; units = page_units pg;
          problems = v_problems (pg_first pg); all_regions = concat (map snd (regions_of entries));
          reask_trunc = (case ra of None \<Rightarrow> [] | Some ra \<Rightarrow> ra_truncation ra);
          ds = pg_detections pg in
      rbind (ink_rule ink all_regions) (\<lambda>ink_verdict.
        Inr [(u ''a'', rule_of (incomplete_findings r problems)),
             (u ''b'', placement_rule problems entries),
             (u ''c'', units_rule uc (pg_witnesses pg) units (pg_shown pg) (unit_rows_of pg) aside p),
             (u ''d'', lines_rule (dt_lines ds) (map fst aside) all_regions p),
             (u ''e'', witness_text_rule uc (pg_witnesses pg) units entries (map fst aside) (citing entries) p),
             (u ''f'', ink_verdict),
             (u ''g'', rule_of (reading_findings r entries first_trunc reask_trunc)),
             (u ''h'', regions_rule entries (line_rows_of pg p) p),
             (u ''i'', detection_rule (record_rows_of pg p) (dt_detector ds) (dt_capped ds) entries (unboxed_records pg)),
             (u ''j'', reask_rule uc (pg_combined pg) entries units p ra)]))"

definition page_accounting ::
  "unicode \<Rightarrow> feed \<Rightarrow> json \<Rightarrow> json \<Rightarrow> reading \<Rightarrow> (int \<times> ustr) list \<Rightarrow> ink_input \<Rightarrow> policy \<Rightarrow>
     reask option \<Rightarrow> int \<Rightarrow> accounting result" where
  "page_accounting uc feed ws dets r first_trunc ink p ra attempt =
     rbind (read_page uc feed ws dets r p ra attempt) (\<lambda>pg.
       let typed = page_type_context
             (if answered_reading r \<and> v_problems (pg_first pg) = [] then rd_answer r else None) feed
             (map_option (\<lambda>ds. int (length ds)) (dt_records (pg_detections pg))) in
       rbind (if pg_answered pg then answer_rules uc pg r first_trunc ink p ra
              else Inr (no_answer_rules pg r first_trunc
                (case ra of None \<Rightarrow> [] | Some ra \<Rightarrow> ra_truncation ra))) (\<lambda>rules.
         accounting_record rules (unit_rows_of pg) (line_rows_of pg p) (record_rows_of pg p) p
           (pg_entries pg) (ra \<noteq> None) attempt typed))"

text \<open>Whether the entries measured are those of a re-ask too.\<close>

definition reask_stood :: "accounting \<Rightarrow> bool" where
  "reask_stood a \<longleftrightarrow>
     ac_basis a = ANSWER_BASIS_COMBINED \<and>
     list_all (\<lambda>f. finding_code f \<noteq> REASK_UNREAD) (r_findings (the (map_of (ac_rules a) (u ''j''))))"

end
