(* ===== verification/InkFacts.thy ===== *)
theory InkFacts
  imports Ink
begin

text \<open>
  The interval arithmetic of the ink measures counts pixels: the merged coverage of a row is
  the columns the boxes cover, what is left of a run is its uncovered columns, and the totals
  are the pixels of the page. So the retained runs measure what the page's own pixels do.
\<close>

section \<open>Intervals\<close>

definition merged_ok :: "span list \<Rightarrow> bool" where
  "merged_ok ms \<longleftrightarrow> sorted_wrt (\<lambda>p q. snd p < fst q) ms \<and> (\<forall>p \<in> set ms. fst p < snd p)"

lemma span_points_simps [simp]:
  "span_points [] = {}" "span_points ((a, b) # ms) = {a..<b} \<union> span_points ms"
  "span_points (xs @ ys) = span_points xs \<union> span_points ys"
  by (auto simp: span_points_def)

lemma add_interval_ok:
  assumes "merged_ok ms" "\<forall>p \<in> set ms. fst p \<le> start"
  shows "merged_ok (add_interval (start, stop) ms) \<and>
    (\<forall>p \<in> set (add_interval (start, stop) ms). fst p \<le> start) \<and>
    span_points (add_interval (start, stop) ms) = span_points ms \<union> {start..<stop}"
proof (cases "start \<ge> stop")
  case True
  with assms show ?thesis by (simp add: add_interval_def)
next
  case lt: False
  show ?thesis
  proof (cases "ms = []")
    case True
    with lt show ?thesis by (simp add: add_interval_def merged_ok_def)
  next
    case False
    then obtain ks a b where ms: "ms = ks @ [(a, b)]" by (metis rev_exhaust surj_pair)
    with assms have ab: "a < b" "a \<le> start" by (auto simp: merged_ok_def)
    have ks: "\<forall>p \<in> set ks. snd p < a" "sorted_wrt (\<lambda>p q. snd p < fst q) ks" "\<forall>p \<in> set ks. fst p < snd p"
      "\<forall>p \<in> set ks. fst p \<le> start"
      using assms by (auto simp: merged_ok_def ms sorted_wrt_append)
    show ?thesis
    proof (cases "start \<le> b")
      case True
      then have "add_interval (start, stop) ms = ks @ [(a, max stop b)]"
        using lt by (simp add: add_interval_def ms)
      moreover have "{a..<max stop b} = {a..<b} \<union> {start..<stop}" using True ab lt by auto
      ultimately show ?thesis using ks ab by (auto simp: merged_ok_def sorted_wrt_append ms)
    next
      case beyond: False
      then have "add_interval (start, stop) ms = ms @ [(start, stop)]"
        using lt by (simp add: add_interval_def ms)
      moreover have "\<forall>p \<in> set ms. snd p < start" using ks(1) beyond ab by (auto simp: ms)
      ultimately show ?thesis using assms lt by (auto simp: merged_ok_def sorted_wrt_append)
    qed
  qed
qed

lemma add_intervals_ok:
  "sorted ivs \<Longrightarrow> merged_ok ms \<Longrightarrow> \<forall>p \<in> set ms. \<forall>q \<in> set ivs. fst p \<le> fst q \<Longrightarrow>
     merged_ok (fold add_interval ivs ms) \<and> span_points (fold add_interval ivs ms) = span_points ms \<union> span_points ivs"
proof (induction ivs arbitrary: ms)
  case (Cons iv ivs)
  obtain start stop where iv: "iv = (start, stop)" by force
  note step = add_interval_ok [of ms start stop]
  have ok: "merged_ok (add_interval iv ms)" "\<forall>p \<in> set (add_interval iv ms). fst p \<le> start"
    "span_points (add_interval iv ms) = span_points ms \<union> {start..<stop}"
    using step Cons.prems by (auto simp: iv)
  have "\<forall>q \<in> set ivs. start \<le> fst q" using Cons.prems(1) by (auto simp: iv less_eq_prod_def)
  with ok(2) have "\<forall>p \<in> set (add_interval iv ms). \<forall>q \<in> set ivs. fst p \<le> fst q" by fastforce
  with Cons.IH [OF _ ok(1)] Cons.prems(1) ok(3) show ?case by (auto simp: iv)
qed simp

lemma row_coverage_ok:
  "merged_ok (row_coverage boxes y width)"
  "x \<in> span_points (row_coverage boxes y width) \<longleftrightarrow> 0 \<le> x \<and> x < width \<and> (x, y) \<in> cover boxes"
proof -
  let ?ivs = "map (\<lambda>b. (clamp width (box_x b), clamp width (box_x b + box_w b)))
      (filter (\<lambda>b. box_y b \<le> y \<and> y < box_y b + box_h b) boxes)"
  have ok: "merged_ok (row_coverage boxes y width) \<and>
      span_points (row_coverage boxes y width) = span_points (sort ?ivs)"
    using add_intervals_ok [of "sort ?ivs" "[]"] by (simp add: row_coverage_def merged_ok_def)
  then show "merged_ok (row_coverage boxes y width)" by blast
  have "x \<in> span_points (sort ?ivs) \<longleftrightarrow>
      (\<exists>b \<in> set boxes. (box_y b \<le> y \<and> y < box_y b + box_h b) \<and>
         clamp width (box_x b) \<le> x \<and> x < clamp width (box_x b + box_w b))"
    by (auto simp: span_points_def)
  also have "\<dots> \<longleftrightarrow> (\<exists>b \<in> set boxes. (box_y b \<le> y \<and> y < box_y b + box_h b) \<and>
      0 \<le> x \<and> x < width \<and> box_x b \<le> x \<and> x < box_x b + box_w b)"
  proof -
    have "clamp width (box_x b) \<le> x \<and> x < clamp width (box_x b + box_w b) \<longleftrightarrow>
      0 \<le> x \<and> x < width \<and> box_x b \<le> x \<and> x < box_x b + box_w b" for b
      unfolding clamp_def by linarith
    then show ?thesis by (intro bex_cong refl) blast
  qed
  also have "\<dots> \<longleftrightarrow> 0 \<le> x \<and> x < width \<and> (x, y) \<in> cover boxes"
    by (auto simp: cover_def pixels_def corners_def)
  finally show "x \<in> span_points (row_coverage boxes y width) \<longleftrightarrow> 0 \<le> x \<and> x < width \<and> (x, y) \<in> cover boxes"
    using ok by simp
qed

lemma uncovered_loop_card:
  "merged_ok ms \<Longrightarrow> uncovered_loop stop ms cursor acc = (acc', c') \<Longrightarrow>
     acc' + max 0 (stop - c') = acc + int (card ({cursor..<stop} - span_points ms))"
proof (induction stop ms cursor acc rule: uncovered_loop.induct)
  case (1 stop cursor acc)
  then show ?case by auto
next
  case (2 stop c0 c1 ivs cursor acc)
  from "2.prems"(1) have ok: "merged_ok ivs" "c0 < c1" and later: "\<forall>p \<in> set ivs. c1 < fst p"
    by (auto simp: merged_ok_def)
  have beyond: "x \<in> span_points ivs \<Longrightarrow> c1 < x" for x using later by (fastforce simp: span_points_def)
  show ?case
  proof (cases "c1 \<le> cursor")
    case True
    then have "{cursor..<stop} - span_points ((c0, c1) # ivs) = {cursor..<stop} - span_points ivs" by auto
    with True "2.IH"(1) [OF True ok(1)] "2.prems"(2) show ?thesis by simp
  next
    case past: False
    show ?thesis
    proof (cases "c0 \<ge> stop")
      case True
      then have "{cursor..<stop} - span_points ((c0, c1) # ivs) = {cursor..<stop}"
        using beyond ok(2) by fastforce
      with past True "2.prems"(2) show ?thesis by simp
    next
      case False
      define acc1 where "acc1 = acc + max 0 (min c0 stop - cursor)"
      have cur: "max cursor c1 = c1" using past by simp
      have split: "{cursor..<stop} - span_points ((c0, c1) # ivs) =
          {cursor..<min c0 stop} \<union> ({c1..<stop} - span_points ivs)" (is "?l = ?a \<union> ?b")
        using beyond past ok(2) by fastforce
      have "card (?a \<union> ?b) = card ?a + card ?b"
        using ok(2) by (intro card_Un_disjoint) auto
      moreover have "int (card ?a) = max 0 (min c0 stop - cursor)"
        by (cases "cursor \<le> min c0 stop") auto
      ultimately have sum: "acc + int (card ?l) = acc1 + int (card ?b)" unfolding split acc1_def by simp
      show ?thesis
      proof (cases "c1 \<ge> stop")
        case True
        then have "?b = {}" by auto
        then have b: "int (card ?b) = 0" by simp
        have "uncovered_loop stop ((c0, c1) # ivs) cursor acc = (acc1, c1)"
          using past False True by (simp add: acc1_def Let_def)
        with "2.prems"(2) have "acc' = acc1" "c' = c1" by simp_all
        with sum b True show ?thesis by simp
      next
        case more: False
        have "uncovered_loop stop ((c0, c1) # ivs) cursor acc = uncovered_loop stop ivs c1 acc1"
          using past False more by (simp add: acc1_def Let_def)
        with "2.prems"(2) have "uncovered_loop stop ivs c1 acc1 = (acc', c')" by simp
        with "2.IH"(2) [OF past False acc1_def cur [symmetric]] more ok(1) sum show ?thesis by simp
      qed
    qed
  qed
qed

lemma uncovered_length_card:
  "merged_ok ms \<Longrightarrow> uncovered_length start stop ms = int (card ({start..<stop} - span_points ms))"
  using uncovered_loop_card [of ms stop start 0] by (simp add: uncovered_length_def split: prod.split)

section \<open>A row\<close>

text \<open>The runs of a validated row: proper, in order, inside the page.\<close>

lemma read_runs_ok:
  "read_runs width e vs = Inr runs \<Longrightarrow>
     sorted_wrt (\<lambda>p q. snd p \<le> fst q) runs \<and> (\<forall>p \<in> set runs. e \<le> fst p \<and> fst p < snd p \<and> snd p \<le> width)"
proof (induction width e vs arbitrary: runs rule: read_runs.induct)
  case (2 width e v vs)
  from "2.prems" obtain s n runs' where v: "read_run v = Inr (s, n)" "\<not> (s < e \<or> n \<le> 0 \<or> s + n > width)"
    "read_runs width (s + n) vs = Inr runs'" "runs = (s, s + n) # runs'"
    by (auto simp: result_simps split: if_splits prod.splits)
  from "2.IH" [OF v(1) refl v(2,3)] v(2,4) show ?case by fastforce
qed simp

lemma read_runs_points:
  "read_runs width e vs = Inr runs \<Longrightarrow>
     span_points runs = {x. \<exists>s n. JList [JInt s, JInt n] \<in> set vs \<and> s \<le> x \<and> x < s + n}"
proof (induction width e vs arbitrary: runs rule: read_runs.induct)
  case (2 width e v vs)
  from "2.prems" obtain s n runs' where v: "read_run v = Inr (s, n)" "\<not> (s < e \<or> n \<le> 0 \<or> s + n > width)"
    "read_runs width (s + n) vs = Inr runs'" "runs = (s, s + n) # runs'"
    by (auto simp: result_simps split: if_splits prod.splits)
  from v(1) have "v = JList [JInt s, JInt n]" by (auto simp: read_run_def split: json.splits list.splits)
  then have "{x. \<exists>s n. JList [JInt s, JInt n] \<in> set (v # vs) \<and> s \<le> x \<and> x < s + n} =
      {s..<s + n} \<union> {x. \<exists>s n. JList [JInt s, JInt n] \<in> set vs \<and> s \<le> x \<and> x < s + n}" by force
  with "2.IH" [OF v(1) refl v(2,3)] v(4) show ?case by simp
qed (simp add: span_points_def)

definition runs_ok :: "int \<Rightarrow> span list \<Rightarrow> bool" where
  "runs_ok width runs \<longleftrightarrow>
     sorted_wrt (\<lambda>p q. snd p \<le> fst q) runs \<and> (\<forall>p \<in> set runs. 0 \<le> fst p \<and> fst p < snd p \<and> snd p \<le> width)"

lemma runs_card:
  "runs_ok width runs \<Longrightarrow> sum_list (map (\<lambda>(s, e). e - s) runs) = int (card (span_points runs))"
proof (induction runs)
  case (Cons r runs)
  obtain s e where r: "r = (s, e)" by force
  have ok: "runs_ok width runs" "s < e" "\<forall>p \<in> set runs. e \<le> fst p" using Cons.prems by (auto simp: runs_ok_def r)
  then have "{s..<e} \<inter> span_points runs = {}" by (fastforce simp: span_points_def)
  then have "card ({s..<e} \<union> span_points runs) = card {s..<e} + card (span_points runs)"
    by (intro card_Un_disjoint) auto
  with Cons.IH [OF ok(1)] ok(2) show ?case by (simp add: r)
qed simp

text \<open>Intervals counted once: those of the whole row, or of its perimeter.\<close>

definition intervals_ok :: "span list \<Rightarrow> bool" where
  "intervals_ok ivs \<longleftrightarrow> sorted_wrt (\<lambda>p q. snd p \<le> fst q) ivs \<and> (\<forall>p \<in> set ivs. fst p \<le> snd p)"

lemma run_outside_card:
  "intervals_ok ivs \<Longrightarrow> merged_ok ms \<Longrightarrow>
     run_outside ms ivs (s, e) = int (card ({s..<e} \<inter> span_points ivs - span_points ms))"
proof (induction ivs)
  case (Cons iv ivs)
  obtain a b where iv: "iv = (a, b)" by force
  have ok: "intervals_ok ivs" "a \<le> b" "\<forall>p \<in> set ivs. b \<le> fst p" using Cons.prems(1) by (auto simp: intervals_ok_def iv)
  let ?x = "{s..<e} \<inter> {a..<b} - span_points ms" and ?y = "{s..<e} \<inter> span_points ivs - span_points ms"
  have later: "x \<in> span_points ivs \<Longrightarrow> b \<le> x" for x using ok(3) by (fastforce simp: span_points_def)
  have "card (?x \<union> ?y) = card ?x + card ?y"
    using later by (intro card_Un_disjoint) force+
  moreover have "{s..<e} \<inter> span_points (iv # ivs) - span_points ms = ?x \<union> ?y" by (auto simp: iv)
  moreover have "(if max s a < min e b then uncovered_length (max s a) (min e b) ms else 0) = int (card ?x)"
  proof -
    have "{max s a..<min e b} - span_points ms = ?x" by auto
    moreover have "?x = {}" if "\<not> max s a < min e b" using that by auto
    ultimately show ?thesis using uncovered_length_card [OF Cons.prems(2), of "max s a" "min e b"] by auto
  qed
  ultimately show ?case using Cons.IH [OF ok(1) Cons.prems(2)] by (simp add: run_outside_def iv Let_def)
qed (simp add: run_outside_def)

lemma row_outside_card:
  assumes "intervals_ok ivs" "merged_ok ms"
  shows "runs_ok width runs \<Longrightarrow> sum_list (map (run_outside ms ivs) runs) =
    int (card (span_points runs \<inter> span_points ivs - span_points ms))"
proof (induction runs)
  case (Cons r runs)
  obtain s e where r: "r = (s, e)" by force
  have ok: "runs_ok width runs" "s < e" "\<forall>p \<in> set runs. e \<le> fst p" using Cons.prems by (auto simp: runs_ok_def r)
  let ?x = "{s..<e} \<inter> span_points ivs - span_points ms" and ?y = "span_points runs \<inter> span_points ivs - span_points ms"
  have later: "x \<in> span_points runs \<Longrightarrow> e \<le> x" for x using ok(3) by (fastforce simp: span_points_def)
  have "card (?x \<union> ?y) = card ?x + card ?y" using later by (intro card_Un_disjoint) force+
  moreover have "span_points (r # runs) \<inter> span_points ivs - span_points ms = ?x \<union> ?y" by (auto simp: r)
  ultimately show ?case using Cons.IH [OF ok(1)] run_outside_card [OF assms, of s e] by (simp add: r)
qed simp

section \<open>A page\<close>

lemma card_rows:
  assumes "\<And>y. finite (f y)"
  shows "int (card {(x, y). 0 \<le> y \<and> y < int n \<and> x \<in> f y}) = sum_list (map (\<lambda>y. int (card (f y))) [0..int n - 1]) \<and>
    finite {(x, y). 0 \<le> y \<and> y < int n \<and> (x :: int) \<in> f y}"
proof (induction n)
  case 0
  have e: "{(x, y). 0 \<le> y \<and> y < int 0 \<and> x \<in> f y} = {}" by auto
  show ?case unfolding e by simp
next
  case (Suc n)
  have split: "{(x, y). 0 \<le> y \<and> y < int (Suc n) \<and> x \<in> f y} =
      {(x, y). 0 \<le> y \<and> y < int n \<and> x \<in> f y} \<union> (\<lambda>x. (x, int n)) ` f (int n)"
    by (auto simp: less_le)
  have "card ((\<lambda>x. (x, int n)) ` f (int n)) = card (f (int n))" by (intro card_image) (auto simp: inj_on_def)
  moreover have "card ({(x, y). 0 \<le> y \<and> y < int n \<and> x \<in> f y} \<union> (\<lambda>x. (x, int n)) ` f (int n)) =
      card {(x, y). 0 \<le> y \<and> y < int n \<and> x \<in> f y} + card ((\<lambda>x. (x, int n)) ` f (int n))"
    using Suc assms by (intro card_Un_disjoint) auto
  moreover have "[0..int (Suc n) - 1] = [0..int n - 1] @ [int n]" by (simp add: upto_rec2)
  ultimately show ?case using Suc assms unfolding split by simp
qed

definition row_pixels :: "json \<Rightarrow> int set" where
  "row_pixels row = {x. \<exists>runs s n. row = JList runs \<and> JList [JInt s, JInt n] \<in> set runs \<and> s \<le> x \<and> x < s + n}"

definition pixels_of_rows :: "json list \<Rightarrow> (int \<times> int) set" where
  "pixels_of_rows rows = {(x, y). 0 \<le> y \<and> y < int (length rows) \<and> x \<in> row_pixels (rows ! nat y)}"

lemma row_ink_outside_card:
  assumes "row_ink_outside width boxes counted (y, row) = Inr (a, b)" "intervals_ok (counted y)"
  shows "a = int (card (row_pixels row)) \<and>
    b = int (card {x \<in> row_pixels row. x \<in> span_points (counted y) \<and> (x, y) \<notin> cover boxes}) \<and>
    finite (row_pixels row) \<and> row_pixels row \<subseteq> {0..<width}"
proof -
  from assms(1) obtain vs runs where row: "row = JList vs" and runs: "read_runs width 0 vs = Inr runs"
    and a: "a = sum_list (map (\<lambda>(s, e). e - s) runs)"
    and b: "b = sum_list (map (run_outside (row_coverage boxes y width) (counted y)) runs)"
    by (auto simp: row_ink_outside_def validated_ink_runs_def result_simps split: json.splits)
  have ok: "runs_ok width runs" using read_runs_ok [OF runs] by (auto simp: runs_ok_def)
  have pts: "row_pixels row = span_points runs"
    using read_runs_points [OF runs] by (auto simp: row_pixels_def row)
  have sub: "span_points runs \<subseteq> {0..<width}" using ok by (fastforce simp: runs_ok_def span_points_def)
  have "span_points runs \<inter> span_points (counted y) - span_points (row_coverage boxes y width) =
      {x \<in> row_pixels row. x \<in> span_points (counted y) \<and> (x, y) \<notin> cover boxes}"
    using sub row_coverage_ok(2) [of _ boxes y width] by (auto simp: pts)
  then show ?thesis
    using runs_card [OF ok] row_outside_card [OF assms(2) row_coverage_ok(1) ok] sub unfolding a b by (auto simp: pts)
qed

lemma ink_outside_card:
  assumes "ink_outside width rows boxes counted = Inr (a, b)" "\<And>y. intervals_ok (counted y)"
  shows "a = int (card (pixels_of_rows rows)) \<and>
    b = int (card {(x, y) \<in> pixels_of_rows rows. x \<in> span_points (counted y) \<and> (x, y) \<notin> cover boxes}) \<and>
    finite (pixels_of_rows rows) \<and> (\<forall>(x, y) \<in> pixels_of_rows rows. 0 \<le> x \<and> x < width)"
proof -
  let ?n = "length rows"
  let ?f = "\<lambda>y. if 0 \<le> y \<and> y < int ?n then row_pixels (rows ! nat y) else {}"
  let ?g = "\<lambda>y. {x \<in> ?f y. x \<in> span_points (counted y) \<and> (x, y) \<notin> cover boxes}"
  from assms(1) obtain rs where rs: "rmap (row_ink_outside width boxes counted) (zip [0..int ?n - 1] rows) = Inr rs"
    and a: "a = sum_list (map fst rs)" and b: "b = sum_list (map snd rs)"
    by (auto simp: ink_outside_def result_simps)
  have len: "length rs = ?n" using rmap_nth [OF rs] by simp
  have row: "rs ! k = (int (card (?f (int k))), int (card (?g (int k)))) \<and> finite (?f (int k)) \<and> ?f (int k) \<subseteq> {0..<width}"
    if "k < ?n" for k
  proof -
    have "row_ink_outside width boxes counted (int k, rows ! k) = Inr (rs ! k)"
      using rmap_nth [OF rs] that by simp
    then have "row_ink_outside width boxes counted (int k, rows ! k) = Inr (fst (rs ! k), snd (rs ! k))" by simp
    from row_ink_outside_card [OF this assms(2)] that show ?thesis by (simp add: prod_eq_iff)
  qed
  have fin: "finite (?f y)" for y
  proof (cases "0 \<le> y \<and> y < int ?n")
    case True
    then have "nat y < ?n" by linarith
    with row [of "nat y"] True show ?thesis by simp
  qed auto
  have nth: "map (\<lambda>y. h y) [0..int ?n - 1] = map (\<lambda>k. h (int k)) [0..<?n]" for h :: "int \<Rightarrow> int"
    by (rule nth_equalityI) simp_all
  have fs: "map fst rs = map (\<lambda>k. int (card (?f (int k)))) [0..<?n]"
    using row len by (intro nth_equalityI) simp_all
  have ss: "map snd rs = map (\<lambda>k. int (card (?g (int k)))) [0..<?n]"
    using row len by (intro nth_equalityI) simp_all
  have pf: "{(x, y). 0 \<le> y \<and> y < int ?n \<and> x \<in> ?f y} = pixels_of_rows rows"
    by (auto simp: pixels_of_rows_def)
  have pg: "{(x, y). 0 \<le> y \<and> y < int ?n \<and> x \<in> ?g y} =
      {(x, y) \<in> pixels_of_rows rows. x \<in> span_points (counted y) \<and> (x, y) \<notin> cover boxes}"
    by (auto simp: pixels_of_rows_def)
  have wd: "\<forall>(x, y) \<in> pixels_of_rows rows. 0 \<le> x \<and> x < width"
  proof (intro ballI, clarify)
    fix x y assume "(x, y) \<in> pixels_of_rows rows"
    then have y: "nat y < ?n" "0 \<le> y" "y < int ?n" "x \<in> row_pixels (rows ! nat y)"
      by (auto simp: pixels_of_rows_def)
    with row [OF y(1)] have "row_pixels (rows ! nat y) \<subseteq> {0..<width}" by simp
    with y(4) show "0 \<le> x \<and> x < width" by auto
  qed
  have fg: "finite (?g y)" for y using fin [of y] by simp
  have cf: "int (card (pixels_of_rows rows)) = a" "finite (pixels_of_rows rows)"
    using card_rows [of ?f ?n, OF fin] unfolding pf nth a fs by blast+
  have "int (card {(x, y) \<in> pixels_of_rows rows. x \<in> span_points (counted y) \<and> (x, y) \<notin> cover boxes}) = b"
    using card_rows [of ?g ?n, OF fg] unfolding pg nth b ss by blast
  with cf wd show ?thesis by simp
qed

section \<open>The retained runs\<close>

text \<open>The pixels a record of retained runs holds.\<close>

definition evidence_pixels :: "json \<Rightarrow> (int \<times> int) set" where
  "evidence_pixels evidence =
     (case evidence of
        JObj kvs \<Rightarrow> (case field kvs ''rows'' of Some (JList rows) \<Rightarrow> pixels_of_rows rows | _ \<Rightarrow> {})
      | _ \<Rightarrow> {})"

lemma evidence_rows:
  "validated_ink_run_evidence v = Inr (w, h, rows) \<Longrightarrow>
     evidence_pixels v = pixels_of_rows rows \<and> 0 < w \<and> 0 < h \<and> int (length rows) = h"
  by (auto simp: validated_ink_run_evidence_def evidence_pixels_def split: json.splits option.splits if_splits)

lemma intervals_whole: "0 \<le> w \<Longrightarrow> intervals_ok [(0, w)]"
  by (simp add: intervals_ok_def)

lemma residual_runs_pixels:
  assumes "residual_ink_from_runs evidence boxes cp = Inr m"
  shows "m = mk_measure (int (card (evidence_pixels evidence)))
    (int (card (evidence_pixels evidence - cover boxes))) cp \<and> finite (evidence_pixels evidence)"
proof -
  from assms obtain w h rows a b where ev: "validated_ink_run_evidence evidence = Inr (w, h, rows)"
    and out: "ink_outside w rows boxes (\<lambda>y. [(0, w)]) = Inr (a, b)" and m: "m = mk_measure a b cp"
    by (auto simp: residual_ink_from_runs_def result_simps)
  note rows = evidence_rows [OF ev]
  have "intervals_ok [(0, w)]" using rows by (intro intervals_whole) simp
  note cards = ink_outside_card [OF out this]
  have "{(x, y) \<in> pixels_of_rows rows. x \<in> span_points [(0, w)] \<and> (x, y) \<notin> cover boxes} =
      pixels_of_rows rows - cover boxes" using cards by auto
  with cards rows show ?thesis by (simp add: m)
qed

text \<open>
  C18. What the ink rule measures over the retained runs is the page's pixels: the total is
  the number of pixels the runs hold, the outside count the number of those in no region,
  and the flag is raised exactly when that count reaches the sealed gates.
\<close>

theorem residual_ink_counts_pixels:
  assumes "residual_ink_from_runs evidence boxes cp = Inr m"
  shows "ik_total m = int (card (evidence_pixels evidence)) \<and>
    ik_outside m = int (card (evidence_pixels evidence - cover boxes)) \<and>
    0 \<le> ik_outside m \<and> ik_outside m \<le> ik_total m \<and>
    (ik_flagged m \<longleftrightarrow> ik_outside m \<ge> cp_substantial cp \<or>
       ik_outside m \<ge> cp_minimum_pixels cp \<and> ik_total m > 0 \<and>
         ik_outside m * BASIS_POINTS \<ge> cp_minimum_fraction_bp cp * ik_total m)"
proof -
  note m = residual_runs_pixels [OF assms]
  have "card (evidence_pixels evidence - cover boxes) \<le> card (evidence_pixels evidence)"
    using m by (intro card_mono) auto
  with m show ?thesis by (simp add: mk_measure_def coverage_flag_def)
qed

definition sample_runs :: json where
  "sample_runs = JObj [(u ''schema'', JStr INK_RUNS_SCHEMA), (u ''width'', JInt 6), (u ''height'', JInt 2),
     (u ''rows'', JList [JList [JList [JInt 0, JInt 2], JList [JInt 4, JInt 1]], JList [JList [JInt 1, JInt 4]]])]"

definition sample_gates :: coverage_policy where
  "sample_gates = \<lparr>cp_substantial = 9, cp_edge_band = 1, cp_spanning_bp = 5000, cp_gap = 3,
     cp_minimum_pixels = 2, cp_minimum_fraction_bp = 200\<rparr>"

theorem residual_ink_counts_pixels_witness:
  "int (card (evidence_pixels sample_runs)) = 7 \<and>
   int (card (evidence_pixels sample_runs - cover [mk_box 0 0 3 2])) = 3"
proof -
  have "residual_ink_from_runs sample_runs [mk_box 0 0 3 2] sample_gates =
      Inr \<lparr>ik_total = 7, ik_outside = 3, ik_flagged = True, ik_substantial = 9\<rparr>" by code_simp
  from residual_ink_counts_pixels [OF this] show ?thesis by simp
qed

section \<open>The page's own pixels\<close>

text \<open>A page: as many rows as it is high, each as long as it is wide, with its mask.\<close>

definition page_rows :: "int \<Rightarrow> int \<Rightarrow> int list list \<Rightarrow> bool list list \<Rightarrow> bool" where
  "page_rows width height rows spanning \<longleftrightarrow>
     0 < width \<and> 0 < height \<and> int (length rows) = height \<and> length spanning = length rows \<and>
     (\<forall>row \<in> set rows. int (length row) = width) \<and> (\<forall>row \<in> set spanning. int (length row) = width)"

definition flag_points :: "bool list \<Rightarrow> int set" where
  "flag_points bs = {x. 0 \<le> x \<and> x < int (length bs) \<and> bs ! nat x}"

lemma flag_points_Cons:
  "flag_points (b # bs) = (if b then {0} else {}) \<union> (\<lambda>x. x + 1) ` flag_points bs"
proof -
  have "x \<in> flag_points (b # bs) \<longleftrightarrow> (x = 0 \<and> b) \<or> x - 1 \<in> flag_points bs" for x
  proof (cases "x \<le> 0")
    case True
    then show ?thesis by (auto simp: flag_points_def)
  next
    case False
    then have "nat x = Suc (nat (x - 1))" by simp
    with False show ?thesis by (auto simp: flag_points_def)
  qed
  moreover have "x \<in> (\<lambda>x. x + 1) ` flag_points bs \<longleftrightarrow> x - 1 \<in> flag_points bs" for x
    by (auto intro: image_eqI [of _ _ "x - 1"])
  ultimately show ?thesis by auto
qed

lemma flag_points_map2:
  "flag_points (map2 (\<lambda>x b. b \<and> \<not> c x) [0..int (length bs) - 1] bs) = {x \<in> flag_points bs. \<not> c x}"
proof -
  have "map2 (\<lambda>x b. b \<and> \<not> c x) [0..int (length bs) - 1] bs ! nat x = (bs ! nat x \<and> \<not> c x)"
    if "0 \<le> x" "x < int (length bs)" for x
  proof -
    from that have "nat x < length bs" by linarith
    with that show ?thesis by simp
  qed
  then show ?thesis by (auto simp: flag_points_def)
qed

lemma finite_flag_points [simp]: "finite (flag_points bs)"
  by (rule finite_subset [of _ "{0..<int (length bs)}"]) (auto simp: flag_points_def)

lemma count_true_card: "count_true bs = int (card (flag_points bs))"
proof (induction bs)
  case Nil
  have "flag_points [] = {}" by (auto simp: flag_points_def)
  then show ?case by (simp add: count_true_def)
next
  case (Cons b bs)
  have "card ((\<lambda>x. x + 1) ` flag_points bs) = card (flag_points bs)" by (intro card_image) simp
  moreover have "(0 :: int) \<notin> (\<lambda>x. x + 1) ` flag_points bs" by (auto simp: flag_points_def)
  ultimately show ?case using Cons by (auto simp: flag_points_Cons count_true_def)
qed

text \<open>The runs of a row of flags: in order, proper and exactly its flags.\<close>

lemma runs_from_ok:
  "sorted_wrt (\<lambda>p q. snd p \<le> fst q) (runs_from k bs) \<and>
   (\<forall>p \<in> set (runs_from k bs). k \<le> fst p \<and> fst p < snd p \<and> snd p \<le> k + int (length bs)) \<and>
   span_points (runs_from k bs) = (\<lambda>x. x + k) ` flag_points bs"
proof (induction k bs rule: runs_from.induct)
  case (1 k)
  show ?case by (simp add: flag_points_def)
next
  case (2 k bs)
  have "(\<lambda>x. x + (k + 1)) ` flag_points bs = (\<lambda>x. x + k) ` (\<lambda>x. x + 1) ` flag_points bs"
    by (simp add: image_image add.assoc add.commute [of 1])
  with 2 show ?case by (fastforce simp: flag_points_Cons)
next
  case (3 k bs)
  define n where "n = length (takeWhile id bs)"
  have nl: "n \<le> length bs" unfolding n_def by (rule length_takeWhile_le)
  note ih = 3 [OF n_def]
  have ones: "\<forall>j < n. bs ! j" unfolding n_def by (metis id_apply nth_mem set_takeWhileD takeWhile_nth)
  have pts: "span_points (runs_from (k + 1 + int n) (drop n bs)) =
      {x. k + 1 + int n \<le> x \<and> x < k + 1 + int (length bs) \<and> bs ! nat (x - k - 1)}"
  proof -
    have "x \<in> (\<lambda>x. x + (k + 1 + int n)) ` flag_points (drop n bs) \<longleftrightarrow>
        k + 1 + int n \<le> x \<and> x < k + 1 + int (length bs) \<and> bs ! nat (x - k - 1)" for x
    proof -
      have "x \<in> (\<lambda>x. x + (k + 1 + int n)) ` flag_points (drop n bs) \<longleftrightarrow>
          x - (k + 1 + int n) \<in> flag_points (drop n bs)"
        by (auto intro: image_eqI [of _ _ "x - (k + 1 + int n)"])
      also have "\<dots> \<longleftrightarrow> k + 1 + int n \<le> x \<and> x < k + 1 + int (length bs) \<and> bs ! (n + nat (x - (k + 1 + int n)))"
        using nl by (auto simp: flag_points_def)
      also have "\<dots> \<longleftrightarrow> k + 1 + int n \<le> x \<and> x < k + 1 + int (length bs) \<and> bs ! nat (x - k - 1)"
      proof -
        have "n + nat (x - (k + 1 + int n)) = nat (x - k - 1)" if "k + 1 + int n \<le> x" using that by linarith
        then show ?thesis by auto
      qed
      finally show ?thesis .
    qed
    then show ?thesis using ih by blast
  qed
  have all: "(\<lambda>x. x + k) ` flag_points (True # bs) =
      {x. k \<le> x \<and> x < k + 1 + int (length bs) \<and> (x = k \<or> bs ! nat (x - k - 1))}"
  proof -
    have "x \<in> (\<lambda>x. x + k) ` flag_points (True # bs) \<longleftrightarrow> x - k \<in> flag_points (True # bs)" for x
      by (auto intro: image_eqI [of _ _ "x - k"])
    moreover have "x - k \<in> flag_points (True # bs) \<longleftrightarrow>
        k \<le> x \<and> x < k + 1 + int (length bs) \<and> (x = k \<or> bs ! nat (x - k - 1))" for x
    proof (cases "x \<le> k")
      case True
      then show ?thesis by (auto simp: flag_points_def)
    next
      case False
      then have "nat (x - k) = Suc (nat (x - k - 1))" by linarith
      with False show ?thesis by (auto simp: flag_points_def)
    qed
    ultimately show ?thesis by blast
  qed
  have "{k..<k + 1 + int n} \<union> {x. k + 1 + int n \<le> x \<and> x < k + 1 + int (length bs) \<and> bs ! nat (x - k - 1)} =
      {x. k \<le> x \<and> x < k + 1 + int (length bs) \<and> (x = k \<or> bs ! nat (x - k - 1))}"
  proof -
    have one: "bs ! nat (x - k - 1)" if "k < x" "x < k + 1 + int n" for x
    proof -
      from that have "nat (x - k - 1) < n" by linarith
      with ones show ?thesis by blast
    qed
    show ?thesis
    proof (intro set_eqI)
      fix x
      show "x \<in> {k..<k + 1 + int n} \<union> {x. k + 1 + int n \<le> x \<and> x < k + 1 + int (length bs) \<and> bs ! nat (x - k - 1)} \<longleftrightarrow>
        x \<in> {x. k \<le> x \<and> x < k + 1 + int (length bs) \<and> (x = k \<or> bs ! nat (x - k - 1))}"
        using one [of x] nl by (cases "x = k"; cases "x < k + 1 + int n") auto
    qed
  qed
  then have "span_points (runs_from k (True # bs)) = (\<lambda>x. x + k) ` flag_points (True # bs)"
    unfolding all by (simp add: Let_def n_def [symmetric] pts)
  moreover have "\<forall>p \<in> set (runs_from (k + 1 + int n) (drop n bs)).
      k + 1 + int n \<le> fst p \<and> fst p < snd p \<and> snd p \<le> k + 1 + int (length bs)" using ih nl by auto
  ultimately show ?case using ih nl by (auto simp: Let_def n_def [symmetric])
qed

text \<open>A row of runs is read back from its record.\<close>

lemma read_runs_encoded:
  "sorted_wrt (\<lambda>p q. snd p \<le> fst q) runs \<Longrightarrow>
     \<forall>p \<in> set runs. e \<le> fst p \<and> fst p < snd p \<and> snd p \<le> width \<Longrightarrow>
     read_runs width e (map (\<lambda>(a, b). JList [JInt a, JInt (b - a)]) runs) = Inr runs"
proof (induction runs arbitrary: e)
  case (Cons r runs)
  obtain a b where r: "r = (a, b)" by force
  have "read_runs width b (map (\<lambda>(a, b). JList [JInt a, JInt (b - a)]) runs) = Inr runs"
    using Cons.prems by (intro Cons.IH) (auto simp: r)
  with Cons.prems show ?case by (simp add: r read_run_def)
qed simp

lemma audited_row_read:
  assumes "int (length bs) = width"
  shows "validated_ink_runs width (JList (map (\<lambda>(a, b). JList [JInt a, JInt (b - a)]) (runs_in_row bs))) =
      Inr (runs_in_row bs)"
    "row_pixels (JList (map (\<lambda>(a, b). JList [JInt a, JInt (b - a)]) (runs_in_row bs))) = flag_points bs"
proof -
  note ok = runs_from_ok [of 0 bs]
  have r: "read_runs width 0 (map (\<lambda>(a, b). JList [JInt a, JInt (b - a)]) (runs_in_row bs)) = Inr (runs_in_row bs)"
    using ok assms by (intro read_runs_encoded) (auto simp: runs_in_row_def)
  then show "validated_ink_runs width (JList (map (\<lambda>(a, b). JList [JInt a, JInt (b - a)]) (runs_in_row bs))) =
      Inr (runs_in_row bs)"
    by (simp add: validated_ink_runs_def)
  have "span_points (runs_in_row bs) = flag_points bs" using ok by (simp add: runs_in_row_def)
  with read_runs_points [OF r]
  show "row_pixels (JList (map (\<lambda>(a, b). JList [JInt a, JInt (b - a)]) (runs_in_row bs))) = flag_points bs"
    by (simp add: row_pixels_def)
qed

lemma clamp_span:
  fixes v w lo hi :: int
  assumes "0 \<le> v" "v < w"
  shows "max 0 (min lo w) \<le> v \<and> v < max (max 0 (min lo w)) (min hi w) \<longleftrightarrow> lo \<le> v \<and> v < hi"
  using assms by linarith

definition audited :: "int list list \<Rightarrow> int \<Rightarrow> bool list list \<Rightarrow> bool list list" where
  "audited rows background spanning = map2 (audited_row background) rows spanning"

text \<open>The audited ink of a page: its ink less its page-spanning component.\<close>

definition audited_pixels :: "int list list \<Rightarrow> int \<Rightarrow> bool list list \<Rightarrow> (int \<times> int) set" where
  "audited_pixels rows background spanning =
     {(x, y). 0 \<le> y \<and> y < int (length rows) \<and> 0 \<le> x \<and> x < int (length (rows ! nat y)) \<and>
        ink_sample background (rows ! nat y ! nat x) \<and> \<not> spanning ! nat y ! nat x}"


lemma audited_length:
  assumes page: "page_rows width height rows spanning"
  shows "length (audited rows background spanning) = length rows"
  using page by (simp add: audited_def page_rows_def)

lemma audited_nth:
  assumes page: "page_rows width height rows spanning" and "k < length rows"
  shows "int (length (audited rows background spanning ! k)) = width"
    "flag_points (audited rows background spanning ! k) =
       {x. 0 \<le> x \<and> x < width \<and> ink_sample background (rows ! k ! nat x) \<and> \<not> spanning ! k ! nat x}"
proof -
  have l: "int (length (rows ! k)) = width" "int (length (spanning ! k)) = width"
    using page assms by (auto simp: page_rows_def)
  have n: "audited rows background spanning ! k = audited_row background (rows ! k) (spanning ! k)"
    using page assms by (simp add: audited_def page_rows_def)
  show w: "int (length (audited rows background spanning ! k)) = width" using l by (simp add: n audited_row_def)
  have "flag_points (audited rows background spanning ! k) =
      {x. 0 \<le> x \<and> x < width \<and> audited_row background (rows ! k) (spanning ! k) ! nat x}"
    unfolding flag_points_def w by (simp add: n)
  also have "\<dots> = {x. 0 \<le> x \<and> x < width \<and> ink_sample background (rows ! k ! nat x) \<and> \<not> spanning ! k ! nat x}"
  proof (intro Collect_cong conj_cong refl)
    fix x assume "0 \<le> x" "x < width"
    then have "nat x < length (rows ! k)" "nat x < length (spanning ! k)" using l by auto
    then show "audited_row background (rows ! k) (spanning ! k) ! nat x =
        (ink_sample background (rows ! k ! nat x) \<and> \<not> spanning ! k ! nat x)"
      by (simp add: audited_row_def)
  qed
  finally show "flag_points (audited rows background spanning ! k) =
       {x. 0 \<le> x \<and> x < width \<and> ink_sample background (rows ! k ! nat x) \<and> \<not> spanning ! k ! nat x}" .
qed

lemma audited_pixels_rows:
  assumes page: "page_rows width height rows spanning"
  shows "audited_pixels rows background spanning =
     {(x, y). 0 \<le> y \<and> y < int (length rows) \<and> x \<in> flag_points (audited rows background spanning ! nat y)}"
proof -
  have "x \<in> flag_points (audited rows background spanning ! nat y) \<longleftrightarrow>
      0 \<le> x \<and> x < int (length (rows ! nat y)) \<and>
        ink_sample background (rows ! nat y ! nat x) \<and> \<not> spanning ! nat y ! nat x"
    if "0 \<le> y" "y < int (length rows)" for x y
  proof -
    from that have "nat y < length rows" by linarith
    moreover from this have "int (length (rows ! nat y)) = width" using page by (simp add: page_rows_def)
    ultimately show ?thesis using audited_nth(2) [OF page] by simp
  qed
  then show ?thesis unfolding audited_pixels_def by auto
qed

text \<open>The sums over the rows of flags count pixels.\<close>

lemma sum_rows:
  assumes "length (bss :: bool list list) = length rows"
  shows "sum_list (map count_true bss) =
    int (card {(x, y). 0 \<le> y \<and> y < int (length rows) \<and> x \<in> flag_points (bss ! nat y)})"
proof -
  let ?f = "\<lambda>y. flag_points (bss ! nat y)"
  have "map count_true bss = map (\<lambda>y. int (card (?f y))) [0..int (length rows) - 1]"
    using assms by (intro nth_equalityI) (simp_all add: count_true_card)
  then show ?thesis using card_rows [of ?f "length rows"] by simp
qed

lemma page_runs_evidence:
  assumes page: "page_rows width height rows spanning"
  shows "validated_ink_run_evidence (audited_runs width height rows background spanning) = Inr (width, height,
     map (\<lambda>bs. JList (map (\<lambda>(a, b). JList [JInt a, JInt (b - a)]) (runs_in_row bs)))
       (audited rows background spanning))"
  using page
  by (simp add: audited_runs_def validated_ink_run_evidence_def field_def keys_are_def page_rows_def
      audited_def zip_map_map map_map comp_def case_prod_unfold insert_commute)

lemma page_runs_pixels:
  assumes page: "page_rows width height rows spanning"
  shows "evidence_pixels (audited_runs width height rows background spanning) = audited_pixels rows background spanning"
proof -
  let ?rows = "map (\<lambda>bs. JList (map (\<lambda>(a, b). JList [JInt a, JInt (b - a)]) (runs_in_row bs)))
      (audited rows background spanning)"
  have "row_pixels (?rows ! nat y) = flag_points (audited rows background spanning ! nat y)"
    if "0 \<le> y" "y < int (length rows)" for y
  proof -
    from that have "nat y < length rows" by linarith
    then show ?thesis using audited_row_read(2) audited_nth(1) [OF page] audited_length [OF page] by simp
  qed
  then have "pixels_of_rows ?rows = audited_pixels rows background spanning"
    unfolding audited_pixels_rows [OF page] pixels_of_rows_def
    using audited_length [OF page, of background] by (simp del: nth_map cong: conj_cong)
  then show ?thesis using evidence_rows [OF page_runs_evidence [OF page, of background]] by simp
qed

lemma page_runs_outside:
  assumes page: "page_rows width height rows spanning"
  shows "\<exists>r. ink_outside width (map (\<lambda>bs. JList (map (\<lambda>(a, b). JList [JInt a, JInt (b - a)]) (runs_in_row bs)))
       (audited rows background spanning)) boxes counted = Inr r"
proof -
  have "\<exists>rs. rmap (row_ink_outside width boxes counted)
      (zip [0..int (length rows) - 1] (map (\<lambda>bs. JList (map (\<lambda>(a, b). JList [JInt a, JInt (b - a)]) (runs_in_row bs)))
       (audited rows background spanning))) = Inr rs"
  proof (rule rmap_total)
    fix yr assume "yr \<in> set (zip [0..int (length rows) - 1]
      (map (\<lambda>bs. JList (map (\<lambda>(a, b). JList [JInt a, JInt (b - a)]) (runs_in_row bs))) (audited rows background spanning)))"
    then obtain y bs where yr: "yr = (y, JList (map (\<lambda>(a, b). JList [JInt a, JInt (b - a)]) (runs_in_row bs)))"
      and "bs \<in> set (audited rows background spanning)"
      by (metis (no_types, lifting) imageE set_map set_zip_rightD surj_pair)
    then have "int (length bs) = width" using audited_nth(1) [OF page] audited_length [OF page] by (metis in_set_conv_nth)
    from audited_row_read(1) [OF this] show "\<exists>r. row_ink_outside width boxes counted yr = Inr r"
      by (simp add: row_ink_outside_def yr)
  qed
  then show ?thesis using audited_length [OF page] by (auto simp: ink_outside_def)
qed

text \<open>The measure over the pixels, as the pixels of two sets.\<close>

lemma residual_counts_pixels:
  assumes page: "page_rows width height rows spanning"
  shows "rc_measure (residual_counts_of width height rows boxes background spanning cp) =
     mk_measure (int (card (audited_pixels rows background spanning)))
       (int (card (audited_pixels rows background spanning - cover boxes))) cp"
proof -
  let ?a = "audited rows background spanning"
  let ?out = "map (\<lambda>(y, row). map2 (\<lambda>x b. b \<and> \<not> covered_at width height boxes y x) [0..int (length row) - 1] row)
      (zip [0..int (length ?a) - 1] ?a)"
  have ol: "length ?out = length rows" using audited_length [OF page] by simp
  have at_out: "flag_points (?out ! nat y) = {x \<in> flag_points (?a ! nat y). (x, y) \<notin> cover boxes}"
    if y: "0 \<le> y" "y < int (length rows)" for y
  proof -
    from y have k: "nat y < length rows" by linarith
    let ?row = "?a ! nat y"
    have row: "?out ! nat y = map2 (\<lambda>x b. b \<and> \<not> covered_at width height boxes y x) [0..int (length ?row) - 1] ?row"
      using k y audited_length [OF page] by simp
    have h: "y < height" using y page by (simp add: page_rows_def)
    have cov: "covered_at width height boxes y x \<longleftrightarrow> (x, y) \<in> cover boxes" if x: "0 \<le> x" "x < width" for x
    proof -
      have "max 0 (min (box_y b) height) \<le> y \<and>
          y < max (max 0 (min (box_y b) height)) (min (box_y b + box_h b) height) \<and>
          max 0 (min (box_x b) width) \<le> x \<and>
          x < max (max 0 (min (box_x b) width)) (min (box_x b + box_w b) width) \<longleftrightarrow> (x, y) \<in> pixels b" for b
        using x y h clamp_span [of x width] clamp_span [of y height] by (auto simp: pixels_def corners_def)
      then show ?thesis by (simp add: covered_at_def cover_def list_ex_iff Let_def)
    qed
    show ?thesis
      using cov audited_nth(1) [OF page k, of background]
      unfolding row flag_points_map2 by (auto simp: flag_points_def)
  qed
  have "{(x, y). 0 \<le> y \<and> y < int (length rows) \<and> x \<in> flag_points (?out ! nat y)} =
      audited_pixels rows background spanning - cover boxes"
    unfolding audited_pixels_rows [OF page] using at_out by auto
  with sum_rows [OF ol] sum_rows [OF audited_length [OF page]] show ?thesis
    by (simp add: residual_counts_of_def Let_def audited_def audited_pixels_rows [OF page, unfolded audited_def])
qed

text \<open>
  C19. The retained runs are a faithful summary of the page: measured over the runs the Ink
  Map retains, the ink outside any regions is what the measure over the page's own pixels
  finds, count for count and gate for gate.
\<close>

theorem runs_measure_the_page:
  assumes "page_rows width height rows spanning"
  shows "residual_ink_from_runs (audited_runs width height rows background spanning) boxes cp =
    Inr (rc_measure (residual_counts_of width height rows boxes background spanning cp))"
proof -
  obtain r where "ink_outside width (map (\<lambda>bs. JList (map (\<lambda>(a, b). JList [JInt a, JInt (b - a)]) (runs_in_row bs)))
       (audited rows background spanning)) boxes (\<lambda>y. [(0, width)]) = Inr r"
    using page_runs_outside [OF assms] by blast
  then obtain m where m: "residual_ink_from_runs (audited_runs width height rows background spanning) boxes cp = Inr m"
    using page_runs_evidence [OF assms, of background] 
    by (auto simp: residual_ink_from_runs_def case_prod_unfold)
  from residual_runs_pixels [OF m] show ?thesis
    using page_runs_pixels [OF assms, of background] residual_counts_pixels [OF assms] m by simp
qed

theorem runs_measure_the_page_witness:
  "residual_ink_from_runs (audited_runs 3 2 [[200, 20, 30], [10, 220, 15]] 210 [[False, False, True], [False, False, False]])
     [mk_box 0 0 1 2] sample_gates =
   Inr (rc_measure (residual_counts_of 3 2 [[200, 20, 30], [10, 220, 15]] [mk_box 0 0 1 2] 210
     [[False, False, True], [False, False, False]] sample_gates))"
  by (rule runs_measure_the_page) (simp add: page_rows_def)

text \<open>
  The perimeter finding over the retained runs is the one the Ink Map took from the page's
  pixels: with nothing read yet the two count the same ink in the same strip.
\<close>

lemma edge_runs_measure:
  assumes "page_rows width height rows spanning" "0 \<le> cp_edge_band cp"
  shows "edge_ink_from_runs (audited_runs width height rows background spanning) [] cp =
    Inr (rc_measure (fst (edge_counts width height rows background spanning cp)),
         snd (edge_counts width height rows background spanning cp))"
proof -
  define band where "band = edge_band width height cp"
  have pos: "0 < width" "0 < height" "int (length rows) = height" using assms(1) by (auto simp: page_rows_def)
  have band: "0 \<le> band" using assms(2) pos by (auto simp: band_def edge_band_def)
  let ?rows = "map (\<lambda>bs. JList (map (\<lambda>(a, b). JList [JInt a, JInt (b - a)]) (runs_in_row bs)))
       (audited rows background spanning)"
  let ?boxes = "if 2 * band \<ge> width \<or> 2 * band \<ge> height then []
    else [mk_box band band (width - 2 * band) (height - 2 * band)]"
  obtain a b where out: "ink_outside width ?rows [] (edge_intervals width height band) = Inr (a, b)"
    using page_runs_outside [OF assms(1)] by (metis surj_pair)
  have "intervals_ok (edge_intervals width height band y)" for y
    using band pos by (simp add: edge_intervals_def intervals_ok_def)
  note cards = ink_outside_card [OF out this]
  have px: "pixels_of_rows ?rows = audited_pixels rows background spanning"
    using evidence_rows [OF page_runs_evidence [OF assms(1), of background]]
      page_runs_pixels [OF assms(1), of background] by simp
  have "x \<in> span_points (edge_intervals width height band y) \<longleftrightarrow> (x, y) \<notin> cover ?boxes"
    if "0 \<le> x" "x < width" "0 \<le> y" "y < height" for x y
    using that band by (auto simp: edge_intervals_def cover_def pixels_def corners_def mk_box_def)
  moreover have "0 \<le> x \<and> x < width \<and> 0 \<le> y \<and> y < height" if "(x, y) \<in> pixels_of_rows ?rows" for x y
    using that cards pos by (auto simp: px audited_pixels_def)
  moreover have "cover [] = {}" by (simp add: cover_def)
  ultimately have "{(x, y) \<in> pixels_of_rows ?rows. x \<in> span_points (edge_intervals width height band y) \<and> (x, y) \<notin> cover []} =
      pixels_of_rows ?rows - cover ?boxes" by blast
  then have "mk_measure a b cp = rc_measure (residual_counts_of width height rows ?boxes background spanning cp)"
    using cards by (simp only: residual_counts_pixels [OF assms(1)] px)
  moreover have "edge_ink_from_runs (audited_runs width height rows background spanning) [] cp =
      Inr (mk_measure a b cp, band)"
    using page_runs_evidence [OF assms(1), of background] out
    unfolding edge_ink_from_runs_def by (simp add: band_def [symmetric] Let_def)
  ultimately show ?thesis by (simp add: edge_counts_def Let_def band_def [symmetric])
qed

end
