(* ===== verification/AccountingFacts.thy ===== *)
theory AccountingFacts
  imports Accounting Validated InkFacts
begin

text \<open>
  What the accounting of a page promises. A rule's status follows from its findings; the
  held and flagged codes of a record are exactly those of the findings of the rules that
  apply; and a page with none of the codes of a defect has not the defect.
\<close>

section \<open>The status of a rule\<close>

definition counted :: "finding \<Rightarrow> bool" where
  "counted f \<longleftrightarrow> finding_code f \<in> set HOLD_CODES \<or> finding_code f \<in> set NOT_MEASURED_CODES"

definition consistent :: "rule \<Rightarrow> bool" where
  "consistent r \<longleftrightarrow>
     (r_status r \<in> {HOLD, NOT_MEASURED} \<and> (\<exists>f \<in> set (r_findings r). counted f)) \<or>
     (r_status r \<in> {PASS, NOT_APPLICABLE} \<and> (\<forall>f \<in> set (r_findings r). \<not> counted f))"

lemma consistent_measured [simp]: "consistent (r\<lparr>r_measured := m\<rparr>) = consistent r"
  by (simp add: consistent_def)

lemma rule_of_findings [simp]: "r_findings (rule_of fs) = fs"
  by (simp add: rule_of_def Let_def)

lemma consistent_rule_of [simp]: "consistent (rule_of fs)"
  by (auto simp: consistent_def rule_of_def Let_def counted_def list_ex_iff)

lemma rule_of_status:
  "r_status (rule_of fs) = PASS \<longleftrightarrow> (\<forall>f \<in> set fs. \<not> counted f)"
  "r_status (rule_of fs) \<in> {HOLD, NOT_MEASURED, PASS}"
  by (auto simp: rule_of_def Let_def counted_def list_ex_iff)

lemma unmeasured_held: "c \<in> set NOT_MEASURED_CODES \<Longrightarrow> c \<in> set HOLD_CODES \<or> c = NO_PARSED_ANSWER"
  by (auto simp: NOT_MEASURED_CODES_def HOLD_CODES_def)

lemma held_codes_set: "c \<in> set (held_codes fs) \<longleftrightarrow> c \<in> set HOLD_CODES \<and> (\<exists>f \<in> set fs. finding_code f = c)"
  by (auto simp: held_codes_def)

lemma flagged_findings [simp]: "r_findings (flagged_status r p) = r_findings r"
  by (simp add: flagged_status_def Let_def)

lemma flagged_held:
  assumes "consistent r" "r_status (flagged_status r p) \<in> {HOLD, NOT_MEASURED}"
  shows "\<exists>f \<in> set (r_findings r). finding_code f = NO_PARSED_ANSWER \<or>
    finding_code f \<in> set HOLD_CODES \<and> finding_code f \<notin> set (flag_codes p)"
proof -
  have st: "r_status r \<in> {HOLD, NOT_MEASURED}"
    using assms(2) by (auto simp: flagged_status_def Let_def split: if_splits)
  then obtain f where f: "f \<in> set (r_findings r)" "counted f"
    using assms(1) by (auto simp: consistent_def)
  show ?thesis
  proof (cases "held_codes (r_findings r) = []")
    case True
    then have "finding_code f \<notin> set HOLD_CODES"
      using f(1) held_codes_set [of "finding_code f" "r_findings r"] by auto
    with f unmeasured_held show ?thesis by (auto simp: counted_def)
  next
    case False
    then have "\<not> set (held_codes (r_findings r)) \<subseteq> set (flag_codes p)"
      using assms(2) st by (auto simp: flagged_status_def Let_def split: if_splits)
    then show ?thesis by (auto simp: held_codes_def)
  qed
qed

lemma flagged_kept:
  assumes "consistent r" "f \<in> set (r_findings r)" "finding_code f \<in> set HOLD_CODES"
    "finding_code f \<notin> set (flag_codes p)"
  shows "r_status (flagged_status r p) \<in> {HOLD, NOT_MEASURED}"
proof -
  have "counted f" using assms(3) by (simp add: counted_def)
  then have st: "r_status r \<in> {HOLD, NOT_MEASURED}" using assms(1,2) by (auto simp: consistent_def)
  have "finding_code f \<in> set (held_codes (r_findings r))" using assms(2,3) by (auto simp: held_codes_set)
  with assms(4) st show ?thesis by (auto simp: flagged_status_def Let_def)
qed

section \<open>The rules of a page\<close>

lemma not_counted [simp]: "\<not> counted NoRecordDetector"
  by (simp add: counted_def HOLD_CODES_def NOT_MEASURED_CODES_def)

lemma consistent_not_applicable:
  "\<forall>f \<in> set fs. \<not> counted f \<Longrightarrow> consistent \<lparr>r_status = NOT_APPLICABLE, r_findings = fs, r_measured = m\<rparr>"
  by (simp add: consistent_def)

lemma detection_rule_consistent: "consistent (detection_rule rows d capped es unboxed)"
  by (cases rows) (simp_all add: detection_rule_def Let_def consistent_not_applicable)

lemma ink_rule_consistent: "ink_rule ink regions = Inr r \<Longrightarrow> consistent r"
  by (auto simp: ink_rule_def result_simps split: option.splits prod.splits if_splits)
    (auto simp: consistent_def)

lemma reask_rule_consistent: "consistent (reask_rule uc c es us p ra)"
  by (auto simp: reask_rule_def Let_def split: option.splits prod.splits) (auto simp: consistent_def)

lemma witness_text_rule_consistent: "consistent (witness_text_rule uc ws us es aside cited p)"
  by (auto simp: witness_text_rule_def Let_def split: prod.splits)

lemma measured_unit_codes:
  assumes "f \<in> set (fst (measured_unit x witness joined_text distinctive scope is_cited c p))"
  shows "finding_code f \<in> {TOO_FEW_DISTINCTIVE_PIECES, WITNESS_SHORT_UNIT_NOT_READ, WITNESS_TEXT_NOT_READ}"
  using assms by (auto simp: measured_unit_def Let_def split: if_splits)

lemma text_units_codes:
  "f \<in> set (fst (text_units texts pbu readings aside cited p us left)) \<Longrightarrow>
     finding_code f \<in> {WITNESS_TEXT_NOT_MEASURED, TOO_FEW_DISTINCTIVE_PIECES, WITNESS_SHORT_UNIT_NOT_READ, WITNESS_TEXT_NOT_READ}"
proof (induction us arbitrary: left)
  case (Cons x xs)
  define i where "i = su_id x"
  define witness where "witness = (case map_of texts i of None \<Rightarrow> [] | Some s \<Rightarrow> s)"
  define scope where "scope = sort (case map_of cited i of Some ns \<Rightarrow> ns | None \<Rightarrow> map fst readings)"
  define joined_text where "joined_text = concat (map (reading_at readings) scope)"
  define step where "step = measured_unit x witness joined_text
    (case map_of pbu i of None \<Rightarrow> [] | Some d \<Rightarrow> d) scope (map_of cited i \<noteq> None)"
  have unfolded: "text_units texts pbu readings aside cited p (x # xs) left =
    (if i \<in> set aside \<or> witness = [] then text_units texts pbu readings aside cited p xs left
     else (case text_coverage witness joined_text p left of
        (Inl why, l) \<Rightarrow> (case text_units texts pbu readings aside cited p xs l of
             (fs, ms) \<Rightarrow> (WitnessTextNotMeasured i why # fs, ms))
      | (Inr c, l) \<Rightarrow> (case step c p of (new, m) \<Rightarrow>
            (case text_units texts pbu readings aside cited p xs l of (fs, ms) \<Rightarrow> (new @ fs, m # ms)))))"
    unfolding step_def joined_text_def scope_def witness_def i_def
    by (simp only: text_units.simps Let_def)
  obtain res l where tc: "text_coverage witness joined_text p left = (res, l)" by (metis surj_pair)
  show ?case
  proof (cases "i \<in> set aside \<or> witness = []")
    case True
    with Cons unfolded show ?thesis by simp
  next
    case False
    obtain fs ms where rest: "text_units texts pbu readings aside cited p xs l = (fs, ms)" by (metis surj_pair)
    have fs: "g \<in> set fs \<Longrightarrow> ?thesis" if "f = g" for g using Cons.IH [of l] rest that by simp
    show ?thesis
    proof (cases res)
      case (Inl why)
      with Cons.prems False tc rest fs show ?thesis unfolding unfolded by auto
    next
      case (Inr c)
      obtain new m where st: "step c p = (new, m)" by (metis surj_pair)
      have "f \<in> set new \<or> f \<in> set fs"
        using Cons.prems False tc rest Inr st unfolding unfolded by auto
      moreover have "?thesis" if "f \<in> set new"
        using measured_unit_codes [of f x witness joined_text] that st unfolding step_def by (metis fst_conv insertI2)
      ultimately show ?thesis using fs by blast
    qed
  qed
qed simp

lemma no_answer_code: "finding_code f = NO_PARSED_ANSWER \<longleftrightarrow> f = NoParsedAnswer"
  by (cases f) simp_all

lemma witness_findings_answered: "NoParsedAnswer \<notin> set (witness_findings ws)"
  by (auto simp: witness_findings_def witness_finding_def split: if_splits)

lemma truncation_answered: "NoParsedAnswer \<notin> set (truncation_finding ft rt e)"
  by (auto simp: truncation_finding_def split: option.splits if_splits)

lemma duplicate_readings_answered:
  "NoParsedAnswer \<notin> set (fst (duplicate_readings e txt distinctive p rs left))"
proof (induction rs arbitrary: left)
  case (Cons nr rs)
  obtain n reading where nr: "nr = (n, reading)" by (metis surj_pair)
  obtain res l where tc: "text_coverage txt reading p left = (res, l)" by (metis surj_pair)
  show ?case using Cons.IH [of l] by (cases res) (auto simp: nr tc split: prod.splits)
qed simp

lemma duplicate_entries_answered: "NoParsedAnswer \<notin> set (duplicate_entries uc formula p readings es left)"
proof (induction es arbitrary: left)
  case (Cons e es)
  show ?case
    using Cons.IH duplicate_readings_answered
    by (auto simp: Let_def split: prod.splits) (metis fst_conv)
qed simp

lemma detection_rule_answered:
  assumes "NoParsedAnswer \<notin> set unboxed"
  shows "NoParsedAnswer \<notin> set (r_findings (detection_rule rows d capped es unboxed))"
proof (cases rows)
  case (Some rs)
  have "NoParsedAnswer \<notin> set (row_findings r)" for r by (auto simp: row_findings_def)
  moreover have "NoParsedAnswer \<notin> set (merged_findings rs es)"
    by (auto simp: merged_findings_def split: if_splits)
  ultimately show ?thesis using assms by (auto simp: Some detection_rule_def Let_def)
qed (simp add: detection_rule_def)

lemma reask_rule_answered: "NoParsedAnswer \<notin> set (r_findings (reask_rule uc c es us p ra))"
  using duplicate_entries_answered
  by (auto simp: reask_rule_def reask_duplicates_def Let_def split: option.splits prod.splits)

lemma witness_text_rule_findings:
  "r_findings (witness_text_rule uc ws us es aside cited p) =
     witness_findings ws @
     fst (text_units (fst (distinctive_pieces uc us (readings_of uc es) (piece_characters p)))
       (snd (distinctive_pieces uc us (readings_of uc es) (piece_characters p))) (readings_of uc es)
       aside cited p us (max_alignment_steps p))"
  by (simp add: witness_text_rule_def Let_def split: prod.splits)

lemma witness_text_rule_answered: "NoParsedAnswer \<notin> set (r_findings (witness_text_rule uc ws us es aside cited p))"
  unfolding witness_text_rule_findings using witness_findings_answered text_units_codes by fastforce

lemma answer_rules_ok:
  assumes "answer_rules uc pg r ft ink p ra = Inr rules"
  shows "map fst rules = RULES \<and> (\<forall>(name, rl) \<in> set rules. consistent rl \<and> NoParsedAnswer \<notin> set (r_findings rl))"
proof -
  obtain iv where "ink_rule ink (concat (map snd (regions_of (pg_entries pg)))) = Inr iv"
    and rules: "rules = projr (answer_rules uc pg r ft ink p ra)"
    using assms by (auto simp: answer_rules_def Let_def result_simps)
  moreover have "NoParsedAnswer \<notin> set (r_findings iv)"
    using calculation(1) by (auto simp: ink_rule_def result_simps split: option.splits prod.splits if_splits)
  moreover have "NoParsedAnswer \<notin> set (unread_line aside regs p d)" for aside regs d
    by (auto simp: unread_line_def split: option.splits if_splits)
  then have "NoParsedAnswer \<notin> set (r_findings (lines_rule ls aside regs p))" for ls aside regs
    by (auto simp: lines_rule_def split: option.splits)
  moreover have "consistent (lines_rule ls aside regs p)" for ls aside regs
    by (auto simp: lines_rule_def split: option.splits)
  moreover have "NoParsedAnswer \<notin> set (unboxed_records pg)" by (auto simp: unboxed_records_def)
  ultimately show ?thesis
    using ink_rule_consistent [of ink "concat (map snd (regions_of (pg_entries pg)))" iv]
      detection_rule_answered [of "unboxed_records pg"] reask_rule_answered witness_text_rule_answered
      truncation_answered witness_findings_answered
    by (auto simp: answer_rules_def Let_def RULES_def incomplete_findings_def placement_rule_def units_rule_def
        reading_findings_def regions_rule_def detection_rule_consistent reask_rule_consistent
        witness_text_rule_consistent split: option.splits if_splits)
qed

lemma no_answer_rules_ok:
  "set (map fst (no_answer_rules pg r ft rt)) = set RULES" "distinct (map fst (no_answer_rules pg r ft rt))"
  "(name, rl) \<in> set (no_answer_rules pg r ft rt) \<Longrightarrow> consistent rl"
  by (auto simp: no_answer_rules_def RULES_def consistent_not_applicable)

section \<open>The record\<close>

text \<open>The rules of a record before the flags, and what the record makes of them.\<close>

definition page_rules ::
  "unicode \<Rightarrow> page \<Rightarrow> reading \<Rightarrow> (int \<times> ustr) list \<Rightarrow> ink_input \<Rightarrow> policy \<Rightarrow> reask option \<Rightarrow>
     (ustr \<times> rule) list result" where
  "page_rules uc pg r ft ink p ra =
     (if pg_answered pg then answer_rules uc pg r ft ink p ra
      else Inr (no_answer_rules pg r ft (case ra of None \<Rightarrow> [] | Some ra \<Rightarrow> ra_truncation ra)))"

lemma page_rules_ok:
  assumes "page_rules uc pg r ft ink p ra = Inr rules"
  shows "set (map fst rules) = set RULES" "distinct (map fst rules)"
    "(name, rl) \<in> set rules \<Longrightarrow> consistent rl"
    "(name, rl) \<in> set rules \<Longrightarrow> NoParsedAnswer \<in> set (r_findings rl) \<Longrightarrow> \<not> pg_answered pg"
proof -
  have "distinct RULES" by (simp add: RULES_def)
  then show "set (map fst rules) = set RULES" "distinct (map fst rules)"
    using assms answer_rules_ok [of uc pg r ft ink p ra rules]
      no_answer_rules_ok(1,2) [of pg r ft "case ra of None \<Rightarrow> [] | Some ra \<Rightarrow> ra_truncation ra"]
    by (cases "pg_answered pg"; simp add: page_rules_def; metis list.set_map)+
  show "consistent rl" if "(name, rl) \<in> set rules"
    using assms that answer_rules_ok [of uc pg r ft ink p ra rules] no_answer_rules_ok(3) [of name rl pg]
    by (auto simp: page_rules_def split: if_splits)
  show "\<not> pg_answered pg" if "(name, rl) \<in> set rules" "NoParsedAnswer \<in> set (r_findings rl)"
    using assms that answer_rules_ok [of uc pg r ft ink p ra rules]
    by (auto simp: page_rules_def split: if_splits)
qed

lemma read_page_answered: "read_page uc feed ws dets r p ra attempt = Inr pg \<Longrightarrow> pg_answered pg = answered_reading r"
  by (auto simp: read_page_def Let_def result_simps split: if_splits option.splits prod.splits)

lemma incomplete_answer:
  "\<not> answered_reading r \<Longrightarrow> \<exists>f \<in> set (incomplete_findings r ps). finding_code f = PAGE_ANSWER_INCOMPLETE"
  by (auto simp: answered_reading_def incomplete_findings_def)

lemma page_accounting_cases:
  assumes "page_accounting uc feed ws dets r ft ink p ra attempt = Inr a"
  obtains pg rules ans n where
    "read_page uc feed ws dets r p ra attempt = Inr pg"
    "page_rules uc pg r ft ink p ra = Inr rules"
    "accounting_record rules (unit_rows_of pg) (line_rows_of pg p) (record_rows_of pg p) p
       (pg_entries pg) (ra \<noteq> None) attempt (page_type_context ans feed n) = Inr a"
  using assms unfolding page_accounting_def Let_def rbind_Inr_iff page_rules_def by blast

lemma sorted_codes_facts [simp]:
  "set (sorted_codes cs) = set cs" "distinct (sorted_codes cs)" "sorted (map code_name (sorted_codes cs))"
  "sorted_codes cs = [] \<longleftrightarrow> cs = []"
  by (auto simp: sorted_codes_def) (metis remdups_eq_nil_iff set_empty set_sort)

lemma rules_where_mem:
  "f \<in> set (rules_where wanted rules) \<longleftrightarrow> (\<exists>(name, r) \<in> set rules. wanted name \<and> f \<in> set (r_findings r))"
  by (force simp: rules_where_def)

text \<open>The codes of the findings of the rules of a record that a wanted set of names holds.\<close>

definition codes_of :: "accounting \<Rightarrow> (ustr \<Rightarrow> bool) \<Rightarrow> code set" where
  "codes_of a wanted = {finding_code f |f. \<exists>(name, r) \<in> set (ac_rules a). wanted name \<and> f \<in> set (r_findings r)}"

lemma codes_ofI [intro]:
  "(name, r) \<in> set (ac_rules a) \<Longrightarrow> w name \<Longrightarrow> f \<in> set (r_findings r) \<Longrightarrow> finding_code f \<in> codes_of a w"
  unfolding codes_of_def by blast

definition applies :: "accounting \<Rightarrow> ustr \<Rightarrow> bool" where
  "applies a name \<longleftrightarrow> name \<notin> set (not_applied (ac_type a))"

lemma accounting_record_facts:
  assumes run: "accounting_record rules us ls rs p es wr attempt typed = Inr a"
    and names: "set (map fst rules) = set RULES" "distinct (map fst rules)"
  shows "ac_type a = typed" "ac_units a = us" "ac_lines a = ls" "ac_records a = rs"
    "map fst (ac_rules a) = RULES"
    "set (ac_rules a) = (\<lambda>(name, r). (name, flagged_status r p)) ` set rules"
    "ac_holds a = sorted_codes (filter (\<lambda>c. c \<notin> set (flag_codes p)) (held_codes (rules_where (applies a) rules)))"
    "ac_flags a = sorted_codes (filter (\<lambda>c. c \<in> set (flag_codes p)) (held_codes (rules_where (applies a) rules)))"
    "ac_recorded a = sorted_codes (filter (\<lambda>c. c \<notin> set (held_codes (rules_where (applies a) rules)))
       (held_codes (rules_where (\<lambda>n. \<not> applies a n) rules)))"
proof -
  show typed: "ac_type a = typed" and "ac_units a = us" "ac_lines a = ls" "ac_records a = rs"
    and ns: "map fst (ac_rules a) = RULES"
    using run by (auto simp: accounting_record_def Let_def result_simps comp_def)
  have "ac_rules a = map (\<lambda>name. (name, flagged_status (the (map_of rules name)) p)) RULES"
    using run by (auto simp: accounting_record_def Let_def result_simps)
  also have "set \<dots> = (\<lambda>name. (name, flagged_status (the (map_of rules name)) p)) ` set (map fst rules)"
    using names(1) by simp
  also have "\<dots> = (\<lambda>(name, r). (name, flagged_status r p)) ` set rules"
    using names(2) by (force simp: image_iff)
  finally show "set (ac_rules a) = (\<lambda>(name, r). (name, flagged_status r p)) ` set rules" .
  define on where "on = applies a"
  have off: "(\<lambda>n. n \<notin> set (not_applied typed)) = on" "(\<lambda>n. n \<in> set (not_applied typed)) = (\<lambda>n. \<not> on n)"
    by (auto simp: on_def applies_def typed)
  show "ac_holds a = sorted_codes (filter (\<lambda>c. c \<notin> set (flag_codes p)) (held_codes (rules_where (applies a) rules)))"
    "ac_flags a = sorted_codes (filter (\<lambda>c. c \<in> set (flag_codes p)) (held_codes (rules_where (applies a) rules)))"
    "ac_recorded a = sorted_codes (filter (\<lambda>c. c \<notin> set (held_codes (rules_where (applies a) rules)))
       (held_codes (rules_where (\<lambda>n. \<not> applies a n) rules)))"
    using run unfolding on_def [symmetric] by (auto simp: accounting_record_def Let_def result_simps off)
qed

text \<open>What a record is made of: the page read, its rules and its codes.\<close>

lemma recorded_page:
  assumes "page_accounting uc feed ws dets r ft ink p ra attempt = Inr a"
  obtains pg rules where
    "read_page uc feed ws dets r p ra attempt = Inr pg"
    "page_rules uc pg r ft ink p ra = Inr rules"
    "ac_units a = unit_rows_of pg" "ac_lines a = line_rows_of pg p" "ac_records a = record_rows_of pg p"
    "map fst (ac_rules a) = RULES"
    "set (ac_rules a) = (\<lambda>(name, r). (name, flagged_status r p)) ` set rules"
    "ac_holds a = sorted_codes (filter (\<lambda>c. c \<notin> set (flag_codes p)) (held_codes (rules_where (applies a) rules)))"
    "ac_flags a = sorted_codes (filter (\<lambda>c. c \<in> set (flag_codes p)) (held_codes (rules_where (applies a) rules)))"
    "ac_recorded a = sorted_codes (filter (\<lambda>c. c \<notin> set (held_codes (rules_where (applies a) rules)))
       (held_codes (rules_where (\<lambda>n. \<not> applies a n) rules)))"
    "\<And>name. name \<noteq> u ''i'' \<Longrightarrow> applies a name"
proof -
  obtain pg rules ans n where
    pg: "read_page uc feed ws dets r p ra attempt = Inr pg"
    and rules: "page_rules uc pg r ft ink p ra = Inr rules"
    and run: "accounting_record rules (unit_rows_of pg) (line_rows_of pg p) (record_rows_of pg p) p
       (pg_entries pg) (ra \<noteq> None) attempt (page_type_context ans feed n) = Inr a"
    using page_accounting_cases [OF assms] .
  note facts = accounting_record_facts [OF run page_rules_ok(1,2) [OF rules]]
  have "name \<noteq> u ''i'' \<Longrightarrow> applies a name" for name
    by (auto simp: applies_def facts(1) not_applied_def page_type_context_def applicability_def Let_def
        RECORD_DETECTOR_RULE_def split: option.splits prod.splits if_splits)
  then show ?thesis by (rule that [OF pg rules facts(2-9)])
qed

text \<open>The held codes of a record are those of its own rules: a flag changes no finding.\<close>

lemma record_codes:
  assumes "page_accounting uc feed ws dets r ft ink p ra attempt = Inr a"
  shows "map fst (ac_rules a) = RULES"
    "c \<in> set (ac_holds a) \<longleftrightarrow> c \<in> set HOLD_CODES \<and> c \<notin> set (flag_codes p) \<and> c \<in> codes_of a (applies a)"
    "c \<in> set (ac_flags a) \<longleftrightarrow> c \<in> set HOLD_CODES \<and> c \<in> set (flag_codes p) \<and> c \<in> codes_of a (applies a)"
    "c \<in> set (ac_recorded a) \<longleftrightarrow> c \<in> set HOLD_CODES \<and> c \<notin> codes_of a (applies a) \<and> c \<in> codes_of a (\<lambda>n. \<not> applies a n)"
    "distinct (ac_holds a) \<and> sorted (map code_name (ac_holds a))"
    "distinct (ac_flags a) \<and> sorted (map code_name (ac_flags a))"
proof -
  obtain pg rules where names: "map fst (ac_rules a) = RULES"
    and rs: "set (ac_rules a) = (\<lambda>(name, r). (name, flagged_status r p)) ` set rules"
    and facts: "ac_holds a = sorted_codes (filter (\<lambda>c. c \<notin> set (flag_codes p)) (held_codes (rules_where (applies a) rules)))"
    "ac_flags a = sorted_codes (filter (\<lambda>c. c \<in> set (flag_codes p)) (held_codes (rules_where (applies a) rules)))"
    "ac_recorded a = sorted_codes (filter (\<lambda>c. c \<notin> set (held_codes (rules_where (applies a) rules)))
       (held_codes (rules_where (\<lambda>n. \<not> applies a n) rules)))"
    by (rule recorded_page [OF assms], rule that)
  have codes: "codes_of a w = finding_code ` set (rules_where w rules)" for w
    by (force simp: codes_of_def rules_where_mem rs image_iff)
  show "map fst (ac_rules a) = RULES" by (rule names)
  show "c \<in> set (ac_holds a) \<longleftrightarrow> c \<in> set HOLD_CODES \<and> c \<notin> set (flag_codes p) \<and> c \<in> codes_of a (applies a)"
    "c \<in> set (ac_flags a) \<longleftrightarrow> c \<in> set HOLD_CODES \<and> c \<in> set (flag_codes p) \<and> c \<in> codes_of a (applies a)"
    "c \<in> set (ac_recorded a) \<longleftrightarrow> c \<in> set HOLD_CODES \<and> c \<notin> codes_of a (applies a) \<and> c \<in> codes_of a (\<lambda>n. \<not> applies a n)"
    unfolding facts codes by (auto simp: held_codes_set image_iff) (metis+)?
  show "distinct (ac_holds a) \<and> sorted (map code_name (ac_holds a))"
    "distinct (ac_flags a) \<and> sorted (map code_name (ac_flags a))"
    unfolding facts by simp_all
qed

text \<open>A rule of a record, with the rule it was before the flags.\<close>

lemma record_rule:
  assumes "page_accounting uc feed ws dets r ft ink p ra attempt = Inr a" "(name, rl) \<in> set (ac_rules a)"
  obtains raw where "rl = flagged_status raw p" "consistent raw"
    "NoParsedAnswer \<in> set (r_findings raw) \<Longrightarrow> PAGE_ANSWER_INCOMPLETE \<in> codes_of a (applies a)"
proof -
  obtain pg rules where pg: "read_page uc feed ws dets r p ra attempt = Inr pg"
    and rules: "page_rules uc pg r ft ink p ra = Inr rules"
    and rs: "set (ac_rules a) = (\<lambda>(name, r). (name, flagged_status r p)) ` set rules"
    and ap: "\<And>name. name \<noteq> u ''i'' \<Longrightarrow> applies a name"
    by (rule recorded_page [OF assms(1)], rule that)
  obtain raw where raw: "(name, raw) \<in> set rules" "rl = flagged_status raw p"
    using assms(2) by (auto simp: rs)
  have "PAGE_ANSWER_INCOMPLETE \<in> codes_of a (applies a)" if "NoParsedAnswer \<in> set (r_findings raw)"
  proof -
    let ?fs = "incomplete_findings r (v_problems (pg_first pg))"
    have un: "\<not> pg_answered pg" using page_rules_ok(4) [OF rules raw(1) that] .
    then have "\<exists>f \<in> set ?fs. finding_code f = PAGE_ANSWER_INCOMPLETE"
      using read_page_answered [OF pg] incomplete_answer by metis
    moreover have "(u ''a'', flagged_status (rule_of ?fs) p) \<in> set (ac_rules a)"
      using rules un by (force simp: rs page_rules_def no_answer_rules_def)
    ultimately show ?thesis using ap [of "u ''a''"] by (force simp: codes_of_def)
  qed
  then show ?thesis using that [OF raw(2) page_rules_ok(3) [OF rules raw(1)]] by blast
qed

text \<open>
  C24. The codes a page is held by are exactly the hold codes of the findings of the rules its
  page type applies, less the sealed review flags; its flags are those the policy flags; what
  a rule switched off found beside them is recorded. Every rule is published, each list once
  and in order. And where the policy does not make an incomplete answer a flag, a page is free of
  holds exactly when no rule that applies holds or was left unmeasured.
\<close>

theorem page_holds_are_its_rules:
  assumes run: "page_accounting uc feed ws dets r ft ink p ra attempt = Inr a"
  shows "map fst (ac_rules a) = RULES \<and>
    (c \<in> set (ac_holds a) \<longleftrightarrow> c \<in> set HOLD_CODES \<and> c \<notin> set (flag_codes p) \<and> c \<in> codes_of a (applies a)) \<and>
    (c \<in> set (ac_flags a) \<longleftrightarrow> c \<in> set HOLD_CODES \<and> c \<in> set (flag_codes p) \<and> c \<in> codes_of a (applies a)) \<and>
    (c \<in> set (ac_recorded a) \<longleftrightarrow>
       c \<in> set HOLD_CODES \<and> c \<notin> codes_of a (applies a) \<and> c \<in> codes_of a (\<lambda>n. \<not> applies a n)) \<and>
    distinct (ac_holds a) \<and> sorted (map code_name (ac_holds a)) \<and>
    distinct (ac_flags a) \<and> sorted (map code_name (ac_flags a)) \<and>
    (PAGE_ANSWER_INCOMPLETE \<notin> set (flag_codes p) \<longrightarrow>
      (ac_holds a = [] \<longleftrightarrow>
        (\<forall>(name, rl) \<in> set (ac_rules a). applies a name \<longrightarrow> r_status rl \<notin> {HOLD, NOT_MEASURED})))"
proof -
  note codes = record_codes [OF run]
  have incomplete: "PAGE_ANSWER_INCOMPLETE \<in> set HOLD_CODES" by (simp add: HOLD_CODES_def)
  have held: "ac_holds a \<noteq> []"
    if "PAGE_ANSWER_INCOMPLETE \<notin> set (flag_codes p)" "(name, rl) \<in> set (ac_rules a)" "applies a name"
      "r_status rl \<in> {HOLD, NOT_MEASURED}" for name rl
  proof -
    note prems = that
    obtain raw where raw: "rl = flagged_status raw p" "consistent raw"
      "NoParsedAnswer \<in> set (r_findings raw) \<longrightarrow> PAGE_ANSWER_INCOMPLETE \<in> codes_of a (applies a)"
      using record_rule [OF run prems(2)] by blast
    obtain f where f: "f \<in> set (r_findings raw)"
      "f = NoParsedAnswer \<or> finding_code f \<in> set HOLD_CODES \<and> finding_code f \<notin> set (flag_codes p)"
      using flagged_held [OF raw(2)] prems(4) by (auto simp: raw(1) no_answer_code)
    have "\<exists>c. c \<in> set (ac_holds a)"
    proof (cases "f = NoParsedAnswer")
      case True
      with f(1) raw(3) that(1) incomplete show ?thesis unfolding codes(2) by blast
    next
      case False
      have "finding_code f \<in> codes_of a (applies a)"
        using prems(2,3) f(1) codes_ofI [of name rl a] by (simp add: raw(1))
      with False f(2) show ?thesis unfolding codes(2) by blast
    qed
    then show ?thesis by auto
  qed
  have free: "ac_holds a = []"
    if none: "\<forall>(name, rl) \<in> set (ac_rules a). applies a name \<longrightarrow> r_status rl \<notin> {HOLD, NOT_MEASURED}"
  proof (rule ccontr)
    assume "ac_holds a \<noteq> []"
    then obtain c where "c \<in> set (ac_holds a)" by (cases "ac_holds a") auto
    then obtain f name rl where f: "(name, rl) \<in> set (ac_rules a)" "applies a name" "f \<in> set (r_findings rl)"
      "finding_code f \<in> set HOLD_CODES" "finding_code f \<notin> set (flag_codes p)"
      unfolding codes(2) by (auto simp: codes_of_def)
    obtain raw where "rl = flagged_status raw p" "consistent raw" using record_rule [OF run f(1)] by metis
    with flagged_kept [of raw f p] f(3-5) have "r_status rl \<in> {HOLD, NOT_MEASURED}" by simp
    with none f(1,2) show False by blast
  qed
  have last: "ac_holds a = [] \<longleftrightarrow>
        (\<forall>(name, rl) \<in> set (ac_rules a). applies a name \<longrightarrow> r_status rl \<notin> {HOLD, NOT_MEASURED})"
    if "PAGE_ANSWER_INCOMPLETE \<notin> set (flag_codes p)"
    using held [OF that] free by blast
  show ?thesis using codes(5,6) last by (intro conjI impI codes(1-4)) simp_all
qed

text \<open>A page to run the accounting on: one witness unit on one detected line, read whole.\<close>

definition small_feed :: feed where
  "small_feed =
     \<lparr>witness_units = u ''boxed'', page_w = 100, page_h = 1000,
      witnesses =
        [\<lparr>wit_letter = u ''A'', wit_chair = None, wit_outcome = Some (u ''read''),
          wit_units = [\<lparr>unit_id = u ''A1'', unit_box_px = box_json 0 0 100 20, unit_box_1000 = JNull,
              unit_label = None, unit_text = u ''Jean Roy''\<rparr>]\<rparr>],
      surya_of = Some
        \<lparr>surya_lines =
           [\<lparr>det_id = u ''L1'', det_box_px = box_json 0 2 100 10, det_box_1000 = JNull, det_label = None\<rparr>],
         surya_blocks = []\<rparr>\<rparr>"

definition small_witnesses :: json where
  "small_witnesses = JList [JObj
     [(u ''letter'', JStr (u ''A'')), (u ''outcome'', JStr (u ''read'')), (u ''blank'', JBool False),
      (u ''units'', JList
        [JObj [(u ''id'', JStr (u ''A1'')), (u ''box_px'', box_json 0 0 100 20), (u ''text'', JStr (u ''Jean Roy''))]])]]"

definition small_detections :: json where
  "small_detections = JObj
     [(u ''surya'', JObj
        [(u ''lines'', JList [JObj [(u ''id'', JStr (u ''L1'')), (u ''box_px'', box_json 0 2 100 10), (u ''ref'', JNull)]]),
         (u ''blocks'', JList [])]),
      (u ''records'', JNull), (u ''record_detector'', JStr (u ''absent'')), (u ''record_census'', JNull)]"

definition small_reading :: reading where
  "small_reading = \<lparr>rd_parse_state = PARSED,
     rd_answer = Some (reask_json [entry_json 1 ''act'' [''A1''] ''Jean Roy''] []),
     rd_finish = Some (u ''stop''), rd_disposition = u ''read''\<rparr>"

definition small_accounting :: "accounting result" where
  "small_accounting = page_accounting ascii small_feed small_witnesses small_detections small_reading
     [(1, u ''complete'')] (Some (Some sample_runs, sample_gates)) sample_policy None 1"

lemma small_accounting_clean:
  obtains a where "page_accounting ascii small_feed small_witnesses small_detections small_reading
     [(1, u ''complete'')] (Some (Some sample_runs, sample_gates)) sample_policy None 1 = Inr a"
    "ac_holds a = []" "ac_flags a = []" "map (r_status \<circ> snd) (ac_rules a) = replicate 8 PASS @ [NOT_APPLICABLE, NOT_APPLICABLE]"
proof -
  have "(case small_accounting of Inl _ \<Rightarrow> False
     | Inr a \<Rightarrow> ac_holds a = [] \<and> ac_flags a = [] \<and>
         map (r_status \<circ> snd) (ac_rules a) = replicate 8 PASS @ [NOT_APPLICABLE, NOT_APPLICABLE])"
    by code_simp
  then show ?thesis using that unfolding small_accounting_def by (auto split: sum.splits)
qed

theorem page_holds_are_its_rules_witness:
  "case small_accounting of Inl _ \<Rightarrow> False
   | Inr a \<Rightarrow> ac_holds a = [] \<and> PAGE_ANSWER_INCOMPLETE \<notin> codes_of a (applies a)"
proof -
  obtain a where run: "page_accounting ascii small_feed small_witnesses small_detections small_reading
     [(1, u ''complete'')] (Some (Some sample_runs, sample_gates)) sample_policy None 1 = Inr a"
    and holds: "ac_holds a = []" by (rule small_accounting_clean)
  have "PAGE_ANSWER_INCOMPLETE \<in> set HOLD_CODES \<and> PAGE_ANSWER_INCOMPLETE \<notin> set (flag_codes sample_policy)"
    by code_simp
  with page_holds_are_its_rules [OF run, of PAGE_ANSWER_INCOMPLETE] holds
  have "PAGE_ANSWER_INCOMPLETE \<notin> codes_of a (applies a)" by simp
  with holds show ?thesis by (simp add: small_accounting_def run)
qed

section \<open>What a code that is absent says\<close>

lemma update_keys: "map_of (AList.update k v d) i \<noteq> None \<longleftrightarrow> i = k \<or> map_of d i \<noteq> None"
  by (simp add: update_conv')

lemma citing_entry:
  "map_of (fold (\<lambda>i d. AList.update i (g i d) d) ids d) i \<noteq> None \<longleftrightarrow> i \<in> set ids \<or> map_of d i \<noteq> None"
proof (induction ids arbitrary: d)
  case (Cons j ids)
  show ?case unfolding fold_simps Cons.IH update_keys by auto
qed simp

lemma citing_fold:
  "map_of (fold (\<lambda>e d. fold (\<lambda>i d. AList.update i (h e i d) d) (ids e) d) es d) i \<noteq> None \<longleftrightarrow>
     (\<exists>e \<in> set es. i \<in> set (ids e)) \<or> map_of d i \<noteq> None"
proof (induction es arbitrary: d)
  case (Cons e es)
  show ?case unfolding fold_simps Cons.IH citing_entry by auto
qed simp

lemma citing_cited: "map_of (citing es) i \<noteq> None \<longleftrightarrow> (\<exists>e \<in> set es. i \<in> set (ent_cited_ids e))"
  unfolding citing_def citing_fold by simp

lemma incomplete_holds: "PAGE_ANSWER_INCOMPLETE \<in> set HOLD_CODES"
  by (simp add: HOLD_CODES_def)

text \<open>The rules of an answered page, and how a finding of one reaches the record.\<close>

lemma answered_rules:
  assumes run: "page_accounting uc feed ws dets r ft ink p ra attempt = Inr a"
    and complete: "PAGE_ANSWER_INCOMPLETE \<notin> set (ac_holds a) \<union> set (ac_flags a)"
  obtains pg rules where
    "read_page uc feed ws dets r p ra attempt = Inr pg" "pg_answered pg"
    "answer_rules uc pg r ft ink p ra = Inr rules"
    "\<And>name raw f. (name, raw) \<in> set rules \<Longrightarrow> name \<noteq> u ''i'' \<Longrightarrow> f \<in> set (r_findings raw) \<Longrightarrow>
       finding_code f \<in> set HOLD_CODES \<Longrightarrow> finding_code f \<in> set (ac_holds a) \<union> set (ac_flags a)"
proof -
  obtain pg rules where pg: "read_page uc feed ws dets r p ra attempt = Inr pg"
    and rules: "page_rules uc pg r ft ink p ra = Inr rules"
    and rs: "set (ac_rules a) = (\<lambda>(name, r). (name, flagged_status r p)) ` set rules"
    and ap: "\<And>name. name \<noteq> u ''i'' \<Longrightarrow> applies a name"
    by (rule recorded_page [OF run], rule that)
  have reach: "finding_code f \<in> set (ac_holds a) \<union> set (ac_flags a)"
    if "(name, raw) \<in> set rules" "name \<noteq> u ''i''" "f \<in> set (r_findings raw)" "finding_code f \<in> set HOLD_CODES"
    for name raw f
  proof -
    have "(name, flagged_status raw p) \<in> set (ac_rules a)" using that(1) by (force simp: rs)
    with that(3) ap [OF that(2)] have "finding_code f \<in> codes_of a (applies a)" by auto
    with that(4) show ?thesis by (auto simp: record_codes(2,3) [OF run])
  qed
  have "pg_answered pg"
  proof (rule ccontr)
    let ?fs = "incomplete_findings r (v_problems (pg_first pg))"
    assume un: "\<not> pg_answered pg"
    then obtain f where f: "f \<in> set ?fs" "finding_code f = PAGE_ANSWER_INCOMPLETE"
      using read_page_answered [OF pg] incomplete_answer by metis
    have mem: "(u ''a'', rule_of ?fs) \<in> set rules"
      using rules un by (auto simp: page_rules_def no_answer_rules_def)
    have "PAGE_ANSWER_INCOMPLETE \<in> set (ac_holds a) \<union> set (ac_flags a)"
      using reach [OF mem, of f] f incomplete_holds by simp
    with complete show False by blast
  qed
  with rules have "answer_rules uc pg r ft ink p ra = Inr rules" by (simp add: page_rules_def)
  with that pg \<open>pg_answered pg\<close> reach show ?thesis by blast
qed

lemma measured_ink:
  assumes "ink_rule ink regions = Inr iv" "UnreadInkNotMeasured \<notin> set (r_findings iv)"
    "\<And>x y s. UnreadInk x y s \<notin> set (r_findings iv)"
  shows "\<exists>runs cp m. ink = Some (Some runs, cp) \<and> residual_ink_from_runs runs regions cp = Inr m \<and> \<not> ik_flagged m"
proof -
  obtain runs cp where ink: "ink = Some (Some runs, cp)"
    using assms(1,2) by (auto simp: ink_rule_def split: option.splits prod.splits)
  with assms(1) obtain m where m: "residual_ink_from_runs runs regions cp = Inr m"
    and iv: "iv = (if ik_flagged m then rule_of [UnreadInk (ik_total m) (ik_outside m) (ik_substantial m)]
                 else \<lparr>r_status = PASS, r_findings = [],
                       r_measured = InkMeasured (ik_total m) (ik_outside m) (ik_substantial m)\<rparr>)"
    by (auto simp: ink_rule_def result_simps)
  then have "\<not> ik_flagged m" using assms(3) [of "ik_total m" "ik_outside m" "ik_substantial m"] by auto
  with ink m show ?thesis by blast
qed

lemma unaccounted_unit:
  assumes "x \<in> set (page_units pg)" "[letter_of (su_id x)] \<in> set (pg_shown pg)"
    "map_of (citing (pg_entries pg)) (su_id x) = None" "su_id x \<notin> set (map fst (pg_set_aside pg))"
  shows "UnaccountedWitnessUnit (su_id x) (su_box x) \<in>
    (\<lambda>(x, r). UnaccountedWitnessUnit (ur_id r) (su_box x)) `
      {y \<in> set (zip (page_units pg) (unit_rows_of pg)). case y of (x, r) \<Rightarrow> ur_disposition r = Unaccounted}"
proof -
  define row where "row = unit_row_of (pg_shown pg) (citing (pg_entries pg)) (map fst (pg_set_aside pg)) x"
  have "(x, row) \<in> set (zip (page_units pg) (unit_rows_of pg))"
    using assms(1) by (auto simp: unit_rows_of_def row_def zip_map2 zip_same_conv_map)
  moreover have "ur_disposition row = Unaccounted" "ur_id row = su_id x"
    using assms by (auto simp: row_def unit_row_of_def Let_def)
  ultimately show ?thesis by force
qed

text \<open>
  C25. A page reading passes only for what it accounts for. Where an answer's incompleteness is
  neither held nor flagged, the reading parsed and ran to its own end; and then each defect
  whose codes are absent is absent: no problem in the answer, every entry placed and read to
  its end (an entry of the re-ask by the re-ask's classification), every unit of a witness shown cited or set aside, every line of the census in a
  region or set aside, no region claimed twice, and the ink measured and within its gates.
  A census, ink or classification that is missing is no absence of a defect.
\<close>

theorem clean_page_is_accounted:
  assumes run: "page_accounting uc feed ws dets r ft ink p ra attempt = Inr a"
    and complete: "PAGE_ANSWER_INCOMPLETE \<notin> set (ac_holds a) \<union> set (ac_flags a)"
  shows "let found = set (ac_holds a) \<union> set (ac_flags a) in
    \<exists>pg. read_page uc feed ws dets r p ra attempt = Inr pg \<and>
      (let aside = map fst (pg_set_aside pg); regions = concat (map snd (regions_of (pg_entries pg))) in
      rd_parse_state r = PARSED \<and> rd_finish r = Some (u ''stop'') \<and>
      (UNKNOWN_ID \<notin> found \<longrightarrow> v_problems (pg_first pg) = []) \<and>
      (READING_UNPLACED \<notin> found \<longrightarrow> (\<forall>e \<in> set (pg_entries pg). ent_region e \<noteq> [])) \<and>
      (UNACCOUNTED_WITNESS_UNIT \<notin> found \<longrightarrow>
        (\<forall>x \<in> set (page_units pg). [letter_of (su_id x)] \<in> set (pg_shown pg) \<longrightarrow>
           (\<exists>e \<in> set (pg_entries pg). su_id x \<in> set (ent_cited_ids e)) \<or> su_id x \<in> set aside)) \<and>
      (found \<inter> {UNREAD_LINE, UNREAD_LINE_NOT_MEASURED} = {} \<longrightarrow>
        (\<exists>ds. dt_lines (pg_detections pg) = Some ds \<and>
          (\<forall>d \<in> set ds. \<forall>b. d_box d = Some b \<longrightarrow>
             (\<exists>i. d_id d = Some i \<and> i \<in> set aside) \<or> is_inside p b regions))) \<and>
      (found \<inter> {UNREAD_INK, UNREAD_INK_NOT_MEASURED} = {} \<longrightarrow>
        (\<exists>runs cp m. ink = Some (Some runs, cp) \<and> residual_ink_from_runs runs regions cp = Inr m \<and> \<not> ik_flagged m)) \<and>
      (found \<inter> {READING_INCOMPLETE, TRUNCATION_NOT_CLASSIFIED} = {} \<longrightarrow>
        (\<forall>e \<in> set (pg_entries pg).
           (if from_reask e then map_of (case ra of None \<Rightarrow> [] | Some ra \<Rightarrow> ra_truncation ra) (reading_number e)
            else map_of ft (ent_n e)) = Some TRUNCATION_COMPLETE)) \<and>
      (DUPLICATE_REGION \<notin> found \<longrightarrow> duplicate_regions (pg_entries pg) p = []))"
proof -
  obtain pg rules where pg: "read_page uc feed ws dets r p ra attempt = Inr pg" "pg_answered pg"
    and rules: "answer_rules uc pg r ft ink p ra = Inr rules"
    and reach: "\<And>name raw f. (name, raw) \<in> set rules \<Longrightarrow> name \<noteq> u ''i'' \<Longrightarrow> f \<in> set (r_findings raw) \<Longrightarrow>
       finding_code f \<in> set HOLD_CODES \<Longrightarrow> finding_code f \<in> set (ac_holds a) \<union> set (ac_flags a)"
    by (rule answered_rules [OF run complete], rule that)
  define found where "found = set (ac_holds a) \<union> set (ac_flags a)"
  define aside where "aside = map fst (pg_set_aside pg)"
  define regions where "regions = concat (map snd (regions_of (pg_entries pg)))"
  obtain iv where iv: "ink_rule ink regions = Inr iv"
    and mem: "(u ''a'', rule_of (incomplete_findings r (v_problems (pg_first pg)))) \<in> set rules"
      "(u ''b'', placement_rule (v_problems (pg_first pg)) (pg_entries pg)) \<in> set rules"
      "(u ''c'', units_rule uc (pg_witnesses pg) (page_units pg) (pg_shown pg) (unit_rows_of pg) (pg_set_aside pg) p) \<in> set rules"
      "(u ''d'', lines_rule (dt_lines (pg_detections pg)) aside regions p) \<in> set rules"
      "(u ''f'', iv) \<in> set rules"
      "(u ''g'', rule_of (reading_findings r (pg_entries pg) ft (case ra of None \<Rightarrow> [] | Some ra \<Rightarrow> ra_truncation ra))) \<in> set rules"
      "(u ''h'', regions_rule (pg_entries pg) (line_rows_of pg p) p) \<in> set rules"
    using rules by (auto simp: answer_rules_def Let_def result_simps aside_def regions_def)
  have absent: "f \<notin> set (r_findings raw)"
    if "(name, raw) \<in> set rules" "name \<noteq> u ''i''" "finding_code f \<notin> found" "finding_code f \<in> set HOLD_CODES"
    for name raw f
    using reach [OF that(1,2)] that(3,4) by (auto simp: found_def)
  note absent' = mem [THEN absent]
  have names: "u ''a'' \<noteq> u ''i''" "u ''b'' \<noteq> u ''i''" "u ''c'' \<noteq> u ''i''" "u ''d'' \<noteq> u ''i''" "u ''f'' \<noteq> u ''i''"
    "u ''g'' \<noteq> u ''i''" "u ''h'' \<noteq> u ''i''" by simp_all
  have no_incomplete: "incomplete_findings r (v_problems (pg_first pg)) = []"
  proof (rule ccontr)
    assume "incomplete_findings r (v_problems (pg_first pg)) \<noteq> []"
    then obtain f where f: "f \<in> set (incomplete_findings r (v_problems (pg_first pg)))"
      by (cases "incomplete_findings r (v_problems (pg_first pg))") auto
    then have "finding_code f = PAGE_ANSWER_INCOMPLETE" by (auto simp: incomplete_findings_def)
    with absent' (1) [OF names(1), of f] f complete incomplete_holds show False by (simp add: found_def)
  qed
  then have stop: "finished_on_stop r" "rd_parse_state r = PARSED"
    and problems: "\<forall>q \<in> set (v_problems (pg_first pg)). problem_rule q \<noteq> ''a''"
    by (auto simp: incomplete_findings_def filter_empty_conv split: if_splits)
  have "v_problems (pg_first pg) = []" if "UNKNOWN_ID \<notin> found"
  proof (rule ccontr)
    assume "v_problems (pg_first pg) \<noteq> []"
    then obtain q where q: "q \<in> set (v_problems (pg_first pg))" by (cases "v_problems (pg_first pg)") auto
    with problems have "problem_code q = ''unknown-id''"
      by (auto simp: problem_rule_def PROBLEM_RULE_def split: if_splits)
    with q have "UnknownIdCited q \<in> set (r_findings (placement_rule (v_problems (pg_first pg)) (pg_entries pg)))"
      by (simp add: placement_rule_def)
    with absent' (2) [OF names(2), of "UnknownIdCited q"] that show False by (simp add: HOLD_CODES_def)
  qed
  moreover have "ent_region e \<noteq> []" if "READING_UNPLACED \<notin> found" "e \<in> set (pg_entries pg)" for e
    using absent' (2) [OF names(2), of "ReadingUnplaced (ent_n e)"] that
    by (auto simp: placement_rule_def HOLD_CODES_def)
  moreover have "(\<exists>e \<in> set (pg_entries pg). su_id x \<in> set (ent_cited_ids e)) \<or> su_id x \<in> set aside"
    if "UNACCOUNTED_WITNESS_UNIT \<notin> found" "x \<in> set (page_units pg)" "[letter_of (su_id x)] \<in> set (pg_shown pg)" for x
    using absent' (3) [OF names(3), of "UnaccountedWitnessUnit (su_id x) (su_box x)"] that
      unaccounted_unit [of x pg] citing_cited [of "pg_entries pg" "su_id x"]
    by (auto simp: units_rule_def HOLD_CODES_def aside_def)
  moreover have "\<exists>ds. dt_lines (pg_detections pg) = Some ds \<and>
      (\<forall>d \<in> set ds. \<forall>b. d_box d = Some b \<longrightarrow> (\<exists>i. d_id d = Some i \<and> i \<in> set aside) \<or> is_inside p b regions)"
    if "found \<inter> {UNREAD_LINE, UNREAD_LINE_NOT_MEASURED} = {}"
  proof (cases "dt_lines (pg_detections pg)")
    case None
    with absent' (4) [OF names(4), of UnreadLineNotMeasured] that show ?thesis
      by (simp add: lines_rule_def HOLD_CODES_def)
  next
    case (Some ds)
    have "(\<exists>i. d_id d = Some i \<and> i \<in> set aside) \<or> is_inside p b regions" if "d \<in> set ds" "d_box d = Some b" for d b
      using absent' (4) [OF names(4), of "UnreadLine \<lparr>lr_id = d_id d, lr_ref = d_ref d, lr_box = b\<rparr>"]
        \<open>found \<inter> _ = {}\<close> that Some
      by (fastforce simp: lines_rule_def unread_line_def HOLD_CODES_def split: option.splits if_splits)
    with Some show ?thesis by blast
  qed
  moreover have "\<exists>runs cp m. ink = Some (Some runs, cp) \<and> residual_ink_from_runs runs regions cp = Inr m \<and> \<not> ik_flagged m"
    if "found \<inter> {UNREAD_INK, UNREAD_INK_NOT_MEASURED} = {}"
  proof -
    have "UnreadInkNotMeasured \<notin> set (r_findings iv)"
      using absent' (5) [OF names(5), of UnreadInkNotMeasured] that by (simp add: HOLD_CODES_def)
    moreover have "UnreadInk x y s \<notin> set (r_findings iv)" for x y s
      using absent' (5) [OF names(5), of "UnreadInk x y s"] that by (simp add: HOLD_CODES_def)
    ultimately show ?thesis using measured_ink [OF iv] by blast
  qed
  moreover have "(if from_reask e then map_of (case ra of None \<Rightarrow> [] | Some ra \<Rightarrow> ra_truncation ra) (reading_number e)
      else map_of ft (ent_n e)) = Some TRUNCATION_COMPLETE" (is "?state = _")
    if "found \<inter> {READING_INCOMPLETE, TRUNCATION_NOT_CLASSIFIED} = {}" "e \<in> set (pg_entries pg)" for e
    using that absent' (6) [OF names(6), of "TruncationNotClassified (ent_n e)"]
      absent' (6) [OF names(6), of "EntryTruncated (ent_n e) (the ?state)"]
    by (cases ?state) (fastforce simp: reading_findings_def truncation_finding_def HOLD_CODES_def split: if_splits)+
  moreover have "duplicate_regions (pg_entries pg) p = []" if "DUPLICATE_REGION \<notin> found"
  proof (rule ccontr)
    assume "duplicate_regions (pg_entries pg) p \<noteq> []"
    then obtain d where "d \<in> set (duplicate_regions (pg_entries pg) p)"
      by (cases "duplicate_regions (pg_entries pg) p") auto
    with absent' (7) [OF names(7), of "DuplicateRegion d"] that show False
      by (simp add: regions_rule_def HOLD_CODES_def)
  qed
  ultimately show ?thesis
    using pg(1) stop unfolding Let_def found_def [symmetric]
    by (intro exI [of _ pg]) (simp add: finished_on_stop_def aside_def [symmetric] regions_def [symmetric])
qed

theorem clean_page_is_accounted_witness:
  "\<exists>pg m. read_page ascii small_feed small_witnesses small_detections small_reading sample_policy None 1 = Inr pg \<and>
     v_problems (pg_first pg) = [] \<and> dt_lines (pg_detections pg) \<noteq> None \<and>
     residual_ink_from_runs sample_runs (concat (map snd (regions_of (pg_entries pg)))) sample_gates = Inr m \<and>
     \<not> ik_flagged m"
proof -
  obtain a where run: "page_accounting ascii small_feed small_witnesses small_detections small_reading
     [(1, u ''complete'')] (Some (Some sample_runs, sample_gates)) sample_policy None 1 = Inr a"
    and free: "ac_holds a = []" "ac_flags a = []" by (rule small_accounting_clean)
  from clean_page_is_accounted [OF run] free show ?thesis by (fastforce simp: Let_def)
qed

end
