(* ===== verification/TextFacts.thy ===== *)
theory TextFacts
  imports AccountingFacts "HOL-Library.Multiset"
begin

section \<open>The text of the witnesses\<close>

lemma dict_of_lookup: "map_of (dict_of kvs) = map_of (rev kvs)"
proof -
  have "map_of (fold (\<lambda>(k, v). AList.update k v) kvs d) = map_of d ++ map_of (rev kvs)" for d
    by (induction kvs arbitrary: d) (auto simp: update_conv' map_add_def fun_eq_iff split: option.splits)
  then show ?thesis by (simp add: dict_of_def)
qed

lemma map_of_rev_distinct: "distinct (map fst kvs) \<Longrightarrow> map_of (rev kvs) = map_of kvs"
proof (induction kvs)
  case (Cons kv kvs)
  then have "fst kv \<notin> dom (map_of kvs)" by (auto simp: dom_map_of_conv_image_fst)
  with Cons show ?case by (cases kv) (auto simp: map_add_def fun_eq_iff domIff split: option.splits)
qed simp

lemma dict_of_distinct: "distinct (map fst kvs) \<Longrightarrow> map_of (dict_of kvs) = map_of kvs"
  by (simp add: dict_of_lookup map_of_rev_distinct)

text \<open>The ids of the sealed units are the letter's numerals, so no two units share an id.\<close>

lemma numbered_ids:
  assumes "numbered_units l raws = Inr us"
  shows "distinct (map su_id us)" "\<forall>i \<in> set (map su_id us). \<exists>n \<ge> 1. i = l @ decimal n"
proof -
  define units where "units = somes (map unit_of raws)"
  have us: "us = sort_key (\<lambda>x. id_key (su_id x)) units"
    and len: "length units = length raws"
    and ids: "set (map su_id units) = set (map (\<lambda>n. l @ decimal n) [1..int (length raws)])"
    using assms by (auto simp: numbered_units_def Let_def units_def split: if_splits)
  have inj: "inj_on (\<lambda>n. l @ decimal n) {1..int (length raws)}"
    by (rule inj_onI) (metis append_same_eq atLeastAtMost_iff digits_value_decimal order_trans zero_le_one same_append_eq)
  have "card (set (map su_id units)) = length raws"
    unfolding ids using card_image [OF inj] by simp
  with len have "distinct (map su_id units)" by (simp add: card_distinct)
  then show "distinct (map su_id us)"
    unfolding us by (metis (no_types) distinct_map distinct_sort set_sort)
  show "\<forall>i \<in> set (map su_id us). \<exists>n \<ge> 1. i = l @ decimal n"
    using ids unfolding us by (auto simp del: set_map) (force simp: set_map)
qed

lemma read_witness_letter:
  assumes "read_witness seen v = Inr w"
  shows "sw_letter w \<notin> set seen" "\<exists>c. sw_letter w = [c]" "distinct (map su_id (sw_units w))"
    "\<forall>i \<in> set (map su_id (sw_units w)). \<exists>n \<ge> 1. i = sw_letter w @ decimal n"
proof -
  obtain l rs us where "numbered_units l rs = Inr us" "capital l" "l \<notin> set seen" "sw_letter w = l" "sw_units w = us"
    using assms by (auto simp: read_witness_def result_simps split: json.splits if_splits option.splits)
  then show "sw_letter w \<notin> set seen" "\<exists>c. sw_letter w = [c]" "distinct (map su_id (sw_units w))"
    "\<forall>i \<in> set (map su_id (sw_units w)). \<exists>n \<ge> 1. i = sw_letter w @ decimal n"
    using numbered_ids by (auto simp: capital_def split: list.splits)
qed

lemma read_sealed_units:
  assumes "read_sealed seen vs = Inr ws"
  shows "set (map sw_letter ws) \<inter> set seen = {} \<and> distinct (map sw_letter ws) \<and>
    distinct (map su_id (concat (map sw_units ws))) \<and>
    (\<forall>w \<in> set ws. \<forall>x \<in> set (sw_units w). \<exists>c n. n \<ge> 1 \<and> sw_letter w = [c] \<and> su_id x = mk_id c n)"
  using assms
proof (induction seen vs arbitrary: ws rule: read_sealed.induct)
  case (2 seen v vs)
  obtain w ws' where w: "read_witness seen v = Inr w" and rest: "read_sealed (sw_letter w # seen) vs = Inr ws'"
    and ws: "ws = w # ws'" using "2.prems" by (auto simp: result_simps)
  note letter = read_witness_letter [OF w]
  note IH = "2.IH" [OF w rest]
  obtain c where c: "sw_letter w = [c]" using letter(2) by blast
  have ids: "\<exists>n. n \<ge> 1 \<and> su_id x = mk_id c n" if "x \<in> set (sw_units w)" for x
    using letter(4) that c by (auto simp: mk_id_def)
  have "su_id x \<noteq> su_id y" if "x \<in> set (sw_units w)" "y \<in> set (concat (map sw_units ws'))" for x y
  proof -
    note prems = that
    obtain w' where w': "w' \<in> set ws'" "y \<in> set (sw_units w')" using prems(2) by auto
    then obtain c' n' where "sw_letter w' = [c']" "su_id y = mk_id c' n'" using IH by blast
    moreover have "sw_letter w' \<noteq> sw_letter w" using IH w'(1) by (force simp: image_iff)
    ultimately show ?thesis using ids [OF prems(1)] c by (auto simp: mk_id_def)
  qed
  then have "distinct (map su_id (concat (map sw_units ws)))"
    using IH letter(3) by (auto simp: ws)
  with IH letter(1) c ids show ?case by (auto simp: ws)
qed simp

lemma page_units_distinct:
  assumes "read_page uc feed ws dets r p ra attempt = Inr pg"
  shows "distinct (map su_id (page_units pg))"
proof -
  obtain shown_letters where "read_witnesses ws feed = Inr (pg_witnesses pg, shown_letters)"
    using assms by (auto simp: read_page_def Let_def result_simps split: if_splits option.splits prod.splits)
  then obtain vs raw where "read_sealed [] vs = Inr raw" "pg_witnesses pg = sort_key sw_letter raw"
    by (auto simp: read_witnesses_def result_simps split: json.splits if_splits)
  with read_sealed_units [of "[]" vs raw] have distinct: "distinct (map su_id (concat (map sw_units raw)))"
    and perm: "mset (pg_witnesses pg) = mset raw"
    by simp_all
  then have "mset (concat (map sw_units (pg_witnesses pg))) = mset (concat (map sw_units raw))"
    by (simp add: mset_concat perm flip: sum_mset_sum_list)
  then have "mset (map su_id (page_units pg)) = mset (map su_id (concat (map sw_units raw)))"
    by (simp add: page_units_def)
  with distinct show ?thesis by (metis mset_eq_imp_distinct_iff)
qed

text \<open>A unit read: what rule (e) asks of the coverage of its text by the readings compared with it.\<close>

definition unit_read :: "policy \<Rightarrow> ustr \<Rightarrow> ustr \<Rightarrow> (ustr \<times> int) list \<Rightarrow> TextCoverage \<Rightarrow> bool" where
  "unit_read p witness joined_text distinctive c \<longleftrightarrow>
     cov_run c \<le> max_unread_characters p \<and> unread_share_bp c \<le> max_unread_share_bp p \<and>
     \<not> (cov_matched c = 0 \<and> cov_unread c > 0 \<and> int (length witness) \<ge> min_block_characters p) \<and>
     (if int (length distinctive) < min_pieces p
      then short_unit_distance_bp witness joined_text c p \<le> max_short_unit_distance_bp p
      else distinctive_share joined_text distinctive c p \<ge> min_distinctive_share_bp p)"

definition TEXT_CODES :: "code set" where
  "TEXT_CODES = {WITNESS_TEXT_NOT_MEASURED, WITNESS_TEXT_NOT_READ, WITNESS_SHORT_UNIT_NOT_READ}"

lemma measured_unit_read:
  assumes "\<forall>f \<in> set (fst (measured_unit x witness joined_text distinctive scope is_cited c p)). finding_code f \<notin> TEXT_CODES"
  shows "unit_read p witness joined_text distinctive c"
proof -
  have "coverage_reasons_of c witness p = [] \<and>
    (if int (length distinctive) < min_pieces p
     then \<not> short_unit_distance_bp witness joined_text c p > max_short_unit_distance_bp p
     else \<not> distinctive_share joined_text distinctive c p < min_distinctive_share_bp p)"
    using assms
    by (cases "int (length distinctive) < min_pieces p")
      (auto simp: measured_unit_def Let_def TEXT_CODES_def split: if_splits)
  then show ?thesis by (auto simp: unit_read_def coverage_reasons_of_def split: if_splits)
qed

text \<open>The readings a unit is compared with: those of the entries citing it, or all of them.\<close>

definition compared_text :: "(int \<times> ustr) list \<Rightarrow> (ustr \<times> int list) list \<Rightarrow> ustr \<Rightarrow> ustr" where
  "compared_text readings cited i =
     concat (map (reading_at readings) (sort (case map_of cited i of Some ns \<Rightarrow> ns | None \<Rightarrow> map fst readings)))"

lemma text_units_read:
  assumes "\<forall>f \<in> set (fst (text_units texts pbu readings aside cited p us left)). finding_code f \<notin> TEXT_CODES"
    "x \<in> set us" "su_id x \<notin> set aside" "map_of texts (su_id x) = Some witness" "witness \<noteq> []"
  shows "\<exists>c l l'. text_coverage witness (compared_text readings cited (su_id x)) p l = (Inr c, l') \<and>
    unit_read p witness (compared_text readings cited (su_id x))
      (case map_of pbu (su_id x) of None \<Rightarrow> [] | Some d \<Rightarrow> d) c"
  using assms(1,2)
proof (induction us arbitrary: left)
  case (Cons y ys)
  define i where "i = su_id y"
  define wit where "wit = (case map_of texts i of None \<Rightarrow> [] | Some s \<Rightarrow> s)"
  define joined_text where "joined_text = compared_text readings cited i"
  define pcs where "pcs = (case map_of pbu i of None \<Rightarrow> [] | Some d \<Rightarrow> d)"
  define step where "step = measured_unit y wit joined_text pcs
    (sort (case map_of cited i of Some ns \<Rightarrow> ns | None \<Rightarrow> map fst readings)) (map_of cited i \<noteq> None)"
  have unfolded: "text_units texts pbu readings aside cited p (y # ys) left =
    (if i \<in> set aside \<or> wit = [] then text_units texts pbu readings aside cited p ys left
     else (case text_coverage wit joined_text p left of
        (Inl why, l) \<Rightarrow> (case text_units texts pbu readings aside cited p ys l of
             (fs, ms) \<Rightarrow> (WitnessTextNotMeasured i why # fs, ms))
      | (Inr c, l) \<Rightarrow> (case step c p of (new, m) \<Rightarrow>
            (case text_units texts pbu readings aside cited p ys l of (fs, ms) \<Rightarrow> (new @ fs, m # ms)))))"
    unfolding step_def joined_text_def pcs_def wit_def i_def compared_text_def
    by (simp only: text_units.simps Let_def)
  obtain res l where tc: "text_coverage wit joined_text p left = (res, l)" by (metis surj_pair)
  show ?case
  proof (cases "i \<in> set aside \<or> wit = []")
    case True
    with assms(3-5) have "x \<noteq> y" by (auto simp: i_def wit_def)
    with Cons.prems True show ?thesis unfolding unfolded by (intro Cons.IH [of left]) auto
  next
    case False
    obtain fs ms where rest: "text_units texts pbu readings aside cited p ys l = (fs, ms)" by (metis surj_pair)
    show ?thesis
    proof (cases res)
      case (Inl why)
      with Cons.prems False tc rest show ?thesis unfolding unfolded by (simp add: TEXT_CODES_def)
    next
      case (Inr c)
      obtain new m where st: "step c p = (new, m)" by (metis surj_pair)
      have clean: "\<forall>f \<in> set new \<union> set fs. finding_code f \<notin> TEXT_CODES"
        using Cons.prems(1) False tc rest Inr st unfolding unfolded by auto
      show ?thesis
      proof (cases "x = y")
        case True
        have "unit_read p wit joined_text pcs c"
          using measured_unit_read clean st unfolding step_def by (metis UnCI fst_conv)
        moreover have "wit = witness" using assms(4) by (simp add: wit_def i_def True [symmetric])
        ultimately show ?thesis
          using tc Inr unfolding joined_text_def pcs_def i_def True [symmetric] by blast
      next
        case False
        with Cons.prems(2) clean rest show ?thesis by (intro Cons.IH [of l]) auto
      qed
    qed
  qed
qed simp

lemma distinctive_texts:
  "fst (distinctive_pieces uc us readings k) = dict_of (map (\<lambda>x. (su_id x, normalized_text uc False (su_text x))) us)"
  by (simp add: distinctive_pieces_def Let_def)

text \<open>
  C26. No sealed witness goes unread. On an answered page where rule (e) left no code of
  its own, every unit of every sealed witness, shown to the model or hidden from it, that
  holds text and is not set aside was measured against the readings of the entries citing
  it (or all readings), and is read there: its longest unread run and its unread share are
  within the sealed bounds, some of it matched, and its distinctive pieces are held, or,
  with too few of them, its text is within the sealed distance.
\<close>

theorem witness_text_is_read:
  assumes run: "page_accounting uc feed ws dets r ft ink p ra attempt = Inr a"
    and clean: "(set (ac_holds a) \<union> set (ac_flags a)) \<inter> insert PAGE_ANSWER_INCOMPLETE TEXT_CODES = {}"
    and unit: "read_page uc feed ws dets r p ra attempt = Inr pg" "x \<in> set (page_units pg)"
      "su_id x \<notin> set (map fst (pg_set_aside pg))" "normalized_text uc False (su_text x) \<noteq> []"
  shows "\<exists>c l l' distinctive.
    text_coverage (normalized_text uc False (su_text x))
      (compared_text (readings_of uc (pg_entries pg)) (citing (pg_entries pg)) (su_id x)) p l = (Inr c, l') \<and>
    map_of (snd (distinctive_pieces uc (page_units pg) (readings_of uc (pg_entries pg)) (piece_characters p)))
      (su_id x) = Some distinctive \<and>
    unit_read p (normalized_text uc False (su_text x))
      (compared_text (readings_of uc (pg_entries pg)) (citing (pg_entries pg)) (su_id x)) distinctive c"
proof -
  have complete: "PAGE_ANSWER_INCOMPLETE \<notin> set (ac_holds a) \<union> set (ac_flags a)" using clean by blast
  obtain pg' rules where pg': "read_page uc feed ws dets r p ra attempt = Inr pg'"
    and rules: "answer_rules uc pg' r ft ink p ra = Inr rules"
    and reach: "\<And>name raw f. (name, raw) \<in> set rules \<Longrightarrow> name \<noteq> u ''i'' \<Longrightarrow> f \<in> set (r_findings raw) \<Longrightarrow>
       finding_code f \<in> set HOLD_CODES \<Longrightarrow> finding_code f \<in> set (ac_holds a) \<union> set (ac_flags a)"
    by (rule answered_rules [OF run complete], rule that)
  have same: "pg' = pg" using pg' unit(1) by simp
  let ?es = "pg_entries pg" and ?aside = "map fst (pg_set_aside pg)" and ?us = "page_units pg"
  let ?rule = "witness_text_rule uc (pg_witnesses pg) ?us ?es ?aside (citing ?es) p"
  have mem: "(u ''e'', ?rule) \<in> set rules"
    using rules by (auto simp: same answer_rules_def Let_def result_simps)
  have "finding_code f \<notin> TEXT_CODES" if "f \<in> set (r_findings ?rule)" for f
  proof
    assume code: "finding_code f \<in> TEXT_CODES"
    then have "finding_code f \<in> set HOLD_CODES" by (auto simp: TEXT_CODES_def HOLD_CODES_def)
    with reach [OF mem _ that] code clean show False by auto
  qed
  moreover define pieces where "pieces = distinctive_pieces uc ?us (readings_of uc ?es) (piece_characters p)"
  ultimately have none: "\<forall>f \<in> set (fst (text_units (fst pieces) (snd pieces) (readings_of uc ?es) ?aside
      (citing ?es) p ?us (max_alignment_steps p))). finding_code f \<notin> TEXT_CODES"
    by (auto simp: witness_text_rule_findings)
  define kvs where "kvs = map (\<lambda>x. (su_id x, normalized_text uc False (su_text x))) ?us"
  have "distinct (map fst kvs)" using page_units_distinct [OF unit(1)] by (simp add: kvs_def comp_def)
  then have lookup: "map_of (fst pieces) (su_id x) = Some (normalized_text uc False (su_text x))"
    using unit(2) by (simp add: pieces_def distinctive_texts kvs_def [symmetric] dict_of_distinct)
      (auto simp: kvs_def)
  have "map_of (snd pieces) (su_id x) \<noteq> None"
    using lookup by (auto simp: pieces_def distinctive_pieces_def Let_def map_of_eq_None_iff dest: map_of_SomeD)
      (force dest: map_of_SomeD)
  then obtain d where d: "map_of (snd pieces) (su_id x) = Some d" by blast
  from text_units_read [OF none unit(2,3) lookup unit(4)] d show ?thesis
    unfolding pieces_def by (simp del: fst_conv)
qed

abbreviation small_page :: "page result" where
  "small_page \<equiv> read_page ascii small_feed small_witnesses small_detections small_reading sample_policy None 1"

lemma small_page_read:
  obtains pg x where "small_page = Inr pg" "page_units pg = [x]" "su_id x = u ''A1''"
    "normalized_text ascii False (su_text x) = u ''jeanroy''" "pg_set_aside pg = []"
    "map ent_n (pg_entries pg) = [1]" "readings_of ascii (pg_entries pg) = [(1, u ''jeanroy'')]"
    "citing (pg_entries pg) = [(u ''A1'', [1])]"
proof -
  have "(case small_page of Inl _ \<Rightarrow> False
     | Inr pg \<Rightarrow> map (\<lambda>x. (su_id x, normalized_text ascii False (su_text x))) (page_units pg) = [(u ''A1'', u ''jeanroy'')] \<and>
         pg_set_aside pg = [] \<and> map ent_n (pg_entries pg) = [1] \<and>
         readings_of ascii (pg_entries pg) = [(1, u ''jeanroy'')] \<and> citing (pg_entries pg) = [(u ''A1'', [1])])"
    by code_simp
  then show ?thesis using that by (auto split: sum.splits)
qed

theorem witness_text_is_read_witness:
  "\<exists>c l l'. text_coverage (u ''jeanroy'') (u ''jeanroy'') sample_policy l = (Inr c, l') \<and>
     cov_run c \<le> max_unread_characters sample_policy"
proof -
  obtain a where run: "page_accounting ascii small_feed small_witnesses small_detections small_reading
     [(1, u ''complete'')] (Some (Some sample_runs, sample_gates)) sample_policy None 1 = Inr a"
    and free: "ac_holds a = []" "ac_flags a = []" by (rule small_accounting_clean)
  obtain pg x where pg: "small_page = Inr pg" and x: "page_units pg = [x]" "su_id x = u ''A1''"
    "normalized_text ascii False (su_text x) = u ''jeanroy''" "pg_set_aside pg = []"
    and read: "readings_of ascii (pg_entries pg) = [(1, u ''jeanroy'')]" "citing (pg_entries pg) = [(u ''A1'', [1])]"
    by (rule small_page_read, rule that)
  have "normalized_text ascii False (su_text x) \<noteq> []" unfolding x(3) by (simp add: u_def)
  moreover have "compared_text [(1, u ''jeanroy'')] [(u ''A1'', [1])] (u ''A1'') = u ''jeanroy''" by code_simp
  ultimately show ?thesis
    using witness_text_is_read [OF run, of pg x] free pg x(1,2,4)
    by (auto simp: x(3) x(2) read unit_read_def)
qed

end
