(* ===== verification/SealedFacts.thy ===== *)
theory SealedFacts
  imports TextFacts
begin

text \<open>
  What the sealed inputs of an accounting hold: a missing input is never a pass, and what the
  feed showed the model is in the census the page is measured against.
\<close>

section \<open>Missing inputs\<close>

lemma not_pass:
  assumes "consistent raw" "\<exists>f \<in> set (r_findings raw). counted f"
  shows "r_status (flagged_status raw p) \<in> {HOLD, NOT_MEASURED, FLAG}"
  using assms by (auto simp: consistent_def flagged_status_def Let_def)

lemma rule_recorded:
  assumes "map fst (ac_rules a) = RULES" "(name, rl) \<in> set (ac_rules a)"
  shows "map_of (ac_rules a) name = Some rl"
  using assms by (intro map_of_is_SomeI) (simp_all add: RULES_def)

lemma missing_counted:
  "counted UnreadLineNotMeasured" "counted UnreadInkNotMeasured" "counted RecordsNotMeasured"
  "counted RecordDetectorCapped" "counted (RecordNotMeasured i ref)" "counted NoParsedAnswer"
  "counted (PageAnswerIncomplete why)" "counted (TruncationNotClassified n)"
  by (simp_all add: counted_def HOLD_CODES_def NOT_MEASURED_CODES_def)

lemma detection_missing:
  assumes "rows = None \<and> detector \<noteq> RECORD_DETECTOR_ABSENT \<or> rows \<noteq> None \<and> (capped \<or> unboxed \<noteq> [])"
    "\<forall>f \<in> set unboxed. counted f"
  shows "\<exists>f \<in> set (r_findings (detection_rule rows detector capped es unboxed)). counted f"
  using assms missing_counted
  by (cases rows; cases unboxed) (auto simp: detection_rule_def Let_def)

text \<open>
  A missing input is never a pass. On an answered page, without a line census rule (d),
  without ink runs rule (f), without the records of a configured detector, at its cap or with
  a record that encloses nothing rule (i), and with an unclassified entry of the first reading
  rule (g), holds, is unmeasured or is a flag; and on a page with no parsed answer rules (d), (f)
  and (i) do too, whatever else was sealed.
\<close>

theorem missing_input_never_passes:
  assumes run: "page_accounting uc feed ws dets r ft ink p ra attempt = Inr a"
    and page: "read_page uc feed ws dets r p ra attempt = Inr pg"
  shows "\<exists>d f g i. map_of (ac_rules a) (u ''d'') = Some d \<and> map_of (ac_rules a) (u ''f'') = Some f \<and>
    map_of (ac_rules a) (u ''g'') = Some g \<and> map_of (ac_rules a) (u ''i'') = Some i \<and>
    (dt_lines (pg_detections pg) = None \<or> \<not> pg_answered pg \<longrightarrow> r_status d \<in> {HOLD, NOT_MEASURED, FLAG}) \<and>
    (ink = None \<or> (\<exists>cp. ink = Some (None, cp)) \<or> \<not> pg_answered pg \<longrightarrow> r_status f \<in> {HOLD, NOT_MEASURED, FLAG}) \<and>
    (pg_answered pg \<and> (\<exists>e \<in> set (pg_entries pg). \<not> from_reask e \<and> map_of ft (ent_n e) = None) \<longrightarrow>
       r_status g \<in> {HOLD, NOT_MEASURED, FLAG}) \<and>
    (dt_records (pg_detections pg) = None \<and> dt_detector (pg_detections pg) \<noteq> RECORD_DETECTOR_ABSENT \<or>
       dt_records (pg_detections pg) \<noteq> None \<and> (dt_capped (pg_detections pg) \<or> unboxed_records pg \<noteq> []) \<or>
       \<not> pg_answered pg \<longrightarrow> r_status i \<in> {HOLD, NOT_MEASURED, FLAG})"
proof -
  obtain pg' rules where page': "read_page uc feed ws dets r p ra attempt = Inr pg'"
    and rules: "page_rules uc pg' r ft ink p ra = Inr rules" and names: "map fst (ac_rules a) = RULES"
    and rs: "set (ac_rules a) = (\<lambda>(name, r). (name, flagged_status r p)) ` set rules"
    by (rule recorded_page [OF run], rule that)
  have same: "pg' = pg" using page page' by simp
  note rules = rules [unfolded same]
  have recorded: "map_of (ac_rules a) name = Some (flagged_status raw p)" if "(name, raw) \<in> set rules" for name raw
    using that rule_recorded [OF names, of name "flagged_status raw p"] by (force simp: rs)
  have fails: "r_status (flagged_status raw p) \<in> {HOLD, NOT_MEASURED, FLAG}"
    if "(name, raw) \<in> set rules" "\<exists>f \<in> set (r_findings raw). counted f" for name raw
    using not_pass [OF page_rules_ok(3) [OF rules that(1)] that(2)] .
  show ?thesis
  proof (cases "pg_answered pg")
    case False
    define raw where "raw = rule_of [NoParsedAnswer]"
    obtain g where mem: "(u ''d'', raw) \<in> set rules" "(u ''f'', raw) \<in> set rules" "(u ''i'', raw) \<in> set rules"
      "(u ''g'', g) \<in> set rules"
      using False rules by (auto simp: page_rules_def no_answer_rules_def raw_def)
    have "r_status (flagged_status raw p) \<in> {HOLD, NOT_MEASURED, FLAG}"
      using fails [OF mem(1)] missing_counted(6) by (simp add: raw_def)
    with False recorded [OF mem(1)] recorded [OF mem(2)] recorded [OF mem(3)] recorded [OF mem(4)]
    show ?thesis by auto
  next
    case True
    define regions where "regions = concat (map snd (regions_of (pg_entries pg)))"
    obtain iv where iv: "ink_rule ink regions = Inr iv"
      and mem: "(u ''d'', lines_rule (dt_lines (pg_detections pg)) (map fst (pg_set_aside pg)) regions p) \<in> set rules"
        "(u ''f'', iv) \<in> set rules"
        "(u ''g'', rule_of (reading_findings r (pg_entries pg) ft (case ra of None \<Rightarrow> [] | Some ra \<Rightarrow> ra_truncation ra))) \<in> set rules"
        "(u ''i'', detection_rule (record_rows_of pg p) (dt_detector (pg_detections pg)) (dt_capped (pg_detections pg))
           (pg_entries pg) (unboxed_records pg)) \<in> set rules"
      using True rules by (auto simp: page_rules_def answer_rules_def Let_def result_simps regions_def)
    have d: "\<exists>f \<in> set (r_findings (lines_rule None (map fst (pg_set_aside pg)) regions p)). counted f"
      using missing_counted(1) by (simp add: lines_rule_def)
    have f: "\<exists>f \<in> set (r_findings iv). counted f" if "ink = None \<or> (\<exists>cp. ink = Some (None, cp))"
      using that iv missing_counted(2) by (auto simp: ink_rule_def)
    have g: "\<exists>f \<in> set (reading_findings r (pg_entries pg) ft rt). counted f"
      if "e \<in> set (pg_entries pg)" "\<not> from_reask e" "map_of ft (ent_n e) = None" for e rt
      using that missing_counted(8) [of "ent_n e"] by (fastforce simp: reading_findings_def truncation_finding_def)
    have unboxed: "\<forall>f \<in> set (unboxed_records pg). counted f"
      by (auto simp: unboxed_records_def missing_counted)
    have rows: "record_rows_of pg p = None \<longleftrightarrow> dt_records (pg_detections pg) = None"
      by (simp add: record_rows_of_def)
    note i = detection_missing [of "record_rows_of pg p" "dt_detector (pg_detections pg)"
      "dt_capped (pg_detections pg)" "unboxed_records pg" "pg_entries pg", unfolded rows, OF _ unboxed]
    have "r_status (flagged_status (lines_rule (dt_lines (pg_detections pg)) (map fst (pg_set_aside pg)) regions p) p)
        \<in> {HOLD, NOT_MEASURED, FLAG}" if "dt_lines (pg_detections pg) = None"
      using fails [OF mem(1)] d that by simp
    moreover have "r_status (flagged_status (rule_of (reading_findings r (pg_entries pg) ft
        (case ra of None \<Rightarrow> [] | Some ra \<Rightarrow> ra_truncation ra))) p) \<in> {HOLD, NOT_MEASURED, FLAG}"
      if "\<exists>e \<in> set (pg_entries pg). \<not> from_reask e \<and> map_of ft (ent_n e) = None"
      using fails [OF mem(3)] g that by (auto simp del: insert_iff)
    ultimately show ?thesis
      using True recorded [OF mem(1)] recorded [OF mem(2)] recorded [OF mem(3)] recorded [OF mem(4)]
        fails [OF mem(2) f] fails [OF mem(4) i]
      by (simp del: insert_iff)
  qed
qed

definition blind_accounting :: "accounting result" where
  "blind_accounting = page_accounting ascii small_feed small_witnesses small_detections small_reading
     [(1, u ''complete'')] None sample_policy None 1"

lemma blind_accounting_runs: "\<exists>a. blind_accounting = Inr a"
proof -
  have "(case blind_accounting of Inl _ \<Rightarrow> False | Inr a \<Rightarrow> True)" by code_simp
  then show ?thesis by (auto split: sum.splits)
qed

theorem missing_input_never_passes_witness:
  "\<exists>a f. page_accounting ascii small_feed small_witnesses small_detections small_reading
     [(1, u ''complete'')] None sample_policy None 1 = Inr a \<and>
     map_of (ac_rules a) (u ''f'') = Some f \<and> r_status f \<in> {HOLD, NOT_MEASURED, FLAG}"
proof -
  obtain a where a: "page_accounting ascii small_feed small_witnesses small_detections small_reading
     [(1, u ''complete'')] None sample_policy None 1 = Inr a"
    using blind_accounting_runs unfolding blind_accounting_def by blast
  obtain pg x where "small_page = Inr pg" "page_units pg = [x]" by (rule small_page_read, rule that)
  then show ?thesis using missing_input_never_passes [OF a, of pg] a by blast
qed

section \<open>The feed against the sealed inputs\<close>

lemma census_item_ok:
  assumes "census_item shown_boxes unboxed seen v = Inr d" "d_id d = Some i"
  shows "map_of shown_boxes i = Some (d_box d)" "i \<notin> set seen"
  using assms by (auto simp: census_item_def result_simps split: json.splits if_splits)

lemma census_items_ok:
  assumes "census_items shown_boxes unboxed seen vs = Inr ds"
  shows "(\<forall>d \<in> set ds. \<forall>i. d_id d = Some i \<longrightarrow> map_of shown_boxes i = Some (d_box d) \<and> i \<notin> set seen) \<and>
    distinct (somes (map d_id ds))"
  using assms
proof (induction shown_boxes unboxed seen vs arbitrary: ds rule: census_items.induct)
  case (2 shown_boxes unboxed seen v vs)
  let ?seen = "\<lambda>d. case d_id d of None \<Rightarrow> seen | Some i \<Rightarrow> i # seen"
  obtain d ds' where d: "census_item shown_boxes unboxed seen v = Inr d"
    and rest: "census_items shown_boxes unboxed (?seen d) vs = Inr ds'" and ds: "ds = d # ds'"
    using "2.prems" by (auto simp: result_simps)
  note IH = "2.IH" [OF d rest]
  have "i \<notin> set (somes (map d_id ds'))" if "d_id d = Some i" for i
    using IH that by (force simp: set_somes)
  moreover have "\<forall>e \<in> set ds'. \<forall>i. d_id e = Some i \<longrightarrow> map_of shown_boxes i = Some (d_box e) \<and> i \<notin> set seen"
    using IH by (auto split: option.splits)
  ultimately show ?case
    using IH census_item_ok [OF d] by (cases "d_id d") (auto simp: ds somes_def)
qed (simp add: somes_def)

lemma census_ok:
  assumes "census items shown_boxes ids unboxed = Inr ds"
  shows "\<forall>d \<in> set ds. \<forall>i. d_id d = Some i \<longrightarrow> map_of shown_boxes i = Some (d_box d)"
    "\<forall>i \<in> set ids. \<exists>d \<in> set ds. d_id d = Some i"
    "distinct (somes (map d_id ds))"
proof -
  obtain raw where raw: "census_items shown_boxes unboxed [] (case items of JList vs \<Rightarrow> vs | _ \<Rightarrow> []) = Inr raw"
    and held: "list_all (\<lambda>i. i \<in> set (somes (map d_id raw))) ids" and ds: "ds = sort_key ref_key raw"
    using assms by (auto simp: census_def result_simps split: json.splits if_splits)
  note ok = census_items_ok [OF raw]
  show "\<forall>d \<in> set ds. \<forall>i. d_id d = Some i \<longrightarrow> map_of shown_boxes i = Some (d_box d)" using ok by (simp add: ds)
  show "\<forall>i \<in> set ids. \<exists>d \<in> set ds. d_id d = Some i"
    using held by (auto simp: ds list_all_iff set_somes) (metis image_iff)
  have "mset (map d_id ds) = mset (map d_id raw)" by (simp add: ds)
  then have "mset (somes (map d_id ds)) = mset (somes (map d_id raw))"
    by (simp add: somes_def mset_concat flip: sum_mset_sum_list) (metis image_mset.compositionality mset_map)
  with ok show "distinct (somes (map d_id ds))" by (metis mset_eq_imp_distinct_iff)
qed

lemma shown_lines:
  assumes "shown_detections feed = Inr boxes" "surya_of feed = Some s" "l \<in> set (surya_lines s)"
    "distinct (map det_id (surya_lines s @ surya_blocks s))"
  shows "\<exists>b. map_of boxes (det_id l) = Some (Some b) \<and> read_box (det_box_px l) = Inr b"
proof -
  have ok: "list_all2 (\<lambda>d y. rbind (read_box (det_box_px d)) (\<lambda>b. Inr (det_id d, Some b)) = Inr y)
      (surya_lines s @ surya_blocks s) boxes"
    using assms(1,2) by (simp add: shown_detections_def rmap_Inr_iff)
  then have "map fst boxes = map det_id (surya_lines s @ surya_blocks s)"
    by (induction rule: list_all2_induct) (auto simp: result_simps)
  with assms(4) have "distinct (map fst boxes)" by simp
  moreover have "l \<in> set (surya_lines s @ surya_blocks s)" using assms(3) by simp
  then obtain k where k: "k < length (surya_lines s @ surya_blocks s)" "l = (surya_lines s @ surya_blocks s) ! k"
    by (metis in_set_conv_nth)
  from list_all2_nthD [OF ok k(1)] k(2)
  have "\<exists>b. read_box (det_box_px l) = Inr b \<and> (det_id l, Some b) = boxes ! k"
    by (auto simp: result_simps)
  then obtain b where "boxes ! k = (det_id l, Some b)" "read_box (det_box_px l) = Inr b"
    by metis
  moreover from this(1) have "(det_id l, Some b) \<in> set boxes"
    using list_all2_lengthD [OF ok] k(1) by (metis nth_mem)
  ultimately show ?thesis by (metis map_of_is_SomeI)
qed

lemma read_page_inputs:
  assumes "read_page uc feed ws dets r p ra attempt = Inr pg"
  obtains cands where "feed_candidates uc feed p = Inr cands" "read_detections dets feed = Inr (pg_detections pg)"
    "read_witnesses ws feed = Inr (pg_witnesses pg, pg_shown pg)"
  using assms by (auto simp: read_page_def Let_def result_simps split: if_splits option.splits prod.splits)

text \<open>
  C27. The page is measured against everything the model was shown: every line of the feed is
  in the sealed census with its box, once, and every witness of the feed is sealed with the
  same outcome and exactly the same units, each letter sealed once. What the feed hides is
  measured too; what it shows cannot be missing.
\<close>

theorem sealed_inputs_hold_the_feed:
  assumes page: "read_page uc feed ws dets r p ra attempt = Inr pg"
  shows "(\<forall>s l. surya_of feed = Some s \<longrightarrow> l \<in> set (surya_lines s) \<longrightarrow>
      (\<exists>ds d b. dt_lines (pg_detections pg) = Some ds \<and> distinct (somes (map d_id ds)) \<and> d \<in> set ds \<and>
         d_id d = Some (det_id l) \<and> d_box d = Some b \<and> read_box (det_box_px l) = Inr b)) \<and>
    (\<forall>w \<in> set (witnesses feed). \<exists>s \<in> set (pg_witnesses pg). sw_letter s = wit_letter w \<and>
      sw_outcome s = (case wit_outcome w of None \<Rightarrow> JNull | Some o' \<Rightarrow> JStr o') \<and>
      (\<lambda>x. (unit_id x, read_box_option (unit_box_px x), unit_text x)) ` set (wit_units w) =
      (\<lambda>x. (su_id x, Inr (su_box x), su_text x)) ` set (sw_units s)) \<and>
    distinct (map sw_letter (pg_witnesses pg)) \<and> distinct (map su_id (page_units pg))"
proof (intro conjI allI impI ballI)
  obtain cands where cands: "feed_candidates uc feed p = Inr cands"
    and dets: "read_detections dets feed = Inr (pg_detections pg)"
    and wits: "read_witnesses ws feed = Inr (pg_witnesses pg, pg_shown pg)"
    using read_page_inputs [OF page] .
  fix s l assume s: "surya_of feed = Some s" "l \<in> set (surya_lines s)"
  have "check_feed_ids [] (map item_id (feed_items feed)) = Inr ()"
    using cands by (auto simp: feed_candidates_def result_simps)
  from check_feed_ids_ok [OF this] have distinct: "distinct (map det_id (surya_lines s @ surya_blocks s))"
    by (simp add: feed_items_def s(1) comp_def)
  obtain sv where "read_surya_census sv feed = Inr (dt_lines (pg_detections pg))"
    using dets by (auto simp: read_detections_def result_simps split: json.splits if_splits option.splits prod.splits)
      (metis detections.select_convs(1))+
  then obtain boxes ls ds where boxes: "shown_detections feed = Inr boxes"
    and census: "census ls boxes (map det_id (surya_lines s)) False = Inr ds"
    and ds: "Some ds = dt_lines (pg_detections pg)"
    using s by (cases sv) (auto simp: read_surya_census_def Let_def result_simps split: if_splits)
  obtain b where b: "map_of boxes (det_id l) = Some (Some b)" "read_box (det_box_px l) = Inr b"
    using shown_lines [OF boxes s distinct] by blast
  obtain d where d: "d \<in> set ds" "d_id d = Some (det_id l)" using census_ok(2) [OF census] s(2) by auto
  with b census_ok(1) [OF census] have "d_box d = Some b" by simp
  with d b ds [symmetric] census_ok(3) [OF census]
  show "\<exists>ds d b. dt_lines (pg_detections pg) = Some ds \<and> distinct (somes (map d_id ds)) \<and> d \<in> set ds \<and>
         d_id d = Some (det_id l) \<and> d_box d = Some b \<and> read_box (det_box_px l) = Inr b" by blast
next
  obtain cands where wits: "read_witnesses ws feed = Inr (pg_witnesses pg, pg_shown pg)"
    using read_page_inputs [OF page] .
  then obtain vs raw where raw: "read_sealed [] vs = Inr raw" "pg_witnesses pg = sort_key sw_letter raw"
    and shown: "list_all (\<lambda>w. case sealed_of raw (wit_letter w) of None \<Rightarrow> False | Some s \<Rightarrow> shown_matches w s) (witnesses feed)"
    by (auto simp: read_witnesses_def result_simps split: json.splits if_splits)
  have "distinct (map sw_letter raw)" using read_sealed_units [OF raw(1)] by simp
  moreover have "mset (map sw_letter (pg_witnesses pg)) = mset (map sw_letter raw)" by (simp add: raw(2))
  ultimately show "distinct (map sw_letter (pg_witnesses pg))" by (metis mset_eq_imp_distinct_iff)
  fix w assume "w \<in> set (witnesses feed)"
  then obtain s where s: "sealed_of raw (wit_letter w) = Some s" "shown_matches w s"
    using shown by (auto simp: list_all_iff split: option.splits)
  have "s \<in> set (pg_witnesses pg)" "sw_letter s = wit_letter w"
    using s(1) by (auto simp: sealed_of_def raw(2) find_Some_iff)
  moreover have "(\<lambda>x. (unit_id x, read_box_option (unit_box_px x), unit_text x)) ` set (wit_units w) =
      (\<lambda>x. (su_id x, Inr (su_box x), su_text x)) ` set (sw_units s)"
    using arg_cong [OF conjunct2 [OF s(2) [unfolded shown_matches_def]], of set] by simp
  ultimately show "\<exists>s \<in> set (pg_witnesses pg). sw_letter s = wit_letter w \<and>
      sw_outcome s = (case wit_outcome w of None \<Rightarrow> JNull | Some o' \<Rightarrow> JStr o') \<and>
      (\<lambda>x. (unit_id x, read_box_option (unit_box_px x), unit_text x)) ` set (wit_units w) =
      (\<lambda>x. (su_id x, Inr (su_box x), su_text x)) ` set (sw_units s)"
    using s(2) by (auto simp: shown_matches_def)
next
  show "distinct (map su_id (page_units pg))" using page_units_distinct [OF page] .
qed

theorem sealed_inputs_hold_the_feed_witness:
  "\<exists>pg ds d. small_page = Inr pg \<and> dt_lines (pg_detections pg) = Some ds \<and> d \<in> set ds \<and>
     d_id d = Some (u ''L1'') \<and> d_box d = Some (mk_box 0 2 100 10)"
proof -
  obtain pg x where pg: "small_page = Inr pg" "page_units pg = [x]" by (rule small_page_read, rule that)
  define l where "l = \<lparr>det_id = u ''L1'', det_box_px = box_json 0 2 100 10, det_box_1000 = JNull, det_label = None\<rparr>"
  obtain s where s: "surya_of small_feed = Some s" "l \<in> set (surya_lines s)"
    by (simp add: small_feed_def l_def)
  obtain ds d b where
    "dt_lines (pg_detections pg) = Some ds" "d \<in> set ds" "d_id d = Some (det_id l)" "d_box d = Some b"
    "read_box (det_box_px l) = Inr b"
    using conjunct1 [OF sealed_inputs_hold_the_feed [OF pg(1)], rule_format, OF s] by blast
  moreover have "read_box (box_json 0 2 100 10) = Inr (mk_box 0 2 100 10)" by code_simp
  ultimately show ?thesis using pg(1) by (auto simp: l_def)
qed

end
