(* ===== verification/UnionFind.thy ===== *)
theory UnionFind
  imports Prelude "HOL-Library.Monad_Syntax"
begin

text \<open>
  The union-find of \<open>label_component_runs\<close>, \<open>common/components.py\<close>: \<open>find\<close> with its path
  halving and \<open>union\<close>, on the list of parents. The loop of \<open>find\<close> follows parents, so on a
  list with a cycle it would not end: it is an option, \<open>None\<close> for not returning, and that it
  always returns is a theorem. What a client may rely on is the locale \<open>partition\<close>.
\<close>

section \<open>The operations\<close>

text \<open>The root found and the parents as the halving left them.\<close>

partial_function (option) find_root :: "nat list \<Rightarrow> nat \<Rightarrow> (nat \<times> nat list) option" where
  "find_root parent index =
     (if parent ! index = index then Some (index, parent)
      else let parent' = parent[index := parent ! (parent ! index)] in find_root parent' (parent' ! index))"

declare find_root.simps [code]

definition union_roots :: "nat list \<Rightarrow> nat \<Rightarrow> nat \<Rightarrow> nat list option" where
  "union_roots parent left right =
     do {
       (left_root, parent) \<leftarrow> find_root parent left;
       (right_root, parent) \<leftarrow> find_root parent right;
       Some (if left_root \<noteq> right_root then parent[right_root := left_root] else parent)
     }"

text \<open>A loop whose body changes a state and may not return.\<close>

fun fold_option :: "('s \<Rightarrow> 'p \<Rightarrow> 's option) \<Rightarrow> 's \<Rightarrow> 'p list \<Rightarrow> 's option" where
  "fold_option f s [] = Some s"
| "fold_option f s (p # ps) = do { s \<leftarrow> f s p; fold_option f s ps }"

definition union_pairs :: "nat list \<Rightarrow> (nat \<times> nat) list \<Rightarrow> nat list option" where
  "union_pairs parent pairs = fold_option (\<lambda>parent (left, right). union_roots parent left right) parent pairs"

section \<open>A partition that is only ever joined\<close>

text \<open>
  The interface: a state stands for an equivalence on the first \<open>n\<close> numbers, and joining two
  of them always returns and merges their two classes, nothing else.
\<close>

locale partition =
  fixes same :: "'s \<Rightarrow> nat \<Rightarrow> nat \<Rightarrow> bool"
    and join :: "'s \<Rightarrow> nat \<times> nat \<Rightarrow> 's option"
    and valid :: "nat \<Rightarrow> 's \<Rightarrow> bool"
  assumes refl: "valid n s \<Longrightarrow> i < n \<Longrightarrow> same s i i"
    and sym: "valid n s \<Longrightarrow> same s i j \<Longrightarrow> same s j i"
    and trans: "valid n s \<Longrightarrow> same s i j \<Longrightarrow> same s j k \<Longrightarrow> same s i k"
    and joined: "valid n s \<Longrightarrow> i < n \<Longrightarrow> j < n \<Longrightarrow>
      \<exists>s'. join s (i, j) = Some s' \<and> valid n s' \<and>
        (\<forall>a < n. \<forall>b < n. same s' a b \<longleftrightarrow>
           same s a b \<or> same s a i \<and> same s j b \<or> same s a j \<and> same s i b)"
begin

text \<open>Joining pair after pair builds the least equivalence that holds the pairs.\<close>

lemma fold_joined:
  assumes "valid n s" "\<forall>(i, j) \<in> set ps. i < n \<and> j < n"
  shows "\<exists>s'. fold_option join s ps = Some s' \<and> valid n s' \<and>
    (\<forall>a < n. \<forall>b < n. same s' a b \<longleftrightarrow>
       (a, b) \<in> ({(a, b). a < n \<and> b < n \<and> same s a b} \<union> set ps \<union> (set ps)\<inverse>)\<^sup>*)"
  using assms
proof (induction ps arbitrary: s)
  case Nil
  have "(a, b) \<in> {(a, b). a < n \<and> b < n \<and> same s a b}\<^sup>* \<Longrightarrow> a < n \<Longrightarrow> same s a b" for a b
    by (induction rule: rtrancl_induct) (auto intro: refl [OF Nil.prems(1)] trans [OF Nil.prems(1)])
  then show ?case using Nil.prems by auto
next
  case (Cons q ps)
  obtain i j where q: "q = (i, j)" by (cases q)
  from Cons.prems have ij: "i < n" "j < n" by (auto simp: q)
  from joined [OF Cons.prems(1) ij] obtain s1 where s1: "join s (i, j) = Some s1" "valid n s1"
    and one: "\<And>a b. a < n \<Longrightarrow> b < n \<Longrightarrow> same s1 a b \<longleftrightarrow>
      same s a b \<or> same s a i \<and> same s j b \<or> same s a j \<and> same s i b" by blast
  let ?R = "{(a, b). a < n \<and> b < n \<and> same s a b}" and ?R1 = "{(a, b). a < n \<and> b < n \<and> same s1 a b}"
  let ?P = "set ps \<union> (set ps)\<inverse>" and ?Q = "set (q # ps) \<union> (set (q # ps))\<inverse>"
  obtain s' where s': "fold_option join s1 ps = Some s'" "valid n s'"
    "\<forall>a < n. \<forall>b < n. same s' a b \<longleftrightarrow> (a, b) \<in> (?R1 \<union> set ps \<union> (set ps)\<inverse>)\<^sup>*"
    using Cons.IH [OF s1(2)] Cons.prems(2) by auto
  have "?R1 \<subseteq> (?R \<union> ?Q)\<^sup>*"
  proof clarify
    fix a b assume ab: "a < n" "b < n" "same s1 a b"
    have R: "(x, y) \<in> (?R \<union> ?Q)\<^sup>*" if "same s x y" "x < n" "y < n" for x y using that by blast
    have "(i, j) \<in> (?R \<union> ?Q)\<^sup>*" "(j, i) \<in> (?R \<union> ?Q)\<^sup>*" by (auto simp: q)
    with ab one [OF ab(1,2)] R ij show "(a, b) \<in> (?R \<union> ?Q)\<^sup>*" by (meson rtrancl_trans)
  qed
  moreover have "?R \<union> ?Q \<subseteq> ?R1 \<union> ?P"
    using one refl [OF Cons.prems(1)] ij by (auto simp: q)
  ultimately have "(?R1 \<union> ?P)\<^sup>* = (?R \<union> ?Q)\<^sup>*"
  proof -
    have "?R1 \<union> ?P \<subseteq> (?R \<union> ?Q)\<^sup>*" using \<open>?R1 \<subseteq> _\<close> by auto
    then have "(?R1 \<union> ?P)\<^sup>* \<subseteq> (?R \<union> ?Q)\<^sup>*" by (rule rtrancl_subset_rtrancl)
    moreover have "(?R \<union> ?Q)\<^sup>* \<subseteq> (?R1 \<union> ?P)\<^sup>*" by (rule rtrancl_mono) fact
    ultimately show ?thesis by blast
  qed
  with s' s1 show ?case by (simp add: q Un_assoc)
qed

end

section \<open>Roots\<close>

inductive root :: "nat list \<Rightarrow> nat \<Rightarrow> nat \<Rightarrow> bool" for p where
  here: "p ! i = i \<Longrightarrow> root p i i"
| up: "p ! i \<noteq> i \<Longrightarrow> root p (p ! i) r \<Longrightarrow> root p i r"

inductive_cases root_cases: "root p i r"

lemma root_step: "p ! i \<noteq> i \<Longrightarrow> root p i r \<longleftrightarrow> root p (p ! i) r"
  by (blast intro: root.up elim: root_cases)

lemma root_here: "p ! i = i \<Longrightarrow> root p i r \<longleftrightarrow> r = i"
  by (blast intro: root.here elim: root_cases)

lemma root_fixed: "root p i r \<Longrightarrow> p ! r = r"
  by (induction rule: root.induct)

lemma root_unique: "root p i r \<Longrightarrow> root p i r' \<Longrightarrow> r = r'"
proof (induction arbitrary: r' rule: root.induct)
  case (here i)
  then show ?case by (simp add: root_here)
next
  case (up i r)
  then show ?case by (simp add: root_step)
qed

text \<open>A forest: every parent is in range and closer to its root, by some rank.\<close>

definition ranked :: "nat \<Rightarrow> nat list \<Rightarrow> (nat \<Rightarrow> nat) \<Rightarrow> bool" where
  "ranked n p rank \<longleftrightarrow> length p = n \<and> (\<forall>i < n. p ! i < n \<and> (p ! i \<noteq> i \<longrightarrow> rank (p ! i) < rank i))"

definition forest :: "nat \<Rightarrow> nat list \<Rightarrow> bool" where
  "forest n p \<longleftrightarrow> (\<exists>rank. ranked n p rank)"

definition same_root :: "nat list \<Rightarrow> nat \<Rightarrow> nat \<Rightarrow> bool" where
  "same_root p i j \<longleftrightarrow> (\<exists>r. root p i r \<and> root p j r)"

lemma forest_init: "forest n [0..<n]"
  unfolding forest_def ranked_def by auto

lemma root_exists:
  assumes "ranked n p rank" "i < n"
  shows "\<exists>r < n. root p i r"
  using assms(2)
proof (induction "rank i" arbitrary: i rule: less_induct)
  case less
  show ?case
  proof (cases "p ! i = i")
    case True
    with less show ?thesis by (auto intro: root.here)
  next
    case False
    with assms(1) less have "p ! i < n" "rank (p ! i) < rank i" by (auto simp: ranked_def)
    with less(1) False show ?thesis by (blast intro: root.up)
  qed
qed

lemma halving:
  assumes r: "ranked n p rank" and i: "i < n" "p ! i \<noteq> i"
  defines "p' \<equiv> p[i := p ! (p ! i)]"
  shows "ranked n p' rank" "j < n \<Longrightarrow> root p' j k \<longleftrightarrow> root p j k" "p' ! i \<noteq> i" "p' ! i < n" "rank (p' ! i) < rank i"
proof -
  have len: "i < length p" and par: "p ! i < n" "rank (p ! i) < rank i" using r i by (auto simp: ranked_def)
  then have grand: "p ! (p ! i) < n" "p ! (p ! i) \<noteq> p ! i \<longrightarrow> rank (p ! (p ! i)) < rank (p ! i)"
    using r by (auto simp: ranked_def)
  have at: "p' ! x = (if x = i then p ! (p ! i) else p ! x)" for x
    using len by (auto simp: p'_def nth_list_update)
  show "p' ! i < n" using grand at by simp
  show lower: "rank (p' ! i) < rank i" using grand par by (cases "p ! (p ! i) = p ! i") (auto simp: at)
  then show ne: "p' ! i \<noteq> i" by auto
  have "length p' = n" using r by (simp add: p'_def ranked_def)
  with r lower grand ne show ranked': "ranked n p' rank"
    by (auto simp: ranked_def at split: if_splits)
  have fwd: "root p' x y" if "root p x y" for x y
    using that
  proof (induction rule: root.induct)
    case (here x)
    with i(2) show ?case by (intro root.here) (auto simp: at)
  next
    case (up x y)
    show ?case
    proof (cases "x = i")
      case True
      have "p ! i \<noteq> i" by fact
      have "root p' (p' ! i) y"
      proof (cases "p ! (p ! i) = p ! i")
        case True
        with up.IH \<open>x = i\<close> show ?thesis by (simp add: at)
      next
        case False
        with up.IH \<open>x = i\<close> i(2) root_step [of p' "p ! i" y] show ?thesis by (simp add: at)
      qed
      with ne \<open>x = i\<close> show ?thesis by (blast intro: root.up)
    next
      case False
      with up show ?thesis using root.up [of p' x y] by (simp add: at)
    qed
  qed
  show "root p' j k \<longleftrightarrow> root p j k" if "j < n"
    using root_exists [OF r that] fwd root_unique by metis
qed

text \<open>\<open>find\<close> returns the root on any forest, and the halving moves no root.\<close>

lemma find_root_returns:
  assumes "ranked n p rank" "i < n"
  shows "\<exists>r p'. find_root p i = Some (r, p') \<and> r < n \<and> root p i r \<and> ranked n p' rank \<and>
    (\<forall>j < n. \<forall>k. root p' j k \<longleftrightarrow> root p j k)"
  using assms
proof (induction "rank i" arbitrary: i p rule: less_induct)
  case less
  show ?case
  proof (cases "p ! i = i")
    case True
    with less.prems show ?thesis by (subst find_root.simps) (auto intro: root.here)
  next
    case False
    define p' where "p' = p[i := p ! (p ! i)]"
    note half = halving [OF less.prems False, folded p'_def]
    obtain r q where q: "find_root p' (p' ! i) = Some (r, q)" "r < n" "root p' (p' ! i) r" "ranked n q rank"
      "\<forall>j < n. \<forall>k. root q j k \<longleftrightarrow> root p' j k"
      using less.hyps [OF half(5) half(1) half(4)] by blast
    have "find_root p i = Some (r, q)"
      using False q(1) by (subst find_root.simps) (simp add: Let_def p'_def)
    moreover have "root p i r" using q(3) half(2) [OF less.prems(2)] root_step [OF half(3)] by blast
    ultimately show ?thesis using q(2,4,5) half(2) by auto
  qed
qed

lemma linking:
  assumes r: "ranked n p rank" and roots: "p ! lr = lr" "p ! rr = rr" "lr \<noteq> rr" "lr < n" "rr < n"
  defines "p' \<equiv> p[rr := lr]"
  shows "forest n p'" "j < n \<Longrightarrow> root p j k \<Longrightarrow> root p' j (if k = rr then lr else k)"
proof -
  have len: "length p = n" using r by (simp add: ranked_def)
  have at: "p' ! x = (if x = rr then lr else p ! x)" for x
    using roots(5) len by (auto simp: p'_def nth_list_update)
  define rank' where "rank' j = rank j + (if root p j rr then Suc (rank lr) else 0)" for j
  have "rank' (p' ! j) < rank' j" if j: "j < n" "p' ! j \<noteq> j" for j
  proof (cases "j = rr")
    case True
    have "\<not> root p lr rr" "root p rr rr" using roots by (simp_all add: root_here)
    with True show ?thesis by (simp add: rank'_def at)
  next
    case False
    with j at have "p ! j \<noteq> j" "p' ! j = p ! j" by auto
    moreover have "rank (p ! j) < rank j" using r j calculation by (auto simp: ranked_def)
    ultimately show ?thesis by (simp add: rank'_def root_step [of p j])
  qed
  moreover have "p' ! j < n" if "j < n" for j using r roots(4) that by (auto simp: at ranked_def)
  ultimately have "ranked n p' rank'" using len by (auto simp: ranked_def p'_def)
  then show "forest n p'" by (auto simp: forest_def)
  have lr: "root p' lr lr" using roots by (intro root.here) (simp add: at)
  show "root p' j (if k = rr then lr else k)" if "j < n" "root p j k"
    using that(2)
  proof (induction rule: root.induct)
    case (here i)
    then show ?case
      using lr root.up [of p' rr lr] roots(3) root.here [of p' i] by (auto simp: at)
  next
    case (up i k)
    then have "i \<noteq> rr" using roots(2) by auto
    with up show ?case using root.up [of p' i] by (simp add: at)
  qed
qed

lemma union_roots_joins:
  assumes p: "forest n p" and ij: "i < n" "j < n"
  shows "\<exists>p'. union_roots p i j = Some p' \<and> forest n p' \<and>
    (\<forall>a < n. \<forall>b < n. same_root p' a b \<longleftrightarrow>
       same_root p a b \<or> same_root p a i \<and> same_root p j b \<or> same_root p a j \<and> same_root p i b)"
proof -
  obtain rank where rank: "ranked n p rank" using p by (auto simp: forest_def)
  obtain l p1 where p1: "find_root p i = Some (l, p1)" "l < n" "root p i l" "ranked n p1 rank"
    "\<And>a k. a < n \<Longrightarrow> root p1 a k \<longleftrightarrow> root p a k" using find_root_returns [OF rank ij(1)] by blast
  obtain r p2 where p2: "find_root p1 j = Some (r, p2)" "r < n" "root p1 j r" "ranked n p2 rank"
    "\<And>a k. a < n \<Longrightarrow> root p2 a k \<longleftrightarrow> root p1 a k" using find_root_returns [OF p1(4) ij(2)] by blast
  have roots: "root p2 a k \<longleftrightarrow> root p a k" if "a < n" for a k using p1(5) p2(5) that by simp
  have i: "root p2 i l" and j: "root p2 j r" using p1(3) p2(3,5) ij roots by simp_all
  have same: "same_root p a b \<longleftrightarrow> same_root p2 a b" if "a < n" "b < n" for a b
    using roots that by (simp add: same_root_def)
  have total: "\<exists>k < n. root p2 a k" if "a < n" for a using root_exists [OF p2(4) that] .
  show ?thesis
  proof (cases "l = r")
    case True
    have "same_root p2 i j" using i j True by (auto simp: same_root_def)
    then have "same_root p2 a b \<longleftrightarrow>
        same_root p2 a b \<or> same_root p2 a i \<and> same_root p2 j b \<or> same_root p2 a j \<and> same_root p2 i b" for a b
      unfolding same_root_def using root_unique by metis
    with True p1(1) p2(1,4) same ij show ?thesis by (auto simp: union_roots_def forest_def)
  next
    case False
    have "p2 ! l = l" "p2 ! r = r" using root_fixed i j by blast+
    note link = linking [OF p2(4) this False p1(2) p2(2)]
    have new: "root (p2[r := l]) a k \<longleftrightarrow> (\<exists>m. root p2 a m \<and> k = (if m = r then l else m))" if "a < n" for a k
    proof -
      note a = that
      obtain m where m: "root p2 a m" using total [OF a] by blast
      from link(2) [OF a m] have "root (p2[r := l]) a (if m = r then l else m)" .
      then show ?thesis using m root_unique [of p2 a m] root_unique [of "p2[r := l]" a] by blast
    qed
    have "same_root (p2[r := l]) a b \<longleftrightarrow>
        same_root p2 a b \<or> same_root p2 a i \<and> same_root p2 j b \<or> same_root p2 a j \<and> same_root p2 i b"
      if ab: "a < n" "b < n" for a b
    proof -
      obtain ra rb where ra: "root p2 a ra" and rb: "root p2 b rb" using total ab by blast
      have "same_root p2 a b \<longleftrightarrow> ra = rb" "same_root p2 a i \<longleftrightarrow> ra = l" "same_root p2 j b \<longleftrightarrow> r = rb"
        "same_root p2 a j \<longleftrightarrow> ra = r" "same_root p2 i b \<longleftrightarrow> l = rb"
        using ra rb i j root_unique unfolding same_root_def by metis+
      moreover have "same_root (p2[r := l]) a b \<longleftrightarrow> (if ra = r then l else ra) = (if rb = r then l else rb)"
        using ra rb new ab root_unique unfolding same_root_def by metis
      ultimately show ?thesis using False by auto
    qed
    with False p1(1) p2(1) link(1) same ij show ?thesis by (auto simp: union_roots_def)
  qed
qed

interpretation roots: partition same_root "\<lambda>p (i, j). union_roots p i j" "\<lambda>n p. forest n p"
proof unfold_locales
  show "same_root s i i" if "forest n s" "i < n" for n s i
    using that root_exists unfolding forest_def same_root_def by blast
  show "same_root s i k" if "forest n s" "same_root s i j" "same_root s j k" for n s i j k
    using that root_unique unfolding same_root_def by metis
qed (auto simp: same_root_def dest: union_roots_joins)

text \<open>
  Joining any pairs in turn returns, and two numbers end with one root exactly when a chain of
  the pairs links them.
\<close>

lemma union_pairs_joins:
  assumes "\<forall>(i, j) \<in> set ps. i < n \<and> j < n"
  shows "\<exists>p. union_pairs [0..<n] ps = Some p \<and> forest n p \<and>
    (\<forall>a < n. \<forall>b < n. same_root p a b \<longleftrightarrow> (a, b) \<in> (set ps \<union> (set ps)\<inverse>)\<^sup>*)"
proof -
  have "same_root [0..<n] a b \<longleftrightarrow> a = b" if "a < n" "b < n" for a b
    using that by (simp add: same_root_def root_here)
  then have id: "{(a, b). a < n \<and> b < n \<and> same_root [0..<n] a b} \<union> set ps \<union> (set ps)\<inverse> =
      {(a, a) |a. a < n} \<union> (set ps \<union> (set ps)\<inverse>)" by auto
  have "({(a, a) |a. a < n} \<union> (set ps \<union> (set ps)\<inverse>))\<^sup>* = (set ps \<union> (set ps)\<inverse>)\<^sup>*"
  proof (rule antisym)
    have "{(a, a) |a. a < n} \<union> (set ps \<union> (set ps)\<inverse>) \<subseteq> (set ps \<union> (set ps)\<inverse>)\<^sup>*" by auto
    then show "({(a, a) |a. a < n} \<union> (set ps \<union> (set ps)\<inverse>))\<^sup>* \<subseteq> (set ps \<union> (set ps)\<inverse>)\<^sup>*"
      by (rule rtrancl_subset_rtrancl)
  qed (rule rtrancl_mono, blast)
  with roots.fold_joined [OF forest_init assms] id show ?thesis by (simp add: union_pairs_def)
qed

end
