(* ===== verification/Labels.thy ===== *)
theory Labels
  imports UnionFind Ink
begin

text \<open>
  Connected components of ink, \<open>common/components.py\<close>: pixels as maximal runs per scanline,
  the sweep that joins runs within the gap tolerance in one union-find, and the components
  with their bounds, counts and runs in their total order. A dictionary from scanlines to
  runs is an association list; a set of pixels is the list of its elements in the order they
  are visited. The sweep looks at no parent, so the pairs it joins are computed first and
  joined in its order.
\<close>

section \<open>Runs of a set of pixels\<close>

text \<open>A run of one scanline: \<open>(y, x0, x1)\<close>, half-open at \<open>x1\<close>.\<close>

type_synonym yrun = "int \<times> int \<times> int"

abbreviation run_y :: "yrun \<Rightarrow> int" where "run_y r \<equiv> fst r"
abbreviation run_x0 :: "yrun \<Rightarrow> int" where "run_x0 r \<equiv> fst (snd r)"
abbreviation run_x1 :: "yrun \<Rightarrow> int" where "run_x1 r \<equiv> snd (snd r)"

fun column_runs :: "int \<Rightarrow> int \<Rightarrow> int list \<Rightarrow> span list" where
  "column_runs start previous [] = [(start, previous + 1)]"
| "column_runs start previous (x # xs) =
     (if x > previous + 1 then (start, previous + 1) # column_runs x x xs else column_runs start x xs)"

definition add_pixel :: "int \<times> int \<Rightarrow> (int \<times> int list) list \<Rightarrow> (int \<times> int list) list" where
  "add_pixel pixel by_row =
     (case pixel of (x, y) \<Rightarrow>
        AList.update y (case map_of by_row y of None \<Rightarrow> [x] | Some column \<Rightarrow> column @ [x]) by_row)"

definition ink_runs_by_row :: "(int \<times> int) list \<Rightarrow> (int \<times> span list) list" where
  "ink_runs_by_row points =
     map (\<lambda>(y, column). (y, case sort column of [] \<Rightarrow> [] | x # xs \<Rightarrow> column_runs x x xs))
       (fold add_pixel points [])"

section \<open>The labelling\<close>

record component =
  comp_bounds :: box
  comp_pixels :: int

text \<open>The flat run table of the scanlines in order, and each scanline's indices into it.\<close>

definition run_table :: "(int \<times> span list) list \<Rightarrow> yrun list" where
  "run_table rows = concat (map (\<lambda>(y, spans). map (\<lambda>(x0, x1). (y, x0, x1)) spans) rows)"

fun index_rows :: "nat \<Rightarrow> (int \<times> span list) list \<Rightarrow> (int \<times> nat list) list" where
  "index_rows k [] = []"
| "index_rows k ((y, spans) # rows) =
     (y, [k..<k + length spans]) # index_rows (k + length spans) rows"

text \<open>Neighbours on one scanline.\<close>

fun beside_pairs :: "yrun list \<Rightarrow> int \<Rightarrow> nat list \<Rightarrow> (nat \<times> nat) list" where
  "beside_pairs runs gap (left # right # rest) =
     (if run_x0 (runs ! right) - run_x1 (runs ! left) \<le> gap then [(left, right)] else []) @
     beside_pairs runs gap (right # rest)"
| "beside_pairs runs gap _ = []"

text \<open>
  The runs of an earlier scanline near those of the current one: the pointer \<open>start\<close> is what
  is left of the earlier scanline, and the inner loop ends at the first run too far right.
\<close>

fun above_pairs :: "yrun list \<Rightarrow> int \<Rightarrow> nat list \<Rightarrow> nat list \<Rightarrow> (nat \<times> nat) list" where
  "above_pairs runs radius previous [] = []"
| "above_pairs runs radius previous (left # current) =
     (let previous = dropWhile (\<lambda>r. run_x1 (runs ! r) + radius \<le> run_x0 (runs ! left)) previous in
      map (Pair left) (takeWhile (\<lambda>r. \<not> run_x0 (runs ! r) \<ge> run_x1 (runs ! left) + radius) previous) @
      above_pairs runs radius previous current)"

definition sweep_pairs :: "yrun list \<Rightarrow> int \<Rightarrow> (int \<times> nat list) list \<Rightarrow> (nat \<times> nat) list" where
  "sweep_pairs runs gap indices =
     (let radius = gap + 1 in
      concat (map (\<lambda>(y, current).
          beside_pairs runs gap current @
          concat (map (\<lambda>y'. case map_of indices y' of
              None \<Rightarrow> [] | Some previous \<Rightarrow> above_pairs runs radius previous current)
            [y - radius..y - 1])) indices))"

text \<open>The groups by root, in first-seen order, each ascending; \<open>find\<close> goes on halving paths.\<close>

fun group_roots :: "nat list \<Rightarrow> nat list \<Rightarrow> (nat \<times> nat list) list \<Rightarrow> (nat \<times> nat list) list option" where
  "group_roots parent [] groups = Some groups"
| "group_roots parent (i # is) groups =
     do {
       (r, parent) \<leftarrow> find_root parent i;
       group_roots parent is
         (AList.update r (case map_of groups r of None \<Rightarrow> [i] | Some g \<Rightarrow> g @ [i]) groups)
     }"

definition component_of :: "yrun list \<Rightarrow> nat list \<Rightarrow> component" where
  "component_of runs members =
     (let x0 = Min (set (map (\<lambda>i. run_x0 (runs ! i)) members));
          x1 = Max (set (map (\<lambda>i. run_x1 (runs ! i)) members));
          y0 = run_y (runs ! hd members); y1 = run_y (runs ! last members) + 1
      in \<lparr>comp_bounds = mk_box x0 y0 (x1 - x0) (y1 - y0),
          comp_pixels = sum_list (map (\<lambda>i. run_x1 (runs ! i) - run_x0 (runs ! i)) members)\<rparr>)"

definition component_order :: "yrun list \<Rightarrow> component \<times> nat list \<Rightarrow> int \<times> int \<times> int \<times> int" where
  "component_order runs entry =
     (case entry of (c, members) \<Rightarrow>
        (box_y (comp_bounds c), box_x (comp_bounds c),
         Min (set (map (\<lambda>i. (run_x0 (runs ! i), run_y (runs ! i))) members))))"

definition label_component_runs ::
  "(int \<times> span list) list \<Rightarrow> int \<Rightarrow> (component \<times> yrun list) list result option" where
  "label_component_runs rows gap =
     (if gap < 0 then Some (Inl (ContractError ''gap tolerance is negative''))
      else if rows = [] then Some (Inr [])
      else
        let rows = sort_key fst rows; runs = run_table rows; n = length runs in
        do {
          parent \<leftarrow> union_pairs [0..<n] (sweep_pairs runs gap (index_rows 0 rows));
          groups \<leftarrow> group_roots parent [0..<n] [];
          Some (Inr (map (\<lambda>(c, members). (c, map (\<lambda>i. runs ! i) members))
            (sort_key (component_order runs) (map (\<lambda>(r, members). (component_of runs members, members)) groups))))
        })"

definition label_components :: "(int \<times> int) list \<Rightarrow> int \<Rightarrow> component list result option" where
  "label_components points gap =
     do {
       labelled \<leftarrow> label_component_runs (ink_runs_by_row points) gap;
       Some (rbind labelled (\<lambda>cs. Inr (map fst cs)))
     }"

end
