(* ===== verification/Background.thy ===== *)
theory Background
  imports Ink
begin

text \<open>
  One page, one paper value: \<open>common/background.py\<close>. The sealed policy and its loader over the
  parsed configuration, the histogram and the two population modes of a page, the inference on
  both its branches, and the two closed payloads a consumer validates. A page is the list of
  its scanlines, a scanline the list of its 8-bit samples; the scanlines are bytes, so the
  check of \<open>_dark_distribution\<close> that each is one has nothing to refuse.
\<close>

definition PRIMARY_MARGIN :: int where
  "PRIMARY_MARGIN = 20"

definition ink_threshold :: "int \<Rightarrow> int \<Rightarrow> int result" where
  "ink_threshold background margin =
     (if \<not> (0 \<le> background \<and> background \<le> 255) then Inl (ContractError ''is not an 8-bit sample'')
      else if margin < 0 then Inl (ContractError ''sensitivity margin is negative'')
      else if background - margin < 0
      then Inl (BackgroundInferenceRefusal ''the threshold is below every 8-bit sample'')
      else Inr (background - margin))"

definition derived_ink_margin :: "int \<Rightarrow> int \<Rightarrow> int \<Rightarrow> int result" where
  "derived_ink_margin paper dark_mode ink_margin_bp =
     (if paper < dark_mode then Inl (ContractError ''is not a page's own two populations'')
      else Inr (max PRIMARY_MARGIN ((paper - dark_mode) * ink_margin_bp div BASIS_POINTS)))"

section \<open>Policy and evidence\<close>

text \<open>The sealed values of \<open>[background]\<close>, and the policy they resolve to on a page.\<close>

record background_values =
  bv_band_bp :: int
  bv_max_interior_dark_bp :: int
  bv_max_ink_bp :: int
  bv_ink_margin_bp :: int

record background_policy =
  bp_band_x :: int
  bp_band_y :: int
  bp_max_interior_dark_bp :: int
  bp_max_ink_bp :: int
  bp_ink_margin_bp :: int

record dark_evidence =
  de_band_x :: int
  de_band_y :: int
  de_dark_mode :: int
  de_at_or_below :: int
  de_pixel_count :: int
  de_border_count :: int
  de_border_bp :: int
  de_interior_bp :: int

datatype background_source = InferredModal | InferredInteriorMode

definition source_name :: "background_source \<Rightarrow> string" where
  "source_name s = (case s of InferredModal \<Rightarrow> ''inferred-modal'' | InferredInteriorMode \<Rightarrow> ''inferred-interior-mode'')"

record background_evidence =
  be_background :: int
  be_source :: background_source
  be_dark_distribution :: "dark_evidence option"
  be_dark_mode :: int
  be_ink_margin :: int

section \<open>The page's populations\<close>

definition count_sample :: "int \<Rightarrow> int list \<Rightarrow> int list" where
  "count_sample sample h = h[nat sample := h ! nat sample + 1]"

text \<open>The histogram, scanline by scanline; a scanline of another width ends it.\<close>

fun fill_histogram :: "int \<Rightarrow> int list list \<Rightarrow> int list \<Rightarrow> int list result" where
  "fill_histogram width [] h = Inr h"
| "fill_histogram width (row # rows) h =
     (if int (length row) \<noteq> width then Inl (ContractError ''scanline width'')
      else fill_histogram width rows (fold count_sample row h))"

text \<open>\<open>max(range(lo, hi + 1), key=...)\<close>: the first of the most counted levels.\<close>

definition modal_level :: "int list \<Rightarrow> int \<Rightarrow> int \<Rightarrow> int" where
  "modal_level h lo hi =
     fold (\<lambda>v best. if h ! nat v > h ! nat best then v else best) [lo + 1..hi] lo"

definition histogram_total :: "int list \<Rightarrow> int" where
  "histogram_total h = sum_list (map (\<lambda>v. v * h ! nat v) [0..255])"

definition at_or_below :: "int list \<Rightarrow> int \<Rightarrow> int" where
  "at_or_below h level = sum_list (take (nat (level + 1)) h)"

definition interior_dark :: "int \<Rightarrow> int \<Rightarrow> int list list \<Rightarrow> int \<Rightarrow> int \<Rightarrow> int \<Rightarrow> int" where
  "interior_dark width height rows band_x band_y level =
     sum_list (map (\<lambda>y. int (length (filter (\<lambda>v. v \<le> level)
         (take (nat (width - 2 * band_x)) (drop (nat band_x) (rows ! nat y))))))
       [band_y..height - band_y - 1])"

definition dark_distribution ::
  "int \<Rightarrow> int \<Rightarrow> int list list \<Rightarrow> int \<Rightarrow> int \<Rightarrow> int \<Rightarrow> background_policy \<Rightarrow> dark_evidence option" where
  "dark_distribution width height rows level dark_mode dark_pixel_count p =
     (let band_x = bp_band_x p; band_y = bp_band_y p in
      if band_x \<le> 0 \<or> band_y \<le> 0 \<or> 2 * band_x \<ge> width \<or> 2 * band_y \<ge> height then None
      else
        let interior = interior_dark width height rows band_x band_y level;
            interior_pixels = (width - 2 * band_x) * (height - 2 * band_y);
            border_pixels = width * height - interior_pixels;
            border_dark = dark_pixel_count - interior;
            border_dark_bp = border_dark * BASIS_POINTS div border_pixels;
            interior_dark_bp = interior * BASIS_POINTS div interior_pixels
        in if interior_dark_bp > bp_max_interior_dark_bp p then None
           else Some \<lparr>de_band_x = band_x, de_band_y = band_y, de_dark_mode = dark_mode, de_at_or_below = level,
             de_pixel_count = dark_pixel_count, de_border_count = border_dark, de_border_bp = border_dark_bp,
             de_interior_bp = interior_dark_bp\<rparr>)"

section \<open>The inference\<close>

definition settle_background_evidence ::
  "background_evidence \<Rightarrow> int list \<Rightarrow> int \<Rightarrow> background_policy \<Rightarrow> background_evidence result" where
  "settle_background_evidence ev h counted p =
     rbind (ink_threshold (be_background ev) PRIMARY_MARGIN) (\<lambda>threshold.
       if at_or_below h threshold * BASIS_POINTS div counted > bp_max_ink_bp p
       then Inl (BackgroundInferenceRefusal ''the background is a minority of its own page'')
       else Inr ev)"

definition infer_background_evidence ::
  "int \<Rightarrow> int \<Rightarrow> int list list \<Rightarrow> background_policy \<Rightarrow> background_evidence result" where
  "infer_background_evidence width height rows p =
     (if width \<le> 0 \<or> height \<le> 0 then Inl (ContractError ''has no pixels to infer a background from'')
      else if int (length rows) \<noteq> height then Inl (ContractError ''number of scanlines'')
      else
        rbind (fill_histogram width rows (replicate 256 0)) (\<lambda>h.
        let background = modal_level h 0 255; counted = width * height; total_levels = histogram_total h;
            mean = total_levels div counted;
            paper = modal_level h mean 255; dark_mode = modal_level h 0 mean in
        rbind (derived_ink_margin paper dark_mode (bp_ink_margin_bp p)) (\<lambda>ink_margin.
        if background * counted < total_levels then
          let level = min ((dark_mode + paper) div 2) (max 0 (paper - ink_margin));
              dark = dark_distribution width height rows level dark_mode (at_or_below h level) p in
          if dark \<noteq> None \<and> paper \<ge> PRIMARY_MARGIN
          then settle_background_evidence
            \<lparr>be_background = paper, be_source = InferredInteriorMode, be_dark_distribution = dark,
             be_dark_mode = dark_mode, be_ink_margin = ink_margin\<rparr> h counted p
          else Inl (BackgroundInferenceRefusal ''the page is majority ink'')
        else if background < PRIMARY_MARGIN
        then Inl (BackgroundInferenceRefusal ''darker than the ink margin'')
        else settle_background_evidence
          \<lparr>be_background = background, be_source = InferredModal, be_dark_distribution = None,
           be_dark_mode = dark_mode, be_ink_margin = ink_margin\<rparr> h counted p)))"

section \<open>The sealed policy\<close>

definition FORBIDDEN_NAMES :: "string list" where
  "FORBIDDEN_NAMES = [''primary_margin'']"

definition refuse_forbidden_names :: "(ustr \<times> json) list \<Rightarrow> unit result" where
  "refuse_forbidden_names kvs =
     ensure (filter (\<lambda>name. field kvs name \<noteq> None) FORBIDDEN_NAMES = [])
       (ContractError ''carries forbidden field(s)'')"

definition BACKGROUND_BP_FIELDS :: "string list" where
  "BACKGROUND_BP_FIELDS = [''band_bp'', ''max_interior_dark_bp'', ''max_ink_bp'', ''ink_margin_bp'']"

definition refuses_something :: "int \<Rightarrow> string \<Rightarrow> unit result" where
  "refuses_something bound name = ensure (bound \<noteq> BASIS_POINTS) (ContractError name)"

definition validate_background_table :: "json option \<Rightarrow> background_values result" where
  "validate_background_table v =
     (case v of
        Some (JObj kvs) \<Rightarrow>
          rbind (refuse_forbidden_names kvs) (\<lambda>_.
          rbind (ensure (set (map fst kvs) \<subseteq> set (map u (BACKGROUND_BP_FIELDS @ [''provenance''])))
            (ContractError ''carries unknown field(s)'')) (\<lambda>_.
          rbind (ensure (list_all (\<lambda>f. field kvs f \<noteq> None) BACKGROUND_BP_FIELDS)
            (ContractError ''is missing field(s)'')) (\<lambda>_.
          rbind (bounded_int kvs ''max_interior_dark_bp'' (\<lambda>n. 0 \<le> n \<and> n \<le> BASIS_POINTS)) (\<lambda>interior.
          rbind (bounded_int kvs ''max_ink_bp'' (\<lambda>n. 0 \<le> n \<and> n \<le> BASIS_POINTS)) (\<lambda>ink.
          rbind (bounded_int kvs ''ink_margin_bp'' (\<lambda>n. 0 < n \<and> n < BASIS_POINTS div 2)) (\<lambda>margin.
          rbind (bounded_int kvs ''band_bp'' (\<lambda>n. 0 < n \<and> n < BASIS_POINTS div 2)) (\<lambda>band.
          rbind (refuses_something interior ''max_interior_dark_bp'') (\<lambda>_.
          rbind (refuses_something ink ''max_ink_bp'') (\<lambda>_.
            Inr \<lparr>bv_band_bp = band, bv_max_interior_dark_bp = interior, bv_max_ink_bp = ink,
                 bv_ink_margin_bp = margin\<rparr>)))))))))
      | _ \<Rightarrow> Inl (ContractError ''has no table''))"

text \<open>
  \<open>load_background_config\<close> on the parsed file: \<open>read_sealed_toml\<close> gives the table, whose
  top-level names it has checked, and its seal.
\<close>

definition load_background_config :: "(ustr \<times> json) list \<Rightarrow> ustr \<Rightarrow> (ustr \<times> background_values) result" where
  "load_background_config config seal =
     rbind (validate_background_table (field config ''background'')) (\<lambda>values.
     rbind (validate_provenance_block
         (case field config ''background'' of Some (JObj kvs) \<Rightarrow> field kvs ''provenance'' | _ \<Rightarrow> None)) (\<lambda>_.
       Inr (seal, values)))"

definition resolve_background_policy :: "background_values \<Rightarrow> int \<Rightarrow> int \<Rightarrow> background_policy result" where
  "resolve_background_policy values width height =
     (if width \<le> 0 \<or> height \<le> 0 then Inl (ContractError ''does not have positive integer dimensions'')
      else Inr
        \<lparr>bp_band_x = round_half_up_bp width (bv_band_bp values),
         bp_band_y = round_half_up_bp height (bv_band_bp values),
         bp_max_interior_dark_bp = bv_max_interior_dark_bp values,
         bp_max_ink_bp = bv_max_ink_bp values,
         bp_ink_margin_bp = bv_ink_margin_bp values\<rparr>)"

section \<open>The two payloads of the Ink Map\<close>

definition is_sha256 :: "json option \<Rightarrow> bool" where
  "is_sha256 v = (case v of Some (JStr s) \<Rightarrow> length s = 64 \<and> list_all (\<lambda>c. c \<in> set (u ''0123456789abcdef'')) s | _ \<Rightarrow> False)"

definition positive_ordinal :: "(ustr \<times> json) list \<Rightarrow> int result" where
  "positive_ordinal kvs = bounded_int kvs ''page_ordinal'' (\<lambda>n. n > 0)"

definition validate_ink_not_measurable_payload :: "json \<Rightarrow> (int \<times> ustr \<times> ustr) result" where
  "validate_ink_not_measurable_payload v =
     (case v of
        JObj kvs \<Rightarrow>
          rbind (ensure (keys_are kvs [''page_ordinal'', ''ink_measurable'', ''background_refusal'',
            ''background_config_sha256'']) (ContractError ''payload is not closed'')) (\<lambda>_.
          rbind (positive_ordinal kvs) (\<lambda>ordinal.
          rbind (ensure (field kvs ''ink_measurable'' = Some (JBool False))
            (ContractError ''ink_measurable is not false'')) (\<lambda>_.
          rbind (case field kvs ''background_refusal'' of
              Some (JStr refusal) \<Rightarrow> if blank refusal then Inl (ContractError ''background_refusal'') else Inr refusal
            | _ \<Rightarrow> Inl (ContractError ''background_refusal'')) (\<lambda>refusal.
          case field kvs ''background_config_sha256'' of
            Some (JStr digest) \<Rightarrow>
              if is_sha256 (Some (JStr digest)) then Inr (ordinal, refusal, digest)
              else Inl (ContractError ''background_config_sha256'')
          | _ \<Rightarrow> Inl (ContractError ''background_config_sha256'')))))
      | _ \<Rightarrow> Inl (ContractError ''has no object payload''))"

definition is_obj :: "json option \<Rightarrow> bool" where
  "is_obj v = (case v of Some (JObj _) \<Rightarrow> True | _ \<Rightarrow> False)"

definition plain_int :: "(ustr \<times> json) list \<Rightarrow> string \<Rightarrow> int result" where
  "plain_int kvs f = bounded_int kvs f (\<lambda>_. True)"

text \<open>The background evidence of the payload: its levels, and the margin they derive.\<close>

definition validate_payload_background :: "(ustr \<times> json) list \<Rightarrow> int \<Rightarrow> int \<Rightarrow> ustr result" where
  "validate_payload_background kvs audit_contrast ink_margin_bp =
     rbind (ensure (keys_are kvs [''background_level'', ''background_source'', ''dark_mode'', ''ink_margin'',
       ''contrast_below_background'', ''ink_threshold'', ''config_sha256''])
       (ContractError ''background evidence is not closed'')) (\<lambda>_.
     rbind (plain_int kvs ''background_level'') (\<lambda>level.
     rbind (plain_int kvs ''dark_mode'') (\<lambda>dark.
     rbind (plain_int kvs ''ink_margin'') (\<lambda>margin.
     rbind (plain_int kvs ''contrast_below_background'') (\<lambda>contrast.
     rbind (plain_int kvs ''ink_threshold'') (\<lambda>threshold.
     rbind (ensure (0 \<le> level \<and> level \<le> 255 \<and> 0 \<le> dark \<and> dark \<le> 255)
       (ContractError ''levels are outside 8-bit range'')) (\<lambda>_.
     rbind (ensure (\<not> dark > level) (ContractError ''dark_mode exceeds its paper level'')) (\<lambda>_.
     rbind (derived_ink_margin level dark ink_margin_bp) (\<lambda>derived.
     rbind (ensure (margin = derived) (ContractError ''ink_margin'')) (\<lambda>_.
     rbind (ensure (case field kvs ''background_source'' of
         Some (JStr s) \<Rightarrow> s \<in> set (map (\<lambda>x. u (source_name x)) [InferredModal, InferredInteriorMode]) | _ \<Rightarrow> False)
       (ContractError ''background_source is unknown'')) (\<lambda>_.
     rbind (ensure (contrast = audit_contrast) (ContractError ''wrong audit contrast'')) (\<lambda>_.
     rbind (ensure (threshold = level - audit_contrast) (ContractError ''ink_threshold is inconsistent'')) (\<lambda>_.
     rbind (ensure (0 \<le> threshold \<and> threshold \<le> 255) (ContractError ''ink_threshold is outside 8-bit range'')) (\<lambda>_.
     case field kvs ''config_sha256'' of
       Some (JStr digest) \<Rightarrow>
         if is_sha256 (Some (JStr digest)) then Inr digest else Inl (ContractError ''config_sha256'')
     | _ \<Rightarrow> Inl (ContractError ''config_sha256'')))))))))))))))"

definition validate_measured_ink_map_payload :: "json \<Rightarrow> int \<Rightarrow> int \<Rightarrow> (int \<times> ustr) result" where
  "validate_measured_ink_map_payload v audit_contrast ink_margin_bp =
     (case v of
        JObj kvs \<Rightarrow>
          rbind (ensure (keys_are kvs [''page_ordinal'', ''ink_measurable'', ''background'', ''edge'', ''edge_findings''])
            (ContractError ''payload is not closed'')) (\<lambda>_.
          rbind (positive_ordinal kvs) (\<lambda>ordinal.
          rbind (ensure (field kvs ''ink_measurable'' = Some (JBool True))
            (ContractError ''ink_measurable is not true'')) (\<lambda>_.
          rbind (ensure (is_obj (field kvs ''edge'')) (ContractError ''no object edge finding'')) (\<lambda>_.
          rbind (ensure (is_obj (field kvs ''edge_findings'')) (ContractError ''no object retained edge findings'')) (\<lambda>_.
          case field kvs ''background'' of
            Some (JObj background) \<Rightarrow>
              rbind (validate_payload_background background audit_contrast ink_margin_bp) (\<lambda>digest.
                Inr (ordinal, digest))
          | _ \<Rightarrow> Inl (ContractError ''no object background evidence''))))))
      | _ \<Rightarrow> Inl (ContractError ''has no object payload''))"

end
