(* ===== verification/Binary64.thy ===== *)
theory Binary64
  imports Complex_Main
begin

text \<open>
  The floats the ink measure computes with: the quotient of two integers and its product with
  a million, each rounded to the nearest binary64 and ties to even, and \<open>round\<close> of a float. The
  values are rationals. The rounding is that of the normal numbers below overflow, which every
  ratio here is: the quotient of two pixel counts of a page is zero or at least
  \<open>1 / (width * height)\<close> and at most one.
\<close>

definition round_even :: "rat \<Rightarrow> int" where
  "round_even q =
     (let f = \<lfloor>q\<rfloor>; r = q - of_int f in
      if r < 1 / 2 then f else if r > 1 / 2 then f + 1 else if even f then f else f + 1)"

fun bit_length :: "int \<Rightarrow> nat" where
  "bit_length n = (if n \<le> 0 then 0 else Suc (bit_length (n div 2)))"

declare bit_length.simps [simp del]

definition floor_log2 :: "rat \<Rightarrow> int" where
  "floor_log2 q =
     (case quotient_of q of (n, d) \<Rightarrow>
        let e = int (bit_length n) - int (bit_length d) in if 2 powi e \<le> q then e else e - 1)"

definition binary64 :: "rat \<Rightarrow> rat" where
  "binary64 q =
     (if q = 0 then 0
      else let k = 52 - floor_log2 q in of_int (round_even (q * 2 powi k)) / 2 powi k)"

lemma bit_length_bounds: "0 < n \<Longrightarrow> 0 < bit_length n \<and> 2 ^ (bit_length n - 1) \<le> n \<and> n < 2 ^ bit_length n"
proof (induction n rule: bit_length.induct)
  case (1 n)
  have eq: "bit_length n = Suc (bit_length (n div 2))" using "1.prems" by (subst bit_length.simps) simp
  show ?case
  proof (cases "n div 2 = 0")
    case True
    then have "n = 1" using "1.prems" by auto
    then show ?thesis by (simp add: bit_length.simps)
  next
    case False
    then have half: "0 < n div 2" using "1.prems" by auto
    have IH: "0 < bit_length (n div 2)" "2 ^ (bit_length (n div 2) - 1) \<le> n div 2" "n div 2 < 2 ^ bit_length (n div 2)"
      using "1.IH" half "1.prems" by auto
    define p where "p = (2 :: int) ^ (bit_length (n div 2) - 1)"
    have double: "(2 :: int) ^ bit_length (n div 2) = 2 * p" using IH(1) by (simp add: p_def power_eq_if)
    have "2 * p \<le> n" "n < 2 * (2 * p)" using IH(2,3) unfolding double p_def [symmetric] by linarith+
    then show ?thesis unfolding eq by (simp add: double)
  qed
qed

lemma round_even_le: "q \<le> of_int b \<Longrightarrow> round_even q \<le> b"
proof (cases "q = of_int b")
  case False
  assume "q \<le> of_int b"
  with False have "q < of_int b" by simp
  then have "\<lfloor>q\<rfloor> < b" by (simp add: floor_less_iff)
  then show ?thesis by (auto simp: round_even_def Let_def)
qed (simp add: round_even_def)

lemma round_even_nonneg: "0 \<le> q \<Longrightarrow> 0 \<le> round_even q"
  by (auto simp: round_even_def Let_def add_increasing2)

lemma floor_log2_le: "0 < q \<Longrightarrow> 2 powi floor_log2 q \<le> q"
proof -
  assume q: "0 < q"
  obtain n d where nd: "quotient_of q = (n, d)" by (cases "quotient_of q")
  have d: "0 < d" using quotient_of_denom_pos [OF nd] .
  have q_eq: "q = of_int n / of_int d" using quotient_of_div [OF nd] .
  have n: "0 < n" using q d by (simp add: q_eq zero_less_divide_iff)
  let ?a = "bit_length n" and ?b = "bit_length d"
  note a = bit_length_bounds [OF n] and b = bit_length_bounds [OF d]
  show ?thesis
  proof (cases "2 powi (int ?a - int ?b) \<le> q")
    case False
    have "(2 :: rat) powi (int ?a - int ?b - 1) = 2 ^ (?a - 1) / 2 ^ ?b"
      using a by (simp add: power_int_diff of_nat_diff flip: power_int_of_nat)
    also have "\<dots> \<le> of_int n / of_int d"
    proof (rule frac_le)
      have "of_int (2 ^ (?a - 1)) \<le> (of_int n :: rat)" using a by (simp only: of_int_le_iff)
      then show "2 ^ (?a - 1) \<le> (of_int n :: rat)" by simp
      have "of_int d \<le> (of_int (2 ^ ?b) :: rat)" 
        using b by (intro of_int_le_iff [THEN iffD2]) linarith
      then show "(of_int d :: rat) \<le> 2 ^ ?b" by simp
    qed (use n d in auto)
    finally show ?thesis using False by (simp add: floor_log2_def nd Let_def) (simp add: q_eq)
  qed (simp add: floor_log2_def nd Let_def)
qed

lemma binary64_bounds:
  assumes "0 \<le> q" "q \<le> of_int b" "b < 2 ^ 53"
  shows "0 \<le> binary64 q" "binary64 q \<le> of_int b"
proof -
  let ?e = "floor_log2 q"
  define k where "k = 52 - ?e"
  show "0 \<le> binary64 q"
    using assms(1) round_even_nonneg [of "q * 2 powi k"] by (simp add: binary64_def k_def Let_def)
  show "binary64 q \<le> of_int b"
  proof (cases "q = 0")
    case False
    with assms(1) have q: "0 < q" by simp
    have "2 powi ?e \<le> q" using floor_log2_le [OF q] .
    also have "q < 2 powi 53"
    proof -
      have "of_int b < (of_int (2 ^ 53) :: rat)" using assms(3) by (simp only: of_int_less_iff)
      with assms(2) show ?thesis by simp
    qed
    finally have "2 powi ?e < (2 :: rat) powi 53" .
    then have "?e < 53" by (meson linorder_not_less one_le_numeral power_int_increasing)
    then have k: "0 \<le> k" by (simp add: k_def)
    have "q * 2 powi k \<le> of_int b * 2 powi k" using assms(2) by (intro mult_right_mono) auto
    also have "\<dots> = of_int (b * 2 ^ nat k)" using k by (simp add: power_int_def)
    finally have "round_even (q * 2 powi k) \<le> b * 2 ^ nat k" by (rule round_even_le)
    then have "of_int (round_even (q * 2 powi k)) \<le> (of_int (b * 2 ^ nat k) :: rat)" by (simp only: of_int_le_iff)
    also have "\<dots> = of_int b * 2 powi k" using k by (simp add: power_int_def)
    finally show ?thesis using False by (simp add: binary64_def k_def Let_def divide_le_eq)
  qed (use assms in \<open>simp add: binary64_def\<close>)
qed

end
