(* ===== verification/InkMap.thy ===== *)
theory InkMap
  imports Labels Background Binary64
begin

text \<open>
  The Ink Map of one page, \<open>common/residual_ink.py\<close> and \<open>common/ink_map_measure.py\<close>: the paper
  value and the page-spanning components of a page, every measure taken on that one basis, the
  record the stage publishes (\<open>pipeline/1_ink_map/run.py\<close>) and the consumer's reconciliation of
  its edge finding with its retained runs. What the labelling may not return is an option around
  the result. The decoded page is an argument: its dimensions and its scanlines.
\<close>

section \<open>The sealed configuration\<close>

record coverage_config =
  cc_sha256 :: ustr
  cc_gates :: audit_gates
  cc_spanning_bp :: int
  cc_gap :: int
  cc_ink_margin_bp :: int

definition provenance_of :: "json option \<Rightarrow> json option" where
  "provenance_of v = (case v of Some (JObj kvs) \<Rightarrow> field kvs ''provenance'' | _ \<Rightarrow> None)"

definition load_coverage_audit_config :: "(ustr \<times> json) list \<Rightarrow> ustr \<Rightarrow> coverage_config result" where
  "load_coverage_audit_config config seal =
     rbind (page_spanning_policy config) (\<lambda>(spanning, gap).
     rbind (validate_background_table (field config ''background'')) (\<lambda>background.
     let gates_table = field config ''coverage_audit'' in
     rbind (case gates_table of Some v \<Rightarrow> validate_coverage_audit_table v
       | None \<Rightarrow> Inl (ContractError ''has no table'')) (\<lambda>gates.
     rbind (validate_provenance_block (provenance_of gates_table)) (\<lambda>_.
     rbind (validate_provenance_block (provenance_of
         (case gates_table of Some (JObj kvs) \<Rightarrow> field kvs ''noise_floor'' | _ \<Rightarrow> None))) (\<lambda>_.
       Inr \<lparr>cc_sha256 = seal, cc_gates = gates, cc_spanning_bp = spanning, cc_gap = gap,
            cc_ink_margin_bp = bv_ink_margin_bp background\<rparr>)))))"

section \<open>The basis of a page\<close>

record page_background =
  pb_level :: int
  pb_source :: background_source
  pb_dark_mode :: int
  pb_ink_margin :: int
  pb_contrast :: int
  pb_threshold :: int

definition page_background :: "int \<Rightarrow> int \<Rightarrow> int list list \<Rightarrow> background_policy \<Rightarrow> page_background result" where
  "page_background width height rows p =
     rbind (infer_background_evidence width height rows p) (\<lambda>ev.
     rbind (ink_threshold (be_background ev) MINIMUM_CONTRAST_BELOW_BACKGROUND) (\<lambda>threshold.
       Inr \<lparr>pb_level = be_background ev, pb_source = be_source ev, pb_dark_mode = be_dark_mode ev,
            pb_ink_margin = be_ink_margin ev, pb_contrast = MINIMUM_CONTRAST_BELOW_BACKGROUND,
            pb_threshold = threshold\<rparr>))"

definition runs_of_rows :: "int \<Rightarrow> int list list \<Rightarrow> (int \<times> span list) list" where
  "runs_of_rows threshold rows =
     filter (\<lambda>(y, runs). runs \<noteq> [])
       (zip [0..int (length rows) - 1] (map (\<lambda>row. runs_in_row (map (\<lambda>v. v \<le> threshold) row)) rows))"

text \<open>The mask, a scanline at a time; a run sets its half-open interval.\<close>

definition mark_run :: "yrun \<Rightarrow> bool list list \<Rightarrow> bool list list" where
  "mark_run run flags =
     (case run of (y, x0, x1) \<Rightarrow>
        flags[nat y := take (nat x0) (flags ! nat y) @ replicate (nat (x1 - x0)) True @ drop (nat x1) (flags ! nat y)])"

definition page_spanning :: "int \<Rightarrow> coverage_policy \<Rightarrow> component \<Rightarrow> bool" where
  "page_spanning page_area cp c \<longleftrightarrow>
     \<not> (box_w (comp_bounds c) * box_h (comp_bounds c) * BASIS_POINTS) div page_area < cp_spanning_bp cp"

definition page_spanning_components ::
  "int \<Rightarrow> int \<Rightarrow> int list list \<Rightarrow> int \<Rightarrow> int \<Rightarrow> coverage_policy \<Rightarrow> (component list \<times> bool list list) result option" where
  "page_spanning_components width height rows level margin cp =
     (case ink_threshold level margin of
        Inl e \<Rightarrow> Some (Inl e)
      | Inr threshold \<Rightarrow>
          do {
            labelled \<leftarrow> label_component_runs (runs_of_rows threshold rows) (cp_gap cp);
            Some (rbind labelled (\<lambda>cs.
              let found = filter (\<lambda>(c, runs). page_spanning (width * height) cp c) cs;
                  blank_mask = replicate (nat height) (replicate (nat width) False)
              in Inr (map fst found, fold mark_run (concat (map snd found)) blank_mask)))
          })"

record page_basis =
  basis_background :: page_background
  basis_spanning :: "box list"
  basis_mask :: "bool list list"

text \<open>The ink table is the predicate \<open>ink_sample\<close>; it is built for its refusal too.\<close>

definition page_ink_basis ::
  "int \<Rightarrow> int \<Rightarrow> int list list \<Rightarrow> background_policy \<Rightarrow> coverage_policy \<Rightarrow> page_basis result option" where
  "page_ink_basis width height rows p cp =
     (case page_background width height rows p of
        Inl e \<Rightarrow> Some (Inl e)
      | Inr pb \<Rightarrow>
          do {
            spanning \<leftarrow> page_spanning_components width height rows (pb_level pb) (pb_ink_margin pb) cp;
            Some (rbind spanning (\<lambda>(components, flags).
              rbind (ink_threshold (pb_level pb) MINIMUM_CONTRAST_BELOW_BACKGROUND) (\<lambda>_.
                Inr \<lparr>basis_background = pb, basis_spanning = map comp_bounds components, basis_mask = flags\<rparr>)))
          })"

definition residual_ink ::
  "int \<Rightarrow> int \<Rightarrow> int list list \<Rightarrow> box list \<Rightarrow> background_policy \<Rightarrow> coverage_policy \<Rightarrow>
     (page_basis \<times> residual_counts) result option" where
  "residual_ink width height rows covered_boxes p cp =
     do {
       basis \<leftarrow> page_ink_basis width height rows p cp;
       Some (rbind basis (\<lambda>b.
         Inr (b, residual_counts_of width height rows covered_boxes (pb_level (basis_background b)) (basis_mask b) cp)))
     }"

record ink_map =
  im_background :: page_background
  im_spanning :: "box list"
  im_edge :: "residual_counts \<times> int"
  im_runs :: json

definition ink_map_page ::
  "int \<Rightarrow> int \<Rightarrow> int list list \<Rightarrow> background_policy \<Rightarrow> coverage_policy \<Rightarrow> ink_map result option" where
  "ink_map_page width height rows p cp =
     do {
       basis \<leftarrow> page_ink_basis width height rows p cp;
       Some (rbind basis (\<lambda>b.
         Inr \<lparr>im_background = basis_background b, im_spanning = basis_spanning b,
              im_edge = edge_counts width height rows (pb_level (basis_background b)) (basis_mask b) cp,
              im_runs = audited_runs width height rows (pb_level (basis_background b)) (basis_mask b)\<rparr>))
     }"

section \<open>The ratio\<close>

definition fraction_outside :: "int \<Rightarrow> int \<Rightarrow> rat" where
  "fraction_outside total_ink outside = (if total_ink = 0 then 0 else binary64 (of_int outside / of_int total_ink))"

definition per_million :: "rat \<Rightarrow> int" where
  "per_million fraction = round_even (binary64 (fraction * 1000000))"

section \<open>The record the stage publishes\<close>

datatype measurement = Measured ink_map | NotMeasurable string

definition measure_page_bytes ::
  "(int \<times> int \<times> int list list) option \<Rightarrow> background_values \<Rightarrow> coverage_config \<Rightarrow> measurement result option" where
  "measure_page_bytes decoded background_config coverage =
     (case decoded of
        None \<Rightarrow> Some (Inl (FatalAccounting ''the ink map cannot measure the page''))
      | Some (width, height, rows) \<Rightarrow>
          (case rbind (resolve_background_policy background_config width height) (\<lambda>p.
             rbind (resolve_coverage_audit_policy (cc_gates coverage) (cc_spanning_bp coverage) (cc_gap coverage) width height)
               (\<lambda>cp. Inr (p, cp))) of
             Inl e \<Rightarrow> Some (Inl e)
           | Inr (p, cp) \<Rightarrow>
               do {
                 page \<leftarrow> ink_map_page width height rows p cp;
                 Some (case page of
                   Inr m \<Rightarrow> Inr (Measured m)
                 | Inl (BackgroundInferenceRefusal why) \<Rightarrow> Inr (NotMeasurable why)
                 | Inl e \<Rightarrow> Inl e)
               }))"

text \<open>\<open>artifact_finding\<close>: the finding with its ratio in millionths.\<close>

definition artifact_finding :: "ink_map \<Rightarrow> json" where
  "artifact_finding m =
     (let (counts, band) = im_edge m; measure = rc_measure counts in
      JObj [(u ''page_ink_pixels'', JInt (rc_page_ink counts)),
        (u ''page_spanning_ink_pixels'', JInt (rc_spanning_ink counts)),
        (u ''page_spanning_components'', JList (map bounds_json (im_spanning m))),
        (u ''total_ink_pixels'', JInt (ik_total measure)),
        (u ''outside_ink_pixels'', JInt (ik_outside measure)),
        (u ''flagged'', JBool (ik_flagged measure)),
        (u ''substantial_ink_pixels'', JInt (ik_substantial measure)),
        (u ''edge_band_pixels'', JInt band),
        (u ''named_finding'', JStr (u ''unclaimed-edge-ink'')),
        (u ''fraction_outside_per_million'', JInt (per_million (fraction_outside (ik_total measure) (ik_outside measure))))])"

definition background_json :: "page_background \<Rightarrow> ustr \<Rightarrow> json" where
  "background_json pb digest =
     JObj [(u ''background_level'', JInt (pb_level pb)), (u ''background_source'', JStr (u (source_name (pb_source pb)))),
       (u ''dark_mode'', JInt (pb_dark_mode pb)), (u ''ink_margin'', JInt (pb_ink_margin pb)),
       (u ''contrast_below_background'', JInt (pb_contrast pb)), (u ''ink_threshold'', JInt (pb_threshold pb)),
       (u ''config_sha256'', JStr digest)]"

definition ink_map_payload :: "int \<Rightarrow> ustr \<Rightarrow> measurement \<Rightarrow> json" where
  "ink_map_payload ordinal digest measurement =
     (case measurement of
        NotMeasurable why \<Rightarrow>
          JObj [(u ''page_ordinal'', JInt ordinal), (u ''ink_measurable'', JBool False),
            (u ''background_refusal'', JStr (u why)), (u ''background_config_sha256'', JStr digest)]
      | Measured m \<Rightarrow>
          JObj [(u ''page_ordinal'', JInt ordinal), (u ''ink_measurable'', JBool True),
            (u ''background'', background_json (im_background m) digest), (u ''edge'', artifact_finding m),
            (u ''edge_findings'', im_runs m)])"

section \<open>The reconciliation\<close>

definition EDGE_FINDING_FIELDS :: "string list" where
  "EDGE_FINDING_FIELDS = [''page_ink_pixels'', ''page_spanning_ink_pixels'', ''page_spanning_components'',
     ''total_ink_pixels'', ''outside_ink_pixels'', ''fraction_outside_per_million'', ''flagged'',
     ''substantial_ink_pixels'', ''edge_band_pixels'', ''named_finding'']"

definition EDGE_COUNT_FIELDS :: "string list" where
  "EDGE_COUNT_FIELDS = [''page_ink_pixels'', ''page_spanning_ink_pixels'', ''total_ink_pixels'',
     ''outside_ink_pixels'', ''fraction_outside_per_million'', ''substantial_ink_pixels'', ''edge_band_pixels'']"

definition edge_count :: "(ustr \<times> json) list \<Rightarrow> string \<Rightarrow> int result" where
  "edge_count kvs f =
     bounded_int kvs f (\<lambda>n. n \<ge> (if f \<in> set [''substantial_ink_pixels'', ''edge_band_pixels''] then 1 else 0))"

definition component_box :: "int \<Rightarrow> int \<Rightarrow> json \<Rightarrow> box result" where
  "component_box width height v =
     (case v of
        JObj kvs \<Rightarrow>
          if \<not> keys_are kvs BOX_KEYS then Inl (ContractError ''malformed component bounds'')
          else (case (field kvs ''x'', field kvs ''y'', field kvs ''w'', field kvs ''h'') of
            (Some (JInt x), Some (JInt y), Some (JInt w), Some (JInt h)) \<Rightarrow>
              if x < 0 \<or> y < 0 \<or> w \<le> 0 \<or> h \<le> 0 \<or> x + w > width \<or> y + h > height
              then Inl (ContractError ''out-of-page component bounds'')
              else Inr (mk_box x y w h)
          | _ \<Rightarrow> Inl (ContractError ''non-integer component bounds''))
      | _ \<Rightarrow> Inl (ContractError ''malformed component bounds''))"

definition reconcile_edge_finding_with_runs ::
  "json \<Rightarrow> json \<Rightarrow> coverage_policy \<Rightarrow> int \<times> int \<Rightarrow> (ink_measure \<times> int) result" where
  "reconcile_edge_finding_with_runs finding evidence cp expected =
     (case finding of
        JObj kvs \<Rightarrow>
          rbind (ensure (keys_are kvs EDGE_FINDING_FIELDS) (ContractError ''not a closed current record'')) (\<lambda>_.
          rbind (case edge_ink_from_runs evidence [] cp of
              Inl e \<Rightarrow> Inl (ContractError ''the retained ink-run evidence is invalid'') | Inr m \<Rightarrow> Inr m) (\<lambda>(measured, band).
          rbind (validated_ink_run_evidence evidence) (\<lambda>(width, height, _).
          rbind (ensure ((width, height) = expected) (ContractError ''not the sealed page's'')) (\<lambda>_.
          rbind (rmap (edge_count kvs) EDGE_COUNT_FIELDS) (\<lambda>counts.
          let page_ink = counts ! 0; spanning = counts ! 1; total_ink = counts ! 2; outside = counts ! 3;
              ratio = counts ! 4; substantial = counts ! 5; edge_px = counts ! 6 in
          rbind (ensure (\<not> ratio > 1000000) (ContractError ''fraction exceeds one million'')) (\<lambda>_.
          rbind (ensure (\<not> outside > total_ink) (ContractError ''more outside than total ink'')) (\<lambda>_.
          rbind (ensure (\<not> spanning > page_ink) (ContractError ''more spanning than page ink'')) (\<lambda>_.
          rbind (ensure (page_ink = spanning + total_ink) (ContractError ''does not partition page ink'')) (\<lambda>_.
          rbind (ensure (\<not> (page_ink > width * height \<or> total_ink > width * height))
            (ContractError ''exceeds the retained page area'')) (\<lambda>_.
          rbind (case field kvs ''flagged'' of Some (JBool b) \<Rightarrow> Inr b | _ \<Rightarrow> Inl (ContractError ''flagged'')) (\<lambda>flagged.
          rbind (ensure (field kvs ''named_finding'' = Some (JStr (u ''unclaimed-edge-ink'')))
            (ContractError ''wrong named finding'')) (\<lambda>_.
          rbind (case field kvs ''page_spanning_components'' of Some (JList vs) \<Rightarrow> rmap (component_box width height) vs
            | _ \<Rightarrow> Inl (ContractError ''components are not a list'')) (\<lambda>components.
          rbind (ensure (\<not> (components = [] \<and> spanning \<noteq> 0)) (ContractError ''page-spanning ink without component bounds'')) (\<lambda>_.
          rbind (ensure (\<not> spanning > sum_list (map (\<lambda>b. box_w b * box_h b) components))
            (ContractError ''page-spanning ink exceeds its component bounds'')) (\<lambda>_.
          rbind (ensure (total_ink = ik_total measured \<and> outside = ik_outside measured \<and> flagged = ik_flagged measured \<and>
              substantial = ik_substantial measured \<and> edge_px = band) (ContractError ''disagrees with its retained runs'')) (\<lambda>_.
          rbind (ensure (ratio = per_million (fraction_outside (ik_total measured) (ik_outside measured)))
            (ContractError ''fraction_outside_per_million disagrees'')) (\<lambda>_.
            Inr (measured, band))))))))))))))))))
      | _ \<Rightarrow> Inl (ContractError ''not a closed current record''))"

end
