(* ===== verification/LabelFacts.thy ===== *)
theory LabelFacts
  imports Labels
begin

text \<open>
  What the labelling of \<open>common/components.py\<close> computes: the pairs the sweep joins link two
  runs exactly when a chain of near runs does, the groups are the classes of that relation,
  and their pixels are the connected components of the ink under the Chebyshev distance.
\<close>

section \<open>The index table\<close>

definition row_runs :: "int \<times> span list \<Rightarrow> yrun list" where
  "row_runs row = map (\<lambda>(x0, x1). (fst row, x0, x1)) (snd row)"

lemma run_table_Cons: "run_table (row # rows) = row_runs row @ run_table rows"
  by (cases row) (simp add: run_table_def row_runs_def)

lemma run_table_Nil [simp]: "run_table [] = []"
  by (simp add: run_table_def)

lemma row_runs_simps [simp]:
  "length (row_runs row) = length (snd row)" "r \<in> set (row_runs row) \<Longrightarrow> run_y r = fst row"
  by (auto simp: row_runs_def)

lemma run_table_keys: "r \<in> set (run_table rows) \<Longrightarrow> run_y r \<in> fst ` set rows"
  by (force simp: run_table_def)

lemma index_rows_keys [simp]: "map fst (index_rows k rows) = map fst rows"
  by (induction k rows rule: index_rows.induct) auto

lemma index_rows_range: "(y, is) \<in> set (index_rows k rows) \<Longrightarrow> i \<in> set is \<Longrightarrow> i < k + length (run_table rows)"
  by (induction k rows rule: index_rows.induct) (auto simp: run_table_Cons)

lemma filter_all: "(\<And>x. x \<in> set xs \<Longrightarrow> P x) \<Longrightarrow> filter P xs = xs"
  by (simp add: filter_id_conv)

lemma filter_none: "(\<And>x. x \<in> set xs \<Longrightarrow> \<not> P x) \<Longrightarrow> filter P xs = []"
  by (simp add: filter_empty_conv)

lemma index_rows_lookup:
  assumes "distinct (map fst rows)" "y \<in> fst ` set rows" "\<forall>r \<in> set before. run_y r \<notin> fst ` set rows"
    "R = before @ run_table rows"
  shows "map_of (index_rows (length before) rows) y = Some (filter (\<lambda>i. run_y (R ! i) = y) [0..<length R])"
  using assms
proof (induction rows arbitrary: before)
  case (Cons row rows)
  obtain y0 spans where row: "row = (y0, spans)" by (cases row)
  let ?n = "length before" and ?s = "length spans"
  have R: "R = (before @ row_runs row) @ run_table rows" using Cons.prems by (simp add: run_table_Cons)
  have split: "[0..<length R] = [0..<?n] @ [?n..<?n + ?s] @ [?n + ?s..<length R]"
    using upt_add_eq_append [of 0 ?n "?s + length (run_table rows)"]
      upt_add_eq_append [of ?n "?n + ?s" "length (run_table rows)"] by (simp add: R row add.assoc)
  show ?case
  proof (cases "y = y0")
    case True
    have "run_y (R ! i) \<noteq> y" if "i < ?n" for i
      using that Cons.prems(3) True by (auto simp: R row nth_append dest: nth_mem)
    moreover have "run_y (R ! i) = y" if "?n \<le> i" "i < ?n + ?s" for i
    proof -
      have "i - ?n < ?s" using that by simp
      then show ?thesis using that True by (simp add: R row nth_append row_runs_def split_beta)
    qed
    moreover have "run_y (R ! i) \<noteq> y" if "?n + ?s \<le> i" "i < length R" for i
    proof -
      have "run_table rows ! (i - (?n + ?s)) \<in> set (run_table rows)" using that by (auto simp: R row)
      then have "run_y (run_table rows ! (i - (?n + ?s))) \<in> fst ` set rows" by (rule run_table_keys)
      then show ?thesis using that True Cons.prems(1) by (auto simp: R row nth_append)
    qed
    ultimately have "filter (\<lambda>i. run_y (R ! i) = y) [0..<length R] = [?n..<?n + ?s]"
      unfolding split filter_append by (simp add: filter_none filter_all)
    then show ?thesis using True by (simp add: row)
  next
    case False
    have "map_of (index_rows (length (before @ row_runs row)) rows) y =
        Some (filter (\<lambda>i. run_y (R ! i) = y) [0..<length R])"
    proof (rule Cons.IH)
      show "\<forall>r \<in> set (before @ row_runs row). run_y r \<notin> fst ` set rows"
      proof
        fix r assume "r \<in> set (before @ row_runs row)"
        then show "run_y r \<notin> fst ` set rows"
          using Cons.prems(1,3) row_runs_simps(2) [of r row] by (cases "r \<in> set before") auto
      qed
    qed (use Cons.prems False R in \<open>auto simp: row\<close>)
    then show ?thesis using False by (simp add: row)
  qed
qed simp

section \<open>Rows that hold runs\<close>

text \<open>
  What \<open>ink_runs_by_row\<close> and \<open>runs_in_row\<close> give: one entry per scanline, its runs not empty
  and ascending.
\<close>

definition ascending :: "span list \<Rightarrow> bool" where
  "ascending spans \<longleftrightarrow> sorted_wrt (\<lambda>p q. snd p \<le> fst q) spans \<and> (\<forall>p \<in> set spans. fst p < snd p)"

definition rows_of_runs :: "(int \<times> span list) list \<Rightarrow> bool" where
  "rows_of_runs rows \<longleftrightarrow> distinct (map fst rows) \<and> (\<forall>row \<in> set rows. ascending (snd row))"

definition left_of :: "yrun \<Rightarrow> yrun \<Rightarrow> bool" where
  "left_of r s \<longleftrightarrow> run_y r < run_y s \<or> run_y r = run_y s \<and> run_x1 r \<le> run_x0 s"

lemma row_runs_ascend:
  "ascending (snd row) \<Longrightarrow> sorted_wrt left_of (row_runs row) \<and> (\<forall>r \<in> set (row_runs row). run_x0 r < run_x1 r)"
  by (auto simp: ascending_def row_runs_def sorted_wrt_map left_of_def split_beta elim: sorted_wrt_mono_rel [rotated])

lemma run_table_ascends:
  assumes "\<forall>row \<in> set rows. ascending (snd row)" "sorted_wrt (<) (map fst rows)"
  shows "sorted_wrt left_of (run_table rows) \<and> (\<forall>r \<in> set (run_table rows). run_x0 r < run_x1 r)"
  using assms
proof (induction rows)
  case (Cons row rows)
  have "left_of r s" if "r \<in> set (row_runs row)" "s \<in> set (run_table rows)" for r s
  proof -
    have "run_y s \<in> fst ` set rows" using that(2) by (rule run_table_keys)
    then show ?thesis using that(1) Cons.prems(2) by (auto simp: left_of_def)
  qed
  then show ?case using Cons row_runs_ascend [of row]
    by (auto simp: run_table_Cons sorted_wrt_append)
qed simp

section \<open>The pairs the sweep joins\<close>

definition near :: "int \<Rightarrow> yrun \<Rightarrow> yrun \<Rightarrow> bool" where
  "near radius r s \<longleftrightarrow> \<bar>run_y r - run_y s\<bar> \<le> radius \<and>
     run_x0 r < run_x1 s + radius \<and> run_x0 s < run_x1 r + radius"

lemma near_sym: "near radius r s \<longleftrightarrow> near radius s r"
  by (auto simp: near_def)

text \<open>Runs of one scanline.\<close>

definition in_row :: "yrun list \<Rightarrow> nat list \<Rightarrow> bool" where
  "in_row R is \<longleftrightarrow> sorted_wrt (\<lambda>i j. run_x1 (R ! i) \<le> run_x0 (R ! j)) is \<and>
     (\<forall>i \<in> set is. run_x0 (R ! i) < run_x1 (R ! i))"

lemma in_row_Cons:
  "in_row R (i # is) \<longleftrightarrow> run_x0 (R ! i) < run_x1 (R ! i) \<and> in_row R is \<and>
     (\<forall>j \<in> set is. run_x1 (R ! i) \<le> run_x0 (R ! j))"
  by (auto simp: in_row_def)

lemma in_row_mono:
  "in_row R is \<Longrightarrow>
     sorted_wrt (\<lambda>a b. run_x0 (R ! a) \<le> run_x0 (R ! b) \<and> run_x1 (R ! a) \<le> run_x1 (R ! b)) is"
proof (induction "is")
  case (Cons i "is")
  then have "\<forall>j \<in> set is. run_x0 (R ! j) < run_x1 (R ! j)" by (simp add: in_row_def)
  with Cons show ?case by (force simp: in_row_Cons)
qed simp

lemma beside_pairs_range:
  "(i, j) \<in> set (beside_pairs R gap is) \<Longrightarrow> i \<in> set is \<and> j \<in> set is"
  by (induction R gap "is" rule: beside_pairs.induct) (auto split: if_splits)

lemma beside_pairs_near:
  "in_row R is \<Longrightarrow> (i, j) \<in> set (beside_pairs R gap is) \<Longrightarrow>
     run_x1 (R ! i) \<le> run_x0 (R ! j) \<and> run_x0 (R ! j) - run_x1 (R ! i) \<le> gap"
  by (induction R gap "is" rule: beside_pairs.induct) (auto simp: in_row_Cons split: if_splits)

lemma beside_pairs_link:
  "in_row R is \<Longrightarrow> sorted_wrt (\<lambda>i j. run_x0 (R ! j) - run_x1 (R ! i) \<le> gap \<longrightarrow>
     (i, j) \<in> (set (beside_pairs R gap is))\<^sup>*) is"
proof (induction R gap "is" rule: beside_pairs.induct)
  case (1 R gap left right rest)
  let ?P = "set (beside_pairs R gap (right # rest))" and ?Q = "set (beside_pairs R gap (left # right # rest))"
  have row: "in_row R (right # rest)" using "1.prems" by (simp add: in_row_Cons)
  have sub: "?P\<^sup>* \<subseteq> ?Q\<^sup>*" by (intro rtrancl_mono) simp
  have IH: "sorted_wrt (\<lambda>i j. run_x0 (R ! j) - run_x1 (R ! i) \<le> gap \<longrightarrow> (i, j) \<in> ?P\<^sup>*) (right # rest)"
    using "1.IH" row by (cases "run_x0 (R ! right) - run_x1 (R ! left) \<le> gap") simp_all
  have "(left, j) \<in> ?Q\<^sup>*" if j: "j \<in> set (right # rest)" "run_x0 (R ! j) - run_x1 (R ! left) \<le> gap" for j
  proof -
    have right: "run_x0 (R ! right) - run_x1 (R ! left) \<le> gap" "j \<noteq> right \<Longrightarrow> run_x0 (R ! j) - run_x1 (R ! right) \<le> gap"
      using "1.prems" j by (auto simp: in_row_Cons)
    then have "(left, right) \<in> ?Q" by simp
    moreover have "(right, j) \<in> ?Q\<^sup>*" if "j \<noteq> right"
      using IH right(2) j(1) that sub by auto
    ultimately show ?thesis by (cases "j = right") (auto intro: converse_rtrancl_into_rtrancl)
  qed
  moreover have "sorted_wrt (\<lambda>i j. run_x0 (R ! j) - run_x1 (R ! i) \<le> gap \<longrightarrow> (i, j) \<in> ?Q\<^sup>*) (right # rest)"
    using IH sub by (elim sorted_wrt_mono_rel [rotated]) blast
  ultimately show ?case by simp
qed simp_all

lemma takeWhile_filter: "sorted_wrt (\<lambda>a b. P b \<longrightarrow> P a) xs \<Longrightarrow> takeWhile P xs = filter P xs"
  by (induction xs) (auto simp: filter_empty_conv)

lemma dropWhile_filter: "sorted_wrt (\<lambda>a b. P b \<longrightarrow> P a) xs \<Longrightarrow> dropWhile P xs = filter (\<lambda>x. \<not> P x) xs"
  by (induction xs) (auto simp: filter_id_conv)

lemma above_pairs_range:
  "(i, j) \<in> set (above_pairs R radius previous current) \<Longrightarrow> i \<in> set current \<and> j \<in> set previous"
  by (induction R radius previous current rule: above_pairs.induct)
     (auto simp: Let_def dest: set_takeWhileD set_dropWhileD)

lemma above_pairs_set:
  assumes "in_row R previous" "in_row R current"
  shows "set (above_pairs R radius previous current) =
    {(i, j). i \<in> set current \<and> j \<in> set previous \<and>
       run_x0 (R ! i) < run_x1 (R ! j) + radius \<and> run_x0 (R ! j) < run_x1 (R ! i) + radius}"
  using assms
proof (induction R radius previous current rule: above_pairs.induct)
  case (2 R radius previous left current)
  let ?far = "\<lambda>r. run_x1 (R ! r) + radius \<le> run_x0 (R ! left)"
  let ?reach = "\<lambda>r. \<not> run_x0 (R ! r) \<ge> run_x1 (R ! left) + radius"
  have mono: "sorted_wrt (\<lambda>a b. run_x0 (R ! a) \<le> run_x0 (R ! b) \<and> run_x1 (R ! a) \<le> run_x1 (R ! b)) previous"
    using in_row_mono [OF "2.prems"(1)] .
  then have "dropWhile ?far previous = filter (\<lambda>r. \<not> ?far r) previous"
    by (intro dropWhile_filter) (auto elim: sorted_wrt_mono_rel [rotated])
  note drop = this
  have mono': "sorted_wrt (\<lambda>a b. run_x0 (R ! a) \<le> run_x0 (R ! b) \<and> run_x1 (R ! a) \<le> run_x1 (R ! b))
      (filter (\<lambda>r. \<not> ?far r) previous)"
    by (rule sorted_wrt_filter [OF mono])
  then have take: "takeWhile ?reach (filter (\<lambda>r. \<not> ?far r) previous) =
      filter ?reach (filter (\<lambda>r. \<not> ?far r) previous)"
    by (intro takeWhile_filter) (auto elim: sorted_wrt_mono_rel [rotated])
  have row: "in_row R (filter (\<lambda>r. \<not> ?far r) previous)" "in_row R current"
    using "2.prems" by (auto simp: in_row_def sorted_wrt_filter)
  have later: "\<forall>i \<in> set current. run_x0 (R ! left) \<le> run_x0 (R ! i)"
    using "2.prems"(2) by (force simp: in_row_Cons)
  show ?case
    using "2.IH" [OF refl] row later unfolding drop by (auto simp: Let_def drop take)
qed simp


definition row_indices :: "yrun list \<Rightarrow> int \<Rightarrow> nat list" where
  "row_indices R y = filter (\<lambda>i. run_y (R ! i) = y) [0..<length R]"

lemma row_indices_in_row:
  assumes "sorted_wrt left_of R" "\<forall>r \<in> set R. run_x0 r < run_x1 r"
  shows "in_row R (row_indices R y)"
proof -
  have "sorted_wrt (<) (row_indices R y)" unfolding row_indices_def by (rule sorted_wrt_filter) simp
  moreover have "run_x1 (R ! i) \<le> run_x0 (R ! j)" if "i \<in> set (row_indices R y)" "j \<in> set (row_indices R y)" "i < j" for i j
    using sorted_wrt_nth_less [OF assms(1) that(3)] that by (auto simp: row_indices_def left_of_def)
  ultimately have "sorted_wrt (\<lambda>i j. run_x1 (R ! i) \<le> run_x0 (R ! j)) (row_indices R y)"
    by (elim sorted_wrt_mono_rel [rotated])
  then show ?thesis using assms(2) by (auto simp: in_row_def row_indices_def)
qed

lemma sweep_pairs_iff:
  "(i, j) \<in> set (sweep_pairs R gap indices) \<longleftrightarrow>
     (\<exists>y cur. (y, cur) \<in> set indices \<and> ((i, j) \<in> set (beside_pairs R gap cur) \<or>
        (\<exists>y' prev. y - (gap + 1) \<le> y' \<and> y' < y \<and> map_of indices y' = Some prev \<and>
           (i, j) \<in> set (above_pairs R (gap + 1) prev cur))))"
proof -
  have one: "(i, j) \<in> set (case z of None \<Rightarrow> [] | Some prev \<Rightarrow> f prev) \<longleftrightarrow>
      (\<exists>prev. z = Some prev \<and> (i, j) \<in> set (f prev))" for z :: "'z option" and f
    by (cases z) auto
  have "y - (gap + 1) \<le> y' \<and> y' \<le> y - 1 \<longleftrightarrow> y - (gap + 1) \<le> y' \<and> y' < y" for y y' :: int by auto
  then show ?thesis
    by (auto simp: sweep_pairs_def Let_def one split_beta Bex_def) metis+
qed

lemma sweep_pairs_range:
  "(i, j) \<in> set (sweep_pairs R gap (index_rows 0 rows)) \<Longrightarrow> i < length (run_table rows) \<and> j < length (run_table rows)"
proof -
  assume "(i, j) \<in> set (sweep_pairs R gap (index_rows 0 rows))"
  then obtain y cur y' prev where cur: "(y, cur) \<in> set (index_rows 0 rows)" and
    "(i, j) \<in> set (beside_pairs R gap cur) \<or>
      (y', prev) \<in> set (index_rows 0 rows) \<and> (i, j) \<in> set (above_pairs R (gap + 1) prev cur)"
    unfolding sweep_pairs_iff by (metis map_of_SomeD)
  then show ?thesis
    using index_rows_range [OF cur] index_rows_range [of y' prev 0 rows]
    by (auto dest: beside_pairs_range above_pairs_range)
qed

definition links :: "yrun list \<Rightarrow> int \<Rightarrow> (nat \<times> nat) set" where
  "links R radius = {(i, j). i < length R \<and> j < length R \<and> near radius (R ! i) (R ! j)}"

lemma links_sym: "(i, j) \<in> links R radius \<longleftrightarrow> (j, i) \<in> links R radius"
  by (auto simp: links_def near_sym)

lemma sweep_pairs_link:
  assumes rows: "rows_of_runs rows" "sorted_wrt (<) (map fst rows)" and gap: "0 \<le> gap"
  defines "R \<equiv> run_table rows"
  defines "P \<equiv> set (sweep_pairs R gap (index_rows 0 rows))"
  shows "(P \<union> P\<inverse>)\<^sup>* = (links R (gap + 1))\<^sup>*"
proof (rule antisym)
  let ?I = "row_indices R" and ?idx = "index_rows 0 rows"
  have table: "sorted_wrt left_of R" "\<forall>r \<in> set R. run_x0 r < run_x1 r"
    using run_table_ascends rows by (auto simp: rows_of_runs_def R_def)
  have row: "in_row R (?I y)" for y using table by (rule row_indices_in_row)
  have lookup: "map_of ?idx y = Some (?I y)" if "y \<in> fst ` set rows" for y
    using index_rows_lookup [of rows y "[]" R] rows that by (simp add: rows_of_runs_def R_def row_indices_def)
  have lookup': "map_of ?idx y = Some cur \<Longrightarrow> cur = ?I y \<and> y \<in> fst ` set rows" for y cur
  proof -
    assume *: "map_of ?idx y = Some cur"
    then have "y \<in> fst ` set ?idx" by (force dest: map_of_SomeD)
    then have "y \<in> set (map fst ?idx)" by (simp only: set_map)
    then have "y \<in> fst ` set rows" unfolding index_rows_keys by simp
    then show ?thesis using * lookup by simp
  qed
  have keys: "run_y (R ! i) \<in> fst ` set rows" if "i < length R" for i
    using run_table_keys [of "R ! i" rows] that by (simp add: R_def)
  have member: "i \<in> set (?I y) \<longleftrightarrow> i < length R \<and> run_y (R ! i) = y" for i y
    by (auto simp: row_indices_def)
  have idx: "(y, cur) \<in> set ?idx \<longleftrightarrow> map_of ?idx y = Some cur" for y cur
    using rows by (simp add: rows_of_runs_def)
  have beside: "(i, j) \<in> P" if "(i, j) \<in> set (beside_pairs R gap (?I y))" "y \<in> fst ` set rows" for i j y
  proof -
    have "(y, ?I y) \<in> set ?idx" using idx lookup [OF that(2)] by simp
    with that(1) show ?thesis unfolding P_def sweep_pairs_iff by blast
  qed
  have above: "(i, j) \<in> P" if "(i, j) \<in> set (above_pairs R (gap + 1) (?I y') (?I y))"
    "y \<in> fst ` set rows" "y' \<in> fst ` set rows" "y - (gap + 1) \<le> y'" "y' < y" for i j y y'
  proof -
    have "(y, ?I y) \<in> set ?idx" using idx lookup [OF that(2)] by simp
    with that(1,4,5) lookup [OF that(3)] show ?thesis
      unfolding P_def sweep_pairs_iff by blast
  qed
  have sound: "(i, j) \<in> links R (gap + 1)" if "(i, j) \<in> P" for i j
  proof -
    from that obtain y cur where y: "map_of ?idx y = Some cur"
      and cases: "(i, j) \<in> set (beside_pairs R gap cur) \<or> (\<exists>y' prev. y - (gap + 1) \<le> y' \<and> y' < y \<and>
        map_of ?idx y' = Some prev \<and> (i, j) \<in> set (above_pairs R (gap + 1) prev cur))"
      unfolding P_def sweep_pairs_iff idx by blast
    have cur: "cur = ?I y" using lookup' [OF y] by simp
    from cases show ?thesis
    proof
      assume b: "(i, j) \<in> set (beside_pairs R gap cur)"
      have "i \<in> set (?I y)" "j \<in> set (?I y)" using beside_pairs_range [OF b] cur by auto
      moreover have "run_x1 (R ! i) \<le> run_x0 (R ! j) \<and> run_x0 (R ! j) - run_x1 (R ! i) \<le> gap"
        using beside_pairs_near [OF _ b] row cur by simp
      moreover have "run_x0 (R ! i) < run_x1 (R ! i)" "run_x0 (R ! j) < run_x1 (R ! j)"
        using table(2) calculation by (auto simp: member)
      ultimately show ?thesis using gap by (auto simp: links_def near_def member)
    next
      assume "\<exists>y' prev. y - (gap + 1) \<le> y' \<and> y' < y \<and>
        map_of ?idx y' = Some prev \<and> (i, j) \<in> set (above_pairs R (gap + 1) prev cur)"
      then obtain y' prev where y': "y - (gap + 1) \<le> y'" "y' < y" "map_of ?idx y' = Some prev"
        "(i, j) \<in> set (above_pairs R (gap + 1) prev cur)" by blast
      then show ?thesis using lookup' [OF y'(3)] above_pairs_set [OF row row] cur
        by (auto simp: links_def near_def member)
    qed
  qed
  have "(i, j) \<in> links R (gap + 1)" if "(j, i) \<in> P" for i j using sound [OF that] links_sym by metis
  with sound have "P \<union> P\<inverse> \<subseteq> links R (gap + 1)" by auto
  then show "(P \<union> P\<inverse>)\<^sup>* \<subseteq> (links R (gap + 1))\<^sup>*" by (rule rtrancl_mono)
  have linked: "(i, j) \<in> (P \<union> P\<inverse>)\<^sup>*"
    if ij: "i < length R" "j < length R" "near (gap + 1) (R ! i) (R ! j)" "i < j" for i j
  proof (cases "run_y (R ! i) = run_y (R ! j)")
    case True
    let ?y = "run_y (R ! i)"
    have sorted: "sorted_wrt (<) (?I ?y)" unfolding row_indices_def by (rule sorted_wrt_filter) simp
    have mem: "i \<in> set (?I ?y)" "j \<in> set (?I ?y)" using ij True by (simp_all add: member)
    obtain a b where ab: "a < length (?I ?y)" "?I ?y ! a = i" "b < length (?I ?y)" "?I ?y ! b = j"
      using mem by (auto simp: in_set_conv_nth)
    have "a < b"
    proof (rule ccontr)
      assume "\<not> a < b"
      then have "j \<le> i" using sorted_wrt_nth_less [OF sorted, of b a] ab by (cases "a = b") auto
      with ij(4) show False by simp
    qed
    have "run_x0 (R ! j) - run_x1 (R ! i) \<le> gap" using ij(3) by (simp add: near_def)
    then have "(i, j) \<in> (set (beside_pairs R gap (?I ?y)))\<^sup>*"
      using sorted_wrt_nth_less [OF beside_pairs_link [OF row [of ?y], of gap] \<open>a < b\<close>] ab by simp
    moreover have "set (beside_pairs R gap (?I ?y)) \<subseteq> P" using beside keys ij(1) by auto
    ultimately show ?thesis by (meson rtrancl_mono subsetD sup.coboundedI1)
  next
    case False
    have "left_of (R ! i) (R ! j)" using sorted_wrt_nth_less [OF table(1) ij(4,2)] .
    with False have lt: "run_y (R ! i) < run_y (R ! j)" by (simp add: left_of_def)
    have "(j, i) \<in> set (above_pairs R (gap + 1) (?I (run_y (R ! i))) (?I (run_y (R ! j))))"
      using ij by (simp add: above_pairs_set [OF row row] member near_def)
    then have "(j, i) \<in> P" using keys ij lt by (intro above [of j i]) (auto simp: near_def)
    then show ?thesis by auto
  qed
  have "(i, j) \<in> (P \<union> P\<inverse>)\<^sup>*" if ij: "(i, j) \<in> links R (gap + 1)" for i j
  proof -
    have sym: "sym ((P \<union> P\<inverse>)\<^sup>*)" by (intro sym_rtrancl) (auto simp: sym_def)
    consider "i = j" | "i < j" | "j < i" by linarith
    then show ?thesis
      using ij linked [of i j] linked [of j i] symD [OF sym, of j i] by cases (auto simp: links_def near_sym)
  qed
  then have "links R (gap + 1) \<subseteq> (P \<union> P\<inverse>)\<^sup>*" by auto
  then show "(links R (gap + 1))\<^sup>* \<subseteq> (P \<union> P\<inverse>)\<^sup>*" by (rule rtrancl_subset_rtrancl)
qed


section \<open>The groups\<close>

definition grouped_upto :: "nat list \<Rightarrow> nat \<Rightarrow> (nat \<times> nat list) list \<Rightarrow> bool" where
  "grouped_upto p k groups \<longleftrightarrow> distinct (map fst groups) \<and>
    (\<forall>r g. map_of groups r = Some g \<longrightarrow> g = filter (\<lambda>i. root p i r) [0..<k] \<and> g \<noteq> []) \<and>
    (\<forall>i < k. \<exists>r \<in> fst ` set groups. root p i r)"

lemma group_roots_step:
  assumes "grouped_upto p k groups" "root p k r"
  shows "grouped_upto p (Suc k) (AList.update r (case map_of groups r of None \<Rightarrow> [k] | Some g \<Rightarrow> g @ [k]) groups)"
    (is "grouped_upto p _ (AList.update r ?g groups)")
proof -
  have upto: "distinct (map fst groups)"
    "\<And>r g. map_of groups r = Some g \<Longrightarrow> g = filter (\<lambda>i. root p i r) [0..<k] \<and> g \<noteq> []"
    "\<And>i. i < k \<Longrightarrow> \<exists>r \<in> fst ` set groups. root p i r"
    using assms(1) by (auto simp: grouped_upto_def)
  have only: "root p k s \<longleftrightarrow> s = r" for s using assms(2) root_unique by blast
  have g: "?g = filter (\<lambda>i. root p i r) [0..<Suc k]"
  proof (cases "map_of groups r")
    case None
    then have "\<not> root p i r" if "i < k" for i
      using upto(3) [OF that] root_unique by (metis map_of_eq_None_iff)
    then show ?thesis using None assms(2) by simp
  next
    case (Some g)
    show ?thesis using upto(2) [OF Some] Some assms(2) by simp
  qed
  have other: "g = filter (\<lambda>i. root p i s) [0..<Suc k] \<and> g \<noteq> []"
    if "map_of groups s = Some g" "s \<noteq> r" for s g
    using upto(2) [OF that(1)] that(2) only by auto
  have "filter (\<lambda>i. root p i r) [0..<Suc k] \<noteq> []" using assms(2) by simp
  then have "\<forall>s h. map_of (AList.update r ?g groups) s = Some h \<longrightarrow>
      h = filter (\<lambda>i. root p i s) [0..<Suc k] \<and> h \<noteq> []"
    unfolding g using other by (auto simp del: upt_Suc simp: update_conv)
  moreover have "\<exists>s \<in> fst ` set (AList.update r ?g groups). root p i s" if "i < Suc k" for i
    using upto(3) [of i] that assms(2) by (auto simp: dom_update less_Suc_eq)
  ultimately show ?thesis unfolding grouped_upto_def using upto(1) by (simp add: distinct_update)
qed

lemma group_roots_returns:
  assumes "ranked n q rank" "\<forall>j < n. \<forall>r. root q j r \<longleftrightarrow> root p j r" "grouped_upto p k groups" "k \<le> n"
  shows "\<exists>gs. group_roots q [k..<n] groups = Some gs \<and> grouped_upto p n gs"
  using assms
proof (induction "n - k" arbitrary: k q groups)
  case 0
  then show ?case by auto
next
  case (Suc d)
  then have k: "k < n" by simp
  obtain r q' where q': "find_root q k = Some (r, q')" "root q k r" "ranked n q' rank"
    "\<forall>j < n. \<forall>k. root q' j k \<longleftrightarrow> root q j k" using find_root_returns [OF Suc.prems(1) k] by blast
  have "root p k r" using q'(2) Suc.prems(2) k by blast
  then have step: "grouped_upto p (Suc k) (AList.update r (case map_of groups r of None \<Rightarrow> [k] | Some g \<Rightarrow> g @ [k]) groups)"
    using group_roots_step [OF Suc.prems(3)] by blast
  have "\<exists>gs. group_roots q' [Suc k..<n]
      (AList.update r (case map_of groups r of None \<Rightarrow> [k] | Some g \<Rightarrow> g @ [k]) groups) = Some gs \<and> grouped_upto p n gs"
    using Suc.hyps(2) q'(3,4) Suc.prems(2) step k by (intro Suc.hyps(1)) auto
  then show ?case by (simp add: upt_conv_Cons [OF k] q'(1))
qed

text \<open>
  The classes of a relation on the first \<open>n\<close> numbers, each ascending.
\<close>

lemma grouped:
  assumes "\<forall>(i, j) \<in> set ps. i < n \<and> j < n"
  defines "L \<equiv> (set ps \<union> (set ps)\<inverse>)\<^sup>*"
  shows "\<exists>p gs. union_pairs [0..<n] ps = Some p \<and> group_roots p [0..<n] [] = Some gs \<and> distinct (map snd gs) \<and>
    snd ` set gs = {filter (\<lambda>j. (i, j) \<in> L) [0..<n] |i. i < n}"
proof -
  obtain p where p: "union_pairs [0..<n] ps = Some p" "forest n p"
    and same: "\<And>a b. a < n \<Longrightarrow> b < n \<Longrightarrow> same_root p a b \<longleftrightarrow> (a, b) \<in> L"
    using union_pairs_joins [OF assms(1)] unfolding L_def by blast
  obtain rank where rank: "ranked n p rank" using p(2) by (auto simp: forest_def)
  obtain gs where gs: "group_roots p [0..<n] [] = Some gs" "distinct (map fst gs)"
    "\<And>r g. map_of gs r = Some g \<Longrightarrow> g = filter (\<lambda>i. root p i r) [0..<n] \<and> g \<noteq> []"
    "\<And>i. i < n \<Longrightarrow> \<exists>r \<in> fst ` set gs. root p i r"
    using group_roots_returns [OF rank, of p 0 "[]"] by (auto simp: grouped_upto_def)
  have cls: "filter (\<lambda>j. root p j r) [0..<n] = filter (\<lambda>j. (i, j) \<in> L) [0..<n]" if "i < n" "root p i r" for i r
  proof (rule filter_cong [OF refl])
    fix j assume "j \<in> set [0..<n]"
    then have "same_root p i j \<longleftrightarrow> (i, j) \<in> L" using same that(1) by simp
    then show "root p j r \<longleftrightarrow> (i, j) \<in> L" using that(2) root_unique unfolding same_root_def by metis
  qed
  have mem: "g = filter (\<lambda>i. root p i r) [0..<n] \<and> g \<noteq> []" if "(r, g) \<in> set gs" for r g
    using gs(3) map_of_is_SomeI [OF gs(2) that] by blast
  have "snd ` set gs = {filter (\<lambda>j. (i, j) \<in> L) [0..<n] |i. i < n}"
  proof (intro equalityI subsetI)
    fix g assume "g \<in> snd ` set gs"
    then obtain r where r: "(r, g) \<in> set gs" by auto
    then obtain i where "i < n" "root p i r" using mem [OF r] by (auto simp: filter_empty_conv)
    then show "g \<in> {filter (\<lambda>j. (i, j) \<in> L) [0..<n] |i. i < n}" using mem [OF r] cls by auto
  next
    fix g assume "g \<in> {filter (\<lambda>j. (i, j) \<in> L) [0..<n] |i. i < n}"
    then obtain i where i: "i < n" "g = filter (\<lambda>j. (i, j) \<in> L) [0..<n]" by blast
    obtain r h where r: "(r, h) \<in> set gs" "root p i r" using gs(4) [OF i(1)] by auto
    then show "g \<in> snd ` set gs" using mem [OF r(1)] cls [OF i(1) r(2)] i(2) by force
  qed
  moreover have "distinct (map snd gs)"
  proof -
    have "inj_on snd (set gs)"
    proof (rule inj_onI, clarsimp)
      fix r s g assume "(r, g) \<in> set gs" "(s, g) \<in> set gs"
      then have g: "g = filter (\<lambda>i. root p i r) [0..<n]" "g = filter (\<lambda>i. root p i s) [0..<n]" "g \<noteq> []"
        using mem by blast+
      from g(3) have i: "hd g \<in> set g" by simp
      have "root p (hd g) r" using i by (subst (asm) (2) g(1)) simp
      moreover have "root p (hd g) s" using i by (subst (asm) (2) g(2)) simp
      ultimately show "r = s" by (rule root_unique)
    qed
    then show ?thesis using gs(2) by (simp add: distinct_map)
  qed
  ultimately show ?thesis using p(1) gs(1) by blast
qed

end
