(* ===== verification/Components.thy ===== *)
theory Components
  imports LabelFacts "HOL-Library.Multiset"
begin

text \<open>
  The labelling of \<open>common/components.py\<close> against its specification on pixels: the groups of
  runs are exactly the connected components of the ink under the Chebyshev distance, with
  tight bounds, exact counts and a strict total order, and the labelling always returns.
\<close>

section \<open>Pixels\<close>

definition run_pixels :: "yrun \<Rightarrow> (int \<times> int) set" where
  "run_pixels r = {run_x0 r..<run_x1 r} \<times> {run_y r}"

definition pixels_of :: "yrun list \<Rightarrow> (int \<times> int) set" where
  "pixels_of runs = (\<Union>r \<in> set runs. run_pixels r)"

definition ink_of :: "(int \<times> span list) list \<Rightarrow> (int \<times> int) set" where
  "ink_of rows = {(x, y). \<exists>spans. (y, spans) \<in> set rows \<and> (\<exists>(x0, x1) \<in> set spans. x0 \<le> x \<and> x < x1)}"

text \<open>Two ink pixels with at most \<open>gap\<close> blank pixels between them in any direction.\<close>

definition touching :: "int \<Rightarrow> (int \<times> int) set \<Rightarrow> ((int \<times> int) \<times> (int \<times> int)) set" where
  "touching gap S = {(p, q). p \<in> S \<and> q \<in> S \<and> \<bar>fst p - fst q\<bar> \<le> gap + 1 \<and> \<bar>snd p - snd q\<bar> \<le> gap + 1}"

definition connected :: "int \<Rightarrow> (int \<times> int) set \<Rightarrow> (int \<times> int) set set" where
  "connected gap S = S // (touching gap S)\<^sup>*"

lemma pixels_of_run_table: "pixels_of (run_table rows) = ink_of rows"
  by (fastforce simp: pixels_of_def run_table_def run_pixels_def ink_of_def)

lemma near_touching:
  assumes "0 \<le> gap" "run_x0 r < run_x1 r" "run_x0 s < run_x1 s"
  shows "near (gap + 1) r s \<longleftrightarrow> (\<exists>p \<in> run_pixels r. \<exists>q \<in> run_pixels s.
    \<bar>fst p - fst q\<bar> \<le> gap + 1 \<and> \<bar>snd p - snd q\<bar> \<le> gap + 1)" (is "_ = ?touch")
proof
  assume n: "near (gap + 1) r s"
  define a where "a = (if run_x1 r \<le> run_x0 s then run_x1 r - 1 else max (run_x0 r) (run_x0 s))"
  define b where "b = (if run_x1 s \<le> run_x0 r then run_x1 s - 1 else max (run_x0 r) (run_x0 s))"
  have "(if run_x1 s \<le> run_x0 r then run_x0 r else a, run_y r) \<in> run_pixels r"
    "(if run_x1 r \<le> run_x0 s then run_x0 s else b, run_y s) \<in> run_pixels s"
    using assms by (auto simp: run_pixels_def a_def b_def)
  moreover have "\<bar>(if run_x1 s \<le> run_x0 r then run_x0 r else a) -
      (if run_x1 r \<le> run_x0 s then run_x0 s else b)\<bar> \<le> gap + 1"
    using n assms by (auto simp: near_def a_def b_def)
  ultimately show ?touch using n by (auto simp: near_def intro!: bexI)
next
  assume ?touch
  then show "near (gap + 1) r s" by (auto simp: near_def run_pixels_def)
qed

text \<open>The pixels of one run are connected.\<close>

lemma run_connected:
  assumes gap: "0 \<le> gap" and r: "run_pixels r \<subseteq> S" and pq: "p \<in> run_pixels r" "q \<in> run_pixels r"
  shows "(p, q) \<in> (touching gap S)\<^sup>*"
proof -
  have right: "((x, run_y r), (x', run_y r)) \<in> (touching gap S)\<^sup>*"
    if "run_x0 r \<le> x" "x \<le> x'" "x' < run_x1 r" for x x'
    using that(2,3)
  proof (induction x' rule: int_ge_induct)
    case (step x')
    have "(x', run_y r) \<in> S" "(x' + 1, run_y r) \<in> S"
      using step that(1) r by (auto simp: run_pixels_def subset_iff)
    then have "((x', run_y r), (x' + 1, run_y r)) \<in> touching gap S" using gap by (simp add: touching_def)
    with step show ?case by (auto intro: rtrancl_into_rtrancl)
  qed simp
  have "sym ((touching gap S)\<^sup>*)" by (intro sym_rtrancl) (auto simp: sym_def touching_def abs_minus_commute)
  then show ?thesis
    using pq right [of "fst p" "fst q"] right [of "fst q" "fst p"]
    by (cases "fst p \<le> fst q") (auto simp: run_pixels_def dest: symD)
qed

section \<open>Runs near each other hold pixels that touch\<close>

definition linked_runs :: "yrun list \<Rightarrow> int \<Rightarrow> nat \<Rightarrow> nat list" where
  "linked_runs R gap i = filter (\<lambda>j. (i, j) \<in> (links R (gap + 1))\<^sup>*) [0..<length R]"

lemma linked_pixels:
  assumes gap: "0 \<le> gap" and pos: "\<forall>r \<in> set R. run_x0 r < run_x1 r"
    and i: "i < length R" "p \<in> run_pixels (R ! i)"
  shows "(touching gap (pixels_of R))\<^sup>* `` {p} = pixels_of (map (nth R) (linked_runs R gap i))"
    (is "?T\<^sup>* `` _ = ?C")
proof -
  have S: "q \<in> pixels_of R \<longleftrightarrow> (\<exists>j < length R. q \<in> run_pixels (R ! j))" for q
    unfolding pixels_of_def UN_iff by (metis in_set_conv_nth)
  have C: "q \<in> ?C \<longleftrightarrow> (\<exists>j < length R. (i, j) \<in> (links R (gap + 1))\<^sup>* \<and> q \<in> run_pixels (R ! j))" for q
    by (auto simp: pixels_of_def linked_runs_def)
  have sub: "run_pixels (R ! j) \<subseteq> pixels_of R" if "j < length R" for j using that S by blast
  have "q \<in> ?C" if "(p, q) \<in> ?T\<^sup>*" for q
    using that
  proof (induction rule: rtrancl_induct)
    case base
    then show ?case using i C by blast
  next
    case (step q q')
    obtain j where j: "j < length R" "(i, j) \<in> (links R (gap + 1))\<^sup>*" "q \<in> run_pixels (R ! j)"
      using step.IH C by blast
    obtain k where k: "k < length R" "q' \<in> run_pixels (R ! k)"
      using step.hyps(2) S by (auto simp: touching_def)
    have "near (gap + 1) (R ! j) (R ! k)"
      using near_touching [OF gap] pos j k step.hyps(2) by (auto simp: touching_def)
    then have "(j, k) \<in> links R (gap + 1)" using j(1) k(1) by (simp add: links_def)
    then show ?case using j(2) k C by (blast intro: rtrancl_into_rtrancl)
  qed
  moreover have "\<forall>q \<in> run_pixels (R ! j). (p, q) \<in> ?T\<^sup>*" if "(i, j) \<in> (links R (gap + 1))\<^sup>*" for j
    using that
  proof (induction rule: rtrancl_induct)
    case base
    then show ?case using run_connected [OF gap sub [OF i(1)] i(2)] by blast
  next
    case (step j k)
    have jk: "j < length R" "k < length R" "near (gap + 1) (R ! j) (R ! k)" using step.hyps(2) by (auto simp: links_def)
    obtain a b where ab: "a \<in> run_pixels (R ! j)" "b \<in> run_pixels (R ! k)"
      "\<bar>fst a - fst b\<bar> \<le> gap + 1 \<and> \<bar>snd a - snd b\<bar> \<le> gap + 1"
      using near_touching [OF gap, of "R ! j" "R ! k"] pos jk by auto
    have "(a, b) \<in> ?T" using ab sub jk by (auto simp: touching_def)
    moreover have "(p, a) \<in> ?T\<^sup>*" using step.IH ab(1) by blast
    ultimately have "(p, b) \<in> ?T\<^sup>*" by (rule rtrancl_into_rtrancl [rotated])
    then show ?case using run_connected [OF gap sub [OF jk(2)] ab(2)] by (blast intro: rtrancl_trans)
  qed
  ultimately show ?thesis using C by blast
qed


section \<open>The measures of a component\<close>

definition tight_box :: "box \<Rightarrow> (int \<times> int) set \<Rightarrow> bool" where
  "tight_box b C \<longleftrightarrow>
     box_x b = Min (fst ` C) \<and> box_x b + box_w b = Max (fst ` C) + 1 \<and>
     box_y b = Min (snd ` C) \<and> box_y b + box_h b = Max (snd ` C) + 1"

definition runs_ordered :: "yrun list \<Rightarrow> bool" where
  "runs_ordered rs \<longleftrightarrow> sorted_wrt left_of rs \<and> (\<forall>r \<in> set rs. run_x0 r < run_x1 r)"

lemma run_pixels_card: "run_x0 r < run_x1 r \<Longrightarrow> int (card (run_pixels r)) = run_x1 r - run_x0 r"
  by (simp add: run_pixels_def card_cartesian_product)

lemma finite_run_pixels [simp]: "finite (run_pixels r)" "finite (pixels_of rs)"
  by (auto simp: run_pixels_def pixels_of_def)

lemma pixels_of_simps [simp]: "pixels_of [] = {}" "pixels_of (r # rs) = run_pixels r \<union> pixels_of rs"
  by (simp_all add: pixels_of_def)

lemma left_of_disjoint: "left_of r s \<Longrightarrow> run_pixels r \<inter> run_pixels s = {}"
  by (auto simp: left_of_def run_pixels_def)

lemma runs_ordered_card:
  "runs_ordered rs \<Longrightarrow> sum_list (map (\<lambda>r. run_x1 r - run_x0 r) rs) = int (card (pixels_of rs))"
proof (induction rs)
  case (Cons r rs)
  then have tail: "runs_ordered rs" and r: "run_x0 r < run_x1 r" "\<forall>s \<in> set rs. left_of r s" by (auto simp: runs_ordered_def)
  have "run_pixels r \<inter> pixels_of rs = {}" using r(2) left_of_disjoint by (fastforce simp: pixels_of_def)
  then have "card (pixels_of (r # rs)) = card (run_pixels r) + card (pixels_of rs)" by (simp add: card_Un_disjoint)
  with Cons.IH [OF tail] run_pixels_card [OF r(1)] show ?case by simp
qed simp

lemma hd_last_y:
  assumes "runs_ordered rs" "r \<in> set rs"
  shows "run_y (hd rs) \<le> run_y r" "run_y r \<le> run_y (last rs)"
proof -
  have mono: "sorted_wrt (\<lambda>r s. run_y r \<le> run_y s) rs"
    by (rule sorted_wrt_mono_rel [of _ left_of]) (use assms(1) in \<open>auto simp: runs_ordered_def left_of_def\<close>)
  show "run_y (hd rs) \<le> run_y r" using mono assms(2) by (cases rs) auto
  show "run_y r \<le> run_y (last rs)" using mono assms(2) by (induction rs) (auto split: if_splits)
qed

lemma pixels_extent:
  assumes rs: "runs_ordered rs" "rs \<noteq> []"
  shows "Min (fst ` pixels_of rs) = Min (run_x0 ` set rs)"
    "Max (fst ` pixels_of rs) + 1 = Max (run_x1 ` set rs)"
    "Min (snd ` pixels_of rs) = run_y (hd rs)"
    "Max (snd ` pixels_of rs) = run_y (last rs)"
    "Min (pixels_of rs) = Min ((\<lambda>r. (run_x0 r, run_y r)) ` set rs)"
proof -
  have pos: "run_x0 r < run_x1 r" if "r \<in> set rs" for r using rs(1) that by (simp add: runs_ordered_def)
  have ends: "(run_x0 r, run_y r) \<in> pixels_of rs" "(run_x1 r - 1, run_y r) \<in> pixels_of rs" if "r \<in> set rs" for r
    using pos [OF that] that by (auto simp: pixels_of_def run_pixels_def intro!: bexI [of _ r])
  have fst_ends: "run_x0 r \<in> fst ` pixels_of rs" "run_x1 r - 1 \<in> fst ` pixels_of rs" if "r \<in> set rs" for r
    using ends [OF that] by (force intro: rev_image_eqI)+
  have inside: "\<exists>r \<in> set rs. run_x0 r \<le> fst p \<and> fst p < run_x1 r \<and> snd p = run_y r" if "p \<in> pixels_of rs" for p
    using that unfolding pixels_of_def run_pixels_def by (cases p) auto
  have nonempty: "set rs \<noteq> {}" using rs(2) by simp
  have "Min (run_x0 ` set rs) \<in> run_x0 ` set rs" using nonempty by (intro Min_in) auto
  moreover have "Min (run_x0 ` set rs) \<le> x" if x: "x \<in> fst ` pixels_of rs" for x
  proof -
    obtain r where r: "r \<in> set rs" "run_x0 r \<le> x" using x inside by fastforce
    then have "Min (run_x0 ` set rs) \<le> run_x0 r" by (intro Min_le) auto
    then show ?thesis using r(2) by (rule order_trans)
  qed
  ultimately show "Min (fst ` pixels_of rs) = Min (run_x0 ` set rs)"
    using fst_ends(1) by (intro Min_eqI) auto
  have "Max (run_x1 ` set rs) \<in> run_x1 ` set rs" using nonempty by (intro Max_in) auto
  moreover have "x \<le> Max (run_x1 ` set rs) - 1" if x: "x \<in> fst ` pixels_of rs" for x
  proof -
    obtain r where r: "r \<in> set rs" "x < run_x1 r" using x inside by fastforce
    then have "run_x1 r \<le> Max (run_x1 ` set rs)" by (intro Max_ge) auto
    with r(2) have "x < Max (run_x1 ` set rs)" by (rule order_less_le_trans)
    then show ?thesis by simp
  qed
  ultimately have "Max (fst ` pixels_of rs) = Max (run_x1 ` set rs) - 1"
    using fst_ends(2) by (intro Max_eqI) auto
  then show "Max (fst ` pixels_of rs) + 1 = Max (run_x1 ` set rs)" by simp
  show "Min (snd ` pixels_of rs) = run_y (hd rs)"
    using inside hd_last_y(1) [OF rs(1)] ends(1) [of "hd rs"] rs(2)
    by (intro Min_eqI) (force intro: rev_image_eqI)+
  show "Max (snd ` pixels_of rs) = run_y (last rs)"
    using inside hd_last_y(2) [OF rs(1)] ends(1) [of "last rs"] rs(2)
    by (intro Max_eqI) (force intro: rev_image_eqI)+
  have "Min ((\<lambda>r. (run_x0 r, run_y r)) ` set rs) \<in> (\<lambda>r. (run_x0 r, run_y r)) ` set rs"
    using nonempty by (intro Min_in) auto
  moreover have "Min ((\<lambda>r. (run_x0 r, run_y r)) ` set rs) \<le> p" if p: "p \<in> pixels_of rs" for p
  proof -
    obtain r where r: "r \<in> set rs" "run_x0 r \<le> fst p" "snd p = run_y r" using inside [OF p] by blast
    have "Min ((\<lambda>r. (run_x0 r, run_y r)) ` set rs) \<le> (run_x0 r, run_y r)" using r(1) by (intro Min_le) auto
    also have "(run_x0 r, run_y r) \<le> p" using r(2,3) by (cases p) auto
    finally show ?thesis .
  qed
  ultimately show "Min (pixels_of rs) = Min ((\<lambda>r. (run_x0 r, run_y r)) ` set rs)"
    using ends(1) by (intro Min_eqI) auto
qed

lemma component_measures:
  assumes g: "sorted_wrt left_of R" "\<forall>r \<in> set R. run_x0 r < run_x1 r"
    "sorted_wrt (<) g" "g \<noteq> []" "\<forall>i \<in> set g. i < length R"
  defines "C \<equiv> pixels_of (map (nth R) g)"
  shows "comp_pixels (component_of R g) = int (card C)" "tight_box (comp_bounds (component_of R g)) C"
    "component_order R (component_of R g, g) =
      (box_y (comp_bounds (component_of R g)), box_x (comp_bounds (component_of R g)), Min C)"
proof -
  have "sorted_wrt left_of (map (nth R) g)"
    unfolding sorted_wrt_map using g(3)
    by (rule sorted_wrt_mono_rel [rotated]) (use g(5) in \<open>auto intro: sorted_wrt_nth_less [OF g(1)]\<close>)
  then have rs: "runs_ordered (map (nth R) g)" "map (nth R) g \<noteq> []" using g by (auto simp: runs_ordered_def)
  show "comp_pixels (component_of R g) = int (card C)"
    using runs_ordered_card [OF rs(1)] by (simp add: component_of_def Let_def C_def o_def)
  note extent = pixels_extent [OF rs, folded C_def, unfolded set_map image_image]
  show "tight_box (comp_bounds (component_of R g)) C"
    using g(4) by (simp add: tight_box_def extent component_of_def Let_def mk_box_def hd_map last_map image_image)
  show "component_order R (component_of R g, g) =
      (box_y (comp_bounds (component_of R g)), box_x (comp_bounds (component_of R g)), Min C)"
    by (simp add: component_order_def extent)
qed


section \<open>The labelling\<close>

lemma label_groups:
  assumes rows: "rows_of_runs rows" and gap: "0 \<le> gap"
  defines "R \<equiv> run_table (sort_key fst rows)"
  shows "\<exists>gs. label_component_runs rows gap = Some (Inr (map (\<lambda>g. (component_of R g, map (nth R) g)) gs)) \<and>
    distinct gs \<and> set gs = {linked_runs R gap i |i. i < length R} \<and>
    sorted (map (\<lambda>g. component_order R (component_of R g, g)) gs)"
proof -
  let ?ps = "sweep_pairs R gap (index_rows 0 (sort_key fst rows))" and ?n = "length R"
  have sorted_rows: "rows_of_runs (sort_key fst rows)" "sorted_wrt (<) (map fst (sort_key fst rows))"
    using rows by (auto simp: rows_of_runs_def strict_sorted_iff distinct_map)
  have range: "\<forall>(i, j) \<in> set ?ps. i < ?n \<and> j < ?n" using sweep_pairs_range by (auto simp: R_def)
  obtain p gs where p: "union_pairs [0..<?n] ?ps = Some p" "group_roots p [0..<?n] [] = Some gs"
    "distinct (map snd gs)" "snd ` set gs = {linked_runs R gap i |i. i < ?n}"
    using grouped [OF range] sweep_pairs_link [OF sorted_rows gap, folded R_def] unfolding linked_runs_def by auto
  define es where "es = sort_key (component_order R) (map (\<lambda>(r, members). (component_of R members, members)) gs)"
  have es: "e = (component_of R (snd e), snd e)" if "e \<in> set es" for e using that by (auto simp: es_def)
  have result: "label_component_runs rows gap = Some (Inr (map (\<lambda>(c, members). (c, map (nth R) members)) es))"
    if "rows \<noteq> []"
    using gap that p(1,2) by (simp add: label_component_runs_def Let_def es_def flip: R_def)
  have "map (\<lambda>(c, members). (c, map (nth R) members)) es = map (\<lambda>g. (component_of R g, map (nth R) g)) (map snd es)"
    using es by (auto simp: split_beta)
  moreover have "mset (map snd es) = mset (map snd gs)"
    unfolding es_def by (simp add: image_mset.compositionality o_def split_beta)
  then have "distinct (map snd es)" "set (map snd es) = snd ` set gs"
    using p(3) mset_eq_imp_distinct_iff mset_eq_setD by (metis, metis list.set_map)
  moreover have "map (\<lambda>g. component_order R (component_of R g, g)) (map snd es) = map (component_order R) es"
    using es by auto
  moreover have "sorted (map (component_order R) es)" by (simp add: es_def)
  moreover have "label_component_runs rows gap = Some (Inr (map (\<lambda>(c, members). (c, map (nth R) members)) es))"
  proof (cases "rows = []")
    case True
    then have "R = []" by (simp add: R_def)
    with p(4) have "gs = []" by auto
    then show ?thesis using True gap by (simp add: label_component_runs_def es_def)
  qed (rule result)
  ultimately show ?thesis using p(4) by (intro exI [of _ "map snd es"]) (simp only: simp_thms)
qed


definition measured :: "component \<Rightarrow> (int \<times> int) set \<Rightarrow> bool" where
  "measured c C \<longleftrightarrow> comp_pixels c = int (card C) \<and> tight_box (comp_bounds c) C"

definition label_order :: "component \<Rightarrow> (int \<times> int) set \<Rightarrow> int \<times> int \<times> int \<times> int" where
  "label_order c C = (box_y (comp_bounds c), box_x (comp_bounds c), Min C)"

lemma linked_runs_class:
  assumes "i < length R"
  shows "sorted_wrt (<) (linked_runs R gap i)" "linked_runs R gap i \<noteq> []" "i \<in> set (linked_runs R gap i)"
    "\<forall>j \<in> set (linked_runs R gap i). j < length R"
    "j \<in> set (linked_runs R gap i) \<Longrightarrow> linked_runs R gap j = linked_runs R gap i"
proof -
  show member: "i \<in> set (linked_runs R gap i)" using assms by (simp add: linked_runs_def)
  then show "linked_runs R gap i \<noteq> []" by auto
  show "sorted_wrt (<) (linked_runs R gap i)" unfolding linked_runs_def by (rule sorted_wrt_filter) simp
  show "\<forall>j \<in> set (linked_runs R gap i). j < length R" by (simp add: linked_runs_def)
  have "sym ((links R (gap + 1))\<^sup>*)" by (intro sym_rtrancl) (auto simp: sym_def links_def near_sym)
  then show "linked_runs R gap j = linked_runs R gap i" if "j \<in> set (linked_runs R gap i)"
    using that unfolding linked_runs_def by (intro filter_cong) (auto dest: symD intro: rtrancl_trans)
qed

lemma runs_share_no_pixel:
  assumes "sorted_wrt left_of R" "i < length R" "j < length R" "p \<in> run_pixels (R ! i)" "p \<in> run_pixels (R ! j)"
  shows "i = j"
proof (rule ccontr)
  assume "i \<noteq> j"
  then have "left_of (R ! i) (R ! j) \<or> left_of (R ! j) (R ! i)"
    using sorted_wrt_nth_less [OF assms(1)] assms(2,3) by (metis nat_neq_iff)
  then show False using left_of_disjoint assms(4,5) by blast
qed

text \<open>The labelling of a page's runs: the connected components, each with its measures, in order.\<close>

lemma labelled_components:
  assumes rows: "rows_of_runs rows" and gap: "0 \<le> gap"
  shows "\<exists>cs. label_component_runs rows gap = Some (Inr cs) \<and>
    distinct (map (pixels_of \<circ> snd) cs) \<and>
    set (map (pixels_of \<circ> snd) cs) = connected gap (ink_of rows) \<and>
    (\<forall>(c, runs) \<in> set cs. measured c (pixels_of runs) \<and> (\<forall>r \<in> set runs. run_x0 r < run_x1 r)) \<and>
    sorted_wrt (<) (map (\<lambda>(c, runs). label_order c (pixels_of runs)) cs)"
proof -
  define R where "R = run_table (sort_key fst rows)"
  define P where "P g = pixels_of (map (nth R) g)" for g
  obtain gs where gs: "label_component_runs rows gap = Some (Inr (map (\<lambda>g. (component_of R g, map (nth R) g)) gs))"
    "distinct gs" "set gs = {linked_runs R gap i |i. i < length R}"
    "sorted (map (\<lambda>g. component_order R (component_of R g, g)) gs)"
    using label_groups [OF rows gap] unfolding R_def by blast
  have table: "sorted_wrt left_of R" "\<forall>r \<in> set R. run_x0 r < run_x1 r"
    using run_table_ascends [of "sort_key fst rows"] rows
    by (auto simp: rows_of_runs_def R_def strict_sorted_iff distinct_map)
  have ink: "pixels_of R = ink_of rows" unfolding R_def pixels_of_run_table by (simp add: ink_of_def)
  have group: "\<exists>i < length R. g = linked_runs R gap i" if "g \<in> set gs" for g using that gs(3) by auto
  have touch: "P (linked_runs R gap i) = (touching gap (ink_of rows))\<^sup>* `` {p}"
    if "i < length R" "p \<in> run_pixels (R ! i)" for i p
    using linked_pixels [OF gap table(2) that] by (simp add: P_def ink)
  have nonempty: "run_pixels (R ! i) \<noteq> {}" if "i < length R" for i
    using table(2) that by (simp add: run_pixels_def)
  have "P ` set gs = connected gap (ink_of rows)"
  proof (intro equalityI subsetI)
    fix C assume "C \<in> P ` set gs"
    then obtain i where i: "i < length R" "C = P (linked_runs R gap i)" using gs(3) by auto
    obtain p where p: "p \<in> run_pixels (R ! i)" using nonempty [OF i(1)] by blast
    have "p \<in> ink_of rows" using p i(1) by (auto simp: pixels_of_def simp flip: ink)
    then show "C \<in> connected gap (ink_of rows)" using touch [OF i(1) p] i(2) by (simp add: connected_def quotientI)
  next
    fix C assume "C \<in> connected gap (ink_of rows)"
    then obtain p where p: "p \<in> ink_of rows" "C = (touching gap (ink_of rows))\<^sup>* `` {p}"
      by (auto simp: connected_def quotient_def)
    obtain i where i: "i < length R" "p \<in> run_pixels (R ! i)"
      using p(1) unfolding ink [symmetric] pixels_of_def UN_iff by (metis in_set_conv_nth)
    then show "C \<in> P ` set gs" using touch [OF i] p(2) gs(3) by blast
  qed
  moreover have inj: "inj_on P (set gs)"
  proof (rule inj_onI)
    fix g h assume "g \<in> set gs" "h \<in> set gs" and same: "P g = P h"
    then obtain i j where i: "i < length R" "g = linked_runs R gap i" and j: "j < length R" "h = linked_runs R gap j"
      using group by blast
    obtain p where p: "p \<in> run_pixels (R ! i)" using nonempty [OF i(1)] by blast
    have "p \<in> P g" using p i linked_runs_class(3) [OF i(1)] by (auto simp: P_def pixels_of_def)
    then obtain k where k: "k \<in> set h" "p \<in> run_pixels (R ! k)" unfolding same by (auto simp: P_def pixels_of_def)
    have "k < length R" using linked_runs_class(4) [OF j(1)] k(1) j(2) by blast
    then have "i = k" using runs_share_no_pixel [OF table(1) i(1) _ p k(2)] by blast
    then show "g = h" using linked_runs_class(5) [OF j(1), of i] k(1) i(2) j(2) by simp
  qed
  moreover have "run_x0 r < run_x1 r" if "g \<in> set gs" "r \<in> set (map (nth R) g)" for g r
    using group [OF that(1)] that(2) linked_runs_class(4) table(2) by fastforce
  moreover have measures: "measured (component_of R g) (P g)"
    "component_order R (component_of R g, g) = label_order (component_of R g) (P g)" if g: "g \<in> set gs" for g
  proof -
    obtain i where i: "i < length R" "g = linked_runs R gap i" using group [OF g] by blast
    note m = component_measures [OF table linked_runs_class(1,2,4) [OF i(1), of gap], folded i(2) P_def]
    show "measured (component_of R g) (P g)" using m(1,2) by (simp add: measured_def)
    show "component_order R (component_of R g, g) = label_order (component_of R g) (P g)"
      using m(3) by (simp add: label_order_def)
  qed
  moreover have "sorted_wrt (<) (map (\<lambda>g. label_order (component_of R g) (P g)) gs)"
  proof -
    have "sorted (map (\<lambda>g. label_order (component_of R g) (P g)) gs)"
      using gs(4) measures(2) by (metis (mono_tags, lifting) map_cong)
    moreover have "inj_on (\<lambda>g. label_order (component_of R g) (P g)) (set gs)"
    proof (rule inj_onI)
      fix g h assume gh: "g \<in> set gs" "h \<in> set gs"
        "label_order (component_of R g) (P g) = label_order (component_of R h) (P h)"
      have min: "Min (P k) \<in> P k \<and> (\<exists>i \<in> set k. i < length R \<and> k = linked_runs R gap i \<and> Min (P k) \<in> run_pixels (R ! i))"
        if k: "k \<in> set gs" for k
      proof -
        obtain i where i: "i < length R" "k = linked_runs R gap i" using group [OF k] by blast
        have "run_pixels (R ! i) \<subseteq> P k" using i linked_runs_class(3) [OF i(1)] by (auto simp: P_def pixels_of_def)
        then have "Min (P k) \<in> P k" using nonempty [OF i(1)] by (intro Min_in) (auto simp: P_def)
        moreover from this obtain j where j: "j \<in> set k" "Min (P k) \<in> run_pixels (R ! j)" by (auto simp: P_def pixels_of_def)
        moreover have "j < length R" "linked_runs R gap j = k"
          using linked_runs_class(4,5) [OF i(1)] j(1) i(2) by blast+
        ultimately show ?thesis by blast
      qed
      have "Min (P g) = Min (P h)" using gh(3) by (simp add: label_order_def)
      then show "g = h" using min [OF gh(1)] min [OF gh(2)] runs_share_no_pixel [OF table(1)] by metis
    qed
    ultimately show ?thesis using gs(2) by (simp add: strict_sorted_iff distinct_map)
  qed
  ultimately show ?thesis
    using gs(1,2) by (intro exI [of _ "map (\<lambda>g. (component_of R g, map (nth R) g)) gs"])
      (auto simp: o_def distinct_map simp flip: P_def)
qed


section \<open>The labelling of a set of pixels\<close>

lemma column_runs_spans:
  assumes "start \<le> previous" "sorted (previous # xs)"
  shows "ascending (column_runs start previous xs) \<and>
    (\<forall>p \<in> set (column_runs start previous xs). start \<le> fst p) \<and>
    (\<forall>x. (\<exists>p \<in> set (column_runs start previous xs). fst p \<le> x \<and> x < snd p) \<longleftrightarrow>
       start \<le> x \<and> x \<le> previous \<or> x \<in> set xs)"
  using assms
proof (induction start previous xs rule: column_runs.induct)
  case (2 start previous z xs)
  have z: "sorted (z # xs)" "previous \<le> z" using "2.prems"(2) by simp_all
  show ?case
  proof (cases "z > previous + 1")
    case True
    note IH = "2.IH"(1) [OF True order_refl z(1)]
    have "\<forall>p \<in> set (column_runs z z xs). previous + 1 \<le> fst p \<and> start \<le> fst p"
      using IH True "2.prems"(1) by fastforce
    then show ?thesis using IH True "2.prems"(1) by (auto simp: ascending_def)
  next
    case False
    have "start \<le> z" using "2.prems"(1) z(2) by simp
    note IH = "2.IH"(2) [OF False this z(1)]
    have "start \<le> x \<and> x \<le> z \<longleftrightarrow> start \<le> x \<and> x \<le> previous \<or> x = z" for x
      using False z(2) "2.prems"(1) by auto
    then show ?thesis using IH False by auto
  qed
qed (auto simp: ascending_def)

lemmas column_runs_pixels = column_runs_spans [THEN conjunct1]
  column_runs_spans [THEN conjunct2, THEN conjunct2, rule_format]

lemma add_pixels_columns:
  fixes points :: "(int \<times> int) list"
  shows "distinct (map fst (fold add_pixel points [])) \<and>
    (\<forall>y column. map_of (fold add_pixel points []) y = Some column \<longrightarrow>
       column \<noteq> [] \<and> set column = {x. (x, y) \<in> set points}) \<and>
    (\<forall>(x, y) \<in> set points. y \<in> fst ` set (fold add_pixel points []))"
proof (induction points rule: rev_induct)
  case (snoc p points)
  obtain x y where p: "p = (x, y)" by (cases p)
  let ?m = "fold add_pixel points []"
  have "map_of ?m y = None \<Longrightarrow> {x. (x, y) \<in> set points} = {}"
    using snoc.IH by (auto simp: map_of_eq_None_iff)
  then show ?case
    using snoc.IH by (auto simp: p add_pixel_def update_conv distinct_update dom_update split: option.splits)
qed simp

lemma ink_runs_hold_the_pixels: "rows_of_runs (ink_runs_by_row points)" "ink_of (ink_runs_by_row points) = set points"
proof -
  let ?m = "fold add_pixel points []"
  note columns = add_pixels_columns [of points]
  define f where "f column = (case sort column of [] \<Rightarrow> [] | x # xs \<Rightarrow> column_runs x x xs)" for column :: "int list"
  have runs: "ink_runs_by_row points = map (\<lambda>(y, column). (y, f column)) ?m"
    by (simp add: ink_runs_by_row_def f_def)
  have row: "ascending (f column)" "(\<exists>p \<in> set (f column). fst p \<le> x \<and> x < snd p) \<longleftrightarrow> x \<in> set column" for column x
  proof -
    show "ascending (f column)"
      using column_runs_pixels(1) [OF order_refl] sorted_sort [of column]
      by (cases "sort column") (simp_all add: f_def ascending_def del: sorted_sort)
    show "(\<exists>p \<in> set (f column). fst p \<le> x \<and> x < snd p) \<longleftrightarrow> x \<in> set column"
    proof (cases "sort column")
      case Nil
      then show ?thesis using set_sort [of "\<lambda>x. x" column] by (simp add: f_def)
    next
      case (Cons z zs)
      then have "set column = insert z (set zs)" using set_sort [of "\<lambda>x. x" column] by (simp add: f_def)
      moreover have "sorted (z # zs)" using sorted_sort [of column] Cons by simp
      ultimately show ?thesis using column_runs_pixels(2) [of z z zs x] Cons by (auto simp: f_def)
    qed
  qed
  show "rows_of_runs (ink_runs_by_row points)"
    using columns row(1) by (auto simp: rows_of_runs_def runs o_def split_beta)
  have "(x, y) \<in> ink_of (ink_runs_by_row points) \<longleftrightarrow> (x, y) \<in> set points" for x y
  proof -
    have "(x, y) \<in> ink_of (ink_runs_by_row points) \<longleftrightarrow> (\<exists>column. (y, column) \<in> set ?m \<and> x \<in> set column)"
    proof -
      have "(x, y) \<in> ink_of (ink_runs_by_row points) \<longleftrightarrow>
          (\<exists>column. (y, column) \<in> set ?m \<and> (\<exists>p \<in> set (f column). fst p \<le> x \<and> x < snd p))"
        unfolding ink_of_def runs by (force simp: split_beta)
      then show ?thesis by (simp only: row(2))
    qed
    also have "\<dots> \<longleftrightarrow> (\<exists>column. map_of ?m y = Some column \<and> x \<in> set column)" using columns by simp
    also have "\<dots> \<longleftrightarrow> (x, y) \<in> set points"
    proof
      assume "\<exists>column. map_of ?m y = Some column \<and> x \<in> set column"
      then show "(x, y) \<in> set points" using columns by blast
    next
      assume p: "(x, y) \<in> set points"
      then have "y \<in> fst ` set ?m" using columns by blast
      then obtain column where "map_of ?m y = Some column" by (metis map_of_eq_None_iff not_None_eq)
      then show "\<exists>column. map_of ?m y = Some column \<and> x \<in> set column" using columns p by blast
    qed
    finally show ?thesis .
  qed
  then show "ink_of (ink_runs_by_row points) = set points" by auto
qed


text \<open>
  C20. \<open>label_components\<close> returns, on any pixels and any tolerance not negative, one entry per
  connected component of the pixels under the Chebyshev distance, each with its tight bounding
  box and its exact number of pixels, strictly ordered by top, left and smallest pixel.
\<close>

theorem label_components_are_connected:
  assumes "0 \<le> gap"
  shows "\<exists>cs pieces. label_components points gap = Some (Inr cs) \<and>
    distinct pieces \<and> set pieces = connected gap (set points) \<and>
    list_all2 measured cs pieces \<and> sorted_wrt (<) (map2 label_order cs pieces)"
proof -
  obtain cs where cs: "label_component_runs (ink_runs_by_row points) gap = Some (Inr cs)"
    "distinct (map (pixels_of \<circ> snd) cs)" "set (map (pixels_of \<circ> snd) cs) = connected gap (set points)"
    "\<forall>(c, runs) \<in> set cs. measured c (pixels_of runs) \<and> (\<forall>r \<in> set runs. run_x0 r < run_x1 r)"
    "sorted_wrt (<) (map (\<lambda>(c, runs). label_order c (pixels_of runs)) cs)"
    using labelled_components [OF ink_runs_hold_the_pixels(1) assms] unfolding ink_runs_hold_the_pixels(2) by blast
  have "list_all2 measured (map fst cs) (map (pixels_of \<circ> snd) cs)"
    using cs(4) by (induction cs) auto
  moreover have "map2 label_order (map fst cs) (map (pixels_of \<circ> snd) cs) =
      map (\<lambda>(c, runs). label_order c (pixels_of runs)) cs"
    by (induction cs) auto
  ultimately show ?thesis using cs
    by (intro exI [of _ "map fst cs"] exI [of _ "map (pixels_of \<circ> snd) cs"]) (simp add: label_components_def)
qed

lemma sample_labels:
  "label_components [(4, 0), (1, 1), (0, 0)] 0 =
     Some (Inr [\<lparr>comp_bounds = mk_box 0 0 2 2, comp_pixels = 2\<rparr>, \<lparr>comp_bounds = mk_box 4 0 1 1, comp_pixels = 1\<rparr>])"
  by code_simp

lemma label_components_witness:
  "\<exists>pieces. distinct pieces \<and> set pieces = connected 0 {(4, 0), (1, 1), (0, 0)} \<and>
     list_all2 measured [\<lparr>comp_bounds = mk_box 0 0 2 2, comp_pixels = 2\<rparr>, \<lparr>comp_bounds = mk_box 4 0 1 1, comp_pixels = 1\<rparr>] pieces"
  using label_components_are_connected [of 0 "[(4, 0), (1, 1), (0, 0)]"] unfolding sample_labels by auto

lemma labelling_total:
  "\<exists>r. label_component_runs rows gap = Some r \<and> ((\<exists>e. r = Inl e) \<longleftrightarrow> gap < 0)"
proof -
  let ?rows = "sort_key fst rows"
  let ?R = "run_table ?rows"
  have "\<forall>(i, j) \<in> set (sweep_pairs ?R gap (index_rows 0 ?rows)). i < length ?R \<and> j < length ?R"
    using sweep_pairs_range by auto
  from grouped [OF this] show ?thesis by (auto simp: label_component_runs_def Let_def)
qed

text \<open>
  C21. The labelling returns on every input, ordered runs or not: each \<open>find\<close> ends at a root,
  whatever unions and path halvings came before it, and a negative tolerance is the only refusal.
\<close>

theorem labelling_returns:
  "\<exists>r. label_component_runs rows gap = Some r \<and> ((\<exists>e. r = Inl e) \<longleftrightarrow> gap < 0)"
  by (rule labelling_total)

end
