(* ===== verification/BackgroundFacts.thy ===== *)
theory BackgroundFacts
  imports Background
begin

text \<open>
  What the background inference of \<open>common/background.py\<close> establishes: its histogram counts the
  page's samples, its modes are the first most frequent levels, and whatever it accepts is a
  paper value with the margins and bounds the policy promises.
\<close>

section \<open>The histogram\<close>

definition gray_page :: "int \<Rightarrow> int \<Rightarrow> int list list \<Rightarrow> bool" where
  "gray_page width height rows \<longleftrightarrow> int (length rows) = height \<and>
     (\<forall>row \<in> set rows. int (length row) = width \<and> (\<forall>v \<in> set row. 0 \<le> v \<and> v \<le> 255))"

definition samples_where :: "int list list \<Rightarrow> (int \<Rightarrow> bool) \<Rightarrow> int" where
  "samples_where rows P = int (length (filter P (concat rows)))"

lemma count_samples:
  "length h = 256 \<Longrightarrow> \<forall>v \<in> set row. 0 \<le> v \<and> v \<le> 255 \<Longrightarrow>
     length (fold count_sample row h) = 256 \<and>
     (\<forall>v. 0 \<le> v \<and> v \<le> 255 \<longrightarrow> fold count_sample row h ! nat v = h ! nat v + int (count_list row v))"
proof (induction row arbitrary: h)
  case (Cons s row)
  have "length (count_sample s h) = 256" using Cons.prems(1) by (simp add: count_sample_def)
  moreover have "count_sample s h ! nat v = h ! nat v + (if v = s then 1 else 0)" if "0 \<le> v" "v \<le> 255" for v
    using that Cons.prems by (auto simp: count_sample_def nth_list_update nat_eq_iff)
  ultimately show ?case using Cons.IH [of "count_sample s h"] Cons.prems(2) by auto
qed simp

lemma fill_histogram_counts:
  assumes "\<forall>row \<in> set rows. int (length row) = width \<and> (\<forall>v \<in> set row. 0 \<le> v \<and> v \<le> 255)" "length h = 256"
  shows "\<exists>h'. fill_histogram width rows h = Inr h' \<and> length h' = 256 \<and>
    (\<forall>v. 0 \<le> v \<and> v \<le> 255 \<longrightarrow> h' ! nat v = h ! nat v + int (count_list (concat rows) v))"
  using assms
proof (induction rows arbitrary: h)
  case (Cons row rows)
  have row: "int (length row) = width" "\<forall>v \<in> set row. 0 \<le> v \<and> v \<le> 255" using Cons.prems(1) by auto
  note counted = count_samples [OF Cons.prems(2) row(2)]
  obtain h' where "fill_histogram width rows (fold count_sample row h) = Inr h'" "length h' = 256"
    "\<forall>v. 0 \<le> v \<and> v \<le> 255 \<longrightarrow>
       h' ! nat v = fold count_sample row h ! nat v + int (count_list (concat rows) v)"
    using Cons.IH [of "fold count_sample row h"] Cons.prems(1) counted by auto
  then show ?case using row(1) counted by (auto simp: count_list_append)
qed simp

text \<open>A histogram of a page: the number of its samples at each level.\<close>

definition histogram_of :: "int list list \<Rightarrow> int list \<Rightarrow> bool" where
  "histogram_of rows h \<longleftrightarrow> length h = 256 \<and> (\<forall>v. 0 \<le> v \<and> v \<le> 255 \<longrightarrow> h ! nat v = int (count_list (concat rows) v))"

lemma page_histogram:
  assumes "gray_page width height rows"
  obtains h where "fill_histogram width rows (replicate 256 0) = Inr h" "histogram_of rows h"
proof -
  have zeros: "replicate 256 (0 :: int) ! nat v = 0" if "0 \<le> v" "v \<le> 255" for v
    using that by (intro nth_replicate) auto
  then show ?thesis
    using fill_histogram_counts [of rows width "replicate 256 0"] assms that zeros
    by (auto simp: gray_page_def histogram_of_def)
qed

lemma page_size:
  "gray_page width height rows \<Longrightarrow> 0 < height \<Longrightarrow> int (length (concat rows)) = width * height"
proof -
  assume page: "gray_page width height rows"
  have "(\<forall>row \<in> set rows. int (length row) = width) \<Longrightarrow> int (length (concat rows)) = width * int (length rows)"
    by (induction rows) (auto simp: algebra_simps)
  then show ?thesis using page by (simp add: gray_page_def)
qed

lemma level_sum: "(\<Sum>v \<leftarrow> [0..255]. f v) = (\<Sum>v = 0..255. f (v :: int))" for f :: "int \<Rightarrow> int"
  by (simp add: sum_list_distinct_conv_sum_set)

lemma levels_total:
  "\<forall>v \<in> set xs. 0 \<le> v \<and> v \<le> 255 \<Longrightarrow> (\<Sum>v = 0..255. v * int (count_list xs v)) = sum_list xs" for xs :: "int list"
proof (induction xs)
  case (Cons x xs)
  have "(\<Sum>v = 0..255. v * int (count_list (x # xs) v)) =
      (\<Sum>v = 0..255. (if v = x then x else 0) + v * int (count_list xs v))"
    by (intro sum.cong) (auto simp: algebra_simps)
  also have "\<dots> = x + sum_list xs" using Cons by (simp add: sum.distrib)
  finally show ?case by simp
qed simp

lemma histogram_total_samples:
  assumes "histogram_of rows h" "\<forall>v \<in> set (concat rows). 0 \<le> v \<and> v \<le> 255"
  shows "histogram_total h = sum_list (concat rows)"
proof -
  have "histogram_total h = (\<Sum>v = 0..255. v * int (count_list (concat rows) v))"
    using assms(1) unfolding histogram_total_def level_sum by (intro sum.cong) (auto simp: histogram_of_def)
  then show ?thesis using levels_total [OF assms(2)] by simp
qed

lemma mean_level:
  assumes "gray_page width height rows" "0 < width" "0 < height" "histogram_of rows h"
  defines "mean \<equiv> histogram_total h div (width * height)"
  shows "0 \<le> mean" "mean \<le> 255"
proof -
  have levels: "\<forall>v \<in> set (concat rows). 0 \<le> v \<and> v \<le> 255" using assms(1) by (auto simp: gray_page_def)
  note all = histogram_total_samples [OF assms(4) levels] page_size [OF assms(1,3)]
  have "\<forall>v \<in> set xs. 0 \<le> v \<and> v \<le> 255 \<Longrightarrow> 0 \<le> sum_list xs \<and> sum_list xs \<le> 255 * int (length xs)" for xs :: "int list"
    by (induction xs) auto
  from this [OF levels] have range: "0 \<le> histogram_total h" "histogram_total h \<le> 255 * (width * height)"
    unfolding all by (simp_all add: all(2) flip: all(1))
  define c where "c = width * height"
  have pos: "0 < c" using assms(2,3) by (simp add: c_def)
  show "0 \<le> mean" unfolding mean_def using range(1) pos by (simp add: pos_imp_zdiv_nonneg_iff flip: c_def)
  have "mean \<le> (255 * c) div c"
    unfolding mean_def c_def [symmetric] using range(2) pos by (intro zdiv_mono1) (simp_all add: c_def)
  then show "mean \<le> 255" using pos by simp
qed

lemma modal_level_is_mode:
  assumes "lo \<le> hi"
  shows "lo \<le> modal_level h lo hi \<and> modal_level h lo hi \<le> hi \<and>
    (\<forall>v. lo \<le> v \<and> v \<le> hi \<longrightarrow> h ! nat v \<le> h ! nat (modal_level h lo hi)) \<and>
    (\<forall>v. lo \<le> v \<and> v < modal_level h lo hi \<longrightarrow> h ! nat v < h ! nat (modal_level h lo hi))"
  using assms
proof (induction hi rule: int_ge_induct)
  case base
  then show ?case by (simp add: modal_level_def) (metis order_antisym order_refl)
next
  case (step hi)
  let ?m = "modal_level h lo hi"
  have "[lo + 1..hi + 1] = [lo + 1..hi] @ [hi + 1]" using step.hyps by (simp add: upto_rec2)
  then have new: "modal_level h lo (hi + 1) = (if h ! nat (hi + 1) > h ! nat ?m then hi + 1 else ?m)"
    by (simp add: modal_level_def)
  show ?case
  proof (cases "h ! nat (hi + 1) > h ! nat ?m")
    case True
    have "h ! nat v < h ! nat (hi + 1)" if "lo \<le> v" "v \<le> hi" for v
      using step.IH that True by (meson le_less_trans)
    then show ?thesis using new True step.hyps by (auto simp: le_less)
  next
    case False
    have "h ! nat v \<le> h ! nat ?m" if "lo \<le> v" "v \<le> hi + 1" for v
      using step.IH that False by (cases "v = hi + 1") auto
    then show ?thesis using new False step.IH by auto
  qed
qed

lemma modal_level_unique:
  assumes "lo \<le> m" "m \<le> hi" "\<forall>v. lo \<le> v \<and> v \<le> hi \<longrightarrow> h ! nat v \<le> h ! nat m"
    "\<forall>v. lo \<le> v \<and> v < m \<longrightarrow> h ! nat v < h ! nat m"
  shows "modal_level h lo hi = m"
proof -
  have "lo \<le> hi" using assms(1,2) by simp
  note mode = modal_level_is_mode [OF this, of h]
  show ?thesis using mode assms by (metis leD linorder_neqE)
qed

text \<open>On the modal branch the paper mode is the mode of the whole page.\<close>

lemma modal_background_is_paper:
  assumes "0 \<le> mean" "mean \<le> modal_level h 0 255" "mean \<le> 255"
  shows "modal_level h mean 255 = modal_level h 0 255"
proof -
  let ?b = "modal_level h 0 255" and ?p = "modal_level h mean 255"
  note b = modal_level_is_mode [of 0 255 h] and p = modal_level_is_mode [OF assms(3), of h]
  have same: "h ! nat ?p = h ! nat ?b" using b p assms by (intro antisym) auto
  have "\<not> ?p < ?b" using b p assms(1) same by (metis less_irrefl order_trans)
  moreover have "\<not> ?b < ?p" using b p assms(2) same by (metis less_irrefl)
  ultimately show ?thesis by simp
qed

lemma below_counts:
  fixes xs :: "int list"
  assumes "\<forall>v \<in> set xs. 0 \<le> v"
  shows "(\<Sum>k = 0..<n. int (count_list xs (int k))) = int (length (filter (\<lambda>v. v < int n) xs))"
proof (induction n)
  case 0
  then show ?case using assms by (simp add: filter_empty_conv linorder_not_less)
next
  case (Suc n)
  have "length (filter (\<lambda>v. v < int (Suc n)) ys) = length (filter (\<lambda>v. v < int n) ys) + count_list ys (int n)" for ys
    by (induction ys) auto
  then show ?case using Suc by simp
qed

lemma at_or_below_counts:
  assumes "histogram_of rows h" "\<forall>v \<in> set (concat rows). 0 \<le> v \<and> v \<le> 255" "0 \<le> level" "level \<le> 255"
  shows "at_or_below h level = samples_where rows (\<lambda>v. v \<le> level)"
proof -
  have len: "length h = 256" using assms(1) by (simp add: histogram_of_def)
  have "at_or_below h level = (\<Sum>k = 0..<nat (level + 1). h ! k)"
  proof -
    have "nat (level + 1) \<le> length h" using len assms(4) by auto
    then show ?thesis unfolding at_or_below_def sum_list_sum_nth by simp
  qed
  also have "\<dots> = (\<Sum>k = 0..<nat (level + 1). int (count_list (concat rows) (int k)))"
  proof (rule sum.cong [OF refl])
    fix k assume "k \<in> {0..<nat (level + 1)}"
    then have "int k \<le> 255" using assms(3,4) by auto
    then have "h ! nat (int k) = int (count_list (concat rows) (int k))"
      using assms(1) by (simp only: histogram_of_def) (simp del: nat_int)
    then show "h ! k = int (count_list (concat rows) (int k))" by simp
  qed
  also have "\<dots> = int (length (filter (\<lambda>v. v < int (nat (level + 1))) (concat rows)))"
    using assms(2) by (intro below_counts) auto
  also have "\<dots> = samples_where rows (\<lambda>v. v \<le> level)"
    using assms(3) by (simp add: samples_where_def zle_add1_eq_le)
  finally show ?thesis .
qed


section \<open>The inference\<close>

lemma derived_margin:
  assumes "0 < bp" "bp < BASIS_POINTS div 2" "0 \<le> dark" "dark \<le> paper"
  shows "\<exists>m. derived_ink_margin paper dark bp = Inr m \<and> PRIMARY_MARGIN \<le> m \<and>
    (PRIMARY_MARGIN \<le> paper \<longrightarrow> m \<le> paper)"
proof -
  have "(paper - dark) * bp \<le> paper * BASIS_POINTS"
    using assms by (intro mult_mono) (auto simp: BASIS_POINTS_def)
  then have "(paper - dark) * bp div BASIS_POINTS \<le> paper * BASIS_POINTS div BASIS_POINTS"
    by (intro zdiv_mono1) (simp_all add: BASIS_POINTS_def)
  then have "(paper - dark) * bp div BASIS_POINTS \<le> paper" by (simp add: BASIS_POINTS_def)
  then show ?thesis using assms(4) by (simp add: derived_ink_margin_def)
qed

text \<open>
  What the evidence of a page means: a paper value no darker than the page's mean and the most
  frequent of the levels from there up, the margin its own two modes derive, and the sealed
  bound on the ink it leaves.
\<close>

definition paper_level :: "int list list \<Rightarrow> int \<Rightarrow> bool" where
  "paper_level rows b \<longleftrightarrow>
     (let mean = sum_list (concat rows) div int (length (concat rows)) in
      mean \<le> b \<and> (\<forall>v. mean \<le> v \<and> v \<le> 255 \<longrightarrow> count_list (concat rows) v \<le> count_list (concat rows) b))"

definition dark_evidence_ok :: "int list list \<Rightarrow> background_policy \<Rightarrow> background_evidence \<Rightarrow> dark_evidence \<Rightarrow> bool" where
  "dark_evidence_ok rows p ev d \<longleftrightarrow>
     de_at_or_below d \<le> be_background ev - be_ink_margin ev \<and>
     de_pixel_count d = samples_where rows (\<lambda>v. v \<le> de_at_or_below d) \<and>
     de_interior_bp d \<le> bp_max_interior_dark_bp p"

definition evidence_sound :: "int \<Rightarrow> int \<Rightarrow> int list list \<Rightarrow> background_policy \<Rightarrow> background_evidence \<Rightarrow> bool" where
  "evidence_sound width height rows p ev \<longleftrightarrow>
     paper_level rows (be_background ev) \<and>
     PRIMARY_MARGIN \<le> be_background ev \<and> be_background ev \<le> 255 \<and>
     0 \<le> be_dark_mode ev \<and> be_dark_mode ev \<le> be_background ev \<and>
     derived_ink_margin (be_background ev) (be_dark_mode ev) (bp_ink_margin_bp p) = Inr (be_ink_margin ev) \<and>
     PRIMARY_MARGIN \<le> be_ink_margin ev \<and> be_ink_margin ev \<le> be_background ev \<and>
     samples_where rows (\<lambda>v. v \<le> be_background ev - PRIMARY_MARGIN) * BASIS_POINTS div (width * height)
       \<le> bp_max_ink_bp p \<and>
     (case be_dark_distribution ev of
        None \<Rightarrow> be_source ev = InferredModal
      | Some d \<Rightarrow> be_source ev = InferredInteriorMode \<and> dark_evidence_ok rows p ev d)"

lemma settled:
  assumes "histogram_of rows h" "\<forall>v \<in> set (concat rows). 0 \<le> v \<and> v \<le> 255"
    "PRIMARY_MARGIN \<le> be_background ev" "be_background ev \<le> 255"
  shows "settle_background_evidence ev h counted p =
    (if samples_where rows (\<lambda>v. v \<le> be_background ev - PRIMARY_MARGIN) * BASIS_POINTS div counted > bp_max_ink_bp p
     then Inl (BackgroundInferenceRefusal ''the background is a minority of its own page'') else Inr ev)"
  using assms at_or_below_counts [OF assms(1,2), of "be_background ev - PRIMARY_MARGIN"]
  by (simp add: settle_background_evidence_def ink_threshold_def PRIMARY_MARGIN_def)

lemma dark_distribution_ok:
  "dark_distribution width height rows level dark n p = Some d \<Longrightarrow>
     de_at_or_below d = level \<and> de_pixel_count d = n \<and> de_interior_bp d \<le> bp_max_interior_dark_bp p"
  by (auto simp: dark_distribution_def Let_def split: if_splits)

lemma refusal_texts:
  "\<not> blank (u ''the page is majority ink'')" "\<not> blank (u ''darker than the ink margin'')"
  "\<not> blank (u ''the background is a minority of its own page'')"
  "\<not> blank (u ''the threshold is below every 8-bit sample'')"
  by code_simp+

lemma inference_sound:
  assumes page: "gray_page width height rows" "0 < width" "0 < height"
    and bp: "0 < bp_ink_margin_bp p" "bp_ink_margin_bp p < BASIS_POINTS div 2"
  shows "case infer_background_evidence width height rows p of
      Inl e \<Rightarrow> \<exists>m. e = BackgroundInferenceRefusal m \<and> \<not> blank (u m)
    | Inr ev \<Rightarrow> evidence_sound width height rows p ev"
proof -
  obtain h where h: "fill_histogram width rows (replicate 256 0) = Inr h" "histogram_of rows h"
    using page_histogram [OF page(1)] .
  have levels: "\<forall>v \<in> set (concat rows). 0 \<le> v \<and> v \<le> 255" using page(1) by (auto simp: gray_page_def)
  define counted where "counted = width * height"
  define mean where "mean = histogram_total h div counted"
  define b where "b = modal_level h 0 255"
  define paper where "paper = modal_level h mean 255"
  define dark where "dark = modal_level h 0 mean"
  have size: "int (length (concat rows)) = counted" using page_size [OF page(1,3)] by (simp add: counted_def)
  have pos: "0 < counted" using page(2,3) by (simp add: counted_def)
  have total_levels: "histogram_total h = sum_list (concat rows)" by (rule histogram_total_samples [OF h(2) levels])
  have mean: "0 \<le> mean" "mean \<le> 255" using mean_level [OF page h(2)] by (simp_all add: mean_def counted_def)
  note p = modal_level_is_mode [OF mean(2), of h, folded paper_def] and d = modal_level_is_mode [OF mean(1), of h, folded dark_def]
  have paper_ok: "paper_level rows paper"
    unfolding paper_level_def size Let_def
  proof (intro conjI allI impI)
    show "sum_list (concat rows) div counted \<le> paper" using p by (simp add: mean_def total_levels)
    show "count_list (concat rows) v \<le> count_list (concat rows) paper"
      if "sum_list (concat rows) div counted \<le> v \<and> v \<le> 255" for v
    proof -
      have "h ! nat v \<le> h ! nat paper" using p that by (simp add: mean_def total_levels)
      moreover have "0 \<le> v" "0 \<le> paper" "paper \<le> 255" using p that mean by (auto simp: mean_def total_levels)
      ultimately show ?thesis using h(2) that unfolding histogram_of_def by (metis of_nat_le_iff)
    qed
  qed
  obtain m where m: "derived_ink_margin paper dark (bp_ink_margin_bp p) = Inr m" "PRIMARY_MARGIN \<le> m"
    "PRIMARY_MARGIN \<le> paper \<longrightarrow> m \<le> paper"
    using derived_margin [OF bp, of dark paper] p d by auto
  have infer: "infer_background_evidence width height rows p =
      (if b * counted < histogram_total h then
         let level = min ((dark + paper) div 2) (max 0 (paper - m));
             dd = dark_distribution width height rows level dark (at_or_below h level) p in
         if dd \<noteq> None \<and> paper \<ge> PRIMARY_MARGIN
         then settle_background_evidence \<lparr>be_background = paper, be_source = InferredInteriorMode,
           be_dark_distribution = dd, be_dark_mode = dark, be_ink_margin = m\<rparr> h counted p
         else Inl (BackgroundInferenceRefusal ''the page is majority ink'')
       else if b < PRIMARY_MARGIN then Inl (BackgroundInferenceRefusal ''darker than the ink margin'')
       else settle_background_evidence \<lparr>be_background = b, be_source = InferredModal,
         be_dark_distribution = None, be_dark_mode = dark, be_ink_margin = m\<rparr> h counted p)"
    using page h(1) m(1)
    by (simp add: infer_background_evidence_def gray_page_def Let_def b_def paper_def dark_def mean_def counted_def)
  have base: "evidence_sound width height rows p ev"
    if "be_background ev = paper" "be_dark_mode ev = dark" "be_ink_margin ev = m" "PRIMARY_MARGIN \<le> paper"
      "samples_where rows (\<lambda>v. v \<le> paper - PRIMARY_MARGIN) * BASIS_POINTS div counted \<le> bp_max_ink_bp p"
      "case be_dark_distribution ev of None \<Rightarrow> be_source ev = InferredModal
       | Some d \<Rightarrow> be_source ev = InferredInteriorMode \<and> dark_evidence_ok rows p ev d" for ev
    using that paper_ok m p d mean unfolding evidence_sound_def counted_def by simp
  show ?thesis
  proof (cases "b * counted < histogram_total h")
    case True
    define level where "level = min ((dark + paper) div 2) (max 0 (paper - m))"
    define dd where "dd = dark_distribution width height rows level dark (at_or_below h level) p"
    have level: "0 \<le> level" "level \<le> 255" using p d mean by (auto simp: level_def)
    show ?thesis
    proof (cases "dd \<noteq> None \<and> paper \<ge> PRIMARY_MARGIN")
      case ok: True
      then obtain d' where d': "dd = Some d'" by auto
      let ?ev = "\<lparr>be_background = paper, be_source = InferredInteriorMode, be_dark_distribution = Some d',
        be_dark_mode = dark, be_ink_margin = m\<rparr>"
      have "infer_background_evidence width height rows p = settle_background_evidence ?ev h counted p"
        using True ok d' by (simp add: infer flip: level_def dd_def)
      moreover have "dark_evidence_ok rows p ?ev d'"
        using dark_distribution_ok [of width height rows level dark "at_or_below h level" p d'] d' ok m(3)
          at_or_below_counts [OF h(2) levels level]
        by (simp add: dd_def dark_evidence_ok_def level_def)
      ultimately show ?thesis using ok p base [of ?ev] by (simp add: settled [OF h(2) levels] refusal_texts)
    next
      case refused: False
      then have "infer_background_evidence width height rows p = Inl (BackgroundInferenceRefusal ''the page is majority ink'')"
        unfolding infer Let_def level_def [symmetric] dd_def [symmetric] using True by (simp only: if_True if_False)
      then show ?thesis by (simp add: refusal_texts)
    qed
  next
    case False
    show ?thesis
    proof (cases "b < PRIMARY_MARGIN")
      case dark_page: False
      have "mean \<le> b"
      proof -
        have "0 \<le> histogram_total h mod counted" using pos by simp
        then have "mean * counted \<le> histogram_total h"
          unfolding mean_def using div_mult_mod_eq [of "histogram_total h" counted] by linarith
        with False have "mean * counted \<le> b * counted" by simp
        then show ?thesis using pos by simp
      qed
      then have "paper = b" using modal_background_is_paper [of mean h] mean by (simp add: paper_def b_def)
      let ?ev = "\<lparr>be_background = paper, be_source = InferredModal, be_dark_distribution = None,
        be_dark_mode = dark, be_ink_margin = m\<rparr>"
      have "infer_background_evidence width height rows p = settle_background_evidence ?ev h counted p"
        using False dark_page \<open>paper = b\<close> by (simp add: infer)
      then show ?thesis using dark_page \<open>paper = b\<close> p base [of ?ev] by (simp add: settled [OF h(2) levels] refusal_texts)
    qed (use False in \<open>simp add: infer refusal_texts\<close>)
  qed
qed


lemma validated_background:
  "validate_background_table t = Inr values \<Longrightarrow>
     0 < bv_band_bp values \<and> bv_band_bp values < BASIS_POINTS div 2 \<and>
     0 \<le> bv_max_interior_dark_bp values \<and> bv_max_interior_dark_bp values < BASIS_POINTS \<and>
     0 \<le> bv_max_ink_bp values \<and> bv_max_ink_bp values < BASIS_POINTS \<and>
     0 < bv_ink_margin_bp values \<and> bv_ink_margin_bp values < BASIS_POINTS div 2"
  by (auto simp: validate_background_table_def result_simps bounded_int_def refuses_something_def
      split: option.splits json.splits if_splits)

text \<open>
  C22. Under a sealed policy the inference on a page of bytes ends in one of two ways: the named
  refusal, or a paper value that is the page's modal level at or above its mean, light enough
  for the floor margin, whose derived margin is the sealed fraction of its own two modes and
  leaves a threshold on the page, and at most the sealed share of the page counted as ink.
\<close>

theorem inferred_background_is_paper:
  assumes "gray_page width height rows" "validate_background_table t = Inr values"
    "resolve_background_policy values width height = Inr p"
  shows "case infer_background_evidence width height rows p of
      Inl e \<Rightarrow> \<exists>m. e = BackgroundInferenceRefusal m
    | Inr ev \<Rightarrow> evidence_sound width height rows p ev"
proof -
  have "0 < width" "0 < height" "bp_ink_margin_bp p = bv_ink_margin_bp values"
    using assms(3) by (auto simp: resolve_background_policy_def split: if_splits)
  with inference_sound [OF assms(1), of p] validated_background [OF assms(2)] show ?thesis
    by (auto split: sum.splits)
qed

definition sealed_background :: json where
  "sealed_background = JObj [(u ''band_bp'', JInt 500), (u ''max_interior_dark_bp'', JInt 5000),
     (u ''max_ink_bp'', JInt 7000), (u ''ink_margin_bp'', JInt 3333)]"

definition sealed_values :: background_values where
  "sealed_values = \<lparr>bv_band_bp = 500, bv_max_interior_dark_bp = 5000, bv_max_ink_bp = 7000, bv_ink_margin_bp = 3333\<rparr>"

definition leaf_policy :: background_policy where
  "leaf_policy = \<lparr>bp_band_x = 0, bp_band_y = 0, bp_max_interior_dark_bp = 5000, bp_max_ink_bp = 7000,
     bp_ink_margin_bp = 3333\<rparr>"

definition leaf :: "int list list" where
  "leaf = [[200, 200, 200, 60], [200, 60, 190, 60]]"

lemma sealed_background_valid: "validate_background_table (Some sealed_background) = Inr sealed_values"
  by code_simp

lemma leaf_resolved: "resolve_background_policy sealed_values 4 2 = Inr leaf_policy"
  by code_simp

lemma leaf_background:
  "infer_background_evidence 4 2 leaf leaf_policy =
     Inr \<lparr>be_background = 200, be_source = InferredModal, be_dark_distribution = None, be_dark_mode = 60, be_ink_margin = 46\<rparr>"
proof -
  have page: "gray_page 4 2 leaf" by (simp add: gray_page_def leaf_def)
  obtain h where h: "fill_histogram 4 leaf (replicate 256 0) = Inr h" "histogram_of leaf h" using page_histogram [OF page] .
  have levels: "\<forall>v \<in> set (concat leaf). 0 \<le> v \<and> v \<le> 255" by (simp add: leaf_def)
  have counts: "h ! nat v = (if v = 200 then 4 else if v = 60 then 3 else if v = 190 then 1 else 0)"
    if "0 \<le> v" "v \<le> 255" for v 
  proof -
    have "h ! nat v = int (count_list (concat leaf) v)" using h(2) that by (simp add: histogram_of_def)
    then show ?thesis unfolding leaf_def by (cases "v = 200"; cases "v = 60"; cases "v = 190"; simp)
  qed
  have modes: "h ! 200 = 4" "h ! 60 = 3" using counts [of 200] counts [of 60] by simp_all
  have level: "histogram_total h = 1170" using histogram_total_samples [OF h(2) levels] by (simp add: leaf_def)
  have "modal_level h 0 255 = 200" "modal_level h 0 146 = 60" using counts modes by (intro modal_level_unique; simp)+
  moreover have "modal_level h 146 255 = 200" using counts modes by (intro modal_level_unique) simp_all
  moreover have "at_or_below h 180 = 3" using at_or_below_counts [OF h(2) levels] by (simp add: samples_where_def leaf_def)
  ultimately show ?thesis
    by (simp add: infer_background_evidence_def h(1) level derived_ink_margin_def settle_background_evidence_def
        ink_threshold_def PRIMARY_MARGIN_def BASIS_POINTS_def leaf_policy_def) (simp add: leaf_def)
qed

lemma inferred_background_witness:
  "evidence_sound 4 2 leaf leaf_policy
     \<lparr>be_background = 200, be_source = InferredModal, be_dark_distribution = None, be_dark_mode = 60, be_ink_margin = 46\<rparr>"
  using inferred_background_is_paper [OF _ sealed_background_valid leaf_resolved, of leaf]
  by (simp add: leaf_background) (simp add: gray_page_def leaf_def)

end
