(* ===== verification/InkMapFacts.thy ===== *)
theory InkMapFacts
  imports InkMap Components BackgroundFacts InkFacts
begin

text \<open>
  The Ink Map from end to end: the page-spanning mask is the union of its components, the edge
  finding partitions the page's ink, and whatever the stage publishes for a page its two
  consumers accept, under the sealed policy it was measured by.
\<close>

section \<open>The mask\<close>

definition in_page :: "int \<Rightarrow> int \<Rightarrow> yrun \<Rightarrow> bool" where
  "in_page width height r \<longleftrightarrow>
     0 \<le> run_y r \<and> run_y r < height \<and> 0 \<le> run_x0 r \<and> run_x0 r < run_x1 r \<and> run_x1 r \<le> width"

definition mask_shape :: "int \<Rightarrow> int \<Rightarrow> bool list list \<Rightarrow> bool" where
  "mask_shape width height m \<longleftrightarrow> length m = nat height \<and> (\<forall>row \<in> set m. length row = nat width)"

definition mask_points :: "bool list list \<Rightarrow> (int \<times> int) set" where
  "mask_points m = {(x, y). 0 \<le> y \<and> y < int (length m) \<and> x \<in> flag_points (m ! nat y)}"

lemma set_interval_nth:
  assumes "x0 \<le> x1" "x1 \<le> length row" "k < length row"
  shows "(take x0 row @ replicate (x1 - x0) True @ drop x1 row) ! k \<longleftrightarrow> x0 \<le> k \<and> k < x1 \<or> row ! k"
  using assms by (auto simp: nth_append min_def)

lemma mark_run_points:
  assumes m: "mask_shape width height m" and r: "in_page width height r"
  shows "mask_shape width height (mark_run r m)" "mask_points (mark_run r m) = run_pixels r \<union> mask_points m"
proof -
  obtain y x0 x1 where r_eq: "r = (y, x0, x1)" by (cases r)
  have range: "0 \<le> y" "y < height" "0 \<le> x0" "x0 < x1" "x1 \<le> width" using r by (auto simp: in_page_def r_eq)
  let ?row = "m ! nat y" and ?new = "take (nat x0) (m ! nat y) @ replicate (nat (x1 - x0)) True @ drop (nat x1) (m ! nat y)"
  have y: "nat y < length m" using m range by (auto simp: mask_shape_def)
  have len: "length ?row = nat width" using m y by (simp add: mask_shape_def)
  have new_len: "length ?new = nat width" using len range by simp
  have mark: "mark_run r m = m[nat y := ?new]" by (simp add: mark_run_def r_eq)
  show "mask_shape width height (mark_run r m)"
    using m new_len unfolding mark by (auto simp: mask_shape_def dest!: set_update_subset_insert [THEN subsetD])
  have "nat (x1 - x0) = nat x1 - nat x0" using range by simp
  then have nth: "?new ! nat x \<longleftrightarrow> x0 \<le> x \<and> x < x1 \<or> ?row ! nat x" if "0 \<le> x" "x < width" for x
    using set_interval_nth [of "nat x0" "nat x1" ?row "nat x"] len range that by auto
  have new: "flag_points ?new = {x0..<x1} \<union> flag_points ?row"
  proof (rule set_eqI)
    fix x
    have "x \<in> flag_points ?new \<longleftrightarrow> 0 \<le> x \<and> x < width \<and> ?new ! nat x"
      using new_len by (simp only: flag_points_def mem_Collect_eq) auto
    also have "\<dots> \<longleftrightarrow> 0 \<le> x \<and> x < width \<and> (x0 \<le> x \<and> x < x1 \<or> ?row ! nat x)" using nth by blast
    also have "\<dots> \<longleftrightarrow> x \<in> {x0..<x1} \<union> flag_points ?row"
      using len range by (auto simp: flag_points_def)
    finally show "x \<in> flag_points ?new \<longleftrightarrow> x \<in> {x0..<x1} \<union> flag_points ?row" .
  qed
  have "(x, y') \<in> mask_points (mark_run r m) \<longleftrightarrow> (x, y') \<in> run_pixels r \<or> (x, y') \<in> mask_points m" for x y'
  proof (cases "y' = y")
    case True
    have "y < int (length m)" using y range by linarith
    with True show ?thesis unfolding mask_points_def mark using y range by (simp add: new run_pixels_def r_eq)
  next
    case False
    then have "nat y' \<noteq> nat y" if "0 \<le> y'" using that range(1) by (simp add: eq_nat_nat_iff)
    with False show ?thesis unfolding mask_points_def mark by (auto simp: run_pixels_def r_eq)
  qed
  then show "mask_points (mark_run r m) = run_pixels r \<union> mask_points m" by auto
qed

lemma marked_mask:
  assumes "mask_shape width height m" "\<forall>r \<in> set rs. in_page width height r"
  shows "mask_shape width height (fold mark_run rs m) \<and>
    mask_points (fold mark_run rs m) = pixels_of rs \<union> mask_points m"
  using assms
proof (induction rs arbitrary: m)
  case (Cons r rs)
  then show ?case using Cons.IH [of "mark_run r m"] mark_run_points [of width height m r] by auto
qed simp

lemma blank_mask:
  "mask_shape width height (replicate (nat height) (replicate (nat width) False))"
  "mask_points (replicate (nat height) (replicate (nat width) False)) = {}"
proof -
  have "flag_points (replicate n False) = {}" for n by (auto simp: flag_points_def)
  then show "mask_points (replicate (nat height) (replicate (nat width) False)) = {}"
    by (auto simp: mask_points_def)
qed (auto simp: mask_shape_def)

section \<open>The runs of a page\<close>

lemma runs_of_rows_runs:
  assumes page: "gray_page width height rows"
  shows "rows_of_runs (runs_of_rows threshold rows)"
    "ink_of (runs_of_rows threshold rows) \<subseteq> {0..<width} \<times> {0..<height}"
proof -
  let ?bits = "\<lambda>row. map (\<lambda>v. v \<le> threshold) row"
  have entry: "\<exists>row \<in> set rows. spans = runs_in_row (?bits row) \<and> 0 \<le> y \<and> y < int (length rows)"
    if "(y, spans) \<in> set (runs_of_rows threshold rows)" for y spans
    using that by (auto simp: runs_of_rows_def set_zip)
  have spans: "ascending (runs_in_row (?bits row)) \<and>
      (\<forall>p \<in> set (runs_in_row (?bits row)). 0 \<le> fst p \<and> snd p \<le> int (length row))" for row
    using runs_from_ok [of 0 "?bits row"] by (auto simp: runs_in_row_def ascending_def)
  have "distinct (map fst (runs_of_rows threshold rows))"
    unfolding runs_of_rows_def by (intro distinct_map_filter) (simp add: map_fst_zip)
  then show "rows_of_runs (runs_of_rows threshold rows)"
    using entry spans by (fastforce simp: rows_of_runs_def)
  show "ink_of (runs_of_rows threshold rows) \<subseteq> {0..<width} \<times> {0..<height}"
  proof (rule subrelI)
    fix x y assume "(x, y) \<in> ink_of (runs_of_rows threshold rows)"
    then obtain sp p where sp: "(y, sp) \<in> set (runs_of_rows threshold rows)" "p \<in> set sp" "fst p \<le> x" "x < snd p"
      by (auto simp: ink_of_def)
    obtain row where row: "row \<in> set rows" "sp = runs_in_row (?bits row)" "0 \<le> y" "y < int (length rows)"
      using entry [OF sp(1)] by blast
    have "0 \<le> fst p" "snd p \<le> int (length row)" using spans [of row] sp(2) row(2) by auto
    moreover have "int (length row) = width" "int (length rows) = height" using page row(1) by (auto simp: gray_page_def)
    ultimately show "(x, y) \<in> {0..<width} \<times> {0..<height}" using sp(3,4) row(3,4) by auto
  qed
qed

section \<open>The page-spanning components\<close>

lemma connected_piece:
  assumes "C \<in> connected gap S"
  shows "C \<subseteq> S" "C \<noteq> {}"
proof -
  obtain p where p: "p \<in> S" "C = (touching gap S)\<^sup>* `` {p}" using assms by (auto simp: connected_def quotient_def)
  show "C \<noteq> {}" using p(2) by auto
  have "q \<in> S" if "(p, q) \<in> (touching gap S)\<^sup>*" for q
    using that p(1) by (induction rule: rtrancl_induct) (auto simp: touching_def)
  then show "C \<subseteq> S" using p(2) by auto
qed

definition box_in_page :: "int \<Rightarrow> int \<Rightarrow> box \<Rightarrow> bool" where
  "box_in_page width height b \<longleftrightarrow> 0 \<le> box_x b \<and> 0 \<le> box_y b \<and> 0 < box_w b \<and> 0 < box_h b \<and>
     box_x b + box_w b \<le> width \<and> box_y b + box_h b \<le> height"

lemma tight_box_in_page:
  assumes "tight_box b C" "C \<noteq> {}" "C \<subseteq> {0..<width} \<times> {0..<height}"
  shows "box_in_page width height b" "int (card C) \<le> box_w b * box_h b"
proof -
  have finite: "finite C" using assms(3) finite_subset by auto
  have f: "finite (fst ` C)" "fst ` C \<noteq> {}" "finite (snd ` C)" "snd ` C \<noteq> {}" using finite assms(2) by auto
  have "Min (fst ` C) \<in> fst ` C" "Max (fst ` C) \<in> fst ` C" "Min (snd ` C) \<in> snd ` C" "Max (snd ` C) \<in> snd ` C"
    using f by auto
  then have r: "0 \<le> Min (fst ` C)" "Max (fst ` C) < width" "0 \<le> Min (snd ` C)" "Max (snd ` C) < height"
    using assms(3) by auto
  have le: "Min (fst ` C) \<le> Max (fst ` C)" "Min (snd ` C) \<le> Max (snd ` C)" using f by auto
  show "box_in_page width height b" using assms(1) r le by (auto simp: tight_box_def box_in_page_def)
  have w: "box_w b = Max (fst ` C) + 1 - Min (fst ` C)" and h: "box_h b = Max (snd ` C) + 1 - Min (snd ` C)"
    using assms(1) by (auto simp: tight_box_def)
  have "C \<subseteq> {Min (fst ` C)..<Max (fst ` C) + 1} \<times> {Min (snd ` C)..<Max (snd ` C) + 1}"
  proof (rule subrelI)
    fix x y assume "(x, y) \<in> C"
    then have "x \<in> fst ` C" "y \<in> snd ` C" by force+
    then have "Min (fst ` C) \<le> x" "x \<le> Max (fst ` C)" "Min (snd ` C) \<le> y" "y \<le> Max (snd ` C)" using f by auto
    then show "(x, y) \<in> {Min (fst ` C)..<Max (fst ` C) + 1} \<times> {Min (snd ` C)..<Max (snd ` C) + 1}" by auto
  qed
  then have "card C \<le> card ({Min (fst ` C)..<Max (fst ` C) + 1} \<times> {Min (snd ` C)..<Max (snd ` C) + 1})"
    by (intro card_mono) auto
  also have "\<dots> = nat (box_w b) * nat (box_h b)" by (simp add: card_cartesian_product w h)
  finally have "int (card C) \<le> int (nat (box_w b) * nat (box_h b))" by (simp only: of_nat_le_iff)
  then show "int (card C) \<le> box_w b * box_h b" using w h le by simp
qed

lemma spanning_components:
  assumes page: "gray_page width height rows" and gap: "0 \<le> cp_gap cp"
    and found: "page_spanning_components width height rows level margin cp = Some (Inr (cs, m))"
  shows "mask_shape width height m" "\<forall>c \<in> set cs. box_in_page width height (comp_bounds c)"
    "int (card (mask_points m)) \<le> sum_list (map (\<lambda>c. box_w (comp_bounds c) * box_h (comp_bounds c)) cs)"
proof -
  obtain threshold where t: "ink_threshold level margin = Inr threshold"
    using found by (auto simp: page_spanning_components_def split: sum.splits)
  note runs = runs_of_rows_runs [OF page, of threshold]
  obtain ls where ls: "label_component_runs (runs_of_rows threshold rows) (cp_gap cp) = Some (Inr ls)"
    "set (map (pixels_of \<circ> snd) ls) = connected (cp_gap cp) (ink_of (runs_of_rows threshold rows))"
    "\<forall>(c, rs) \<in> set ls. measured c (pixels_of rs) \<and> (\<forall>r \<in> set rs. run_x0 r < run_x1 r)"
    using labelled_components [OF runs(1) gap] by blast
  define fs where "fs = filter (\<lambda>(c, rs). page_spanning (width * height) cp c) ls"
  have cs: "cs = map fst fs"
    and m: "m = fold mark_run (concat (map snd fs)) (replicate (nat height) (replicate (nat width) False))"
    using found by (simp_all add: page_spanning_components_def t ls(1) fs_def Let_def)
  have piece: "measured c (pixels_of rs)" "pixels_of rs \<noteq> {}" "pixels_of rs \<subseteq> {0..<width} \<times> {0..<height}"
    "\<forall>r \<in> set rs. in_page width height r" if "(c, rs) \<in> set fs" for c rs
  proof -
    have mem: "(c, rs) \<in> set ls" using that by (simp add: fs_def)
    show "measured c (pixels_of rs)" using ls(3) mem by blast
    have "pixels_of rs \<in> connected (cp_gap cp) (ink_of (runs_of_rows threshold rows))"
      unfolding ls(2) [symmetric] using mem by force
    note sub = connected_piece [OF this]
    show "pixels_of rs \<noteq> {}" by (rule sub(2))
    show inside: "pixels_of rs \<subseteq> {0..<width} \<times> {0..<height}" using sub(1) runs(2) by blast
    show "\<forall>r \<in> set rs. in_page width height r"
    proof
      fix r assume r: "r \<in> set rs"
      have lt: "run_x0 r < run_x1 r" using ls(3) mem r by blast
      have "{run_x0 r..<run_x1 r} \<times> {run_y r} \<subseteq> {0..<width} \<times> {0..<height}"
        using inside r by (auto simp: pixels_of_def run_pixels_def)
      moreover have "(run_x0 r, run_y r) \<in> {run_x0 r..<run_x1 r} \<times> {run_y r}"
        "(run_x1 r - 1, run_y r) \<in> {run_x0 r..<run_x1 r} \<times> {run_y r}" using lt by auto
      ultimately have "(run_x0 r, run_y r) \<in> {0..<width} \<times> {0..<height}"
        "(run_x1 r - 1, run_y r) \<in> {0..<width} \<times> {0..<height}" by blast+
      then show "in_page width height r" using lt by (auto simp: in_page_def)
    qed
  qed
  have "\<forall>r \<in> set (concat (map snd fs)). in_page width height r" using piece(4) by fastforce
  note marked = marked_mask [OF blank_mask(1) this, folded m]
  show "mask_shape width height m" using marked by blast
  show "\<forall>c \<in> set cs. box_in_page width height (comp_bounds c)"
    using piece(1-3) tight_box_in_page(1) by (fastforce simp: cs measured_def)
  have points: "mask_points m = pixels_of (concat (map snd fs))" using marked blank_mask(2) by simp
  have "int (card (pixels_of (concat (map snd gs)))) \<le> sum_list (map (\<lambda>e. box_w (comp_bounds (fst e)) * box_h (comp_bounds (fst e))) gs)"
    if "set gs \<subseteq> set fs" for gs
    using that
  proof (induction gs)
    case (Cons e gs)
    have e: "int (card (pixels_of (snd e))) \<le> box_w (comp_bounds (fst e)) * box_h (comp_bounds (fst e))"
      using piece(1-3) [of "fst e" "snd e"] Cons.prems tight_box_in_page(2) by (auto simp: measured_def)
    have "pixels_of (concat (map snd (e # gs))) = pixels_of (snd e) \<union> pixels_of (concat (map snd gs))"
      by (simp add: pixels_of_def)
    then have "card (pixels_of (concat (map snd (e # gs)))) \<le> card (pixels_of (snd e)) + card (pixels_of (concat (map snd gs)))"
      by (simp add: card_Un_le)
    with e Cons show ?case by simp
  qed simp
  from this [of fs] show "int (card (mask_points m)) \<le> sum_list (map (\<lambda>c. box_w (comp_bounds c) * box_h (comp_bounds c)) cs)"
    by (simp add: points cs o_def)
qed


section \<open>The counts of a page\<close>

lemma count_true_simps [simp]: "count_true [] = 0" "count_true (b # bs) = (if b then 1 else 0) + count_true bs"
  by (simp_all add: count_true_def)

lemma count_true_bounds: "0 \<le> count_true bs" "count_true bs \<le> int (length bs)"
  by (induction bs) auto

lemma row_partition:
  "length row = length s \<Longrightarrow> count_true (map (ink_sample b) row) =
     count_true (map2 (\<lambda>v b'. ink_sample b v \<and> b') row s) + count_true (audited_row b row s)"
  by (induction row s rule: list_induct2) (auto simp: audited_row_def)

lemma row_spanning: "length row = length s \<Longrightarrow> count_true (map2 (\<lambda>v b'. ink_sample b v \<and> b') row s) \<le> count_true s"
  by (induction row s rule: list_induct2) auto

lemma page_partition:
  assumes "length rows = length m" "\<forall>(row, s) \<in> set (zip rows m). length row = length s"
  shows "sum_list (map (\<lambda>row. count_true (map (ink_sample b) row)) rows) =
      sum_list (map2 (\<lambda>row s. count_true (map2 (\<lambda>v b'. ink_sample b v \<and> b') row s)) rows m) +
      sum_list (map count_true (map2 (audited_row b) rows m))"
    "0 \<le> sum_list (map2 (\<lambda>row s. count_true (map2 (\<lambda>v b'. ink_sample b v \<and> b') row s)) rows m)"
    "sum_list (map2 (\<lambda>row s. count_true (map2 (\<lambda>v b'. ink_sample b v \<and> b') row s)) rows m) \<le> sum_list (map count_true m)"
  using assms
  by (induction rows m rule: list_induct2)
    (simp_all add: row_partition row_spanning add_mono count_true_bounds add_nonneg_nonneg)

lemma page_ink_area:
  assumes "gray_page width height rows"
  shows "sum_list (map (\<lambda>row. count_true (map (ink_sample b) row)) rows) \<le> width * height"
proof -
  have "\<forall>row \<in> set rows. int (length row) = width \<Longrightarrow>
      sum_list (map (\<lambda>row. count_true (map (ink_sample b) row)) rows) \<le> width * int (length rows)"
  proof (induction rows)
    case (Cons row rows)
    have "count_true (map (ink_sample b) row) \<le> width"
      using count_true_bounds(2) [of "map (ink_sample b) row"] Cons.prems by simp
    with Cons show ?case by (simp add: algebra_simps)
  qed simp
  then show ?thesis using assms by (auto simp: gray_page_def)
qed

lemma mask_points_count:
  assumes "length m = length rows"
  shows "sum_list (map count_true m) = int (card (mask_points m))"
  using sum_rows [of m m] by (simp add: mask_points_def)

text \<open>What the perimeter finding of a page is made of.\<close>

lemma edge_counts_partition:
  fixes level :: int and cp :: coverage_policy
  assumes page: "page_rows width height rows m"
  defines "counts \<equiv> fst (edge_counts width height rows level m cp)"
  shows "rc_page_ink counts = rc_spanning_ink counts + ik_total (rc_measure counts)"
    "0 \<le> rc_spanning_ink counts" "rc_spanning_ink counts \<le> int (card (mask_points m))"
    "0 \<le> ik_outside (rc_measure counts)" "ik_outside (rc_measure counts) \<le> ik_total (rc_measure counts)"
    "ik_substantial (rc_measure counts) = cp_substantial cp"
    "rc_page_ink counts = sum_list (map (\<lambda>row. count_true (map (ink_sample level) row)) rows)"
proof -
  obtain boxes where counts: "counts = residual_counts_of width height rows boxes level m cp"
    by (simp add: counts_def edge_counts_def Let_def)
  have shape: "length rows = length m" "\<forall>(row, s) \<in> set (zip rows m). length row = length s"
  proof -
    show "length rows = length m" using page by (simp add: page_rows_def)
    have "int (length row) = width \<and> int (length s) = width" if "(row, s) \<in> set (zip rows m)" for row s
      using page set_zip_leftD [OF that] set_zip_rightD [OF that] by (simp add: page_rows_def)
    then show "\<forall>(row, s) \<in> set (zip rows m). length row = length s" by fastforce
  qed
  note parts = page_partition [OF shape, of level]
  have pixels: "rc_measure counts = mk_measure (int (card (audited_pixels rows level m)))
      (int (card (audited_pixels rows level m - cover boxes))) cp"
    unfolding counts by (rule residual_counts_pixels [OF page])
  have "finite (audited_pixels rows level m)"
  proof (rule finite_subset)
    show "audited_pixels rows level m \<subseteq> {0..<width} \<times> {0..<height}"
      using page by (auto simp: audited_pixels_def page_rows_def)
  qed simp
  then have "card (audited_pixels rows level m - cover boxes) \<le> card (audited_pixels rows level m)"
    by (intro card_mono) auto
  then show "0 \<le> ik_outside (rc_measure counts)" "ik_outside (rc_measure counts) \<le> ik_total (rc_measure counts)"
    by (simp_all add: pixels mk_measure_def)
  show "ik_substantial (rc_measure counts) = cp_substantial cp" by (simp add: pixels mk_measure_def)
  show page_ink: "rc_page_ink counts = sum_list (map (\<lambda>row. count_true (map (ink_sample level) row)) rows)"
    by (simp add: counts residual_counts_of_def Let_def)
  show "rc_page_ink counts = rc_spanning_ink counts + ik_total (rc_measure counts)"
    using parts(1) by (simp add: counts residual_counts_of_def Let_def mk_measure_def)
  show "0 \<le> rc_spanning_ink counts" "rc_spanning_ink counts \<le> int (card (mask_points m))"
    using parts(2,3) mask_points_count [of m rows] shape(1)
    by (simp_all add: counts residual_counts_of_def Let_def)
qed


section \<open>The consumers accept what is published\<close>

lemma page_basis:
  assumes page: "gray_page width height rows" "0 < width" "0 < height" and gap: "0 \<le> cp_gap cp"
    and bp: "0 < bp_ink_margin_bp p" "bp_ink_margin_bp p < BASIS_POINTS div 2"
  shows "(\<exists>why. page_ink_basis width height rows p cp = Some (Inl (BackgroundInferenceRefusal why)) \<and> \<not> blank (u why)) \<or>
    (\<exists>b. page_ink_basis width height rows p cp = Some (Inr b) \<and>
       page_rows width height rows (basis_mask b) \<and>
       (\<forall>box \<in> set (basis_spanning b). box_in_page width height box) \<and>
       int (card (mask_points (basis_mask b))) \<le> sum_list (map (\<lambda>box. box_w box * box_h box) (basis_spanning b)) \<and>
       (let pb = basis_background b in
          MINIMUM_CONTRAST_BELOW_BACKGROUND \<le> pb_level pb \<and> pb_level pb \<le> 255 \<and>
          0 \<le> pb_dark_mode pb \<and> pb_dark_mode pb \<le> pb_level pb \<and>
          derived_ink_margin (pb_level pb) (pb_dark_mode pb) (bp_ink_margin_bp p) = Inr (pb_ink_margin pb) \<and>
          pb_contrast pb = MINIMUM_CONTRAST_BELOW_BACKGROUND \<and>
          pb_threshold pb = pb_level pb - MINIMUM_CONTRAST_BELOW_BACKGROUND))"
proof (cases "infer_background_evidence width height rows p")
  case (Inl e)
  with inference_sound [OF page bp] show ?thesis by (auto simp: page_ink_basis_def page_background_def)
next
  case (Inr ev)
  have ev: "evidence_sound width height rows p ev" using inference_sound [OF page bp] Inr by simp
  let ?level = "be_background ev" and ?margin = "be_ink_margin ev"
  have level: "0 \<le> ?level" "?level \<le> 255" "0 \<le> ?margin" "?margin \<le> ?level"
    using ev by (auto simp: evidence_sound_def PRIMARY_MARGIN_def)
  show ?thesis
  proof (cases "?level < MINIMUM_CONTRAST_BELOW_BACKGROUND")
    case True
    then have "page_background width height rows p =
        Inl (BackgroundInferenceRefusal ''the threshold is below every 8-bit sample'')"
      using Inr level by (simp add: page_background_def ink_threshold_def MINIMUM_CONTRAST_BELOW_BACKGROUND_def)
    then show ?thesis using refusal_texts(4) by (auto simp: page_ink_basis_def)
  next
    case False
    have pb: "page_background width height rows p = Inr \<lparr>pb_level = ?level, pb_source = be_source ev,
        pb_dark_mode = be_dark_mode ev, pb_ink_margin = ?margin, pb_contrast = MINIMUM_CONTRAST_BELOW_BACKGROUND,
        pb_threshold = ?level - MINIMUM_CONTRAST_BELOW_BACKGROUND\<rparr>" (is "_ = Inr ?pb")
      using Inr level False by (simp add: page_background_def ink_threshold_def MINIMUM_CONTRAST_BELOW_BACKGROUND_def)
    have cut: "ink_threshold ?level ?margin = Inr (?level - ?margin)" using level by (simp add: ink_threshold_def)
    obtain r where r: "label_component_runs (runs_of_rows (?level - ?margin) rows) (cp_gap cp) = Some r" "\<nexists>e. r = Inl e"
      using labelling_total [of "runs_of_rows (?level - ?margin) rows" "cp_gap cp"] gap by auto
    then obtain ls where ls: "label_component_runs (runs_of_rows (?level - ?margin) rows) (cp_gap cp) = Some (Inr ls)"
      by (cases r) auto
    obtain cs m where found: "page_spanning_components width height rows ?level ?margin cp = Some (Inr (cs, m))"
      by (simp add: page_spanning_components_def cut ls Let_def)
    note spanning = spanning_components [OF page(1) gap found]
    have basis: "page_ink_basis width height rows p cp =
        Some (Inr \<lparr>basis_background = ?pb, basis_spanning = map comp_bounds cs, basis_mask = m\<rparr>)"
      using level False by (simp add: page_ink_basis_def pb found ink_threshold_def MINIMUM_CONTRAST_BELOW_BACKGROUND_def)
    have shape: "page_rows width height rows m"
      using spanning(1) page by (auto simp: page_rows_def mask_shape_def gray_page_def)
    show ?thesis
      using basis shape spanning(2,3) ev False
      by (intro disjI2 exI [of _ "\<lparr>basis_background = ?pb, basis_spanning = map comp_bounds cs, basis_mask = m\<rparr>"])
        (simp add: evidence_sound_def o_def)
  qed
qed

lemma component_boxes_read:
  "\<forall>b \<in> set bs. box_in_page width height b \<Longrightarrow>
     rmap (component_box width height) (map bounds_json bs) = Inr bs"
proof (induction bs)
  case (Cons b bs)
  have "component_box width height (bounds_json b) = Inr b"
    using Cons.prems by (simp add: component_box_def bounds_json_def keys_are_def field_def BOX_KEYS_def box_in_page_def mk_box_def insert_commute)
  with Cons show ?case by simp
qed simp

definition edge_fields :: "int \<Rightarrow> int \<Rightarrow> box list \<Rightarrow> ink_measure \<Rightarrow> int \<Rightarrow> int \<Rightarrow> (ustr \<times> json) list" where
  "edge_fields page_ink spanning boxes im band ratio =
     [(u ''page_ink_pixels'', JInt page_ink), (u ''page_spanning_ink_pixels'', JInt spanning),
      (u ''page_spanning_components'', JList (map bounds_json boxes)),
      (u ''total_ink_pixels'', JInt (ik_total im)), (u ''outside_ink_pixels'', JInt (ik_outside im)),
      (u ''flagged'', JBool (ik_flagged im)), (u ''substantial_ink_pixels'', JInt (ik_substantial im)),
      (u ''edge_band_pixels'', JInt band), (u ''named_finding'', JStr (u ''unclaimed-edge-ink'')),
      (u ''fraction_outside_per_million'', JInt ratio)]"

lemma edge_fields_read:
  "keys_are (edge_fields a b bs m e r) EDGE_FINDING_FIELDS"
  "field (edge_fields a b bs m e r) ''flagged'' = Some (JBool (ik_flagged m))"
  "field (edge_fields a b bs m e r) ''named_finding'' = Some (JStr (u ''unclaimed-edge-ink''))"
  "field (edge_fields a b bs m e r) ''page_spanning_components'' = Some (JList (map bounds_json bs))"
  "0 \<le> a \<Longrightarrow> 0 \<le> b \<Longrightarrow> 0 \<le> ik_total m \<Longrightarrow> 0 \<le> ik_outside m \<Longrightarrow> 0 \<le> r \<Longrightarrow> 1 \<le> ik_substantial m \<Longrightarrow> 1 \<le> e \<Longrightarrow>
     rmap (edge_count (edge_fields a b bs m e r)) EDGE_COUNT_FIELDS = Inr [a, b, ik_total m, ik_outside m, r, ik_substantial m, e]"
  by (simp_all add: keys_are_def edge_fields_def EDGE_FINDING_FIELDS_def field_def insert_commute edge_count_def
      bounded_int_def EDGE_COUNT_FIELDS_def)


lemma per_million_bounds:
  assumes "0 \<le> outside" "outside \<le> total_ink"
  shows "0 \<le> per_million (fraction_outside total_ink outside)" "per_million (fraction_outside total_ink outside) \<le> 1000000"
proof -
  let ?q = "fraction_outside total_ink outside"
  have q: "0 \<le> ?q" "?q \<le> 1"
  proof -
    have "0 \<le> (of_int outside / of_int total_ink :: rat)" "(of_int outside / of_int total_ink :: rat) \<le> of_int 1"
      if "total_ink \<noteq> 0" using assms that by (auto simp: divide_le_eq)
    then show "0 \<le> ?q" "?q \<le> 1"
      using binary64_bounds [of "of_int outside / of_int total_ink" 1] by (auto simp: fraction_outside_def)
  qed
  have "0 \<le> binary64 (?q * 1000000)" "binary64 (?q * 1000000) \<le> of_int 1000000"
    using q binary64_bounds [of "?q * 1000000" 1000000] by simp_all
  then show "0 \<le> per_million ?q" "per_million ?q \<le> 1000000"
    unfolding per_million_def by (auto intro: round_even_nonneg round_even_le)
qed

lemma reconcile_accepts:
  assumes runs: "edge_ink_from_runs evidence [] cp = Inr (im, band)" "validated_ink_run_evidence evidence = Inr (width, height, rows)"
    and counts: "page_ink = spanning + ik_total im" "0 \<le> spanning" "0 \<le> ik_outside im" "ik_outside im \<le> ik_total im"
      "page_ink \<le> width * height" "1 \<le> ik_substantial im" "1 \<le> band"
    and boxes: "\<forall>b \<in> set bs. box_in_page width height b" "spanning \<le> sum_list (map (\<lambda>b. box_w b * box_h b) bs)"
  shows "reconcile_edge_finding_with_runs
      (JObj (edge_fields page_ink spanning bs im band (per_million (fraction_outside (ik_total im) (ik_outside im)))))
      evidence cp (width, height) = Inr (im, band)"
proof -
  note ratio = per_million_bounds [OF counts(3,4)]
  have "bs = [] \<longrightarrow> spanning = 0" using boxes(2) counts(2) by auto
  moreover have "ik_total im \<le> width * height" using counts by simp
  ultimately show ?thesis
    using counts ratio boxes(2) unfolding reconcile_edge_finding_with_runs_def
    by (simp add: edge_fields_read runs component_boxes_read [OF boxes(1)])
qed

lemma bounded_int_ok: "bounded_int kvs f ok = Inr n \<Longrightarrow> ok n"
  by (auto simp: bounded_int_def split: option.splits json.splits if_splits)

lemma spanning_policy_gap:
  assumes "page_spanning_policy config = Inr (spanning, gap)"
  shows "0 \<le> gap"
proof -
  obtain kvs where "bounded_int kvs ''gap_tolerance_px'' (\<lambda>n. n \<ge> 0) = Inr gap"
    using assms unfolding page_spanning_policy_def by (auto simp: rbind_Inr_iff split: option.splits json.splits)
  then show ?thesis using bounded_int_ok by fastforce
qed

lemma audit_table_floor:
  assumes "validate_coverage_audit_table v = Inr gates"
  shows "0 < ag_minimum_pixels gates"
proof -
  obtain nf bp where "validate_coverage_noise_floor_table nf = Inr (ag_minimum_pixels gates, bp)"
    using assms unfolding validate_coverage_audit_table_def
    by (auto simp: rbind_Inr_iff split: json.splits if_splits)
  then obtain kvs where "bounded_int kvs ''minimum_ink_pixels'' (\<lambda>n. n > 0) = Inr (ag_minimum_pixels gates)"
    unfolding validate_coverage_noise_floor_table_def by (auto simp: rbind_Inr_iff split: json.splits if_splits)
  then show ?thesis using bounded_int_ok by fastforce
qed

lemma loaded_coverage:
  assumes "load_coverage_audit_config config seal = Inr cc"
  shows "cc_sha256 cc = seal" "0 \<le> cc_gap cc" "0 < ag_minimum_pixels (cc_gates cc)"
    "\<exists>bg. validate_background_table (field config ''background'') = Inr bg \<and> cc_ink_margin_bp cc = bv_ink_margin_bp bg"
proof -
  obtain spanning gap bg gates where parts: "page_spanning_policy config = Inr (spanning, gap)"
    "validate_background_table (field config ''background'') = Inr bg"
    "(case field config ''coverage_audit'' of Some v \<Rightarrow> validate_coverage_audit_table v
       | None \<Rightarrow> Inl (ContractError ''has no table'')) = Inr gates"
    and cc: "cc = \<lparr>cc_sha256 = seal, cc_gates = gates, cc_spanning_bp = spanning, cc_gap = gap,
      cc_ink_margin_bp = bv_ink_margin_bp bg\<rparr>"
    using assms unfolding load_coverage_audit_config_def Let_def
    by (simp only: rbind_Inr_iff split_paired_Ex split_conv sum.inject) blast
  show "cc_sha256 cc = seal" by (simp add: cc)
  show "0 \<le> cc_gap cc" using spanning_policy_gap [OF parts(1)] by (simp add: cc)
  obtain v where "validate_coverage_audit_table v = Inr gates" using parts(3) by (auto split: option.splits)
  then show "0 < ag_minimum_pixels (cc_gates cc)" using audit_table_floor by (simp add: cc)
  show "\<exists>bg. validate_background_table (field config ''background'') = Inr bg \<and> cc_ink_margin_bp cc = bv_ink_margin_bp bg"
    using parts(2) by (simp add: cc)
qed

lemma resolved_gates:
  assumes "0 < width" "0 < height" "0 < ag_minimum_pixels gates"
  obtains cp where "resolve_coverage_audit_policy gates spanning gap width height = Inr cp"
    "cp_gap cp = gap" "1 \<le> cp_substantial cp" "1 \<le> cp_edge_band cp"
  using assms by (auto simp: resolve_coverage_audit_policy_def)

lemma measured_payload_accepted:
  assumes "0 < ordinal" "is_sha256 (Some (JStr digest))" "ink_margin_bp = margin_bp"
    "MINIMUM_CONTRAST_BELOW_BACKGROUND \<le> pb_level pb" "pb_level pb \<le> 255" "0 \<le> pb_dark_mode pb" "pb_dark_mode pb \<le> pb_level pb"
    "derived_ink_margin (pb_level pb) (pb_dark_mode pb) margin_bp = Inr (pb_ink_margin pb)"
    "pb_contrast pb = MINIMUM_CONTRAST_BELOW_BACKGROUND"
    "pb_threshold pb = pb_level pb - MINIMUM_CONTRAST_BELOW_BACKGROUND" "im_background m = pb"
    "is_obj (Some (im_runs m))"
  shows "validate_measured_ink_map_payload (ink_map_payload ordinal digest (Measured m))
    MINIMUM_CONTRAST_BELOW_BACKGROUND ink_margin_bp = Inr (ordinal, digest)"
proof -
  have "validate_payload_background
      [(u ''background_level'', JInt (pb_level pb)), (u ''background_source'', JStr (u (source_name (pb_source pb)))),
       (u ''dark_mode'', JInt (pb_dark_mode pb)), (u ''ink_margin'', JInt (pb_ink_margin pb)),
       (u ''contrast_below_background'', JInt (pb_contrast pb)), (u ''ink_threshold'', JInt (pb_threshold pb)),
       (u ''config_sha256'', JStr digest)] MINIMUM_CONTRAST_BELOW_BACKGROUND ink_margin_bp = Inr digest"
    using assms by (cases "pb_source pb")
      (simp_all add: validate_payload_background_def keys_are_def field_def plain_int_def bounded_int_def
        insert_commute MINIMUM_CONTRAST_BELOW_BACKGROUND_def)
  moreover have "is_obj (Some (artifact_finding m))" by (simp add: is_obj_def artifact_finding_def Let_def split_beta)
  ultimately show ?thesis
    using assms by (simp add: validate_measured_ink_map_payload_def ink_map_payload_def background_json_def keys_are_def
        field_def positive_ordinal_def bounded_int_def insert_commute)
qed

lemma refusal_payload_accepted:
  assumes "0 < ordinal" "is_sha256 (Some (JStr digest))" "\<not> blank (u why)"
  shows "validate_ink_not_measurable_payload (ink_map_payload ordinal digest (NotMeasurable why)) = Inr (ordinal, u why, digest)"
  using assms by (simp add: validate_ink_not_measurable_payload_def ink_map_payload_def keys_are_def field_def
      positive_ordinal_def bounded_int_def insert_commute)

lemma artifact_fields:
  "artifact_finding m = JObj (edge_fields (rc_page_ink (fst (im_edge m))) (rc_spanning_ink (fst (im_edge m))) (im_spanning m)
     (rc_measure (fst (im_edge m))) (snd (im_edge m))
     (per_million (fraction_outside (ik_total (rc_measure (fst (im_edge m)))) (ik_outside (rc_measure (fst (im_edge m)))))))"
  by (simp add: artifact_finding_def edge_fields_def Let_def split_beta)

text \<open>
  C23. Every page of bytes is measured to an end under a loaded policy, and the record the stage
  publishes for it is one its consumers accept: a refusal names itself in a closed payload, and
  a measurement carries a background the payload check derives again, and an edge finding that
  reconciles with its own retained runs, count for count, flag and ratio.
\<close>

theorem published_ink_map_is_accepted:
  assumes "gray_page width height rows" "0 < width" "0 < height"
    and "load_background_config config seal = Inr (seal, values)" "load_coverage_audit_config config seal = Inr coverage"
    and "0 < ordinal" "is_sha256 (Some (JStr seal))"
  shows "\<exists>m. measure_page_bytes (Some (width, height, rows)) values coverage = Some (Inr m) \<and>
    (case m of
       NotMeasurable why \<Rightarrow> validate_ink_not_measurable_payload (ink_map_payload ordinal seal m) = Inr (ordinal, u why, seal)
     | Measured page \<Rightarrow>
         validate_measured_ink_map_payload (ink_map_payload ordinal seal m) MINIMUM_CONTRAST_BELOW_BACKGROUND
           (cc_ink_margin_bp coverage) = Inr (ordinal, seal) \<and>
         (\<exists>cp. resolve_coverage_audit_policy (cc_gates coverage) (cc_spanning_bp coverage) (cc_gap coverage) width height = Inr cp \<and>
            reconcile_edge_finding_with_runs (artifact_finding page) (im_runs page) cp (width, height) =
              Inr (rc_measure (fst (im_edge page)), snd (im_edge page))))"
proof -
  note coverage = loaded_coverage [OF assms(5)]
  have table: "validate_background_table (field config ''background'') = Inr values"
    using assms(4) by (auto simp: load_background_config_def result_simps)
  with coverage(4) have margin: "cc_ink_margin_bp coverage = bv_ink_margin_bp values" by auto
  obtain cp where cp: "resolve_coverage_audit_policy (cc_gates coverage) (cc_spanning_bp coverage) (cc_gap coverage) width height = Inr cp"
    "cp_gap cp = cc_gap coverage" "1 \<le> cp_substantial cp" "1 \<le> cp_edge_band cp"
    using resolved_gates [OF assms(2,3) coverage(3)] .
  obtain p where p: "resolve_background_policy values width height = Inr p" "bp_ink_margin_bp p = bv_ink_margin_bp values"
    using assms(2,3) by (simp add: resolve_background_policy_def)
  have bp: "0 < bp_ink_margin_bp p" "bp_ink_margin_bp p < BASIS_POINTS div 2"
    using validated_background [OF table] p(2) by auto
  have gap: "0 \<le> cp_gap cp" using coverage(2) cp(2) by simp
  have measured: "measure_page_bytes (Some (width, height, rows)) values coverage =
      map_option (\<lambda>page. case page of Inr m \<Rightarrow> Inr (Measured m)
        | Inl (BackgroundInferenceRefusal why) \<Rightarrow> Inr (NotMeasurable why) | Inl e \<Rightarrow> Inl e) (ink_map_page width height rows p cp)"
    by (cases "ink_map_page width height rows p cp") (simp_all add: measure_page_bytes_def p cp)
  show ?thesis
    using page_basis [OF assms(1-3) gap bp]
  proof (elim disjE exE conjE)
    fix why assume why: "page_ink_basis width height rows p cp = Some (Inl (BackgroundInferenceRefusal why))" "\<not> blank (u why)"
    then have "ink_map_page width height rows p cp = Some (Inl (BackgroundInferenceRefusal why))" by (simp add: ink_map_page_def)
    then show ?thesis using measured refusal_payload_accepted [OF assms(6,7) why(2)] by simp
  next
    fix b assume b: "page_ink_basis width height rows p cp = Some (Inr b)" "page_rows width height rows (basis_mask b)"
      "\<forall>box \<in> set (basis_spanning b). box_in_page width height box"
      "int (card (mask_points (basis_mask b))) \<le> sum_list (map (\<lambda>box. box_w box * box_h box) (basis_spanning b))"
      and pb: "let pb = basis_background b in
          MINIMUM_CONTRAST_BELOW_BACKGROUND \<le> pb_level pb \<and> pb_level pb \<le> 255 \<and>
          0 \<le> pb_dark_mode pb \<and> pb_dark_mode pb \<le> pb_level pb \<and>
          derived_ink_margin (pb_level pb) (pb_dark_mode pb) (bp_ink_margin_bp p) = Inr (pb_ink_margin pb) \<and>
          pb_contrast pb = MINIMUM_CONTRAST_BELOW_BACKGROUND \<and>
          pb_threshold pb = pb_level pb - MINIMUM_CONTRAST_BELOW_BACKGROUND"
    let ?level = "pb_level (basis_background b)"
    let ?counts = "fst (edge_counts width height rows ?level (basis_mask b) cp)"
      and ?band = "snd (edge_counts width height rows ?level (basis_mask b) cp)"
    define page where "page = \<lparr>im_background = basis_background b, im_spanning = basis_spanning b,
      im_edge = edge_counts width height rows ?level (basis_mask b) cp,
      im_runs = audited_runs width height rows ?level (basis_mask b)\<rparr>"
    have page: "ink_map_page width height rows p cp = Some (Inr page)" "im_background page = basis_background b"
      "im_spanning page = basis_spanning b" "im_edge page = edge_counts width height rows ?level (basis_mask b) cp"
      "im_runs page = audited_runs width height rows ?level (basis_mask b)"
      by (simp_all add: page_def ink_map_page_def b(1))
    note parts = edge_counts_partition [OF b(2), of ?level cp]
    have "1 \<le> ?band" using cp(4) by (simp add: edge_counts_def Let_def edge_band_def)
    moreover have "rc_page_ink ?counts \<le> width * height" using parts(7) page_ink_area [OF assms(1)] by simp
    moreover have "edge_ink_from_runs (im_runs page) [] cp = Inr (rc_measure ?counts, ?band)"
      unfolding page(5) using cp(4) by (intro edge_runs_measure [OF b(2)]) simp
    moreover have "rc_spanning_ink ?counts \<le> sum_list (map (\<lambda>box. box_w box * box_h box) (basis_spanning b))"
      using parts(3) b(4) by simp
    ultimately have "reconcile_edge_finding_with_runs (artifact_finding page) (im_runs page) cp (width, height) =
        Inr (rc_measure ?counts, ?band)"
      unfolding artifact_fields page(3,4) using parts cp(3) b(3) page_runs_evidence [OF b(2), of ?level, folded page(5)]
      by (intro reconcile_accepts) auto
    moreover have "validate_measured_ink_map_payload (ink_map_payload ordinal seal (Measured page))
        MINIMUM_CONTRAST_BELOW_BACKGROUND (cc_ink_margin_bp coverage) = Inr (ordinal, seal)"
    proof (rule measured_payload_accepted [OF assms(6,7), of _ "bv_ink_margin_bp values" "basis_background b"])
      show "is_obj (Some (im_runs page))" by (simp add: page(5) audited_runs_def is_obj_def)
    qed (use pb p(2) margin page(2) in \<open>simp_all add: Let_def\<close>)
    ultimately show ?thesis using measured page(1,4) cp(1) by simp
  qed
qed


definition sample_provenance :: json where
  "sample_provenance = JObj [(u ''source'', JStr (u ''measured'')), (u ''corpus'', JStr (u ''register'')),
     (u ''sample_unit'', JStr (u ''page'')), (u ''statistic'', JStr (u ''median'')), (u ''caveat'', JStr (u ''none'')),
     (u ''sample_count'', JInt 127), (u ''calibrated_for_this_corpus'', JBool True)]"

definition sample_config :: "(ustr \<times> json) list" where
  "sample_config =
     [(u ''background'', JObj [(u ''band_bp'', JInt 500), (u ''max_interior_dark_bp'', JInt 5000), (u ''max_ink_bp'', JInt 7000),
        (u ''ink_margin_bp'', JInt 3333), (u ''provenance'', sample_provenance)]),
      (u ''page_spanning'', JObj [(u ''page_spanning_area_bp'', JInt 5000), (u ''provenance'', sample_provenance)]),
      (u ''connectivity'', JObj [(u ''gap_tolerance_px'', JInt 3), (u ''provenance'', sample_provenance)]),
      (u ''coverage_audit'', JObj [(u ''substantial_ink_area_bp'', JInt 4), (u ''edge_band_bp'', JInt 100),
        (u ''provenance'', sample_provenance),
        (u ''noise_floor'', JObj [(u ''minimum_ink_pixels'', JInt 24), (u ''minimum_fraction_outside_bp'', JInt 200),
           (u ''provenance'', sample_provenance)])])]"

definition sample_seal :: ustr where
  "sample_seal = replicate 64 (of_char CHR ''a'')"

definition sample_coverage :: coverage_config where
  "sample_coverage = \<lparr>cc_sha256 = sample_seal,
     cc_gates = \<lparr>ag_substantial_bp = 4, ag_edge_band_bp = 100, ag_minimum_pixels = 24, ag_minimum_fraction_bp = 200\<rparr>,
     cc_spanning_bp = 5000, cc_gap = 3, cc_ink_margin_bp = 3333\<rparr>"

lemma sample_config_loads:
  "load_background_config sample_config sample_seal = Inr (sample_seal, sealed_values)"
  "load_coverage_audit_config sample_config sample_seal = Inr sample_coverage"
  by code_simp+

lemma sample_seal_shape: "is_sha256 (Some (JStr sample_seal))"
  by code_simp

lemma published_ink_map_witness:
  "\<exists>m. measure_page_bytes (Some (4, 2, leaf)) sealed_values sample_coverage = Some (Inr m) \<and>
    (case m of
       NotMeasurable why \<Rightarrow> validate_ink_not_measurable_payload (ink_map_payload 7 sample_seal m) = Inr (7, u why, sample_seal)
     | Measured page \<Rightarrow>
         validate_measured_ink_map_payload (ink_map_payload 7 sample_seal m) MINIMUM_CONTRAST_BELOW_BACKGROUND 3333 =
           Inr (7, sample_seal))"
proof -
  have "gray_page 4 2 leaf" by (simp add: gray_page_def leaf_def)
  moreover have "cc_ink_margin_bp sample_coverage = 3333" by (simp add: sample_coverage_def)
  ultimately show ?thesis
    using published_ink_map_is_accepted [OF _ _ _ sample_config_loads _ sample_seal_shape, of 4 2 leaf 7]
    by (auto split: measurement.splits)
qed

end
