(* ===== verification/PageFeed.thy ===== *)
theory PageFeed
  imports Feed
begin

text \<open>
  The Perlector's page feed as it is built, \<open>common/page_feed.py\<close>: the sealed switches, the
  checked witnesses and their rows, Surya's detections, the ids and the answer measure. The
  given rows are records, so the check that a row has exactly its fields is their type; what
  they carry, and Surya's census, are JSON values checked as the code checks them. The digest
  of a reference is a parameter. The drawn overlay, the prompt evidence and the digest of the
  feed are left out: the feed they are added to is what is built here. \<open>accounting_feed\<close> is the
  part of it \<open>common/page_accounting.py\<close> reads.
\<close>

section \<open>The sealed switches\<close>

record switches =
  sw_page_types :: ustr
  sw_page_image :: ustr
  sw_witness_units :: ustr
  sw_page_overlay :: ustr
  sw_witness_coordinates :: bool
  sw_surya_lines :: bool
  sw_surya_blocks :: bool
  sw_witnesses :: "ustr list option"

text \<open>Membership in a frozen set of texts: a list or an object cannot be hashed.\<close>

definition in_frozenset :: "json \<Rightarrow> string list \<Rightarrow> bool result" where
  "in_frozenset v names =
     (case v of
        JStr s \<Rightarrow> Inr (s \<in> set (map u names))
      | JList _ \<Rightarrow> Inl (TypeError ''unhashable type'')
      | JObj _ \<Rightarrow> Inl (TypeError ''unhashable type'')
      | _ \<Rightarrow> Inr False)"

definition setting :: "(ustr \<times> json) list \<Rightarrow> string \<Rightarrow> string list \<Rightarrow> ustr result" where
  "setting kvs f names =
     rbind (rget (KeyError f) (field kvs f)) (\<lambda>v.
     rbind (in_frozenset v names) (\<lambda>member.
       case v of JStr s \<Rightarrow> if member then Inr s else Inl (ContractError f) | _ \<Rightarrow> Inl (ContractError f)))"

definition boolean_setting :: "(ustr \<times> json) list \<Rightarrow> string \<Rightarrow> bool result" where
  "boolean_setting kvs f = (case field kvs f of Some (JBool b) \<Rightarrow> Inr b | _ \<Rightarrow> Inl (ContractError f))"

definition chair_names :: "json \<Rightarrow> ustr list option" where
  "chair_names v =
     (case v of
        JList vs \<Rightarrow>
          let chairs = concat (map (\<lambda>v. case v of JStr s \<Rightarrow> [s] | _ \<Rightarrow> []) vs) in
          if length chairs = length vs \<and> list_all (\<lambda>s. \<not> blank s) chairs \<and> distinct chairs
          then Some chairs else None
      | _ \<Rightarrow> None)"

definition FEED_FIELDS :: "string list" where
  "FEED_FIELDS = [''page_image'', ''witnesses'', ''witness_units'', ''witness_coordinates'', ''surya_lines'',
     ''surya_blocks'', ''page_overlay'']"

definition ALL_WITNESSES :: ustr where
  "ALL_WITNESSES = u ''all''"

definition validate_feed_table :: "json \<Rightarrow> switches result" where
  "validate_feed_table v =
     (case v of
        JObj kvs \<Rightarrow>
          rbind (ensure (keys_are kvs (FEED_FIELDS @ [''page_types''])) (ContractError ''is not its closed schema'')) (\<lambda>_.
          rbind (setting kvs ''page_types'' [''named'']) (\<lambda>types.
          rbind (setting kvs ''page_image'' [''legible'', ''full'', ''off'']) (\<lambda>page_image.
          rbind (setting kvs ''witness_units'' [''own'', ''flat'']) (\<lambda>units.
          rbind (setting kvs ''page_overlay'' [''off'', ''boxes'']) (\<lambda>overlay.
          rbind (ensure (\<not> (overlay \<noteq> u ''off'' \<and> page_image = u ''off''))
            (ContractError ''page_overlay draws on a copy of the page render'')) (\<lambda>_.
          rbind (boolean_setting kvs ''witness_coordinates'') (\<lambda>coordinates.
          rbind (boolean_setting kvs ''surya_lines'') (\<lambda>lines.
          rbind (boolean_setting kvs ''surya_blocks'') (\<lambda>blocks.
          rbind (rget (KeyError ''witnesses'') (field kvs ''witnesses'')) (\<lambda>chairs.
          rbind (if chairs = JStr ALL_WITNESSES then Inr None
            else case chair_names chairs of Some names \<Rightarrow> Inr (Some names) | None \<Rightarrow> Inl (ContractError ''witnesses'')) (\<lambda>shown.
            Inr \<lparr>sw_page_types = types, sw_page_image = page_image, sw_witness_units = units, sw_page_overlay = overlay,
              sw_witness_coordinates = coordinates, sw_surya_lines = lines, sw_surya_blocks = blocks,
              sw_witnesses = shown\<rparr>)))))))))))
      | _ \<Rightarrow> Inl (ContractError ''is not its closed schema''))"

section \<open>Geometry and references\<close>

definition round_half_even :: "int \<Rightarrow> int \<Rightarrow> int" where
  "round_half_even n d =
     (let q = n div d; r = n mod d in
      if 2 * r < d then q else if 2 * r > d then q + 1 else if even q then q else q + 1)"

definition BOX_SCALE :: int where
  "BOX_SCALE = 1000"

definition box_1000 :: "box \<Rightarrow> int \<times> int \<Rightarrow> int list" where
  "box_1000 b page_size =
     (case page_size of (width, height) \<Rightarrow>
        [round_half_even (box_x b * BOX_SCALE) width, round_half_even (box_y b * BOX_SCALE) height,
         round_half_even ((box_x b + box_w b) * BOX_SCALE) width,
         round_half_even ((box_y b + box_h b) * BOX_SCALE) height])"

definition checked_box :: "json \<Rightarrow> int \<times> int \<Rightarrow> box result" where
  "checked_box v page_size =
     (case v of
        JObj kvs \<Rightarrow>
          (case (keys_are kvs BOX_KEYS, field kvs ''x'', field kvs ''y'', field kvs ''w'', field kvs ''h'') of
             (True, Some (JInt x), Some (JInt y), Some (JInt w), Some (JInt h)) \<Rightarrow>
               if x < 0 \<or> y < 0 \<or> w \<le> 0 \<or> h \<le> 0 \<or> x + w > fst page_size \<or> y + h > snd page_size
               then Inl (SchemaRefusal ''rectangle inside the page'') else Inr (mk_box x y w h)
           | _ \<Rightarrow> Inl (SchemaRefusal ''rectangle inside the page''))
      | _ \<Rightarrow> Inl (SchemaRefusal ''rectangle inside the page''))"

text \<open>\<open>digest_ref\<close> of \<open>common/contracts/envelope.py\<close>: a path and the digest of the bytes there.\<close>

fun split_on :: "int \<Rightarrow> ustr \<Rightarrow> ustr list" where
  "split_on c [] = [[]]"
| "split_on c (x # xs) =
     (if x = c then [] # split_on c xs
      else case split_on c xs of [] \<Rightarrow> [[x]] | segment # segments \<Rightarrow> (x # segment) # segments)"

definition is_run_relative :: "ustr \<Rightarrow> bool" where
  "is_run_relative path \<longleftrightarrow>
     0 \<notin> set path \<and> list_all (\<lambda>segment. segment \<notin> set [[], u ''.'', u ''..'']) (split_on 47 path)"

type_synonym ref = "ustr \<times> ustr"

definition is_sha256_text :: "ustr \<Rightarrow> bool" where
  "is_sha256_text s \<longleftrightarrow> length s = 64 \<and> list_all (\<lambda>c. c \<in> set (u ''0123456789abcdef'')) s"

definition digest_ref :: "json \<Rightarrow> ref result" where
  "digest_ref v =
     (case v of
        JObj kvs \<Rightarrow>
          if \<not> keys_are kvs [''relative_path'', ''sha256''] then Inl (SchemaRefusal ''closed reference'')
          else (case field kvs ''relative_path'' of
            Some (JStr path) \<Rightarrow>
              if blank path then Inl (SchemaRefusal ''has no relative_path'')
              else if \<not> is_run_relative path then Inl (SchemaRefusal ''canonical run-relative path'')
              else (case field kvs ''sha256'' of
                Some (JStr sha) \<Rightarrow> if is_sha256_text sha then Inr (path, sha) else Inl (SchemaRefusal ''lowercase sha256'')
              | _ \<Rightarrow> Inl (SchemaRefusal ''lowercase sha256''))
          | _ \<Rightarrow> Inl (SchemaRefusal ''has no relative_path''))
      | _ \<Rightarrow> Inl (SchemaRefusal ''closed reference''))"

section \<open>The witnesses\<close>

datatype regime = Named | Blinded

definition regime_of :: "ustr \<Rightarrow> regime result" where
  "regime_of s =
     (if s = u ''named'' then Inr Named else if s = u ''blinded'' then Inr Blinded
      else Inl (SchemaRefusal ''witness regime''))"

record given_witness =
  gw_chair :: ustr
  gw_label :: ustr
  gw_adapter :: ustr
  gw_outcome :: ustr
  gw_ref :: json
  gw_units :: json
  gw_findings :: json
  gw_health :: json

definition UNIT_KINDS :: "(ustr \<times> ustr) list" where
  "UNIT_KINDS = [(u ''chandra.v1'', u ''layout-block''), (u ''dai.v1'', u ''detector-record''),
     (u ''churro.v1'', u ''line''), (u ''dots-mocr.v1'', u ''layout-block'')]"

definition READ_OUTCOME :: ustr where
  "READ_OUTCOME = u ''read''"

text \<open>The capitals but \<open>L\<close> and \<open>S\<close>.\<close>

definition WITNESS_LETTERS :: "int list" where
  "WITNESS_LETTERS = filter (\<lambda>c. c \<notin> set DETECTION_LETTERS) [65..90]"

definition checked_roster :: "json \<Rightarrow> ustr list result" where
  "checked_roster v = rget (SchemaRefusal ''not a list of distinct chair names'') (chair_names v)"

definition shown_chairs :: "ustr list option \<Rightarrow> ustr list \<Rightarrow> ustr list result" where
  "shown_chairs switch roster =
     (case switch of
        None \<Rightarrow> Inr roster
      | Some chairs \<Rightarrow>
          if filter (\<lambda>c. c \<notin> set roster) chairs \<noteq> [] then Inl (SchemaRefusal ''not in this page's roster'')
          else Inr chairs)"

definition check_given :: "regime \<Rightarrow> given_witness \<Rightarrow> unit result" where
  "check_given regime w =
     (if regime = Named \<and> gw_label w \<noteq> gw_chair w then Inl (SchemaRefusal ''a label is its chair'')
      else if regime = Blinded \<and> gw_label w = gw_chair w then Inl (SchemaRefusal ''a label is not its chair'')
      else if map_of UNIT_KINDS (gw_adapter w) = None then Inl (SchemaRefusal ''has no page-unit reader'')
      else Inr ())"

definition checked_witnesses ::
  "(ref \<Rightarrow> ustr) \<Rightarrow> given_witness list \<Rightarrow> regime \<Rightarrow> ustr list \<Rightarrow> bool \<Rightarrow> given_witness list result" where
  "checked_witnesses digest_of ws regime roster no_testimony =
     (if no_testimony
      then (if ws \<noteq> [] then Inl (SchemaRefusal ''no witness testimony is given witnesses'') else Inr ws)
      else
        rbind (rmap (check_given regime) ws) (\<lambda>_.
        rbind (ensure (distinct (map gw_chair ws)) (SchemaRefusal ''share a chair'')) (\<lambda>_.
        rbind (ensure (distinct (map gw_label ws)) (SchemaRefusal ''share a witness_label'')) (\<lambda>_.
        rbind (rmap (\<lambda>w. digest_ref (gw_ref w)) ws) (\<lambda>refs.
        rbind (ensure (distinct (map digest_of refs)) (SchemaRefusal ''share a testimonium_ref'')) (\<lambda>_.
        rbind (ensure (set roster \<subseteq> set (map gw_chair ws)) (SchemaRefusal ''never silently absent'')) (\<lambda>_.
        rbind (ensure (set (map gw_chair ws) \<subseteq> set roster) (SchemaRefusal ''not in the sealed page-witness roster'')) (\<lambda>_.
          Inr ws))))))))"

section \<open>A witness's row\<close>

record witness_unit =
  wu_ordinal :: "int option"
  wu_box :: json
  wu_label :: "ustr option"
  wu_text :: ustr

definition checked_unit :: "json \<Rightarrow> witness_unit result" where
  "checked_unit v =
     (case v of
        JObj kvs \<Rightarrow>
          if \<not> keys_are kvs [''ordinal'', ''box_px'', ''label'', ''text''] then Inl (SchemaRefusal ''a witness unit'')
          else (case (field kvs ''ordinal'', field kvs ''label'', field kvs ''text'', field kvs ''box_px'') of
            (Some ordinal, Some label, Some (JStr txt), Some b) \<Rightarrow>
              rbind (case ordinal of JNull \<Rightarrow> Inr None | JInt n \<Rightarrow> Inr (Some n) | _ \<Rightarrow> Inl (SchemaRefusal ''a witness unit'')) (\<lambda>n.
              rbind (case label of JNull \<Rightarrow> Inr None | JStr s \<Rightarrow> Inr (Some s) | _ \<Rightarrow> Inl (SchemaRefusal ''a witness unit'')) (\<lambda>l.
                Inr \<lparr>wu_ordinal = n, wu_box = b, wu_label = l, wu_text = txt\<rparr>))
          | _ \<Rightarrow> Inl (SchemaRefusal ''a witness unit''))
      | _ \<Rightarrow> Inl (SchemaRefusal ''a witness unit''))"

text \<open>\<open>all\<close> over checks that may raise: the first that fails ends it.\<close>

fun all_checks :: "('a \<Rightarrow> bool result) \<Rightarrow> 'a list \<Rightarrow> bool result" where
  "all_checks check [] = Inr True"
| "all_checks check (x # xs) = rbind (check x) (\<lambda>ok. if ok then all_checks check xs else Inr False)"

definition repetition_finding :: "json \<Rightarrow> bool result" where
  "repetition_finding v =
     (case v of
        JObj kvs \<Rightarrow>
          (case field kvs ''kind'' of
             None \<Rightarrow> Inr False
           | Some kind \<Rightarrow> in_frozenset kind [''post-hoc-repetition'', ''post-hoc-repetition-uninspected''])
      | _ \<Rightarrow> Inr False)"

text \<open>Membership in \<open>(True, False, None)\<close> is by equality, and 0 and 1 equal the booleans.\<close>

definition answer_health_ok :: "json \<Rightarrow> bool result" where
  "answer_health_ok v =
     (case v of
        JObj kvs \<Rightarrow>
          if \<not> keys_are kvs [''truncated'', ''repetition''] then Inr False
          else (case (field kvs ''truncated'', field kvs ''repetition'') of
            (Some truncated, Some (JList findings)) \<Rightarrow>
              if truncated \<in> set [JBool True, JBool False, JNull, JInt 0, JInt 1] then all_checks repetition_finding findings
              else Inr False
          | _ \<Rightarrow> Inr False)
      | _ \<Rightarrow> Inr False)"

definition no_answer_health :: "json \<Rightarrow> bool" where
  "no_answer_health v \<longleftrightarrow>
     (case v of JObj kvs \<Rightarrow> field kvs ''truncated'' = Some JNull \<and> field kvs ''repetition'' = Some (JList []) | _ \<Rightarrow> False)"

record shown_unit =
  su_id :: ustr
  su_ordinal :: "int option"
  su_box :: "box option"
  su_box_1000 :: "int list option"
  su_label :: "ustr option"
  su_text :: ustr

record feed_row =
  fr_letter :: int
  fr_label :: ustr
  fr_chair :: "ustr option"
  fr_unit_kind :: ustr
  fr_outcome :: ustr
  fr_ref :: ref
  fr_findings :: "json list"
  fr_health :: json
  fr_units :: "shown_unit list"

definition show_unit :: "int \<Rightarrow> bool \<Rightarrow> int \<times> int \<Rightarrow> int \<times> json \<Rightarrow> shown_unit result" where
  "show_unit capital boxes_shown page_size numbered =
     (case numbered of (number, v) \<Rightarrow>
        rbind (checked_unit v) (\<lambda>unit.
        rbind (if wu_box unit = JNull then Inr None
          else rbind (checked_box (wu_box unit) page_size) (\<lambda>b. Inr (Some b))) (\<lambda>b.
          Inr \<lparr>su_id = mk_id capital number, su_ordinal = wu_ordinal unit, su_box = b,
            su_box_1000 = (case b of Some b \<Rightarrow> if boxes_shown then Some (box_1000 b page_size) else None | None \<Rightarrow> None),
            su_label = wu_label unit, su_text = wu_text unit\<rparr>)))"

definition numbered_from_1 :: "'a list \<Rightarrow> (int \<times> 'a) list" where
  "numbered_from_1 xs = zip [1..int (length xs)] xs"

definition witness_row ::
  "int \<Rightarrow> given_witness \<Rightarrow> switches \<Rightarrow> regime \<Rightarrow> int \<times> int \<Rightarrow> feed_row result" where
  "witness_row capital w sw regime page_size =
     (case (gw_units w, gw_findings w) of
        (JList units, JList findings) \<Rightarrow>
          rbind (answer_health_ok (gw_health w)) (\<lambda>ok.
          rbind (ensure ok (SchemaRefusal ''carries no answer health'')) (\<lambda>_.
          rbind (ensure (\<not> (gw_outcome w \<noteq> READ_OUTCOME \<and>
              (units \<noteq> [] \<or> findings \<noteq> [] \<or> \<not> no_answer_health (gw_health w))))
            (SchemaRefusal ''did not read carries units, findings or answer health'')) (\<lambda>_.
          let boxes_shown = (sw_witness_coordinates sw \<and> sw_witness_units sw = u ''own'') in
          rbind (rmap (show_unit capital boxes_shown page_size) (numbered_from_1 units)) (\<lambda>shown.
          rbind (rget (KeyError ''adapter'') (map_of UNIT_KINDS (gw_adapter w))) (\<lambda>kind.
          rbind (digest_ref (gw_ref w)) (\<lambda>ref.
            Inr \<lparr>fr_letter = capital, fr_label = gw_label w,
              fr_chair = (if regime = Named then Some (gw_chair w) else None), fr_unit_kind = kind,
              fr_outcome = gw_outcome w, fr_ref = ref, fr_findings = findings, fr_health = gw_health w,
              fr_units = shown\<rparr>))))))
      | _ \<Rightarrow> Inl (SchemaRefusal ''carries no units or no findings list''))"

section \<open>The answer measure\<close>

record answer_reserve =
  longest_characters :: int
  act_entries :: int
  line_cites :: int

definition ACT_SIZED_UNIT_KINDS :: "string list" where
  "ACT_SIZED_UNIT_KINDS = [''layout-block'', ''detector-record'']"

text \<open>The rows are of the witnesses that read: the kind of a unit and the units.\<close>

definition answer_measure :: "feed_row list \<Rightarrow> int \<Rightarrow> int \<Rightarrow> answer_reserve" where
  "answer_measure rows blocks lines =
     \<lparr>longest_characters =
        fold max (map (\<lambda>r. sum_list (map (\<lambda>x. int (length (su_text x))) (fr_units r))) rows) 0,
      act_entries =
        fold max (map (\<lambda>r. int (length (filter (\<lambda>x. su_ordinal x \<noteq> None) (fr_units r))))
          (filter (\<lambda>r. fr_unit_kind r \<in> set (map u ACT_SIZED_UNIT_KINDS)) rows)) blocks,
      line_cites = lines\<rparr>"

section \<open>Surya's detections\<close>

datatype surya_given = NoSurya | SuryaAbsent | Census json

record shown_detection =
  sd_id :: ustr
  sd_box :: box
  sd_box_1000 :: "int list"
  sd_label :: "ustr option"
  sd_confidence :: "int option"
  sd_ref :: ref

record shown_surya =
  ss_census :: "ref option"
  ss_sequence :: "ustr option"
  ss_reason :: "ustr option"
  ss_lines :: "shown_detection list"
  ss_blocks :: "shown_detection list"

definition confidence :: "json option \<Rightarrow> int option result" where
  "confidence v =
     (case v of
        Some JNull \<Rightarrow> Inr None
      | Some (JInt n) \<Rightarrow> if 0 \<le> n \<and> n \<le> 10000 then Inr (Some n) else Inl (SchemaRefusal ''a Surya confidence'')
      | _ \<Rightarrow> Inl (SchemaRefusal ''a Surya confidence''))"

definition required :: "(ustr \<times> json) list \<Rightarrow> string \<Rightarrow> json result" where
  "required kvs f = rget (KeyError f) (field kvs f)"

definition show_detection ::
  "int \<Rightarrow> int \<times> int \<Rightarrow> ustr option \<Rightarrow> int \<Rightarrow> (ustr \<times> json) list \<Rightarrow> shown_detection result" where
  "show_detection capital page_size label number kvs =
     rbind (required kvs ''box_px'') (\<lambda>v.
     rbind (checked_box v page_size) (\<lambda>b.
     rbind (confidence (field kvs ''confidence_bp'')) (\<lambda>bp.
     rbind (required kvs ''ref'') (\<lambda>r.
     rbind (digest_ref r) (\<lambda>ref.
       Inr \<lparr>sd_id = mk_id capital number, sd_box = b, sd_box_1000 = box_1000 b page_size, sd_label = label,
         sd_confidence = bp, sd_ref = ref\<rparr>)))))"

definition show_line :: "int \<times> int \<Rightarrow> int \<times> json \<Rightarrow> shown_detection result" where
  "show_line page_size numbered =
     (case numbered of (number, v) \<Rightarrow>
        (case v of
           JObj kvs \<Rightarrow>
             if keys_are kvs [''box_px'', ''confidence_bp'', ''ref''] then show_detection 76 page_size None number kvs
             else Inl (SchemaRefusal ''a Surya line'')
         | _ \<Rightarrow> Inl (SchemaRefusal ''a Surya line'')))"

text \<open>A block with its fields read: its position and its label.\<close>

definition read_block :: "json \<Rightarrow> (int \<times> ustr option \<times> (ustr \<times> json) list) result" where
  "read_block v =
     (case v of
        JObj kvs \<Rightarrow>
          if \<not> keys_are kvs [''box_px'', ''label'', ''position'', ''confidence_bp'', ''ref''] then Inl (SchemaRefusal ''a Surya block'')
          else (case (field kvs ''position'', field kvs ''label'') of
            (Some (JInt n), Some JNull) \<Rightarrow> Inr (n, None, kvs)
          | (Some (JInt n), Some (JStr s)) \<Rightarrow> Inr (n, Some s, kvs)
          | _ \<Rightarrow> Inl (SchemaRefusal ''a Surya block''))
      | _ \<Rightarrow> Inl (SchemaRefusal ''a Surya block''))"

definition show_block :: "int \<times> int \<Rightarrow> int \<times> (int \<times> ustr option \<times> (ustr \<times> json) list) \<Rightarrow> shown_detection result" where
  "show_block page_size numbered =
     (case numbered of (number, _, label, kvs) \<Rightarrow> show_detection 83 page_size label number kvs)"

definition block_sequence :: "(ustr \<times> json) list \<Rightarrow> (ustr \<times> ustr option) result" where
  "block_sequence kvs =
     (case (field kvs ''block_sequence'', field kvs ''block_sequence_reason'') of
        (Some (JStr order), Some reason) \<Rightarrow>
          if order = u ''surya-order-head'' \<and> reason = JNull then Inr (order, None)
          else (case reason of
            JStr s \<Rightarrow>
              if order = u ''raster-fallback'' \<and> \<not> blank s then Inr (order, Some s) else Inl (SchemaRefusal ''block_sequence'')
          | _ \<Rightarrow> Inl (SchemaRefusal ''block_sequence''))
      | _ \<Rightarrow> Inl (SchemaRefusal ''block_sequence''))"

definition shown_list :: "bool \<Rightarrow> json option \<Rightarrow> json list result" where
  "shown_list on v =
     (if \<not> on then Inr [] else case v of Some (JList vs) \<Rightarrow> Inr vs | _ \<Rightarrow> Inl (SchemaRefusal ''lines and blocks are not lists''))"

definition show_surya :: "surya_given \<Rightarrow> switches \<Rightarrow> int \<times> int \<Rightarrow> shown_surya option result" where
  "show_surya given sw page_size =
     (if \<not> sw_surya_lines sw \<and> \<not> sw_surya_blocks sw then Inr None
      else case given of
        SuryaAbsent \<Rightarrow>
          Inr (Some \<lparr>ss_census = None, ss_sequence = None, ss_reason = None, ss_lines = [], ss_blocks = []\<rparr>)
      | Census (JObj kvs) \<Rightarrow>
          rbind (ensure (keys_are kvs [''census_ref'', ''block_sequence'', ''block_sequence_reason'', ''lines'', ''blocks''])
            (SchemaRefusal ''no Surya census'')) (\<lambda>_.
          rbind (block_sequence kvs) (\<lambda>(order, reason).
          rbind (shown_list (sw_surya_lines sw) (field kvs ''lines'')) (\<lambda>lines.
          rbind (shown_list (sw_surya_blocks sw) (field kvs ''blocks'')) (\<lambda>blocks.
          rbind (rmap (show_line page_size) (numbered_from_1 lines)) (\<lambda>shown_lines.
          rbind (rmap read_block blocks) (\<lambda>read.
          rbind (ensure (distinct (map fst read)) (SchemaRefusal ''share a reading-order position'')) (\<lambda>_.
          rbind (rmap (show_block page_size) (numbered_from_1 (sort_key fst read))) (\<lambda>shown_blocks.
          rbind (required kvs ''census_ref'') (\<lambda>c.
          rbind (digest_ref c) (\<lambda>census.
            Inr (Some \<lparr>ss_census = Some census, ss_sequence = Some order, ss_reason = reason,
              ss_lines = shown_lines, ss_blocks = shown_blocks\<rparr>)))))))))))
      | _ \<Rightarrow> Inl (SchemaRefusal ''no Surya census''))"

section \<open>The page render\<close>

definition dimension_is :: "(ustr \<times> json) list \<Rightarrow> string \<Rightarrow> int \<Rightarrow> bool" where
  "dimension_is kvs f n \<longleftrightarrow> field kvs f = Some (JInt n)"

definition checked_page_render :: "json option \<Rightarrow> ustr \<Rightarrow> int \<times> int \<Rightarrow> json option result" where
  "checked_page_render render page_image page_size =
     (if page_image = u ''off''
      then (case render of None \<Rightarrow> Inr None | Some _ \<Rightarrow> Inl (SchemaRefusal ''shows no page image''))
      else case render of
        Some (JObj kvs) \<Rightarrow>
          (case field kvs ''transform'' of
             Some (JObj transform) \<Rightarrow>
               if page_image = u ''full'' \<and> (field transform ''resampler'' \<noteq> Some (JStr (u ''identity'')) \<or>
                   \<not> (case field transform ''target_dimensions'' of
                        Some (JObj ds) \<Rightarrow> keys_are ds [''w'', ''h''] \<and> dimension_is ds ''w'' (fst page_size) \<and>
                          dimension_is ds ''h'' (snd page_size)
                      | _ \<Rightarrow> False))
               then Inl (SchemaRefusal ''the render is resized'')
               else if page_image = u ''legible'' \<and> field kvs ''reason'' \<noteq> Some (JStr (u ''legible-ink''))
               then Inl (SchemaRefusal ''this render is not one'')
               else Inr render
           | _ \<Rightarrow> Inl (SchemaRefusal ''none was given''))
      | _ \<Rightarrow> Inl (SchemaRefusal ''none was given''))"

section \<open>The feed\<close>

record page_feed =
  pf_page_id :: ustr
  pf_page_ordinal :: int
  pf_page_size :: "int \<times> int"
  pf_regime :: regime
  pf_switches :: switches
  pf_page_render :: "json option"
  pf_testimony :: bool
  pf_rows :: "feed_row list"
  pf_surya :: "shown_surya option"
  pf_measure :: answer_reserve

definition surya_counts :: "shown_surya option \<Rightarrow> int \<times> int" where
  "surya_counts s = (case s of None \<Rightarrow> (0, 0) | Some s \<Rightarrow> (int (length (ss_blocks s)), int (length (ss_lines s))))"

definition assemble_page_feed ::
  "(ref \<Rightarrow> ustr) \<Rightarrow> ustr \<Rightarrow> int \<Rightarrow> int \<times> int \<Rightarrow> json \<Rightarrow> ustr \<Rightarrow> json \<Rightarrow> given_witness list \<Rightarrow> surya_given \<Rightarrow>
     json option \<Rightarrow> bool \<Rightarrow> page_feed result" where
  "assemble_page_feed digest_of page_id ordinal page_size table regime_name roster_given ws surya_value render no_testimony =
     rbind (validate_feed_table table) (\<lambda>sw.
     rbind (regime_of regime_name) (\<lambda>regime.
     rbind (ensure (fst page_size > 0 \<and> snd page_size > 0) (SchemaRefusal ''page size'')) (\<lambda>_.
     rbind (checked_roster roster_given) (\<lambda>roster.
     rbind (checked_witnesses digest_of ws regime roster no_testimony) (\<lambda>ws.
     rbind (shown_chairs (sw_witnesses sw) roster) (\<lambda>shown.
     let ordered = sort_key gw_label (filter (\<lambda>w. gw_chair w \<in> set shown) ws) in
     rbind (ensure (\<not> length ordered > length WITNESS_LETTERS) (SchemaRefusal ''more than the letters'')) (\<lambda>_.
     rbind (rmap (\<lambda>(capital, w). witness_row capital w sw regime page_size) (zip WITNESS_LETTERS ordered)) (\<lambda>rows.
     rbind (checked_page_render render (sw_page_image sw) page_size) (\<lambda>checked_render.
     rbind (show_surya surya_value sw page_size) (\<lambda>detections.
     let blocks = fst (surya_counts detections); lines = snd (surya_counts detections) in
       Inr \<lparr>pf_page_id = page_id, pf_page_ordinal = ordinal, pf_page_size = page_size, pf_regime = regime,
         pf_switches = sw, pf_page_render = checked_render, pf_testimony = \<not> no_testimony, pf_rows = rows,
         pf_surya = detections,
         pf_measure = answer_measure (filter (\<lambda>r. fr_outcome r = READ_OUTCOME) rows) blocks lines\<rparr>))))))))))"

definition shows_nothing :: "page_feed \<Rightarrow> bool" where
  "shows_nothing f \<longleftrightarrow>
     pf_page_render f = None \<and>
     \<not> (list_ex (\<lambda>r. list_ex (\<lambda>x. su_text x \<noteq> []) (fr_units r)) (pf_rows f) \<or>
        (case pf_surya f of None \<Rightarrow> False | Some s \<Rightarrow> ss_lines s \<noteq> [] \<or> ss_blocks s \<noteq> []))"

section \<open>What the accounting reads of it\<close>

definition ints_json :: "int list option \<Rightarrow> json" where
  "ints_json xs = (case xs of None \<Rightarrow> JNull | Some ns \<Rightarrow> JList (map JInt ns))"

definition unit_view :: "shown_unit \<Rightarrow> funit" where
  "unit_view x = \<lparr>unit_id = su_id x, unit_box_px = (case su_box x of None \<Rightarrow> JNull | Some b \<Rightarrow> bounds_json b),
     unit_box_1000 = ints_json (su_box_1000 x), unit_label = su_label x, unit_text = su_text x\<rparr>"

definition detection_view :: "shown_detection \<Rightarrow> detection" where
  "detection_view d = \<lparr>det_id = sd_id d, det_box_px = bounds_json (sd_box d),
     det_box_1000 = ints_json (Some (sd_box_1000 d)), det_label = sd_label d\<rparr>"

definition accounting_feed :: "page_feed \<Rightarrow> feed" where
  "accounting_feed f =
     \<lparr>witness_units = sw_witness_units (pf_switches f), page_w = fst (pf_page_size f), page_h = snd (pf_page_size f),
      witnesses = map (\<lambda>r. \<lparr>wit_letter = [fr_letter r], wit_chair = fr_chair r, wit_outcome = Some (fr_outcome r),
        wit_units = map unit_view (fr_units r)\<rparr>) (pf_rows f),
      surya_of = map_option (\<lambda>s. \<lparr>surya_lines = map detection_view (ss_lines s),
        surya_blocks = map detection_view (ss_blocks s)\<rparr>) (pf_surya f)\<rparr>"

end
