(* ===== verification/PageFeedFacts.thy ===== *)
theory PageFeedFacts
  imports PageFeed
begin

text \<open>
  The feed \<open>common/page_feed.py\<close> builds and the feed \<open>common/page_accounting.py\<close> reads: its ids are
  numbered from one by letter, its boxes are boxes of the page, and the accounting accepts it.
\<close>

section \<open>Ids by letter\<close>

definition letter_ids :: "(int \<times> int) list \<Rightarrow> ustr list" where
  "letter_ids letters = concat (map (\<lambda>(c, k). id_span c 1 k) letters)"

definition letters_ok :: "(int \<times> int) list \<Rightarrow> bool" where
  "letters_ok letters \<longleftrightarrow> distinct (map fst letters) \<and>
     (\<forall>(c, k) \<in> set letters. upper c \<and> 0 \<le> k \<and> k < 10 ^ INT_MAX_STR_DIGITS)"

lemma id_span_ids: "i \<in> set (id_span c 1 k) \<longleftrightarrow> (\<exists>n. 1 \<le> n \<and> n \<le> k \<and> i = mk_id c n)"
  by (auto simp: id_span_def)

lemma letter_ids_mem: "i \<in> set (letter_ids letters) \<longleftrightarrow> (\<exists>(c, k) \<in> set letters. \<exists>n. 1 \<le> n \<and> n \<le> k \<and> i = mk_id c n)"
  by (auto simp: letter_ids_def id_span_ids)

lemma letter_ids_distinct: "letters_ok letters \<Longrightarrow> distinct (letter_ids letters)"
proof (induction letters)
  case (Cons l letters)
  obtain c k where l: "l = (c, k)" by (cases l)
  have tail: "letters_ok letters" "c \<notin> fst ` set letters" using Cons.prems by (auto simp: letters_ok_def l)
  have "distinct (id_span c 1 k)" by (auto simp: id_span_def distinct_map inj_on_def mk_id_inject)
  moreover have "i \<notin> set (letter_ids letters)" if "i \<in> set (id_span c 1 k)" for i
    using that tail(2) by (force simp: id_span_ids letter_ids_mem mk_id_def)
  ultimately show ?case using Cons.IH [OF tail(1)] by (auto simp: l letter_ids_def)
qed (simp add: letter_ids_def)

lemma letter_ids_filter:
  "distinct (map fst letters) \<Longrightarrow> filter (\<lambda>i. hd i = c) (letter_ids letters) =
     (case map_of letters c of None \<Rightarrow> [] | Some k \<Rightarrow> id_span c 1 k)"
proof (induction letters)
  case (Cons l letters)
  obtain d k where l: "l = (d, k)" by (cases l)
  have "filter (\<lambda>i. hd i = c) (id_span d 1 k) = (if d = c then id_span d 1 k else [])"
    by (auto simp: id_span_def mk_id_def filter_empty_conv filter_id_conv)
  moreover have "d \<notin> fst ` set letters" using Cons.prems by (simp add: l)
  then have "map_of letters d = None" by (simp add: map_of_eq_None_iff)
  ultimately show ?case using Cons by (auto simp: l letter_ids_def split: option.splits)
qed (simp add: letter_ids_def)

lemma letter_ids_read: "letters_ok letters \<Longrightarrow> i \<in> set (letter_ids letters) \<Longrightarrow> id_of i \<noteq> None \<and> length (tl i) \<le> INT_MAX_STR_DIGITS"
proof -
  assume ok: "letters_ok letters" and "i \<in> set (letter_ids letters)"
  then obtain c k n where n: "(c, k) \<in> set letters" "1 \<le> n" "n \<le> k" "i = mk_id c n" by (auto simp: letter_ids_mem)
  have c: "upper c" "k < 10 ^ INT_MAX_STR_DIGITS" using ok n(1) by (auto simp: letters_ok_def)
  have "length (decimal n) \<le> INT_MAX_STR_DIGITS"
    using n c(2) by (intro decimal_length) (auto simp: INT_MAX_STR_DIGITS_def simp del: power_numeral)
  then show ?thesis using id_of_mk_id [OF c(1) n(2)] n(4) by (simp add: mk_id_def)
qed

section \<open>The accounting's checks\<close>

lemma check_feed_ids_distinct:
  "distinct ids \<Longrightarrow> \<forall>i \<in> set ids. id_of i \<noteq> None \<Longrightarrow> set seen \<inter> set ids = {} \<Longrightarrow> check_feed_ids seen ids = Inr ()"
  by (induction ids arbitrary: seen) auto

lemma group_numbers_total:
  "\<forall>i \<in> set ids. length (tl i) \<le> INT_MAX_STR_DIGITS \<Longrightarrow> distinct (map fst acc) \<Longrightarrow>
     \<exists>groups. group_numbers ids acc = Inr groups \<and> distinct (map fst groups)"
proof (induction ids arbitrary: acc)
  case (Cons i ids)
  then show ?case by (simp add: py_int_def distinct_update)
qed simp

lemma gapless_upto: "gapless [1..k]"
  by (simp add: gapless_def sorted_upto sort_key_id_if_sorted)

lemma letter_groups:
  assumes "letters_ok letters"
  shows "\<exists>groups. group_numbers (letter_ids letters) [] = Inr groups \<and> list_all (gapless \<circ> snd) groups"
proof -
  obtain groups where g: "group_numbers (letter_ids letters) [] = Inr groups" "distinct (map fst groups)"
    using group_numbers_total [of "letter_ids letters" "[]"] letter_ids_read [OF assms] by auto
  have "gapless ns" if m: "(c, ns) \<in> set groups" for c ns
  proof -
    have "ns = numbers_in groups c" using g(2) m by (simp add: numbers_in_def)
    also have "\<dots> = map (digits_value \<circ> tl) (filter (\<lambda>i. hd i = c) (letter_ids letters))"
      using group_numbers_in [OF g(1), of c] by (simp add: numbers_in_def)
    also have "\<dots> = (case map_of letters c of None \<Rightarrow> [] | Some k \<Rightarrow> map (digits_value \<circ> tl) (id_span c 1 k))"
      using assms letter_ids_filter [of letters c] by (simp add: letters_ok_def split: option.splits)
    finally have ns: "ns = (case map_of letters c of None \<Rightarrow> [] | Some k \<Rightarrow> map (digits_value \<circ> tl) (id_span c 1 k))" .
    have "map (digits_value \<circ> tl) (id_span c 1 k) = [1..k]" for k
    proof -
      have "map (\<lambda>n. digits_value (decimal n)) [1..k] = [1..k]" by (rule map_idI) (simp add: digits_value_decimal)
      then show ?thesis by (simp add: id_span_def mk_id_def o_def)
    qed
    then show ?thesis using ns gapless_upto gapless_upto [of 0] by (simp split: option.splits)
  qed
  then show ?thesis using g(1) by (auto simp: list_all_iff)
qed

lemma store_fresh:
  "distinct (map fst xs) \<Longrightarrow> set (map fst xs) \<inter> set (map fst al) = {} \<Longrightarrow>
     fold (\<lambda>(i, b). AList.update i b) xs al = al @ xs"
proof (induction xs arbitrary: al)
  case (Cons x xs)
  obtain i b where x: "x = (i, b)" by (cases x)
  have "i \<notin> set (map fst al) \<Longrightarrow> AList.update i b al = al @ [(i, b)]" by (induction al) auto
  then have "AList.update i b al = al @ [(i, b)]" using Cons.prems by (auto simp: x)
  with Cons show ?case by (auto simp: x)
qed simp

definition page_box :: "box \<Rightarrow> bool" where
  "page_box b \<longleftrightarrow> 0 \<le> box_x b \<and> 0 \<le> box_y b \<and> 0 < box_w b \<and> 0 < box_h b"

lemma read_bounds: "page_box b \<Longrightarrow> read_box (bounds_json b) = Inr b"
  by (simp add: page_box_def read_box_def bounds_json_def keys_are_def BOX_KEYS_def field_def mk_box_def insert_commute)

text \<open>A feed whose ids are numbered by letter and whose boxes are boxes is accepted.\<close>

lemma numbered_feed_accepted:
  assumes ids: "map item_id (feed_items fd) = letter_ids letters" "letters_ok letters"
    and units: "\<forall>x \<in> set (feed_units fd). unit_box_px x = JNull \<or> (\<exists>b. page_box b \<and> unit_box_px x = bounds_json b)"
    and dets: "\<forall>s. surya_of fd = Some s \<longrightarrow>
      (\<forall>d \<in> set (surya_lines s @ surya_blocks s). \<exists>b. page_box b \<and> det_box_px d = bounds_json b)"
  shows "\<exists>cands. feed_candidates uc fd p = Inr cands \<and> map fst cands = letter_ids letters"
proof -
  let ?flat = "witness_units fd = WITNESS_UNITS_FLAT" and ?area = "page_w fd * page_h fd"
  have nonnull: "bounds_json b \<noteq> JNull" for b by (simp add: bounds_json_def)
  have "\<exists>y. place_unit uc ?flat ?area p x = Inr y" if x: "x \<in> set (feed_units fd)" for x
  proof (cases "unit_box_px x = JNull")
    case False
    then obtain b where "page_box b" "unit_box_px x = bounds_json b" using units x by blast
    then show ?thesis using nonnull by (simp add: place_unit_def read_box_option_def read_bounds)
  qed (simp add: place_unit_def read_box_option_def)
  then obtain us where us: "rmap (place_unit uc ?flat ?area p) (feed_units fd) = Inr us"
    using rmap_total [of "feed_units fd"] by blast
  have kus: "map fst us = map unit_id (feed_units fd)" using rmap_keys [OF us] placed_keys(1) by blast
  have "\<exists>cands. placement_boxes uc fd p = Inr cands \<and> map fst cands = letter_ids letters"
  proof (cases "surya_of fd")
    case None
    then have "map fst us = letter_ids letters" using kus ids(1) by (simp add: feed_items_def o_def)
    then show ?thesis using None us letter_ids_distinct [OF ids(2)] store_fresh [of us "[]"]
      by (simp add: placement_boxes_def)
  next
    case (Some s)
    have "\<exists>y. place_line d = Inr y" if m: "d \<in> set (surya_lines s)" for d
    proof -
      obtain b where "page_box b" "det_box_px d = bounds_json b" using dets Some m by auto
      then show ?thesis by (simp add: place_line_def read_bounds)
    qed
    then obtain ls where ls: "rmap place_line (surya_lines s) = Inr ls" using rmap_total [of "surya_lines s"] by blast
    have "\<exists>y. place_block d = Inr y" if m: "d \<in> set (surya_blocks s)" for d
    proof -
      obtain b where "page_box b" "det_box_px d = bounds_json b" using dets Some m by auto
      then show ?thesis by (simp add: place_block_def read_bounds)
    qed
    then obtain bs where bs: "rmap place_block (surya_blocks s) = Inr bs" using rmap_total [of "surya_blocks s"] by blast
    have kls: "map fst ls = map det_id (surya_lines s)" using rmap_keys [OF ls] placed_keys(2) by blast
    have kbs: "map fst bs = map det_id (surya_blocks s)" using rmap_keys [OF bs] placed_keys(3) by blast
    have keys: "map fst us @ map fst ls @ map fst bs = letter_ids letters"
      using kus kls kbs ids(1) Some by (simp add: feed_items_def o_def)
    then have d: "distinct (map fst us @ map fst ls @ map fst bs)" using letter_ids_distinct [OF ids(2)] by simp
    have "placement_boxes uc fd p = Inr (us @ ls @ bs)"
      using d us ls bs Some store_fresh [of us "[]"] store_fresh [of ls us] store_fresh [of bs "us @ ls"]
      by (simp add: placement_boxes_def Let_def Int_Un_distrib inf_commute)
    then show ?thesis using keys by simp
  qed
  then obtain cands where cands: "placement_boxes uc fd p = Inr cands" "map fst cands = letter_ids letters" by blast
  obtain groups where groups: "group_numbers (letter_ids letters) [] = Inr groups" "list_all (gapless \<circ> snd) groups"
    using letter_groups [OF ids(2)] by blast
  have "check_feed_ids [] (map item_id (feed_items fd)) = Inr ()"
    unfolding ids(1) using letter_ids_distinct [OF ids(2)] letter_ids_read [OF ids(2)]
    by (intro check_feed_ids_distinct) auto
  then show ?thesis using cands groups by (simp add: feed_candidates_def)
qed

section \<open>What is built\<close>

definition on_page :: "int \<times> int \<Rightarrow> box \<Rightarrow> bool" where
  "on_page page_size b \<longleftrightarrow> page_box b \<and> box_x b + box_w b \<le> fst page_size \<and> box_y b + box_h b \<le> snd page_size"

lemma checked_box_on_page: "checked_box v page_size = Inr b \<Longrightarrow> on_page page_size b"
  by (auto simp: checked_box_def on_page_def page_box_def mk_box_def not_le not_less
      split: json.splits option.splits bool.splits if_splits)

lemma numbered_from_1_numbers: "map fst (numbered_from_1 xs) = [1..int (length xs)]"
  by (simp add: numbered_from_1_def)

lemma feed_numbered_ids:
  assumes "rmap f (numbered_from_1 xs) = Inr ys" "\<And>n x y. f (n, x) = Inr y \<Longrightarrow> key y = mk_id c n"
  shows "map key ys = id_span c 1 (int (length ys))"
proof -
  have r: "list_all2 (\<lambda>nx y. f nx = Inr y) (numbered_from_1 xs) ys" using assms(1) by (simp add: rmap_Inr_iff)
  have "list_all2 (\<lambda>nx y. key y = mk_id c (fst nx)) (numbered_from_1 xs) ys"
    by (rule list_all2_mono [OF r]) (metis assms(2) prod.collapse)
  then have "map key ys = map (\<lambda>nx. mk_id c (fst nx)) (numbered_from_1 xs)"
    by (induction rule: list_all2_induct) auto
  also have "\<dots> = map (mk_id c) (map fst (numbered_from_1 xs))" by simp
  also have "\<dots> = id_span c 1 (int (length xs))" by (simp only: numbered_from_1_numbers id_span_def)
  also have "length xs = length ys" using list_all2_lengthD [OF r] by (simp add: numbered_from_1_def)
  finally show ?thesis .
qed

lemma rmap_all: "rmap f xs = Inr ys \<Longrightarrow> (\<And>x y. f x = Inr y \<Longrightarrow> P y) \<Longrightarrow> y \<in> set ys \<Longrightarrow> P y"
  by (induction xs arbitrary: ys) (auto simp: result_simps)

definition unit_ok :: "int \<times> int \<Rightarrow> shown_unit \<Rightarrow> bool" where
  "unit_ok page_size x \<longleftrightarrow> (case su_box x of None \<Rightarrow> True | Some b \<Rightarrow> on_page page_size b)"

lemma show_unit_facts:
  "show_unit c boxes_shown page_size (n, v) = Inr x \<Longrightarrow> su_id x = mk_id c n \<and> unit_ok page_size x"
  by (auto simp: show_unit_def result_simps unit_ok_def dest: checked_box_on_page split: if_splits)

definition row_ok :: "int \<times> int \<Rightarrow> feed_row \<Rightarrow> bool" where
  "row_ok page_size r \<longleftrightarrow>
     map su_id (fr_units r) = id_span (fr_letter r) 1 (int (length (fr_units r))) \<and>
     (\<forall>x \<in> set (fr_units r). unit_ok page_size x)"

lemma witness_row_facts:
  assumes "witness_row c w sw regime page_size = Inr r"
  shows "row_ok page_size r \<and> fr_letter r = c \<and> fr_label r = gw_label w \<and>
     fr_chair r = (if regime = Named then Some (gw_chair w) else None) \<and> fr_outcome r = gw_outcome w"
proof -
  obtain boxes_shown units where shown: "rmap (show_unit c boxes_shown page_size) (numbered_from_1 units) = Inr (fr_units r)"
    and fields: "fr_letter r = c" "fr_label r = gw_label w" "fr_outcome r = gw_outcome w"
      "fr_chair r = (if regime = Named then Some (gw_chair w) else None)"
    using assms by (auto simp: witness_row_def result_simps Let_def split: json.splits)
  have "map su_id (fr_units r) = id_span c 1 (int (length (fr_units r)))"
    by (rule feed_numbered_ids [OF shown]) (simp add: show_unit_facts)
  moreover have "unit_ok page_size x" if "x \<in> set (fr_units r)" for x
  proof (rule rmap_all [OF shown _ that])
    show "show_unit c boxes_shown page_size nv = Inr y \<Longrightarrow> unit_ok page_size y" for nv y
      by (cases nv) (simp add: show_unit_facts)
  qed
  ultimately show ?thesis using fields by (simp add: row_ok_def)
qed

definition surya_ok :: "int \<times> int \<Rightarrow> shown_surya \<Rightarrow> bool" where
  "surya_ok page_size s \<longleftrightarrow>
     map sd_id (ss_lines s) = id_span 76 1 (int (length (ss_lines s))) \<and>
     map sd_id (ss_blocks s) = id_span 83 1 (int (length (ss_blocks s))) \<and>
     (\<forall>d \<in> set (ss_lines s @ ss_blocks s). on_page page_size (sd_box d))"

lemma show_detection_facts:
  "show_detection c page_size label n kvs = Inr d \<Longrightarrow> sd_id d = mk_id c n \<and> on_page page_size (sd_box d)"
  by (auto simp: show_detection_def result_simps dest: checked_box_on_page)

lemma show_line_facts: "show_line page_size (n, v) = Inr d \<Longrightarrow> sd_id d = mk_id 76 n \<and> on_page page_size (sd_box d)"
  by (auto simp: show_line_def dest: show_detection_facts split: json.splits if_splits)

lemma show_block_facts: "show_block page_size (n, v) = Inr d \<Longrightarrow> sd_id d = mk_id 83 n \<and> on_page page_size (sd_box d)"
  by (cases v) (auto simp: show_block_def dest: show_detection_facts)

lemma show_surya_facts:
  assumes "show_surya given sw page_size = Inr (Some s)"
  shows "surya_ok page_size s"
proof (cases given)
  case (Census v)
  with assms obtain lines blocks where
      ls: "rmap (show_line page_size) (numbered_from_1 lines) = Inr (ss_lines s)" and
      bs: "rmap (show_block page_size) (numbered_from_1 blocks) = Inr (ss_blocks s)"
    by (auto simp: show_surya_def result_simps split: json.splits if_splits)
  have lines: "map sd_id (ss_lines s) = id_span 76 1 (int (length (ss_lines s)))"
    by (rule feed_numbered_ids [OF ls]) (simp add: show_line_facts)
  have blocks: "map sd_id (ss_blocks s) = id_span 83 1 (int (length (ss_blocks s)))"
    by (rule feed_numbered_ids [OF bs]) (simp add: show_block_facts)
  have "on_page page_size (sd_box d)" if m: "d \<in> set (ss_lines s)" for d
    by (rule rmap_all [OF ls _ m]) (metis prod.collapse show_line_facts)
  moreover have "on_page page_size (sd_box d)" if m: "d \<in> set (ss_blocks s)" for d
    by (rule rmap_all [OF bs _ m]) (metis prod.collapse show_block_facts)
  ultimately show ?thesis using lines blocks by (auto simp: surya_ok_def)
qed (use assms in \<open>auto simp: show_surya_def surya_ok_def id_span_def split: if_splits\<close>)

lemma regime_of_cases: "regime_of s = Inr regime \<Longrightarrow> regime = (if s = u ''named'' then Named else Blinded)"
  by (auto simp: regime_of_def split: if_splits)

text \<open>The parts of a feed that was built.\<close>

definition feed_built ::
  "(ref \<Rightarrow> ustr) \<Rightarrow> bool \<Rightarrow> surya_given \<Rightarrow> switches \<Rightarrow> regime \<Rightarrow> ustr list \<Rightarrow> ustr list \<Rightarrow> given_witness list \<Rightarrow>
     int \<times> int \<Rightarrow> page_feed \<Rightarrow> bool" where
  "feed_built digest_of nt surya_value sw regime roster shown ws page_size f \<longleftrightarrow>
     (let ordered = sort_key gw_label (filter (\<lambda>w. gw_chair w \<in> set shown) ws) in
      checked_witnesses digest_of ws regime roster nt = Inr ws \<and> pf_testimony f = (\<not> nt) \<and>
      shown_chairs (sw_witnesses sw) roster = Inr shown \<and> length ordered \<le> length WITNESS_LETTERS \<and>
      rmap (\<lambda>(c, w). witness_row c w sw regime page_size) (zip WITNESS_LETTERS ordered) = Inr (pf_rows f) \<and>
      show_surya surya_value sw page_size = Inr (pf_surya f) \<and>
      pf_page_size f = page_size \<and> pf_switches f = sw \<and> pf_regime f = regime)"

lemma checked_witnesses_same: "checked_witnesses digest_of ws regime roster nt = Inr ws' \<Longrightarrow> ws' = ws"
  by (auto simp: checked_witnesses_def result_simps split: if_splits)

lemma assemble_parts:
  assumes "assemble_page_feed digest_of page_id ordinal page_size table regime_name roster_given ws surya_value render nt = Inr f"
  obtains sw regime roster shown where "validate_feed_table table = Inr sw" "regime_of regime_name = Inr regime"
    "checked_roster roster_given = Inr roster"
    "feed_built digest_of nt surya_value sw regime roster shown ws page_size f"
proof -
  obtain sw regime roster ws' shown where
    p: "validate_feed_table table = Inr sw" "regime_of regime_name = Inr regime" "checked_roster roster_given = Inr roster"
      "checked_witnesses digest_of ws regime roster nt = Inr ws'" "shown_chairs (sw_witnesses sw) roster = Inr shown"
      "let ordered = sort_key gw_label (filter (\<lambda>w. gw_chair w \<in> set shown) ws') in
         length ordered \<le> length WITNESS_LETTERS \<and>
         rmap (\<lambda>(c, w). witness_row c w sw regime page_size) (zip WITNESS_LETTERS ordered) = Inr (pf_rows f) \<and>
         show_surya surya_value sw page_size = Inr (pf_surya f) \<and> pf_testimony f = (\<not> nt) \<and>
         pf_page_size f = page_size \<and> pf_switches f = sw \<and> pf_regime f = regime"
    using assms unfolding assemble_page_feed_def Let_def by (auto simp: result_simps)
  then have "feed_built digest_of nt surya_value sw regime roster shown ws page_size f"
    by (auto simp: feed_built_def Let_def dest: checked_witnesses_same)
  then show ?thesis by (rule that [OF p(1,2,3)])
qed

lemma built_rows:
  assumes "feed_built digest_of nt surya_value sw regime roster shown ws page_size f"
  shows "list_all2 (\<lambda>(c, w) r. row_ok page_size r \<and> fr_letter r = c \<and> fr_label r = gw_label w \<and>
     fr_chair r = (if regime = Named then Some (gw_chair w) else None) \<and> fr_outcome r = gw_outcome w)
     (zip WITNESS_LETTERS (sort_key gw_label (filter (\<lambda>w. gw_chair w \<in> set shown) ws))) (pf_rows f)"
proof -
  have r: "list_all2 (\<lambda>cw r. (case cw of (c, w) \<Rightarrow> witness_row c w sw regime page_size) = Inr r)
      (zip WITNESS_LETTERS (sort_key gw_label (filter (\<lambda>w. gw_chair w \<in> set shown) ws))) (pf_rows f)"
    using assms by (simp add: feed_built_def Let_def rmap_Inr_iff)
  show ?thesis by (rule list_all2_mono [OF r]) (auto dest: witness_row_facts split: prod.splits)
qed

lemma list_all2_map_eq: "list_all2 (\<lambda>x y. f x = g y) xs ys \<Longrightarrow> map f xs = map g ys"
  by (induction rule: list_all2_induct) auto

lemma list_all2_right: "list_all2 P xs ys \<Longrightarrow> y \<in> set ys \<Longrightarrow> \<exists>x \<in> set xs. P x y"
  by (induction rule: list_all2_induct) auto

lemma built_letters:
  assumes "feed_built digest_of nt surya_value sw regime roster shown ws page_size f"
  shows "map fr_letter (pf_rows f) = take (length (pf_rows f)) WITNESS_LETTERS"
proof -
  let ?ordered = "sort_key gw_label (filter (\<lambda>w. gw_chair w \<in> set shown) ws)"
  have le: "length ?ordered \<le> length WITNESS_LETTERS" using assms by (simp add: feed_built_def Let_def)
  have len: "length (pf_rows f) = length ?ordered"
    using list_all2_lengthD [OF built_rows [OF assms]] le by simp
  have "list_all2 (\<lambda>x y. fst x = fr_letter y) (zip WITNESS_LETTERS ?ordered) (pf_rows f)"
    by (rule list_all2_mono [OF built_rows [OF assms]]) auto
  then have "map fst (zip WITNESS_LETTERS ?ordered) = map fr_letter (pf_rows f)" by (rule list_all2_map_eq)
  then show ?thesis using len le by (simp add: map_fst_zip_take min.absorb2)
qed

section \<open>The feed is accepted\<close>

definition feed_letters :: "page_feed \<Rightarrow> (int \<times> int) list" where
  "feed_letters f =
     map (\<lambda>r. (fr_letter r, int (length (fr_units r)))) (pf_rows f) @
     (case pf_surya f of None \<Rightarrow> []
      | Some s \<Rightarrow> [(76, int (length (ss_lines s))), (83, int (length (ss_blocks s)))])"

definition rows_ok :: "page_feed \<Rightarrow> bool" where
  "rows_ok f \<longleftrightarrow> (\<forall>r \<in> set (pf_rows f). row_ok (pf_page_size f) r) \<and>
     (case pf_surya f of None \<Rightarrow> True | Some s \<Rightarrow> surya_ok (pf_page_size f) s)"

lemma built_rows_ok:
  assumes "feed_built digest_of nt surya_value sw regime roster shown ws page_size f"
  shows "rows_ok f"
proof -
  have size: "pf_page_size f = page_size" and s: "show_surya surya_value sw page_size = Inr (pf_surya f)"
    using assms by (simp_all add: feed_built_def Let_def)
  have "row_ok page_size r" if "r \<in> set (pf_rows f)" for r
    using list_all2_right [OF built_rows [OF assms] that] by auto
  then show ?thesis using size s by (auto simp: rows_ok_def dest: show_surya_facts split: option.splits)
qed

lemma map_units: "\<forall>r \<in> set rows. row_ok page_size r \<Longrightarrow>
   map su_id (concat (map fr_units rows)) = letter_ids (map (\<lambda>r. (fr_letter r, int (length (fr_units r)))) rows)"
  by (induction rows) (auto simp: letter_ids_def row_ok_def)

lemma accounting_feed_ids:
  assumes "rows_ok f"
  shows "map item_id (feed_items (accounting_feed f)) = letter_ids (feed_letters f)"
proof -
  have "map unit_id (feed_units (accounting_feed f)) = map su_id (concat (map fr_units (pf_rows f)))"
    by (simp add: feed_units_def accounting_feed_def unit_view_def map_concat o_def)
  also have "\<dots> = letter_ids (map (\<lambda>r. (fr_letter r, int (length (fr_units r)))) (pf_rows f))"
    using assms by (intro map_units [of _ "pf_page_size f"]) (simp add: rows_ok_def)
  finally have units: "map unit_id (feed_units (accounting_feed f)) = \<dots>" .
  show ?thesis using units assms
    by (auto simp: feed_items_def accounting_feed_def rows_ok_def surya_ok_def feed_letters_def letter_ids_def
        detection_view_def o_def split: option.splits)
qed

lemma accounting_feed_boxes:
  assumes "rows_ok f"
  shows "\<forall>x \<in> set (feed_units (accounting_feed f)). unit_box_px x = JNull \<or> (\<exists>b. page_box b \<and> unit_box_px x = bounds_json b)"
    and "\<forall>s. surya_of (accounting_feed f) = Some s \<longrightarrow>
      (\<forall>d \<in> set (surya_lines s @ surya_blocks s). \<exists>b. page_box b \<and> det_box_px d = bounds_json b)"
proof -
  show "\<forall>x \<in> set (feed_units (accounting_feed f)). unit_box_px x = JNull \<or> (\<exists>b. page_box b \<and> unit_box_px x = bounds_json b)"
  proof
    fix x assume "x \<in> set (feed_units (accounting_feed f))"
    then obtain r y where y: "r \<in> set (pf_rows f)" "y \<in> set (fr_units r)" "x = unit_view y"
      by (auto simp: feed_units_def accounting_feed_def)
    then have "unit_ok (pf_page_size f) y" using assms by (auto simp: rows_ok_def row_ok_def)
    then show "unit_box_px x = JNull \<or> (\<exists>b. page_box b \<and> unit_box_px x = bounds_json b)"
      by (auto simp: y(3) unit_view_def unit_ok_def on_page_def split: option.splits)
  qed
  show "\<forall>s. surya_of (accounting_feed f) = Some s \<longrightarrow>
      (\<forall>d \<in> set (surya_lines s @ surya_blocks s). \<exists>b. page_box b \<and> det_box_px d = bounds_json b)"
  proof (intro allI impI ballI)
    fix s d assume "surya_of (accounting_feed f) = Some s" "d \<in> set (surya_lines s @ surya_blocks s)"
    then obtain z y where y: "pf_surya f = Some z" "y \<in> set (ss_lines z @ ss_blocks z)" "d = detection_view y"
      unfolding accounting_feed_def by fastforce
    then have "page_box (sd_box y)" using assms by (auto simp: rows_ok_def surya_ok_def on_page_def)
    then show "\<exists>b. page_box b \<and> det_box_px d = bounds_json b" by (auto simp: y(3) detection_view_def)
  qed
qed

lemma built_letters_ok:
  assumes "feed_built digest_of nt surya_value sw regime roster shown ws page_size f"
    and "\<forall>(c, k) \<in> set (feed_letters f). k < 10 ^ INT_MAX_STR_DIGITS"
  shows "letters_ok (feed_letters f)"
proof -
  have letters: "distinct WITNESS_LETTERS" "list_all upper WITNESS_LETTERS" "76 \<notin> set WITNESS_LETTERS" "83 \<notin> set WITNESS_LETTERS"
    "upper 76" "upper 83" by code_simp+
  have taken: "set (map fr_letter (pf_rows f)) \<subseteq> set WITNESS_LETTERS"
    using built_letters [OF assms(1)] set_take_subset by metis
  have "distinct (map fr_letter (pf_rows f))"
    using built_letters [OF assms(1)] letters(1) by (metis distinct_take)
  then have "distinct (map fst (feed_letters f))"
    using taken letters(3,4) by (auto simp: feed_letters_def o_def split: option.splits)
  moreover have "upper c \<and> 0 \<le> k" if "(c, k) \<in> set (feed_letters f)" for c k
    using that taken letters(2,5,6) by (auto simp: feed_letters_def list_all_iff split: option.splits)
  ultimately show ?thesis using assms(2) by (auto simp: letters_ok_def)
qed

section \<open>A feed\<close>

definition demo_table :: json where
  "demo_table = JObj [(u ''page_types'', JStr (u ''named'')), (u ''page_image'', JStr (u ''off'')),
     (u ''witness_units'', JStr (u ''own'')), (u ''page_overlay'', JStr (u ''off'')),
     (u ''witness_coordinates'', JBool True), (u ''surya_lines'', JBool True), (u ''surya_blocks'', JBool False),
     (u ''witnesses'', JStr (u ''all''))]"

definition demo_ref :: "string \<Rightarrow> json" where
  "demo_ref path = JObj [(u ''relative_path'', JStr (u path)), (u ''sha256'', JStr (replicate 64 48))]"

definition demo_unit :: json where
  "demo_unit = JObj [(u ''ordinal'', JInt 1), (u ''box_px'', bounds_json (mk_box 10 20 30 5)), (u ''label'', JNull),
     (u ''text'', JStr (u ''Item''))]"

definition demo_witness :: "string \<Rightarrow> string \<Rightarrow> json list \<Rightarrow> given_witness" where
  "demo_witness chair path units = \<lparr>gw_chair = u chair, gw_label = u chair, gw_adapter = u ''churro.v1'', gw_outcome = u ''read'',
     gw_ref = demo_ref path, gw_units = JList units, gw_findings = JList [],
     gw_health = JObj [(u ''truncated'', JBool False), (u ''repetition'', JList [])]\<rparr>"

definition demo_witnesses :: "given_witness list" where
  "demo_witnesses = [demo_witness ''b'' ''w/b'' [demo_unit, demo_unit], demo_witness ''a'' ''w/a'' []]"

definition demo_census :: surya_given where
  "demo_census = Census (JObj [(u ''census_ref'', demo_ref ''s/c''), (u ''block_sequence'', JStr (u ''surya-order-head'')),
     (u ''block_sequence_reason'', JNull), (u ''blocks'', JList []),
     (u ''lines'', JList [JObj [(u ''box_px'', bounds_json (mk_box 0 0 100 5)), (u ''confidence_bp'', JNull),
        (u ''ref'', demo_ref ''s/l'')]])])"

definition demo_assembled :: "page_feed result" where
  "demo_assembled = assemble_page_feed fst (u ''p'') 1 (100, 80) demo_table (u ''named'')
     (JList [JStr (u ''a''), JStr (u ''b'')]) demo_witnesses demo_census None False"

definition demo_built :: page_feed where
  "demo_built = projr demo_assembled"

lemma demo_built_assembled: "demo_assembled = Inr demo_built"
  unfolding demo_built_def by code_simp

lemma demo_limit: "(10 :: int) \<le> 10 ^ INT_MAX_STR_DIGITS"
  by (rule self_le_power) (simp_all add: INT_MAX_STR_DIGITS_def)

lemma demo_built_letters: "feed_letters demo_built = [(65, 0), (66, 2), (76, 1), (83, 0)]"
  by code_simp

text \<open>
  C28. A feed \<open>assemble_page_feed\<close> built is one the accounting accepts: \<open>feed_candidates\<close> of its view
  returns, and the candidates are the ids numbered from one under each row's letter, then under \<open>L\<close> and
  \<open>S\<close>, however the inputs were (short of ids longer than Python's limit on an integer's digits).
\<close>

theorem built_feed_is_accepted:
  assumes "assemble_page_feed digest_of page_id ordinal page_size table regime_name roster_given ws surya_value render nt = Inr f"
    and "\<forall>(c, k) \<in> set (feed_letters f). k < 10 ^ INT_MAX_STR_DIGITS"
  shows "\<exists>cands. feed_candidates uc (accounting_feed f) p = Inr cands \<and> map fst cands = letter_ids (feed_letters f)"
proof -
  obtain sw regime roster shown where b: "feed_built digest_of nt surya_value sw regime roster shown ws page_size f"
    using assemble_parts [OF assms(1)] by metis
  note ok = built_rows_ok [OF b]
  show ?thesis
    by (rule numbered_feed_accepted [OF accounting_feed_ids [OF ok] built_letters_ok [OF b assms(2)] accounting_feed_boxes [OF ok]])
qed

theorem built_feed_is_accepted_witness:
  "\<exists>cands. feed_candidates ascii (accounting_feed demo_built) sample_policy = Inr cands \<and>
     map fst cands = letter_ids (feed_letters demo_built)"
proof (rule built_feed_is_accepted)
  show "assemble_page_feed fst (u ''p'') 1 (100, 80) demo_table (u ''named'')
     (JList [JStr (u ''a''), JStr (u ''b'')]) demo_witnesses demo_census None False = Inr demo_built"
    using demo_built_assembled by (simp only: demo_assembled_def)
  show "\<forall>(c, k) \<in> set (feed_letters demo_built). k < 10 ^ INT_MAX_STR_DIGITS"
    unfolding demo_built_letters using demo_limit by simp
qed

section \<open>Whom the feed shows\<close>

lemma shown_within_roster:
  "shown_chairs switch roster = Inr shown \<Longrightarrow> set shown \<subseteq> set roster \<and>
     shown = (case switch of None \<Rightarrow> roster | Some chairs \<Rightarrow> chairs)"
  by (auto simp: shown_chairs_def filter_empty_conv split: option.splits if_splits)

lemma checked_witnesses_facts:
  assumes "checked_witnesses digest_of ws regime roster False = Inr ws"
  shows "distinct (map gw_chair ws)" "distinct (map gw_label ws)" "set (map gw_chair ws) = set roster"
    "\<forall>w \<in> set ws. (regime = Named) = (gw_label w = gw_chair w)"
proof -
  have given: "\<exists>y. check_given regime w = Inr y" if "w \<in> set ws" for w
    using assms that by (auto simp: checked_witnesses_def result_simps rmap_Inr_iff list_all2_conv_all_nth in_set_conv_nth)
  show "\<forall>w \<in> set ws. (regime = Named) = (gw_label w = gw_chair w)"
  proof
    fix w assume "w \<in> set ws"
    from given [OF this] show "(regime = Named) = (gw_label w = gw_chair w)"
      by (cases regime) (auto simp: check_given_def split: if_splits)
  qed
qed (use assms in \<open>auto simp: checked_witnesses_def result_simps\<close>)

text \<open>
  C29. A page with testimony shows every chair its switch names, once, and no other: there are as many rows
  as chairs to show, their labels are sorted and distinct, and they stand under the first letters in order.
  A named row's label is its chair; in a blinded feed no row carries its chair, and a label is never the
  chair of the row it stands for.
\<close>

theorem feed_shows_each_chair_once:
  assumes "assemble_page_feed digest_of page_id ordinal page_size table regime_name roster_given ws surya_value render False = Inr f"
  shows "\<exists>roster. checked_roster roster_given = Inr roster \<and>
    (let shown = (case sw_witnesses (pf_switches f) of None \<Rightarrow> roster | Some chairs \<Rightarrow> chairs) in
     map fr_letter (pf_rows f) = take (length (pf_rows f)) WITNESS_LETTERS \<and>
     sorted (map fr_label (pf_rows f)) \<and> distinct (map fr_label (pf_rows f)) \<and>
     set (map fr_label (pf_rows f)) = gw_label ` {w \<in> set ws. gw_chair w \<in> set shown} \<and>
     set shown = gw_chair ` {w \<in> set ws. gw_chair w \<in> set shown} \<and>
     (if pf_regime f = Named then map fr_chair (pf_rows f) = map (Some \<circ> fr_label) (pf_rows f) \<and> set (map fr_label (pf_rows f)) = set shown
      else set (map fr_chair (pf_rows f)) \<subseteq> {None} \<and> (\<forall>w \<in> set ws. gw_label w \<noteq> gw_chair w)))"
proof -
  obtain sw regime roster shown where r: "checked_roster roster_given = Inr roster"
    and b: "feed_built digest_of False surya_value sw regime roster shown ws page_size f"
    using assemble_parts [OF assms] by metis
  let ?kept = "filter (\<lambda>w. gw_chair w \<in> set shown) ws"
  let ?ordered = "sort_key gw_label ?kept"
  have parts: "checked_witnesses digest_of ws regime roster False = Inr ws" "shown_chairs (sw_witnesses sw) roster = Inr shown"
    "pf_switches f = sw" "pf_regime f = regime" "length ?ordered \<le> length WITNESS_LETTERS"
    using b by (auto simp: feed_built_def Let_def)
  note ws = checked_witnesses_facts [OF parts(1)] and shown = shown_within_roster [OF parts(2)]
  have rows: "map g ?ordered = map h (pf_rows f)"
    if "\<And>c w r. fr_label r = gw_label w \<Longrightarrow> fr_chair r = (if regime = Named then Some (gw_chair w) else None) \<Longrightarrow> g w = h r"
    for g :: "given_witness \<Rightarrow> 'x" and h
  proof -
    have "list_all2 (\<lambda>cw r. g (snd cw) = h r) (zip WITNESS_LETTERS ?ordered) (pf_rows f)"
      by (rule list_all2_mono [OF built_rows [OF b]]) (auto intro: that)
    then have "map (g \<circ> snd) (zip WITNESS_LETTERS ?ordered) = map h (pf_rows f)" by (simp add: list_all2_map_eq o_def)
    then show ?thesis using parts(5) by (simp flip: map_map add: map_snd_zip_take)
  qed
  have labels: "map gw_label ?ordered = map fr_label (pf_rows f)" by (rule rows) simp
  have chairs: "map (\<lambda>w. if regime = Named then Some (gw_chair w) else None) ?ordered = map fr_chair (pf_rows f)"
    by (rule rows) simp
  have "distinct (map gw_label ?kept)" using ws(2) by (simp add: distinct_map_filter)
  then have d: "distinct (map gw_label ?ordered)" by (metis distinct_map distinct_sort set_sort)
  have all: "set shown = gw_chair ` {w \<in> set ws. gw_chair w \<in> set shown}" using ws(3) shown by auto
  have named: "map fr_chair (pf_rows f) = map (Some \<circ> fr_label) (pf_rows f) \<and> set (map fr_label (pf_rows f)) = set shown"
    if n: "regime = Named"
  proof -
    have same: "gw_label w = gw_chair w" if "w \<in> set ?ordered" for w using ws(4) n that by simp
    have "map fr_chair (pf_rows f) = map (\<lambda>w. Some (gw_label w)) ?ordered" using chairs n same by (auto simp flip: chairs)
    moreover have "\<dots> = map Some (map gw_label ?ordered)" by simp
    moreover have "set (map fr_label (pf_rows f)) = set shown"
      using all same unfolding labels [symmetric] by force
    ultimately show ?thesis using labels by (metis map_map)
  qed
  have blinded: "set (map fr_chair (pf_rows f)) \<subseteq> {None}" if "regime \<noteq> Named" using that by (auto simp flip: chairs)
  have set_labels: "set (map fr_label (pf_rows f)) = gw_label ` {w \<in> set ws. gw_chair w \<in> set shown}"
    unfolding labels [symmetric] by simp
  have srt: "sorted (map fr_label (pf_rows f))" unfolding labels [symmetric] by (rule sorted_sort_key)
  show ?thesis unfolding Let_def
    using r parts(3,4) shown built_letters [OF b] srt d set_labels all named blinded ws(4) labels
    by (intro exI [of _ roster]) auto
qed

theorem feed_shows_each_chair_once_witness:
  "\<exists>roster. checked_roster (JList [JStr (u ''a''), JStr (u ''b'')]) = Inr roster \<and>
    (let f = demo_built; ws = demo_witnesses; shown = (case sw_witnesses (pf_switches f) of None \<Rightarrow> roster | Some chairs \<Rightarrow> chairs) in
     set (map fr_label (pf_rows f)) = gw_label ` {w \<in> set ws. gw_chair w \<in> set shown} \<and>
     map fr_chair (pf_rows f) = map (Some \<circ> fr_label) (pf_rows f))"
proof -
  have "pf_regime demo_built = Named" by code_simp
  then show ?thesis
    using feed_shows_each_chair_once [OF demo_built_assembled [unfolded demo_assembled_def]] by (auto simp: Let_def)
qed

end
