(* ===== verification/Machines.thy ===== *)
theory Machines
  imports Prelude
begin

text \<open>
  State machines: the states a step relation reaches from its starting ones, and what a machine
  promises its clients as locales. A \<open>machine\<close> keeps an invariant; an \<open>ordered_machine\<close> only moves
  up an order of its states; an \<open>ending_machine\<close> has less to do after every step, so none of its runs
  goes on for ever, and it comes to rest when every state that is not at rest can move.
\<close>

inductive reached :: "('s \<Rightarrow> bool) \<Rightarrow> ('s \<Rightarrow> 's \<Rightarrow> bool) \<Rightarrow> 's \<Rightarrow> bool" for start move where
  begins: "start s \<Longrightarrow> reached start move s"
| goes: "reached start move s \<Longrightarrow> move s t \<Longrightarrow> reached start move t"

locale machine =
  fixes start :: "'s \<Rightarrow> bool"
    and move :: "'s \<Rightarrow> 's \<Rightarrow> bool"
    and keeps :: "'s \<Rightarrow> bool"
  assumes start_keeps: "start s \<Longrightarrow> keeps s"
    and move_keeps: "keeps s \<Longrightarrow> move s t \<Longrightarrow> keeps t"
begin

lemma reached_keeps: "reached start move s \<Longrightarrow> keeps s"
  by (induction rule: reached.induct) (blast intro: start_keeps move_keeps)+

lemma run_keeps: "move\<^sup>*\<^sup>* s t \<Longrightarrow> keeps s \<Longrightarrow> keeps t"
  by (induction rule: rtranclp_induct) (blast intro: move_keeps)+

end

locale ordered_machine = machine start move keeps
  for start :: "'s \<Rightarrow> bool" and move :: "'s \<Rightarrow> 's \<Rightarrow> bool" and keeps :: "'s \<Rightarrow> bool" +
  fixes below :: "'s \<Rightarrow> 's \<Rightarrow> bool"
  assumes below_refl: "below s s"
    and below_trans: "below s t \<Longrightarrow> below t v \<Longrightarrow> below s v"
    and move_below: "keeps s \<Longrightarrow> move s t \<Longrightarrow> below s t"
begin

lemma run_below: "move\<^sup>*\<^sup>* s t \<Longrightarrow> keeps s \<Longrightarrow> below s t"
proof (induction rule: rtranclp_induct)
  case base
  show ?case by (rule below_refl)
next
  case (step t v)
  then show ?case using run_keeps move_below below_trans by blast
qed

end

locale ending_machine = machine start move keeps
  for start :: "'s \<Rightarrow> bool" and move :: "'s \<Rightarrow> 's \<Rightarrow> bool" and keeps :: "'s \<Rightarrow> bool" +
  fixes less_to_do :: "'s rel"
  assumes wf_less: "wf less_to_do"
    and move_less: "keeps s \<Longrightarrow> move s t \<Longrightarrow> (t, s) \<in> less_to_do"
begin

lemma no_endless_run: "keeps (run 0) \<Longrightarrow> \<not> (\<forall>i. move (run i) (run (Suc i)))"
proof
  assume first: "keeps (run 0)" and run: "\<forall>i. move (run i) (run (Suc i))"
  have "keeps (run i)" for i by (induction i) (use first run move_keeps in blast)+
  then have "(run (Suc i), run i) \<in> less_to_do" for i using run move_less by blast
  then show False using wf_less unfolding wf_iff_no_infinite_down_chain by blast
qed

text \<open>Moves of a chosen kind that every state not at rest can make bring it to rest.\<close>

lemma comes_to_rest:
  assumes "keeps s" "ok s"
    and can: "\<And>s. keeps s \<Longrightarrow> ok s \<Longrightarrow> \<not> rest s \<Longrightarrow> \<exists>t. pick s t"
    and picked: "\<And>s t. pick s t \<Longrightarrow> move s t \<and> ok t"
  shows "\<exists>t. pick\<^sup>*\<^sup>* s t \<and> rest t \<and> ok t"
  using wf_less assms(1,2)
proof (induction s rule: wf_induct_rule)
  case (less s)
  show ?case
  proof (cases "rest s")
    case True
    then show ?thesis using less.prems by blast
  next
    case False
    then obtain t where t: "pick s t" using can less.prems by blast
    then have "move s t" "ok t" using picked by blast+
    then have "(t, s) \<in> less_to_do" "keeps t" using less.prems(1) move_less move_keeps by blast+
    from less.IH [OF this \<open>ok t\<close>] show ?thesis using t by (meson converse_rtranclp_into_rtranclp)
  qed
qed

end

end
