(* ===== verification/Window.thy ===== *)
theory Window
  imports Machines
begin

text \<open>
  The bounded window of calls of \<open>common/in_order_window.py\<close>. A job is a call, which has what it
  will return or raise, and the \<open>finish\<close> run on it; the source is the jobs in the order they are
  drawn, where a draw may raise. The main thread and the calls in flight are a step relation: the
  main thread stands at a place of its loop, and a call returns at any moment, so the tests
  \<open>future.done()\<close> of one pass, read one after another, may see different moments. An interrupt may
  fall between any two steps: also after a job has left the window and before its \<open>finish\<close> has run,
  and after a job is drawn and before it is in the window. What \<open>finish\<close> publishes is the log of its
  calls. An interrupt inside \<open>finish\<close> is one before it; the loop that records what has arrived is not
  interrupted a second time.
\<close>

section \<open>Jobs\<close>

record ('r, 'v) job =
  job_call :: "(err + 'r) option"
  job_finish :: "'r option \<Rightarrow> err + 'v"

datatype ('r, 'v) draw = Draw "('r, 'v) job" | DrawRaises err

type_synonym ('r, 'v) slot = "nat \<times> ('r, 'v) job"

type_synonym 'r finish_log = "(nat \<times> 'r option) list"

text \<open>\<open>future.result()\<close>, or \<open>None\<close> for a job without a call.\<close>

definition reply_of :: "('r, 'v) job \<Rightarrow> err + 'r option" where
  "reply_of j =
     (case job_call j of None \<Rightarrow> Inr None | Some (Inl e) \<Rightarrow> Inl e | Some (Inr r) \<Rightarrow> Inr (Some r))"

text \<open>The call of \<open>finish\<close> a slot makes, when its reply_of did not raise, and what comes of it.\<close>

definition finish_slot :: "('r, 'v) slot \<Rightarrow> 'r finish_log \<times> (err + 'v)" where
  "finish_slot x =
     (case x of (n, j) \<Rightarrow>
        (case reply_of j of Inl e \<Rightarrow> ([], Inl e) | Inr a \<Rightarrow> ([(n, a)], job_finish j a)))"

text \<open>Width 1: each job is called and finished before the next is drawn.\<close>

fun serial_pass :: "nat \<Rightarrow> ('r, 'v) draw list \<Rightarrow> 'r finish_log \<times> (err + 'v list)" where
  "serial_pass n [] = ([], Inr [])"
| "serial_pass n (DrawRaises e # ds) = ([], Inl e)"
| "serial_pass n (Draw j # ds) =
     (case finish_slot (n, j) of
        (calls, Inl e) \<Rightarrow> (calls, Inl e)
      | (calls, Inr v) \<Rightarrow>
          (case serial_pass (Suc n) ds of (later, r) \<Rightarrow> (calls @ later, rbind r (\<lambda>vs. Inr (v # vs)))))"

section \<open>The window\<close>

definition HELD_PER_SLOT :: nat where
  "HELD_PER_SLOT = 4"

text \<open>What calls \<open>finish\<close>: the inner loop, the loop that finishes what was drawn, and width 1.\<close>

datatype finisher = Loop | Drain | Serial

text \<open>Where the main thread stands: the loop's test, the inner loop, a job that has left the window
  and is not finished, the pass of \<open>out\<close> over the window, the choice it makes, a drawn job whose call
  is sent and that is not in the window yet, the wait, the loop that finishes what was drawn, the loop
  of width 1, and its ends; an interrupt keeps the place it fell at.\<close>

datatype ('r, 'v) place =
    Top
  | Head
  | Finishing finisher "('r, 'v) slot"
  | Reading nat "nat list"
  | Deciding "nat list"
  | Adding "('r, 'v) slot"
  | Waiting "nat list"
  | Draining
  | Inline
  | Stopped
  | Interrupted "('r, 'v) place"

record ('r, 'v) win =
  w_place :: "('r, 'v) place"
  w_source :: "('r, 'v) draw list"
  w_drawn :: nat
  w_drawing :: bool
  w_window :: "('r, 'v) slot list"
  w_done :: "nat list"
  w_log :: "'r finish_log"
  w_finished :: "'v list"
  w_error :: "err option"
  w_notes :: "err list"

definition opened :: "nat \<Rightarrow> ('r, 'v) draw list \<Rightarrow> ('r, 'v) win" where
  "opened width ds = \<lparr>w_place = if width = 1 then Inline else Top, w_source = ds, w_drawn = 0, w_drawing = True,
     w_window = [], w_done = [], w_log = [], w_finished = [], w_error = None, w_notes = []\<rparr>"

definition is_out :: "nat list \<Rightarrow> ('r, 'v) slot \<Rightarrow> bool" where
  "is_out returned x \<longleftrightarrow> job_call (snd x) \<noteq> None \<and> fst x \<notin> set returned"

text \<open>The jobs drawn and not finished: one that has left the window, the window, one not yet in it.\<close>

primrec taken :: "('r, 'v) place \<Rightarrow> ('r, 'v) slot list" where
  "taken Top = []"
| "taken Head = []"
| "taken (Finishing f x) = [x]"
| "taken (Reading k pending) = []"
| "taken (Deciding pending) = []"
| "taken (Adding x) = []"
| "taken (Waiting pending) = []"
| "taken Draining = []"
| "taken Inline = []"
| "taken Stopped = []"
| "taken (Interrupted p) = taken p"

primrec added :: "('r, 'v) place \<Rightarrow> ('r, 'v) slot list" where
  "added Top = []"
| "added Head = []"
| "added (Finishing f x) = []"
| "added (Reading k pending) = []"
| "added (Deciding pending) = []"
| "added (Adding x) = [x]"
| "added (Waiting pending) = []"
| "added Draining = []"
| "added Inline = []"
| "added Stopped = []"
| "added (Interrupted p) = added p"

definition unfinished :: "('r, 'v) win \<Rightarrow> ('r, 'v) slot list" where
  "unfinished s = taken (w_place s) @ w_window s @ added (w_place s)"

definition head_ready :: "('r, 'v) win \<Rightarrow> bool" where
  "head_ready s \<longleftrightarrow> w_window s \<noteq> [] \<and> \<not> is_out (w_done s) (hd (w_window s))"

text \<open>\<open>finish_first\<close>, in two steps: the head leaves the window; then it is finished, which waits for its
  call. Each of the three places that finish a job treats an error in its own way.\<close>

definition take_first :: "finisher \<Rightarrow> ('r, 'v) win \<Rightarrow> ('r, 'v) win" where
  "take_first f s = s\<lparr>w_place := Finishing f (hd (w_window s)), w_window := tl (w_window s)\<rparr>"

primrec resumed :: "finisher \<Rightarrow> ('r, 'v) place" where
  "resumed Loop = Head"
| "resumed Drain = Draining"
| "resumed Serial = Inline"

definition raised :: "finisher \<Rightarrow> err \<Rightarrow> ('r, 'v) win \<Rightarrow> ('r, 'v) win" where
  "raised f e s =
     (case f of
        Loop \<Rightarrow> s\<lparr>w_error := Some e, w_place := Draining\<rparr>
      | Drain \<Rightarrow>
          if w_error s = None then s\<lparr>w_error := Some e, w_place := Draining\<rparr>
          else s\<lparr>w_notes := w_notes s @ [e], w_place := Draining\<rparr>
      | Serial \<Rightarrow> s\<lparr>w_error := Some e, w_place := Stopped\<rparr>)"

definition finish_taken :: "finisher \<Rightarrow> ('r, 'v) slot \<Rightarrow> ('r, 'v) win \<Rightarrow> ('r, 'v) win" where
  "finish_taken f x s =
     (case finish_slot x of (calls, r) \<Rightarrow>
        let s = s\<lparr>w_log := w_log s @ calls\<rparr> in
        case r of
          Inl e \<Rightarrow> raised f e s
        | Inr v \<Rightarrow> s\<lparr>w_finished := w_finished s @ [v], w_place := resumed f\<rparr>)"

definition may_draw :: "nat \<Rightarrow> ('r, 'v) win \<Rightarrow> nat list \<Rightarrow> bool" where
  "may_draw width s pending \<longleftrightarrow>
     w_drawing s \<and> length pending < width \<and> length (w_window s) - length pending < HELD_PER_SLOT * width"

definition draw_next :: "('r, 'v) win \<Rightarrow> ('r, 'v) win" where
  "draw_next s =
     (case w_source s of
        [] \<Rightarrow> s\<lparr>w_drawing := False, w_place := Top\<rparr>
      | DrawRaises e # ds \<Rightarrow> s\<lparr>w_error := Some e, w_place := Draining\<rparr>
      | Draw j # ds \<Rightarrow>
          s\<lparr>w_source := ds, w_drawn := Suc (w_drawn s), w_place := Adding (w_drawn s, j)\<rparr>)"

text \<open>A draw of the loop of width 1, which calls and finishes the job before the next.\<close>

definition draw_inline :: "('r, 'v) win \<Rightarrow> ('r, 'v) win" where
  "draw_inline s =
     (case w_source s of
        [] \<Rightarrow> s\<lparr>w_place := Stopped\<rparr>
      | DrawRaises e # ds \<Rightarrow> s\<lparr>w_error := Some e, w_place := Stopped\<rparr>
      | Draw j # ds \<Rightarrow>
          s\<lparr>w_source := ds, w_drawn := Suc (w_drawn s), w_place := Finishing Serial (w_drawn s, j)\<rparr>)"

text \<open>The recording of the replies that have arrived when an interrupt stops the wait: it goes over what
  the window still holds, which at width 1 is nothing.\<close>

definition has_arrived :: "nat list \<Rightarrow> ('r, 'v) slot \<Rightarrow> bool" where
  "has_arrived returned x \<longleftrightarrow> \<not> is_out returned x \<and> (case reply_of (snd x) of Inl _ \<Rightarrow> False | Inr _ \<Rightarrow> True)"

definition record_arrived :: "('r, 'v) win \<Rightarrow> ('r, 'v) win" where
  "record_arrived s =
     (let arrived = filter (has_arrived (w_done s)) (w_window s) in
      s\<lparr>w_place := Interrupted (w_place s), w_log := w_log s @ concat (map (fst \<circ> finish_slot) arrived)\<rparr>)"

text \<open>
  What the main thread does next, where it can: it waits at \<open>Waiting\<close> for one of the calls it saw
  out, and at \<open>Finishing\<close> for the call of the job it finishes.
\<close>

definition main_step :: "nat \<Rightarrow> ('r, 'v) win \<Rightarrow> ('r, 'v) win option" where
  "main_step width s =
     (case w_place s of
        Top \<Rightarrow> Some (s\<lparr>w_place := if w_drawing s \<or> w_window s \<noteq> [] then Head else Draining\<rparr>)
      | Head \<Rightarrow> Some (if head_ready s then take_first Loop s else s\<lparr>w_place := Reading 0 []\<rparr>)
      | Finishing f x \<Rightarrow> if is_out (w_done s) x then None else Some (finish_taken f x s)
      | Reading k pending \<Rightarrow>
          if k < length (w_window s)
          then Some (s\<lparr>w_place := Reading (Suc k)
            (if is_out (w_done s) (w_window s ! k) then pending @ [fst (w_window s ! k)] else pending)\<rparr>)
          else Some (s\<lparr>w_place := Deciding pending\<rparr>)
      | Deciding pending \<Rightarrow>
          if may_draw width s pending then Some (draw_next s)
          else Some (s\<lparr>w_place := if pending = [] then Top else Waiting pending\<rparr>)
      | Adding x \<Rightarrow> Some (s\<lparr>w_window := w_window s @ [x], w_place := Top\<rparr>)
      | Waiting pending \<Rightarrow>
          if list_ex (\<lambda>n. n \<in> set (w_done s)) pending then Some (s\<lparr>w_place := Top\<rparr>) else None
      | Draining \<Rightarrow> Some (if w_window s = [] then s\<lparr>w_place := Stopped\<rparr> else take_first Drain s)
      | Inline \<Rightarrow> Some (draw_inline s)
      | Stopped \<Rightarrow> None
      | Interrupted p \<Rightarrow> None)"

definition has_ended :: "('r, 'v) win \<Rightarrow> bool" where
  "has_ended s \<longleftrightarrow> (case w_place s of Stopped \<Rightarrow> True | Interrupted p \<Rightarrow> True | _ \<Rightarrow> False)"

inductive win_step :: "nat \<Rightarrow> ('r, 'v) win \<Rightarrow> ('r, 'v) win \<Rightarrow> bool" for width where
  main: "main_step width s = Some t \<Longrightarrow> win_step width s t"
| call_returns: "\<not> has_ended s \<Longrightarrow> x \<in> set (unfinished s) \<Longrightarrow> is_out (w_done s) x \<Longrightarrow>
     win_step width s (s\<lparr>w_done := fst x # w_done s\<rparr>)"
| interrupt: "\<not> has_ended s \<Longrightarrow> win_step width s (record_arrived s)"

abbreviation win_reached :: "nat \<Rightarrow> ('r, 'v) draw list \<Rightarrow> ('r, 'v) win \<Rightarrow> bool" where
  "win_reached width ds \<equiv> reached (\<lambda>s. s = opened width ds) (win_step width)"

text \<open>What \<open>in_order_window\<close> returns or raises when it stopped.\<close>

definition win_result :: "('r, 'v) win \<Rightarrow> err + 'v list" where
  "win_result s = (case w_error s of None \<Rightarrow> Inr (w_finished s) | Some e \<Rightarrow> Inl e)"

end
