(* ===== verification/WindowFacts.thy ===== *)
theory WindowFacts
  imports Window
begin

text \<open>
  What the window of \<open>common/in_order_window.py\<close> promises: never more calls out than its width, a
  bounded number of jobs held, every reply finished in job order, the result of a serial pass, and an
  end to every run.
\<close>

section \<open>What a run of slots calls, returns and raises\<close>

definition calls :: "('r, 'v) slot list \<Rightarrow> 'r finish_log" where
  "calls xs = concat (map (fst \<circ> finish_slot) xs)"

definition oks :: "('r, 'v) slot list \<Rightarrow> 'v list" where
  "oks xs = concat (map (\<lambda>x. case snd (finish_slot x) of Inl _ \<Rightarrow> [] | Inr v \<Rightarrow> [v]) xs)"

definition faults :: "('r, 'v) slot list \<Rightarrow> err list" where
  "faults xs = concat (map (\<lambda>x. case snd (finish_slot x) of Inl e \<Rightarrow> [e] | Inr _ \<Rightarrow> []) xs)"

lemma slots_simps [simp]:
  "calls [] = []" "oks [] = []" "faults [] = []"
  "calls (xs @ ys) = calls xs @ calls ys" "oks (xs @ ys) = oks xs @ oks ys" "faults (xs @ ys) = faults xs @ faults ys"
  by (simp_all add: calls_def oks_def faults_def)

lemma slot_simps:
  "calls (x # xs) = fst (finish_slot x) @ calls xs"
  "oks (x # xs) = (case snd (finish_slot x) of Inl _ \<Rightarrow> [] | Inr v \<Rightarrow> [v]) @ oks xs"
  "faults (x # xs) = (case snd (finish_slot x) of Inl e \<Rightarrow> [e] | Inr _ \<Rightarrow> []) @ faults xs"
  by (simp_all add: calls_def oks_def faults_def)

lemma calls_numbers: "set (map fst (calls xs)) \<subseteq> set (map fst xs)"
  by (force simp: calls_def finish_slot_def split: sum.splits)

lemma calls_in_order: "sorted_wrt (<) (map fst xs) \<Longrightarrow> sorted_wrt (<) (map fst (calls xs))"
proof (induction xs)
  case (Cons x xs)
  have "map fst (fst (finish_slot x)) = [] \<or> map fst (fst (finish_slot x)) = [fst x]"
    by (auto simp: finish_slot_def split: prod.splits sum.splits)
  moreover have "\<forall>n \<in> set (map fst (calls xs)). fst x < n"
  proof
    fix n assume "n \<in> set (map fst (calls xs))"
    then have "n \<in> set (map fst xs)" using calls_numbers [of xs] by blast
    then show "fst x < n" using Cons.prems by auto
  qed
  ultimately show ?case using Cons by (auto simp: slot_simps)
qed simp

lemma arrived_called: "has_arrived returned (n, j) \<Longrightarrow> reply_of j = Inr a \<Longrightarrow> fst (finish_slot (n, j)) = [(n, a)]"
  by (simp add: finish_slot_def)

lemma serial_split:
  "faults (enumerate n js) = [] \<Longrightarrow> serial_pass n (map Draw js @ ds) =
     (case serial_pass (n + length js) ds of (later, r) \<Rightarrow>
        (calls (enumerate n js) @ later, rbind r (\<lambda>vs. Inr (oks (enumerate n js) @ vs))))"
proof (induction js arbitrary: n)
  case Nil
  show ?case by (cases "serial_pass n ds"; cases "snd (serial_pass n ds)") auto
next
  case (Cons j js)
  obtain c v where s: "finish_slot (n, j) = (c, Inr v)"
    using Cons.prems by (cases "finish_slot (n, j)"; cases "snd (finish_slot (n, j))") (auto simp: slot_simps)
  have f: "faults (enumerate (Suc n) js) = []" using Cons.prems by (simp add: slot_simps s)
  show ?case using Cons.IH [OF f]
    by (cases "serial_pass (Suc n + length js) ds"; cases "snd (serial_pass (Suc n + length js) ds)")
      (auto simp: s slot_simps)
qed

lemma serial_fault:
  "faults (enumerate n js) = e # es \<Longrightarrow>
     \<exists>c later. serial_pass n (map Draw js @ ds) = (c, Inl e) \<and> calls (enumerate n js) = c @ later"
proof (induction js arbitrary: n)
  case (Cons j js)
  obtain c r where s: "finish_slot (n, j) = (c, r)" by (cases "finish_slot (n, j)")
  show ?case
  proof (cases r)
    case (Inl e')
    then show ?thesis using Cons.prems by (auto simp: s slot_simps)
  next
    case (Inr v)
    then have "faults (enumerate (Suc n) js) = e # es" using Cons.prems by (simp add: s slot_simps)
    from Cons.IH [OF this] show ?thesis by (auto simp: s slot_simps Inr)
  qed
qed simp

section \<open>The invariant of the records\<close>

fun looping :: "('r, 'v) place \<Rightarrow> bool" where
  "looping Draining = False"
| "looping Stopped = False"
| "looping (Interrupted p) = False"
| "looping (Finishing f x) = (f \<noteq> Drain)"
| "looping p = True"

fun emptied :: "('r, 'v) place \<Rightarrow> bool" where
  "emptied Draining = True"
| "emptied (Finishing f x) = (f = Drain)"
| "emptied Stopped = True"
| "emptied p = False"

definition errors_ok :: "('r, 'v) win \<Rightarrow> err list \<Rightarrow> bool" where
  "errors_ok s fs \<longleftrightarrow>
     (case w_error s of
        None \<Rightarrow> fs = [] \<and> w_notes s = [] \<and> (emptied (w_place s) \<longrightarrow> w_source s = [] \<and> unfinished s = [])
      | Some e \<Rightarrow> \<not> looping (w_place s) \<and>
          (fs = e # w_notes s \<or> (\<exists>ds. w_source s = DrawRaises e # ds) \<and> fs = w_notes s))"

text \<open>What an interrupt recorded: the replies that had arrived of the jobs in the window.\<close>

definition recovered :: "('r, 'v) win \<Rightarrow> ('r, 'v) slot list" where
  "recovered s = (case w_place s of Interrupted p \<Rightarrow> filter (has_arrived (w_done s)) (w_window s) | _ \<Rightarrow> [])"

fun held_well :: "('r, 'v) win \<Rightarrow> ('r, 'v) place \<Rightarrow> bool" where
  "held_well s Stopped = (w_window s = [])"
| "held_well s Inline = (w_window s = [])"
| "held_well s (Finishing f x) = (f = Serial \<longrightarrow> w_window s = [])"
| "held_well s p = True"

definition records_ok :: "('r, 'v) draw list \<Rightarrow> ('r, 'v) win \<Rightarrow> ('r, 'v) job list \<Rightarrow> ('r, 'v) slot list \<Rightarrow> bool" where
  "records_ok ds s js gone \<longleftrightarrow>
     ds = map Draw js @ w_source s \<and> w_drawn s = length js \<and> gone @ unfinished s = enumerate 0 js \<and>
     w_finished s = oks gone \<and> w_log s = calls (gone @ recovered s) \<and>
     (\<not> w_drawing s \<longrightarrow> w_source s = []) \<and> held_well s (w_place s) \<and> errors_ok s (faults gone)"

lemma records_opened: "records_ok ds (opened width ds) [] []"
  by (simp add: records_ok_def errors_ok_def opened_def unfinished_def recovered_def)

lemma enumerate_snoc: "enumerate 0 (js @ [j]) = enumerate 0 js @ [(length js, j)]"
  by (simp add: enumerate_append_eq)

definition between :: "('r, 'v) place \<Rightarrow> bool" where
  "between p \<longleftrightarrow> p \<noteq> Inline \<and> looping p \<and> taken p = [] \<and> added p = []"

lemma looping_quiet:
  "looping p \<Longrightarrow> \<not> emptied p" "looping (w_place s) \<Longrightarrow> recovered s = []"
  "looping p \<Longrightarrow> recovered (s\<lparr>w_place := p\<rparr>) = []"
  by (induction p rule: looping.induct) (auto simp: recovered_def split: place.splits)

lemma records_moved:
  assumes "records_ok ds s js gone" "between (w_place s)" "between p"
  shows "records_ok ds (s\<lparr>w_place := p\<rparr>) js gone"
proof -
  have "held_well (s\<lparr>w_place := p\<rparr>) p" using assms(3) by (cases p) (auto simp: between_def)
  then show ?thesis using assms
    by (auto simp: records_ok_def errors_ok_def between_def unfinished_def looping_quiet split: option.splits)
qed

lemma unfinished_taken: "w_window s \<noteq> [] \<Longrightarrow> taken (w_place s) = [] \<Longrightarrow> added (w_place s) = [] \<Longrightarrow> unfinished (take_first f s) = unfinished s"
  by (simp add: unfinished_def take_first_def)

lemma records_taken:
  assumes ok: "records_ok ds s js gone" and w: "w_window s \<noteq> []"
    and p: "w_place s = Head \<and> f = Loop \<or> w_place s = Draining \<and> f = Drain"
  shows "records_ok ds (take_first f s) js gone"
proof -
  have "unfinished (take_first f s) = unfinished s" using w p by (intro unfinished_taken) auto
  then show ?thesis using ok p w
    by (auto simp: records_ok_def errors_ok_def take_first_def recovered_def split: option.splits)
qed

lemma records_finished:
  assumes ok: "records_ok ds s js gone" and p: "w_place s = Finishing f x"
  shows "records_ok ds (finish_taken f x s) js (gone @ [x])"
proof -
  obtain c v where v: "finish_slot x = (c, v)" by (cases "finish_slot x")
  have all: "enumerate 0 js = gone @ x # w_window s" using ok p by (simp add: records_ok_def unfinished_def)
  show ?thesis using ok p
    by (cases v; cases f; cases "w_error s")
      (auto simp: all finish_taken_def raised_def v records_ok_def errors_ok_def slot_simps unfinished_def recovered_def Let_def)
qed

lemma records_draw:
  assumes ok: "records_ok ds s js gone" and p: "w_place s = Deciding pending" and draw: "w_drawing s"
  shows "\<exists>js. records_ok ds (draw_next s) js gone"
proof -
  have e: "w_error s = None" "w_notes s = []" "faults gone = []"
    using ok p by (auto simp: records_ok_def errors_ok_def split: option.splits)
  show ?thesis
  proof (cases "w_source s")
    case Nil
    then have "records_ok ds (draw_next s) js gone" using ok p e
      by (simp add: draw_next_def records_ok_def errors_ok_def unfinished_def recovered_def)
    then show ?thesis by blast
  next
    case (Cons d rest)
    show ?thesis
    proof (cases d)
      case (Draw j)
      have "gone @ (w_window s @ [(length js, j)]) = enumerate 0 (js @ [j])"
        using ok p by (simp add: records_ok_def enumerate_snoc unfinished_def flip: append_assoc)
      then have "records_ok ds (draw_next s) (js @ [j]) gone" using ok p e draw Cons Draw
        by (simp add: draw_next_def records_ok_def errors_ok_def unfinished_def recovered_def)
      then show ?thesis by blast
    next
      case (DrawRaises x)
      then have "records_ok ds (draw_next s) js gone" using ok p e draw Cons
        by (simp add: draw_next_def records_ok_def errors_ok_def unfinished_def recovered_def)
      then show ?thesis by blast
    qed
  qed
qed

lemma records_inline:
  assumes ok: "records_ok ds s js gone" and p: "w_place s = Inline"
  shows "\<exists>js. records_ok ds (draw_inline s) js gone"
proof -
  have e: "w_error s = None" "w_notes s = []" "faults gone = []" "w_window s = []"
    using ok p by (auto simp: records_ok_def errors_ok_def split: option.splits)
  have d: "w_source s \<noteq> [] \<Longrightarrow> w_drawing s" using ok by (auto simp: records_ok_def)
  show ?thesis
  proof (cases "w_source s")
    case Nil
    then have "records_ok ds (draw_inline s) js gone" using ok p e
      by (simp add: draw_inline_def records_ok_def errors_ok_def unfinished_def recovered_def)
    then show ?thesis by blast
  next
    case (Cons d rest)
    show ?thesis
    proof (cases d)
      case (Draw j)
      have "gone @ [(length js, j)] = enumerate 0 (js @ [j])"
        using ok p e by (simp add: records_ok_def enumerate_snoc unfinished_def)
      then have "records_ok ds (draw_inline s) (js @ [j]) gone" using ok p e d Cons Draw
        by (simp add: draw_inline_def records_ok_def errors_ok_def unfinished_def recovered_def)
      then show ?thesis by blast
    next
      case (DrawRaises x)
      then have "records_ok ds (draw_inline s) js gone" using ok p e d Cons
        by (simp add: draw_inline_def records_ok_def errors_ok_def unfinished_def recovered_def)
      then show ?thesis by blast
    qed
  qed
qed

lemma records_main:
  assumes ok: "records_ok ds s js gone" and step: "main_step width s = Some t"
  shows "\<exists>js gone. records_ok ds t js gone"
proof (cases "w_place s")
  case Top
  then have e: "w_error s = None" "w_notes s = []" "faults gone = []"
    using ok by (auto simp: records_ok_def errors_ok_def split: option.splits)
  show ?thesis
  proof (cases "w_drawing s \<or> w_window s \<noteq> []")
    case True
    then show ?thesis using step Top records_moved [OF ok, of Head] by (auto simp: main_step_def between_def)
  next
    case False
    then have "records_ok ds t js gone" using ok step Top e
      by (auto simp: main_step_def records_ok_def errors_ok_def unfinished_def recovered_def)
    then show ?thesis by blast
  qed
next
  case Head
  show ?thesis
  proof (cases "head_ready s")
    case True
    then have "w_window s \<noteq> []" by (simp add: head_ready_def)
    then show ?thesis using step Head True records_taken [OF ok] by (auto simp: main_step_def)
  next
    case False
    then show ?thesis using step Head records_moved [OF ok, of "Reading 0 []"] by (auto simp: main_step_def between_def)
  qed
next
  case (Finishing f x)
  then show ?thesis using records_finished [OF ok Finishing] step by (auto simp: main_step_def split: if_splits)
next
  case (Reading k pending)
  then have "\<exists>p. between p \<and> t = s\<lparr>w_place := p\<rparr>" using step by (auto simp: main_step_def between_def split: if_splits)
  then show ?thesis using records_moved [OF ok] Reading by (auto simp: between_def)
next
  case (Deciding pending)
  show ?thesis
  proof (cases "may_draw width s pending")
    case True
    then show ?thesis using records_draw [OF ok Deciding] step Deciding by (auto simp: main_step_def may_draw_def)
  next
    case False
    then have t: "t = s\<lparr>w_place := if pending = [] then Top else Waiting pending\<rparr>" using step Deciding by (simp add: main_step_def)
    have "records_ok ds t js gone" unfolding t using Deciding by (intro records_moved [OF ok]) (simp_all add: between_def)
    then show ?thesis by blast
  qed
next
  case (Adding x)
  then have "records_ok ds t js gone" using step ok
    by (auto simp: main_step_def records_ok_def errors_ok_def unfinished_def recovered_def split: option.splits)
  then show ?thesis by blast
next
  case (Waiting pending)
  then have "t = s\<lparr>w_place := Top\<rparr>" using step by (auto simp: main_step_def split: if_splits)
  then show ?thesis using records_moved [OF ok, of Top] Waiting by (auto simp: between_def)
next
  case Draining
  show ?thesis
  proof (cases "w_window s = []")
    case True
    then have "records_ok ds t js gone" using ok step Draining
      by (auto simp: main_step_def records_ok_def errors_ok_def unfinished_def recovered_def split: option.splits)
    then show ?thesis by blast
  next
    case False
    then show ?thesis using records_taken [OF ok False] step Draining by (auto simp: main_step_def)
  qed
next
  case Inline
  then show ?thesis using records_inline [OF ok Inline] step by (auto simp: main_step_def)
qed (use step in \<open>simp_all add: main_step_def\<close>)

lemma records_returned:
  assumes "records_ok ds s js gone" "\<not> has_ended s"
  shows "records_ok ds (s\<lparr>w_done := n # w_done s\<rparr>) js gone"
proof -
  have "held_well (s\<lparr>w_done := n # w_done s\<rparr>) (w_place s)" using assms(1) by (cases "w_place s") (auto simp: records_ok_def)
  then show ?thesis using assms
    by (auto simp: records_ok_def errors_ok_def has_ended_def unfinished_def recovered_def split: option.splits place.splits)
qed

lemma records_interrupted:
  assumes "records_ok ds s js gone" "\<not> has_ended s"
  shows "records_ok ds (record_arrived s) js gone"
  using assms by (auto simp: records_ok_def errors_ok_def has_ended_def record_arrived_def calls_def unfinished_def
    recovered_def Let_def split: option.splits place.splits)

interpretation recorded: machine "\<lambda>s. s = opened width ds" "win_step width" "\<lambda>s. \<exists>js gone. records_ok ds s js gone" for ds width
proof (unfold_locales, goal_cases)
  case (1 s)
  then show ?case using records_opened by blast
next
  case (2 s t)
  then obtain js gone where ok: "records_ok ds s js gone" by blast
  from 2(2) show ?case
    by (cases rule: win_step.cases)
      (use records_main [OF ok] records_returned [OF ok] records_interrupted [OF ok] in blast)+
qed

section \<open>The bounds of the window\<close>

abbreviation outs :: "('r, 'v) win \<Rightarrow> ('r, 'v) slot list \<Rightarrow> ('r, 'v) slot list" where
  "outs s \<equiv> filter (is_out (w_done s))"

definition has_call :: "('r, 'v) slot \<Rightarrow> bool" where
  "has_call x \<longleftrightarrow> job_call (snd x) \<noteq> None"

lemma out_has_call: "is_out returned x \<Longrightarrow> has_call x"
  by (simp add: is_out_def has_call_def)

text \<open>What a pass over the window has seen: its slots out before \<open>k\<close>, among what was seen out.\<close>

definition seen_ok :: "nat \<Rightarrow> ('r, 'v) win \<Rightarrow> nat \<Rightarrow> nat list \<Rightarrow> bool" where
  "seen_ok width s k pending \<longleftrightarrow>
     k \<le> length (w_window s) \<and> distinct pending \<and>
     set pending \<subseteq> set (map fst (filter has_call (take k (w_window s)))) \<and>
     set (map fst (outs s (take k (w_window s)))) \<subseteq> set pending \<and>
     length pending + length (outs s (drop k (w_window s))) \<le> width"

definition slots_ok :: "nat \<Rightarrow> nat list \<Rightarrow> nat \<Rightarrow> ('r, 'v) slot list \<Rightarrow> bool" where
  "slots_ok width returned n xs \<longleftrightarrow>
     length (filter (is_out returned) xs) \<le> width \<and> length xs \<le> Suc HELD_PER_SLOT * width \<and>
     sorted_wrt (<) (map fst xs) \<and> (\<forall>x \<in> set xs. fst x < n)"

abbreviation window_ok :: "nat \<Rightarrow> ('r, 'v) win \<Rightarrow> bool" where
  "window_ok width s \<equiv> slots_ok width (w_done s) (w_drawn s) (unfinished s)"

fun place_ok :: "nat \<Rightarrow> ('r, 'v) win \<Rightarrow> ('r, 'v) place \<Rightarrow> bool" where
  "place_ok width s (Reading k pending) = seen_ok width s k pending"
| "place_ok width s (Deciding pending) = seen_ok width s (length (w_window s)) pending"
| "place_ok width s (Waiting pending) =
     (seen_ok width s (length (w_window s)) pending \<and> pending \<noteq> [] \<and> \<not> may_draw width s pending)"
| "place_ok width s (Finishing f x) =
     (case f of Loop \<Rightarrow> \<not> is_out (w_done s) x | Drain \<Rightarrow> True | Serial \<Rightarrow> width = 1 \<and> w_window s = [])"
| "place_ok width s Inline = (width = 1 \<and> w_window s = [])"
| "place_ok width s p = True"

definition bounds_ok :: "nat \<Rightarrow> ('r, 'v) win \<Rightarrow> bool" where
  "bounds_ok width s \<longleftrightarrow> window_ok width s \<and> place_ok width s (w_place s)"

lemma slots_ok_simps [simp]:
  "slots_ok width returned n []"
  by (simp add: slots_ok_def)

lemma slots_ok_tail: "slots_ok width returned n (x # xs) \<Longrightarrow> slots_ok width returned n xs"
  by (auto simp: slots_ok_def split: if_splits)

lemma seen_moved [simp]:
  "seen_ok width (s\<lparr>w_place := p\<rparr>) k pending = seen_ok width s k pending"
  "may_draw width (s\<lparr>w_place := p\<rparr>) pending = may_draw width s pending"
  by (simp_all add: seen_ok_def may_draw_def)

lemma place_moved [simp]: "place_ok width (s\<lparr>w_place := p\<rparr>) q = place_ok width s q"
  by (induction width s q rule: place_ok.induct) (simp_all split: finisher.splits)

lemma bounds_moved:
  "window_ok width s \<Longrightarrow> taken (w_place s) = [] \<Longrightarrow> added (w_place s) = [] \<Longrightarrow> taken p = [] \<Longrightarrow> added p = [] \<Longrightarrow>
     place_ok width s p \<Longrightarrow> bounds_ok width (s\<lparr>w_place := p\<rparr>)"
  by (simp add: bounds_ok_def unfinished_def)

lemma filter_shrinks: "length (filter (is_out (n # returned)) xs) \<le> length (filter (is_out returned) xs)"
  by (induction xs) (auto simp: is_out_def)

lemma filter_shrinks_strictly:
  "x \<in> set xs \<Longrightarrow> is_out returned x \<Longrightarrow>
     length (filter (is_out (fst x # returned)) xs) < length (filter (is_out returned) xs)"
proof (induction xs)
  case (Cons y ys)
  have "\<not> is_out (fst x # returned) x" "is_out (fst x # returned) y \<Longrightarrow> is_out returned y" by (simp_all add: is_out_def)
  then show ?case using Cons filter_shrinks [of "fst x" returned ys] by (auto simp: less_Suc_eq_le)
qed simp

lemma out_shrinks: "is_out (n # returned) x \<Longrightarrow> is_out returned x"
  by (simp add: is_out_def)

lemma seen_returns: "seen_ok width s k pending \<Longrightarrow> seen_ok width (s\<lparr>w_done := n # w_done s\<rparr>) k pending"
  using filter_shrinks [of n "w_done s" "drop k (w_window s)"] unfolding seen_ok_def
  by (auto dest!: out_shrinks [of n "w_done s"])

lemma outs_seen:
  assumes "seen_ok width s (length (w_window s)) pending" "sorted_wrt (<) (map fst (w_window s))"
  shows "length (outs s (w_window s)) \<le> length pending" "length pending \<le> length (w_window s)" "length pending \<le> width"
proof -
  have d: "distinct (map fst (w_window s))" using assms(2) strict_sorted_iff by blast
  have "length (outs s (w_window s)) = card (set (map fst (outs s (w_window s))))"
    using d by (metis distinct_card distinct_map_filter length_map)
  also have "\<dots> \<le> card (set pending)" using assms(1) by (intro card_mono) (auto simp: seen_ok_def)
  also have "\<dots> \<le> length pending" by (rule card_length)
  finally show "length (outs s (w_window s)) \<le> length pending" .
  have "length pending = card (set pending)" using assms(1) by (simp add: seen_ok_def distinct_card)
  also have "\<dots> \<le> card (set (map fst (w_window s)))" using assms(1) by (intro card_mono) (auto simp: seen_ok_def)
  also have "\<dots> \<le> length (w_window s)" by (metis card_length length_map)
  finally show "length pending \<le> length (w_window s)" .
  show "length pending \<le> width" using assms(1) by (simp add: seen_ok_def)
qed

lemma reads_next:
  assumes "seen_ok width s k pending" "sorted_wrt (<) (map fst (w_window s))" "k < length (w_window s)"
  shows "seen_ok width s (Suc k)
    (if is_out (w_done s) (w_window s ! k) then pending @ [fst (w_window s ! k)] else pending)"
proof -
  let ?x = "w_window s ! k"
  have split: "take (Suc k) (w_window s) = take k (w_window s) @ [?x]" "drop k (w_window s) = ?x # drop (Suc k) (w_window s)"
    using assms(3) by (simp_all add: take_Suc_conv_app_nth Cons_nth_drop_Suc)
  have "distinct (map fst (w_window s))" using assms(2) strict_sorted_iff by blast
  then have "distinct (map fst (take (Suc k) (w_window s)))" by (simp flip: take_map)
  then have "fst ?x \<notin> fst ` set (take k (w_window s))" unfolding split(1) by simp
  then have "fst ?x \<notin> set pending" using assms(1) by (auto simp: seen_ok_def)
  then show ?thesis using assms(1,3) out_has_call [of "w_done s" ?x] unfolding seen_ok_def split by auto
qed

lemma window_alone: "taken (w_place s) = [] \<Longrightarrow> added (w_place s) = [] \<Longrightarrow> unfinished s = w_window s"
  by (simp add: unfinished_def)

lemma bounds_taken:
  assumes "bounds_ok width s" "w_window s \<noteq> []" "w_place s = Head \<and> head_ready s \<and> f = Loop \<or> w_place s = Draining \<and> f = Drain"
  shows "bounds_ok width (take_first f s)"
proof -
  have "unfinished (take_first f s) = unfinished s" using assms(2,3) by (intro unfinished_taken) auto
  then show ?thesis using assms by (auto simp: bounds_ok_def take_first_def head_ready_def)
qed

lemma bounds_finished:
  assumes ok: "bounds_ok width s" and p: "w_place s = Finishing f x"
  shows "bounds_ok width (finish_taken f x s)"
proof -
  have "slots_ok width (w_done s) (w_drawn s) (x # w_window s)" using ok p by (simp add: bounds_ok_def unfinished_def)
  then have "slots_ok width (w_done s) (w_drawn s) (w_window s)" by (rule slots_ok_tail)
  moreover have "f = Serial \<Longrightarrow> width = 1 \<and> w_window s = []" using ok p by (simp add: bounds_ok_def)
  ultimately show ?thesis
    by (cases f) (auto simp: finish_taken_def raised_def bounds_ok_def unfinished_def Let_def split: prod.splits sum.splits)
qed

lemma bounds_draw:
  assumes "bounds_ok width s" "w_place s = Deciding pending" "may_draw width s pending"
  shows "bounds_ok width (draw_next s)"
proof -
  have seen: "seen_ok width s (length (w_window s)) pending" and ok: "slots_ok width (w_done s) (w_drawn s) (w_window s)"
    using assms(1,2) by (simp_all add: bounds_ok_def unfinished_def)
  have srt: "sorted_wrt (<) (map fst (w_window s))" using ok by (simp add: slots_ok_def)
  note le = outs_seen [OF seen srt]
  have room: "length (outs s (w_window s)) < width" "length (w_window s) < Suc HELD_PER_SLOT * width"
    using assms(3) le by (auto simp: may_draw_def)
  show ?thesis
  proof (cases "w_source s")
    case (Cons d ds)
    show ?thesis
    proof (cases d)
      case (Draw j)
      have "fst y < w_drawn s" if "y \<in> set (w_window s)" for y using ok that by (simp add: slots_ok_def)
      then show ?thesis using ok room Cons Draw
        by (auto simp: draw_next_def bounds_ok_def unfinished_def slots_ok_def sorted_wrt_append less_Suc_eq simp del: split_paired_All)
    next
      case (DrawRaises e)
      then show ?thesis using ok Cons by (simp add: draw_next_def bounds_ok_def unfinished_def)
    qed
  qed (use ok in \<open>simp add: draw_next_def bounds_ok_def unfinished_def\<close>)
qed

lemma bounds_inline:
  assumes "bounds_ok width s" "w_place s = Inline"
  shows "bounds_ok width (draw_inline s)"
  using assms by (auto simp: draw_inline_def bounds_ok_def unfinished_def slots_ok_def split: list.splits draw.splits)

lemma bounds_main:
  assumes ok: "bounds_ok width s" and step: "main_step width s = Some t"
  shows "bounds_ok width t"
proof -
  have w: "window_ok width s" using ok by (simp add: bounds_ok_def)
  note moved = bounds_moved [OF w]
  show ?thesis
  proof (cases "w_place s")
    case Top
    then show ?thesis using step by (auto simp: main_step_def intro!: moved)
  next
    case Head
    then show ?thesis using step bounds_taken [OF ok] w
      by (auto simp: main_step_def head_ready_def seen_ok_def slots_ok_def unfinished_def intro!: moved split: if_splits)
  next
    case (Finishing f x)
    then show ?thesis using step bounds_finished [OF ok] by (auto simp: main_step_def split: if_splits)
  next
    case Draining
    then show ?thesis using step bounds_taken [OF ok] by (auto simp: main_step_def intro!: moved split: if_splits)
  next
    case (Reading k pending)
    then have seen: "seen_ok width s k pending" using ok by (simp add: bounds_ok_def)
    have srt: "sorted_wrt (<) (map fst (w_window s))" using w Reading by (simp add: slots_ok_def unfinished_def)
    show ?thesis
    proof (cases "k < length (w_window s)")
      case True
      then show ?thesis using step reads_next [OF seen srt] Reading by (auto simp: main_step_def intro!: moved)
    next
      case False
      then have "k = length (w_window s)" using seen by (simp add: seen_ok_def)
      then show ?thesis using step seen Reading by (auto simp: main_step_def intro!: moved)
    qed
  next
    case (Deciding pending)
    then have seen: "seen_ok width s (length (w_window s)) pending" using ok by (simp add: bounds_ok_def)
    show ?thesis
    proof (cases "may_draw width s pending")
      case True
      then show ?thesis using step bounds_draw [OF ok Deciding] Deciding by (simp add: main_step_def)
    next
      case False
      then show ?thesis using step seen Deciding by (auto simp: main_step_def intro!: moved split: if_splits)
    qed
  next
    case (Adding x)
    then show ?thesis using w step by (auto simp: main_step_def bounds_ok_def unfinished_def)
  next
    case (Waiting pending)
    then show ?thesis using step by (auto simp: main_step_def intro!: moved split: if_splits)
  next
    case Inline
    then show ?thesis using step bounds_inline [OF ok] by (auto simp: main_step_def)
  qed (use step in \<open>auto simp: main_step_def\<close>)
qed

lemma bounds_returns:
  assumes "bounds_ok width s"
  shows "bounds_ok width (s\<lparr>w_done := n # w_done s\<rparr>)"
proof -
  have "window_ok width (s\<lparr>w_done := n # w_done s\<rparr>)"
    using assms filter_shrinks [of n "w_done s" "unfinished s"] by (simp add: bounds_ok_def slots_ok_def unfinished_def)
  moreover have "place_ok width s p \<Longrightarrow> place_ok width (s\<lparr>w_done := n # w_done s\<rparr>) p" for p
    by (induction width s p rule: place_ok.induct) (auto simp: may_draw_def seen_returns is_out_def split: finisher.splits)
  ultimately show ?thesis using assms by (simp add: bounds_ok_def)
qed

lemma bounds_step:
  assumes ok: "bounds_ok width s" and step: "win_step width s t"
  shows "bounds_ok width t"
  using step
proof (cases rule: win_step.cases)
  case main
  then show ?thesis by (rule bounds_main [OF ok])
next
  case (call_returns x)
  then show ?thesis using bounds_returns [OF ok] by simp
next
  case interrupt
  then show ?thesis using ok by (simp add: bounds_ok_def unfinished_def record_arrived_def Let_def)
qed

interpretation bounded: machine "\<lambda>s. s = opened width ds" "win_step width" "bounds_ok width" for ds width
  by unfold_locales (simp add: bounds_ok_def unfinished_def opened_def, rule bounds_step)

lemma win_opened: "win_reached width ds (opened width ds)"
  by (rule reached.begins) simp

section \<open>Played runs\<close>

datatype move = Main | Returns nat | Interrupts

fun play :: "nat \<Rightarrow> move list \<Rightarrow> ('r, 'v) win \<Rightarrow> ('r, 'v) win option" where
  "play width [] s = Some s"
| "play width (Main # ms) s = (case main_step width s of None \<Rightarrow> None | Some t \<Rightarrow> play width ms t)"
| "play width (Returns n # ms) s =
     (if \<not> has_ended s \<and> list_ex (\<lambda>x. fst x = n \<and> is_out (w_done s) x) (unfinished s)
      then play width ms (s\<lparr>w_done := n # w_done s\<rparr>) else None)"
| "play width (Interrupts # ms) s = (if has_ended s then None else play width ms (record_arrived s))"

lemma play_reached: "win_reached width ds s \<Longrightarrow> play width ms s = Some t \<Longrightarrow> win_reached width ds t"
proof (induction width ms s rule: play.induct)
  case (3 width n ms s)
  then obtain x where "x \<in> set (unfinished s)" "is_out (w_done s) x" "fst x = n" "\<not> has_ended s"
    by (auto simp: list_ex_iff split: if_splits)
  then have "win_step width s (s\<lparr>w_done := n # w_done s\<rparr>)" using call_returns by fastforce
  then show ?case using 3 reached.goes by (fastforce split: if_splits)
qed (auto intro: reached.goes win_step.intros split: option.splits if_splits)

definition demo_job :: "(err + nat) option \<Rightarrow> (nat, nat) job" where
  "demo_job call = \<lparr>job_call = call, job_finish = (\<lambda>a. case a of None \<Rightarrow> Inr 0 | Some n \<Rightarrow> Inr (n + 1))\<rparr>"

definition demo_jobs :: "(nat, nat) draw list" where
  "demo_jobs = [Draw (demo_job (Some (Inr 7))), Draw (demo_job None)]"

text \<open>Both jobs are drawn before the first call returns, and the window stops.\<close>

definition demo_stopped :: "(nat, nat) win option" where
  "demo_stopped = play 2 (replicate 18 Main @ [Returns 0] @ replicate 9 Main) (opened 2 demo_jobs)"

text \<open>The second job needs no call; an interrupt while the first call is out records it.\<close>

definition demo_interrupted :: "(nat, nat) win option" where
  "demo_interrupted = play 2 (replicate 12 Main @ [Interrupts]) (opened 2 demo_jobs)"

text \<open>The first reply has arrived and its job has left the window when the interrupt falls.\<close>

definition demo_lost :: "(nat, nat) win option" where
  "demo_lost = play 2 (replicate 5 Main @ [Returns 0] @ replicate 2 Main @ [Interrupts]) (opened 2 demo_jobs)"

lemma played_reached:
  assumes "case play width ms (opened width ds) of None \<Rightarrow> False | Some _ \<Rightarrow> True"
  shows "win_reached width ds (the (play width ms (opened width ds)))"
proof -
  have "play width ms (opened width ds) = Some (the (play width ms (opened width ds)))"
    using assms by (cases "play width ms (opened width ds)") simp_all
  then show ?thesis using play_reached [OF win_opened] by blast
qed

lemma demo_interrupted_reached: "win_reached 2 demo_jobs (the demo_interrupted)"
  unfolding demo_interrupted_def by (rule played_reached, fold demo_interrupted_def) code_simp

lemma demo_stopped_reached: "win_reached 2 demo_jobs (the demo_stopped)"
  unfolding demo_stopped_def by (rule played_reached, fold demo_stopped_def) code_simp

lemma demo_lost_reached: "win_reached 2 demo_jobs (the demo_lost)"
  unfolding demo_lost_def by (rule played_reached, fold demo_lost_def) code_simp

section \<open>Order and bounds\<close>

lemma sorted_wrt_kept: "sorted_wrt P (xs @ ys @ zs) \<Longrightarrow> sorted_wrt P (xs @ filter Q ys)"
  by (auto simp: sorted_wrt_append sorted_wrt_filter)

text \<open>The log is in job order: the finished jobs come before what the window holds.\<close>

lemma log_in_order:
  assumes ok: "records_ok ds s js gone"
  shows "sorted_wrt (<) (map fst (w_log s))"
proof -
  have "sorted_wrt (\<lambda>x y. fst x < fst y) (gone @ taken (w_place s) @ w_window s @ added (w_place s))"
    using ok by (simp add: records_ok_def unfinished_def flip: sorted_wrt_map)
  then have drawn: "sorted_wrt (\<lambda>x y. fst x < fst y) (gone @ w_window s @ added (w_place s))"
    by (auto simp: sorted_wrt_append)
  then have "sorted_wrt (\<lambda>x y. fst x < fst y) (gone @ filter Q (w_window s))" for Q by (rule sorted_wrt_kept)
  from this [of "has_arrived (w_done s)"] this [of "\<lambda>_. False"]
  have "sorted_wrt (\<lambda>x y. fst x < fst y) (gone @ recovered s)"
    by (auto simp: recovered_def split: place.splits)
  then have "sorted_wrt (<) (map fst (gone @ recovered s))" by (simp only: sorted_wrt_map)
  then have "sorted_wrt (<) (map fst (calls (gone @ recovered s)))" by (rule calls_in_order)
  then show ?thesis using ok by (simp add: records_ok_def)
qed

lemma called: "x \<in> set xs \<Longrightarrow> reply_of (snd x) = Inr a \<Longrightarrow> (fst x, a) \<in> set (calls xs)"
proof (induction xs)
  case (Cons y ys)
  then show ?case by (cases "x = y") (auto simp: slot_simps finish_slot_def split: prod.splits)
qed simp

text \<open>A job drawn is still unfinished, or its call raised, or \<open>finish\<close> was called with its reply.\<close>

lemma drawn_accounted:
  assumes ok: "records_ok ds s js gone" and n: "n < w_drawn s"
  shows "\<exists>j. ds ! n = Draw j \<and>
    ((n, j) \<in> set (unfinished s) \<or> (case reply_of j of Inl _ \<Rightarrow> True | Inr a \<Rightarrow> (n, a) \<in> set (w_log s)))"
proof -
  have len: "n < length js" using ok n by (simp add: records_ok_def)
  then have d: "ds ! n = Draw (js ! n)" using ok by (simp add: records_ok_def nth_append)
  have "(n, js ! n) \<in> set (enumerate 0 js)" using len by (force simp: in_set_enumerate_eq)
  then have "(n, js ! n) \<in> set (gone @ unfinished s)" using ok by (simp add: records_ok_def)
  moreover have "(n, a) \<in> set (w_log s)" if "(n, js ! n) \<in> set gone" "reply_of (js ! n) = Inr a" for a
    using called [OF that(1)] that(2) ok by (simp add: records_ok_def)
  ultimately show ?thesis using d by (auto split: sum.splits)
qed

text \<open>
  C32. However calls return and wherever an interrupt falls, never more calls are out than the width and
  never more than five jobs per slot are drawn and unfinished, counting the job being finished and
  the one being put into the window; \<open>finish\<close> is called in the order the jobs were drawn, at most once
  each; every job drawn is unfinished, or its call raised, or \<open>finish\<close> was called with its reply; after a
  stop none is unfinished; and after an interrupt \<open>finish\<close> was called for every unfinished job whose
  reply had arrived, but for the one that had left the window and was not finished, or was drawn and
  not in the window yet, when the interrupt fell.
\<close>

theorem window_bounded_and_ordered:
  assumes "win_reached width ds s"
  shows "length (outs s (unfinished s)) \<le> width \<and> length (unfinished s) \<le> Suc HELD_PER_SLOT * width \<and>
     sorted_wrt (<) (map fst (w_log s)) \<and>
     (\<forall>n < w_drawn s. \<exists>j. ds ! n = Draw j \<and>
        ((n, j) \<in> set (unfinished s) \<or> (case reply_of j of Inl _ \<Rightarrow> True | Inr a \<Rightarrow> (n, a) \<in> set (w_log s)))) \<and>
     (w_place s = Stopped \<longrightarrow> unfinished s = []) \<and>
     (\<forall>p. w_place s = Interrupted p \<longrightarrow>
        (\<forall>x \<in> set (unfinished s). \<forall>a. reply_of (snd x) = Inr a \<longrightarrow>
           is_out (w_done s) x \<or> (fst x, a) \<in> set (w_log s) \<or> x \<in> set (taken p @ added p)))"
proof -
  obtain js gone where ok: "records_ok ds s js gone" using recorded.reached_keeps [OF assms] by blast
  have "(fst x, a) \<in> set (w_log s)"
    if i: "w_place s = Interrupted p" and x: "x \<in> set (unfinished s)" "x \<notin> set (taken p @ added p)"
      "reply_of (snd x) = Inr a" "\<not> is_out (w_done s) x" for p x a
  proof -
    have "x \<in> set (w_window s)" using i x(1,2) by (auto simp: unfinished_def)
    then have "x \<in> set (recovered s)" using i x(3,4) by (simp add: recovered_def has_arrived_def)
    from called [OF this x(3)] show ?thesis using ok by (auto simp: records_ok_def)
  qed
  then have "\<forall>p. w_place s = Interrupted p \<longrightarrow>
      (\<forall>x \<in> set (unfinished s). \<forall>a. reply_of (snd x) = Inr a \<longrightarrow>
        is_out (w_done s) x \<or> (fst x, a) \<in> set (w_log s) \<or> x \<in> set (taken p @ added p))"
    by blast
  moreover have "window_ok width s" using bounded.reached_keeps [OF assms] by (simp add: bounds_ok_def)
  moreover have "w_place s = Stopped \<longrightarrow> unfinished s = []" using ok by (auto simp: records_ok_def unfinished_def)
  moreover note log_in_order [OF ok] drawn_accounted [OF ok]
  ultimately show ?thesis unfolding slots_ok_def by blast
qed

theorem window_bounded_and_ordered_witness:
  "let s = the demo_interrupted in
     map fst (w_log s) = [1] \<and> length (outs s (unfinished s)) \<le> 2 \<and> length (unfinished s) \<le> 10"
proof -
  have "map fst (w_log (the demo_interrupted)) = [1]" by code_simp
  then show ?thesis using window_bounded_and_ordered [OF demo_interrupted_reached] by (simp add: Let_def HELD_PER_SLOT_def)
qed

text \<open>
  The exception is a real one: an interrupt that falls between the head's leaving the window and its
  \<open>finish\<close> leaves a reply that has arrived without its record.
\<close>

theorem interrupt_can_lose_a_reply:
  "\<exists>s. win_reached 2 demo_jobs s \<and> (case w_place s of Interrupted p \<Rightarrow> True | _ \<Rightarrow> False) \<and>
     (\<exists>x \<in> set (unfinished s). reply_of (snd x) = Inr (Some 7) \<and> \<not> is_out (w_done s) x) \<and> w_log s = []"
proof -
  have "case w_place (the demo_lost) of Interrupted p \<Rightarrow> True | _ \<Rightarrow> False"
    "list_ex (\<lambda>x. reply_of (snd x) = Inr (Some 7) \<and> \<not> is_out (w_done (the demo_lost)) x) (unfinished (the demo_lost))"
    "w_log (the demo_lost) = []"
    by code_simp+
  then show ?thesis using demo_lost_reached unfolding list_ex_iff by blast
qed

section \<open>The serial pass\<close>

text \<open>
  C31. A window that stopped did what a serial pass does: it returns exactly when the serial pass returns,
  with the same values, having called \<open>finish\<close> for the same jobs with the same replies in the same
  order; when it raises, the serial pass raises too, an error the window raises or notes, and every
  call of \<open>finish\<close> the serial pass made was made first and in the same order.
\<close>

theorem window_refines_serial_pass:
  assumes "win_reached width ds s" "w_place s = Stopped"
  shows "case win_result s of
      Inr vs \<Rightarrow> serial_pass 0 ds = (w_log s, Inr vs)
    | Inl e \<Rightarrow> \<exists>made later e'. serial_pass 0 ds = (made, Inl e') \<and> w_log s = made @ later \<and> e' \<in> set (e # w_notes s)"
proof -
  obtain js gone where ok: "records_ok ds s js gone" using recorded.reached_keeps [OF assms(1)] by blast
  then have gone: "gone = enumerate 0 js" and ds: "ds = map Draw js @ w_source s" and "w_finished s = oks gone" "w_log s = calls gone"
    and err: "errors_ok s (faults gone)"
    using assms(2) by (auto simp: records_ok_def unfinished_def recovered_def)
  show ?thesis
  proof (cases "w_error s")
    case None
    then have "w_source s = []" "faults (enumerate 0 js) = []" using err assms(2) gone by (auto simp: errors_ok_def)
    then show ?thesis using serial_split [of 0 js "[]"] None ds gone \<open>w_finished s = _\<close> \<open>w_log s = _\<close>
      by (simp add: win_result_def)
  next
    case (Some e)
    show ?thesis
    proof (cases "faults gone")
      case Nil
      then obtain rest where "w_source s = DrawRaises e # rest" using err Some by (auto simp: errors_ok_def)
      then show ?thesis using serial_split [of 0 js "w_source s"] Nil Some ds gone \<open>w_log s = _\<close>
        by (simp add: win_result_def)
    next
      case (Cons e' es)
      then have "e' # es = e # w_notes s \<or> e' # es = w_notes s" using err Some by (auto simp: errors_ok_def)
      then have "e' \<in> set (e # w_notes s)" by (metis list.set_intros(1,2))
      then show ?thesis using serial_fault [of 0 js e' es "w_source s"] Cons Some ds gone \<open>w_log s = _\<close>
        by (auto simp: win_result_def)
    qed
  qed
qed

theorem window_refines_serial_pass_witness:
  "win_result (the demo_stopped) = Inr [8, 0] \<and> serial_pass 0 demo_jobs = (w_log (the demo_stopped), Inr [8, 0])"
proof -
  have "case w_place (the demo_stopped) of Stopped \<Rightarrow> True | _ \<Rightarrow> False" by code_simp
  then have p: "w_place (the demo_stopped) = Stopped" by (simp split: place.splits)
  have r: "win_result (the demo_stopped) = Inr [8, 0]" by code_simp
  from window_refines_serial_pass [OF demo_stopped_reached p] r show ?thesis by simp
qed

section \<open>Every run ends\<close>

definition stage :: "('r, 'v) win \<Rightarrow> nat" where
  "stage s = (if looping (w_place s) then 2 else if has_ended s then 0 else 1)"

definition undrawn :: "('r, 'v) win \<Rightarrow> nat" where
  "undrawn s = length (w_source s) + (if w_drawing s then 1 else 0)"

text \<open>The calls the main thread may still believe out, and how far it is from acting on it.\<close>

definition believed :: "('r, 'v) win \<Rightarrow> nat" where
  "believed s =
     (case w_place s of
        Reading k pending \<Rightarrow> length pending + length (outs s (drop k (w_window s)))
      | Deciding pending \<Rightarrow> length pending
      | Waiting pending \<Rightarrow> length pending
      | _ \<Rightarrow> length (outs s (unfinished s)))"

definition distance :: "('r, 'v) win \<Rightarrow> nat" where
  "distance s =
     (case w_place s of
        Top \<Rightarrow> if head_ready s \<or> (w_window s = [] \<and> \<not> w_drawing s) then 2 else length (w_window s) + 7
      | Head \<Rightarrow> if head_ready s then 1 else length (w_window s) + 6
      | Reading k pending \<Rightarrow> 5 + (length (w_window s) - k)
      | Deciding pending \<Rightarrow> 4
      | Waiting pending \<Rightarrow> 3
      | Adding x \<Rightarrow> length (w_window s) + 9
      | Draining \<Rightarrow> 1
      | _ \<Rightarrow> 0)"

definition still_to_do :: "('r, 'v) win rel" where
  "still_to_do =
     measures [stage, undrawn, \<lambda>s. length (unfinished s), believed, \<lambda>s. length (outs s (unfinished s)), distance]"

lemma wf_still_to_do: "wf still_to_do"
  by (simp add: still_to_do_def)

lemma shrinksI:
  "stage t < stage s \<Longrightarrow> (t, s) \<in> still_to_do"
  "stage t = stage s \<Longrightarrow> undrawn t < undrawn s \<Longrightarrow> (t, s) \<in> still_to_do"
  "stage t = stage s \<Longrightarrow> undrawn t = undrawn s \<Longrightarrow> length (unfinished t) < length (unfinished s) \<Longrightarrow> (t, s) \<in> still_to_do"
  by (simp_all add: still_to_do_def)

text \<open>A step that draws no job and finishes none.\<close>

lemma same_jobs_shrinks:
  assumes "stage t = stage s" "undrawn t = undrawn s" "unfinished t = unfinished s" "w_done t = w_done s"
    "believed t < believed s \<or> believed t = believed s \<and> distance t < distance s"
  shows "(t, s) \<in> still_to_do"
  using assms by (auto simp: still_to_do_def)

lemma moved_shrinks:
  assumes "t = s\<lparr>w_place := p\<rparr>" "between (w_place s)" "between p"
    "believed t < believed s \<or> believed t = believed s \<and> distance t < distance s"
  shows "(t, s) \<in> still_to_do"
  using assms by (intro same_jobs_shrinks) (simp_all add: stage_def undrawn_def between_def unfinished_def)

lemma no_outs_ready: "outs s (w_window s) = [] \<Longrightarrow> w_window s \<noteq> [] \<Longrightarrow> head_ready s"
  by (cases "w_window s") (auto simp: head_ready_def split: if_splits)

lemma taken_shrinks:
  assumes "w_window s \<noteq> []" "w_place s = Head \<and> head_ready s \<and> f = Loop \<or> w_place s = Draining \<and> f = Drain"
  shows "(take_first f s, s) \<in> still_to_do"
proof -
  have u: "unfinished (take_first f s) = unfinished s" using assms by (intro unfinished_taken) auto
  show ?thesis
    by (rule same_jobs_shrinks [OF _ _ u])
      (use assms u in \<open>auto simp: take_first_def stage_def undrawn_def has_ended_def believed_def distance_def\<close>)
qed

lemma finish_shrinks:
  assumes "w_place s = Finishing f x"
  shows "(finish_taken f x s, s) \<in> still_to_do"
proof -
  obtain c v where v: "finish_slot x = (c, v)" by (cases "finish_slot x")
  show ?thesis
  proof (cases "\<exists>e. v = Inl e \<and> f \<noteq> Drain")
    case True
    then show ?thesis using assms
      by (intro shrinksI(1)) (cases f; auto simp: finish_taken_def raised_def v stage_def has_ended_def)
  next
    case False
    then show ?thesis using assms
      by (intro shrinksI(3)) (cases f; auto simp: finish_taken_def raised_def v stage_def has_ended_def undrawn_def
        unfinished_def Let_def split: sum.splits)+
  qed
qed

lemma draw_shrinks:
  assumes "w_place s = Deciding pending" "w_drawing s"
  shows "(draw_next s, s) \<in> still_to_do"
proof (cases "\<exists>e ds. w_source s = DrawRaises e # ds")
  case True
  then show ?thesis using assms by (intro shrinksI(1)) (auto simp: draw_next_def stage_def has_ended_def)
next
  case False
  then show ?thesis using assms
    by (intro shrinksI(2)) (auto simp: stage_def undrawn_def draw_next_def split: list.splits draw.splits)
qed

lemma inline_shrinks:
  assumes "w_place s = Inline"
  shows "(draw_inline s, s) \<in> still_to_do"
proof (cases "\<exists>j ds. w_source s = Draw j # ds")
  case True
  then show ?thesis using assms by (intro shrinksI(2)) (auto simp: draw_inline_def stage_def undrawn_def)
next
  case False
  then show ?thesis using assms
    by (intro shrinksI(1)) (auto simp: draw_inline_def stage_def has_ended_def split: list.splits draw.splits)
qed

lemma deciding_shrinks:
  assumes ok: "bounds_ok width s" and w: "1 \<le> width" and p: "w_place s = Deciding pending"
    and no: "\<not> may_draw width s pending" and t: "t = s\<lparr>w_place := if pending = [] then Top else Waiting pending\<rparr>"
  shows "(t, s) \<in> still_to_do"
proof -
  have seen: "seen_ok width s (length (w_window s)) pending" and srt: "sorted_wrt (<) (map fst (w_window s))"
    using ok p by (simp_all add: bounds_ok_def slots_ok_def unfinished_def)
  show ?thesis
  proof (cases pending)
    case Nil
    then have none: "outs s (w_window s) = []" using outs_seen(1) [OF seen srt] by simp
    have "head_ready s \<or> w_window s = [] \<and> \<not> w_drawing s"
      using no no_outs_ready [OF none] w Nil by (cases "w_window s = []") (auto simp: may_draw_def HELD_PER_SLOT_def)
    then have "distance t = 2" using t Nil by (simp add: distance_def head_ready_def)
    moreover have "believed t = believed s" using t Nil none p by (simp add: believed_def unfinished_def)
    ultimately show ?thesis using t p Nil
      by (intro moved_shrinks [where p = Top]) (simp_all add: between_def distance_def)
  next
    case (Cons n ns)
    then show ?thesis using t p
      by (intro moved_shrinks [where p = "Waiting pending"]) (simp_all add: between_def distance_def believed_def)
  qed
qed

lemma waiting_shrinks:
  assumes ok: "bounds_ok width s" and p: "w_place s = Waiting pending" and n: "n \<in> set pending" "n \<in> set (w_done s)"
  shows "(s\<lparr>w_place := Top\<rparr>, s) \<in> still_to_do"
proof -
  have seen: "seen_ok width s (length (w_window s)) pending" and srt: "sorted_wrt (<) (map fst (w_window s))"
    using ok p by (simp_all add: bounds_ok_def slots_ok_def unfinished_def)
  have d: "distinct (map fst (w_window s))" using srt strict_sorted_iff by blast
  have "length (outs s (w_window s)) = card (set (map fst (outs s (w_window s))))"
    using d by (metis distinct_card distinct_map_filter length_map)
  also have "\<dots> \<le> card (set pending - {n})"
    using seen n by (intro card_mono) (auto simp: seen_ok_def is_out_def)
  also have "\<dots> < card (set pending)" using n by (intro psubset_card_mono) auto
  also have "\<dots> \<le> length pending" by (rule card_length)
  finally show ?thesis using p
    by (intro moved_shrinks [where p = Top]) (simp_all add: between_def believed_def unfinished_def)
qed

lemma reading_shrinks:
  assumes p: "w_place s = Reading k pending" and step: "main_step width s = Some t"
  shows "(t, s) \<in> still_to_do"
proof (cases "k < length (w_window s)")
  case True
  let ?seen = "if is_out (w_done s) (w_window s ! k) then pending @ [fst (w_window s ! k)] else pending"
  have "drop k (w_window s) = w_window s ! k # drop (Suc k) (w_window s)" using True by (simp add: Cons_nth_drop_Suc)
  then have le: "length ?seen + length (outs s (drop (Suc k) (w_window s))) = believed s"
    using p by (simp add: believed_def)
  have t: "t = s\<lparr>w_place := Reading (Suc k) ?seen\<rparr>" using step p True by (simp add: main_step_def)
  have "believed t = believed s" "distance t < distance s"
    using p True le by (simp_all add: t believed_def [of "w_place_update _ _"] distance_def)
  then show ?thesis using p by (intro moved_shrinks [OF t]) (simp_all add: between_def)
next
  case False
  then have t: "t = s\<lparr>w_place := Deciding pending\<rparr>" using step p by (simp add: main_step_def)
  show ?thesis using p False
    by (intro moved_shrinks [OF t]) (simp_all add: t between_def believed_def distance_def)
qed

lemma main_shrinks:
  assumes ok: "bounds_ok width s" and w: "1 \<le> width" and step: "main_step width s = Some t"
  shows "(t, s) \<in> still_to_do"
proof (cases "w_place s")
  case Top
  show ?thesis
  proof (cases "w_drawing s \<or> w_window s \<noteq> []")
    case True
    then have "t = s\<lparr>w_place := Head\<rparr>" using step Top by (simp add: main_step_def)
    then show ?thesis using Top True
      by (intro moved_shrinks [where p = Head])
        (auto simp: between_def believed_def distance_def head_ready_def unfinished_def)
  next
    case False
    then show ?thesis using step Top by (intro shrinksI(1)) (auto simp: main_step_def stage_def has_ended_def)
  qed
next
  case Head
  show ?thesis
  proof (cases "head_ready s")
    case True
    then have "w_window s \<noteq> []" by (simp add: head_ready_def)
    then show ?thesis using step Head True taken_shrinks by (auto simp: main_step_def)
  next
    case False
    then have "t = s\<lparr>w_place := Reading 0 []\<rparr>" using step Head by (simp add: main_step_def)
    then show ?thesis using Head False
      by (intro moved_shrinks [where p = "Reading 0 []"]) (auto simp: between_def believed_def distance_def unfinished_def)
  qed
next
  case (Finishing f x)
  then show ?thesis using step finish_shrinks [OF Finishing] by (auto simp: main_step_def split: if_splits)
next
  case (Reading k pending)
  then show ?thesis using step by (rule reading_shrinks)
next
  case (Deciding pending)
  show ?thesis
  proof (cases "may_draw width s pending")
    case True
    then show ?thesis using step Deciding draw_shrinks [OF Deciding] by (simp add: main_step_def may_draw_def)
  next
    case False
    then show ?thesis using step Deciding by (intro deciding_shrinks [OF ok w Deciding False]) (simp add: main_step_def)
  qed
next
  case (Adding x)
  then have t: "t = s\<lparr>w_window := w_window s @ [x], w_place := Top\<rparr>" using step by (simp add: main_step_def)
  have "unfinished t = unfinished s" using Adding by (simp add: t unfinished_def)
  then show ?thesis using Adding
    by (intro same_jobs_shrinks) (auto simp: t stage_def undrawn_def believed_def distance_def unfinished_def)
next
  case (Waiting pending)
  then obtain n where "n \<in> set pending" "n \<in> set (w_done s)" "t = s\<lparr>w_place := Top\<rparr>"
    using step by (auto simp: main_step_def list_ex_iff split: if_splits)
  then show ?thesis using waiting_shrinks [OF ok Waiting] by blast
next
  case Draining
  show ?thesis
  proof (cases "w_window s = []")
    case True
    then show ?thesis using step Draining by (intro shrinksI(1)) (auto simp: main_step_def stage_def has_ended_def)
  next
    case False
    then show ?thesis using step Draining taken_shrinks [OF False] by (simp add: main_step_def)
  qed
next
  case Inline
  then show ?thesis using step inline_shrinks [OF Inline] by (simp add: main_step_def)
qed (use step in \<open>simp_all add: main_step_def\<close>)

lemma step_shrinks:
  assumes ok: "bounds_ok width s" and w: "1 \<le> width" and step: "win_step width s t"
  shows "(t, s) \<in> still_to_do"
  using step
proof (cases rule: win_step.cases)
  case main
  then show ?thesis by (rule main_shrinks [OF ok w])
next
  case (call_returns x)
  have fewer: "length (filter (is_out (fst x # w_done s)) ys) \<le> length (outs s ys)" for ys by (rule filter_shrinks)
  have u: "unfinished t = unfinished s" using call_returns(1) by (simp add: unfinished_def)
  have "length (outs t (unfinished t)) < length (outs s (unfinished s))"
    using call_returns filter_shrinks_strictly u by simp
  moreover have "believed t \<le> believed s" using fewer call_returns(1) u by (auto simp: believed_def split: place.splits)
  moreover have "stage t = stage s" "undrawn t = undrawn s"
    using call_returns(1) by (simp_all add: stage_def undrawn_def has_ended_def)
  ultimately show ?thesis using u by (auto simp: still_to_do_def)
next
  case interrupt
  then show ?thesis
    by (intro shrinksI(1)) (auto simp: stage_def has_ended_def record_arrived_def Let_def split: place.splits)
qed

text \<open>
  The main thread waits for a call that is out: that of the job it finishes, or one of those it saw out
  when it might send no other.
\<close>

lemma blocked:
  assumes ok: "bounds_ok width s" and running: "\<not> has_ended s" and none: "main_step width s = None"
  shows "(\<exists>f x. w_place s = Finishing f x \<and> is_out (w_done s) x \<and> (f = Drain \<or> f = Serial \<and> width = 1)) \<or>
    (\<exists>pending. w_place s = Waiting pending \<and> \<not> may_draw width s pending \<and> (\<exists>x \<in> set (w_window s). is_out (w_done s) x))"
proof -
  have "(\<exists>pending. w_place s = Waiting pending \<and> \<not> list_ex (\<lambda>n. n \<in> set (w_done s)) pending) \<or>
      (\<exists>f x. w_place s = Finishing f x \<and> is_out (w_done s) x)"
    using running none by (cases "w_place s") (auto simp: main_step_def has_ended_def split: if_splits)
  then show ?thesis
  proof (elim disjE exE conjE)
    fix pending assume p: "w_place s = Waiting pending" "\<not> list_ex (\<lambda>n. n \<in> set (w_done s)) pending"
    then obtain n where n: "n \<in> set pending" "n \<notin> set (w_done s)" using ok by (cases pending) (auto simp: bounds_ok_def)
    have "set pending \<subseteq> set (map fst (filter has_call (w_window s)))" using ok p by (simp add: bounds_ok_def seen_ok_def)
    then obtain x where "x \<in> set (w_window s)" "has_call x" "fst x = n" using n(1) by auto
    then have "\<exists>x \<in> set (w_window s). is_out (w_done s) x" using n(2) by (auto simp: is_out_def has_call_def)
    then show ?thesis using p ok by (auto simp: bounds_ok_def)
  next
    fix f x assume p: "w_place s = Finishing f x" "is_out (w_done s) x"
    then have "f = Drain \<or> f = Serial \<and> width = 1" using ok by (cases f) (simp_all add: bounds_ok_def)
    then show ?thesis using p by blast
  qed
qed

lemma blocked_out:
  assumes "bounds_ok width s" "\<not> has_ended s" "main_step width s = None"
  shows "\<exists>x \<in> set (unfinished s). is_out (w_done s) x"
  using blocked [OF assms] by (auto simp: unfinished_def)

definition win_moves :: "nat \<Rightarrow> ('r, 'v) win \<Rightarrow> ('r, 'v) win \<Rightarrow> bool" where
  "win_moves width s t \<longleftrightarrow> win_step width s t \<and> \<not> (\<exists>p. w_place t = Interrupted p)"

lemma main_not_interrupted: "main_step width s = Some t \<Longrightarrow> \<not> (\<exists>p. w_place t = Interrupted p)"
proof (cases "w_place s")
  case (Finishing f x)
  then show "main_step width s = Some t \<Longrightarrow> \<not> (\<exists>p. w_place t = Interrupted p)"
    by (cases f) (auto simp: main_step_def finish_taken_def raised_def Let_def split: if_splits prod.splits sum.splits)
qed (auto simp: main_step_def draw_next_def draw_inline_def take_first_def split: if_splits list.splits draw.splits)

lemma can_move:
  assumes "bounds_ok width s" "\<not> has_ended s"
  shows "\<exists>t. win_moves width s t"
proof (cases "main_step width s")
  case None
  then obtain x where x: "x \<in> set (unfinished s)" "is_out (w_done s) x" using blocked_out [OF assms] by blast
  have "win_moves width s (s\<lparr>w_done := fst x # w_done s\<rparr>)"
    using call_returns [OF assms(2) x] assms(2) by (auto simp: win_moves_def has_ended_def)
  then show ?thesis by blast
next
  case (Some t)
  then show ?thesis using main [OF Some] main_not_interrupted [OF Some] by (auto simp: win_moves_def)
qed

interpretation ends: ending_machine "\<lambda>s. 1 \<le> width \<and> s = opened width ds" "win_step width"
    "\<lambda>s. 1 \<le> width \<and> bounds_ok width s" still_to_do for ds width
proof (unfold_locales, goal_cases)
  case (1 s)
  then show ?case using bounded.start_keeps [of s width ds] by simp
next
  case (2 s t)
  then show ?case using bounds_step by blast
next
  case 3
  show ?case by (rule wf_still_to_do)
next
  case (4 s t)
  then show ?case using step_shrinks by blast
qed

lemma moves_to_the_end:
  assumes "win_reached width ds s" "1 \<le> width" "\<not> (\<exists>p. w_place s = Interrupted p)"
  shows "\<exists>t. (win_moves width)\<^sup>*\<^sup>* s t \<and> w_place t = Stopped"
proof -
  have "\<exists>t. (win_moves width)\<^sup>*\<^sup>* s t \<and> has_ended t \<and> \<not> (\<exists>p. w_place t = Interrupted p)"
    by (rule ends.comes_to_rest [where width = width])
      (use assms bounded.reached_keeps [OF assms(1)] can_move in \<open>auto simp: win_moves_def\<close>)
  moreover have "w_place t = Stopped" if "has_ended t" "\<not> (\<exists>p. w_place t = Interrupted p)" for t :: "('a, 'b) win"
    using that by (cases "w_place t") (auto simp: has_ended_def)
  ultimately show ?thesis by blast
qed

text \<open>
  C30. Every run of the window ends, whatever the jobs: no run goes on for ever; from every state it can be
  in, calls that return bring it to its end without an interrupt; and while it has not ended the main
  thread only ever waits for a call that is out: that of the job it finishes, in the loop that finishes
  what was drawn or at width 1, or one in the window, and only when it may send no further call (as many
  are out as the width, or as many jobs are held as may be, or none is left).
\<close>

theorem window_ends:
  assumes "1 \<le> width"
  shows "(\<nexists>run. run 0 = opened width ds \<and> (\<forall>i. win_step width (run i) (run (Suc i)))) \<and>
    (\<forall>s. win_reached width ds s \<longrightarrow> \<not> (\<exists>p. w_place s = Interrupted p) \<longrightarrow>
       (\<exists>t. (win_moves width)\<^sup>*\<^sup>* s t \<and> w_place t = Stopped)) \<and>
    (\<forall>s. win_reached width ds s \<longrightarrow> \<not> has_ended s \<longrightarrow> main_step width s = None \<longrightarrow>
       (\<exists>f x. w_place s = Finishing f x \<and> is_out (w_done s) x \<and> (f = Drain \<or> f = Serial \<and> width = 1)) \<or>
       (\<exists>pending. w_place s = Waiting pending \<and> \<not> may_draw width s pending \<and>
          (\<exists>x \<in> set (w_window s). is_out (w_done s) x)))"
proof (intro conjI allI impI)
  show "\<nexists>run. run 0 = opened width ds \<and> (\<forall>i. win_step width (run i) (run (Suc i)))"
  proof
    assume "\<exists>run. run 0 = opened width ds \<and> (\<forall>i. win_step width (run i) (run (Suc i)))"
    then obtain run where run: "run 0 = opened width ds" "\<forall>i. win_step width (run i) (run (Suc i))" by blast
    have "1 \<le> width \<and> bounds_ok width (run 0)" using assms bounded.start_keeps [OF run(1)] by simp
    then show False using ends.no_endless_run [where run = run] run(2) by blast
  qed
qed (use assms moves_to_the_end bounded.reached_keeps blocked in blast)+

theorem window_ends_witness:
  "(\<nexists>run. run 0 = opened 2 demo_jobs \<and> (\<forall>i. win_step 2 (run i) (run (Suc i)))) \<and>
   (\<exists>t. (win_moves 2)\<^sup>*\<^sup>* (opened 2 demo_jobs) t \<and> w_place t = Stopped)"
proof -
  have "(1 :: nat) \<le> 2" by simp
  from window_ends [OF this, of demo_jobs] show ?thesis using win_opened [of 2 demo_jobs] by (auto simp: opened_def)
qed

end
