(* ===== verification/HardFailure.thy ===== *)
theory HardFailure
  imports Outcomes
begin

text \<open>
  The run-level hard-failure cap, \<open>common/hard_failure.py\<close>: the policy it loads and the tally it
  recomputes from the sealed manifests. The table of the file and its seal are given as
  \<open>read_sealed_toml\<close> returns them. The run tree is what the tally asks of it: the artifacts of a
  stage's manifest and the reason in the payload of one of them, each of which may raise.
\<close>

definition STAGES :: "string list" where
  "STAGES = [''door'', ''exemplar'', ''ink-map'', ''designator'', ''attestatores'', ''perlector'', ''coniector'',
     ''recensor'', ''archetypus'', ''armarium'']"

definition HARD_FAILURE_THRESHOLD :: int where
  "HARD_FAILURE_THRESHOLD = 2"

definition MAX_HARD_FAILURE_KINDS :: nat where
  "MAX_HARD_FAILURE_KINDS = 128"

definition DOOR_REFUSAL_REASONS :: "string list" where
  "DOOR_REFUSAL_REASONS = [''empty'', ''unreadable'', ''too-large'', ''unrecognized-format'', ''corrupt'',
     ''unsupported-variant'', ''digest-mismatch'']"

section \<open>The policy\<close>

record failure_policy =
  fp_sha256 :: ustr
  fp_threshold :: int
  fp_kinds :: "(string \<times> string) list"
  fp_reason_kinds :: "(string \<times> string \<times> ustr) list"

text \<open>A text as the outcome algebra reads it; its tables hold no character past 255.\<close>

definition latin :: "ustr \<Rightarrow> string option" where
  "latin s = (if list_all (\<lambda>c. 0 \<le> c \<and> c < 256) s then Some (map (\<lambda>c. char_of (nat c)) s) else None)"

definition pyany_of :: "json \<Rightarrow> pyany" where
  "pyany_of v =
     (case v of JNull \<Rightarrow> PyNone | JStr s \<Rightarrow> (case latin s of Some t \<Rightarrow> PyStr t | None \<Rightarrow> PyOther) | _ \<Rightarrow> PyOther)"

definition known_stage :: "json \<Rightarrow> string option" where
  "known_stage v = find (\<lambda>stage. v = JStr (u stage)) STAGES"

text \<open>An outcome outside its stage's vocabulary is a mistake of the file here, not an imbalance of a run.\<close>

definition outcome_class_of :: "string \<Rightarrow> json \<Rightarrow> outcome_class result" where
  "outcome_class_of stage v =
     (case classify stage (pyany_of v) of
        Inl e \<Rightarrow> Inl (case e of FatalAccounting why \<Rightarrow> ContractError why | _ \<Rightarrow> e)
      | Inr k \<Rightarrow> Inr k)"

definition kind_reason :: "string \<Rightarrow> json option \<Rightarrow> ustr option result" where
  "kind_reason stage v =
     (case v of
        None \<Rightarrow> Inr None
      | Some (JStr reason) \<Rightarrow>
          if reason = [] then Inl (ContractError ''a reason that is not a non-empty string'')
          else if stage = ''door'' \<and> reason \<notin> set (map u DOOR_REFUSAL_REASONS)
          then Inl (ContractError ''not one of the Door's closed refusal reasons'')
          else Inr (Some reason)
      | _ \<Rightarrow> Inl (ContractError ''a reason that is not a non-empty string''))"

definition outcome_name :: "json \<Rightarrow> string result" where
  "outcome_name v = (case pyany_of v of PyStr out \<Rightarrow> Inr out | _ \<Rightarrow> Inl (ContractError ''in no terminal set''))"

text \<open>One \<open>[[kind]]\<close> entry: its stage, its outcome and the reason it is scoped to.\<close>

definition read_kind :: "json \<Rightarrow> (string \<times> string \<times> ustr option) result" where
  "read_kind entry =
     (case entry of
        JObj kvs \<Rightarrow>
          rbind (ensure (keys_are kvs [''stage'', ''outcome''] \<or> keys_are kvs [''stage'', ''outcome'', ''reason''])
            (ContractError ''must carry stage and outcome'')) (\<lambda>_.
          rbind (rget (KeyError ''stage'') (field kvs ''stage'')) (\<lambda>stage_given.
          rbind (rget (KeyError ''outcome'') (field kvs ''outcome'')) (\<lambda>outcome_given.
          rbind (rget (ContractError ''unknown stage'') (known_stage stage_given)) (\<lambda>stage.
          rbind (outcome_class_of stage outcome_given) (\<lambda>k.
          rbind (ensure (k = FAILED) (ContractError ''does not classify FAILED'')) (\<lambda>_.
          rbind (outcome_name outcome_given) (\<lambda>out.
          rbind (kind_reason stage (field kvs ''reason'')) (\<lambda>reason.
            Inr (stage, out, reason)))))))))
      | _ \<Rightarrow> Inl (ContractError ''must carry stage and outcome''))"

text \<open>The loop over the entries, with what it has seen; an entry named twice is refused.\<close>

fun read_kinds :: "(string \<times> string \<times> ustr option) list \<Rightarrow> json list \<Rightarrow> (string \<times> string \<times> ustr option) list result" where
  "read_kinds seen [] = Inr seen"
| "read_kinds seen (entry # entries) =
     rbind (read_kind entry) (\<lambda>identity.
       if identity \<in> set seen then Inl (ContractError ''more than once'') else read_kinds (seen @ [identity]) entries)"

definition bare_kinds :: "(string \<times> string \<times> ustr option) list \<Rightarrow> (string \<times> string) list" where
  "bare_kinds seen = concat (map (\<lambda>(stage, out, reason). case reason of None \<Rightarrow> [(stage, out)] | Some _ \<Rightarrow> []) seen)"

definition reason_kinds :: "(string \<times> string \<times> ustr option) list \<Rightarrow> (string \<times> string \<times> ustr) list" where
  "reason_kinds seen = concat (map (\<lambda>(stage, out, reason). case reason of None \<Rightarrow> [] | Some r \<Rightarrow> [(stage, out, r)]) seen)"

definition load_hard_failure_policy :: "(ustr \<times> json) list \<Rightarrow> ustr \<Rightarrow> failure_policy result" where
  "load_hard_failure_policy config digest =
     (case field config ''threshold'' of
        Some (JInt threshold) \<Rightarrow>
          if threshold < 0 then Inl (ContractError ''no non-negative integer threshold'')
          else if threshold \<noteq> HARD_FAILURE_THRESHOLD then Inl (ContractError ''it is fixed'')
          else (case field config ''kind'' of
            Some (JList entries) \<Rightarrow>
              if entries = [] then Inl (ContractError ''names no kind entries'')
              else if length entries > MAX_HARD_FAILURE_KINDS then Inl (ContractError ''above the bounded maximum'')
              else rbind (read_kinds [] entries) (\<lambda>seen.
                Inr \<lparr>fp_sha256 = digest, fp_threshold = threshold, fp_kinds = sorted_set (bare_kinds seen),
                  fp_reason_kinds = sorted_set (reason_kinds seen)\<rparr>)
          | _ \<Rightarrow> Inl (ContractError ''names no kind entries''))
      | _ \<Rightarrow> Inl (ContractError ''no non-negative integer threshold''))"

section \<open>The tally\<close>

record artifact =
  art_kind :: ustr
  art_id :: ustr
  art_subject :: ustr
  art_outcome :: ustr

record run_tree =
  tree_manifest :: "string \<Rightarrow> artifact list result"
  tree_reason :: "string \<Rightarrow> artifact \<Rightarrow> json option result"

definition reason_code :: "json option \<Rightarrow> ustr option" where
  "reason_code v =
     (case v of Some (JStr txt) \<Rightarrow> if 58 \<in> set txt then Some (takeWhile (\<lambda>c. c \<noteq> 58) txt) else None | _ \<Rightarrow> None)"

text \<open>A manifest given to the tally stands for the one the tree would build.\<close>

definition stage_artifacts :: "(string \<times> artifact list) list \<Rightarrow> run_tree \<Rightarrow> string \<Rightarrow> artifact list result" where
  "stage_artifacts manifests tree stage =
     (case map_of manifests stage of Some entries \<Rightarrow> Inr entries | None \<Rightarrow> tree_manifest tree stage)"

definition with_outcome :: "string \<Rightarrow> artifact list \<Rightarrow> artifact list" where
  "with_outcome out entries = filter (\<lambda>e. art_outcome e = u out) entries"

text \<open>The entries of an outcome whose reason opens with the code; a read that fails ends the tally.\<close>

fun with_reason :: "run_tree \<Rightarrow> string \<Rightarrow> ustr \<Rightarrow> artifact list \<Rightarrow> artifact list result" where
  "with_reason tree stage reason [] = Inr []"
| "with_reason tree stage reason (e # es) =
     rbind (tree_reason tree stage e) (\<lambda>v.
     rbind (with_reason tree stage reason es) (\<lambda>kept.
       Inr (if reason_code v = Some reason then e # kept else kept)))"

type_synonym tally_state = "(ustr \<times> ustr list) list \<times> (string \<times> ustr) list"

text \<open>\<open>record\<close>: the subjects of one kind, and the incidents of all kinds so far.\<close>

definition record_kind :: "ustr \<Rightarrow> string \<Rightarrow> artifact list \<Rightarrow> tally_state \<Rightarrow> tally_state" where
  "record_kind key stage entries s =
     (let matched = sorted_set (map art_subject entries) in
      (AList.update key matched (fst s), snd s @ map (Pair stage) matched))"

fun tally_kinds :: "(string \<Rightarrow> artifact list result) \<Rightarrow> (string \<times> string) list \<Rightarrow> tally_state \<Rightarrow> tally_state result" where
  "tally_kinds artifacts [] s = Inr s"
| "tally_kinds artifacts ((stage, out) # kinds) s =
     rbind (artifacts stage) (\<lambda>entries.
       tally_kinds artifacts kinds (record_kind (u stage @ [58] @ u out) stage (with_outcome out entries) s))"

fun tally_reasons ::
  "run_tree \<Rightarrow> (string \<Rightarrow> artifact list result) \<Rightarrow> (string \<times> string \<times> ustr) list \<Rightarrow> tally_state \<Rightarrow> tally_state result" where
  "tally_reasons tree artifacts [] s = Inr s"
| "tally_reasons tree artifacts ((stage, out, reason) # kinds) s =
     rbind (artifacts stage) (\<lambda>entries.
     rbind (with_reason tree stage reason (with_outcome out entries)) (\<lambda>kept.
       tally_reasons tree artifacts kinds (record_kind (u stage @ [58] @ u out @ [58] @ reason) stage kept s)))"

record tally =
  ta_threshold :: int
  ta_count :: int
  ta_breached :: bool
  ta_by_kind :: "(ustr \<times> ustr list) list"
  ta_subjects :: "ustr list"

definition tally_hard_failures ::
  "(string \<times> artifact list) list option \<Rightarrow> run_tree \<Rightarrow> failure_policy \<Rightarrow> bool \<Rightarrow> tally result" where
  "tally_hard_failures manifests tree p verify_inputs =
     (if manifests \<noteq> None \<and> verify_inputs then Inl (ContractError ''requires verify_inputs=False'')
      else
        let artifacts = stage_artifacts (case manifests of None \<Rightarrow> [] | Some ms \<Rightarrow> ms) tree in
        rbind (tally_kinds artifacts (sort (fp_kinds p)) ([], [])) (\<lambda>s.
        rbind (tally_reasons tree artifacts (sort (fp_reason_kinds p)) s) (\<lambda>(by_kind, found).
          let incidents = remdups found; count = int (length incidents) in
          Inr \<lparr>ta_threshold = fp_threshold p, ta_count = count, ta_breached = count > fp_threshold p,
            ta_by_kind = by_kind, ta_subjects = sort (map (\<lambda>(stage, x). u stage @ [58] @ x) incidents)\<rparr>)))"

end
