(* ===== verification/HardFailureFacts.thy ===== *)
theory HardFailureFacts
  imports HardFailure
begin

text \<open>
  What the hard-failure cap counts: the incidents of the kinds its policy names, each once, every kind
  a failure of its stage, and the run is breached from the third.
\<close>

section \<open>What is counted\<close>

text \<open>The artifacts of a stage with an outcome, and those of them whose reason opens with a code.\<close>

definition failing :: "(string \<Rightarrow> artifact list result) \<Rightarrow> string \<Rightarrow> string \<Rightarrow> artifact set" where
  "failing artifacts stage out =
     {e. \<exists>entries. artifacts stage = Inr entries \<and> e \<in> set entries \<and> art_outcome e = u out}"

definition with_code :: "run_tree \<Rightarrow> string \<Rightarrow> ustr \<Rightarrow> artifact set" where
  "with_code tree stage reason = {e. \<exists>v. tree_reason tree stage e = Inr v \<and> reason_code v = Some reason}"

definition failed_subjects :: "(string \<Rightarrow> artifact list result) \<Rightarrow> run_tree \<Rightarrow> failure_policy \<Rightarrow> (string \<times> ustr) set" where
  "failed_subjects artifacts tree p =
     (\<Union>(stage, out) \<in> set (fp_kinds p). Pair stage ` art_subject ` failing artifacts stage out) \<union>
     (\<Union>(stage, out, reason) \<in> set (fp_reason_kinds p).
        Pair stage ` art_subject ` (failing artifacts stage out \<inter> with_code tree stage reason))"

lemma record_kind_found:
  "set (snd (record_kind key stage entries s)) = set (snd s) \<union> Pair stage ` art_subject ` set entries"
  by (auto simp: record_kind_def Let_def)

lemma with_outcome_failing: "artifacts stage = Inr entries \<Longrightarrow> set (with_outcome out entries) = failing artifacts stage out"
  by (auto simp: with_outcome_def failing_def)

lemma tally_kinds_found:
  "tally_kinds artifacts kinds s = Inr t \<Longrightarrow>
     set (snd t) = set (snd s) \<union> (\<Union>(stage, out) \<in> set kinds. Pair stage ` art_subject ` failing artifacts stage out)"
proof (induction artifacts kinds s rule: tally_kinds.induct)
  case (2 artifacts stage out kinds s)
  then obtain entries where e: "artifacts stage = Inr entries"
    "tally_kinds artifacts kinds (record_kind (u stage @ [58] @ u out) stage (with_outcome out entries) s) = Inr t"
    by (auto simp: result_simps)
  from 2(1) [OF this] show ?case by (simp add: record_kind_found with_outcome_failing [of artifacts, OF e(1)] Un_assoc)
qed auto

lemma with_reason_filter:
  "with_reason tree stage reason es = Inr kept \<Longrightarrow> set kept = set es \<inter> with_code tree stage reason"
proof (induction es arbitrary: kept)
  case (Cons e es)
  then obtain v ks where "tree_reason tree stage e = Inr v" "with_reason tree stage reason es = Inr ks"
    "kept = (if reason_code v = Some reason then e # ks else ks)"
    by (auto simp: result_simps)
  then show ?case using Cons.IH [of ks] by (auto simp: with_code_def)
qed simp

lemma tally_reasons_found:
  "tally_reasons tree artifacts kinds s = Inr t \<Longrightarrow>
     set (snd t) = set (snd s) \<union> (\<Union>(stage, out, reason) \<in> set kinds.
        Pair stage ` art_subject ` (failing artifacts stage out \<inter> with_code tree stage reason))"
proof (induction tree artifacts kinds s rule: tally_reasons.induct)
  case (2 tree artifacts stage out reason kinds s)
  then obtain entries kept where e: "artifacts stage = Inr entries"
    "with_reason tree stage reason (with_outcome out entries) = Inr kept"
    "tally_reasons tree artifacts kinds (record_kind (u stage @ [58] @ u out @ [58] @ reason) stage kept s) = Inr t"
    by (auto simp: result_simps)
  have "set kept = failing artifacts stage out \<inter> with_code tree stage reason"
    using with_reason_filter [OF e(2)] with_outcome_failing [of artifacts, OF e(1)] by simp
  with 2(1) [OF e] show ?case by (simp add: record_kind_found Un_assoc)
qed auto

section \<open>The policy names failures\<close>

definition names_failure :: "string \<times> string \<times> ustr option \<Rightarrow> bool" where
  "names_failure identity \<longleftrightarrow>
     (case identity of (stage, out, reason) \<Rightarrow>
        stage \<in> set STAGES \<and> classify stage (PyStr out) = Inr FAILED \<and>
        (stage = ''door'' \<longrightarrow> (case reason of None \<Rightarrow> True | Some r \<Rightarrow> r \<in> set (map u DOOR_REFUSAL_REASONS))))"

lemma known_stage_listed: "known_stage v = Some stage \<Longrightarrow> stage \<in> set STAGES"
  by (auto simp: known_stage_def find_Some_iff)

lemma read_kind_names_failure:
  assumes "read_kind entry = Inr identity"
  shows "names_failure identity"
proof -
  obtain kvs where kvs: "entry = JObj kvs" using assms by (cases entry) (simp_all add: read_kind_def)
  obtain stage out v reason where i: "identity = (stage, out, reason)"
    and r: "outcome_class_of stage v = Inr FAILED" "outcome_name v = Inr out"
      "stage \<in> set STAGES" "kind_reason stage (field kvs ''reason'') = Inr reason"
    using assms known_stage_listed by (auto simp: kvs read_kind_def result_simps)
  have out: "pyany_of v = PyStr out" using r(2) by (simp add: outcome_name_def split: pyany.splits)
  have "classify stage (PyStr out) = Inr FAILED" using r(1) by (simp add: outcome_class_of_def out split: sum.splits)
  moreover have "stage = ''door'' \<Longrightarrow> case reason of None \<Rightarrow> True | Some r \<Rightarrow> r \<in> set (map u DOOR_REFUSAL_REASONS)"
    using r(4) by (auto simp: kind_reason_def simp del: set_map split: option.splits json.splits if_splits)
  ultimately show ?thesis using r(3) by (simp add: names_failure_def i del: set_map)
qed

lemma read_kinds_name_failures:
  "read_kinds seen entries = Inr found \<Longrightarrow> \<forall>k \<in> set seen. names_failure k \<Longrightarrow> distinct seen \<Longrightarrow>
     (\<forall>k \<in> set found. names_failure k) \<and> distinct found \<and> length found = length seen + length entries"
proof (induction entries arbitrary: seen)
  case (Cons entry entries)
  then obtain k where "read_kind entry = Inr k" "k \<notin> set seen" "read_kinds (seen @ [k]) entries = Inr found"
    by (auto simp: result_simps split: if_splits)
  then show ?case using Cons.IH [of "seen @ [k]"] Cons.prems read_kind_names_failure by auto
qed auto

lemma kinds_of_seen:
  "(stage, out) \<in> set (bare_kinds seen) \<longleftrightarrow> (stage, out, None) \<in> set seen"
  "(stage, out, r) \<in> set (reason_kinds seen) \<longleftrightarrow> (stage, out, Some r) \<in> set seen"
  by (force simp: bare_kinds_def reason_kinds_def split: option.splits)+

lemma loaded_policy:
  assumes "load_hard_failure_policy config digest = Inr p"
  shows "fp_threshold p = 2" "\<forall>(stage, out) \<in> set (fp_kinds p). classify stage (PyStr out) = Inr FAILED \<and> stage \<in> set STAGES"
    "\<forall>(stage, out, reason) \<in> set (fp_reason_kinds p). classify stage (PyStr out) = Inr FAILED \<and> stage \<in> set STAGES"
proof -
  obtain entries seen where "read_kinds [] entries = Inr seen" and p: "fp_threshold p = 2"
    "fp_kinds p = sorted_set (bare_kinds seen)" "fp_reason_kinds p = sorted_set (reason_kinds seen)"
    using assms
    by (auto simp: load_hard_failure_policy_def result_simps HARD_FAILURE_THRESHOLD_def split: option.splits json.splits if_splits)
  then have seen: "\<forall>k \<in> set seen. names_failure k" using read_kinds_name_failures by fastforce
  show "fp_threshold p = 2" by (rule p(1))
  show "\<forall>(stage, out) \<in> set (fp_kinds p). classify stage (PyStr out) = Inr FAILED \<and> stage \<in> set STAGES"
    using seen by (fastforce simp: p kinds_of_seen names_failure_def)
  show "\<forall>(stage, out, reason) \<in> set (fp_reason_kinds p). classify stage (PyStr out) = Inr FAILED \<and> stage \<in> set STAGES"
    using seen by (fastforce simp: p kinds_of_seen names_failure_def)
qed

section \<open>The cap\<close>

lemma stages_have_no_colon: "stage \<in> set STAGES \<Longrightarrow> 58 \<notin> set (u stage)"
proof -
  have "\<forall>stage \<in> set STAGES. 58 \<notin> set (u stage)" by code_simp
  then show "stage \<in> set STAGES \<Longrightarrow> 58 \<notin> set (u stage)" by blast
qed

lemma joined_inject:
  fixes xs ys :: "int list"
  shows "c \<notin> set xs \<Longrightarrow> c \<notin> set ys \<Longrightarrow> xs @ [c] @ vs = ys @ [c] @ ws \<Longrightarrow> xs = ys \<and> vs = ws"
proof (induction xs arbitrary: ys)
  case Nil
  then show ?case by (cases ys) auto
next
  case (Cons x xs)
  then show ?case by (cases ys) auto
qed

lemma tallied:
  assumes "tally_hard_failures manifests tree p verify_inputs = Inr t"
  shows "\<exists>s by_kind found. tally_kinds (stage_artifacts (case manifests of None \<Rightarrow> [] | Some ms \<Rightarrow> ms) tree) (sort (fp_kinds p)) ([], []) = Inr s \<and>
    tally_reasons tree (stage_artifacts (case manifests of None \<Rightarrow> [] | Some ms \<Rightarrow> ms) tree) (sort (fp_reason_kinds p)) s = Inr (by_kind, found) \<and>
    ta_count t = int (length (remdups found)) \<and> ta_breached t = (ta_count t > fp_threshold p) \<and>
    ta_subjects t = sort (map (\<lambda>(stage, x). u stage @ [58] @ x) (remdups found))"
  using assms unfolding tally_hard_failures_def Let_def
  by (cases "manifests \<noteq> None \<and> verify_inputs") (auto simp: rbind_Inr_iff simp del: append.simps split: prod.splits)

text \<open>
  C33. Under a policy that loads, the tally counts the run's incidents and nothing else: a stage and a
  subject of it that has an artifact of a configured failing outcome, or of one scoped to a reason its
  payload opens with, each once however often it was tried; every configured outcome is a failure of its
  stage, so no hold and no acceptance counts; each incident is listed once; and the run is breached
  exactly from the third.
\<close>

theorem hard_failures_counted_once:
  assumes "load_hard_failure_policy config digest = Inr p"
    and "tally_hard_failures manifests tree p verify_inputs = Inr t"
  defines "artifacts \<equiv> stage_artifacts (case manifests of None \<Rightarrow> [] | Some ms \<Rightarrow> ms) tree"
  shows "ta_count t = int (card (failed_subjects artifacts tree p)) \<and>
    set (ta_subjects t) = (\<lambda>(stage, x). u stage @ [58] @ x) ` failed_subjects artifacts tree p \<and>
    distinct (ta_subjects t) \<and> int (length (ta_subjects t)) = ta_count t \<and>
    (ta_breached t \<longleftrightarrow> 3 \<le> ta_count t) \<and>
    (\<forall>(stage, out) \<in> set (fp_kinds p) \<union> (\<lambda>(stage, out, _). (stage, out)) ` set (fp_reason_kinds p).
       classify stage (PyStr out) = Inr FAILED)"
proof -
  note p = loaded_policy [OF assms(1)]
  obtain s by_kind found where s: "tally_kinds artifacts (sort (fp_kinds p)) ([], []) = Inr s"
    "tally_reasons tree artifacts (sort (fp_reason_kinds p)) s = Inr (by_kind, found)"
    and t: "ta_count t = int (length (remdups found))" "ta_breached t = (ta_count t > fp_threshold p)"
      "ta_subjects t = sort (map (\<lambda>(stage, x). u stage @ [58] @ x) (remdups found))"
    using tallied [OF assms(2)] unfolding artifacts_def by blast
  have found: "set found = failed_subjects artifacts tree p"
    using tally_kinds_found [OF s(1)] tally_reasons_found [OF s(2)] by (simp add: failed_subjects_def)
  have stages: "stage \<in> set STAGES" if "(stage, x) \<in> set found" for stage x
    using that p(2,3) unfolding found failed_subjects_def by auto
  have "inj_on (\<lambda>(stage, x). u stage @ [58] @ x) (set found)"
  proof (rule inj_onI, clarify)
    fix a x b y assume m: "(a, x) \<in> set found" "(b, y) \<in> set found" and eq: "u a @ [58] @ x = u b @ [58] @ y"
    have "u a = u b \<and> x = y"
      by (rule joined_inject [OF _ _ eq]) (use m stages stages_have_no_colon in blast)+
    then show "a = b \<and> x = y" by simp
  qed
  then have "distinct (ta_subjects t)" by (simp add: t(3) distinct_map)
  moreover have "ta_count t = int (card (failed_subjects artifacts tree p))" by (simp add: t(1) length_remdups_card_conv found)
  moreover have "set (ta_subjects t) = (\<lambda>(stage, x). u stage @ [58] @ x) ` failed_subjects artifacts tree p"
    by (simp add: t(3) found)
  moreover have "ta_breached t \<longleftrightarrow> 3 \<le> ta_count t" using t(2) p(1) by auto
  moreover have "int (length (ta_subjects t)) = ta_count t" by (simp add: t(1,3))
  moreover have "\<forall>(stage, out) \<in> set (fp_kinds p) \<union> (\<lambda>(stage, out, _). (stage, out)) ` set (fp_reason_kinds p).
       classify stage (PyStr out) = Inr FAILED" using p(2,3) by auto
  ultimately show ?thesis by blast
qed

section \<open>A policy on a run\<close>

definition kind_entry :: "string \<Rightarrow> string \<Rightarrow> string option \<Rightarrow> json" where
  "kind_entry stage out reason = JObj ([(u ''stage'', JStr (u stage)), (u ''outcome'', JStr (u out))] @
     (case reason of None \<Rightarrow> [] | Some r \<Rightarrow> [(u ''reason'', JStr (u r))]))"

definition sealed_cap :: "(ustr \<times> json) list" where
  "sealed_cap = [(u ''threshold'', JInt 2), (u ''kind'', JList [kind_entry ''perlector'' ''failed'' None,
     kind_entry ''door'' ''refused'' (Some ''corrupt'')])]"

definition demo_artifact :: "string \<Rightarrow> string \<Rightarrow> artifact" where
  "demo_artifact x out = \<lparr>art_kind = u ''page-reading'', art_id = u x, art_subject = u x, art_outcome = u out\<rparr>"

definition demo_tree :: run_tree where
  "demo_tree = \<lparr>tree_manifest = (\<lambda>stage.
       if stage = ''perlector'' then Inr [demo_artifact ''p1'' ''failed'', demo_artifact ''p1'' ''failed'', demo_artifact ''p2'' ''failed'']
       else if stage = ''door'' then Inr [demo_artifact ''d1'' ''refused'', demo_artifact ''d2'' ''refused''] else Inr []),
     tree_reason = (\<lambda>_ e. Inr (Some (JStr (u (if art_id e = u ''d1'' then ''corrupt: bytes'' else ''empty: bytes'')))))\<rparr>"

definition demo_policy :: failure_policy where
  "demo_policy = \<lparr>fp_sha256 = [], fp_threshold = 2,
     fp_kinds = [(''perlector'', ''failed'')], fp_reason_kinds = [(''door'', ''refused'', u ''corrupt'')]\<rparr>"

definition demo_tally :: tally where
  "demo_tally = \<lparr>ta_threshold = 2, ta_count = 3, ta_breached = True,
     ta_by_kind = [(u ''perlector:failed'', [u ''p1'', u ''p2'']), (u ''door:refused:corrupt'', [u ''d1''])],
     ta_subjects = [u ''door:d1'', u ''perlector:p1'', u ''perlector:p2'']\<rparr>"

theorem hard_failures_counted_once_witness:
  "ta_count demo_tally = 3 \<and> ta_breached demo_tally \<and>
   card (failed_subjects (stage_artifacts [] demo_tree) demo_tree demo_policy) = 3"
proof -
  have loads: "load_hard_failure_policy sealed_cap [] = Inr demo_policy" by code_simp
  have tallies: "tally_hard_failures None demo_tree demo_policy True = Inr demo_tally" by code_simp
  have "ta_count demo_tally = 3" "ta_breached demo_tally" by (simp_all add: demo_tally_def)
  then show ?thesis using hard_failures_counted_once [OF loads tallies] by simp
qed

end
