(* ===== verification/Lease.thy ===== *)
theory Lease
  imports Machines
begin

text \<open>
  The pod lease of \<open>operations/pod/lease.py\<close>: what a lease must be, and the operations of its store as
  functions of the stored lease, each atomic under the store's lock. An instant is an integer, a rate
  the coefficient and exponent of its decimal; the recovery intent is opaque here, a type parameter.
  A controller receipt is given read: its stamps as instants, its keys and its values the fields of a
  record. The bytes of the file, its seal and the reading of its stamps are left out: what is loaded is
  what was stored.
\<close>

section \<open>A lease\<close>

datatype phase = PendingCreate | Active | CloseUnverified | ClosedVerified

datatype lease_error = LeaseOwnershipError string | LeaseValueError string

record receipt =
  rc_supervisor_started :: bool
  rc_timer_acknowledged :: bool
  rc_observed_at :: int
  rc_detail :: ustr
  rc_lease_id :: ustr
  rc_pod_id :: ustr
  rc_hard_deadline :: int
  rc_supervisor_identity :: ustr
  rc_supervisor_started_at :: int
  rc_timer_report_path :: ustr
  rc_timer_acknowledged_at :: int

type_synonym rate = "int \<times> int"
type_synonym evidence = "(ustr \<times> json) list"

record 'i lease =
  lease_id :: ustr
  launch_token :: ustr
  provider_name :: ustr
  pod_id :: "ustr option"
  volume_id :: ustr
  pod_hourly_usd :: rate
  volume_hourly_usd :: rate
  created_at :: int
  started_at :: "int option"
  hard_deadline :: int
  owner_token :: ustr
  heartbeat_at :: int
  generation :: int
  lease_phase :: phase
  close_record :: "evidence option"
  pending_create :: "'i option"
  controller_record :: "receipt option"
  pending_recovery_attempts :: int

definition require :: "bool \<Rightarrow> string \<Rightarrow> lease_error + unit" where
  "require b why = ensure b (LeaseValueError why)"

definition random_hex :: "ustr \<Rightarrow> bool" where
  "random_hex s \<longleftrightarrow> length s = 32 \<and> list_all (\<lambda>c. c \<in> set (u ''0123456789abcdef'')) s"

text \<open>\<open>dict.get\<close>: an absent key reads as \<open>None\<close>.\<close>

definition got :: "evidence \<Rightarrow> string \<Rightarrow> json" where
  "got kvs f = (case field kvs f of None \<Rightarrow> JNull | Some v \<Rightarrow> v)"

definition verified_close :: "evidence \<Rightarrow> bool" where
  "verified_close closing \<longleftrightarrow>
     (case got closing ''cost_capture'' of
        JObj capture \<Rightarrow>
          got closing ''state'' = JStr (u ''verified'') \<and> got closing ''pod_get_absent'' = JBool True \<and>
          got closing ''pod_list_absent'' = JBool True \<and> got capture ''state'' = JStr (u ''captured'') \<and>
          (case got capture ''lines'' of JList lines \<Rightarrow> lines \<noteq> [] | _ \<Rightarrow> False) \<and>
          got capture ''cutoff_at'' = got closing ''cutoff_at'' \<and> got closing ''manual_action'' = JNull
      | _ \<Rightarrow> False)"

definition validate_close_record ::
  "evidence option \<Rightarrow> ustr option \<Rightarrow> bool \<Rightarrow> bool \<Rightarrow> lease_error + unit" where
  "validate_close_record given pod verified bind_pod =
     (case given of
        None \<Rightarrow> Inl (LeaseValueError ''must carry a close record'')
      | Some closing \<Rightarrow>
          rbind (case pod of
              None \<Rightarrow> require (\<not> (bind_pod \<and> verified)) ''must name the exact pod it observed absent''
            | Some p \<Rightarrow> require (got closing ''pod_id'' = JStr p) ''not bound to this exact pod'') (\<lambda>_.
          if verified then require (verified_close closing) ''requires complete verified close evidence''
          else require (got closing ''state'' \<noteq> JStr (u ''verified'')) ''cannot carry verified close evidence''))"

definition validate_controller_record ::
  "receipt \<Rightarrow> ustr \<Rightarrow> ustr option \<Rightarrow> int \<Rightarrow> int \<Rightarrow> lease_error + unit" where
  "validate_controller_record r lid pod created deadline =
     rbind (require (rc_supervisor_started r \<and> rc_timer_acknowledged r) ''must prove both'') (\<lambda>_.
     rbind (require (\<not> blank (rc_detail r)) ''detail must be non-blank'') (\<lambda>_.
     rbind (require (pod \<noteq> None) ''cannot prove a pod before exact pod binding'') (\<lambda>_.
     rbind (require (rc_lease_id r = lid \<and> Some (rc_pod_id r) = pod) ''not bound to this exact lease and pod'') (\<lambda>_.
     rbind (require (rc_hard_deadline r = deadline) ''not bound to this immutable hard deadline'') (\<lambda>_.
     rbind (require (\<not> blank (rc_supervisor_identity r)) ''identity must be non-blank'') (\<lambda>_.
     rbind (require (take 1 (rc_timer_report_path r) = [47]) ''report path must be absolute'') (\<lambda>_.
     rbind (require (list_all (\<lambda>t. created \<le> t \<and> t \<le> deadline)
         [rc_observed_at r, rc_supervisor_started_at r, rc_timer_acknowledged_at r]) ''outside this lease's lifetime'') (\<lambda>_.
       require (rc_supervisor_started_at r \<le> rc_observed_at r \<and> rc_timer_acknowledged_at r \<le> rc_observed_at r)
         ''cannot occur after its receipt''))))))))"

text \<open>\<open>__post_init__\<close>, which a construction and every \<open>replace\<close> runs.\<close>

definition checked_lease :: "'i lease \<Rightarrow> lease_error + 'i lease" where
  "checked_lease l =
     rbind (require (list_all (\<lambda>s. \<not> blank s)
       [lease_id l, launch_token l, provider_name l, volume_id l, owner_token l]) ''must be non-blank'') (\<lambda>_.
     rbind (require (random_hex (lease_id l)) ''lease_id must be 32 lowercase random hexadecimal characters'') (\<lambda>_.
     rbind (require (random_hex (launch_token l)) ''launch_token must be 32 lowercase random hexadecimal characters'') (\<lambda>_.
     rbind (require (case pod_id l of None \<Rightarrow> True | Some p \<Rightarrow> \<not> blank p) ''pod_id must be non-blank'') (\<lambda>_.
     rbind (require (0 \<le> fst (pod_hourly_usd l) \<and> 0 \<le> fst (volume_hourly_usd l)) ''must be finite and non-negative'') (\<lambda>_.
     rbind (require (\<not> hard_deadline l \<le> created_at l) ''hard deadline must be after creation'') (\<lambda>_.
     rbind (require (\<not> generation l < 1) ''generation must be positive'') (\<lambda>_.
     rbind (require (\<not> pending_recovery_attempts l < 0) ''must be a non-negative integer'') (\<lambda>_.
     rbind (require (\<not> (lease_phase l = PendingCreate \<and> pending_create l = None)) ''must retain its recovery intent'') (\<lambda>_.
     rbind (require (\<not> (lease_phase l = Active \<and> pod_id l = None)) ''must name an exact pod id'') (\<lambda>_.
     rbind (case controller_record l of None \<Rightarrow> Inr ()
       | Some r \<Rightarrow> validate_controller_record r (lease_id l) (pod_id l) (created_at l) (hard_deadline l)) (\<lambda>_.
     rbind (if lease_phase l \<in> {CloseUnverified, ClosedVerified}
       then validate_close_record (close_record l) (pod_id l) (lease_phase l = ClosedVerified) True
       else require (close_record l = None) ''cannot carry a close record'') (\<lambda>_.
       Inr l))))))))))))"

definition is_active :: "'i lease \<Rightarrow> bool" where
  "is_active l \<longleftrightarrow> lease_phase l \<in> {PendingCreate, Active}"

section \<open>The store\<close>

type_synonym 'i store = "'i lease option"

definition require_owner :: "'i store \<Rightarrow> ustr \<Rightarrow> lease_error + 'i lease" where
  "require_owner s owner =
     (case s of
        None \<Rightarrow> Inl (LeaseOwnershipError ''lease does not exist'')
      | Some l \<Rightarrow> if owner_token l \<noteq> owner then Inl (LeaseOwnershipError ''belongs to a different controller'') else Inr l)"

definition create :: "'i lease \<Rightarrow> 'i store \<Rightarrow> lease_error + 'i lease" where
  "create l s = (case s of None \<Rightarrow> Inr l | Some _ \<Rightarrow> Inl (LeaseOwnershipError ''lease already exists''))"

text \<open>What the provider returned: the pod, when it was created and its estimated rates.\<close>

record pod_record =
  pr_pod_id :: ustr
  pr_created_at :: int
  pr_pod_rate :: rate
  pr_volume_rate :: rate

definition bind_pod :: "ustr \<Rightarrow> pod_record \<Rightarrow> int \<Rightarrow> 'i store \<Rightarrow> lease_error + 'i lease" where
  "bind_pod owner r now s =
     rbind (require_owner s owner) (\<lambda>l.
     rbind (ensure (lease_phase l = PendingCreate) (LeaseOwnershipError ''cannot bind pod'')) (\<lambda>_.
       checked_lease (l\<lparr>pod_id := Some (pr_pod_id r), started_at := Some (pr_created_at r), pod_hourly_usd := pr_pod_rate r,
         volume_hourly_usd := pr_volume_rate r, heartbeat_at := now, lease_phase := Active, pending_create := None\<rparr>)))"

definition record_controller_arming :: "ustr \<Rightarrow> receipt \<Rightarrow> int \<Rightarrow> 'i store \<Rightarrow> lease_error + 'i lease" where
  "record_controller_arming owner r now s =
     rbind (require_owner s owner) (\<lambda>l.
     rbind (ensure (\<not> (lease_phase l \<noteq> Active \<or> pod_id l = None)) (LeaseOwnershipError ''cannot arm controllers'')) (\<lambda>_.
       checked_lease (l\<lparr>heartbeat_at := now, controller_record := Some r\<rparr>)))"

definition note_pending_recovery_attempt :: "ustr \<Rightarrow> int \<Rightarrow> 'i store \<Rightarrow> lease_error + 'i lease" where
  "note_pending_recovery_attempt owner now s =
     rbind (require_owner s owner) (\<lambda>l.
     rbind (ensure (\<not> (lease_phase l \<noteq> PendingCreate \<or> pending_create l = None))
       (LeaseOwnershipError ''only a pending-create lease can record recovery attempts'')) (\<lambda>_.
       checked_lease (l\<lparr>heartbeat_at := now, pending_recovery_attempts := pending_recovery_attempts l + 1\<rparr>)))"

definition heartbeat :: "ustr \<Rightarrow> int \<Rightarrow> 'i store \<Rightarrow> lease_error + 'i lease" where
  "heartbeat owner now s =
     rbind (require_owner s owner) (\<lambda>l.
     rbind (ensure (is_active l) (LeaseOwnershipError ''cannot heartbeat non-active lease'')) (\<lambda>_.
       checked_lease (l\<lparr>heartbeat_at := now\<rparr>)))"

definition claim_if_orphan :: "ustr \<Rightarrow> int \<Rightarrow> int \<Rightarrow> 'i store \<Rightarrow> lease_error + 'i lease" where
  "claim_if_orphan owner now stale_after s =
     (if stale_after \<le> 0 then Inl (LeaseValueError ''stale_after must be positive'')
      else case s of
        None \<Rightarrow> Inl (LeaseOwnershipError ''no lease exists to reconcile'')
      | Some l \<Rightarrow>
          if \<not> is_active l then Inr l
          else if owner_token l \<noteq> owner \<and> now - heartbeat_at l < stale_after
          then Inl (LeaseOwnershipError ''owner heartbeat is still fresh'')
          else checked_lease (l\<lparr>owner_token := owner, heartbeat_at := now,
            generation := generation l + (if owner_token l \<noteq> owner then 1 else 0)\<rparr>))"

definition close_record_pod_id :: "evidence \<Rightarrow> ustr option" where
  "close_record_pod_id closing = (case got closing ''pod_id'' of JStr s \<Rightarrow> if s \<noteq> [] then Some s else None | _ \<Rightarrow> None)"

definition record_close :: "ustr \<Rightarrow> evidence \<Rightarrow> bool \<Rightarrow> int \<Rightarrow> 'i store \<Rightarrow> lease_error + 'i lease" where
  "record_close owner closing verified now s =
     rbind (validate_close_record (Some closing) None verified False) (\<lambda>_.
     rbind (require_owner s owner) (\<lambda>l.
     rbind (ensure (lease_phase l \<noteq> ClosedVerified) (LeaseOwnershipError ''already carries a verified close record'')) (\<lambda>_.
     let pod = (case pod_id l of None \<Rightarrow> close_record_pod_id closing
       | Some p \<Rightarrow> if p = [] then close_record_pod_id closing else Some p) in
     rbind (validate_close_record (Some closing) pod verified True) (\<lambda>_.
       checked_lease (l\<lparr>pod_id := pod, heartbeat_at := now,
         lease_phase := if verified then ClosedVerified else CloseUnverified,
         close_record := Some closing, pending_create := None\<rparr>)))))"

section \<open>Controllers\<close>

text \<open>
  A request of some controller. What a controller creates was constructed, so it was checked. A
  request that is refused leaves the stored lease as it was.
\<close>

datatype 'i request =
    Create "'i lease"
  | Bind ustr pod_record int
  | Arm ustr receipt int
  | NoteRecovery ustr int
  | Heartbeat ustr int
  | Claim ustr int int
  | Close ustr evidence bool int

fun answered :: "'i request \<Rightarrow> 'i store \<Rightarrow> lease_error + 'i lease" where
  "answered (Create l) s = rbind (checked_lease l) (\<lambda>l. create l s)"
| "answered (Bind owner r now) s = bind_pod owner r now s"
| "answered (Arm owner r now) s = record_controller_arming owner r now s"
| "answered (NoteRecovery owner now) s = note_pending_recovery_attempt owner now s"
| "answered (Heartbeat owner now) s = heartbeat owner now s"
| "answered (Claim owner now stale) s = claim_if_orphan owner now stale s"
| "answered (Close owner closing verified now) s = record_close owner closing verified now s"

inductive lease_step :: "'i store \<Rightarrow> 'i store \<Rightarrow> bool" where
  request_step: "answered r s = Inr l \<Longrightarrow> lease_step s (Some l)"

abbreviation lease_reached :: "'i store \<Rightarrow> bool" where
  "lease_reached \<equiv> reached (\<lambda>s. s = None) lease_step"

inductive_simps lease_step_simps: "lease_step s t"

end
