(* ===== verification/LeaseFacts.thy ===== *)
theory LeaseFacts
  imports Lease
begin

text \<open>
  What the pod lease promises: a stored lease is always one its constructor accepts, its terms never
  change, its phase never goes back, a verified close is final, and a lease changes hands only when its
  owner has been silent.
\<close>

section \<open>Checked leases\<close>

lemma require_Inr [result_simps]: "require b why = Inr x \<longleftrightarrow> b"
  by (simp add: require_def ensure_Inr_iff)

lemma checked_lease_same: "checked_lease l = Inr m \<Longrightarrow> m = l"
  by (simp add: checked_lease_def rbind_Inr_iff)

definition valid_lease :: "'i lease \<Rightarrow> bool" where
  "valid_lease l \<longleftrightarrow> checked_lease l = Inr l"

lemma valid_checked: "checked_lease l = Inr m \<Longrightarrow> valid_lease m"
  using checked_lease_same [of l m] by (simp add: valid_lease_def)

lemma valid_close:
  assumes "valid_lease l" "lease_phase l = ClosedVerified"
  shows "\<exists>p v. pod_id l = Some p \<and> close_record l = Some v \<and> got v ''pod_id'' = JStr p \<and> verified_close v"
proof -
  have "validate_close_record (close_record l) (pod_id l) True True = Inr ()"
    using assms unfolding valid_lease_def checked_lease_def by (simp add: rbind_Inr_iff)
  then show ?thesis by (auto simp: validate_close_record_def result_simps split: option.splits)
qed

lemma valid_active: "valid_lease l \<Longrightarrow> lease_phase l = Active \<Longrightarrow> \<exists>p. pod_id l = Some p"
  unfolding valid_lease_def checked_lease_def by (auto simp: rbind_Inr_iff require_Inr)

lemma valid_pod: "valid_lease l \<Longrightarrow> pod_id l = Some p \<Longrightarrow> p \<noteq> []"
  unfolding valid_lease_def checked_lease_def by (auto simp: rbind_Inr_iff require_Inr blank_def)

section \<open>What a request may change\<close>

text \<open>The phases, in the order a lease passes them.\<close>

definition phase_rank :: "phase \<Rightarrow> nat" where
  "phase_rank p = (case p of PendingCreate \<Rightarrow> 0 | Active \<Rightarrow> 1 | CloseUnverified \<Rightarrow> 2 | ClosedVerified \<Rightarrow> 3)"

instantiation phase :: linorder
begin

definition less_eq_phase :: "phase \<Rightarrow> phase \<Rightarrow> bool" where
  "less_eq_phase p q \<longleftrightarrow> phase_rank p \<le> phase_rank q"

definition less_phase :: "phase \<Rightarrow> phase \<Rightarrow> bool" where
  "less_phase p q \<longleftrightarrow> phase_rank p < phase_rank q"

instance
proof
  fix p q :: phase
  show "p \<le> q \<Longrightarrow> q \<le> p \<Longrightarrow> p = q"
    by (cases p; cases q) (simp_all add: less_eq_phase_def phase_rank_def)
qed (auto simp: less_eq_phase_def less_phase_def)

end

lemmas phase_order = less_eq_phase_def phase_rank_def

text \<open>The terms of a lease, and what may only grow.\<close>

definition follows :: "'i lease \<Rightarrow> 'i lease \<Rightarrow> bool" where
  "follows l m \<longleftrightarrow>
     lease_id m = lease_id l \<and> launch_token m = launch_token l \<and> provider_name m = provider_name l \<and>
     volume_id m = volume_id l \<and> created_at m = created_at l \<and> hard_deadline m = hard_deadline l \<and>
     (\<forall>p. pod_id l = Some p \<longrightarrow> lease_phase l \<noteq> PendingCreate \<longrightarrow> pod_id m = Some p) \<and>
     lease_phase l \<le> lease_phase m \<and>
     generation l \<le> generation m \<and> (generation m = generation l \<longrightarrow> owner_token m = owner_token l) \<and>
     pending_recovery_attempts l \<le> pending_recovery_attempts m \<and>
     (lease_phase l = ClosedVerified \<longrightarrow> m = l)"

lemma follows_refl: "follows l l"
  by (simp add: follows_def)

lemma follows_trans:
  assumes "follows l m" "follows m n"
  shows "follows l n"
proof -
  have "lease_phase m = PendingCreate \<Longrightarrow> lease_phase l = PendingCreate"
    using assms(1) by (auto simp: follows_def phase_order split: phase.splits)
  then show ?thesis using assms by (auto simp: follows_def)
qed

text \<open>The controller a request speaks for.\<close>

fun requester :: "'i request \<Rightarrow> ustr" where
  "requester (Create l) = owner_token l"
| "requester (Bind owner r now) = owner"
| "requester (Arm owner r now) = owner"
| "requester (NoteRecovery owner now) = owner"
| "requester (Heartbeat owner now) = owner"
| "requester (Claim owner now stale) = owner"
| "requester (Close owner closing verified now) = owner"

definition took_over :: "'i request \<Rightarrow> 'i lease \<Rightarrow> 'i lease \<Rightarrow> bool" where
  "took_over r l m \<longleftrightarrow>
     (\<exists>owner now stale. r = Claim owner now stale \<and> 0 < stale \<and> stale \<le> now - heartbeat_at l \<and> is_active l \<and>
        owner_token m = owner \<and> generation m = generation l + 1)"

lemma answered_changes:
  assumes "valid_lease l" "answered r (Some l) = Inr m"
  shows "valid_lease m \<and> follows l m \<and> (m = l \<or> requester r = owner_token l \<or> took_over r l m)"
proof (cases r)
  case (Create n)
  then show ?thesis using assms(2) by (simp add: rbind_Inr_iff create_def)
next
  case (Bind owner p now)
  then show ?thesis using assms(2) valid_checked checked_lease_same
    by (fastforce simp: bind_pod_def require_owner_def rbind_Inr_iff ensure_Inr_iff follows_def phase_order split: if_splits)
next
  case (Arm owner p now)
  then show ?thesis using assms(2) valid_checked checked_lease_same
    by (fastforce simp: record_controller_arming_def require_owner_def rbind_Inr_iff ensure_Inr_iff follows_def phase_order split: if_splits)
next
  case (NoteRecovery owner now)
  then show ?thesis using assms(2) valid_checked checked_lease_same
    by (fastforce simp: note_pending_recovery_attempt_def require_owner_def rbind_Inr_iff ensure_Inr_iff follows_def phase_order split: if_splits)
next
  case (Heartbeat owner now)
  then show ?thesis using assms(2) valid_checked checked_lease_same
    by (fastforce simp: heartbeat_def require_owner_def rbind_Inr_iff ensure_Inr_iff follows_def phase_order is_active_def split: if_splits)
next
  case (Claim owner now stale)
  show ?thesis
  proof (cases "is_active l")
    case True
    then have m: "m = l\<lparr>owner_token := owner, heartbeat_at := now, generation := generation l + (if owner_token l \<noteq> owner then 1 else 0)\<rparr>"
      "valid_lease m" "0 < stale" "owner_token l \<noteq> owner \<longrightarrow> stale \<le> now - heartbeat_at l"
      using assms(2) Claim valid_checked checked_lease_same
      by (auto simp: claim_if_orphan_def split: if_splits)
    then have "follows l m" using True by (auto simp: follows_def is_active_def)
    moreover have "owner_token l = owner \<or> took_over r l m" using m True Claim by (auto simp: took_over_def is_active_def)
    ultimately show ?thesis using m(2) Claim by auto
  next
    case False
    then show ?thesis using assms Claim follows_refl by (auto simp: claim_if_orphan_def split: if_splits)
  qed
next
  case (Close owner closing verified now)
  let ?pod = "case pod_id l of None \<Rightarrow> close_record_pod_id closing | Some p \<Rightarrow> if p = [] then close_record_pod_id closing else Some p"
  have owned: "owner_token l = owner" and m: "m = l\<lparr>pod_id := ?pod, heartbeat_at := now,
      lease_phase := if verified then ClosedVerified else CloseUnverified, close_record := Some closing, pending_create := None\<rparr>"
    "valid_lease m" "lease_phase l \<noteq> ClosedVerified"
    using assms(2) Close valid_checked checked_lease_same
    by (auto simp: record_close_def require_owner_def rbind_Inr_iff ensure_Inr_iff Let_def split: if_splits)
  have "\<forall>p. pod_id l = Some p \<longrightarrow> ?pod = Some p" using valid_pod [OF assms(1)] by auto
  then have "follows l m" using m by (cases "lease_phase l") (auto simp: follows_def phase_order)
  then show ?thesis using m(2) owned Close by simp
qed

lemma step_from_lease:
  assumes "lease_step (Some l) t" "valid_lease l"
  shows "\<exists>m. t = Some m \<and> valid_lease m \<and> follows l m"
  using assms answered_changes by (auto simp: lease_step_simps)

lemma step_from_nothing:
  assumes "lease_step None t"
  shows "\<exists>l. t = Some l \<and> valid_lease l"
proof -
  obtain r l where r: "answered r None = Inr l" "t = Some l" using assms by (auto simp: lease_step_simps)
  show ?thesis
  proof (cases r)
    case (Create n)
    then show ?thesis using r valid_checked checked_lease_same by (fastforce simp: rbind_Inr_iff create_def)
  qed (use r in \<open>auto simp: bind_pod_def record_controller_arming_def note_pending_recovery_attempt_def heartbeat_def
      claim_if_orphan_def record_close_def require_owner_def rbind_Inr_iff split: if_splits\<close>)
qed

text \<open>A store holds nothing or a valid lease, and a lease is followed only by one that follows it.\<close>

definition holds_valid :: "'i store \<Rightarrow> bool" where
  "holds_valid s \<longleftrightarrow> (case s of None \<Rightarrow> True | Some l \<Rightarrow> valid_lease l)"

definition store_below :: "'i store \<Rightarrow> 'i store \<Rightarrow> bool" where
  "store_below s t \<longleftrightarrow> (case s of None \<Rightarrow> True | Some l \<Rightarrow> (case t of None \<Rightarrow> False | Some m \<Rightarrow> follows l m))"

interpretation lease_store: ordered_machine "\<lambda>s. s = None" lease_step holds_valid store_below
proof (unfold_locales, goal_cases)
  case (1 s)
  then show ?case by (simp add: holds_valid_def)
next
  case (2 s t)
  then show ?case using step_from_nothing step_from_lease by (cases s) (fastforce simp: holds_valid_def)+
next
  case (3 s)
  show ?case by (simp add: store_below_def follows_refl split: option.split)
next
  case (4 s t v)
  then show ?case using follows_trans by (auto simp: store_below_def split: option.splits)
next
  case (5 s t)
  then show ?case using step_from_lease by (cases s) (fastforce simp: holds_valid_def store_below_def)+
qed

lemma lease_reached_nothing: "lease_reached None"
  by (rule reached.begins) simp

lemma lease_reached_valid: "lease_reached (Some l) \<Longrightarrow> valid_lease l"
  using lease_store.reached_keeps [of "Some l"] by (simp add: holds_valid_def)

section \<open>The properties\<close>

text \<open>
  C34. Whatever controllers request, the stored lease is one the constructor accepts: an active lease names
  its pod, a pending one keeps its recovery intent, and a lease closed as verified carries complete
  verified evidence bound to the exact pod it names. A controller's receipt it carries is bound to it.
\<close>

theorem stored_lease_is_valid:
  assumes "lease_reached (Some l)"
  shows "checked_lease l = Inr l \<and>
    (lease_phase l = Active \<longrightarrow> (\<exists>p. pod_id l = Some p)) \<and>
    (lease_phase l = PendingCreate \<longrightarrow> pending_create l \<noteq> None) \<and>
    (lease_phase l = ClosedVerified \<longrightarrow>
       (\<exists>p v. pod_id l = Some p \<and> close_record l = Some v \<and> got v ''pod_id'' = JStr p \<and> verified_close v)) \<and>
    (\<forall>r. controller_record l = Some r \<longrightarrow>
       rc_lease_id r = lease_id l \<and> pod_id l = Some (rc_pod_id r) \<and> rc_hard_deadline r = hard_deadline l)"
proof -
  have v: "valid_lease l" by (rule lease_reached_valid [OF assms])
  then have c: "checked_lease l = Inr l" by (simp add: valid_lease_def)
  have "lease_phase l = PendingCreate \<longrightarrow> pending_create l \<noteq> None"
    using c unfolding checked_lease_def by (simp add: rbind_Inr_iff require_Inr)
  moreover have "rc_lease_id r = lease_id l \<and> pod_id l = Some (rc_pod_id r) \<and> rc_hard_deadline r = hard_deadline l"
    if r: "controller_record l = Some r" for r
  proof -
    have "validate_controller_record r (lease_id l) (pod_id l) (created_at l) (hard_deadline l) = Inr ()"
      using c r unfolding checked_lease_def by (simp add: rbind_Inr_iff)
    then show ?thesis unfolding validate_controller_record_def by (simp add: rbind_Inr_iff require_Inr)
  qed
  ultimately show ?thesis using c valid_close [OF v] valid_active [OF v] by simp
qed

text \<open>
  C35. A lease changes only for its owner, or for a controller that claims it after the owner's heartbeat has
  been silent for the time the claim names, which advances the generation by one. Over any requests of any
  controllers its terms (its identity, its volume, its creation and its hard deadline) never change, nor
  does the pod once bound, its phase never goes back, no generation has two owners, and a lease closed as
  verified is never altered again.
\<close>

theorem lease_changes_hands_only_when_silent:
  assumes "lease_reached (Some l)"
  shows "(\<forall>r m. answered r (Some l) = Inr m \<longrightarrow> m = l \<or> requester r = owner_token l \<or> took_over r l m) \<and>
    (\<forall>m. lease_step\<^sup>*\<^sup>* (Some l) (Some m) \<longrightarrow> follows l m)"
proof -
  have v: "valid_lease l" by (rule lease_reached_valid [OF assms])
  have "follows l m" if "lease_step\<^sup>*\<^sup>* (Some l) (Some m)" for m
    using lease_store.run_below [OF that] v by (simp add: holds_valid_def store_below_def)
  then show ?thesis using answered_changes [OF v] by blast
qed

section \<open>A lease closed\<close>

definition demo_lease :: "unit lease" where
  "demo_lease = \<lparr>lease_id = replicate 32 48, launch_token = replicate 32 49, provider_name = u ''p'', pod_id = None,
     volume_id = u ''v'', pod_hourly_usd = (2, 0), volume_hourly_usd = (1, -1), created_at = 10, started_at = None,
     hard_deadline = 1000, owner_token = u ''a'', heartbeat_at = 10, generation = 1, lease_phase = PendingCreate,
     close_record = None, pending_create = Some (), controller_record = None, pending_recovery_attempts = 0\<rparr>"

definition demo_evidence :: evidence where
  "demo_evidence = [(u ''state'', JStr (u ''verified'')), (u ''pod_id'', JStr (u ''pod'')), (u ''pod_get_absent'', JBool True),
     (u ''pod_list_absent'', JBool True), (u ''cutoff_at'', JStr (u ''t'')),
     (u ''cost_capture'', JObj [(u ''state'', JStr (u ''captured'')), (u ''lines'', JList [JNull]), (u ''cutoff_at'', JStr (u ''t''))])]"

fun served :: "'i request list \<Rightarrow> 'i store \<Rightarrow> 'i store option" where
  "served [] s = Some s"
| "served (r # rs) s = (case answered r s of Inl _ \<Rightarrow> None | Inr l \<Rightarrow> served rs (Some l))"

lemma served_reached: "lease_reached s \<Longrightarrow> served rs s = Some t \<Longrightarrow> lease_reached t"
  by (induction rs arbitrary: s) (auto intro: reached.goes request_step split: sum.splits)

text \<open>The owner binds its pod and falls silent; a second controller claims the lease and closes it.\<close>

definition demo_requests :: "unit request list" where
  "demo_requests = [Create demo_lease, Bind (u ''a'') \<lparr>pr_pod_id = u ''pod'', pr_created_at = 20, pr_pod_rate = (2, 0), pr_volume_rate = (1, 0)\<rparr> 20,
     Claim (u ''b'') 500 300]"

definition demo_claimed :: "unit lease" where
  "demo_claimed = demo_lease\<lparr>pod_id := Some (u ''pod''), started_at := Some 20, volume_hourly_usd := (1, 0), lease_phase := Active,
     pending_create := None, owner_token := u ''b'', heartbeat_at := 500, generation := 2\<rparr>"

definition demo_closed :: "unit lease" where
  "demo_closed = demo_claimed\<lparr>heartbeat_at := 600, lease_phase := ClosedVerified, close_record := Some demo_evidence\<rparr>"

lemma demo_claimed_reached: "lease_reached (Some demo_claimed)"
proof -
  have "served demo_requests None = Some (Some demo_claimed)" by code_simp
  with served_reached [OF lease_reached_nothing] show ?thesis by blast
qed

lemma demo_close: "answered (Close (u ''b'') demo_evidence True 600) (Some demo_claimed) = Inr demo_closed"
  by code_simp

theorem stored_lease_is_valid_witness:
  "lease_phase demo_closed = ClosedVerified \<and> pod_id demo_closed = Some (u ''pod'') \<and> verified_close demo_evidence"
proof -
  have "lease_reached (Some demo_closed)" by (rule reached.goes [OF demo_claimed_reached request_step [OF demo_close]])
  from stored_lease_is_valid [OF this] show ?thesis by (auto simp: demo_closed_def demo_claimed_def)
qed

theorem lease_changes_hands_only_when_silent_witness:
  "follows demo_claimed demo_closed \<and> answered (Close (u ''a'') demo_evidence True 600) (Some demo_claimed) =
     Inl (LeaseOwnershipError ''belongs to a different controller'')"
proof -
  have "lease_step\<^sup>*\<^sup>* (Some demo_claimed) (Some demo_closed)" using request_step [OF demo_close] by blast
  moreover have "answered (Close (u ''a'') demo_evidence True 600) (Some demo_claimed) =
     Inl (LeaseOwnershipError ''belongs to a different controller'')" by code_simp
  ultimately show ?thesis using lease_changes_hands_only_when_silent [OF demo_claimed_reached] by blast
qed

end
