(* ===== verification/Repetition.thy ===== *)
theory Repetition
  imports Prelude
begin

text \<open>
  The guard against a reply that repeats itself, \<open>common/repetition_loop.py\<close>: the sealed guard, the
  line ends, and \<open>LoopScanner\<close> with its state (\<open>pending\<close>, \<open>lines\<close>, \<open>run\<close>, \<open>finding\<close>) fed piece by
  piece. \<open>re.split\<close> at a line end is a scan with the matches of its pattern.
\<close>

section \<open>The sealed guard\<close>

record guard =
  line_repeats :: int
  block_repeats :: int
  block_max_lines :: int

definition MIN_BLOCK_LINES :: int where
  "MIN_BLOCK_LINES = 2"

definition GUARD_FIELDS :: "string list" where
  "GUARD_FIELDS = [''loop_line_repeats'', ''loop_block_repeats'', ''loop_block_max_lines'']"

definition validate_guard :: "json \<Rightarrow> guard result" where
  "validate_guard v =
     (case v of
        JObj kvs \<Rightarrow>
          if \<not> keys_are kvs GUARD_FIELDS then Inl (ContractError ''must name exactly'')
          else (case (field kvs ''loop_line_repeats'', field kvs ''loop_block_repeats'', field kvs ''loop_block_max_lines'') of
            (Some (JInt line), Some (JInt block), Some (JInt largest)) \<Rightarrow>
              if line < 2 \<or> block < 2 then Inl (ContractError ''at least two repeats'')
              else if largest < MIN_BLOCK_LINES then Inl (ContractError ''largest block'')
              else Inr \<lparr>line_repeats = line, block_repeats = block, block_max_lines = largest\<rparr>
          | _ \<Rightarrow> Inl (ContractError ''values must be integers''))
      | _ \<Rightarrow> Inl (ContractError ''must name exactly''))"

section \<open>Lines\<close>

text \<open>A newline, with a return before it or not, or the JSON escape for one.\<close>

definition LINE_ENDS :: "ustr list" where
  "LINE_ENDS = [[13, 10], [10], [92, 114, 92, 110], [92, 110]]"

definition line_end :: "ustr \<Rightarrow> nat option" where
  "line_end s = map_option length (find (\<lambda>e. take (length e) s = e) LINE_ENDS)"

function split_lines :: "ustr \<Rightarrow> ustr list" where
  "split_lines [] = [[]]"
| "split_lines (c # cs) =
     (case line_end (c # cs) of
        Some n \<Rightarrow> [] # split_lines (drop (n - 1) cs)
      | None \<Rightarrow> (case split_lines cs of [] \<Rightarrow> [[c]] | line # lines \<Rightarrow> (c # line) # lines))"
  by pat_completeness auto
termination by (relation "measure length") auto

definition strip :: "ustr \<Rightarrow> ustr" where
  "strip s = rev (dropWhile space_point (rev (dropWhile space_point s)))"

section \<open>The scanner\<close>

datatype loop_kind = LINE | BLOCK

record found =
  found_kind :: loop_kind
  found_block_lines :: nat
  found_repeats :: nat
  found_line :: nat

record scanner =
  sc_guard :: guard
  sc_pending :: ustr
  sc_lines :: "ustr list"
  sc_run :: nat
  sc_finding :: "found option"

text \<open>A block that is not a shorter block repeated.\<close>

definition primitive :: "'a list \<Rightarrow> bool" where
  "primitive block =
     (let len = length block in
      \<not> list_ex (\<lambda>period. len mod period = 0 \<and> block = concat (replicate (len div period) (take period block)))
          [1 ..< len])"

fun repeated_block :: "ustr list \<Rightarrow> nat \<Rightarrow> nat list \<Rightarrow> nat option" where
  "repeated_block lines repeats [] = None"
| "repeated_block lines repeats (len # sizes) =
     (let span = len * repeats; block = drop (length lines - len) lines in
      if length lines < span then None
      else if \<not> primitive block then repeated_block lines repeats sizes
      else if list_all (\<lambda>i. lines ! (length lines - span + i) = block ! (i mod len)) [0 ..< span] then Some len
      else repeated_block lines repeats sizes)"

definition found_in :: "ustr list \<Rightarrow> loop_kind \<Rightarrow> nat \<Rightarrow> nat \<Rightarrow> found" where
  "found_in lines kind len repeats =
     \<lparr>found_kind = kind, found_block_lines = len, found_repeats = repeats, found_line = length lines\<rparr>"

definition add_line :: "scanner \<Rightarrow> ustr \<Rightarrow> scanner \<times> bool" where
  "add_line sc line =
     (let run = (if sc_lines sc \<noteq> [] \<and> last (sc_lines sc) = line then sc_run sc + 1 else 1);
          lines = sc_lines sc @ [line];
          g = sc_guard sc;
          sc = sc\<lparr>sc_lines := lines, sc_run := run\<rparr>
      in if line_repeats g \<le> int run then (sc\<lparr>sc_finding := Some (found_in lines LINE 1 run)\<rparr>, True)
         else case repeated_block lines (nat (block_repeats g)) [nat MIN_BLOCK_LINES ..< nat (block_max_lines g + 1)] of
           Some len \<Rightarrow> (sc\<lparr>sc_finding := Some (found_in lines BLOCK len (nat (block_repeats g)))\<rparr>, True)
         | None \<Rightarrow> (sc, False))"

text \<open>The loop over the complete pieces; a blank one is skipped, and a finding ends it.\<close>

fun add_lines :: "scanner \<Rightarrow> ustr list \<Rightarrow> scanner" where
  "add_lines sc [] = sc"
| "add_lines sc (piece # pieces) =
     (let line = strip piece in
      if line = [] then add_lines sc pieces
      else case add_line sc line of (sc', stop) \<Rightarrow> if stop then sc' else add_lines sc' pieces)"

definition new_scanner :: "guard \<Rightarrow> scanner" where
  "new_scanner g = \<lparr>sc_guard = g, sc_pending = [], sc_lines = [], sc_run = 0, sc_finding = None\<rparr>"

definition scanner_feed :: "scanner \<Rightarrow> ustr \<Rightarrow> scanner" where
  "scanner_feed sc txt =
     (if sc_finding sc \<noteq> None then sc
      else let pieces = split_lines (sc_pending sc @ txt)
           in add_lines (sc\<lparr>sc_pending := last pieces\<rparr>) (butlast pieces))"

definition first_repetition_loop :: "ustr \<Rightarrow> guard \<Rightarrow> found option" where
  "first_repetition_loop txt g = sc_finding (scanner_feed (new_scanner g) txt)"

end
