(* ===== verification/RepetitionFacts.thy ===== *)
theory RepetitionFacts
  imports Repetition
begin

text \<open>
  What the guard finds. \<open>loops\<close> says without the scanner's bookkeeping that the lines end in a
  repetition; the scanner stops at the first line where they do, however the reply was cut up.
\<close>

section \<open>Cutting a reply up\<close>

lemma starts_iff: "take (length e) s = e \<longleftrightarrow> (\<exists>r. s = e @ r)"
  by (metis append_eq_conv_conj)

lemma line_end_iff: "line_end s = Some n \<longleftrightarrow> (\<exists>e r. e \<in> set LINE_ENDS \<and> s = e @ r \<and> n = length e)"
proof
  assume "line_end s = Some n"
  then obtain e where e: "find (\<lambda>e. take (length e) s = e) LINE_ENDS = Some e" "n = length e"
    by (auto simp: line_end_def)
  then obtain i where "i < length LINE_ENDS" "take (length e) s = e" "e = LINE_ENDS ! i"
    by (auto simp: find_Some_iff)
  then show "\<exists>e r. e \<in> set LINE_ENDS \<and> s = e @ r \<and> n = length e"
    using e(2) starts_iff [of e s] nth_mem by blast
next
  assume "\<exists>e r. e \<in> set LINE_ENDS \<and> s = e @ r \<and> n = length e"
  then show "line_end s = Some n"
    by (auto simp: line_end_def LINE_ENDS_def)
qed

lemma LINE_ENDS_nonempty: "e \<in> set LINE_ENDS \<Longrightarrow> 0 < length e"
  by (auto simp: LINE_ENDS_def)

lemma line_end_append: "line_end s = Some n \<Longrightarrow> line_end (s @ t) = Some n \<and> 0 < n \<and> n \<le> length s"
proof -
  assume "line_end s = Some n"
  then obtain e r where e: "e \<in> set LINE_ENDS" "s = e @ r" "n = length e" unfolding line_end_iff by blast
  then have "s @ t = e @ (r @ t)" by simp
  then have "line_end (s @ t) = Some n" using e(1,3) unfolding line_end_iff by blast
  with e LINE_ENDS_nonempty show ?thesis by simp
qed

lemma split_lines_not_Nil [simp]: "split_lines s \<noteq> []"
  by (induction s rule: split_lines.induct) (auto split: option.splits list.splits)

lemma split_lines_single: "split_lines s = [z] \<Longrightarrow> z = s"
  by (induction s arbitrary: z rule: split_lines.induct) (auto split: option.splits list.splits)

lemma cut_line_ends:
  "\<forall>e \<in> set LINE_ENDS. \<forall>k \<in> set [1 ..< length e]. split_lines (take k e) = [take k e]"
  by code_simp

text \<open>A line end that only the next piece completes starts in the piece still pending.\<close>

lemma line_end_pending:
  assumes "line_end (s @ t) = Some n" "line_end s = None" "s \<noteq> []"
  shows "split_lines s = [s]"
proof -
  obtain e r where e: "e \<in> set LINE_ENDS" "s @ t = e @ r" using assms(1) by (auto simp: line_end_iff)
  have "s \<noteq> e @ us" for us using assms(2) e(1) line_end_iff [of s "length e"] by auto
  then obtain us where us: "s @ us = e" "us \<noteq> []"
    using e(2) by (metis append_Nil2 append_eq_append_conv2)
  then have "s = take (length s) e" "0 < length s" "length s < length e" using assms(3) by auto
  then show ?thesis using cut_line_ends e(1) by (metis atLeastLessThan_iff less_eq_Suc_le set_upt One_nat_def)
qed

lemma split_lines_append:
  "split_lines (s @ t) = butlast (split_lines s) @ split_lines (last (split_lines s) @ t)"
proof (induction s rule: split_lines.induct)
  case (2 c cs)
  show ?case
  proof (cases "line_end (c # cs)")
    case (Some n)
    with line_end_append [OF Some, of t] 2(2) [OF Some] show ?thesis
      by simp
  next
    case None
    obtain line lines where cs: "split_lines cs = line # lines" by (cases "split_lines cs") auto
    show ?thesis
    proof (cases "lines = []")
      case True
      with cs split_lines_single [of cs] have "split_lines (c # cs) = [c # cs]"
        using None by simp
      then show ?thesis by simp
    next
      case False
      have "line_end ((c # cs) @ t) = None"
      proof (rule ccontr)
        assume "line_end ((c # cs) @ t) \<noteq> None"
        then have "split_lines (c # cs) = [c # cs]" using line_end_pending None by blast
        then show False using None cs False by simp
      qed
      with None cs False 2(1) [OF None] show ?thesis by simp
    qed
  qed
qed simp

section \<open>Pieces and the whole\<close>

lemma add_line_keeps: "sc_pending (fst (add_line sc line)) = sc_pending sc \<and> sc_guard (fst (add_line sc line)) = sc_guard sc"
  by (simp add: add_line_def Let_def split: option.splits)

lemma add_lines_finding: "sc_finding sc = None \<Longrightarrow> add_line sc line = (sc', stop) \<Longrightarrow> (sc_finding sc' = None) = (\<not> stop)"
  by (auto simp: add_line_def Let_def split: if_splits option.splits)

lemma add_line_pending: "add_line (sc\<lparr>sc_pending := p\<rparr>) line = apfst (\<lambda>sc. sc\<lparr>sc_pending := p\<rparr>) (add_line sc line)"
  by (simp add: add_line_def Let_def split: option.splits)

lemma add_lines_pending: "add_lines (sc\<lparr>sc_pending := p\<rparr>) ls = (add_lines sc ls)\<lparr>sc_pending := p\<rparr>"
  by (induction ls arbitrary: sc) (simp_all add: Let_def add_line_pending split: prod.splits)

lemma add_lines_append:
  "sc_finding sc = None \<Longrightarrow>
   add_lines sc (ls @ ks) = (let sc' = add_lines sc ls in if sc_finding sc' = None then add_lines sc' ks else sc')"
proof (induction ls arbitrary: sc)
  case (Cons l ls)
  show ?case
  proof (cases "strip l = []")
    case True
    with Cons show ?thesis by simp
  next
    case False
    obtain sc' stop where "add_line sc (strip l) = (sc', stop)" by fastforce
    with False Cons add_lines_finding [OF Cons.prems this] show ?thesis by (auto simp: Let_def)
  qed
qed simp

text \<open>Once there is a finding nothing changes it, so two scanners agree when they are equal or have found the same.\<close>

definition agree :: "scanner \<Rightarrow> scanner \<Rightarrow> bool" where
  "agree a b \<longleftrightarrow> a = b \<or> sc_finding a = sc_finding b \<and> sc_finding a \<noteq> None"

lemma agree_feed: "agree a b \<Longrightarrow> agree (scanner_feed a t) (scanner_feed b t)"
  by (auto simp: agree_def scanner_feed_def)

lemma agree_trans: "agree a b \<Longrightarrow> agree b c \<Longrightarrow> agree a c"
  by (auto simp: agree_def)

lemma feed_feed: "agree (scanner_feed (scanner_feed sc s) t) (scanner_feed sc (s @ t))"
proof (cases "sc_finding sc")
  case None
  let ?ps = "split_lines (sc_pending sc @ s)"
  have pieces: "split_lines (sc_pending sc @ s @ t) = butlast ?ps @ split_lines (last ?ps @ t)"
    using split_lines_append [of "sc_pending sc @ s" t] by simp
  show ?thesis
    using None by (simp add: agree_def scanner_feed_def Let_def pieces butlast_append add_lines_pending add_lines_append)
qed (simp add: agree_def scanner_feed_def)

lemma fold_feed: "agree (fold (\<lambda>t sc. scanner_feed sc t) chunks (scanner_feed sc s)) (scanner_feed sc (s @ concat chunks))"
proof (induction chunks arbitrary: s)
  case (Cons t chunks)
  have "agree (fold (\<lambda>t sc. scanner_feed sc t) chunks a) (fold (\<lambda>t sc. scanner_feed sc t) chunks b)" if "agree a b" for a b
    using that by (induction chunks arbitrary: a b) (simp_all add: agree_feed)
  from this [OF feed_feed [of sc s t]] Cons [of "s @ t"] show ?case by (auto intro: agree_trans)
qed (simp add: agree_def)

lemma fold_feed_new:
  "sc_finding (fold (\<lambda>t sc. scanner_feed sc t) chunks (new_scanner g)) = first_repetition_loop (concat chunks) g"
proof (cases chunks)
  case Nil
  then show ?thesis by (simp add: first_repetition_loop_def scanner_feed_def new_scanner_def)
next
  case (Cons t ts)
  with fold_feed [of ts "new_scanner g" t] show ?thesis
    by (auto simp: first_repetition_loop_def agree_def)
qed

section \<open>What a loop is\<close>

text \<open>A block that is no shorter block said twice or rest.\<close>

definition aperiodic :: "'a list \<Rightarrow> bool" where
  "aperiodic block \<longleftrightarrow> \<not> (\<exists>w m. 1 < m \<and> block = concat (replicate m w))"

definition loops_line :: "guard \<Rightarrow> ustr list \<Rightarrow> bool" where
  "loops_line g lines \<longleftrightarrow> (\<exists>before line. lines = before @ replicate (nat (line_repeats g)) line)"

definition loops_block :: "guard \<Rightarrow> nat \<Rightarrow> ustr list \<Rightarrow> bool" where
  "loops_block g len lines \<longleftrightarrow>
     2 \<le> len \<and> int len \<le> block_max_lines g \<and>
     (\<exists>before block. length block = len \<and> aperiodic block \<and>
        lines = before @ concat (replicate (nat (block_repeats g)) block))"

definition loops :: "guard \<Rightarrow> ustr list \<Rightarrow> bool" where
  "loops g lines \<longleftrightarrow> loops_line g lines \<or> (\<exists>len. loops_block g len lines)"

definition reply_lines :: "ustr \<Rightarrow> ustr list" where
  "reply_lines reply = filter (\<lambda>line. line \<noteq> []) (map strip (butlast (split_lines reply)))"

lemma length_concat_replicate [simp]: "length (concat (replicate m w)) = m * length w"
  by (induction m) auto

lemma nth_concat_replicate: "i < m * length w \<Longrightarrow> concat (replicate m w) ! i = w ! (i mod length w)"
proof (induction m arbitrary: i)
  case (Suc m)
  then show ?case
    by (cases "i < length w") (auto simp: nth_append mod_if [of i])
qed simp

lemma primitive_iff: "2 \<le> length block \<Longrightarrow> primitive block \<longleftrightarrow> aperiodic block"
proof
  assume prim: "primitive block" and len: "2 \<le> length block"
  show "aperiodic block" unfolding aperiodic_def
  proof (rule notI, elim exE conjE)
    fix w m assume m: "1 < m" "block = concat (replicate m w)"
    then have w: "length block = m * length w" "0 < length w" using len by auto
    then have "length w \<in> set [1 ..< length block]" "length block mod length w = 0"
      "length block div length w = m" using m(1) by (simp_all add: w(1) Suc_le_eq)
    moreover have "take (length w) block = w" using m by (cases m) auto
    ultimately have "block = concat (replicate (length block div length w) (take (length w) block))"
      and in_range: "length w \<in> set [1 ..< length block]" "length block mod length w = 0" using m(2) by simp_all
    then have "\<exists>p \<in> set [1 ..< length block]. length block mod p = 0 \<and>
        block = concat (replicate (length block div p) (take p block))" by (intro bexI [of _ "length w"] conjI)
    with prim show False by (simp only: primitive_def Let_def list_ex_iff not_True_eq_False)
  qed
next
  assume ap: "aperiodic block"
  show "primitive block" unfolding primitive_def Let_def
  proof
    assume "list_ex (\<lambda>period. length block mod period = 0 \<and>
        block = concat (replicate (length block div period) (take period block))) [1 ..< length block]"
    then obtain p where p: "p \<in> set [1 ..< length block]" "length block mod p = 0"
        "block = concat (replicate (length block div p) (take p block))"
      unfolding list_ex_iff by (elim bexE conjE) (rule that)
    have range: "0 < p" "p < length block" using p(1) by auto
    obtain k where k: "length block = p * k" using p(2) by (metis mod_eq_0_iff_dvd dvdE)
    then have "1 < k" using range by (cases "k = 0"; cases "k = 1") auto
    then have "1 < length block div p" using k range by simp
    with p(3) ap show False unfolding aperiodic_def by blast
  qed
qed

lemma ends_in_block:
  assumes len: "0 < len" "0 < m" "len * m \<le> length lines"
  shows "list_all (\<lambda>i. lines ! (length lines - len * m + i) = drop (length lines - len) lines ! (i mod len)) [0 ..< len * m]
    \<longleftrightarrow> drop (length lines - len * m) lines = concat (replicate m (drop (length lines - len) lines))"
proof -
  let ?block = "drop (length lines - len) lines"
  have "len \<le> length lines" using le_trans [OF _ len(3), of len] len(2) by simp
  then have block: "length ?block = len" by simp
  have "drop (length lines - len * m) lines ! i = lines ! (length lines - len * m + i)" if "i < len * m" for i
    using that len(3) by simp
  moreover have "concat (replicate m ?block) ! i = ?block ! (i mod len)" if "i < len * m" for i
    using that nth_concat_replicate [of i m ?block] by (simp only: block mult.commute)
  ultimately show ?thesis
    using len(3) block by (simp only: list_all_iff list_eq_iff_nth_eq length_concat_replicate length_drop) (auto simp: mult.commute)
qed

lemma loops_block_drop:
  assumes "0 < block_repeats g"
  shows "loops_block g len lines \<longleftrightarrow> 2 \<le> len \<and> int len \<le> block_max_lines g \<and>
    len * nat (block_repeats g) \<le> length lines \<and> aperiodic (drop (length lines - len) lines) \<and>
    drop (length lines - len * nat (block_repeats g)) lines =
      concat (replicate (nat (block_repeats g)) (drop (length lines - len) lines))"
  (is "?L \<longleftrightarrow> ?R")
proof
  assume ?L
  then obtain before block where b: "2 \<le> len" "int len \<le> block_max_lines g" "length block = len" "aperiodic block"
      "lines = before @ concat (replicate (nat (block_repeats g)) block)"
    by (auto simp: loops_block_def)
  obtain m where m: "nat (block_repeats g) = Suc m" using assms by (metis gr0_implies_Suc zero_less_nat_eq)
  have "concat (replicate (Suc m) block) = concat (replicate m block) @ block"
    by (simp flip: replicate_append_same)
  then have "drop (length lines - len) lines = block" using b(3,5) m by simp
  then show ?R using b m by (simp add: mult.commute)
next
  assume R: ?R
  then have "length (drop (length lines - len) lines) = len" using assms
    by (metis (no_types, lifting) Suc_le_eq diff_diff_cancel dual_order.trans le_add1 length_drop mult_Suc_right
        gr0_implies_Suc zero_less_nat_eq)
  then show ?L unfolding loops_block_def using R append_take_drop_id by metis
qed

section \<open>The scanner's bookkeeping\<close>

definition tail_run :: "'a list \<Rightarrow> nat" where
  "tail_run lines = length (takeWhile (\<lambda>line. line = last lines) (rev lines))"

lemma tail_run_snoc:
  "tail_run (lines @ [line]) = (if lines \<noteq> [] \<and> last lines = line then tail_run lines + 1 else 1)"
  by (cases lines rule: rev_cases) (auto simp: tail_run_def)

lemma tail_run_iff:
  assumes "0 < n"
  shows "n \<le> tail_run lines \<longleftrightarrow> (\<exists>before line. lines = before @ replicate n line)"
proof
  let ?same = "takeWhile (\<lambda>line. line = last lines) (rev lines)"
  assume "n \<le> tail_run lines"
  then have n: "n \<le> length ?same" by (simp add: tail_run_def)
  have same: "?same = replicate (length ?same) (last lines)"
    by (rule replicate_length_same [symmetric]) (auto dest: set_takeWhileD)
  have "rev lines = ?same @ dropWhile (\<lambda>line. line = last lines) (rev lines)" by simp
  then have "lines = rev (dropWhile (\<lambda>line. line = last lines) (rev lines)) @ rev ?same" by (metis rev_append rev_rev_ident)
  also have "rev ?same = replicate (length ?same - n) (last lines) @ replicate n (last lines)"
    using same n by (metis le_add_diff_inverse2 replicate_add rev_replicate)
  finally show "\<exists>before line. lines = before @ replicate n line" by (metis append_assoc)
next
  assume "\<exists>before line. lines = before @ replicate n line"
  then obtain before line where "lines = before @ replicate n line" by blast
  moreover have "takeWhile (\<lambda>l. l = line) (replicate n line @ xs) = replicate n line @ takeWhile (\<lambda>l. l = line) xs" for xs
    by (induction n) simp_all
  ultimately show "n \<le> tail_run lines" using assms by (simp add: tail_run_def last_append)
qed

definition ends_block :: "ustr list \<Rightarrow> nat \<Rightarrow> nat \<Rightarrow> bool" where
  "ends_block lines m len \<longleftrightarrow>
     (let block = drop (length lines - len) lines in
      len * m \<le> length lines \<and> primitive block \<and>
      list_all (\<lambda>i. lines ! (length lines - len * m + i) = block ! (i mod len)) [0 ..< len * m])"

lemma repeated_block_find: "sorted sizes \<Longrightarrow> repeated_block lines m sizes = find (ends_block lines m) sizes"
proof (induction sizes)
  case (Cons len sizes)
  show ?case
  proof (cases "length lines < len * m")
    case True
    have "\<not> ends_block lines m k" if "k \<in> set (len # sizes)" for k
    proof -
      have "len * m \<le> k * m" using that Cons.prems by auto
      with True have "length lines < k * m" by linarith
      then show ?thesis unfolding ends_block_def Let_def by (meson not_less)
    qed
    then have "find (ends_block lines m) (len # sizes) = None" by (simp only: find_None_iff) blast
    with True show ?thesis by simp
  next
    case False
    with Cons show ?thesis by (simp add: ends_block_def Let_def)
  qed
qed simp

lemma ends_block_iff:
  assumes "0 < block_repeats g" "2 \<le> len" "int len \<le> block_max_lines g"
  shows "ends_block lines (nat (block_repeats g)) len \<longleftrightarrow> loops_block g len lines"
proof (cases "len * nat (block_repeats g) \<le> length lines")
  case True
  have "len * 1 \<le> len * nat (block_repeats g)" using assms(1) by (intro mult_le_mono2) simp
  then have "len \<le> length lines" using True by linarith
  then have "primitive (drop (length lines - len) lines) = aperiodic (drop (length lines - len) lines)"
    using assms(2) by (intro primitive_iff) simp
  with True assms ends_in_block [of len "nat (block_repeats g)" lines] show ?thesis
    unfolding loops_block_drop [OF assms(1)] ends_block_def Let_def by simp
next
  case False
  then show ?thesis unfolding loops_block_drop [OF assms(1)] ends_block_def Let_def by simp
qed

lemma repeated_block_None:
  assumes "0 < block_repeats g"
  shows "repeated_block lines (nat (block_repeats g)) [2 ..< nat (block_max_lines g + 1)] = None
    \<longleftrightarrow> \<not> (\<exists>len. loops_block g len lines)"
proof -
  let ?sizes = "[2 ..< nat (block_max_lines g + 1)]"
  have range: "len \<in> set ?sizes \<longleftrightarrow> 2 \<le> len \<and> int len \<le> block_max_lines g" for len by auto
  have "loops_block g len lines \<Longrightarrow> len \<in> set ?sizes" for len unfolding range by (simp add: loops_block_def)
  moreover have "len \<in> set ?sizes \<Longrightarrow> ends_block lines (nat (block_repeats g)) len \<longleftrightarrow> loops_block g len lines" for len
    using ends_block_iff [OF assms] unfolding range by blast
  ultimately show ?thesis by (simp add: repeated_block_find find_None_iff del: set_upt) blast
qed

lemma repeated_block_Some:
  assumes "0 < block_repeats g"
    and "repeated_block lines (nat (block_repeats g)) [2 ..< nat (block_max_lines g + 1)] = Some len"
  shows "loops_block g len lines \<and> (\<forall>k < len. \<not> loops_block g k lines)"
proof -
  let ?sizes = "[2 ..< nat (block_max_lines g + 1)]"
  obtain i where i: "i < length ?sizes" "ends_block lines (nat (block_repeats g)) (?sizes ! i)" "len = ?sizes ! i"
      "\<forall>j < i. \<not> ends_block lines (nat (block_repeats g)) (?sizes ! j)"
    using assms(2) by (auto simp: repeated_block_find find_Some_iff)
  have len: "len = 2 + i" "int len \<le> block_max_lines g" using i(1,3) by auto
  have "\<not> loops_block g k lines" if "k < len" for k
  proof
    assume k: "loops_block g k lines"
    then have "2 \<le> k" by (simp add: loops_block_def)
    then have "k - 2 < i" "?sizes ! (k - 2) = k" using that len i(1) by auto
    with i(4) k ends_block_iff [OF assms(1), of k lines] show False using \<open>2 \<le> k\<close> k
      by (auto simp: loops_block_def)
  qed
  then show ?thesis using i(2,3) len ends_block_iff [OF assms(1), of len lines] by simp
qed

section \<open>The first loop\<close>

definition calm :: "guard \<Rightarrow> ustr list \<Rightarrow> bool" where
  "calm g lines \<longleftrightarrow> (\<forall>k. \<not> loops g (take k lines))"

text \<open>What a finding says: the first line where the lines so far end in a repetition, and which one.\<close>

definition first_loop_is :: "guard \<Rightarrow> ustr list \<Rightarrow> found \<Rightarrow> bool" where
  "first_loop_is g lines f \<longleftrightarrow>
     found_line f \<le> length lines \<and> (\<forall>k < found_line f. \<not> loops g (take k lines)) \<and>
     (let seen = take (found_line f) lines in
      case found_kind f of
        LINE \<Rightarrow> found_block_lines f = 1 \<and> int (found_repeats f) = line_repeats g \<and> loops_line g seen
      | BLOCK \<Rightarrow> int (found_repeats f) = block_repeats g \<and> \<not> loops_line g seen \<and>
          loops_block g (found_block_lines f) seen \<and> (\<forall>len < found_block_lines f. \<not> loops_block g len seen))"

definition sensible :: "guard \<Rightarrow> bool" where
  "sensible g \<longleftrightarrow> 2 \<le> line_repeats g \<and> 2 \<le> block_repeats g \<and> 2 \<le> block_max_lines g"

lemma validated_guard_sensible: "validate_guard v = Inr g \<Longrightarrow> sensible g"
  by (auto simp: validate_guard_def sensible_def MIN_BLOCK_LINES_def split: json.splits option.splits if_splits)

lemma loops_line_iff: "sensible g \<Longrightarrow> loops_line g lines \<longleftrightarrow> line_repeats g \<le> int (tail_run lines)"
  using tail_run_iff [of "nat (line_repeats g)" lines] by (simp add: sensible_def loops_line_def nat_le_iff)

lemma calm_snoc: "calm g (lines @ [line]) \<longleftrightarrow> calm g lines \<and> \<not> loops g (lines @ [line])"
proof -
  have "take k (lines @ [line]) = take k lines \<or> take k (lines @ [line]) = lines @ [line]" for k
    by (cases "k \<le> length lines") simp_all
  moreover have "\<exists>j. take k lines = take j (lines @ [line])" for k
    by (rule exI [of _ "min k (length lines)"]) (simp add: min_def)
  moreover have "lines @ [line] = take (length lines + 1) (lines @ [line])" by simp
  ultimately show ?thesis unfolding calm_def by metis
qed

lemma calm_Nil: "sensible g \<Longrightarrow> calm g []"
  by (auto simp: calm_def loops_def loops_line_def loops_block_def sensible_def)

lemma calm_before: "calm g lines \<Longrightarrow> k < length lines + 1 \<Longrightarrow> \<not> loops g (take k (lines @ rest))"
  unfolding calm_def by (metis Suc_eq_plus1 less_Suc_eq_le take_append diff_is_0_eq take0 append_Nil2)

definition in_step :: "guard \<Rightarrow> scanner \<Rightarrow> bool" where
  "in_step g sc \<longleftrightarrow> sc_guard sc = g \<and> sc_run sc = tail_run (sc_lines sc) \<and> sc_finding sc = None \<and> calm g (sc_lines sc)"

lemma add_line_step:
  assumes g: "sensible g" and sc: "in_step g sc" and run: "add_line sc line = (sc', stop)"
  shows "sc_lines sc' = sc_lines sc @ [line] \<and>
    (if stop then \<exists>f. sc_finding sc' = Some f \<and> found_line f = length (sc_lines sc) + 1 \<and>
          first_loop_is g (sc_lines sc @ [line]) f
     else in_step g sc')"
proof -
  let ?lines = "sc_lines sc @ [line]"
  have tail: "(if sc_lines sc \<noteq> [] \<and> last (sc_lines sc) = line then sc_run sc + 1 else 1) = tail_run ?lines"
    using sc by (simp add: in_step_def tail_run_snoc)
  have "\<not> loops g (take (length (sc_lines sc)) (sc_lines sc))" using sc unfolding in_step_def calm_def by blast
  then have "int (tail_run (sc_lines sc)) < line_repeats g" using g by (simp add: loops_def loops_line_iff)
  then have upto: "int (tail_run ?lines) \<le> line_repeats g" using g by (simp add: tail_run_snoc sensible_def)
  have block: "0 < block_repeats g" using g by (simp add: sensible_def)
  have guard: "sc_guard sc = g" using sc by (simp add: in_step_def)
  have before: "\<forall>k < length ?lines. \<not> loops g (take k ?lines)"
    using calm_before [of g "sc_lines sc" _ "[line]"] sc by (simp add: in_step_def)
  note run = run [unfolded add_line_def Let_def tail guard]
  show ?thesis
  proof (cases "line_repeats g \<le> int (tail_run ?lines)")
    case True
    with run upto before loops_line_iff [OF g, of ?lines] show ?thesis
      by (auto simp: first_loop_is_def found_in_def)
  next
    case False
    show ?thesis
    proof (cases "repeated_block ?lines (nat (block_repeats g)) [2 ..< nat (block_max_lines g + 1)]")
      case None
      with repeated_block_None [OF block, of ?lines] False have "\<not> loops g ?lines"
        using loops_line_iff [OF g] by (simp add: loops_def)
      with run False None sc show ?thesis by (auto simp: MIN_BLOCK_LINES_def in_step_def calm_snoc)
    next
      case (Some len)
      with repeated_block_Some [OF block this] run False before loops_line_iff [OF g, of ?lines] block
      show ?thesis by (auto simp: MIN_BLOCK_LINES_def first_loop_is_def found_in_def)
    qed
  qed
qed

lemma first_loop_is_more: "first_loop_is g lines f \<Longrightarrow> first_loop_is g (lines @ rest) f"
  by (auto simp: first_loop_is_def Let_def split: loop_kind.splits)

definition right_finding :: "guard \<Rightarrow> ustr list \<Rightarrow> found option \<Rightarrow> bool" where
  "right_finding g lines finding \<longleftrightarrow>
     (case finding of None \<Rightarrow> calm g lines | Some f \<Rightarrow> first_loop_is g lines f)"

lemma add_lines_finds:
  assumes "sensible g" "in_step g sc"
  shows "right_finding g (sc_lines sc @ filter (\<lambda>line. line \<noteq> []) (map strip pieces)) (sc_finding (add_lines sc pieces))"
  using assms(2)
proof (induction pieces arbitrary: sc)
  case Nil
  then show ?case by (simp add: in_step_def right_finding_def)
next
  case (Cons piece pieces)
  show ?case
  proof (cases "strip piece = []")
    case True
    with Cons show ?thesis by simp
  next
    case False
    obtain sc' stop where add: "add_line sc (strip piece) = (sc', stop)" by fastforce
    note step = add_line_step [OF assms(1) Cons.prems add]
    show ?thesis
    proof (cases stop)
      case True
      with step False add first_loop_is_more [of g "sc_lines sc @ [strip piece]"] show ?thesis
        by (auto simp: right_finding_def)
    next
      case stop: False
      then have "in_step g sc'" "sc_lines sc' = sc_lines sc @ [strip piece]" using step by auto
      with Cons.IH [of sc'] False add stop show ?thesis by simp
    qed
  qed
qed

lemma whole_reply_finding:
  assumes "validate_guard v = Inr g"
  shows "right_finding g (reply_lines reply) (first_repetition_loop reply g)"
proof -
  have g: "sensible g" by (rule validated_guard_sensible [OF assms])
  let ?sc = "(new_scanner g)\<lparr>sc_pending := last (split_lines reply)\<rparr>"
  have "in_step g ?sc" using calm_Nil [OF g] by (simp add: in_step_def new_scanner_def tail_run_def)
  from add_lines_finds [OF g this, of "butlast (split_lines reply)"]
  show ?thesis by (simp add: first_repetition_loop_def scanner_feed_def Let_def reply_lines_def new_scanner_def)
qed

section \<open>Properties\<close>

text \<open>C36. The reply may arrive in any pieces, cut anywhere, inside a line or a line end too: fed piece by
  piece, the scanner ends with exactly the finding \<open>first_repetition_loop\<close> has on the whole reply.\<close>

theorem pieces_find_the_same_loop:
  "sc_finding (fold (\<lambda>piece sc. scanner_feed sc piece) pieces (new_scanner g)) = first_repetition_loop (concat pieces) g"
  by (rule fold_feed_new)

text \<open>C37. Under a guard the validation accepts, the finding is right: when there is none, no beginning of
  the reply's complete non-blank lines ends in a loop; when there is one, it names the first line
  at which they do, as the same line the sealed number of times or else as the shortest block that
  is not itself a repetition, said the sealed number of times.\<close>

theorem loop_found_at_its_first_line:
  assumes "validate_guard v = Inr g"
  shows "case first_repetition_loop reply g of
      None \<Rightarrow> \<forall>k. \<not> loops g (take k (reply_lines reply))
    | Some f \<Rightarrow> first_loop_is g (reply_lines reply) f"
  using whole_reply_finding [OF assms, of reply] unfolding right_finding_def calm_def .

definition demo_guard :: json where
  "demo_guard = JObj [(u ''loop_line_repeats'', JInt 3), (u ''loop_block_repeats'', JInt 2), (u ''loop_block_max_lines'', JInt 2)]"

definition demo_reply :: ustr where
  "demo_reply = u ''a'' @ [10] @ u ''b '' @ [13, 10, 10] @ u ''a'' @ [92, 110] @ u ''b'' @ [92, 114, 92, 110] @ u ''c''"

lemma loop_found_at_its_first_line_witness:
  "\<exists>f. first_repetition_loop demo_reply \<lparr>line_repeats = 3, block_repeats = 2, block_max_lines = 2\<rparr> = Some f \<and>
    found_line f = 4 \<and>
    first_loop_is \<lparr>line_repeats = 3, block_repeats = 2, block_max_lines = 2\<rparr> (reply_lines demo_reply) f"
proof -
  have "validate_guard demo_guard = Inr \<lparr>line_repeats = 3, block_repeats = 2, block_max_lines = 2\<rparr>" by code_simp
  note found = loop_found_at_its_first_line [OF this, of demo_reply]
  have "map_option found_line (first_repetition_loop demo_reply \<lparr>line_repeats = 3, block_repeats = 2, block_max_lines = 2\<rparr>) = Some 4"
    by code_simp
  with found show ?thesis by auto
qed

end
