(* ===== verification/Canonical.thy ===== *)
theory Canonical
  imports Json
begin

text \<open>
  The one serialization, \<open>common/contracts/canonical.py\<close>: what it refuses, the text \<open>json.dumps\<close> writes
  with sorted keys, no white space and no ASCII escapes, and the digests taken of it. A value is a
  \<open>json\<close>, so a key that is no text and a value that contains itself cannot be written down. The digest
  of the UTF-8 bytes of a text, hashlib's SHA-256, is the parameter \<open>sha\<close>.
\<close>

section \<open>What is refused\<close>

definition MAX_INTEGER_MAGNITUDE :: int where
  "MAX_INTEGER_MAGNITUDE = 10 ^ 640"

definition magnitude_held :: "int \<Rightarrow> bool" where
  "magnitude_held i \<longleftrightarrow> - MAX_INTEGER_MAGNITUDE < i \<and> i < MAX_INTEGER_MAGNITUDE"

text \<open>The power is only worked out for an integer that may come near it.\<close>

lemma magnitude_held_code [code]:
  "magnitude_held i \<longleftrightarrow> - (10 ^ 9) < i \<and> i < 10 ^ 9 \<or> - MAX_INTEGER_MAGNITUDE < i \<and> i < MAX_INTEGER_MAGNITUDE"
proof -
  have "(10 :: int) ^ 9 \<le> 10 ^ 640" by (rule power_increasing) simp_all
  then show ?thesis unfolding magnitude_held_def MAX_INTEGER_MAGNITUDE_def by linarith
qed

definition MAX_CANONICAL_DEPTH :: nat where
  "MAX_CANONICAL_DEPTH = 256"

text \<open>The walk in depth-first order; \<open>d\<close> is the number of containers open around the value.\<close>

fun refuse_floats :: "nat \<Rightarrow> json \<Rightarrow> unit result"
  and refuse_in_list :: "nat \<Rightarrow> json list \<Rightarrow> unit result"
  and refuse_in_object :: "nat \<Rightarrow> (ustr \<times> json) list \<Rightarrow> unit result" where
  "refuse_floats d JFloat = Inl (TypeError ''canonical artifacts carry integers, not floats'')"
| "refuse_floats d (JInt i) =
     ensure (magnitude_held i) (TypeError ''exceeds 640 decimal digits'')"
| "refuse_floats d (JList vs) =
     (if d + 1 > MAX_CANONICAL_DEPTH then Inl (TypeError ''nests too deeply'') else refuse_in_list (d + 1) vs)"
| "refuse_floats d (JObj kvs) =
     (if d + 1 > MAX_CANONICAL_DEPTH then Inl (TypeError ''nests too deeply'') else refuse_in_object (d + 1) kvs)"
| "refuse_floats d JNull = Inr ()"
| "refuse_floats d (JBool b) = Inr ()"
| "refuse_floats d (JStr s) = Inr ()"
| "refuse_in_list d [] = Inr ()"
| "refuse_in_list d (v # vs) = rbind (refuse_floats d v) (\<lambda>_. refuse_in_list d vs)"
| "refuse_in_object d [] = Inr ()"
| "refuse_in_object d ((k, v) # kvs) = rbind (refuse_floats d v) (\<lambda>_. refuse_in_object d kvs)"

section \<open>The text\<close>

text \<open>\<open>sort_keys\<close>: an object's items in the order of their keys, by code point.\<close>

fun sort_keys :: "json \<Rightarrow> json"
  and sort_keys_list :: "json list \<Rightarrow> json list"
  and sort_keys_members :: "(ustr \<times> json) list \<Rightarrow> (ustr \<times> json) list" where
  "sort_keys (JList vs) = JList (sort_keys_list vs)"
| "sort_keys (JObj kvs) = JObj (sort_key fst (sort_keys_members kvs))"
| "sort_keys JNull = JNull"
| "sort_keys (JBool b) = JBool b"
| "sort_keys (JInt i) = JInt i"
| "sort_keys JFloat = JFloat"
| "sort_keys (JStr s) = JStr s"
| "sort_keys_list [] = []"
| "sort_keys_list (v # vs) = sort_keys v # sort_keys_list vs"
| "sort_keys_members [] = []"
| "sort_keys_members ((k, v) # kvs) = (k, sort_keys v) # sort_keys_members kvs"

definition hex_point :: "int \<Rightarrow> int" where
  "hex_point n = (if n < 10 then 48 + n else 87 + n)"

text \<open>The quote, the backslash and the control characters are escaped, the rest stand as they are.\<close>

definition escaped :: "int \<Rightarrow> ustr" where
  "escaped c =
     (case map_of [(34, 34), (92, 92), (10, 110), (13, 114), (9, 116), (8, 98), (12, 102)] c of
        Some e \<Rightarrow> [92, e]
      | None \<Rightarrow> if c < 32 then [92, 117, 48, 48, hex_point (c div 16), hex_point (c mod 16)] else [c])"

definition dumped_text :: "ustr \<Rightarrow> ustr" where
  "dumped_text s = 34 # concat (map escaped s) @ [34]"

definition dump_int :: "int \<Rightarrow> ustr" where
  "dump_int i = (if i < 0 then 45 # decimal (- i) else decimal i)"

text \<open>\<open>json.dumps\<close>; a float never reaches it.\<close>

fun dump :: "json \<Rightarrow> ustr"
  and dump_elements :: "json list \<Rightarrow> ustr"
  and dump_members :: "(ustr \<times> json) list \<Rightarrow> ustr" where
  "dump JNull = u ''null''"
| "dump (JBool b) = (if b then u ''true'' else u ''false'')"
| "dump (JInt i) = dump_int i"
| "dump JFloat = []"
| "dump (JStr s) = dumped_text s"
| "dump (JList vs) = 91 # dump_elements vs @ [93]"
| "dump (JObj kvs) = 123 # dump_members kvs @ [125]"
| "dump_elements [] = []"
| "dump_elements (v # vs) = dump v @ (if vs = [] then [] else 44 # dump_elements vs)"
| "dump_members [] = []"
| "dump_members ((k, v) # kvs) = dumped_text k @ 58 # dump v @ (if kvs = [] then [] else 44 # dump_members kvs)"

definition canonical_text :: "json \<Rightarrow> ustr result" where
  "canonical_text v =
     rbind (refuse_floats 0 v) (\<lambda>_.
     let txt = dump (sort_keys v) in
     if encodable txt then Inr txt else Inl (TypeError ''unencodable character''))"

section \<open>Digests\<close>

type_synonym sha = "ustr \<Rightarrow> ustr"

definition digest_of :: "sha \<Rightarrow> json \<Rightarrow> ustr result" where
  "digest_of sha v = rbind (canonical_text v) (\<lambda>txt. Inr (sha txt))"

definition self_hash :: "sha \<Rightarrow> (ustr \<times> json) list \<Rightarrow> ustr result" where
  "self_hash sha rec = digest_of sha (JObj (filter (\<lambda>(k, v). k \<noteq> u ''self_hash'') rec))"

definition verify_self_hash :: "sha \<Rightarrow> (ustr \<times> json) list \<Rightarrow> bool" where
  "verify_self_hash sha rec =
     (case field rec ''self_hash'' of
        Some (JStr stored) \<Rightarrow> (case self_hash sha rec of Inl e \<Rightarrow> False | Inr h \<Rightarrow> stored = h)
      | _ \<Rightarrow> False)"

end
