(* ===== verification/Identities.thy ===== *)
theory Identities
  imports Canonical PageFeed
begin

text \<open>
  The derived identities, \<open>common/contracts/identities.py\<close>: the prefix of a kind and the first sixteen
  digits of the digest of its kind and bindings, what each identity binds, and the checks of the
  bindings. The composed normal form of a text, Python's Unicode database, is the parameter \<open>nfc\<close>.
\<close>

section \<open>Deriving and verifying\<close>

definition DIGEST_CHARS :: nat where
  "DIGEST_CHARS = 16"

definition PREFIXES :: "(string \<times> string) list" where
  "PREFIXES = [(''page'', ''pg''), (''act'', ''act''), (''physical-page'', ''ppg''), (''physical-act'', ''pac''),
     (''region'', ''rgn''), (''attempt'', ''att''), (''artifact'', ''art''), (''lot'', ''lot'')]"

definition derive :: "sha \<Rightarrow> string \<Rightarrow> json \<Rightarrow> ustr result" where
  "derive sha kind bindings =
     (case map_of PREFIXES kind of
        None \<Rightarrow> Inl (IdentityRefusal ''no identity kind'')
      | Some prefix \<Rightarrow>
          rbind (digest_of sha (JObj [(u ''kind'', JStr (u kind)), (u ''bindings'', bindings)])) (\<lambda>digest.
            Inr (u prefix @ 95 # take DIGEST_CHARS digest)))"

text \<open>The shape of an identity. A dollar in a pattern also matches before a newline that ends the text.\<close>

definition hex_lower :: "int \<Rightarrow> bool" where
  "hex_lower c \<longleftrightarrow> c \<in> set (u ''0123456789abcdef'')"

definition to_dollar :: "(ustr \<Rightarrow> bool) \<Rightarrow> ustr \<Rightarrow> bool" where
  "to_dollar shape s \<longleftrightarrow> shape s \<or> s \<noteq> [] \<and> last s = 10 \<and> shape (butlast s)"

definition has_id_shape :: "string \<Rightarrow> ustr \<Rightarrow> bool" where
  "has_id_shape prefix s \<longleftrightarrow>
     (let head = u prefix @ [95]; digits = drop (length head) s in
      take (length head) s = head \<and> length digits = DIGEST_CHARS \<and> list_all hex_lower digits)"

definition well_formed_text :: "ustr \<Rightarrow> bool" where
  "well_formed_text = to_dollar (\<lambda>s. list_ex (\<lambda>(kind, prefix). has_id_shape prefix s) PREFIXES)"

definition is_well_formed :: "json \<Rightarrow> bool" where
  "is_well_formed v = (case v of JStr s \<Rightarrow> well_formed_text s | _ \<Rightarrow> False)"

definition verify :: "sha \<Rightarrow> json \<Rightarrow> string \<Rightarrow> json \<Rightarrow> unit result" where
  "verify sha identity kind bindings =
     (if \<not> is_well_formed identity then Inl (IdentityRefusal ''is not a well-formed identity'')
      else rbind (derive sha kind bindings) (\<lambda>expected.
        ensure (identity = JStr expected) (IdentityRefusal ''does not verify against its own bindings'')))"

definition validate_run_id :: "json \<Rightarrow> ustr result" where
  "validate_run_id v =
     (let start = (\<lambda>c. 97 \<le> c \<and> c \<le> 122 \<or> digit c);
          shape = (\<lambda>s. s \<noteq> [] \<and> start (hd s) \<and> length s \<le> 64 \<and> list_all (\<lambda>c. start c \<or> c \<in> {45, 46, 95}) (tl s))
      in case v of
           JStr s \<Rightarrow> if to_dollar shape s then Inr s else Inl (IdentityRefusal ''run_id'')
         | _ \<Rightarrow> Inl (IdentityRefusal ''run_id''))"

definition is_digest :: "json \<Rightarrow> bool" where
  "is_digest v = (case v of JStr s \<Rightarrow> is_sha256_text s | _ \<Rightarrow> False)"

definition lot_id :: "sha \<Rightarrow> json \<Rightarrow> ustr result" where
  "lot_id sha run_self_hash =
     (if is_digest run_self_hash then derive sha ''lot'' (JObj [(u ''run_self_hash'', run_self_hash)])
      else Inl (IdentityRefusal ''sha256 self-hash''))"

definition is_lot :: "json \<Rightarrow> bool" where
  "is_lot v = (case v of JStr s \<Rightarrow> to_dollar (has_id_shape ''lot'') s | _ \<Rightarrow> False)"

section \<open>What an identity binds\<close>

definition closed :: "json \<Rightarrow> string list \<Rightarrow> (ustr \<times> json) list result" where
  "closed v members =
     (case v of
        JObj kvs \<Rightarrow> if keys_are kvs members then Inr kvs else Inl (IdentityRefusal ''closed record'')
      | _ \<Rightarrow> Inl (IdentityRefusal ''closed record''))"

definition bound :: "(ustr \<times> json) list \<Rightarrow> string \<Rightarrow> json result" where
  "bound kvs name = rget (KeyError name) (field kvs name)"

definition require_sha256 :: "json \<Rightarrow> unit result" where
  "require_sha256 v = ensure (is_digest v) (IdentityRefusal ''lowercase SHA-256 digest'')"

definition require_bounds :: "json \<Rightarrow> unit result" where
  "require_bounds v =
     rbind (closed v [''x'', ''y'', ''w'', ''h'']) (\<lambda>kvs.
       case (field kvs ''x'', field kvs ''y'', field kvs ''w'', field kvs ''h'') of
         (Some (JInt x), Some (JInt y), Some (JInt w), Some (JInt h)) \<Rightarrow>
           ensure (0 \<le> x \<and> 0 \<le> y \<and> 0 < w \<and> 0 < h) (IdentityRefusal ''bounds'')
       | _ \<Rightarrow> Inl (IdentityRefusal ''bounds''))"

definition has_prefix :: "json \<Rightarrow> string \<Rightarrow> bool" where
  "has_prefix v prefix =
     (case v of JStr s \<Rightarrow> well_formed_text s \<and> take (length prefix + 1) s = u prefix @ [95] | _ \<Rightarrow> False)"

definition require_identity :: "json \<Rightarrow> string \<Rightarrow> unit result" where
  "require_identity v prefix = ensure (has_prefix v prefix) (IdentityRefusal ''well-formed identity'')"

definition names_kind :: "json \<Rightarrow> string \<Rightarrow> string \<Rightarrow> bool" where
  "names_kind v name kind = (case v of JObj kvs \<Rightarrow> field kvs name = Some (JStr (u kind)) | _ \<Rightarrow> False)"

definition page_origin :: "json \<Rightarrow> unit result" where
  "page_origin origin =
     rbind (if names_kind origin ''kind'' ''source'' then closed origin [''kind'', ''sha256'']
            else closed origin [''kind'', ''container_sha256'', ''container_page_index'', ''render_contract'']) (\<lambda>kvs.
       if names_kind origin ''kind'' ''source'' then rbind (bound kvs ''sha256'') require_sha256
       else if names_kind origin ''kind'' ''container-page'' then
         (case (field kvs ''container_page_index'', field kvs ''render_contract'') of
            (Some (JInt index), Some (JObj _)) \<Rightarrow>
              if index < 0 then Inl (IdentityRefusal ''malformed immutable facts'')
              else rbind (bound kvs ''container_sha256'') require_sha256
          | _ \<Rightarrow> Inl (IdentityRefusal ''malformed immutable facts''))
       else Inl (IdentityRefusal ''page origin kind''))"

definition page_transform :: "json \<Rightarrow> unit result" where
  "page_transform transform =
     rbind (if names_kind transform ''operation'' ''whole'' then closed transform [''operation'']
            else closed transform [''operation'', ''bounds'']) (\<lambda>kvs.
       if names_kind transform ''operation'' ''split'' then rbind (bound kvs ''bounds'') require_bounds
       else ensure (names_kind transform ''operation'' ''whole'') (IdentityRefusal ''page transform operation''))"

definition page_bindings :: "json \<Rightarrow> json \<Rightarrow> json result" where
  "page_bindings origin transform =
     rbind (page_origin origin) (\<lambda>_. rbind (page_transform transform) (\<lambda>_.
       Inr (JObj [(u ''origin'', origin), (u ''transform'', transform)])))"

definition page_id :: "sha \<Rightarrow> json \<Rightarrow> json \<Rightarrow> ustr result" where
  "page_id sha origin transform = rbind (page_bindings origin transform) (derive sha ''page'')"

section \<open>Acts\<close>

definition ACT_CLASSES :: "string list" where
  "ACT_CLASSES = [''proposal'', ''residual'', ''page-fallback'', ''page-residual'']"

definition READING_ACT_CLASSES :: "string list" where
  "READING_ACT_CLASSES = [''reading'', ''reading-unplaced'']"

definition PAGE_READING_ROW_CLASSES :: "string list" where
  "PAGE_READING_ROW_CLASSES = [''page-unread'', ''page-blank'']"

definition reading_binding :: "json \<Rightarrow> ustr \<Rightarrow> unit result" where
  "reading_binding v act_class =
     rbind (closed v [''page_reading'', ''n'', ''union_box_px'']) (\<lambda>kvs.
     rbind (bound kvs ''page_reading'') (\<lambda>reading.
     rbind (require_identity reading ''att'') (\<lambda>_.
       case field kvs ''n'' of
         Some (JInt n) \<Rightarrow>
           if n < 1 then Inl (IdentityRefusal ''positive integer'')
           else rbind (bound kvs ''union_box_px'') (\<lambda>box.
             if act_class = u ''reading'' then require_bounds box
             else ensure (box = JNull) (IdentityRefusal ''binds no box''))
       | _ \<Rightarrow> Inl (IdentityRefusal ''positive integer''))))"

definition act_bindings :: "json \<Rightarrow> json \<Rightarrow> json \<Rightarrow> json result" where
  "act_bindings page act_class bounds =
     (case act_class of
        JStr c \<Rightarrow>
          if c \<in> set (map u READING_ACT_CLASSES) then
            rbind (require_identity page ''pg'') (\<lambda>_. rbind (reading_binding bounds c) (\<lambda>_.
              Inr (JObj [(u ''page_id'', page), (u ''class'', act_class), (u ''bounds'', bounds)])))
          else if c \<notin> set (map u (ACT_CLASSES @ PAGE_READING_ROW_CLASSES)) then Inl (IdentityRefusal ''act class'')
          else rbind (require_identity page ''pg'') (\<lambda>_. rbind (require_bounds bounds) (\<lambda>_.
              Inr (JObj [(u ''page_id'', page), (u ''class'', act_class), (u ''bounds'', bounds)])))
      | _ \<Rightarrow> Inl (IdentityRefusal ''is not a string''))"

definition act_id :: "sha \<Rightarrow> json \<Rightarrow> json \<Rightarrow> json \<Rightarrow> ustr result" where
  "act_id sha page act_class bounds = rbind (act_bindings page act_class bounds) (derive sha ''act'')"

section \<open>What a person declares\<close>

definition match_space :: matcher where
  "match_space s = (let n = length (takeWhile space_point s) in if n = 0 then None else Some (n, [32]))"

definition declared_text :: "(ustr \<Rightarrow> ustr) \<Rightarrow> ustr \<Rightarrow> ustr result" where
  "declared_text nfc s =
     (let folded = strip_space (re_sub match_space (nfc s))
      in if folded = [] then Inl (IdentityRefusal ''declares nothing'') else Inr folded)"

definition stated :: "json \<Rightarrow> ustr option" where
  "stated v = (case v of JStr s \<Rightarrow> if s = [] then None else Some s | _ \<Rightarrow> None)"

definition physical_page_bindings :: "(ustr \<Rightarrow> ustr) \<Rightarrow> json \<Rightarrow> json \<Rightarrow> json \<Rightarrow> json result" where
  "physical_page_bindings nfc corpus volume designation =
     (case (stated corpus, stated volume, stated designation) of
        (Some c, Some v, Some d) \<Rightarrow>
          rbind (declared_text nfc c) (\<lambda>c. rbind (declared_text nfc v) (\<lambda>v. rbind (declared_text nfc d) (\<lambda>d.
            Inr (JObj [(u ''corpus_id'', JStr c), (u ''volume_id'', JStr v), (u ''designation'', JStr d)]))))
      | _ \<Rightarrow> Inl (IdentityRefusal ''require non-empty corpus, volume, and designation''))"

definition physical_page_id :: "sha \<Rightarrow> (ustr \<Rightarrow> ustr) \<Rightarrow> json \<Rightarrow> json \<Rightarrow> json \<Rightarrow> ustr result" where
  "physical_page_id sha nfc corpus volume designation =
     rbind (physical_page_bindings nfc corpus volume designation) (derive sha ''physical-page'')"

definition physical_act_bindings :: "(ustr \<Rightarrow> ustr) \<Rightarrow> json \<Rightarrow> json \<Rightarrow> json result" where
  "physical_act_bindings nfc page mint =
     (case stated mint of
        None \<Rightarrow> Inl (IdentityRefusal ''mint designation'')
      | Some m \<Rightarrow>
          rbind (require_identity page ''ppg'') (\<lambda>_. rbind (declared_text nfc m) (\<lambda>m.
            Inr (JObj [(u ''physical_page_id'', page), (u ''mint_designation'', JStr m)]))))"

definition physical_act_id :: "sha \<Rightarrow> (ustr \<Rightarrow> ustr) \<Rightarrow> json \<Rightarrow> json \<Rightarrow> ustr result" where
  "physical_act_id sha nfc page mint = rbind (physical_act_bindings nfc page mint) (derive sha ''physical-act'')"

section \<open>Regions, attempts, artifacts\<close>

definition region_id :: "sha \<Rightarrow> json \<Rightarrow> json \<Rightarrow> ustr result" where
  "region_id sha act transform = derive sha ''region'' (JObj [(u ''act_id'', act), (u ''transform'', transform)])"

definition attempt_id :: "sha \<Rightarrow> json \<Rightarrow> json \<Rightarrow> json \<Rightarrow> ustr result" where
  "attempt_id sha subject operation ordinal =
     derive sha ''attempt'' (JObj [(u ''subject_id'', subject), (u ''operation'', operation), (u ''ordinal'', ordinal)])"

definition PERLECTOR_READING_OPERATIONS :: "string list" where
  "PERLECTOR_READING_OPERATIONS = [''perlegere'']"

definition perlector_attempt_id :: "sha \<Rightarrow> json \<Rightarrow> json \<Rightarrow> json \<Rightarrow> ustr result" where
  "perlector_attempt_id sha subject operation ordinal =
     (if operation \<in> set (map (\<lambda>name. JStr (u name)) PERLECTOR_READING_OPERATIONS) then attempt_id sha subject operation ordinal
      else Inl (IdentityRefusal ''unknown Perlector reading operation''))"

definition artifact_id :: "sha \<Rightarrow> json \<Rightarrow> json \<Rightarrow> json \<Rightarrow> json \<Rightarrow> ustr result" where
  "artifact_id sha stage kind subject attempt =
     derive sha ''artifact'' (JObj [(u ''stage'', stage), (u ''kind'', kind), (u ''subject_id'', subject), (u ''attempt_id'', attempt)])"

end
