(* ===== verification/Register.thy ===== *)
theory Register
  imports Identities
begin

text \<open>
  The corpus register, \<open>common/corpus_register.py\<close>: what replaying its records establishes (\<open>register_reading\<close>), the
  check of each record, the reading of the register's text, and the two writers under the lock. The
  register's file is its text, or \<open>None\<close> when there is none; a byte that is no UTF-8, the path and the
  lock are not modelled. A repeated key, or a constant that is not JSON, is refused while it is decoded,
  where the code refuses it when it compares the canonical text.
\<close>

definition SCHEMA :: ustr where
  "SCHEMA = u ''corpus-register-v1''"

definition MAX_REGISTER_BYTES :: int where
  "MAX_REGISTER_BYTES = 64 * 1024 * 1024"

definition MAX_REGISTER_RECORDS :: int where
  "MAX_REGISTER_RECORDS = 100000"

definition MAX_RECORD_LIST_ITEMS :: int where
  "MAX_RECORD_LIST_ITEMS = 100000"

section \<open>No preference among captures\<close>

definition FORBIDDEN_PREFERENCE_FIELDS :: "string list" where
  "FORBIDDEN_PREFERENCE_FIELDS = [''primary'', ''canonical'', ''best'', ''better'', ''preferred'', ''superseded_by'',
     ''winner'', ''selected'', ''chosen'', ''consensus'', ''majority'', ''vote'', ''quorum'']"

fun prefers :: "json \<Rightarrow> bool"
  and prefers_in_list :: "json list \<Rightarrow> bool"
  and prefers_in_object :: "(ustr \<times> json) list \<Rightarrow> bool" where
  "prefers (JObj kvs) = prefers_in_object kvs"
| "prefers (JList vs) = prefers_in_list vs"
| "prefers JNull = False"
| "prefers (JBool b) = False"
| "prefers (JInt i) = False"
| "prefers JFloat = False"
| "prefers (JStr s) = False"
| "prefers_in_list [] = False"
| "prefers_in_list (v # vs) = (prefers v \<or> prefers_in_list vs)"
| "prefers_in_object [] = False"
| "prefers_in_object ((k, v) # kvs) = (k \<in> set (map u FORBIDDEN_PREFERENCE_FIELDS) \<or> prefers v \<or> prefers_in_object kvs)"

definition refuse_capture_preference :: "json \<Rightarrow> unit result" where
  "refuse_capture_preference v = ensure (\<not> prefers v) (SchemaRefusal ''may not express capture preference'')"

section \<open>The state of a replay\<close>

text \<open>A link of a page's chain: the digest of its record and the captures it names.\<close>

type_synonym link = "ustr \<times> ustr list"

record register_reading =
  rd_seen :: "ustr list"
  rd_pages :: "ustr list"
  rd_acts :: "ustr list"
  rd_act_pages :: "(ustr \<times> ustr) list"
  rd_correspondences :: "(ustr \<times> (ustr \<times> json) list) list"
  rd_heads :: "(ustr \<times> link) list"
  rd_chains :: "(ustr \<times> link list) list"
  rd_links :: "ustr list"
  rd_retracted :: "ustr list"

definition new_reading :: register_reading where
  "new_reading = \<lparr>rd_seen = [], rd_pages = [], rd_acts = [], rd_act_pages = [], rd_correspondences = [],
     rd_heads = [], rd_chains = [], rd_links = [], rd_retracted = []\<rparr>"

section \<open>The checks of a record\<close>

definition closed_row :: "(ustr \<times> json) list \<Rightarrow> string list \<Rightarrow> unit result" where
  "closed_row rec members = ensure (keys_are rec members) (SchemaRefusal ''must be the closed record'')"

text \<open>\<open>sorted(set(value))\<close>: a list or an object cannot be hashed, and texts, numbers and null do not compare.\<close>

definition py_class :: "json \<Rightarrow> nat option" where
  "py_class v =
     (case v of JStr _ \<Rightarrow> Some 0 | JNull \<Rightarrow> Some 1 | JBool _ \<Rightarrow> Some 2 | JInt _ \<Rightarrow> Some 2 | JFloat \<Rightarrow> Some 2 | _ \<Rightarrow> None)"

definition texts_of :: "json list \<Rightarrow> ustr list option" where
  "texts_of vs =
     (let texts = concat (map (\<lambda>v. case v of JStr s \<Rightarrow> [s] | _ \<Rightarrow> []) vs)
      in if length texts = length vs then Some texts else None)"

definition digests :: "json \<Rightarrow> ustr list result" where
  "digests v =
     (case v of
        JList vs \<Rightarrow>
          if int (length vs) > MAX_RECORD_LIST_ITEMS then Inl (SchemaRefusal ''sorted unique source digests'')
          else if None \<in> set (map py_class vs) then Inl (TypeError ''unhashable type'')
          else if length (remdups (map py_class vs)) > 1 then Inl (TypeError ''not supported between instances'')
          else (case texts_of vs of
            Some texts \<Rightarrow>
              if texts = sorted_set texts \<and> list_all is_sha256_text texts then Inr texts
              else Inl (SchemaRefusal ''sorted unique source digests'')
          | None \<Rightarrow> Inl (SchemaRefusal ''sorted unique source digests''))
      | _ \<Rightarrow> Inl (SchemaRefusal ''sorted unique source digests''))"

definition register_identity :: "(ustr \<times> json) list \<Rightarrow> string \<Rightarrow> string \<Rightarrow> ustr result" where
  "register_identity rec name prefix =
     rbind (bound rec name) (\<lambda>v.
       case v of JStr s \<Rightarrow> if has_prefix v prefix then Inr s else Inl (SchemaRefusal name)
       | _ \<Rightarrow> Inl (SchemaRefusal name))"

definition stated_field :: "(ustr \<times> json) list \<Rightarrow> string \<Rightarrow> ustr result" where
  "stated_field rec name = rbind (bound rec name) (\<lambda>v. rget (SchemaRefusal name) (stated v))"

definition check_evidence :: "json \<Rightarrow> unit result" where
  "check_evidence v =
     (case v of
        JList vs \<Rightarrow>
          ensure (vs \<noteq> [] \<and> int (length vs) \<le> MAX_RECORD_LIST_ITEMS \<and> list_all (\<lambda>v. stated v \<noteq> None) vs)
            (SchemaRefusal ''must name one or more evidence records'')
      | _ \<Rightarrow> Inl (SchemaRefusal ''must name one or more evidence records''))"

definition require_declared :: "ustr \<Rightarrow> ustr list \<Rightarrow> unit result" where
  "require_declared identity declared =
     ensure (identity \<in> set declared) (SchemaRefusal ''before any earlier record declares it'')"

definition physical_page_record :: "sha \<Rightarrow> (ustr \<Rightarrow> ustr) \<Rightarrow> (ustr \<times> json) list \<Rightarrow> register_reading \<Rightarrow> (ustr \<times> register_reading) result" where
  "physical_page_record sha nfc rec rd =
     rbind (closed_row rec [''kind'', ''corpus_id'', ''volume_id'', ''designation'', ''physical_page_id'', ''appending_run'']) (\<lambda>_.
     rbind (bound rec ''corpus_id'') (\<lambda>corpus. rbind (bound rec ''volume_id'') (\<lambda>volume.
     rbind (bound rec ''designation'') (\<lambda>designation.
     rbind (physical_page_id sha nfc corpus volume designation) (\<lambda>expected.
     rbind (bound rec ''physical_page_id'') (\<lambda>page.
     rbind (ensure (page = JStr expected) (SchemaRefusal ''does not bind its declaration'')) (\<lambda>_.
     rbind (stated_field rec ''appending_run'') (\<lambda>_.
       Inr (expected, rd\<lparr>rd_pages := expected # rd_pages rd\<rparr>)))))))))"

text \<open>One link of a page's chain, which only grows.\<close>

definition chain_of :: "(ustr \<times> link list) list \<Rightarrow> ustr \<Rightarrow> link list" where
  "chain_of kept page = (case map_of kept page of None \<Rightarrow> [] | Some chain \<Rightarrow> chain)"

definition check_succession :: "register_reading \<Rightarrow> ustr \<Rightarrow> json \<Rightarrow> ustr list \<Rightarrow> unit result" where
  "check_succession rd page predecessor members =
     (case map_of (rd_heads rd) page of
        None \<Rightarrow>
          rbind (require_declared page (rd_pages rd)) (\<lambda>_.
            ensure (predecessor = JNull) (SchemaRefusal ''a chain cannot start midway''))
      | Some (digest, prior) \<Rightarrow>
          rbind (ensure (predecessor = JStr digest) (SchemaRefusal ''does not name the record it succeeds'')) (\<lambda>_.
            ensure (set prior \<subset> set members) (SchemaRefusal ''does not add a capture'')))"

definition membership_record :: "sha \<Rightarrow> (ustr \<times> json) list \<Rightarrow> register_reading \<Rightarrow> (ustr \<times> register_reading) result" where
  "membership_record sha rec rd =
     rbind (closed_row rec [''kind'', ''physical_page_id'', ''members'', ''predecessor'', ''appending_run'']) (\<lambda>_.
     rbind (stated_field rec ''physical_page_id'') (\<lambda>page.
     rbind (stated_field rec ''appending_run'') (\<lambda>_.
     rbind (bound rec ''members'') (\<lambda>given. rbind (digests given) (\<lambda>members.
     rbind (ensure (members \<noteq> []) (SchemaRefusal ''names no capture'')) (\<lambda>_.
     rbind (bound rec ''predecessor'') (\<lambda>predecessor.
     rbind (check_succession rd page predecessor members) (\<lambda>_.
     rbind (digest_of sha (JObj rec)) (\<lambda>digest.
     let link = (digest, members)
     in Inr (u ''membership:'' @ digest,
          rd\<lparr>rd_heads := AList.update page link (rd_heads rd),
            rd_chains := AList.update page (chain_of (rd_chains rd) page @ [link]) (rd_chains rd),
            rd_links := digest # rd_links rd\<rparr>))))))))))"

definition physical_act_record :: "sha \<Rightarrow> (ustr \<Rightarrow> ustr) \<Rightarrow> (ustr \<times> json) list \<Rightarrow> register_reading \<Rightarrow> (ustr \<times> register_reading) result" where
  "physical_act_record sha nfc rec rd =
     rbind (closed_row rec [''kind'', ''physical_page_id'', ''mint_designation'', ''physical_act_id'', ''evidence'', ''appending_run'']) (\<lambda>_.
     rbind (bound rec ''physical_page_id'') (\<lambda>page. rbind (bound rec ''mint_designation'') (\<lambda>mint.
     rbind (physical_act_id sha nfc page mint) (\<lambda>expected.
     rbind (bound rec ''physical_act_id'') (\<lambda>act.
     rbind (ensure (act = JStr expected) (SchemaRefusal ''does not bind its mint'')) (\<lambda>_.
     rbind (stated_field rec ''appending_run'') (\<lambda>_.
     rbind (bound rec ''evidence'') (\<lambda>evidence. rbind (check_evidence evidence) (\<lambda>_.
     rbind (register_identity rec ''physical_page_id'' ''ppg'') (\<lambda>page.
     rbind (require_declared page (rd_pages rd)) (\<lambda>_.
       Inr (expected, rd\<lparr>rd_acts := expected # rd_acts rd,
         rd_act_pages := AList.update expected page (rd_act_pages rd)\<rparr>))))))))))))"

definition correspondence_identity :: "ustr \<Rightarrow> ustr \<Rightarrow> ustr" where
  "correspondence_identity act physical_act = act @ u ''->'' @ physical_act"

definition check_local_act :: "sha \<Rightarrow> ustr \<Rightarrow> ustr \<Rightarrow> json \<Rightarrow> json \<Rightarrow> unit result" where
  "check_local_act sha act page act_class bounds =
     (case act_id sha (JStr page) act_class bounds of
        Inl _ \<Rightarrow> Inl (SchemaRefusal ''malformed local act bindings'')
      | Inr expected \<Rightarrow> ensure (act = expected) (SchemaRefusal ''does not bind the page, class, and bounds''))"

definition correspondence_record :: "sha \<Rightarrow> (ustr \<times> json) list \<Rightarrow> register_reading \<Rightarrow> (ustr \<times> register_reading) result" where
  "correspondence_record sha rec rd =
     rbind (closed_row rec [''kind'', ''page_id'', ''act_id'', ''act_class'', ''act_bounds'', ''physical_page_id'',
       ''physical_act_id'', ''evidence'', ''appending_run'']) (\<lambda>_.
     rbind (stated_field rec ''appending_run'') (\<lambda>run.
     rbind (register_identity rec ''page_id'' ''pg'') (\<lambda>page.
     rbind (register_identity rec ''act_id'' ''act'') (\<lambda>act.
     rbind (register_identity rec ''physical_page_id'' ''ppg'') (\<lambda>physical_page.
     rbind (register_identity rec ''physical_act_id'' ''pac'') (\<lambda>physical_act.
     rbind (bound rec ''act_class'') (\<lambda>act_class. rbind (bound rec ''act_bounds'') (\<lambda>bounds.
     rbind (check_local_act sha act page act_class bounds) (\<lambda>_.
     rbind (bound rec ''evidence'') (\<lambda>evidence. rbind (check_evidence evidence) (\<lambda>_.
     rbind (require_declared physical_page (rd_pages rd)) (\<lambda>_.
     rbind (require_declared physical_act (rd_acts rd)) (\<lambda>_.
     rbind (rget (KeyError ''physical_act_id'') (map_of (rd_act_pages rd) physical_act)) (\<lambda>minted_for.
     rbind (ensure (minted_for = physical_page) (SchemaRefusal ''minted for a different physical page'')) (\<lambda>_.
     let identity = correspondence_identity act physical_act in
     rbind (ensure (map_of (rd_correspondences rd) identity = None) (SchemaRefusal ''already declares correspondence'')) (\<lambda>_.
       Inr (identity @ 64 # run, rd\<lparr>rd_correspondences := AList.update identity rec (rd_correspondences rd)\<rparr>)))))))))))))))))"

text \<open>Withdrawing the newest link of a page's chain; the one before it becomes the head again.\<close>

definition retract_membership :: "ustr \<Rightarrow> register_reading \<Rightarrow> register_reading result" where
  "retract_membership target rd =
     (case find (\<lambda>(page, head). fst head = target \<and> map_of (rd_chains rd) page \<notin> {None, Some []}) (rd_heads rd) of
        None \<Rightarrow>
          if target \<in> set (rd_retracted rd) then Inl (SchemaRefusal ''already retracted'')
          else if target \<in> set (rd_links rd) then Inl (SchemaRefusal ''not the current head'')
          else Inl (SchemaRefusal ''never declares'')
      | Some (page, head) \<Rightarrow>
          rbind (rget (KeyError ''membership_chain'') (map_of (rd_chains rd) page)) (\<lambda>chain.
          let rest = butlast chain;
              rd = rd\<lparr>rd_chains := AList.update page rest (rd_chains rd), rd_retracted := target # rd_retracted rd\<rparr>
          in Inr (if rest \<noteq> [] then rd\<lparr>rd_heads := AList.update page (last rest) (rd_heads rd)\<rparr>
                  else rd\<lparr>rd_heads := AList.delete page (rd_heads rd)\<rparr>)))"

definition MEMBERSHIP :: ustr where
  "MEMBERSHIP = u ''membership:''"

definition retraction_record :: "(ustr \<times> json) list \<Rightarrow> register_reading \<Rightarrow> (ustr \<times> register_reading) result" where
  "retraction_record rec rd =
     rbind (closed_row rec [''kind'', ''retracts'', ''reason'', ''appending_run'']) (\<lambda>_.
     rbind (stated_field rec ''retracts'') (\<lambda>retracts. rbind (stated_field rec ''reason'') (\<lambda>_.
     rbind (stated_field rec ''appending_run'') (\<lambda>run.
     rbind (if take (length MEMBERSHIP) retracts = MEMBERSHIP
         then retract_membership (drop (length MEMBERSHIP) retracts) rd
       else if map_of (rd_correspondences rd) retracts = None
         then Inl (SchemaRefusal ''a retraction that corrects nothing is not a correction'')
       else Inr (rd\<lparr>rd_correspondences := AList.delete retracts (rd_correspondences rd)\<rparr>)) (\<lambda>rd.
       Inr (u ''retract:'' @ retracts @ 64 # run, rd))))))"

definition validate_record :: "sha \<Rightarrow> (ustr \<Rightarrow> ustr) \<Rightarrow> json \<Rightarrow> register_reading \<Rightarrow> register_reading result" where
  "validate_record sha nfc v rd =
     (case v of
        JObj rec \<Rightarrow>
          (case field rec ''kind'' of
             Some (JStr kind) \<Rightarrow>
               rbind (if kind = u ''physical-page'' then physical_page_record sha nfc rec rd
                 else if kind = u ''membership'' then membership_record sha rec rd
                 else if kind = u ''physical-act'' then physical_act_record sha nfc rec rd
                 else if kind = u ''correspondence'' then correspondence_record sha rec rd
                 else if kind = u ''retraction'' then retraction_record rec rd
                 else Inl (SchemaRefusal ''unknown corpus register record kind'')) (\<lambda>(identity, rd').
                 if identity \<in> set (rd_seen rd') then Inl (SchemaRefusal ''repeats immutable record'')
                 else Inr (rd'\<lparr>rd_seen := identity # rd_seen rd'\<rparr>))
           | _ \<Rightarrow> Inl (SchemaRefusal ''has no kind''))
      | _ \<Rightarrow> Inl (SchemaRefusal ''has no kind''))"

fun replay :: "sha \<Rightarrow> (ustr \<Rightarrow> ustr) \<Rightarrow> json list \<Rightarrow> register_reading \<Rightarrow> register_reading result" where
  "replay sha nfc [] rd = Inr rd"
| "replay sha nfc (v # vs) rd = rbind (validate_record sha nfc v rd) (replay sha nfc vs)"

section \<open>The register's text\<close>

definition utf8_width :: "int \<Rightarrow> int" where
  "utf8_width c = (if c < 128 then 1 else if c < 2048 then 2 else if c < 65536 then 3 else 4)"

definition byte_length :: "ustr \<Rightarrow> int" where
  "byte_length s = sum_list (map utf8_width s)"

definition loads :: "ustr \<Rightarrow> json option" where
  "loads s = (case raw_decode (skip_ws s) of Inr (v, rest) \<Rightarrow> if skip_ws rest = [] then Some v else None | Inl _ \<Rightarrow> None)"

definition register_value :: "json list \<Rightarrow> json" where
  "register_value records = JObj [(u ''schema'', JStr SCHEMA), (u ''records'', JList records)]"

definition read_value :: "sha \<Rightarrow> (ustr \<Rightarrow> ustr) \<Rightarrow> ustr \<Rightarrow> (json list \<times> register_reading) result" where
  "read_value sha nfc data =
     (if byte_length data > MAX_REGISTER_BYTES then Inl (SchemaRefusal ''past the validation bound'')
      else case loads data of
        Some (JObj kvs) \<Rightarrow>
          if \<not> keys_are kvs [''schema'', ''records''] then Inl (SchemaRefusal ''closed record'')
          else (case (field kvs ''schema'', field kvs ''records'') of
            (Some (JStr schema), Some (JList records)) \<Rightarrow>
              if schema \<noteq> SCHEMA then Inl (SchemaRefusal ''unknown schema'')
              else if int (length records) > MAX_REGISTER_RECORDS then Inl (SchemaRefusal ''replay bound'')
              else rbind (refuse_capture_preference (JObj kvs)) (\<lambda>_.
                rbind (replay sha nfc records new_reading) (\<lambda>rd.
                rbind (canonical_text (JObj kvs)) (\<lambda>txt.
                if txt \<noteq> data then Inl (SchemaRefusal ''must be canonical JSON'') else Inr (records, rd))))
          | _ \<Rightarrow> Inl (SchemaRefusal ''unknown schema or non-list records''))
      | Some _ \<Rightarrow> Inl (SchemaRefusal ''closed record'')
      | None \<Rightarrow> Inl (SchemaRefusal ''is not UTF-8 JSON''))"

definition register_digest :: "sha \<Rightarrow> (ustr \<Rightarrow> ustr) \<Rightarrow> ustr \<Rightarrow> ustr result" where
  "register_digest sha nfc data = rbind (read_value sha nfc data) (\<lambda>_. Inr (sha data))"

definition members_of :: "sha \<Rightarrow> (ustr \<Rightarrow> ustr) \<Rightarrow> ustr \<Rightarrow> ustr \<Rightarrow> ustr list result" where
  "members_of sha nfc data page =
     rbind (read_value sha nfc data) (\<lambda>(_, rd).
     rbind (ensure (has_prefix (JStr page) ''ppg'') (SchemaRefusal ''membership lookup physical page'')) (\<lambda>_.
       Inr (case map_of (rd_heads rd) page of None \<Rightarrow> [] | Some (_, members) \<Rightarrow> sort members)))"

definition membership_heads :: "sha \<Rightarrow> (ustr \<Rightarrow> ustr) \<Rightarrow> ustr \<Rightarrow> (ustr \<times> link) list result" where
  "membership_heads sha nfc data = rbind (read_value sha nfc data) (\<lambda>(_, rd). Inr (rd_heads rd))"

section \<open>The writers\<close>

definition empty_register :: "ustr result" where
  "empty_register = canonical_text (register_value [])"

definition current_register :: "ustr option \<Rightarrow> ustr result" where
  "current_register file = (case file of Some data \<Rightarrow> Inr data | None \<Rightarrow> empty_register)"

definition require_observed_head :: "sha \<Rightarrow> (ustr \<Rightarrow> ustr) \<Rightarrow> ustr \<Rightarrow> ustr \<Rightarrow> ustr result" where
  "require_observed_head sha nfc current expected =
     rbind (register_digest sha nfc current) (\<lambda>observed.
       if observed \<noteq> expected then Inl (IncompatibleReuse ''the corpus register changed'') else Inr observed)"

text \<open>Appending under the lock: the new text and its digest. The file is replaced as a whole, or not at all.\<close>

definition append_records :: "sha \<Rightarrow> (ustr \<Rightarrow> ustr) \<Rightarrow> json list \<Rightarrow> ustr \<Rightarrow> ustr option \<Rightarrow> (ustr \<times> ustr) result" where
  "append_records sha nfc new expected file =
     rbind (ensure (is_sha256_text expected) (SchemaRefusal ''must be lowercase SHA-256'')) (\<lambda>_.
     rbind (ensure (new \<noteq> [] \<and> list_all (\<lambda>v. case v of JObj _ \<Rightarrow> True | _ \<Rightarrow> False) new) (SchemaRefusal ''one or more records'')) (\<lambda>_.
     rbind (ensure (int (length new) \<le> MAX_REGISTER_RECORDS) (SchemaRefusal ''replay bound'')) (\<lambda>_.
     rbind (current_register file) (\<lambda>current.
     rbind (require_observed_head sha nfc current expected) (\<lambda>_.
     rbind (read_value sha nfc current) (\<lambda>(records, _).
     rbind (canonical_text (register_value (records @ new))) (\<lambda>successor.
     rbind (register_digest sha nfc successor) (\<lambda>digest.
       Inr (digest, successor)))))))))"

definition confirm_unchanged_head :: "sha \<Rightarrow> (ustr \<Rightarrow> ustr) \<Rightarrow> ustr \<Rightarrow> ustr option \<Rightarrow> ustr result" where
  "confirm_unchanged_head sha nfc expected file =
     rbind (ensure (is_sha256_text expected) (SchemaRefusal ''must be lowercase SHA-256'')) (\<lambda>_.
     rbind (current_register file) (\<lambda>current. require_observed_head sha nfc current expected))"

end
