(* ===== verification/CanonicalFacts.thy ===== *)
theory CanonicalFacts
  imports Canonical
begin

text \<open>
  The canonical text is read back as the value it was written from, its keys in order; so two values
  have one text exactly when they have the same content, and a record that verifies under the digest
  of another is that record or the two texts collide.
\<close>

section \<open>Values as Python has them\<close>

text \<open>A dictionary has each key once, and a text is made of code points.\<close>

definition code_points :: "ustr \<Rightarrow> bool" where
  "code_points s \<longleftrightarrow> list_all (\<lambda>c. 0 \<le> c) s"

fun dict_like :: "json \<Rightarrow> bool"
  and dict_like_list :: "json list \<Rightarrow> bool"
  and dict_like_members :: "(ustr \<times> json) list \<Rightarrow> bool" where
  "dict_like (JStr s) = code_points s"
| "dict_like (JList vs) = dict_like_list vs"
| "dict_like (JObj kvs) = (distinct (map fst kvs) \<and> dict_like_members kvs)"
| "dict_like JNull = True"
| "dict_like (JBool b) = True"
| "dict_like (JInt i) = True"
| "dict_like JFloat = True"
| "dict_like_list [] = True"
| "dict_like_list (v # vs) = (dict_like v \<and> dict_like_list vs)"
| "dict_like_members [] = True"
| "dict_like_members ((k, v) # kvs) = (code_points k \<and> dict_like v \<and> dict_like_members kvs)"

text \<open>What the walk lets through: no float, and no integer past the bound.\<close>

fun exact :: "json \<Rightarrow> bool"
  and exact_list :: "json list \<Rightarrow> bool"
  and exact_members :: "(ustr \<times> json) list \<Rightarrow> bool" where
  "exact JFloat = False"
| "exact (JInt i) = magnitude_held i"
| "exact (JList vs) = exact_list vs"
| "exact (JObj kvs) = exact_members kvs"
| "exact JNull = True"
| "exact (JBool b) = True"
| "exact (JStr s) = True"
| "exact_list [] = True"
| "exact_list (v # vs) = (exact v \<and> exact_list vs)"
| "exact_members [] = True"
| "exact_members ((k, v) # kvs) = (exact v \<and> exact_members kvs)"

lemma refuse_exact:
  "refuse_floats d v = Inr x \<Longrightarrow> exact v"
  "refuse_in_list d vs = Inr x \<Longrightarrow> exact_list vs"
  "refuse_in_object d kvs = Inr x \<Longrightarrow> exact_members kvs"
  by (induction d v and d vs and d kvs rule: refuse_floats_refuse_in_list_refuse_in_object.induct)
     (auto simp: result_simps split: if_splits)

section \<open>Sorted keys\<close>

lemma sort_keys_list_map: "sort_keys_list vs = map sort_keys vs"
  by (induction vs) simp_all

lemma sort_keys_members_map: "sort_keys_members kvs = map (\<lambda>(k, v). (k, sort_keys v)) kvs"
  by (induction kvs) auto

lemma dict_like_list_all: "dict_like_list vs = list_all dict_like vs"
  by (induction vs) simp_all

lemma dict_like_members_all: "dict_like_members kvs = list_all (\<lambda>(k, v). code_points k \<and> dict_like v) kvs"
  by (induction kvs) auto

lemma exact_list_all: "exact_list vs = list_all exact vs"
  by (induction vs) simp_all

lemma exact_members_all: "exact_members kvs = list_all (\<lambda>(k, v). exact v) kvs"
  by (induction kvs) auto

lemma fst_sort_keys_members [simp]: "map fst (sort_keys_members kvs) = map fst kvs"
  by (induction kvs) auto

lemma distinct_sort_key: "distinct (map fst (sort_key fst kvs)) = distinct (map fst kvs)"
  by (simp add: distinct_map)

lemma list_all_sort_key [simp]: "list_all p (sort_key f xs) = list_all p xs"
  by (simp add: list_all_iff)

lemma sort_keys_dict_like:
  "dict_like v \<Longrightarrow> dict_like (sort_keys v)"
  "dict_like_list vs \<Longrightarrow> dict_like_list (sort_keys_list vs)"
  "dict_like_members kvs \<Longrightarrow> dict_like_members (sort_keys_members kvs)"
  by (induction v and vs and kvs rule: sort_keys_sort_keys_list_sort_keys_members.induct)
     (simp_all add: distinct_sort_key, simp add: dict_like_members_all)

lemma sort_keys_exact:
  "exact v \<Longrightarrow> exact (sort_keys v)"
  "exact_list vs \<Longrightarrow> exact_list (sort_keys_list vs)"
  "exact_members kvs \<Longrightarrow> exact_members (sort_keys_members kvs)"
  by (induction v and vs and kvs rule: sort_keys_sort_keys_list_sort_keys_members.induct)
     (simp_all, simp add: exact_members_all)

lemma sort_keys_twice:
  "sort_keys (sort_keys v) = sort_keys v"
  "sort_keys_list (sort_keys_list vs) = sort_keys_list vs"
  "map (\<lambda>(k, v). (k, sort_keys v)) (sort_keys_members kvs) = sort_keys_members kvs"
proof (induction v and vs and kvs rule: sort_keys_sort_keys_list_sort_keys_members.induct)
  case (2 kvs)
  have "map (\<lambda>(k, v). (k, sort_keys v)) (sort_key fst (sort_keys_members kvs)) = sort_key fst (sort_keys_members kvs)"
  proof (rule map_idI)
    fix x assume "x \<in> set (sort_key fst (sort_keys_members kvs))"
    then have "x \<in> set (sort_keys_members kvs)" by simp
    moreover have "map (\<lambda>(k, v). (k, sort_keys v)) (sort_keys_members kvs) = map (\<lambda>x. x) (sort_keys_members kvs)"
      using 2 by simp
    ultimately show "(case x of (k, v) \<Rightarrow> (k, sort_keys v)) = x" unfolding map_eq_conv by blast
  qed
  then show ?case by (simp add: sort_keys_members_map sort_key_id_if_sorted)
qed simp_all

section \<open>Strings and numbers read back\<close>

lemma control_hex4: "\<forall>c \<in> set [0 .. 31]. hex4 [48, 48, hex_point (c div 16), hex_point (c mod 16)] = Some c"
  by code_simp

lemma escaped_cases:
  assumes "0 \<le> c"
  obtains (plain) "escaped c = [c]" "c \<noteq> 34" "c \<noteq> 92" "32 \<le> c"
  | (short) e :: int where "escaped c = [92, e]" "e \<noteq> 117" "escape e = Some c"
  | (control) "escaped c = [92, 117, 48, 48, hex_point (c div 16), hex_point (c mod 16)]" "c \<in> set [0 .. 31]"
proof (cases "map_of [(34, 34), (92, 92), (10, 110), (13, 114), (9, 116), (8, 98), (12, 102 :: int)] c")
  case (Some e)
  then show ?thesis by (intro short [of e]) (auto simp: escaped_def escape_def split: if_splits)
next
  case None
  then show ?thesis
    by (cases "c < 32") (use assms in \<open>auto simp: escaped_def intro: plain control split: if_splits\<close>)
qed

lemma scan_dumped_string:
  "code_points s \<Longrightarrow> scan_string (concat (map escaped s) @ 34 # rest) = Inr (s, rest)"
proof (induction s)
  case Nil
  then show ?case by (simp add: string_char_def)
next
  case (Cons c cs)
  let ?rest = "concat (map escaped cs) @ 34 # rest"
  have IH: "scan_string ?rest = Inr (cs, rest)" and c: "0 \<le> c" using Cons by (simp_all add: code_points_def)
  have "\<exists>e es. escaped c @ ?rest = e # es \<and> string_char e es = Inr (Some c, ?rest)"
    using c
  proof (cases rule: escaped_cases)
    case plain
    then show ?thesis by (simp add: string_char_def)
  next
    case (short e)
    then show ?thesis by (simp add: string_char_def)
  next
    case control
    with control_hex4 have h: "hex4 [48, 48, hex_point (c div 16), hex_point (c mod 16)] = Some c" by blast
    have "hex4 (48 # 48 # hex_point (c div 16) # hex_point (c mod 16) # ?rest) = Some c"
      using h by (simp add: hex4_def split: if_splits)
    with control show ?thesis by (simp add: string_char_def unicode_escape_def Let_def)
  qed
  then obtain e es where "escaped c @ ?rest = e # es" "string_char e es = Inr (Some c, ?rest)" by blast
  with IH show ?case by (simp add: push_def)
qed

text \<open>What may follow a value in a text: its end, or a closing bracket, brace or comma.\<close>

definition closes :: "ustr \<Rightarrow> bool" where
  "closes rest \<longleftrightarrow> rest = [] \<or> hd rest \<in> {44, 93, 125}"

lemma takeWhile_digits: "closes rest \<Longrightarrow> list_all digit ds \<Longrightarrow> takeWhile digit (ds @ rest) = ds"
  by (induction ds) (cases rest; auto simp: closes_def digit_def)+

lemma scan_dumped_int:
  assumes "closes rest" "magnitude_held i"
  shows "scan_number (dump_int i @ rest) = Inr (JInt i, rest)"
proof -
  let ?n = "\<bar>i\<bar>"
  have len: "length (decimal ?n) \<le> INT_MAX_STR_DIGITS"
  proof -
    have "length (decimal ?n) \<le> 640"
      by (rule decimal_length) (use assms(2) in \<open>unfold magnitude_held_def MAX_INTEGER_MAGNITUDE_def, linarith+\<close>)
    then show ?thesis by (simp add: INT_MAX_STR_DIGITS_def)
  qed
  have whole: "whole_part (decimal ?n @ rest) = decimal ?n"
  proof (cases "?n = 0")
    case True
    then show ?thesis by (simp add: whole_part_def decimal_small)
  next
    case False
    then have "1 \<le> ?n" by linarith
    from decimal_head [OF this] obtain d ds where d: "decimal ?n = d # ds" "digit d" "d \<noteq> 48" by blast
    moreover have "list_all digit ds" using decimal_digits [of ?n] d(1) by simp
    ultimately show ?thesis using takeWhile_digits [OF assms(1), of ds] by (simp add: whole_part_def)
  qed
  have nonempty: "decimal ?n \<noteq> []" 
  proof (cases "?n = 0")
    case False
    then have "1 \<le> ?n" by linarith
    from decimal_head [OF this] show ?thesis by auto
  qed (simp add: decimal_small)
  then have head: "take 1 (decimal ?n @ rest) \<noteq> [45]"
    using decimal_digits [of ?n] by (cases "decimal ?n") (auto simp: digit_def)
  have "frac_len rest = 0" "expo_len rest = 0" using assms(1)
    by (cases rest; auto simp: closes_def frac_len_def expo_len_def Let_def)+
  then have "number_parts (dump_int i @ rest) = Some (i < 0, decimal ?n, 0, rest)"
    using whole nonempty head by (cases "i < 0") (simp_all add: number_parts_def Let_def dump_int_def)
  then show ?thesis using len by (simp add: scan_number_def py_int_def)
qed

section \<open>Values read back\<close>

text \<open>How a written value begins, which is what the decoder looks at.\<close>

lemma dump_head:
  assumes "exact v"
  obtains c cs where "dump v = c # cs" "c \<notin> set JSON_WHITESPACE" "c \<noteq> 93" "c \<noteq> 125"
proof (cases v)
  case (JInt i)
  show ?thesis
  proof (cases "i < 0")
    case True
    then show ?thesis using that [of 45] JInt by (simp add: dump_int_def JSON_WHITESPACE_def)
  next
    case False
    obtain d ds where d: "decimal i = d # ds"
      using False decimal_head [of i] by (cases "i = 0") (auto simp: decimal_small)
    then have "digit d" using decimal_digits [of i] False by simp
    then show ?thesis using that [OF _ _ _ _, of d ds] JInt False d
      by (auto simp: dump_int_def JSON_WHITESPACE_def digit_def)
  qed
next
  case (JBool b)
  then show ?thesis using that by (cases b) (auto simp: u_def JSON_WHITESPACE_def)
qed (use assms that in \<open>auto simp: u_def dumped_text_def JSON_WHITESPACE_def\<close>)

lemma skip_ws_at: "c \<notin> set JSON_WHITESPACE \<Longrightarrow> skip_ws (c # cs) = c # cs"
  by (simp add: skip_ws_def)

lemma skip_ws_dump: "exact v \<Longrightarrow> skip_ws (dump v @ rest) = dump v @ rest"
  using dump_head [of v] skip_ws_at by (metis append_Cons)

lemma scan_value_dispatch:
  assumes "c \<noteq> 34" "c \<noteq> 123" "c \<noteq> 91" "c \<noteq> 110" "c \<noteq> 116" "c \<noteq> 102"
  shows "scan_value (Suc n) (c # cs) = scan_number (c # cs)"
  using assms by (simp add: u_def)

lemma scan_value_int:
  assumes "closes rest" "magnitude_held i"
  shows "scan_value (Suc n) (dump_int i @ rest) = Inr (JInt i, rest)"
proof -
  obtain c cs where c: "dump_int i = c # cs" "c = 45 \<or> digit c"
  proof (cases "i < 0")
    case True
    then show ?thesis using that [of 45 "decimal (- i)"] by (simp add: dump_int_def)
  next
    case False
    obtain d ds where d: "decimal i = d # ds"
      using False decimal_head [of i] by (cases "i = 0") (auto simp: decimal_small)
    then have "digit d" using decimal_digits [of i] False by simp
    with that d False show ?thesis by (auto simp: dump_int_def)
  qed
  then have "scan_value (Suc n) (c # cs @ rest) = scan_number (c # cs @ rest)"
    by (intro scan_value_dispatch) (auto simp: digit_def)
  with c scan_dumped_int [OF assms] show ?thesis by simp
qed

lemma count_list_distinct: "distinct xs \<Longrightarrow> count_list xs x \<le> 1"
  by (induction xs) (auto simp: count_list_0_iff)

lemma object_of_distinct: "distinct (map fst kvs) \<Longrightarrow> object_of kvs = Inr (JObj kvs)"
proof -
  assume "distinct (map fst kvs)"
  then have "filter (\<lambda>k. count_list (map fst kvs) k > 1) (map fst kvs) = []"
    using count_list_distinct [of "map fst kvs"] by (auto simp: filter_empty_conv not_less)
  then show ?thesis by (simp add: object_of_def Let_def)
qed

lemma dump_elements_Nil_iff: "exact_list vs \<Longrightarrow> dump_elements vs = [] \<longleftrightarrow> vs = []"
  by (cases vs) (auto elim: dump_head)

lemma scan_dumped:
  "exact v \<Longrightarrow> dict_like v \<Longrightarrow> 2 * length (dump v) < n \<Longrightarrow> closes rest \<Longrightarrow>
    scan_value n (dump v @ rest) = Inr (v, rest)"
  "vs \<noteq> [] \<Longrightarrow> exact_list vs \<Longrightarrow> dict_like_list vs \<Longrightarrow> 2 * length (dump_elements vs) + 1 < n \<Longrightarrow>
    scan_elements n (dump_elements vs @ 93 # rest) = Inr (vs, rest)"
  "kvs \<noteq> [] \<Longrightarrow> exact_members kvs \<Longrightarrow> dict_like_members kvs \<Longrightarrow> 2 * length (dump_members kvs) + 1 < n \<Longrightarrow>
    scan_members n (dump_members kvs @ 125 # rest) = Inr (kvs, rest)"
proof (induction v and vs and kvs arbitrary: n rest and n rest and n rest rule: dump_dump_elements_dump_members.induct)
  case 1
  then show ?case by (cases n) (simp_all add: u_def)
next
  case (2 b)
  then show ?case by (cases n) (simp_all add: u_def)
next
  case (3 i)
  then show ?case by (cases n) (simp_all add: scan_value_int del: scan_value.simps)
next
  case 4
  then show ?case by simp
next
  case (5 s)
  then show ?case by (cases n) (simp_all add: dumped_text_def scan_dumped_string)
next
  case (6 vs)
  then obtain m where n: "n = Suc m" by (cases n) auto
  show ?case
  proof (cases vs)
    case Nil
    then show ?thesis using n by (simp add: skip_ws_at JSON_WHITESPACE_def)
  next
    case (Cons w ws)
    obtain c cs where c: "dump w = c # cs" "c \<notin> set JSON_WHITESPACE" "c \<noteq> 93" "c \<noteq> 125"
      using dump_head [of w] 6(2) Cons by auto
    have "skip_ws (dump_elements vs @ 93 # rest) = dump_elements vs @ 93 # rest"
      "take 1 (dump_elements vs @ 93 # rest) \<noteq> [93]" using c Cons by (simp_all add: skip_ws_at)
    moreover have "scan_elements m (dump_elements vs @ 93 # rest) = Inr (vs, rest)"
      using 6 n Cons by simp
    ultimately show ?thesis using n by (simp del: scan_elements.simps)
  qed
next
  case (7 kvs)
  then obtain m where n: "n = Suc m" by (cases n) auto
  show ?case
  proof (cases kvs)
    case Nil
    then show ?thesis using n by (simp add: skip_ws_at JSON_WHITESPACE_def)
  next
    case (Cons w ws)
    have "skip_ws (dump_members kvs @ 125 # rest) = dump_members kvs @ 125 # rest"
      "take 1 (dump_members kvs @ 125 # rest) \<noteq> [125]"
      using Cons by (cases w; simp add: dumped_text_def skip_ws_at JSON_WHITESPACE_def)+
    moreover have "scan_members m (dump_members kvs @ 125 # rest) = Inr (kvs, rest)"
      using 7 n Cons by simp
    moreover have "object_of kvs = Inr (JObj kvs)" using 7 by (simp add: object_of_distinct)
    ultimately show ?thesis using n by (simp del: scan_members.simps)
  qed
next
  case 8
  then show ?case by simp
next
  case (9 v vs)
  then obtain m where n: "n = Suc m" by (cases n) auto
  let ?after = "(if vs = [] then [] else 44 # dump_elements vs) @ 93 # rest"
  have "closes ?after" by (simp add: closes_def)
  then have v: "scan_value m (dump v @ ?after) = Inr (v, ?after)" using 9 n by simp
  show ?case
  proof (cases "vs = []")
    case True
    then show ?thesis using v n by (simp add: skip_ws_at JSON_WHITESPACE_def)
  next
    case False
    then obtain w ws where w: "vs = w # ws" by (cases vs) auto
    have "skip_ws (dump_elements vs @ 93 # rest) = dump_elements vs @ 93 # rest"
      using 9 w skip_ws_dump [of w] by simp
    moreover have "scan_elements m (dump_elements vs @ 93 # rest) = Inr (vs, rest)"
      using 9 n False by simp
    ultimately show ?thesis using v n False by (simp add: skip_ws_at JSON_WHITESPACE_def push_def)
  qed
next
  case 10
  then show ?case by simp
next
  case (11 k v kvs)
  then obtain m where n: "n = Suc m" by (cases n) auto
  let ?after = "(if kvs = [] then [] else 44 # dump_members kvs) @ 125 # rest"
  have "closes ?after" by (simp add: closes_def)
  then have v: "scan_value m (dump v @ ?after) = Inr (v, ?after)" using 11 n by (simp add: dumped_text_def)
  have key: "scan_string (concat (map escaped k) @ 34 # 58 # dump v @ ?after) = Inr (k, 58 # dump v @ ?after)"
    using 11 by (simp add: scan_dumped_string)
  have head: "skip_ws (dump v @ ?after) = dump v @ ?after" using 11 skip_ws_dump [of v] by simp
  show ?case
  proof (cases "kvs = []")
    case True
    then show ?thesis using v n key head
      by (simp add: skip_ws_at JSON_WHITESPACE_def dumped_text_def)
  next
    case False
    then obtain w where w: "hd kvs = w" by blast
    have "skip_ws (dump_members kvs @ 125 # rest) = dump_members kvs @ 125 # rest"
      using False by (cases kvs; cases w) (auto simp: dumped_text_def skip_ws_at JSON_WHITESPACE_def)
    moreover have "scan_members m (dump_members kvs @ 125 # rest) = Inr (kvs, rest)"
      using 11 n False by (simp add: dumped_text_def)
    ultimately show ?thesis using v n False key head
      by (simp add: skip_ws_at JSON_WHITESPACE_def push_def dumped_text_def)
  qed
qed

section \<open>The canonical text\<close>

lemma refuse_in_list_iff: "refuse_in_list d vs = Inr () \<longleftrightarrow> (\<forall>v \<in> set vs. refuse_floats d v = Inr ())"
  by (induction vs) (auto simp: result_simps)

lemma refuse_in_object_iff: "refuse_in_object d kvs = Inr () \<longleftrightarrow> (\<forall>(k, v) \<in> set kvs. refuse_floats d v = Inr ())"
  by (induction kvs) (auto simp: result_simps)

lemma refuse_sort_keys:
  "refuse_floats d v = Inr () \<Longrightarrow> refuse_floats d (sort_keys v) = Inr ()"
  "refuse_in_list d vs = Inr () \<Longrightarrow> refuse_in_list d (sort_keys_list vs) = Inr ()"
  "refuse_in_object d kvs = Inr () \<Longrightarrow> refuse_in_object d (sort_keys_members kvs) = Inr ()"
proof (induction d v and d vs and d kvs rule: refuse_floats_refuse_in_list_refuse_in_object.induct)
  case (4 d kvs)
  then have "refuse_in_object (d + 1) (sort_keys_members kvs) = Inr ()" by (simp split: if_splits)
  then have "refuse_in_object (d + 1) (sort_key fst (sort_keys_members kvs)) = Inr ()"
    unfolding refuse_in_object_iff by simp
  then show ?case using 4 by (simp split: if_splits)
qed (auto simp: result_simps split: if_splits)

lemma canonical_text_cases:
  assumes "canonical_text v = Inr t"
  shows "t = dump (sort_keys v) \<and> encodable t \<and> exact (sort_keys v) \<and> refuse_floats 0 v = Inr ()"
proof -
  have r: "refuse_floats 0 v = Inr ()" using assms by (auto simp: canonical_text_def result_simps)
  then have "exact (sort_keys v)" by (intro sort_keys_exact refuse_exact)
  with assms r show ?thesis by (auto simp: canonical_text_def Let_def split: if_splits)
qed

lemma canonical_text_read:
  assumes "canonical_text v = Inr t" "dict_like v"
  shows "raw_decode t = Inr (sort_keys v, [])"
proof -
  note c = canonical_text_cases [OF assms(1)]
  have "scan_value (2 * length t + 1) (t @ []) = Inr (sort_keys v, [])"
    using c scan_dumped(1) [of "sort_keys v" "2 * length t + 1" "[]"] sort_keys_dict_like(1) [OF assms(2)]
    by (simp add: closes_def del: scan_value.simps)
  then show ?thesis by (simp add: raw_decode_def del: scan_value.simps)
qed

lemma canonical_text_inject:
  assumes "canonical_text v = Inr t" "dict_like v" "canonical_text w = Inr t" "dict_like w"
  shows "sort_keys v = sort_keys w"
  using canonical_text_read [OF assms(1,2)] canonical_text_read [OF assms(3,4)] by simp

lemma sort_key_unique:
  assumes "distinct (map fst xs)" "distinct (map fst ys)" "set xs = set ys"
  shows "sort_key fst xs = sort_key fst ys"
proof (rule map_sorted_distinct_set_unique [of fst])
  show "inj_on fst (set (sort_key fst xs) \<union> set (sort_key fst ys))" using assms by (simp add: distinct_map)
qed (use assms in \<open>simp_all add: distinct_sort_key\<close>)

lemma sort_keys_object_iff:
  assumes "distinct (map fst xs)" "distinct (map fst ys)"
  shows "sort_keys (JObj xs) = sort_keys (JObj ys) \<longleftrightarrow> set (sort_keys_members xs) = set (sort_keys_members ys)"
  using sort_key_unique [of "sort_keys_members xs" "sort_keys_members ys"] assms
  by (auto dest: arg_cong [where f = set])

lemma field_sort_keys:
  assumes "distinct (map fst kvs)"
  shows "field (sort_key fst (sort_keys_members kvs)) name = map_option sort_keys (field kvs name)"
proof -
  let ?xs = "sort_keys_members kvs"
  have "map_of (sort_key fst ?xs) = map_of ?xs"
  proof
    fix k
    have "map_of (sort_key fst ?xs) k = Some v \<longleftrightarrow> map_of ?xs k = Some v" for v
      using assms by (simp add: distinct_sort_key)
    then show "map_of (sort_key fst ?xs) k = map_of ?xs k" by (metis not_None_eq)
  qed
  moreover have "map_of ?xs k = map_option sort_keys (map_of kvs k)" for k
    by (induction kvs) auto
  ultimately show ?thesis by (simp add: field_def)
qed

section \<open>Seals\<close>

definition unsealed :: "(ustr \<times> json) list \<Rightarrow> (ustr \<times> json) list" where
  "unsealed rec = filter (\<lambda>(k, v). k \<noteq> u ''self_hash'') rec"

lemma verified_seal:
  assumes "verify_self_hash sha rec"
  obtains t stored where "canonical_text (JObj (unsealed rec)) = Inr t" "field rec ''self_hash'' = Some (JStr stored)" "stored = sha t"
  using assms
  by (auto simp: verify_self_hash_def self_hash_def digest_of_def unsealed_def result_simps rbind_def
      split: option.splits json.splits sum.splits)

lemma dict_like_unsealed: "dict_like (JObj rec) \<Longrightarrow> dict_like (JObj (unsealed rec))"
  by (auto simp: unsealed_def dict_like_members_all list_all_iff distinct_map inj_on_def)

lemma set_unsealed:
  assumes "distinct (map fst rec)" "field rec ''self_hash'' = Some v"
  shows "set rec = insert (u ''self_hash'', v) (set (unsealed rec))"
proof -
  have "(u ''self_hash'', v) \<in> set rec" using assms(2) by (simp add: field_def map_of_SomeD)
  moreover have "(u ''self_hash'', w) \<in> set rec \<Longrightarrow> w = v" for w
    using assms by (simp add: field_def)
  moreover have "x \<in> set (unsealed rec) \<longleftrightarrow> x \<in> set rec \<and> fst x \<noteq> u ''self_hash''" for x
    by (simp add: unsealed_def case_prod_beta)
  ultimately show ?thesis by (intro set_eqI) (metis insert_iff prod.collapse fst_conv)
qed

lemma sort_keys_members_set: "set (sort_keys_members kvs) = (\<lambda>(k, v). (k, sort_keys v)) ` set kvs"
  by (simp add: sort_keys_members_map)

section \<open>Properties\<close>

text \<open>C38. The canonical text is read back as what was written: decoding the text of a value gives the
  value with its keys sorted and nothing left over, and that value has the same text.\<close>

theorem canonical_text_round_trip:
  assumes "canonical_text v = Inr t" "dict_like v"
  shows "raw_decode t = Inr (sort_keys v, []) \<and> canonical_text (sort_keys v) = Inr t"
proof -
  note c = canonical_text_cases [OF assms(1)]
  have "canonical_text (sort_keys v) = Inr t"
    using c refuse_sort_keys(1) [of 0 v] by (auto simp: canonical_text_def sort_keys_twice Let_def)
  with canonical_text_read [OF assms] show ?thesis by simp
qed

definition demo_record :: json where
  "demo_record = JObj [(u ''b'', JList [JInt (- 12), JNull, JStr (34 # 10 # 1 # u ''x'')]), (u ''a'', JObj [])]"

lemma canonical_text_round_trip_witness:
  "\<exists>t. canonical_text demo_record = Inr t \<and> raw_decode t = Inr (sort_keys demo_record, [])"
proof -
  have "case canonical_text demo_record of Inl e \<Rightarrow> False | Inr t \<Rightarrow> True" by code_simp
  then obtain t where t: "canonical_text demo_record = Inr t" by (auto split: sum.splits)
  have "dict_like demo_record" by code_simp
  from canonical_text_round_trip [OF t this] t show ?thesis by blast
qed

text \<open>A self-hash seals: two records that verify and carry one self-hash have the same content, key
  for key, unless the texts the two were sealed over are themselves different and have one digest.\<close>

theorem self_hash_seals:
  assumes "verify_self_hash sha r" "verify_self_hash sha s" "field r ''self_hash'' = field s ''self_hash''"
    and "dict_like (JObj r)" "dict_like (JObj s)"
  shows "sort_keys (JObj r) = sort_keys (JObj s) \<or>
    (\<exists>t t'. canonical_text (JObj (unsealed r)) = Inr t \<and> canonical_text (JObj (unsealed s)) = Inr t' \<and> t \<noteq> t' \<and> sha t = sha t')"
proof -
  obtain t where t: "canonical_text (JObj (unsealed r)) = Inr t" "field r ''self_hash'' = Some (JStr (sha t))"
    using verified_seal [OF assms(1)] by blast
  obtain t' where t': "canonical_text (JObj (unsealed s)) = Inr t'" "field s ''self_hash'' = Some (JStr (sha t'))"
    using verified_seal [OF assms(2)] by blast
  have sha: "sha t = sha t'" using t(2) t'(2) assms(3) by simp
  show ?thesis
  proof (cases "t = t'")
    case True
    then have "sort_keys (JObj (unsealed r)) = sort_keys (JObj (unsealed s))"
      using canonical_text_inject t(1) t'(1) dict_like_unsealed assms(4,5) by blast
    moreover have d: "distinct (map fst (unsealed r))" "distinct (map fst (unsealed s))"
      "distinct (map fst r)" "distinct (map fst s)"
      using dict_like_unsealed [OF assms(4)] dict_like_unsealed [OF assms(5)] assms(4,5) by simp_all
    ultimately have "set (sort_keys_members (unsealed r)) = set (sort_keys_members (unsealed s))"
      using sort_keys_object_iff [OF d(1,2)] by blast
    then have "set (sort_keys_members r) = set (sort_keys_members s)"
      using set_unsealed [OF d(3) t(2)] set_unsealed [OF d(4) t'(2)] sha by (simp add: sort_keys_members_set)
    then show ?thesis using sort_keys_object_iff [OF d(3,4)] by blast
  next
    case False
    with sha t(1) t'(1) show ?thesis by blast
  qed
qed

text \<open>One record and the same with its members in another order, under a digest that is the text itself.\<close>

definition demo_sealed :: "(ustr \<times> json) list" where
  "demo_sealed = [(u ''n'', JInt 1), (u ''m'', JNull), (u ''self_hash'', JStr (dump (JObj [(u ''m'', JNull), (u ''n'', JInt 1)])))]"

lemma self_hash_seals_witness:
  "sort_keys (JObj demo_sealed) = sort_keys (JObj (rev demo_sealed))"
proof -
  have "verify_self_hash id demo_sealed" "verify_self_hash id (rev demo_sealed)"
    "field demo_sealed ''self_hash'' = field (rev demo_sealed) ''self_hash''"
    "dict_like (JObj demo_sealed)" "dict_like (JObj (rev demo_sealed))" by code_simp+
  from self_hash_seals [OF this] show ?thesis by auto
qed

end
