(* ===== verification/IdentitiesFacts.thy ===== *)
theory IdentitiesFacts
  imports Identities CanonicalFacts
begin

text \<open>
  What a derived identity promises: it verifies against its own bindings, and against no other kind and
  no other bindings unless the digests of two different texts begin alike.
\<close>

lemma is_sha256_textD: "is_sha256_text s \<Longrightarrow> length s = 64 \<and> list_all hex_lower s"
  by (simp add: is_sha256_text_def hex_lower_def list_all_iff)

lemma prefix_free: "map_of PREFIXES kind = Some p \<Longrightarrow> 95 \<notin> set (u p) \<and> (kind, p) \<in> set PREFIXES"
  by (auto simp: PREFIXES_def u_def split: if_splits)

lemma prefix_inject: "map_of PREFIXES kind = Some p \<Longrightarrow> map_of PREFIXES kind' = Some p \<Longrightarrow> kind = kind'"
  by (auto simp: PREFIXES_def split: if_splits)

lemma derived:
  assumes "derive sha kind b = Inr i"
  obtains p t where "map_of PREFIXES kind = Some p" "i = u p @ 95 # take 16 (sha t)"
    "canonical_text (JObj [(u ''kind'', JStr (u kind)), (u ''bindings'', b)]) = Inr t"
  using assms by (auto simp: derive_def digest_of_def DIGEST_CHARS_def result_simps split: option.splits)

lemma derived_well_formed:
  assumes "\<forall>t. is_sha256_text (sha t)" "derive sha kind b = Inr i"
  shows "well_formed_text i"
proof -
  obtain p t where i: "map_of PREFIXES kind = Some p" "i = u p @ 95 # take 16 (sha t)"
    using derived [OF assms(2)] by blast
  have "list_all hex_lower (take 16 (sha t)) \<and> length (take 16 (sha t)) = 16"
    using is_sha256_textD assms(1) by (auto simp: list_all_iff dest: in_set_takeD)
  then have "has_id_shape p i" by (simp add: has_id_shape_def i(2) DIGEST_CHARS_def)
  with prefix_free [OF i(1)] show ?thesis unfolding well_formed_text_def to_dollar_def list_ex_iff by blast
qed

lemma derived_kind:
  assumes "derive sha kind b = Inr i" "derive sha kind' b' = Inr i"
  shows "kind = kind'"
proof -
  obtain p t where p: "map_of PREFIXES kind = Some p" "i = u p @ 95 # take 16 (sha t)"
    using derived [OF assms(1)] by blast
  obtain p' t' where p': "map_of PREFIXES kind' = Some p'" "i = u p' @ 95 # take 16 (sha t')"
    using derived [OF assms(2)] by blast
  have "takeWhile (\<lambda>c. c \<noteq> 95) i = u p" using p(2) prefix_free [OF p(1)] by (auto simp: takeWhile_append)
  moreover have "takeWhile (\<lambda>c. c \<noteq> 95) i = u p'" using p'(2) prefix_free [OF p'(1)] by (auto simp: takeWhile_append)
  ultimately have "p = p'" by simp
  with p(1) p'(1) prefix_inject show ?thesis by blast
qed

lemma code_points_u [simp]: "code_points (u s)"
proof -
  have "0 \<le> (of_char c :: int)" for c by (metis of_nat_0_le_iff of_nat_of_char)
  then show ?thesis by (simp add: code_points_def u_def list_all_iff)
qed

lemma bindings_inject:
  assumes "canonical_text (JObj [(u ''kind'', k), (u ''bindings'', b)]) = Inr t" "dict_like k" "dict_like b"
    and "canonical_text (JObj [(u ''kind'', k'), (u ''bindings'', b')]) = Inr t" "dict_like k'" "dict_like b'"
  shows "sort_keys b = sort_keys b'"
proof -
  let ?o = "\<lambda>k b. JObj [(u ''kind'', k), (u ''bindings'', b)]"
  have "sort_keys (?o k b) = sort_keys (?o k' b')"
    using canonical_text_inject [OF assms(1) _ assms(4)] assms by simp
  then have "set (sort_keys_members [(u ''kind'', k), (u ''bindings'', b)]) =
      set (sort_keys_members [(u ''kind'', k'), (u ''bindings'', b')])"
    by (subst (asm) sort_keys_object_iff) simp_all
  then show ?thesis by (auto simp: doubleton_eq_iff)
qed

section \<open>Properties\<close>

definition hashed_text :: "string \<Rightarrow> json \<Rightarrow> ustr result" where
  "hashed_text kind b = canonical_text (JObj [(u ''kind'', JStr (u kind)), (u ''bindings'', b)])"

text \<open>With digests of sixty-four lower-case hexadecimal digits, an identity verifies against the
  bindings it was derived from; and whatever else it verifies against is of the same kind and has the
  same bindings, key for key, or else the two texts that were hashed are different and their digests begin
  with the same sixteen digits.\<close>

theorem identity_binds_its_facts:
  assumes "\<forall>t. is_sha256_text (sha t)" "derive sha kind b = Inr i" "dict_like b"
  shows "verify sha (JStr i) kind b = Inr () \<and>
    (\<forall>kind' b'. verify sha (JStr i) kind' b' = Inr () \<and> dict_like b' \<longrightarrow> kind' = kind \<and>
      (sort_keys b' = sort_keys b \<or> (\<exists>t t'. hashed_text kind b = Inr t \<and> hashed_text kind b' = Inr t' \<and> t \<noteq> t' \<and>
        take DIGEST_CHARS (sha t) = take DIGEST_CHARS (sha t'))))"
proof (intro conjI allI impI)
  show "verify sha (JStr i) kind b = Inr ()"
    using derived_well_formed [OF assms(1,2)] assms(2) by (simp add: verify_def is_well_formed_def)
next
  fix kind' b' assume "verify sha (JStr i) kind' b' = Inr () \<and> dict_like b'"
  then have d: "derive sha kind' b' = Inr i" and b': "dict_like b'"
    by (auto simp: verify_def result_simps split: if_splits)
  then show k: "kind' = kind" using derived_kind assms(2) by blast
  obtain p t where t: "i = u p @ 95 # take 16 (sha t)" "map_of PREFIXES kind = Some p"
    "canonical_text (JObj [(u ''kind'', JStr (u kind)), (u ''bindings'', b)]) = Inr t"
    using derived [OF assms(2)] by blast
  obtain p' t' where t': "i = u p' @ 95 # take 16 (sha t')" "map_of PREFIXES kind = Some p'"
    "canonical_text (JObj [(u ''kind'', JStr (u kind)), (u ''bindings'', b')]) = Inr t'"
    using derived [OF d] k by blast
  have same: "take 16 (sha t) = take 16 (sha t')" using t(1,2) t'(1,2) by simp
  have "t = t' \<Longrightarrow> sort_keys b' = sort_keys b"
    using bindings_inject [OF t'(3) _ b' _ _ assms(3)] t(3) by simp
  with same show "sort_keys b' = sort_keys b \<or> (\<exists>t t'. hashed_text kind b = Inr t \<and> hashed_text kind b' = Inr t' \<and> t \<noteq> t' \<and>
        take DIGEST_CHARS (sha t) = take DIGEST_CHARS (sha t'))"
    using t(3) t'(3) unfolding DIGEST_CHARS_def hashed_text_def by blast
qed

text \<open>A digest to play with: the number of characters, in sixty-four digits.\<close>

definition demo_digest :: sha where
  "demo_digest t = replicate 61 48 @ map (\<lambda>d. hex_point (int (length t div d mod 16))) [256, 16, 1]"

lemma demo_digest_digits: "\<forall>n \<in> set [0..15]. hex_point n \<in> set (u ''0123456789abcdef'')" "48 \<in> set (u ''0123456789abcdef'')"
  by code_simp+

lemma is_sha256_demo: "is_sha256_text (demo_digest t)"
proof -
  have "hex_point (int (n mod 16)) \<in> set (u ''0123456789abcdef'')" for n
    using demo_digest_digits(1) by (auto simp: of_nat_mod)
  then show ?thesis using demo_digest_digits(2)
    by (simp add: is_sha256_text_def demo_digest_def list_all_iff del: of_nat_mod)
qed

text \<open>Reading a computed result by its branch.\<close>

lemma Inr_of_case: "(case r of Inl e \<Rightarrow> False | Inr x \<Rightarrow> True) \<Longrightarrow> \<exists>x. r = Inr x"
  by (cases r) simp_all

lemma identity_binds_its_facts_witness:
  "\<exists>i. derive demo_digest ''lot'' (JObj [(u ''n'', JInt 1)]) = Inr i \<and>
     verify demo_digest (JStr i) ''lot'' (JObj [(u ''n'', JInt 1)]) = Inr ()"
proof -
  have "case derive demo_digest ''lot'' (JObj [(u ''n'', JInt 1)]) of Inl e \<Rightarrow> False | Inr x \<Rightarrow> True"
    and d: "dict_like (JObj [(u ''n'', JInt 1)])" by code_simp+
  then obtain i where i: "derive demo_digest ''lot'' (JObj [(u ''n'', JInt 1)]) = Inr i" using Inr_of_case by blast
  have "\<forall>t. is_sha256_text (demo_digest t)" by (simp add: is_sha256_demo)
  from identity_binds_its_facts [OF this i d] i show ?thesis by blast
qed

end
