(* ===== verification/RegisterFacts.thy ===== *)
theory RegisterFacts
  imports Register IdentitiesFacts Machines
begin

text \<open>
  What replaying a register keeps (\<open>sound\<close>: heads are the ends of chains, chains grow, nothing refers to what
  was not declared), that a retraction undoes its link, and that the writers only ever append.
\<close>

section \<open>The effect of a record\<close>

lemma stated_Some [simp]: "stated v = Some s \<longleftrightarrow> v = JStr s \<and> s \<noteq> []"
  by (auto simp: stated_def split: json.splits)

lemma stated_field_Inr [result_simps]: "stated_field rec name = Inr s \<longleftrightarrow> field rec name = Some (JStr s) \<and> s \<noteq> []"
  by (auto simp: stated_field_def bound_def result_simps)

lemma bound_Inr [result_simps]: "bound rec name = Inr v \<longleftrightarrow> field rec name = Some v"
  by (simp add: bound_def result_simps)

lemma register_identity_Inr [result_simps]:
  "register_identity rec name prefix = Inr s \<longleftrightarrow> field rec name = Some (JStr s) \<and> has_prefix (JStr s) prefix"
  by (auto simp: register_identity_def bound_def rget_def rbind_def split: option.splits json.splits if_splits)

lemma require_declared_Inr [result_simps]: "require_declared i declared = Inr x \<longleftrightarrow> i \<in> set declared"
  by (simp add: require_declared_def result_simps)

lemma digests_Inr: "digests v = Inr members \<Longrightarrow> sorted members \<and> distinct members \<and> list_all is_sha256_text members"
proof -
  assume "digests v = Inr members"
  then have "members = sorted_set members" "list_all is_sha256_text members"
    by (auto simp: digests_def split: json.splits if_splits option.splits)
  then show ?thesis by (metis sorted_sorted_set distinct_sorted_set)
qed

lemma page_effect: "physical_page_record sha nfc rec rd = Inr (i, rd') \<Longrightarrow> rd' = rd\<lparr>rd_pages := i # rd_pages rd\<rparr>"
  by (auto simp: physical_page_record_def result_simps)

lemma act_effect:
  "physical_act_record sha nfc rec rd = Inr (i, rd') \<Longrightarrow>
   \<exists>page. field rec ''physical_page_id'' = Some (JStr page) \<and> page \<in> set (rd_pages rd) \<and>
     rd' = rd\<lparr>rd_acts := i # rd_acts rd, rd_act_pages := AList.update i page (rd_act_pages rd)\<rparr>"
  by (auto simp: physical_act_record_def result_simps)

definition minted :: "register_reading \<Rightarrow> (ustr \<times> json) list \<Rightarrow> bool" where
  "minted rd rec \<longleftrightarrow> (\<exists>page act. field rec ''physical_page_id'' = Some (JStr page) \<and> field rec ''physical_act_id'' = Some (JStr act) \<and>
     page \<in> set (rd_pages rd) \<and> map_of (rd_act_pages rd) act = Some page)"

lemma correspondence_effect:
  "correspondence_record sha rec rd = Inr (i, rd') \<Longrightarrow>
   \<exists>identity. minted rd rec \<and> rd' = rd\<lparr>rd_correspondences := AList.update identity rec (rd_correspondences rd)\<rparr>"
  by (auto simp: correspondence_record_def result_simps minted_def Let_def)

text \<open>A link of a page's chain is that of a record among \<open>R\<close>, the records replayed.\<close>

definition link_of :: "sha \<Rightarrow> json set \<Rightarrow> ustr \<Rightarrow> link \<Rightarrow> bool" where
  "link_of sha R page link \<longleftrightarrow> snd link \<noteq> [] \<and> sorted (snd link) \<and> distinct (snd link) \<and>
     (\<exists>rec. JObj rec \<in> R \<and> dict_like (JObj rec) \<and> field rec ''physical_page_id'' = Some (JStr page) \<and> digest_of sha (JObj rec) = Inr (fst link))"

abbreviation chain_at :: "register_reading \<Rightarrow> ustr \<Rightarrow> link list" where
  "chain_at rd \<equiv> chain_of (rd_chains rd)"

lemma chain_of_update [simp]: "chain_of (AList.update page chain kept) p = (if p = page then chain else chain_of kept p)"
  by (simp add: chain_of_def update_conv')

lemma succession:
  "check_succession rd page predecessor members = Inr x \<Longrightarrow>
   (case map_of (rd_heads rd) page of None \<Rightarrow> page \<in> set (rd_pages rd) | Some head \<Rightarrow> set (snd head) \<subset> set members)"
  by (auto simp: check_succession_def result_simps split: option.splits prod.splits)

lemma membership_effect:
  assumes "membership_record sha rec rd = Inr (i, rd')" "dict_like (JObj rec)" "JObj rec \<in> R"
  obtains page digest members where "field rec ''physical_page_id'' = Some (JStr page)"
    "digest_of sha (JObj rec) = Inr digest" "i = MEMBERSHIP @ digest" "link_of sha R page (digest, members)"
    "case map_of (rd_heads rd) page of None \<Rightarrow> page \<in> set (rd_pages rd) | Some head \<Rightarrow> set (snd head) \<subset> set members"
    "rd' = rd\<lparr>rd_heads := AList.update page (digest, members) (rd_heads rd),
       rd_chains := AList.update page (chain_at rd page @ [(digest, members)]) (rd_chains rd), rd_links := digest # rd_links rd\<rparr>"
proof -
  from assms(1) obtain page digest members given predecessor where m: "field rec ''physical_page_id'' = Some (JStr page)"
    "digest_of sha (JObj rec) = Inr digest" "i = MEMBERSHIP @ digest" "digests given = Inr members" "members \<noteq> []"
    "check_succession rd page predecessor members = Inr ()"
    "rd' = rd\<lparr>rd_heads := AList.update page (digest, members) (rd_heads rd),
       rd_chains := AList.update page (chain_at rd page @ [(digest, members)]) (rd_chains rd), rd_links := digest # rd_links rd\<rparr>"
    by (auto simp: membership_record_def result_simps Let_def MEMBERSHIP_def)
  with digests_Inr [OF m(4)] succession [OF m(6)] that [of page digest members] assms(2,3) show thesis by (auto simp: link_of_def)
qed

lemma retract_effect:
  assumes "retract_membership target rd = Inr rd'"
  obtains page head where "(page, head) \<in> set (rd_heads rd)" "fst head = target" "chain_at rd page \<noteq> []"
    "rd' = rd\<lparr>rd_chains := AList.update page (butlast (chain_at rd page)) (rd_chains rd), rd_retracted := target # rd_retracted rd,
       rd_heads := (if butlast (chain_at rd page) \<noteq> [] then AList.update page (last (butlast (chain_at rd page))) (rd_heads rd)
         else AList.delete page (rd_heads rd))\<rparr>"
proof -
  from assms obtain page head where f: "find (\<lambda>(page, head). fst head = target \<and> map_of (rd_chains rd) page \<notin> {None, Some []}) (rd_heads rd) = Some (page, head)"
    by (auto simp: retract_membership_def split: option.splits if_splits)
  then have h: "(page, head) \<in> set (rd_heads rd)" "fst head = target" "map_of (rd_chains rd) page \<notin> {None, Some []}"
    by (auto simp: find_Some_iff in_set_conv_nth)
  then obtain chain where c: "map_of (rd_chains rd) page = Some chain" "chain \<noteq> []" by auto
  with assms f h that [of page head] show thesis
    by (simp add: retract_membership_def chain_of_def Let_def rget_def split: if_splits)
qed

lemma retraction_effect:
  "retraction_record rec rd = Inr (i, rd') \<Longrightarrow>
   (\<exists>target. field rec ''retracts'' = Some (JStr (MEMBERSHIP @ target)) \<and> retract_membership target rd = Inr rd') \<or>
   (\<exists>identity. rd' = rd\<lparr>rd_correspondences := AList.delete identity (rd_correspondences rd)\<rparr>)"
  by (auto simp: retraction_record_def result_simps split: if_splits) (metis append_take_drop_id)+

section \<open>What every replay keeps\<close>

definition chain_sound :: "sha \<Rightarrow> json set \<Rightarrow> ustr \<Rightarrow> link list \<Rightarrow> bool" where
  "chain_sound sha R page chain \<longleftrightarrow>
     (\<forall>link \<in> set chain. link_of sha R page link) \<and> sorted_wrt (\<lambda>a b. set (snd a) \<subset> set (snd b)) chain"

definition chains_ok :: "sha \<Rightarrow> json set \<Rightarrow> register_reading \<Rightarrow> bool" where
  "chains_ok sha R rd \<longleftrightarrow> distinct (map fst (rd_heads rd)) \<and>
     (\<forall>page. map_of (rd_heads rd) page = (if chain_at rd page = [] then None else Some (last (chain_at rd page)))) \<and>
     (\<forall>page. chain_sound sha R page (chain_at rd page)) \<and>
     (\<forall>page. chain_at rd page \<noteq> [] \<longrightarrow> page \<in> set (rd_pages rd)) \<and>
     (\<forall>page. fst ` set (chain_at rd page) \<subseteq> set (rd_links rd)) \<and> set (rd_retracted rd) \<subseteq> set (rd_links rd)"

definition references_ok :: "register_reading \<Rightarrow> bool" where
  "references_ok rd \<longleftrightarrow>
     dom (map_of (rd_act_pages rd)) \<subseteq> set (rd_seen rd) \<and> ran (map_of (rd_act_pages rd)) \<subseteq> set (rd_pages rd) \<and>
     (\<forall>rec \<in> ran (map_of (rd_correspondences rd)). minted rd rec)"

definition sound :: "sha \<Rightarrow> json set \<Rightarrow> register_reading \<Rightarrow> bool" where
  "sound sha R rd \<longleftrightarrow> chains_ok sha R rd \<and> references_ok rd"

text \<open>Neither part reads what the other kinds of record change.\<close>

lemma chains_ok_same:
  "chains_ok sha R rd \<Longrightarrow> rd_heads rd' = rd_heads rd \<Longrightarrow> rd_chains rd' = rd_chains rd \<Longrightarrow> rd_links rd' = rd_links rd \<Longrightarrow>
   rd_retracted rd' = rd_retracted rd \<Longrightarrow> set (rd_pages rd) \<subseteq> set (rd_pages rd') \<Longrightarrow> chains_ok sha R rd'"
  unfolding chains_ok_def by auto

lemma references_ok_same:
  assumes "references_ok rd" "rd_act_pages rd' = rd_act_pages rd" "ran (map_of (rd_correspondences rd')) \<subseteq> ran (map_of (rd_correspondences rd))"
    "set (rd_seen rd) \<subseteq> set (rd_seen rd')" "set (rd_pages rd) \<subseteq> set (rd_pages rd')"
  shows "references_ok rd'"
proof -
  have "minted rd rec \<Longrightarrow> minted rd' rec" for rec using assms(2,5) unfolding minted_def by auto
  with assms show ?thesis unfolding references_ok_def by auto
qed

lemma chain_sound_snoc:
  assumes "chain_sound sha R page chain" "link_of sha R page link" "chain \<noteq> [] \<Longrightarrow> set (snd (last chain)) \<subset> set (snd link)"
  shows "chain_sound sha R page (chain @ [link])"
proof -
  have "set (snd a) \<subset> set (snd link)" if a: "a \<in> set chain" for a
  proof -
    have "a = last chain \<or> set (snd a) \<subset> set (snd (last chain))"
      using assms(1) a by (cases chain rule: rev_cases) (auto simp: chain_sound_def sorted_wrt_append)
    with assms(3) a show ?thesis by (cases "chain = []") auto
  qed
  with assms(1,2) show ?thesis by (auto simp: chain_sound_def sorted_wrt_append)
qed

lemma chain_sound_butlast: "chain_sound sha R page chain \<Longrightarrow> chain_sound sha R page (butlast chain)"
  by (cases chain rule: rev_cases) (auto simp: chain_sound_def sorted_wrt_append)

lemma ran_update: "ran (map_of (AList.update k v xs)) \<subseteq> insert v (ran (map_of xs))"
  by (auto simp: update_conv' ran_def)

lemma ran_delete: "ran (map_of (AList.delete k xs)) \<subseteq> ran (map_of xs)"
  by (auto simp: delete_conv' ran_def restrict_map_def split: if_splits)

text \<open>The chain of one page changes.\<close>

lemma chains_ok_change:
  assumes ok: "chains_ok sha R rd"
    and chains: "rd_chains rd' = AList.update page chain (rd_chains rd)" "chain_sound sha R page chain" "page \<in> set (rd_pages rd)"
    and links: "fst ` set chain \<subseteq> set (rd_links rd')" "set (rd_links rd) \<subseteq> set (rd_links rd')" "set (rd_retracted rd') \<subseteq> set (rd_links rd')"
    and pages: "rd_pages rd' = rd_pages rd"
    and heads: "map_of (rd_heads rd') = (map_of (rd_heads rd))(page := if chain = [] then None else Some (last chain))"
      "distinct (map fst (rd_heads rd'))"
  shows "chains_ok sha R rd'"
proof -
  have at: "chain_at rd' p = (if p = page then chain else chain_at rd p)" for p by (simp add: chains(1))
  have before: "map_of (rd_heads rd) p = (if chain_at rd p = [] then None else Some (last (chain_at rd p)))"
    "chain_sound sha R p (chain_at rd p)" "chain_at rd p \<noteq> [] \<Longrightarrow> p \<in> set (rd_pages rd)"
    "fst ` set (chain_at rd p) \<subseteq> set (rd_links rd)" for p
    using ok unfolding chains_ok_def by blast+
  have "map_of (rd_heads rd') p = (if chain_at rd' p = [] then None else Some (last (chain_at rd' p)))" for p
    unfolding at heads(1) by (simp add: before(1) del: map_of_eq_Some_iff)
  moreover have "chain_sound sha R p (chain_at rd' p)" for p unfolding at using before(2) chains(2) by simp
  moreover have "chain_at rd' p \<noteq> [] \<Longrightarrow> p \<in> set (rd_pages rd')" for p
    unfolding at pages using before(3) chains(3) by (cases "p = page") simp_all
  moreover have "fst ` set (chain_at rd' p) \<subseteq> set (rd_links rd')" for p
  proof (cases "p = page")
    case False
    then show ?thesis unfolding at using before(4) [of p] links(2) by simp
  qed (use links(1) in \<open>simp add: at\<close>)
  ultimately show ?thesis using links(3) heads(2) unfolding chains_ok_def by blast
qed

lemma sound_membership:
  assumes "sound sha R rd" "membership_record sha rec rd = Inr (i, rd')" "dict_like (JObj rec)" "JObj rec \<in> R"
  shows "sound sha R rd'"
proof -
  have ok: "chains_ok sha R rd" "references_ok rd" using assms(1) by (simp_all add: sound_def)
  obtain page digest members where "field rec ''physical_page_id'' = Some (JStr page)"
    "digest_of sha (JObj rec) = Inr digest" "i = MEMBERSHIP @ digest" and m: "link_of sha R page (digest, members)"
    "case map_of (rd_heads rd) page of None \<Rightarrow> page \<in> set (rd_pages rd) | Some head \<Rightarrow> set (snd head) \<subset> set members"
    and rd': "rd' = rd\<lparr>rd_heads := AList.update page (digest, members) (rd_heads rd),
       rd_chains := AList.update page (chain_at rd page @ [(digest, members)]) (rd_chains rd), rd_links := digest # rd_links rd\<rparr>"
    by (rule membership_effect [OF assms(2-4)])
  have heads: "map_of (rd_heads rd) page = (if chain_at rd page = [] then None else Some (last (chain_at rd page)))"
    and chain: "chain_sound sha R page (chain_at rd page)" and declared: "chain_at rd page \<noteq> [] \<longrightarrow> page \<in> set (rd_pages rd)"
    using ok(1) unfolding chains_ok_def by blast+
  have "chain_sound sha R page (chain_at rd page @ [(digest, members)])"
    using m(2) heads by (intro chain_sound_snoc [OF chain m(1)]) simp
  moreover have "page \<in> set (rd_pages rd)" using m(2) heads declared by (cases "chain_at rd page = []") simp_all
  moreover have "fst ` set (chain_at rd page) \<subseteq> set (rd_links rd)" "set (rd_retracted rd) \<subseteq> set (rd_links rd)"
    "distinct (map fst (rd_heads rd))" using ok(1) unfolding chains_ok_def by blast+
  ultimately have "chains_ok sha R rd'"
    by (intro chains_ok_change [OF ok(1), of _ page "chain_at rd page @ [(digest, members)]"])
       (auto simp: rd' update_conv' distinct_update)
  moreover have "references_ok rd'" by (rule references_ok_same [OF ok(2)]) (simp_all add: rd')
  ultimately show ?thesis by (simp add: sound_def)
qed

lemma sound_retract:
  assumes "sound sha R rd" "retract_membership target rd = Inr rd'"
  shows "sound sha R rd'"
proof -
  have ok: "chains_ok sha R rd" "references_ok rd" using assms(1) by (simp_all add: sound_def)
  obtain page head where h: "(page, head) \<in> set (rd_heads rd)" "fst head = target" "chain_at rd page \<noteq> []"
    and rd': "rd' = rd\<lparr>rd_chains := AList.update page (butlast (chain_at rd page)) (rd_chains rd), rd_retracted := target # rd_retracted rd,
       rd_heads := (if butlast (chain_at rd page) \<noteq> [] then AList.update page (last (butlast (chain_at rd page))) (rd_heads rd)
         else AList.delete page (rd_heads rd))\<rparr>"
    by (rule retract_effect [OF assms(2)])
  have s: "distinct (map fst (rd_heads rd))" "chain_sound sha R page (butlast (chain_at rd page))"
    "map_of (rd_heads rd) page = Some (last (chain_at rd page))" "fst ` set (chain_at rd page) \<subseteq> set (rd_links rd)"
    using ok(1) h(3) chain_sound_butlast unfolding chains_ok_def by auto
  then have "head = last (chain_at rd page)" using map_of_is_SomeI [OF s(1) h(1)] by simp
  then have "target \<in> set (rd_links rd)" using h(2,3) s(4) by auto
  moreover have "fst ` set (butlast (chain_at rd page)) \<subseteq> set (rd_links rd)"
    using s(4) in_set_butlastD by fast
  moreover have "page \<in> set (rd_pages rd)" "set (rd_retracted rd) \<subseteq> set (rd_links rd)"
    using ok(1) h(3) unfolding chains_ok_def by blast+
  ultimately have "chains_ok sha R rd'" using s(1,2)
    by (intro chains_ok_change [OF ok(1), of _ page "butlast (chain_at rd page)"])
       (simp_all add: rd' update_conv' delete_conv' distinct_update distinct_delete)
  moreover have "references_ok rd'" by (rule references_ok_same [OF ok(2)]) (simp_all add: rd')
  ultimately show ?thesis by (simp add: sound_def)
qed

lemma sound_same:
  assumes "sound sha R rd" "rd_heads rd' = rd_heads rd" "rd_chains rd' = rd_chains rd" "rd_links rd' = rd_links rd"
    "rd_retracted rd' = rd_retracted rd" "rd_act_pages rd' = rd_act_pages rd"
    "ran (map_of (rd_correspondences rd')) \<subseteq> ran (map_of (rd_correspondences rd))"
    "set (rd_seen rd) \<subseteq> set (rd_seen rd')" "set (rd_pages rd) \<subseteq> set (rd_pages rd')"
  shows "sound sha R rd'"
  using assms chains_ok_same [of sha R rd rd'] references_ok_same [of rd rd'] unfolding sound_def by blast

lemma sound_seen: "sound sha R rd \<Longrightarrow> sound sha R (rd\<lparr>rd_seen := i # rd_seen rd\<rparr>)"
  by (rule sound_same) auto

lemma sound_page: "sound sha R rd \<Longrightarrow> sound sha R (rd\<lparr>rd_pages := i # rd_pages rd\<rparr>)"
  by (rule sound_same) auto

lemma sound_act:
  assumes "sound sha R rd" "i \<notin> set (rd_seen rd)" "page \<in> set (rd_pages rd)"
  shows "sound sha R (rd\<lparr>rd_acts := i # rd_acts rd, rd_act_pages := AList.update i page (rd_act_pages rd), rd_seen := i # rd_seen rd\<rparr>)"
    (is "sound sha R ?rd")
proof -
  have ok: "chains_ok sha R rd" "references_ok rd" using assms(1) by (simp_all add: sound_def)
  then have new: "map_of (rd_act_pages rd) i = None" using assms(2) by (auto simp: references_ok_def)
  then have ran: "ran (map_of (AList.update i page (rd_act_pages rd))) = insert page (ran (map_of (rd_act_pages rd)))"
    by (simp add: update_conv')
  have "minted rd rec \<Longrightarrow> minted ?rd rec" for rec
  proof -
    assume "minted rd rec"
    then obtain p a where "field rec ''physical_page_id'' = Some (JStr p)" "field rec ''physical_act_id'' = Some (JStr a)"
      "p \<in> set (rd_pages rd)" "map_of (rd_act_pages rd) a = Some p" unfolding minted_def by blast
    moreover from this new have "a \<noteq> i" by auto
    ultimately show ?thesis unfolding minted_def by (intro exI [of _ p] exI [of _ a]) (simp add: update_conv')
  qed
  then have "references_ok ?rd" using ok(2) assms(3) ran unfolding references_ok_def by (auto simp: update_conv')
  moreover have "chains_ok sha R ?rd" by (rule chains_ok_same [OF ok(1)]) simp_all
  ultimately show ?thesis by (simp add: sound_def)
qed

lemma sound_correspondence:
  assumes "sound sha R rd" "minted rd rec"
  shows "sound sha R (rd\<lparr>rd_correspondences := AList.update k rec (rd_correspondences rd)\<rparr>)" (is "sound sha R ?rd")
proof -
  have ok: "chains_ok sha R rd" "references_ok rd" using assms(1) by (simp_all add: sound_def)
  have "minted rd r \<Longrightarrow> minted ?rd r" for r by (simp add: minted_def)
  then have "references_ok ?rd" using ok(2) assms(2) ran_update [of k rec "rd_correspondences rd"]
    unfolding references_ok_def by auto
  moreover have "chains_ok sha R ?rd" by (rule chains_ok_same [OF ok(1)]) simp_all
  ultimately show ?thesis by (simp add: sound_def)
qed

lemma sound_withdrawn:
  "sound sha R rd \<Longrightarrow> sound sha R (rd\<lparr>rd_correspondences := AList.delete k (rd_correspondences rd)\<rparr>)"
proof (rule sound_same [of sha R rd])
  have eq: "rd_correspondences (rd\<lparr>rd_correspondences := AList.delete k (rd_correspondences rd)\<rparr>) = AList.delete k (rd_correspondences rd)"
    by simp
  show "ran (map_of (rd_correspondences (rd\<lparr>rd_correspondences := AList.delete k (rd_correspondences rd)\<rparr>)))
    \<subseteq> ran (map_of (rd_correspondences rd))" unfolding eq by (rule ran_delete)
qed auto

lemma sound_record:
  assumes s: "sound sha R rd" and v: "validate_record sha nfc v rd = Inr rd'" and d: "dict_like v" "v \<in> R"
  shows "sound sha R rd'"
proof -
  obtain rec i rd1 where "v = JObj rec" and k: "rd' = rd1\<lparr>rd_seen := i # rd_seen rd1\<rparr>" "i \<notin> set (rd_seen rd1)" and r:
    "physical_page_record sha nfc rec rd = Inr (i, rd1) \<or> membership_record sha rec rd = Inr (i, rd1) \<or>
     physical_act_record sha nfc rec rd = Inr (i, rd1) \<or> correspondence_record sha rec rd = Inr (i, rd1) \<or>
     retraction_record rec rd = Inr (i, rd1)"
    using v by (auto simp: validate_record_def result_simps split: json.splits option.splits if_splits)
  then have d: "dict_like (JObj rec)" "JObj rec \<in> R" using d by simp_all
  from r show ?thesis
  proof (elim disjE)
    assume "physical_page_record sha nfc rec rd = Inr (i, rd1)"
    from page_effect [OF this] sound_page [OF s] sound_seen show ?thesis unfolding k(1) by blast
  next
    assume "membership_record sha rec rd = Inr (i, rd1)"
    from sound_membership [OF s this d] show ?thesis unfolding k(1) by (rule sound_seen)
  next
    assume "physical_act_record sha nfc rec rd = Inr (i, rd1)"
    then obtain page where "page \<in> set (rd_pages rd)"
      "rd1 = rd\<lparr>rd_acts := i # rd_acts rd, rd_act_pages := AList.update i page (rd_act_pages rd)\<rparr>"
      using act_effect by blast
    with k sound_act [OF s, of i page] show ?thesis by simp
  next
    assume "correspondence_record sha rec rd = Inr (i, rd1)"
    from correspondence_effect [OF this] sound_correspondence [OF s] sound_seen show ?thesis unfolding k(1) by blast
  next
    assume r: "retraction_record rec rd = Inr (i, rd1)"
    have "sound sha R rd1" using retraction_effect [OF r]
    proof (elim disjE exE conjE)
      fix target assume "retract_membership target rd = Inr rd1"
      then show ?thesis by (rule sound_retract [OF s])
    next
      fix identity assume "rd1 = rd\<lparr>rd_correspondences := AList.delete identity (rd_correspondences rd)\<rparr>"
      then show ?thesis using sound_withdrawn [OF s] by blast
    qed
    then show ?thesis unfolding k(1) by (rule sound_seen)
  qed
qed

lemma sound_new: "sound sha R new_reading"
  by (simp add: sound_def chains_ok_def references_ok_def new_reading_def chain_of_def chain_sound_def)

interpretation replayed: machine "\<lambda>rd. rd = new_reading"
    "\<lambda>rd rd'. \<exists>v \<in> R. dict_like v \<and> validate_record sha nfc v rd = Inr rd'" "sound sha R" for sha nfc R
  by unfold_locales (auto simp: sound_new intro: sound_record)

lemma replay_runs:
  "replay sha nfc vs rd = Inr rd' \<Longrightarrow> dict_like_list vs \<Longrightarrow> set vs \<subseteq> R \<Longrightarrow>
   (\<lambda>rd rd'. \<exists>v \<in> R. dict_like v \<and> validate_record sha nfc v rd = Inr rd')\<^sup>*\<^sup>* rd rd'"
proof (induction vs arbitrary: rd)
  case (Cons v vs)
  then obtain mid where "validate_record sha nfc v rd = Inr mid" "replay sha nfc vs mid = Inr rd'" "dict_like v" "v \<in> R"
    by (auto simp: result_simps)
  with Cons show ?case by (auto intro: converse_rtranclp_into_rtranclp)
qed simp

lemma replay_sound: "replay sha nfc vs new_reading = Inr rd \<Longrightarrow> dict_like_list vs \<Longrightarrow> set vs \<subseteq> R \<Longrightarrow> sound sha R rd"
  using replayed.run_keeps [OF replay_runs] sound_new by blast

section \<open>A retraction undoes its link\<close>

text \<open>Two of the given records have different texts and one digest.\<close>

definition records_collide :: "sha \<Rightarrow> json set \<Rightarrow> bool" where
  "records_collide sha R \<longleftrightarrow>
     (\<exists>v \<in> R. \<exists>w \<in> R. \<exists>t t'. canonical_text v = Inr t \<and> canonical_text w = Inr t' \<and> t \<noteq> t' \<and> sha t = sha t')"

lemma links_differ:
  assumes "link_of sha R page (d, m)" "link_of sha R page' (d, m')"
  shows "page = page' \<or> records_collide sha R"
proof -
  obtain rec t where r: "JObj rec \<in> R" "dict_like (JObj rec)" "field rec ''physical_page_id'' = Some (JStr page)"
    "canonical_text (JObj rec) = Inr t" "d = sha t"
    using assms(1) by (auto simp: link_of_def digest_of_def result_simps)
  obtain rec' t' where r': "JObj rec' \<in> R" "dict_like (JObj rec')" "field rec' ''physical_page_id'' = Some (JStr page')"
    "canonical_text (JObj rec') = Inr t'" "d = sha t'"
    using assms(2) by (auto simp: link_of_def digest_of_def result_simps)
  show ?thesis
  proof (cases "t = t'")
    case True
    then have "sort_keys (JObj rec) = sort_keys (JObj rec')"
      using canonical_text_inject r(2,4) r'(2,4) by blast
    then have "sort_key fst (sort_keys_members rec) = sort_key fst (sort_keys_members rec')" by simp
    then have "map_option sort_keys (field rec ''physical_page_id'') = map_option sort_keys (field rec' ''physical_page_id'')"
      using field_sort_keys [of rec "''physical_page_id''"] field_sort_keys [of rec' "''physical_page_id''"] r(2) r'(2) by simp
    with r(3) r'(3) show ?thesis by simp
  next
    case False
    with r(1,4,5) r'(1,4,5) show ?thesis unfolding records_collide_def by blast
  qed
qed

lemma retraction_undoes:
  assumes "sound sha R rd" "membership_record sha rec rd = Inr (i, rd1)" "dict_like (JObj rec)" "JObj rec \<in> R"
    "digest_of sha (JObj rec) = Inr d" "retract_membership d (rd1\<lparr>rd_seen := x\<rparr>) = Inr rd2"
  shows "map_of (rd_heads rd2) = map_of (rd_heads rd) \<or> records_collide sha R"
proof -
  obtain page members where m: "link_of sha R page (d, members)" "rd1 = rd\<lparr>rd_heads := AList.update page (d, members) (rd_heads rd),
       rd_chains := AList.update page (chain_at rd page @ [(d, members)]) (rd_chains rd), rd_links := d # rd_links rd\<rparr>"
  proof (rule membership_effect [OF assms(2-4)])
    fix page digest members
    assume "digest_of sha (JObj rec) = Inr digest" "link_of sha R page (digest, members)"
      "rd1 = rd\<lparr>rd_heads := AList.update page (digest, members) (rd_heads rd),
         rd_chains := AList.update page (chain_at rd page @ [(digest, members)]) (rd_chains rd), rd_links := digest # rd_links rd\<rparr>"
    with that [of page members] assms(5) show thesis by simp
  qed
  obtain page' head where h: "(page', head) \<in> set (rd_heads (rd1\<lparr>rd_seen := x\<rparr>))" "fst head = d" "chain_at (rd1\<lparr>rd_seen := x\<rparr>) page' \<noteq> []"
    and rd2: "rd2 = (rd1\<lparr>rd_seen := x\<rparr>)\<lparr>rd_chains := AList.update page' (butlast (chain_at (rd1\<lparr>rd_seen := x\<rparr>) page')) (rd_chains (rd1\<lparr>rd_seen := x\<rparr>)),
       rd_retracted := d # rd_retracted (rd1\<lparr>rd_seen := x\<rparr>),
       rd_heads := (if butlast (chain_at (rd1\<lparr>rd_seen := x\<rparr>) page') \<noteq> []
         then AList.update page' (last (butlast (chain_at (rd1\<lparr>rd_seen := x\<rparr>) page'))) (rd_heads (rd1\<lparr>rd_seen := x\<rparr>))
         else AList.delete page' (rd_heads (rd1\<lparr>rd_seen := x\<rparr>)))\<rparr>"
    by (rule retract_effect [OF assms(6)])
  have s: "chains_ok sha R rd" "distinct (map fst (rd_heads rd))" using assms(1) by (simp_all add: sound_def chains_ok_def)
  have heads: "map_of (rd_heads rd) p = (if chain_at rd p = [] then None else Some (last (chain_at rd p)))" for p
    using s(1) unfolding chains_ok_def by blast
  show ?thesis
  proof (cases "page' = page")
    case True
    have "map_of (rd_heads rd2) = (map_of (rd_heads rd))(page := map_of (rd_heads rd) page)"
      using heads [of page] by (simp add: rd2 m(2) True update_conv' delete_conv' del: fun_upd_triv map_of_eq_Some_iff)
    then show ?thesis by simp
  next
    case False
    have "map_of (rd_heads rd1) page' = Some head"
      using h(1) s(2) by (simp add: m(2) distinct_update)
    then have "head = last (chain_at rd page')" "chain_at rd page' \<noteq> []"
      using heads [of page'] False by (simp_all add: m(2) update_conv' split: if_splits)
    then have "link_of sha R page' (d, snd head)"
      using s(1) h(2) unfolding chains_ok_def chain_sound_def by (metis last_in_set prod.collapse)
    with m(1) links_differ False show ?thesis by blast
  qed
qed

section \<open>The writers only append\<close>

lemma loads_canonical:
  assumes "canonical_text (register_value records) = Inr t" "dict_like_list records"
  shows "loads t = Some (JObj [(u ''records'', JList (map sort_keys records)), (u ''schema'', JStr SCHEMA)])"
proof -
  have d: "dict_like (register_value records)" using assms(2) by (simp add: register_value_def SCHEMA_def)
  have "sort_keys (register_value records) = JObj (sort_key fst [(u ''schema'', JStr SCHEMA), (u ''records'', JList (map sort_keys records))])"
    by (simp add: register_value_def sort_keys_list_map)
  moreover have "u ''records'' < u ''schema''" by code_simp
  ultimately have sorted: "sort_keys (register_value records) = JObj [(u ''records'', JList (map sort_keys records)), (u ''schema'', JStr SCHEMA)]"
    by simp
  then have "\<exists>cs. t = 123 # cs" using canonical_text_cases [OF assms(1)] by simp
  then have "skip_ws t = t" by (auto simp: skip_ws_at JSON_WHITESPACE_def)
  then show ?thesis
    using canonical_text_read [OF assms(1) d] sorted by (simp add: loads_def skip_ws_def)
qed

lemma read_value_records:
  assumes "read_value sha nfc t = Inr (records', rd)" "canonical_text (register_value records) = Inr t" "dict_like_list records"
  shows "records' = map sort_keys records \<and> replay sha nfc records' new_reading = Inr rd"
  using assms(1) loads_canonical [OF assms(2,3)]
  by (auto simp: read_value_def result_simps field_def split: if_splits)

definition stored :: "sha \<Rightarrow> (ustr \<Rightarrow> ustr) \<Rightarrow> ustr option \<Rightarrow> json list" where
  "stored sha nfc file =
     (case file of None \<Rightarrow> [] | Some data \<Rightarrow> (case read_value sha nfc data of Inr (records, _) \<Rightarrow> records | Inl _ \<Rightarrow> []))"

text \<open>One writer's append that succeeds; refused ones leave the file.\<close>

inductive appends :: "sha \<Rightarrow> (ustr \<Rightarrow> ustr) \<Rightarrow> ustr option \<Rightarrow> ustr option \<Rightarrow> bool" for sha nfc where
  "dict_like_list new \<Longrightarrow> append_records sha nfc new expected file = Inr (digest, successor) \<Longrightarrow>
   appends sha nfc file (Some successor)"

definition readable :: "sha \<Rightarrow> (ustr \<Rightarrow> ustr) \<Rightarrow> ustr option \<Rightarrow> bool" where
  "readable sha nfc file \<longleftrightarrow>
     (case file of None \<Rightarrow> True | Some data \<Rightarrow>
        (\<exists>records rd. read_value sha nfc data = Inr (records, rd) \<and> dict_like_list records \<and> map sort_keys records = records \<and> sound sha (set records) rd))"

lemma append_effect:
  assumes "append_records sha nfc new expected file = Inr (digest, successor)"
  obtains current records rd records' rd' where "current_register file = Inr current" "read_value sha nfc current = Inr (records, rd)"
    "expected = sha current" "canonical_text (register_value (records @ new)) = Inr successor"
    "read_value sha nfc successor = Inr (records', rd')" "digest = sha successor" "new \<noteq> []"
proof -
  from assms obtain current records rd records' rd' where "current_register file = Inr current" "read_value sha nfc current = Inr (records, rd)"
    "require_observed_head sha nfc current expected = Inr expected" "canonical_text (register_value (records @ new)) = Inr successor"
    "read_value sha nfc successor = Inr (records', rd')" "digest = sha successor" "new \<noteq> []"
    by (auto simp: append_records_def register_digest_def require_observed_head_def result_simps split: if_splits)
  moreover from this(3) have "expected = sha current"
    by (auto simp: require_observed_head_def register_digest_def result_simps split: if_splits)
  ultimately show thesis using that by blast
qed

lemma current_records:
  assumes "readable sha nfc file" "current_register file = Inr current" "read_value sha nfc current = Inr (records, rd)"
  shows "records = stored sha nfc file \<and> dict_like_list records \<and> map sort_keys records = records"
proof (cases "file :: ustr option")
  case None
  then have "canonical_text (register_value []) = Inr current" using assms(2) by (simp add: current_register_def empty_register_def)
  from read_value_records [OF assms(3) this] None show ?thesis by (simp add: stored_def)
next
  case (Some data)
  with assms show ?thesis by (auto simp: readable_def stored_def current_register_def)
qed

lemma append_extends:
  assumes "readable sha nfc file" "dict_like_list new" "append_records sha nfc new expected file = Inr (digest, successor)"
  shows "readable sha nfc (Some successor) \<and> stored sha nfc (Some successor) = stored sha nfc file @ map sort_keys new"
proof -
  obtain current records rd records' rd' where a: "current_register file = Inr current" "read_value sha nfc current = Inr (records, rd)"
    "expected = sha current" "canonical_text (register_value (records @ new)) = Inr successor"
    "read_value sha nfc successor = Inr (records', rd')" "digest = sha successor" "new \<noteq> []"
    by (rule append_effect [OF assms(3)])
  have r: "records = stored sha nfc file" "dict_like_list records" "map sort_keys records = records"
    using current_records [OF assms(1) a(1,2)] by blast+
  have d: "dict_like_list (records @ new)" using r(2) assms(2) by (simp add: dict_like_list_all)
  note read_back = read_value_records [OF a(5,4) d]
  then have r': "records' = records @ map sort_keys new" using r(3) by simp
  have d': "dict_like_list records'"
    using sort_keys_dict_like(2) [OF d] r' r(3) by (simp add: sort_keys_list_map)
  moreover have "map sort_keys records' = records'" using r' r(3) by (simp add: sort_keys_twice)
  moreover have "sound sha (set records') rd'" using replay_sound [OF _ d' order_refl] read_back by blast
  ultimately have "readable sha nfc (Some successor)" using a(5) by (simp add: readable_def)
  then show ?thesis using a(5) r(1) r' by (simp add: stored_def)
qed

interpretation register_file: ordered_machine "\<lambda>file. file = None" "appends sha nfc" "readable sha nfc"
    "\<lambda>f g. \<exists>rest. stored sha nfc g = stored sha nfc f @ rest" for sha nfc
proof unfold_locales
  fix f g assume "readable sha nfc f" "appends sha nfc f g"
  then show "readable sha nfc g" "\<exists>rest. stored sha nfc g = stored sha nfc f @ rest"
    by (auto elim!: appends.cases dest: append_extends)
next
  fix f g h assume "\<exists>rest. stored sha nfc g = stored sha nfc f @ rest" "\<exists>rest. stored sha nfc h = stored sha nfc g @ rest"
  then show "\<exists>rest. stored sha nfc h = stored sha nfc f @ rest" by auto
qed (auto simp: readable_def)

lemma stored_later_differs:
  assumes "readable sha nfc file" "(appends sha nfc)\<^sup>+\<^sup>+ file (Some later)" "current_register file = Inr current"
  shows "later \<noteq> current"
proof
  assume same: "later = current"
  obtain mid where mid: "appends sha nfc file mid" "(appends sha nfc)\<^sup>*\<^sup>* mid (Some later)"
    using assms(2) by (metis tranclpD)
  from mid(1) obtain new expected digest successor where a: "append_records sha nfc new expected file = Inr (digest, successor)"
    "dict_like_list new" "mid = Some successor" by (auto elim: appends.cases)
  obtain records rd where r: "read_value sha nfc current = Inr (records, rd)" "new \<noteq> []"
    using append_effect [OF a(1)] assms(3) by (metis Inr_inject)
  have "records = stored sha nfc file" using current_records [OF assms(1,3) r(1)] by blast
  moreover have "records = stored sha nfc (Some later)" using r(1) same by (simp add: stored_def)
  moreover have m: "readable sha nfc mid" "stored sha nfc mid = stored sha nfc file @ map sort_keys new"
    using append_extends [OF assms(1) a(2,1)] a(3) by simp_all
  moreover obtain rest where "stored sha nfc (Some later) = stored sha nfc mid @ rest"
    using register_file.run_below [OF mid(2) m(1)] by blast
  ultimately show False using r(2) by simp
qed

section \<open>Properties\<close>

text \<open>C39. Whatever records replay: the head of every page is the end of its chain, every link of a chain names
  more captures than the one before and carries the digest of a replayed record about that page, only declared
  pages have chains, what was retracted was once declared, and every correspondence that stands names
  a declared page and an act minted for it.\<close>

theorem replayed_register_is_sound:
  assumes "replay sha nfc records new_reading = Inr rd" "dict_like_list records"
  shows "sound sha (set records) rd"
  by (rule replay_sound [OF assms order_refl])

text \<open>A retraction undoes exactly its link: when a membership record is accepted and then retracted, every
  page has the head it had before the record; the one way out is that two of the records themselves
  have different texts and one digest.\<close>

theorem retraction_restores_the_heads:
  assumes "replay sha nfc records new_reading = Inr rd" "dict_like_list records"
    and "validate_record sha nfc (JObj link) rd = Inr rd1" "field link ''kind'' = Some (JStr (u ''membership''))"
    and "dict_like (JObj link)" "digest_of sha (JObj link) = Inr d"
    and "validate_record sha nfc (JObj retraction) rd1 = Inr rd2" "field retraction ''kind'' = Some (JStr (u ''retraction''))"
    and "field retraction ''retracts'' = Some (JStr (MEMBERSHIP @ d))"
  shows "map_of (rd_heads rd2) = map_of (rd_heads rd) \<or> records_collide sha (set (JObj link # records))"
proof -
  let ?R = "set (JObj link # records)"
  have rd: "sound sha ?R rd" by (rule replay_sound [OF assms(1,2)]) auto
  obtain i mid where m: "membership_record sha link rd = Inr (i, mid)" "rd1 = mid\<lparr>rd_seen := i # rd_seen mid\<rparr>"
    using assms(3,4) by (auto simp: validate_record_def result_simps split: if_splits)
  obtain j fin where r: "retraction_record retraction rd1 = Inr (j, fin)" "rd2 = fin\<lparr>rd_seen := j # rd_seen fin\<rparr>"
    using assms(7,8) by (auto simp: validate_record_def result_simps split: if_splits)
  have "retract_membership d rd1 = Inr fin"
    using r(1) assms(9) by (auto simp: retraction_record_def result_simps)
  from retraction_undoes [OF rd m(1) assms(5) _ assms(6), of "i # rd_seen mid" fin] this
  show ?thesis by (simp add: m(2) r(2))
qed

text \<open>However writers append, from an absent file on: what is stored can be read and replays soundly, and
  later files hold the records of earlier ones unchanged, in order, before their own.\<close>

theorem register_only_grows:
  assumes "(appends sha nfc)\<^sup>*\<^sup>* None earlier" "(appends sha nfc)\<^sup>*\<^sup>* earlier later"
  shows "readable sha nfc later \<and> (\<exists>rest. stored sha nfc later = stored sha nfc earlier @ rest)"
proof -
  have "readable sha nfc None" by (simp add: readable_def)
  then have "readable sha nfc earlier" by (rule register_file.run_keeps [OF assms(1)])
  then show ?thesis using register_file.run_keeps [OF assms(2)] register_file.run_below [OF assms(2)] by blast
qed

text \<open>C40. No writer discards another's records: once appends went through after a writer read the register,
  however many and whosever, what that writer prepared against the digest it read is refused; the register's
  text is another one by then, so the one way out is that these two texts have one digest.\<close>

theorem stale_append_is_refused:
  assumes "(appends sha nfc)\<^sup>*\<^sup>* None file" "(appends sha nfc)\<^sup>+\<^sup>+ file (Some later)" "current_register file = Inr current"
  shows "later \<noteq> current \<and>
    ((\<exists>e. append_records sha nfc prepared (sha current) (Some later) = Inl e) \<or> sha later = sha current)"
proof
  have readable: "readable sha nfc file"
    by (rule register_file.run_keeps [OF assms(1)]) (simp add: readable_def)
  show "later \<noteq> current" by (rule stored_later_differs [OF readable assms(2,3)])
  show "(\<exists>e. append_records sha nfc prepared (sha current) (Some later) = Inl e) \<or> sha later = sha current"
  proof (cases "append_records sha nfc prepared (sha current) (Some later)")
    case (Inr r)
    obtain digest successor where "append_records sha nfc prepared (sha current) (Some later) = Inr (digest, successor)"
      using Inr by (cases r) simp
    then have "sha current = sha later" by (auto elim!: append_effect simp: current_register_def)
    then show ?thesis by simp
  qed blast
qed

section \<open>A register played\<close>

definition demo_ppg :: json where
  "demo_ppg = JStr (projr (physical_page_id demo_digest id (JStr (u ''c'')) (JStr (u ''v'')) (JStr (u ''1''))))"

definition demo_page :: json where
  "demo_page = JObj [(u ''kind'', JStr (u ''physical-page'')), (u ''corpus_id'', JStr (u ''c'')), (u ''volume_id'', JStr (u ''v'')),
     (u ''designation'', JStr (u ''1'')), (u ''physical_page_id'', demo_ppg), (u ''appending_run'', JStr (u ''r''))]"

definition demo_link :: "(ustr \<times> json) list" where
  "demo_link = [(u ''kind'', JStr (u ''membership'')), (u ''physical_page_id'', demo_ppg), (u ''members'', JList [JStr (replicate 64 97)]),
     (u ''predecessor'', JNull), (u ''appending_run'', JStr (u ''r''))]"

definition demo_retraction :: "(ustr \<times> json) list" where
  "demo_retraction = [(u ''kind'', JStr (u ''retraction'')),
     (u ''retracts'', JStr (MEMBERSHIP @ projr (digest_of demo_digest (JObj demo_link)))),
     (u ''reason'', JStr (u ''x'')), (u ''appending_run'', JStr (u ''s''))]"

lemma replayed_register_is_sound_witness:
  "\<exists>rd. replay demo_digest id [demo_page, JObj demo_link] new_reading = Inr rd \<and> sound demo_digest (set [demo_page, JObj demo_link]) rd"
proof -
  have "case replay demo_digest id [demo_page, JObj demo_link] new_reading of Inl e \<Rightarrow> False | Inr rd \<Rightarrow> True"
    "dict_like_list [demo_page, JObj demo_link]" by code_simp+
  with replayed_register_is_sound [of demo_digest id "[demo_page, JObj demo_link]"] show ?thesis
    by (auto split: sum.splits)
qed

lemma retraction_restores_the_heads_witness:
  "\<exists>rd rd1 rd2. replay demo_digest id [demo_page] new_reading = Inr rd \<and>
     validate_record demo_digest id (JObj demo_link) rd = Inr rd1 \<and>
     validate_record demo_digest id (JObj demo_retraction) rd1 = Inr rd2 \<and>
     (map_of (rd_heads rd2) = map_of (rd_heads rd) \<or>
      records_collide demo_digest (set [JObj demo_link, demo_page]))"
proof -
  have "case replay demo_digest id [demo_page, JObj demo_link, JObj demo_retraction] new_reading of Inl e \<Rightarrow> False | Inr x \<Rightarrow> True"
    by code_simp
  from Inr_of_case [OF this] obtain rd rd1 rd2 where steps: "replay demo_digest id [demo_page] new_reading = Inr rd"
    "validate_record demo_digest id (JObj demo_link) rd = Inr rd1" "validate_record demo_digest id (JObj demo_retraction) rd1 = Inr rd2"
    by (auto simp: result_simps)
  have d: "dict_like_list [demo_page]" "dict_like (JObj demo_link)" by code_simp+
  have k: "field demo_link ''kind'' = Some (JStr (u ''membership''))" "field demo_retraction ''kind'' = Some (JStr (u ''retraction''))"
    by (simp_all add: demo_link_def demo_retraction_def field_def)
  have "case digest_of demo_digest (JObj demo_link) of Inl e \<Rightarrow> False | Inr x \<Rightarrow> True" by code_simp
  then obtain d where digest: "digest_of demo_digest (JObj demo_link) = Inr d" using Inr_of_case by blast
  then have "field demo_retraction ''retracts'' = Some (JStr (MEMBERSHIP @ d))" by (simp add: demo_retraction_def field_def)
  from retraction_restores_the_heads [OF steps(1) d(1) steps(2) k(1) d(2) digest steps(3) k(2) this] steps
  show ?thesis by blast
qed

definition demo_empty :: ustr where
  "demo_empty = projr empty_register"

definition demo_append :: "(ustr \<times> ustr) result" where
  "demo_append = append_records demo_digest id [demo_page] (demo_digest demo_empty) None"

lemma demo_append_runs: "\<exists>d s. demo_append = Inr (d, s)"
proof -
  have "case demo_append of Inl e \<Rightarrow> False | Inr x \<Rightarrow> True" by code_simp
  from Inr_of_case [OF this] show ?thesis by auto
qed

lemma register_only_grows_witness:
  "\<exists>f. (appends demo_digest id)\<^sup>*\<^sup>* None f \<and> f \<noteq> None \<and> readable demo_digest id f"
proof -
  obtain d s where "append_records demo_digest id [demo_page] (demo_digest demo_empty) None = Inr (d, s)"
    using demo_append_runs by (auto simp: demo_append_def)
  moreover have "dict_like_list [demo_page]" by code_simp
  ultimately have "appends demo_digest id None (Some s)" by (intro appends.intros)
  then have run: "(appends demo_digest id)\<^sup>*\<^sup>* None (Some s)" by (rule r_into_rtranclp)
  from register_only_grows [OF rtranclp.rtrancl_refl run] run show ?thesis by blast
qed

lemma stale_append_is_refused_witness:
  "\<exists>later. (appends demo_digest id)\<^sup>+\<^sup>+ None (Some later) \<and> later \<noteq> demo_empty \<and>
     ((\<exists>e. append_records demo_digest id [JObj demo_link] (demo_digest demo_empty) (Some later) = Inl e) \<or>
      demo_digest later = demo_digest demo_empty)"
proof -
  obtain d s where a: "append_records demo_digest id [demo_page] (demo_digest demo_empty) None = Inr (d, s)"
    using demo_append_runs by (auto simp: demo_append_def)
  have "dict_like_list [demo_page]" by code_simp
  then have run: "(appends demo_digest id)\<^sup>+\<^sup>+ None (Some s)" using a by (intro tranclp.r_into_trancl appends.intros)
  have "case empty_register of Inl e \<Rightarrow> False | Inr x \<Rightarrow> True" by code_simp
  then obtain t where t: "empty_register = Inr t" using Inr_of_case by blast
  have "demo_empty = t" unfolding demo_empty_def t by simp
  then have "current_register None = Inr demo_empty" by (simp add: current_register_def t)
  from stale_append_is_refused [OF rtranclp.rtrancl_refl run this] run show ?thesis by blast
qed

end
