(* ===== verification/Envelope.thy ===== *)
theory Envelope
  imports Identities HardFailure
begin

text \<open>
  The envelope every artifact wears, \<open>common/contracts/envelope.py\<close>: its references, its assembly and the
  refusals at a handoff, over the outcome algebra, the derived identities and the canonical text. The
  composed normal form and the case folding of a path are parameters.
\<close>

section \<open>Input references\<close>

definition portable_spelling :: "(ustr \<Rightarrow> ustr) \<Rightarrow> (ustr \<Rightarrow> ustr) \<Rightarrow> ustr \<Rightarrow> ustr" where
  "portable_spelling nfc fold_case path = nfc (fold_case (nfc path))"

definition string_field :: "(ustr \<times> json) list \<Rightarrow> string \<Rightarrow> ustr option" where
  "string_field kvs name = (case field kvs name of Some (JStr s) \<Rightarrow> Some s | _ \<Rightarrow> None)"

text \<open>A reference may carry more than its path and digest, which nothing reads.\<close>

definition input_ref :: "json \<Rightarrow> ref result" where
  "input_ref v =
     (case v of
        JObj kvs \<Rightarrow>
          (case string_field kvs ''relative_path'' of
             Some path \<Rightarrow>
               if path = [] then Inl (SchemaRefusal ''has no relative_path'')
               else if \<not> is_run_relative path then Inl (SchemaRefusal ''canonical run-relative path'')
               else (case string_field kvs ''sha256'' of
                 Some sha \<Rightarrow> if is_sha256_text sha then Inr (path, sha) else Inl (SchemaRefusal ''has no sha256 digest'')
               | None \<Rightarrow> Inl (SchemaRefusal ''has no sha256 digest''))
           | None \<Rightarrow> Inl (SchemaRefusal ''has no relative_path''))
      | _ \<Rightarrow> Inl (SchemaRefusal ''not an object''))"

fun check_refs :: "(ustr \<Rightarrow> ustr) \<Rightarrow> ustr list \<Rightarrow> json list \<Rightarrow> ustr list result" where
  "check_refs spelling seen [] = Inr seen"
| "check_refs spelling seen (v # vs) =
     rbind (input_ref v) (\<lambda>(path, digest).
       if path \<in> set seen then Inl (SchemaRefusal ''listed twice'')
       else if spelling path \<in> set (map spelling seen) then Inl (SchemaRefusal ''collide'')
       else check_refs spelling (path # seen) vs)"

definition validate_input_refs :: "(ustr \<Rightarrow> ustr) \<Rightarrow> (ustr \<Rightarrow> ustr) \<Rightarrow> json \<Rightarrow> ustr list result" where
  "validate_input_refs nfc fold_case v =
     (case v of
        JList vs \<Rightarrow> check_refs (portable_spelling nfc fold_case) [] vs
      | _ \<Rightarrow> Inl (SchemaRefusal ''inputs is not a list''))"

section \<open>The checks of a handoff\<close>

definition SCHEMA_LABEL :: ustr where
  "SCHEMA_LABEL = u ''skeleton.v1''"

definition REQUIRED :: "string list" where
  "REQUIRED = [''schema'', ''run_id'', ''artifact_id'', ''attempt_id'', ''subject_id'', ''stage'', ''kind'', ''outcome'',
     ''config_digest'', ''producer'', ''inputs'', ''payload'', ''self_hash'']"

definition OPTIONAL :: "string list" where
  "OPTIONAL = [''approval_ref'']"

definition envelope_keys :: "(ustr \<times> json) list \<Rightarrow> bool" where
  "envelope_keys kvs \<longleftrightarrow>
     set (map u REQUIRED) \<subseteq> set (map fst kvs) \<and> set (map fst kvs) \<subseteq> set (map u (REQUIRED @ OPTIONAL))"

definition named_text :: "(ustr \<times> json) list \<Rightarrow> string \<Rightarrow> ustr result" where
  "named_text kvs name =
     (case string_field kvs name of
        Some s \<Rightarrow> if s = [] then Inl (SchemaRefusal name) else Inr s
      | None \<Rightarrow> Inl (SchemaRefusal name))"

definition attempt_of :: "(ustr \<times> json) list \<Rightarrow> json result" where
  "attempt_of kvs =
     (case field kvs ''attempt_id'' of
        Some JNull \<Rightarrow> Inr JNull
      | Some (JStr s) \<Rightarrow> if has_prefix (JStr s) ''att'' then Inr (JStr s) else Inl (SchemaRefusal ''attempt_id'')
      | _ \<Rightarrow> Inl (SchemaRefusal ''attempt_id''))"

definition check_payload :: "json option \<Rightarrow> unit result" where
  "check_payload v = (case v of Some (JObj _) \<Rightarrow> Inr () | _ \<Rightarrow> Inl (SchemaRefusal ''payload is not an object''))"

definition check_producer :: "json option \<Rightarrow> string \<Rightarrow> unit result" where
  "check_producer v stage =
     (case v of
        Some (JObj kvs) \<Rightarrow>
          if \<not> keys_are kvs [''stage'', ''adapter_revision''] then Inl (SchemaRefusal ''producer is not the closed object'')
          else if string_field kvs ''stage'' \<noteq> Some (u stage) then Inl (SchemaRefusal ''producer disagrees'')
          else (case string_field kvs ''adapter_revision'' of
            Some revision \<Rightarrow> ensure (\<not> blank revision) (SchemaRefusal ''names no adapter revision'')
          | None \<Rightarrow> Inl (SchemaRefusal ''names no adapter revision''))
      | _ \<Rightarrow> Inl (SchemaRefusal ''producer is not the closed object''))"

definition stage_of :: "json option \<Rightarrow> string result" where
  "stage_of v = rget (SchemaRefusal ''stage, which does not exist'') (case v of Some s \<Rightarrow> known_stage s | None \<Rightarrow> None)"

definition boundary_outcome :: "ustr \<Rightarrow> string option" where
  "boundary_outcome kind = map_option snd (find (\<lambda>(k, out). kind = u k) BOUNDARY_OUTCOMES)"

text \<open>Of the reference of an approval only whether it is a text, and a text of some length, is read.\<close>

definition approval_read :: "json option \<Rightarrow> pyany" where
  "approval_read v = (case v of Some (JStr s) \<Rightarrow> PyStr (if s = [] then [] else ''approval'') | _ \<Rightarrow> PyNone)"

definition check_boundary :: "string \<Rightarrow> ustr \<Rightarrow> json \<Rightarrow> json option \<Rightarrow> unit result" where
  "check_boundary stage kind out approval =
     (case boundary_outcome kind of
        Some expected \<Rightarrow>
          if out \<noteq> JStr (u expected) then Inl (SchemaRefusal ''not its required boundary outcome'')
          else rbind (classify stage (pyany_of out)) (\<lambda>_. require_approval stage (pyany_of out) (approval_read approval))
      | None \<Rightarrow>
          rbind (classify stage (pyany_of out)) (\<lambda>_.
            if out = JStr (u ''recorded'') \<or> out = JStr (u ''sealed'') \<and> stage \<noteq> ''exemplar''
            then Inl (SchemaRefusal ''cannot carry boundary outcome'')
            else require_approval stage (pyany_of out) (approval_read approval)))"

definition validate_envelope :: "sha \<Rightarrow> (ustr \<Rightarrow> ustr) \<Rightarrow> (ustr \<Rightarrow> ustr) \<Rightarrow> json \<Rightarrow> (ustr \<times> json) list result" where
  "validate_envelope sha nfc fold_case v =
     (case v of
        JObj kvs \<Rightarrow>
          rbind (ensure (envelope_keys kvs) (SchemaRefusal ''closed handoff schema'')) (\<lambda>_.
          rbind (ensure (field kvs ''schema'' = Some (JStr SCHEMA_LABEL)) (SchemaRefusal ''declares schema'')) (\<lambda>_.
          rbind (stage_of (field kvs ''stage'')) (\<lambda>stage.
          rbind (named_text kvs ''run_id'') (\<lambda>run.
          rbind (named_text kvs ''kind'') (\<lambda>kind.
          rbind (named_text kvs ''config_digest'') (\<lambda>config.
          rbind (named_text kvs ''subject_id'') (\<lambda>subject.
          rbind (bound kvs ''artifact_id'') (\<lambda>artifact.
          rbind (ensure (is_well_formed artifact) (SchemaRefusal ''artifact_id is malformed'')) (\<lambda>_.
          rbind (attempt_of kvs) (\<lambda>attempt.
          rbind (artifact_id sha (JStr (u stage)) (JStr kind) (JStr subject) attempt) (\<lambda>expected.
          rbind (ensure (artifact = JStr expected) (SchemaRefusal ''does not verify against its binding'')) (\<lambda>_.
          rbind (check_producer (field kvs ''producer'') stage) (\<lambda>_.
          rbind (bound kvs ''inputs'') (\<lambda>inputs.
          rbind (validate_input_refs nfc fold_case inputs) (\<lambda>_.
          rbind (check_payload (field kvs ''payload'')) (\<lambda>_.
          rbind (ensure (verify_self_hash sha kvs) (SchemaRefusal ''fails its self-hash'')) (\<lambda>_.
          rbind (bound kvs ''outcome'') (\<lambda>out.
          rbind (check_boundary stage kind out (field kvs ''approval_ref'')) (\<lambda>_.
            Inr kvs)))))))))))))))))))
      | _ \<Rightarrow> Inl (SchemaRefusal ''artifact is not an object''))"

section \<open>Assembly\<close>

definition ref_text :: "json \<Rightarrow> string \<Rightarrow> ustr" where
  "ref_text v name = (case v of JObj kvs \<Rightarrow> (case string_field kvs name of Some s \<Rightarrow> s | None \<Rightarrow> []) | _ \<Rightarrow> [])"

record envelope_given =
  eg_run_id :: json
  eg_artifact_id :: json
  eg_subject_id :: json
  eg_stage :: json
  eg_kind :: json
  eg_outcome :: json
  eg_config_digest :: json
  eg_adapter_revision :: json
  eg_inputs :: json
  eg_payload :: json
  eg_attempt :: json
  eg_approval_ref :: json

definition unsealed_envelope :: "envelope_given \<Rightarrow> json list \<Rightarrow> (ustr \<times> json) list" where
  "unsealed_envelope g refs =
     [(u ''schema'', JStr SCHEMA_LABEL), (u ''run_id'', eg_run_id g), (u ''artifact_id'', eg_artifact_id g),
      (u ''attempt_id'', eg_attempt g), (u ''subject_id'', eg_subject_id g), (u ''stage'', eg_stage g), (u ''kind'', eg_kind g),
      (u ''outcome'', eg_outcome g), (u ''config_digest'', eg_config_digest g),
      (u ''producer'', JObj [(u ''stage'', eg_stage g), (u ''adapter_revision'', eg_adapter_revision g)]),
      (u ''inputs'', JList (sort_key (\<lambda>ref. (ref_text ref ''relative_path'', ref_text ref ''sha256'')) refs)),
      (u ''payload'', eg_payload g)] @
     (if eg_approval_ref g = JNull then [] else [(u ''approval_ref'', eg_approval_ref g)])"

definition build_envelope :: "sha \<Rightarrow> (ustr \<Rightarrow> ustr) \<Rightarrow> (ustr \<Rightarrow> ustr) \<Rightarrow> envelope_given \<Rightarrow> (ustr \<times> json) list result" where
  "build_envelope sha nfc fold_case g =
     rbind (validate_input_refs nfc fold_case (eg_inputs g)) (\<lambda>_.
       case eg_inputs g of
         JList refs \<Rightarrow>
           rbind (self_hash sha (unsealed_envelope g refs)) (\<lambda>digest.
             validate_envelope sha nfc fold_case (JObj (unsealed_envelope g refs @ [(u ''self_hash'', JStr digest)])))
       | _ \<Rightarrow> Inl (SchemaRefusal ''inputs is not a list''))"

end
