(* ===== verification/EnvelopeFacts.thy ===== *)
theory EnvelopeFacts
  imports Envelope IdentitiesFacts
begin

text \<open>
  What an accepted envelope is, and that writing it canonically and reading it back changes nothing a
  consumer checks.
\<close>

section \<open>References\<close>

lemma input_ref_path: "input_ref v = Inr (path, digest) \<Longrightarrow> is_run_relative path \<and> is_sha256_text digest"
  by (auto simp: input_ref_def split: json.splits option.splits if_splits)

lemma check_refs_sound:
  "check_refs spelling seen vs = Inr paths \<Longrightarrow> distinct (map spelling seen) \<Longrightarrow> list_all is_run_relative seen \<Longrightarrow>
   distinct (map spelling paths) \<and> list_all is_run_relative paths \<and>
   paths = rev (map (\<lambda>v. fst (projr (input_ref v))) vs) @ seen"
proof (induction vs arbitrary: seen)
  case (Cons v vs)
  then obtain path digest where v: "input_ref v = Inr (path, digest)" "path \<notin> set seen" "spelling path \<notin> set (map spelling seen)"
    "check_refs spelling (path # seen) vs = Inr paths"
    by (auto simp: result_simps split: if_splits)
  have "distinct (map spelling (path # seen))" "list_all is_run_relative (path # seen)"
    using Cons.prems(2,3) v(3) input_ref_path [OF v(1)] by simp_all
  note h = Cons.IH [OF v(4) this]
  have eq: "rev (map (\<lambda>v. fst (projr (input_ref v))) vs) @ path # seen = rev (map (\<lambda>v. fst (projr (input_ref v))) (v # vs)) @ seen"
    using v(1) by simp
  show ?case using h unfolding eq .
qed simp

section \<open>Key order is not read\<close>

lemma sort_keys_text [simp]: "sort_keys v = JStr s \<longleftrightarrow> v = JStr s"
  by (cases v) simp_all

lemma field_sorted:
  assumes "dict_like (JObj kvs)" "sort_keys (JObj kvs) = JObj kvs'"
  shows "field kvs' name = map_option sort_keys (field kvs name)"
  using assms field_sort_keys [of kvs name] by auto

lemma string_field_sorted:
  assumes "dict_like (JObj kvs)" "sort_keys (JObj kvs) = JObj kvs'"
  shows "string_field kvs' name = string_field kvs name"
  using field_sorted [OF assms, of name]
  by (auto simp: string_field_def split: option.splits json.splits)

lemma sorted_object: "\<exists>kvs'. sort_keys (JObj kvs) = JObj kvs' \<and> set (map fst kvs') = set (map fst kvs)"
  by (simp, metis fst_sort_keys_members list.set_map)

lemma input_ref_sort_keys: "dict_like v \<Longrightarrow> input_ref (sort_keys v) = input_ref v"
proof (cases v)
  case (JObj kvs)
  assume "dict_like v"
  obtain kvs' where k: "sort_keys (JObj kvs) = JObj kvs'" using sorted_object by blast
  with \<open>dict_like v\<close> JObj have "string_field kvs' = string_field kvs" by (intro ext string_field_sorted) simp_all
  then show ?thesis unfolding JObj k by (simp only: input_ref_def json.case)
qed (simp_all add: input_ref_def)

lemma check_refs_sort_keys:
  "dict_like_list vs \<Longrightarrow> check_refs spelling seen (map sort_keys vs) = check_refs spelling seen vs"
  by (induction vs arbitrary: seen) (auto simp: input_ref_sort_keys intro!: rbind_cong)

lemma validate_input_refs_sort_keys:
  "dict_like v \<Longrightarrow> validate_input_refs nfc fold_case (sort_keys v) = validate_input_refs nfc fold_case v"
  by (cases v) (simp_all add: validate_input_refs_def check_refs_sort_keys sort_keys_list_map)

lemma check_producer_sort_keys:
  assumes "\<And>w. v = Some w \<Longrightarrow> dict_like w"
  shows "check_producer (map_option sort_keys v) stage = check_producer v stage"
proof (cases "\<exists>kvs. v = Some (JObj kvs)")
  case True
  then obtain kvs where v: "v = Some (JObj kvs)" by blast
  obtain kvs' where k: "sort_keys (JObj kvs) = JObj kvs'" "set (map fst kvs') = set (map fst kvs)" using sorted_object by blast
  have "string_field kvs' = string_field kvs" using assms v k(1) by (intro ext string_field_sorted) blast+
  then show ?thesis unfolding v option.map k(1) by (simp only: check_producer_def option.case json.case keys_are_def k(2))
next
  case False
  then show ?thesis by (cases v; cases "the v") (simp_all add: check_producer_def)
qed

lemma known_stage_sort_keys: "known_stage (sort_keys v) = known_stage v"
  by (simp add: known_stage_def)

lemma pyany_of_sort_keys: "pyany_of (sort_keys v) = pyany_of v"
  by (cases v) (simp_all add: pyany_of_def)

lemma approval_read_sort_keys: "approval_read (map_option sort_keys v) = approval_read v"
  by (cases v; cases "the v") (simp_all add: approval_read_def)

lemma check_boundary_sort_keys:
  "check_boundary stage kind (sort_keys out) (map_option sort_keys approval) = check_boundary stage kind out approval"
  unfolding check_boundary_def pyany_of_sort_keys approval_read_sort_keys sort_keys_text ..

lemma stage_of_sort_keys: "stage_of (map_option sort_keys v) = stage_of v"
  by (cases v) (simp_all add: stage_of_def known_stage_sort_keys)

lemma dict_like_field: "dict_like (JObj kvs) \<Longrightarrow> field kvs name = Some v \<Longrightarrow> dict_like v"
  by (auto simp: field_def dict_like_members_all list_all_iff dest!: map_of_SomeD)

lemma verify_self_hash_sort_keys:
  assumes "dict_like (JObj kvs)" "sort_keys (JObj kvs) = JObj kvs'" "verify_self_hash sha kvs"
  shows "verify_self_hash sha kvs'"
proof -
  obtain t where t: "canonical_text (JObj (unsealed kvs)) = Inr t" "field kvs ''self_hash'' = Some (JStr (sha t))"
    using verified_seal [OF assms(3)] by blast
  have k: "kvs' = sort_key fst (sort_keys_members kvs)" using assms(2) by simp
  have d: "distinct (map fst kvs')" "distinct (map fst kvs)" using assms(1) by (simp_all add: k distinct_sort_key)
  then have d': "distinct (map fst (unsealed kvs'))" "distinct (map fst (unsealed kvs))"
    by (auto simp: unsealed_def distinct_map inj_on_def)
  have set: "set (unsealed kvs') = (\<lambda>(k, v). (k, sort_keys v)) ` set (unsealed kvs)"
    by (auto simp: k unsealed_def sort_keys_members_map)
  have twice: "(\<lambda>(k, v). (k, sort_keys v)) ` (\<lambda>(k, v). (k, sort_keys v)) ` X = (\<lambda>(k, v). (k, sort_keys v)) ` X" for X :: "(ustr \<times> json) set"
    by (force simp: sort_keys_twice image_iff)
  have "sort_keys (JObj (unsealed kvs')) = sort_keys (JObj (unsealed kvs))"
    using sort_keys_object_iff [OF d'] by (simp add: sort_keys_members_set set twice)
  moreover have "refuse_floats 0 (JObj (unsealed kvs')) = Inr ()"
  proof -
    have "refuse_floats 0 (JObj (unsealed kvs)) = Inr ()" using canonical_text_cases [OF t(1)] by simp
    then have "\<forall>(k, v) \<in> set (unsealed kvs'). refuse_floats 1 v = Inr ()"
      by (auto simp: set refuse_in_object_iff intro: refuse_sort_keys split: if_splits)
    then show ?thesis by (simp add: refuse_in_object_iff MAX_CANONICAL_DEPTH_def)
  qed
  ultimately have "canonical_text (JObj (unsealed kvs')) = Inr t"
    using t(1) canonical_text_cases [OF t(1)] by (simp add: canonical_text_def Let_def)
  moreover have "field kvs' ''self_hash'' = Some (JStr (sha t))"
    using field_sorted [OF assms(1,2)] t(2) by simp
  ultimately show ?thesis
    by (simp add: verify_self_hash_def self_hash_def digest_of_def unsealed_def)
qed

lemma named_text_sorted:
  assumes "dict_like (JObj kvs)" "sort_keys (JObj kvs) = JObj kvs'"
  shows "named_text kvs' name = named_text kvs name"
  by (simp add: named_text_def string_field_sorted [OF assms])

lemma attempt_of_sorted:
  assumes "dict_like (JObj kvs)" "sort_keys (JObj kvs) = JObj kvs'"
  shows "attempt_of kvs' = attempt_of kvs"
  using field_sorted [OF assms, of "''attempt_id''"]
  by (auto simp: attempt_of_def split: option.splits json.splits)

lemma is_well_formed_sort_keys: "is_well_formed (sort_keys v) = is_well_formed v"
  by (cases v) (simp_all add: is_well_formed_def)

lemma check_payload_sort_keys: "check_payload (map_option sort_keys v) = check_payload v"
  by (cases v; cases "the v") (simp_all add: check_payload_def)

lemma validate_envelope_Inr:
  "validate_envelope sha nfc fold_case (JObj kvs) = Inr env \<longleftrightarrow>
   env = kvs \<and> envelope_keys kvs \<and> field kvs ''schema'' = Some (JStr SCHEMA_LABEL) \<and>
   (\<exists>run config. named_text kvs ''run_id'' = Inr run \<and> named_text kvs ''config_digest'' = Inr config) \<and>
   (\<exists>stage kind subject attempt expected out. stage_of (field kvs ''stage'') = Inr stage \<and> named_text kvs ''kind'' = Inr kind \<and>
      named_text kvs ''subject_id'' = Inr subject \<and> attempt_of kvs = Inr attempt \<and>
      artifact_id sha (JStr (u stage)) (JStr kind) (JStr subject) attempt = Inr expected \<and>
      field kvs ''artifact_id'' = Some (JStr expected) \<and> is_well_formed (JStr expected) \<and>
      check_producer (field kvs ''producer'') stage = Inr () \<and>
      field kvs ''outcome'' = Some out \<and> check_boundary stage kind out (field kvs ''approval_ref'') = Inr ()) \<and>
   (\<exists>inputs paths. field kvs ''inputs'' = Some inputs \<and> validate_input_refs nfc fold_case inputs = Inr paths) \<and>
   check_payload (field kvs ''payload'') = Inr () \<and> verify_self_hash sha kvs"
  by (auto simp: validate_envelope_def result_simps bound_def)

lemma accepted_sorted:
  assumes v: "validate_envelope sha nfc fold_case (JObj kvs) = Inr env"
    and d: "dict_like (JObj kvs)" and k: "sort_keys (JObj kvs) = JObj kvs'"
  shows "validate_envelope sha nfc fold_case (JObj kvs') = Inr kvs'"
proof -
  note f = field_sorted [OF d k]
  note v = v [unfolded validate_envelope_Inr]
  have keys: "set (map fst kvs') = set (map fst kvs)" using sorted_object [of kvs] k by (metis json.inject(5))
  obtain inputs paths where i: "field kvs ''inputs'' = Some inputs" "validate_input_refs nfc fold_case inputs = Inr paths"
    using v by blast
  have "validate_input_refs nfc fold_case (sort_keys inputs) = Inr paths"
    using validate_input_refs_sort_keys [OF dict_like_field [OF d i(1)]] i(2) by simp
  moreover have "check_producer (field kvs' ''producer'') stage = check_producer (field kvs ''producer'') stage" for stage
    unfolding f using dict_like_field [OF d] by (intro check_producer_sort_keys)
  moreover have "verify_self_hash sha kvs'" using verify_self_hash_sort_keys [OF d k] v by blast
  moreover have "envelope_keys kvs'" using v keys unfolding envelope_keys_def by simp
  ultimately show ?thesis
    using v i unfolding validate_envelope_Inr named_text_sorted [OF d k] attempt_of_sorted [OF d k] f
    by (auto simp: stage_of_sort_keys check_payload_sort_keys check_boundary_sort_keys)
qed

section \<open>What was checked\<close>

lemma stage_checked: "stage_of v = Inr stage \<Longrightarrow> v = Some (JStr (u stage)) \<and> known_stage (JStr (u stage)) = Some stage"
  by (auto simp: stage_of_def known_stage_def rget_def find_Some_iff split: option.splits)

lemma named_text_checked: "named_text kvs name = Inr s \<Longrightarrow> string_field kvs name = Some s"
  by (auto simp: named_text_def split: option.splits if_splits)

lemma attempt_checked: "attempt_of kvs = Inr v \<Longrightarrow> field kvs ''attempt_id'' = Some v"
  by (auto simp: attempt_of_def split: option.splits json.splits if_splits)

lemma producer_checked:
  "check_producer v stage = Inr () \<Longrightarrow> \<exists>producer. v = Some (JObj producer) \<and> string_field producer ''stage'' = Some (u stage)"
  by (auto simp: check_producer_def split: option.splits json.splits if_splits)

lemma boundary_checked:
  assumes "check_boundary stage kind out approval = Inr ()"
  shows "(\<exists>k. classify stage (pyany_of out) = Inr k) \<and> require_approval stage (pyany_of out) (approval_read approval) = Inr ()"
  using assms by (auto simp: check_boundary_def result_simps split: option.splits if_splits)

lemma approval_checked:
  assumes "require_approval stage (pyany_of (JStr (u ''excluded''))) (approval_read approval) = Inr ()"
  shows "\<exists>s. approval = Some (JStr s) \<and> s \<noteq> []"
proof -
  have "pyany_of (JStr (u ''excluded'')) = PyStr ''excluded''" by code_simp
  with assms show ?thesis
    by (auto simp: require_approval_def approval_read_def result_simps split: option.splits json.splits if_splits)
qed

lemma inputs_checked:
  assumes "validate_input_refs nfc fold_case v = Inr x"
  obtains refs where "v = JList refs" "list_all is_run_relative (map (\<lambda>v. fst (projr (input_ref v))) refs)"
    "distinct (map (portable_spelling nfc fold_case) (map (\<lambda>v. fst (projr (input_ref v))) refs))"
proof -
  from assms obtain refs where r: "v = JList refs" "check_refs (portable_spelling nfc fold_case) [] refs = Inr x"
    by (auto simp: validate_input_refs_def split: json.splits)
  with check_refs_sound [OF r(2)] have "list_all is_run_relative (rev (map (\<lambda>v. fst (projr (input_ref v))) refs))"
    "distinct (rev (map (portable_spelling nfc fold_case) (map (\<lambda>v. fst (projr (input_ref v))) refs)))"
    by (auto simp: rev_map)
  with that r(1) show thesis by (simp add: list_all_iff)
qed

section \<open>Properties\<close>

text \<open>An artifact survives its handoff: an accepted envelope, written as its canonical text and read
  back, is accepted again, and every field is what was written, its keys in order.\<close>

theorem published_envelope_reads_back:
  assumes "validate_envelope sha nfc fold_case (JObj kvs) = Inr env" "dict_like (JObj kvs)"
    and "canonical_text (JObj kvs) = Inr t"
  shows "\<exists>kvs'. raw_decode t = Inr (JObj kvs', []) \<and> validate_envelope sha nfc fold_case (JObj kvs') = Inr kvs' \<and>
    (\<forall>name. field kvs' name = map_option sort_keys (field kvs name))"
proof -
  obtain kvs' where k: "sort_keys (JObj kvs) = JObj kvs'" using sorted_object by blast
  with canonical_text_read [OF assms(3,2)] have "raw_decode t = Inr (JObj kvs', [])" by simp
  with accepted_sorted [OF assms(1,2) k] field_sorted [OF assms(2) k] show ?thesis by blast
qed

text \<open>An accepted envelope is what it says: its artifact identity is derived from its own stage, kind,
  subject and attempt, the stage that produced it is its stage, it verifies under its self-hash, its
  outcome has a class in that stage's vocabulary and an exclusion carries an approval, and its inputs
  name run-relative paths, each file once under any spelling a host may give it.\<close>

theorem accepted_envelope_is_what_it_says:
  assumes "validate_envelope sha nfc fold_case (JObj kvs) = Inr env"
  shows "\<exists>stage kind subject attempt i refs paths out.
    known_stage (JStr (u stage)) = Some stage \<and> string_field kvs ''stage'' = Some (u stage) \<and>
    string_field kvs ''kind'' = Some kind \<and> string_field kvs ''subject_id'' = Some subject \<and> field kvs ''attempt_id'' = Some attempt \<and>
    artifact_id sha (JStr (u stage)) (JStr kind) (JStr subject) attempt = Inr i \<and> string_field kvs ''artifact_id'' = Some i \<and>
    (\<exists>producer. field kvs ''producer'' = Some (JObj producer) \<and> string_field producer ''stage'' = Some (u stage)) \<and>
    verify_self_hash sha kvs \<and>
    field kvs ''outcome'' = Some out \<and> (\<exists>k. classify stage (pyany_of out) = Inr k) \<and>
    (out = JStr (u ''excluded'') \<longrightarrow> (\<exists>s. string_field kvs ''approval_ref'' = Some s \<and> s \<noteq> [])) \<and>
    field kvs ''inputs'' = Some (JList refs) \<and> paths = map (\<lambda>v. fst (projr (input_ref v))) refs \<and>
    list_all is_run_relative paths \<and> distinct (map (portable_spelling nfc fold_case) paths)"
proof -
  note v = assms [unfolded validate_envelope_Inr]
  obtain stage kind subject attempt i out where e: "stage_of (field kvs ''stage'') = Inr stage" "named_text kvs ''kind'' = Inr kind"
    "named_text kvs ''subject_id'' = Inr subject" "attempt_of kvs = Inr attempt"
    "artifact_id sha (JStr (u stage)) (JStr kind) (JStr subject) attempt = Inr i" "field kvs ''artifact_id'' = Some (JStr i)"
    "check_producer (field kvs ''producer'') stage = Inr ()" "field kvs ''outcome'' = Some out"
    "check_boundary stage kind out (field kvs ''approval_ref'') = Inr ()"
    using v by blast
  obtain inputs paths where p: "field kvs ''inputs'' = Some inputs" "validate_input_refs nfc fold_case inputs = Inr paths"
    using v by blast
  obtain refs where r: "inputs = JList refs" "list_all is_run_relative (map (\<lambda>v. fst (projr (input_ref v))) refs)"
    "distinct (map (portable_spelling nfc fold_case) (map (\<lambda>v. fst (projr (input_ref v))) refs))"
    by (rule inputs_checked [OF p(2)])
  have approved: "out = JStr (u ''excluded'') \<longrightarrow> (\<exists>s. string_field kvs ''approval_ref'' = Some s \<and> s \<noteq> [])"
  proof
    assume "out = JStr (u ''excluded'')"
    with boundary_checked [OF e(9)] approval_checked [of stage "field kvs ''approval_ref''"]
    obtain s where "field kvs ''approval_ref'' = Some (JStr s)" "s \<noteq> []" by auto
    then show "\<exists>s. string_field kvs ''approval_ref'' = Some s \<and> s \<noteq> []" by (simp add: string_field_def)
  qed
  have ids: "string_field kvs ''stage'' = Some (u stage)" "string_field kvs ''artifact_id'' = Some i"
    using stage_checked [OF e(1)] e(6) by (simp_all add: string_field_def)
  show ?thesis
    using stage_checked [OF e(1)] ids named_text_checked [OF e(2)] named_text_checked [OF e(3)] attempt_checked [OF e(4)]
      e(5,8) producer_checked [OF e(7)] v boundary_checked [OF e(9)] approved p(1) r
    by (intro exI [of _ stage] exI [of _ kind] exI [of _ subject] exI [of _ attempt] exI [of _ i] exI [of _ refs]
        exI [of _ "map (\<lambda>v. fst (projr (input_ref v))) refs"] exI [of _ out]) simp
qed

section \<open>An envelope built\<close>

definition demo_given :: envelope_given where
  "demo_given = \<lparr>eg_run_id = JStr (u ''r''),
     eg_artifact_id = JStr (projr (artifact_id demo_digest (JStr (u ''attestatores'')) (JStr (u ''k'')) (JStr (u ''s'')) JNull)),
     eg_subject_id = JStr (u ''s''), eg_stage = JStr (u ''attestatores''), eg_kind = JStr (u ''k''), eg_outcome = JStr (u ''excluded''),
     eg_config_digest = JStr (u ''c''), eg_adapter_revision = JStr (u ''1''),
     eg_inputs = JList [JObj [(u ''relative_path'', JStr (u ''b'')), (u ''sha256'', JStr (replicate 64 97))],
       JObj [(u ''relative_path'', JStr (u ''a'')), (u ''sha256'', JStr (replicate 64 98))]],
     eg_payload = JObj [], eg_attempt = JNull, eg_approval_ref = JStr (u ''p'')\<rparr>"

lemma built_is_accepted:
  "build_envelope sha nfc fold_case g = Inr kvs \<Longrightarrow> validate_envelope sha nfc fold_case (JObj kvs) = Inr kvs"
  by (auto simp: build_envelope_def result_simps split: json.splits) (metis validate_envelope_Inr)+

lemma demo_envelope: "\<exists>kvs t. validate_envelope demo_digest id id (JObj kvs) = Inr kvs \<and> dict_like (JObj kvs) \<and> canonical_text (JObj kvs) = Inr t"
proof -
  have "case build_envelope demo_digest id id demo_given of Inl e \<Rightarrow> False
    | Inr kvs \<Rightarrow> dict_like (JObj kvs) \<and> (case canonical_text (JObj kvs) of Inl e \<Rightarrow> False | Inr t \<Rightarrow> True)"
    by code_simp
  then show ?thesis by (auto split: sum.splits dest: built_is_accepted)
qed

lemma published_envelope_reads_back_witness:
  "\<exists>kvs t kvs'. canonical_text (JObj kvs) = Inr t \<and> raw_decode t = Inr (JObj kvs', []) \<and>
     validate_envelope demo_digest id id (JObj kvs') = Inr kvs'"
proof -
  obtain kvs t where e: "validate_envelope demo_digest id id (JObj kvs) = Inr kvs" "dict_like (JObj kvs)" "canonical_text (JObj kvs) = Inr t"
    using demo_envelope by blast
  from published_envelope_reads_back [OF e] e(3) show ?thesis by blast
qed

lemma accepted_envelope_is_what_it_says_witness:
  "\<exists>kvs kind. validate_envelope demo_digest id id (JObj kvs) = Inr kvs \<and> string_field kvs ''kind'' = Some kind \<and> verify_self_hash demo_digest kvs"
proof -
  obtain kvs where e: "validate_envelope demo_digest id id (JObj kvs) = Inr kvs" using demo_envelope by blast
  from accepted_envelope_is_what_it_says [OF e] e show ?thesis by blast
qed

end
