(* ===== verification/Spec2Isabelle.thy ===== *)
theory Spec2Isabelle
  imports Prelude Reconciled PolicyLoad Regions TextNorm Graded Reask AlignOrder CoverageFacts
    Myers SealedFacts InkMapFacts PageFeedFacts WindowFacts HardFailureFacts LeaseFacts
    RepetitionFacts RegisterFacts EnvelopeFacts
begin

text \<open>
  Apparatus Verbatus transcribes pages of hand-written registers. Stages run one after another over a
  sealed run tree: the door admits page images, the Ink Map measures each page's ink, witnesses read it
  independently, the Perlector reads it with the witnesses' testimony before it, and the later stages
  reconcile, establish and export what was read. The code's promise is that nothing is lost in silence: an
  act that was read badly, a page whose ink no reading covers, a witness that did not answer ends as a
  named hold, never as an omission. This development models the parts of \<open>common/\<close> that decide this, the
  contracts its records are handed over by, and two machines of the operating layer around them.

  \<^bold>\<open>The parts and their theories.\<close>

  \<^item> The outcome algebra, \<open>common/contracts/outcomes.py\<close>. \<open>Outcomes\<close> holds the vocabulary of every stage, the
    transition table, witness coverage and the text status; \<open>Aggregate\<close> holds \<open>run_aggregate\<close> section by
    section. \<open>Algebra\<close> shows the startup check and what it means; \<open>Reconciled\<close> shows that a run is complete
    exactly when all of it reconciles.
  \<^item> Page types and edges, \<open>common/page_types.py\<close> and \<open>common/page_edges.py\<close>: \<open>PageTypes\<close> and \<open>Edges\<close>, each
    with its facts (what a stated page type may relax; the chains of page breaks).
  \<^item> The page answer, \<open>common/page_answer.py\<close>: \<open>Json\<close> decodes the model's reply, \<open>Grammar\<close> holds the grammar,
    the grading and the one repair, \<open>Graded\<close> what a graded answer is.
  \<^item> The page feed, \<open>common/page_feed.py\<close> with the boxes of \<open>common/page_witness_units.py\<close> and the references of
    \<open>common/contracts/envelope.py\<close>: \<open>PageFeed\<close> builds it, \<open>Feed\<close> is what the accounting reads of it, and
    \<open>PageFeedFacts\<close> joins the two: what is built is accepted.
  \<^item> The page accounting, \<open>common/page_accounting.py\<close>: \<open>Policy\<close> (codes and thresholds), \<open>Regions\<close> (areas),
    \<open>TextNorm\<close> (normalized text), \<open>Answer\<close> (citations, regions, set-asides), \<open>Reask\<close> (the second reading),
    \<open>Align\<close> (matching blocks), \<open>Coverage\<close> (what of a witness text was read, the bit-parallel distance),
    \<open>Sealed\<close> (the sealed detections and witnesses), \<open>Findings\<close>, \<open>Rules\<close> and \<open>Accounting\<close> (the ten rules and the
    record). Their facts are \<open>PolicyLoad\<close>, \<open>AnswerFacts\<close>, \<open>Validated\<close>, \<open>AlignFacts\<close>, \<open>AlignOrder\<close>, \<open>CoverageFacts\<close>,
    \<open>Myers\<close>, \<open>TextFacts\<close>, \<open>SealedFacts\<close> and \<open>AccountingFacts\<close>.
  \<^item> The ink, \<open>common/residual_ink.py\<close>, \<open>common/background.py\<close>, \<open>common/components.py\<close>, \<open>common/calibration.py\<close>,
    \<open>common/ink_map_measure.py\<close> and \<open>pipeline/1_ink_map/run.py\<close>: \<open>Background\<close> infers the paper, \<open>UnionFind\<close> and
    \<open>Labels\<close> label the ink, \<open>Ink\<close> measures it, \<open>Binary64\<close> holds the floats of the shares, \<open>InkMap\<close> the page's
    record and its readers. Their facts are \<open>BackgroundFacts\<close>, \<open>LabelFacts\<close>, \<open>Components\<close>, \<open>InkFacts\<close> and
    \<open>InkMapFacts\<close>.
  \<^item> The contracts of a record. \<open>common/contracts/canonical.py\<close>: \<open>Canonical\<close> is the one serialization and the digests
    over it, \<open>CanonicalFacts\<close> its round trip and what a self-hash seals. \<open>common/contracts/identities.py\<close>:
    \<open>Identities\<close> derives and verifies every identity, \<open>IdentitiesFacts\<close> shows that an identity binds its facts.
    \<open>common/contracts/envelope.py\<close>: \<open>Envelope\<close> builds and validates a handoff, \<open>EnvelopeFacts\<close> shows what an accepted
    one is and that it survives being written and read.
  \<^item> The corpus register, \<open>common/corpus_register.py\<close>: \<open>Register\<close> replays its records and appends to it, \<open>RegisterFacts\<close>
    shows what every replayed register keeps, that a retraction restores what was before, that the register only grows
    and that no writer overwrites another.
  \<^item> The window of calls, \<open>common/in_order_window.py\<close>: \<open>Window\<close> is its step relation, with the job that has left the
    window and is not finished, the job drawn and not in the window yet, and the loop of width 1; \<open>WindowFacts\<close> shows
    its order, its bounds, its serial specification, its end, and which reply an interrupt can lose.
  \<^item> The repetition-loop guard, \<open>common/repetition_loop.py\<close>: \<open>Repetition\<close> is the scanner fed in pieces, \<open>RepetitionFacts\<close> shows
    that how the reply is cut changes nothing and that the finding is the first loop there is.
  \<^item> The hard-failure cap, \<open>common/hard_failure.py\<close>: \<open>HardFailure\<close> and \<open>HardFailureFacts\<close>, over the outcome algebra.
  \<^item> The pod lease, \<open>operations/pod/lease.py\<close>: \<open>Lease\<close> is the lease with the operations of its store, \<open>LeaseFacts\<close>
    what any sequence of requests keeps.

  \<open>Prelude\<close> holds what all share: exceptions as values of a sum, \<open>rbind\<close> for code that may raise, the collecting
  loops, decimal numerals, texts and JSON values. \<open>Machines\<close> holds reachable states and the locales of step
  relations.

  \<^bold>\<open>How state and values correspond.\<close> A dictionary is an association list in insertion order; a frozen dataclass
  or a closed dictionary is a record; a set that is only tested is a list; Python's integers are \<open>int\<close>. An
  exception is \<open>Inl\<close> of its class and a short name of the check that raised it, and every raise of a modelled
  function is a branch. A text is the list of its code points. A value of any type is a \<open>json\<close> or, in the outcome
  algebra, a \<open>pyany\<close>; a sentence the code formats is a constructor that carries its arguments. The Unicode
  tables normalization needs are a parameter, the record \<open>unicode\<close>, with \<open>ascii\<close> as an instance for the witnesses;
  the contracts take the composed form \<open>nfc\<close>, the case folding \<open>fold_case\<close> and hashlib's digest \<open>sha\<close> of a text's UTF-8
  bytes as parameters. Nothing is assumed of \<open>sha\<close> but, where it is said, its shape: where two texts may share a digest,
  a theorem names the two texts as its way out.

  \<^bold>\<open>The interfaces.\<close> \<open>audit\<close> (a check whose reasons are empty exactly on clean elements) carries the sections of
  \<open>run_aggregate\<close>; \<open>area_measure\<close> the region arithmetic over the sweep; \<open>candidate_provider\<close> the reading of an answer
  over the candidates of a feed; \<open>partition\<close> the joining of runs over the union-find; \<open>machine\<close> and its two
  extensions the window, the lease and the corpus register. Each is interpreted on the code's own definitions.

  \<^bold>\<open>Loops and bounds.\<close> Most loops are structural. The alignment's work list (\<open>match_loop\<close>) is bounded by the measure
  of its ranges, and its guard is never what stops it (\<open>match_turn_left\<close>). \<open>find_root\<close> follows parent links and may in
  principle not return: it is a partial function, and \<open>labelling_returns\<close> shows that on every labelling each of its
  calls returns. The window's runs end by a lexicographic measure (\<open>still_to_do\<close>). The JSON
  decoder (\<open>Json\<close>) runs on fuel, one unit for each call, and \<open>scan_fuel\<close> and \<open>raw_decode_fuel\<close> show that the fuel it is
  given, taken from the text's length, is never used up. Nothing else uses fuel.
  \<open>Binary64\<close> rounds quotients to 53 bits, half to even; the shares it computes are of counts of pixels, far from
  the ends of the exponent's range.

  \<^bold>\<open>Not modelled.\<close> The run tree and its seals (\<open>common/runtree\<close>, \<open>common/stage.py\<close>): files, locks and the digests of
  files; the hard-failure tally takes the tree as its manifests. Of the contracts, the bytes of a text and the reading of
  the files an envelope names; of the corpus register, its path, its lock and the snapshots of a run: a writer is
  atomic, as its lock makes it. A second interrupt while the window records what has arrived. Images (\<open>common/imaging.py\<close> and the door): decoders of a
  library, of which only pixels and boxes are read here. The serving, pod and provider code around the lease, the
  operator's surface, the bake-off, corpus and training tools: processes, sockets, subprocesses and screens. The
  drawn overlay, the prompt and the digest of a page feed, and the reading of a witness's retained bytes. Of the
  lease, the bytes of its file and the texts of its stamps. Code that only formats sentences keeps their arguments.
\<close>

end
